(* ===== verification/Prelude.thy ===== *)
theory Prelude
  imports Main "HOL-Library.Word" "HOL-Library.Monad_Syntax"
begin

text \<open>
  Shared vocabulary of the development: the machine types of the program, undefined
  behaviour as \<open>None\<close>, the few operations of \<open>std::vector\<close>, \<open>std::copy\<close> and \<open>memcpy\<close> the
  sources use, and the little-endian reading and writing of integers that
  \<open>reinterpret_cast\<close> performs on the x86 targets of the project files.

  The result type \<open>'a option\<close> of an operation stands for ``returns a value, or runs into
  undefined behaviour'': an access outside an array, a dereferenced null pointer or a
  failed \<open>assert\<close> is \<open>None\<close>.  Allocation failure (\<open>std::bad_alloc\<close>) is not modelled.
\<close>

section \<open>Machine types\<close>

type_synonym byte = "8 word"
type_synonym u16 = "16 word"
type_synonym u32 = "32 word"
type_synonym dword = "32 word"   \<comment> \<open>Windows \<open>DWORD\<close>\<close>
type_synonym s32 = "32 word"     \<comment> \<open>\<open>int\<close>, \<open>int32_t\<close>: two's complement, read by \<open>sint\<close>\<close>

named_theorems bytes_simps \<open>rewriting of byte lists, integers in memory and copies\<close>
named_theorems ub_intros \<open>introduction rules: an operation does not run into undefined behaviour\<close>

section \<open>Integers in memory\<close>

text \<open>\<open>le_bytes n x\<close>: the \<open>n\<close> bytes of \<open>x\<close>, least significant first.\<close>

fun le_bytes :: "nat \<Rightarrow> nat \<Rightarrow> byte list" where
  "le_bytes 0 x = []"
| "le_bytes (Suc n) x = of_nat (x mod 256) # le_bytes n (x div 256)"

fun le_nat :: "byte list \<Rightarrow> nat" where
  "le_nat [] = 0"
| "le_nat (b # bs) = unat b + 256 * le_nat bs"

lemma le_bytes_numeral:
  "le_bytes (numeral k) x = of_nat (x mod 256) # le_bytes (pred_numeral k) (x div 256)"
  by (simp only: numeral_eq_Suc [of k] le_bytes.simps)

lemma length_le_bytes [simp, bytes_simps]: "length (le_bytes n x) = n"
  by (induction n arbitrary: x) auto

lemma le_nat_le_bytes [bytes_simps]: "le_nat (le_bytes n x) = x mod 256 ^ n"
proof (induction n arbitrary: x)
  case 0
  then show ?case by simp
next
  case (Suc n)
  have "unat (of_nat (x mod 256) :: byte) = x mod 256"
    by (simp add: unat_of_nat)
  then show ?case
    using Suc by (simp add: mod_mult2_eq)
qed

lemma le_nat_bound: "le_nat bs < 256 ^ length bs"
proof (induction bs)
  case Nil
  then show ?case by simp
next
  case (Cons b bs)
  have "unat b < 256"
    using unsigned_less [of b] by simp
  moreover have "Suc (le_nat bs) \<le> 256 ^ length bs"
    using Cons by simp
  then have "256 * Suc (le_nat bs) \<le> 256 * 256 ^ length bs"
    by (rule mult_le_mono2)
  ultimately show ?case by simp
qed

lemma le_bytes_le_nat: "length bs = n \<Longrightarrow> le_bytes n (le_nat bs) = bs"
proof (induction bs arbitrary: n)
  case Nil
  then show ?case by simp
next
  case (Cons b bs)
  have b: "unat b < 256"
    using unsigned_less [of b] by simp
  obtain m where n: "n = Suc m" and m: "length bs = m"
    using Cons.prems by auto
  have "(unat b + 256 * le_nat bs) div 256 = le_nat bs"
    using b by simp
  moreover have "(unat b + 256 * le_nat bs) mod 256 = unat b"
    using b by simp
  ultimately show ?case
    using n Cons.IH [OF m] by simp
qed

text \<open>The 32-bit reading of the first four bytes at an address, and the 32-bit write.\<close>

definition u32_bytes :: "u32 \<Rightarrow> byte list" where
  "u32_bytes w = le_bytes 4 (unat w)"

definition bytes_u32 :: "byte list \<Rightarrow> u32" where
  "bytes_u32 bs = of_nat (le_nat (take 4 bs))"

lemma length_u32_bytes [simp, bytes_simps]: "length (u32_bytes w) = 4"
  by (simp add: u32_bytes_def)

lemma bytes_u32_u32_bytes [simp, bytes_simps]: "bytes_u32 (u32_bytes w @ bs) = w"
proof -
  have "unat w < 256 ^ 4"
    using unsigned_less [of w] by simp
  then have "le_nat (u32_bytes w) = unat w"
    by (simp add: u32_bytes_def le_nat_le_bytes)
  then show ?thesis
    by (simp add: bytes_u32_def)
qed

lemma u32_bytes_bytes_u32: "length bs = 4 \<Longrightarrow> u32_bytes (bytes_u32 bs) = bs"
  using le_nat_bound [of bs]
  by (simp add: u32_bytes_def bytes_u32_def unat_of_nat le_bytes_le_nat)

lemma bytes_u32_take [simp]: "4 \<le> n \<Longrightarrow> bytes_u32 (take n bs) = bytes_u32 bs"
  by (simp add: bytes_u32_def min_def)

lemma bytes_u32_append: "4 \<le> length xs \<Longrightarrow> bytes_u32 (xs @ ys) = bytes_u32 xs"
  by (simp add: bytes_u32_def)

section \<open>Vectors and copies\<close>

text \<open>\<open>std::vector<uint8_t>::resize\<close>: keeps the prefix, value-initialises the new bytes.\<close>

definition vec_resize :: "nat \<Rightarrow> byte list \<Rightarrow> byte list" where
  "vec_resize n xs = take n xs @ replicate (n - length xs) 0"

text \<open>
  \<open>std::copy(src, src + n, dst + off)\<close> between distinct arrays: undefined when it reads
  past the source or writes past the destination.
\<close>

definition copy_to :: "byte list \<Rightarrow> nat \<Rightarrow> byte list \<Rightarrow> nat \<Rightarrow> byte list option" where
  "copy_to src n dst off =
     (if n \<le> length src \<and> off + n \<le> length dst
      then Some (take off dst @ take n src @ drop (off + n) dst)
      else None)"

lemma length_vec_resize [simp, bytes_simps]: "length (vec_resize n xs) = n"
  by (simp add: vec_resize_def)

lemma take_vec_resize [bytes_simps]:
  "k \<le> length xs \<Longrightarrow> k \<le> n \<Longrightarrow> take k (vec_resize n xs) = take k xs"
  by (simp add: vec_resize_def min_def)

lemma copy_to_defined [ub_intros]:
  "n \<le> length src \<Longrightarrow> off + n \<le> length dst \<Longrightarrow>
   copy_to src n dst off = Some (take off dst @ take n src @ drop (off + n) dst)"
  by (simp add: copy_to_def)

lemma copy_to_SomeD:
  assumes "copy_to src n dst off = Some r"
  shows "length r = length dst"
    and "take (off + n) r = take off dst @ take n src"
    and "n \<le> length src" and "off + n \<le> length dst"
  using assms by (auto simp: copy_to_def split: if_splits)

section \<open>Words as lengths\<close>

lemma unat_min: "unat (min a b :: 'a::len word) = min (unat a) (unat b)"
  by (simp add: min_def word_le_nat_alt)

lemma unat_sub_le: "(b :: 'a::len word) \<le> a \<Longrightarrow> unat (a - b) = unat a - unat b"
  by (rule unat_sub)

lemma unat_add_small:
  "unat a + unat b < 2 ^ LENGTH('a) \<Longrightarrow> unat (a + b :: 'a::len word) = unat a + unat b"
  by (simp add: unat_add_lem)

lemma unat_of_nat_small: "n < 2 ^ LENGTH('a) \<Longrightarrow> unat (of_nat n :: 'a::len word) = n"
  by (simp add: unat_of_nat)

lemma word_of_nat_unat: "unat (w :: 'a::len word) = n \<Longrightarrow> w = of_nat n"
  by auto

lemma unat_ucast_up [simp]:
  "unat (ucast (x :: 32 word) :: 64 word) = unat x"
  "unat (ucast (y :: 16 word) :: 64 word) = unat y"
  "unat (ucast (z :: 8 word) :: 64 word) = unat z"
  by (transfer, simp add: take_bit_nat_eq_self_iff)+

lemma unat_ucast_down: "unat (ucast (x :: 64 word) :: 32 word) = unat x mod 2 ^ 32"
  by (simp only: unsigned_ucast_eq) (simp add: take_bit_eq_mod)

text \<open>Lists cut at a position that a prefix reaches.\<close>

lemma take_append_eq: "k \<le> length xs \<Longrightarrow> take k (xs @ ys) = take k xs"
  by simp

lemma take_add_drop: "take (m + n) xs = take m xs @ take n (drop m xs)"
  by (rule take_add)

lemma takeWhile_stop: "\<not> P x \<Longrightarrow> takeWhile P (xs @ x # ys) = takeWhile P xs"
  by (induction xs) simp_all

section \<open>Signed reading of words\<close>

lemma sint_small:
  fixes w :: "'a::len word"
  assumes "unat w < 2 ^ (LENGTH('a) - 1)"
  shows "sint w = int (unat w)"
proof -
  have i: "int (unat w) = uint w" by (rule of_nat_unat)
  have "int (unat w) < int (2 ^ (LENGTH('a) - 1))" using assms by (simp only: of_nat_less_iff)
  then have u: "0 \<le> uint w" "uint w < 2 ^ (LENGTH('a) - 1)" using i by simp_all
  have "sint w = signed_take_bit (LENGTH('a) - Suc 0) (uint w)"
    by (rule sint_uint)
  also have "\<dots> = uint w"
  proof (rule signed_take_bit_int_eq_self)
    show "- (2 ^ (LENGTH('a) - Suc 0)) \<le> uint w" by (rule order_trans [OF _ u(1)]) simp
  qed (use u in simp)
  finally show ?thesis using i by simp
qed

lemma sint_nonneg_u32:
  fixes w :: u32
  assumes "unat w < 2 ^ 31"
  shows "\<not> sint w < 0"
  using sint_small [of w] assms by simp

section \<open>Loops in partial functions\<close>

text \<open>A loop over \<open>xs\<close> that updates a state and may fail; its body may call a partial function.\<close>

primrec option_loop :: "('i \<Rightarrow> 's \<Rightarrow> 's option) \<Rightarrow> 'i list \<Rightarrow> 's \<Rightarrow> 's option" where
  "option_loop f [] s = Some s"
| "option_loop f (x # xs) s = do { s \<leftarrow> f x s; option_loop f xs s }"

lemma option_loop_mono [partial_function_mono]:
  assumes "\<And>x s. mono_option (\<lambda>f. F f x s)"
  shows "mono_option (\<lambda>f. option_loop (F f) xs s)"
proof (induction xs arbitrary: s)
  case Nil
  show ?case by (simp add: option.const_mono)
next
  case (Cons x xs)
  show ?case unfolding option_loop.simps by (intro bind_mono assms Cons.IH)
qed

lemma option_loop_append: "option_loop f (xs @ ys) s = do { s \<leftarrow> option_loop f xs s; option_loop f ys s }"
  by (induction xs arbitrary: s) (auto split: bind_splits)

section \<open>Console output\<close>

text \<open>What the example programs write to \<open>std::cout\<close>, one item per \<open><<\<close>.\<close>

datatype out_item = Text string | CString "byte list" | Number int | Endl

end
