(* ===== verification/Socket_Buffer.thy ===== *)
theory Socket_Buffer
  imports Prelude
begin

text \<open>
  \<open>lib/iocplib/socket_buffer.h\<close>: the class \<open>SocketBuffer\<close>, a byte vector that holds one
  outgoing packet: a 32-bit little-endian length followed by the payload.  An object is
  modelled by its only field \<open>buffer_\<close>.
\<close>

section \<open>The class\<close>

type_synonym socket_buffer = "byte list"

text \<open>
  The constructor from payload and size.  \<open>size + header_len\<close> is computed in \<open>uint32_t\<close>
  and wraps; the copy and the write of the header go to whatever the vector holds then.
\<close>

definition make_socket_buffer :: "byte list \<Rightarrow> u32 \<Rightarrow> socket_buffer option" where
  "make_socket_buffer data sz = do {
     let header_len = (4 :: u32);
     let buffer = vec_resize (unat (sz + header_len)) [];
     buffer \<leftarrow> copy_to data (unat sz) buffer (unat header_len);
     copy_to (u32_bytes sz) 4 buffer 0
   }"

definition allocate :: "byte list \<Rightarrow> u32 \<Rightarrow> socket_buffer option" where
  "allocate data sz = make_socket_buffer data sz"

text \<open>
  \<open>Slice\<close>: \<open>start + size\<close> is an \<open>int\<close> addition (signed overflow is undefined); the
  comparison with \<open>buffer_.size()\<close> converts the sum to \<open>size_t\<close>.  \<open>Some None\<close> is the
  returned \<open>nullptr\<close>.
\<close>

definition slice :: "socket_buffer \<Rightarrow> s32 \<Rightarrow> s32 \<Rightarrow> socket_buffer option option" where
  "slice buffer start sz =
     (let s = sint start + sint sz in
      if s < - (2 ^ 31) \<or> 2 ^ 31 \<le> s then None
      else if length buffer \<le> nat (s mod 2 ^ 64) then Some None
      else if 0 \<le> sint start \<and> 0 \<le> sint sz
        then Some (Some (take (nat (sint sz)) (drop (nat (sint start)) buffer)))
        else None)"

definition get_buffer_size :: "socket_buffer \<Rightarrow> u32" where
  "get_buffer_size buffer = of_nat (length buffer)"

section \<open>The frame of a payload\<close>

definition frame :: "byte list \<Rightarrow> byte list" where
  "frame data = u32_bytes (of_nat (length data)) @ data"

definition framable :: "byte list \<Rightarrow> bool" where
  "framable data \<longleftrightarrow> length data + 4 < 2 ^ 32"

lemma length_frame [simp, bytes_simps]: "length (frame data) = 4 + length data"
  by (simp add: frame_def)

lemma frame_not_Nil [simp]: "frame data \<noteq> []"
  using length_frame [of data] by (metis add_is_0 list.size(3) zero_neq_numeral)

lemma bytes_u32_frame [simp, bytes_simps]: "bytes_u32 (frame data @ xs) = of_nat (length data)"
  by (simp add: frame_def)

lemma bytes_u32_frame0 [simp, bytes_simps]: "bytes_u32 (frame data) = of_nat (length data)"
  using bytes_u32_frame [of data "[]"] by simp

lemma drop_frame [simp, bytes_simps]: "drop 4 (frame data) = data"
  by (simp add: frame_def)

lemma frame_inject [simp]: "frame a = frame b \<longleftrightarrow> a = b"
  by (metis drop_frame)

lemma unat_frame_length: "framable data \<Longrightarrow> unat (of_nat (length data) :: u32) = length data"
  by (simp add: framable_def unat_of_nat)

lemma unat_frame_size: "framable data \<Longrightarrow> unat (of_nat (length (frame data)) :: u32) = length data + 4"
  using unat_of_nat_small [where 'a = 32, of "length (frame data)"] by (simp add: framable_def)

section \<open>Correctness of construction and slicing\<close>

lemma make_socket_buffer_frame:
  assumes "unat sz \<le> length data" and "unat sz + 4 < 2 ^ 32"
  shows "make_socket_buffer data sz = Some (frame (take (unat sz) data))"
proof -
  have "unat (sz + 4) = unat sz + 4"
    using assms(2) by (simp add: unat_add_lem [THEN iffD1])
  then show ?thesis
    using assms by (simp add: make_socket_buffer_def Let_def copy_to_def vec_resize_def frame_def min_absorb2)
qed

lemma allocate_frame: "framable data \<Longrightarrow> allocate data (of_nat (length data)) = Some (frame data)"
  by (simp add: allocate_def make_socket_buffer_frame unat_frame_length framable_def)

lemma make_socket_buffer_wraps:
  assumes "2 ^ 32 \<le> unat sz + 4"
  shows "make_socket_buffer data sz = None"
proof -
  have "unat (sz + 4) = (unat sz + 4) mod 2 ^ 32"
    by (simp add: unat_word_ariths)
  also have "\<dots> < unat sz + 4"
    using assms mod_less_divisor [of "2 ^ 32" "unat sz + 4"] by simp
  finally have "unat (sz + 4) < 4 + unat sz" by simp
  then show ?thesis
    by (simp add: make_socket_buffer_def Let_def copy_to_def)
qed

text \<open>C14: The constructor of \<open>SocketBuffer\<close> either yields the frame of the first \<open>size\<close>
  payload bytes (length header, then payload), or, exactly when \<open>size + 4\<close> wraps around
  in 32 bits or the payload is shorter than \<open>size\<close>, runs into an out-of-bounds access.\<close>

theorem socket_buffer_construction:
  "make_socket_buffer data sz =
     (if unat sz \<le> length data \<and> unat sz + 4 < 2 ^ 32
      then Some (u32_bytes sz @ take (unat sz) data) else None)"
proof (cases "unat sz + 4 < 2 ^ 32")
  case True
  show ?thesis
  proof (cases "unat sz \<le> length data")
    case len: True
    with True show ?thesis
      by (simp add: make_socket_buffer_frame frame_def min_absorb2)
  next
    case False
    then show ?thesis by (simp add: make_socket_buffer_def Let_def copy_to_def)
  qed
next
  case False
  then show ?thesis by (simp add: make_socket_buffer_wraps)
qed

lemma slice_in_range:
  assumes "0 \<le> sint start" "0 \<le> sint sz" "nat (sint start) + nat (sint sz) < length buffer"
    and "sint start + sint sz < 2 ^ 31"
  shows "slice buffer start sz = Some (Some (take (nat (sint sz)) (drop (nat (sint start)) buffer)))"
proof -
  have "nat ((sint start + sint sz) mod 2 ^ 64) = nat (sint start) + nat (sint sz)"
    using assms by (simp add: nat_add_distrib)
  then show ?thesis
    using assms by (simp add: slice_def Let_def)
qed

lemma slice_to_end_refused:
  assumes "0 \<le> sint start" "0 \<le> sint sz" "nat (sint start) + nat (sint sz) = length buffer"
    and "sint start + sint sz < 2 ^ 31"
  shows "slice buffer start sz = Some None"
proof -
  have "nat ((sint start + sint sz) mod 2 ^ 64) = nat (sint start) + nat (sint sz)"
    using assms by (simp add: nat_add_distrib)
  then show ?thesis
    using assms by (simp add: slice_def Let_def)
qed

end
