(* ===== verification/Packet_Receiver.thy ===== *)
theory Packet_Receiver
  imports Socket_Buffer
begin

text \<open>
  \<open>lib/iocplib/packet.h\<close>: the class \<open>PacketReceiver\<close>, which cuts the received byte stream
  into packets.  The record has the fields of the class; \<open>append_bytes\<close>, \<open>on_receive\<close>,
  \<open>is_complete\<close>, \<open>clear\<close>, \<open>packet_buffer\<close> and \<open>packet_length\<close> are its methods.  A pointer
  argument \<open>uint8_t* buffer\<close> is the list of bytes readable from it.  The abstract view of
  a receiver is \<open>acc\<close>, the bytes of the current frame received so far, and the
  specification of \<open>OnReceive\<close> is the byte-at-a-time function \<open>feed\<close>.
\<close>

section \<open>State\<close>

record packet_receiver =
  pr_length :: u32
  pr_offset :: u32
  pr_buffer :: "byte list"

abbreviation (input) kDefaultBufferSize :: nat where "kDefaultBufferSize \<equiv> 512"
abbreviation (input) kPacketLengthSize :: u32 where "kPacketLengthSize \<equiv> 4"

definition new_receiver :: packet_receiver where
  "new_receiver = \<lparr>pr_length = 0, pr_offset = 0, pr_buffer = vec_resize kDefaultBufferSize []\<rparr>"

section \<open>Operations\<close>

definition clear :: "packet_receiver \<Rightarrow> packet_receiver" where
  "clear p = p\<lparr>pr_length := 0, pr_offset := 0\<rparr>"

definition is_complete :: "packet_receiver \<Rightarrow> bool" where
  "is_complete p \<longleftrightarrow> pr_length p + kPacketLengthSize = pr_offset p"

definition packet_buffer :: "packet_receiver \<Rightarrow> byte list" where
  "packet_buffer p = drop (unat kPacketLengthSize) (pr_buffer p)"

definition packet_length :: "packet_receiver \<Rightarrow> u32" where
  "packet_length p = pr_length p"

definition append_bytes :: "byte list \<Rightarrow> u32 \<Rightarrow> packet_receiver \<Rightarrow> packet_receiver option" where
  "append_bytes src n p = do {
     let append_size = length (pr_buffer p) + unat n;
     let buffer = (if append_size > length (pr_buffer p)
                   then vec_resize append_size (pr_buffer p) else pr_buffer p);
     buffer \<leftarrow> copy_to src (unat n) buffer (unat (pr_offset p));
     Some (p\<lparr>pr_buffer := buffer, pr_offset := pr_offset p + n\<rparr>)
   }"

text \<open>
  The header part of \<open>OnReceive\<close> (lines 33 to 50 of the source): \<open>Inl\<close> is the early
  \<open>return 0U\<close>, \<open>Inr\<close> continues with the remaining bytes.  Calling \<open>reserve\<close> changes no
  byte of the vector.
\<close>

definition on_receive_header ::
  "byte list \<Rightarrow> u32 \<Rightarrow> packet_receiver \<Rightarrow> (packet_receiver + byte list \<times> u32 \<times> packet_receiver) option" where
  "on_receive_header src received p =
     (if pr_offset p < kPacketLengthSize then do {
        let append_size = min received (kPacketLengthSize - pr_offset p);
        p \<leftarrow> append_bytes src append_size p;
        p \<leftarrow> (if kPacketLengthSize \<le> pr_offset p
             then (if 4 \<le> length (pr_buffer p)
                   then Some (p\<lparr>pr_length := bytes_u32 (pr_buffer p)\<rparr>) else None)
             else Some p);
        let received = received - append_size;
        (if received = 0 then Some (Inl p)
         else Some (Inr (drop (unat append_size) src, received, p)))
      }
      else Some (Inr (src, received, p)))"

definition on_receive_body :: "byte list \<Rightarrow> u32 \<Rightarrow> packet_receiver \<Rightarrow> (u32 \<times> packet_receiver) option" where
  "on_receive_body src received p = do {
     let append_size = min received (pr_length p + kPacketLengthSize - pr_offset p);
     p \<leftarrow> append_bytes src append_size p;
     Some (received - append_size, p)
   }"

definition on_receive :: "byte list \<Rightarrow> u32 \<Rightarrow> packet_receiver \<Rightarrow> (u32 \<times> packet_receiver) option" where
  "on_receive src received p = do {
     r \<leftarrow> on_receive_header src received p;
     (case r of
        Inl p \<Rightarrow> Some (0, p)
      | Inr (src, received, p) \<Rightarrow> on_receive_body src received p)
   }"

section \<open>Specification: the frame received so far\<close>

definition acc :: "packet_receiver \<Rightarrow> byte list" where
  "acc p = take (unat (pr_offset p)) (pr_buffer p)"

definition frame_done :: "byte list \<Rightarrow> bool" where
  "frame_done bs \<longleftrightarrow> 4 \<le> length bs \<and> length bs = 4 + unat (bytes_u32 bs)"

text \<open>Bytes are taken one by one until the frame is complete: the frame, and the rest.\<close>

fun feed :: "byte list \<Rightarrow> byte list \<Rightarrow> byte list \<times> byte list" where
  "feed fr [] = (fr, [])"
| "feed fr (b # bs) = (if frame_done fr then (fr, b # bs) else feed (fr @ [b]) bs)"

text \<open>
  The invariant: 512 spare bytes behind the write position, the length field read from
  the header once that is complete, and no byte beyond the end of the frame.
\<close>

definition pr_inv :: "packet_receiver \<Rightarrow> bool" where
  "pr_inv p \<longleftrightarrow>
     unat (pr_offset p) + 512 \<le> length (pr_buffer p) \<and>
     (if unat (pr_offset p) < 4 then pr_length p = 0
      else pr_length p = bytes_u32 (pr_buffer p) \<and>
           unat (pr_offset p) \<le> 4 + unat (pr_length p))"

text \<open>The part of it that memory safety needs, kept even when the offset wraps around.\<close>

definition pr_room :: "packet_receiver \<Rightarrow> bool" where
  "pr_room p \<longleftrightarrow> unat (pr_offset p) + 512 \<le> length (pr_buffer p)"

lemma pr_inv_room: "pr_inv p \<Longrightarrow> pr_room p"
  by (simp add: pr_inv_def pr_room_def)

lemma pr_room_new [simp]: "pr_room new_receiver"
  by (simp add: pr_room_def new_receiver_def)

lemma pr_room_clear [simp]: "pr_room p \<Longrightarrow> pr_room (clear p)"
  by (simp add: pr_room_def clear_def)

lemma pr_inv_new [simp]: "pr_inv new_receiver"
  by (simp add: pr_inv_def new_receiver_def)

lemma acc_new [simp]: "acc new_receiver = []"
  by (simp add: acc_def new_receiver_def)

lemma pr_inv_clear [simp]: "pr_inv p \<Longrightarrow> pr_inv (clear p)"
  by (simp add: pr_inv_def clear_def)

lemma acc_clear [simp]: "acc (clear p) = []"
  by (simp add: acc_def clear_def)

lemma length_acc: "pr_inv p \<Longrightarrow> length (acc p) = unat (pr_offset p)"
  by (simp add: acc_def pr_inv_def)

section \<open>The specification in two chunks: header and body\<close>

lemma feed_header:
  "length fr + length bs \<le> 4 \<Longrightarrow> feed fr bs = (fr @ bs, [])"
proof (induction bs arbitrary: fr)
  case Nil
  then show ?case by simp
next
  case (Cons b bs)
  then show ?case by (auto simp: frame_done_def)
qed

lemma feed_append:
  "length fr + length bs \<le> 4 \<Longrightarrow> feed fr (bs @ cs) = feed (fr @ bs) cs"
proof (induction bs arbitrary: fr)
  case Nil
  then show ?case by simp
next
  case (Cons b bs)
  then show ?case by (auto simp: frame_done_def)
qed

lemma feed_body:
  "4 \<le> length fr \<Longrightarrow> length fr \<le> 4 + unat (bytes_u32 fr) \<Longrightarrow>
   feed fr bs = (let k = 4 + unat (bytes_u32 fr) - length fr in (fr @ take k bs, drop k bs))"
proof (induction bs arbitrary: fr)
  case Nil
  then show ?case by simp
next
  case (Cons b bs)
  show ?case
  proof (cases "length fr = 4 + unat (bytes_u32 fr)")
    case True
    then show ?thesis by (simp add: frame_done_def)
  next
    case False
    then have k: "4 + unat (bytes_u32 fr) - length fr = Suc (4 + unat (bytes_u32 fr) - length (fr @ [b]))"
      using Cons.prems by simp
    have "feed (fr @ [b]) bs =
        (let k = 4 + unat (bytes_u32 (fr @ [b])) - length (fr @ [b]) in ((fr @ [b]) @ take k bs, drop k bs))"
      using Cons.prems False by (intro Cons.IH) (auto simp: bytes_u32_append)
    then show ?thesis
      using False Cons.prems k by (simp add: frame_done_def bytes_u32_append Let_def)
  qed
qed

section \<open>\<open>Append\<close>\<close>

lemma append_defined:
  assumes "unat n \<le> length src" and "pr_room p"
  obtains p' where "append_bytes src n p = Some p'"
    and "pr_length p' = pr_length p" and "pr_offset p' = pr_offset p + n"
    and "length (pr_buffer p') = length (pr_buffer p) + unat n"
    and "take (unat (pr_offset p) + unat n) (pr_buffer p') = acc p @ take (unat n) src"
proof -
  define buf where
    "buf = (if 0 < unat n then vec_resize (length (pr_buffer p) + unat n) (pr_buffer p) else pr_buffer p)"
  have len: "length buf = length (pr_buffer p) + unat n"
    by (simp add: buf_def)
  have room: "unat (pr_offset p) + unat n \<le> length buf"
    using assms(2) len by (simp add: pr_room_def)
  have pre: "take (unat (pr_offset p)) buf = acc p"
    using assms(2) by (simp add: buf_def acc_def take_vec_resize pr_room_def)
  obtain r where r: "copy_to src (unat n) buf (unat (pr_offset p)) = Some r"
    using assms(1) room by (simp add: copy_to_defined)
  have "append_bytes src n p = Some (p\<lparr>pr_buffer := r, pr_offset := pr_offset p + n\<rparr>)"
    using r by (simp add: append_bytes_def Let_def buf_def split: if_splits)
  then show thesis
    using copy_to_SomeD [OF r] len pre
      that [of "p\<lparr>pr_buffer := r, pr_offset := pr_offset p + n\<rparr>"] by (simp add: acc_def)
qed

lemma pr_room_append:
  assumes "pr_room p" and "pr_offset p' = pr_offset p + n"
    and "length (pr_buffer p') = length (pr_buffer p) + unat n"
  shows "pr_room p'"
proof -
  have "unat (pr_offset p + n) \<le> unat (pr_offset p) + unat n"
    by (simp add: unat_word_ariths)
  then show ?thesis
    using assms by (simp add: pr_room_def)
qed

section \<open>Memory safety of \<open>OnReceive\<close>\<close>

lemma on_receive_body_safe:
  assumes "unat received \<le> length src" and "pr_room p"
  obtains r p' where "on_receive_body src received p = Some (r, p')" "pr_room p'"
    and "unat r \<le> unat received"
    and "length (pr_buffer p') = length (pr_buffer p) + (unat received - unat r)"
proof -
  define n where "n = min received (pr_length p + 4 - pr_offset p)"
  have n: "n \<le> received"
    by (simp add: n_def)
  then have "unat n \<le> length src"
    using assms(1) by (simp add: word_le_nat_alt)
  from append_defined [OF this assms(2)] obtain p' where p':
    "append_bytes src n p = Some p'" "pr_offset p' = pr_offset p + n"
    "length (pr_buffer p') = length (pr_buffer p) + unat n" by metis
  have "on_receive_body src received p = Some (received - n, p')"
    using p'(1) by (simp add: on_receive_body_def Let_def n_def)
  moreover have "pr_room p'"
    using assms(2) p' by (blast intro: pr_room_append)
  moreover have "unat (received - n) = unat received - unat n" and "unat n \<le> unat received"
    using n by (simp_all add: unat_sub_le word_le_nat_alt)
  ultimately show thesis
    using p'(3) that by simp
qed

lemma on_receive_safe:
  assumes "unat received \<le> length src" and "pr_room p"
  obtains r p' where "on_receive src received p = Some (r, p')" "pr_room p'"
    and "unat r \<le> unat received"
    and "length (pr_buffer p') = length (pr_buffer p) + (unat received - unat r)"
proof (cases "pr_offset p < 4")
  case False
  from on_receive_body_safe [OF assms] that False show thesis
    by (auto simp: on_receive_def on_receive_header_def)
next
  case True
  define n where "n = min received (4 - pr_offset p)"
  have n: "n \<le> received"
    by (simp add: n_def)
  then have src: "unat n \<le> length src"
    using assms(1) by (simp add: word_le_nat_alt)
  from append_defined [OF this assms(2)] obtain q where q:
    "append_bytes src n p = Some q" "pr_offset q = pr_offset p + n"
    "length (pr_buffer q) = length (pr_buffer p) + unat n" by metis
  define q' where "q' = (if 4 \<le> pr_offset q then q\<lparr>pr_length := bytes_u32 (pr_buffer q)\<rparr> else q)"
  have room: "pr_room q'"
    using pr_room_append [OF assms(2) q(2,3)] by (simp add: q'_def pr_room_def)
  have "4 \<le> length (pr_buffer q)"
    using pr_room_append [OF assms(2) q(2,3)] by (simp add: pr_room_def)
  then have h: "on_receive_header src received p =
      Some (if received - n = 0 then Inl q' else Inr (drop (unat n) src, received - n, q'))"
    using True q(1) by (auto simp: on_receive_header_def Let_def n_def q'_def)
  have rn: "unat (received - n) = unat received - unat n" "unat n \<le> unat received"
    using n by (simp_all add: unat_sub_le word_le_nat_alt)
  have len: "length (pr_buffer q') = length (pr_buffer p) + unat n"
    using q(3) by (simp add: q'_def)
  show thesis
  proof (cases "received - n = 0")
    case all: True
    then have "unat received = unat n" using n by simp
    with all show thesis
      using h room len that [of 0 q'] by (simp add: on_receive_def)
  next
    case False
    have "unat (received - n) \<le> length (drop (unat n) src)"
      using rn assms(1) by simp
    from on_receive_body_safe [OF this room] obtain r p' where
      "on_receive_body (drop (unat n) src) (received - n) q' = Some (r, p')" "pr_room p'"
      "unat r \<le> unat (received - n)"
      "length (pr_buffer p') = length (pr_buffer q') + (unat (received - n) - unat r)"
      by metis
    then show thesis
      using False h rn len that [of r p'] by (simp add: on_receive_def)
  qed
qed

section \<open>Refinement of \<open>OnReceive\<close> to the byte-at-a-time specification\<close>

lemma unat_missing:
  assumes "4 \<le> unat off" and "unat off \<le> 4 + unat (L :: u32)"
  shows "unat (L + 4 - off) = 4 + unat L - unat off"
proof -
  have off4: "unat (off - 4) = unat off - 4"
    using assms(1) by (simp add: unat_sub_le word_le_nat_alt)
  then have le: "off - 4 \<le> L"
    using assms(2) by (simp add: word_le_nat_alt)
  have eq: "L + 4 - off = L - (off - 4)"
    by simp
  show ?thesis
    unfolding eq unat_sub_le [OF le] off4 using assms(1) by simp
qed

lemma pr_inv_lengthD:
  assumes "pr_inv p" and "4 \<le> unat (pr_offset p)"
  shows "bytes_u32 (pr_buffer p) = pr_length p" and "unat (pr_offset p) \<le> 4 + unat (pr_length p)"
  using assms by (auto simp: pr_inv_def)

lemma pr_inv_acc:
  assumes "pr_inv p" and "4 \<le> unat (pr_offset p)"
  shows "bytes_u32 (acc p) = pr_length p" and "length (acc p) \<le> 4 + unat (pr_length p)"
  using pr_inv_lengthD [OF assms] assms(2) by (auto simp: acc_def)

lemma on_receive_body_feed:
  assumes inv: "pr_inv p" and off: "4 \<le> unat (pr_offset p)"
    and src: "unat received \<le> length src"
    and small: "length (acc p) + unat received < 2 ^ 32"
    and feed: "feed (acc p) (take (unat received) src) = (fr, rest)"
  obtains p' where "on_receive_body src received p = Some (of_nat (length rest), p')"
    and "pr_inv p'" and "acc p' = fr"
proof -
  let ?k = "4 + unat (pr_length p) - unat (pr_offset p)"
  define n where "n = min received (pr_length p + 4 - pr_offset p)"
  have bound: "unat (pr_offset p) \<le> 4 + unat (pr_length p)"
    using pr_inv_lengthD [OF inv off] by simp
  have n: "unat n = min (unat received) ?k"
    using unat_missing [OF off bound] by (simp add: n_def unat_min)
  have fr: "fr = acc p @ take (unat n) src" and rest: "length rest = unat received - unat n"
    using feed src n pr_inv_acc [OF inv off] off length_acc [OF inv]
    by (auto simp: feed_body Let_def min.commute)
  have "unat n \<le> length src"
    using n src by simp
  from append_defined [OF this pr_inv_room [OF inv]] obtain p' where p':
    "append_bytes src n p = Some p'" "pr_length p' = pr_length p" "pr_offset p' = pr_offset p + n"
    "length (pr_buffer p') = length (pr_buffer p) + unat n"
    "take (unat (pr_offset p) + unat n) (pr_buffer p') = acc p @ take (unat n) src" by metis
  have sum: "unat (pr_offset p + n) = unat (pr_offset p) + unat n"
    using small n length_acc [OF inv] by (intro unat_add_small) simp
  have acc': "acc p' = fr"
    using p'(3,5) sum fr by (simp add: acc_def)
  have "bytes_u32 (pr_buffer p') = pr_length p'"
  proof -
    have "bytes_u32 (pr_buffer p') = bytes_u32 (acc p')"
      using off by (simp add: acc_def p'(3) sum)
    also have "\<dots> = bytes_u32 (acc p)"
      using acc' fr off length_acc [OF inv] by (simp add: bytes_u32_append)
    finally show ?thesis
      using pr_inv_acc [OF inv off] p'(2) by simp
  qed
  then have "pr_inv p'"
    using inv off p'(2-4) sum n bound by (auto simp: pr_inv_def)
  moreover have "received - n = of_nat (length rest)"
  proof -
    have "n \<le> received" by (simp add: n_def)
    then have "unat (received - n) = length rest"
      using rest by (simp add: unat_sub_le)
    then show ?thesis by (simp add: word_of_nat_unat)
  qed
  ultimately show thesis
    using p'(1) acc' that by (simp add: on_receive_body_def Let_def n_def)
qed

lemma on_receive_header_feed:
  assumes inv: "pr_inv p" and off: "unat (pr_offset p) < 4"
    and src: "unat received \<le> length src" and small: "length (acc p) + unat received < 2 ^ 32"
  obtains q n where "n = min (unat received) (4 - unat (pr_offset p))" and "pr_inv q"
    and "acc q = acc p @ take n src"
    and "on_receive_header src received p =
      Some (if unat received = n then Inl q else Inr (drop n src, received - of_nat n, q))"
proof -
  define m where "m = min received (4 - pr_offset p)"
  have le: "pr_offset p \<le> 4"
    using off by (simp add: word_le_nat_alt)
  have m: "unat m = min (unat received) (4 - unat (pr_offset p))"
    using unat_sub_le [OF le] by (simp add: m_def unat_min)
  then have "unat m \<le> length src"
    using src by simp
  from append_defined [OF this pr_inv_room [OF inv]] obtain q where q:
    "append_bytes src m p = Some q" "pr_length q = pr_length p" "pr_offset q = pr_offset p + m"
    "length (pr_buffer q) = length (pr_buffer p) + unat m"
    "take (unat (pr_offset p) + unat m) (pr_buffer q) = acc p @ take (unat m) src" by metis
  have sum: "unat (pr_offset q) = unat (pr_offset p) + unat m"
    using q(3) m off by (simp add: unat_add_small)
  have sum4: "unat (pr_offset q) \<le> 4"
    using sum m off by simp
  define q' where "q' = (if 4 \<le> pr_offset q then q\<lparr>pr_length := bytes_u32 (pr_buffer q)\<rparr> else q)"
  have acc': "acc q' = acc p @ take (unat m) src"
    using q(5) sum by (simp add: acc_def q'_def)
  have inv': "pr_inv q'"
    using inv off q sum sum4 by (auto simp: pr_inv_def q'_def word_le_nat_alt)
  have "4 \<le> length (pr_buffer q)"
    using inv q(4) by (simp add: pr_inv_def)
  moreover have "received - m = 0 \<longleftrightarrow> unat received = unat m"
    by (metis eq_iff_diff_eq_0 word_unat_eq_iff)
  moreover have "pr_offset p < 4"
    using off by (simp add: word_less_nat_alt)
  ultimately have "on_receive_header src received p =
      Some (if unat received = unat m then Inl q' else Inr (drop (unat m) src, received - of_nat (unat m), q'))"
    using q(1) by (auto simp: on_receive_header_def Let_def m_def q'_def)
  then show thesis
    using that [OF m inv'] acc' by simp
qed

lemma on_receive_feed:
  assumes inv: "pr_inv p" and src: "unat received \<le> length src"
    and small: "length (acc p) + unat received < 2 ^ 32"
    and feed: "feed (acc p) (take (unat received) src) = (fr, rest)"
  obtains p' where "on_receive src received p = Some (of_nat (length rest), p')"
    and "pr_inv p'" and "acc p' = fr"
proof (cases "4 \<le> unat (pr_offset p)")
  case True
  then have "on_receive_header src received p = Some (Inr (src, received, p))"
    by (simp add: on_receive_header_def word_less_nat_alt)
  then show thesis
    using on_receive_body_feed [OF inv True src small feed] that by (auto simp: on_receive_def)
next
  case False
  then have off: "unat (pr_offset p) < 4" by simp
  from on_receive_header_feed [OF inv off src small] obtain q n where
    n: "n = min (unat received) (4 - unat (pr_offset p))" and q: "pr_inv q"
    and acc: "acc q = acc p @ take n src"
    and h: "on_receive_header src received p =
      Some (if unat received = n then Inl q else Inr (drop n src, received - of_nat n, q))" by metis
  have hdr: "length (acc p) + length (take n src) \<le> 4"
    using n off length_acc [OF inv] by simp
  show thesis
  proof (cases "unat received = n")
    case True
    then have "fr = acc q" and "rest = []"
      using feed feed_header [OF hdr] acc by simp_all
    then show thesis
      using h True q that [of q] by (simp add: on_receive_def)
  next
    case False
    then have n4: "n = 4 - unat (pr_offset p)" and lt: "n < unat received"
      using n by auto
    have len: "length (acc q) = 4"
      using acc n4 src lt off length_acc [OF inv] by simp
    then have offq: "4 \<le> unat (pr_offset q)"
      using length_acc [OF q] by simp
    have rn: "unat (received - of_nat n) = unat received - n"
    proof -
      have "unat (of_nat n :: u32) = n"
        using n4 by (simp add: unat_of_nat)
      then show ?thesis
        using lt by (simp add: unat_sub_le word_le_nat_alt)
    qed
    have "take (unat received) src = take n src @ take (unat received - n) (drop n src)"
      using lt take_add [of n "unat received - n" src] by simp
    then have feed': "feed (acc q) (take (unat (received - of_nat n)) (drop n src)) = (fr, rest)"
      using feed feed_append [OF hdr] acc rn by simp
    have src': "unat (received - of_nat n) \<le> length (drop n src)"
      using rn src by simp
    have small': "length (acc q) + unat (received - of_nat n) < 2 ^ 32"
      using rn small len n4 lt length_acc [OF inv] off by simp
    from on_receive_body_feed [OF q offq src' small' feed'] that show thesis
      using h False by (auto simp: on_receive_def)
  qed
qed

lemma is_complete_frame_done:
  assumes "pr_inv p"
  shows "is_complete p \<longleftrightarrow> frame_done (acc p)"
proof (cases "unat (pr_offset p) < 4")
  case True
  then have "pr_length p = 0"
    using assms by (simp add: pr_inv_def)
  then show ?thesis
    using True length_acc [OF assms] by (auto simp: is_complete_def frame_done_def)
next
  case False
  then have off: "4 \<le> unat (pr_offset p)" by simp
  have le: "unat (pr_offset p) \<le> 4 + unat (pr_length p)"
    using pr_inv_lengthD [OF assms off] by simp
  have "is_complete p \<longleftrightarrow> pr_length p + 4 - pr_offset p = 0"
    by (simp add: is_complete_def)
  also have "\<dots> \<longleftrightarrow> unat (pr_length p + 4 - pr_offset p) = 0"
    by (simp add: unat_eq_0)
  also have "\<dots> \<longleftrightarrow> unat (pr_offset p) = 4 + unat (pr_length p)"
    using unat_missing [OF off le] le by auto
  finally show ?thesis
    using off length_acc [OF assms] pr_inv_acc [OF assms off] by (simp add: frame_done_def)
qed

section \<open>Properties\<close>

lemma feed_frame:
  assumes "framable data"
  shows "feed [] (frame data @ rest) = (frame data, rest)"
proof -
  let ?h = "u32_bytes (of_nat (length data))"
  have "feed [] (?h @ (data @ rest)) = feed ([] @ ?h) (data @ rest)"
    by (rule feed_append) simp
  then show ?thesis
    using feed_body [of ?h "data @ rest"] bytes_u32_u32_bytes [of "of_nat (length data)" "[]"]
      unat_frame_length [OF assms]
    by (simp add: frame_def)
qed

lemma frame_done_frame: "framable data \<Longrightarrow> frame_done (frame data)"
  by (simp add: frame_done_def unat_frame_length)

lemma packet_of_frame:
  assumes "pr_inv p" and "acc p = frame data" and "framable data"
  shows "packet_length p = of_nat (length data)"
    and "take (unat (packet_length p)) (packet_buffer p) = data"
proof -
  have len: "unat (pr_offset p) = 4 + length data"
    using length_acc [OF assms(1)] assms(2) by simp
  then show l: "packet_length p = of_nat (length data)"
    using pr_inv_acc [OF assms(1)] assms(2) by (simp add: packet_length_def)
  have "take (length data) (drop 4 (pr_buffer p)) = drop 4 (acc p)"
    by (simp add: acc_def len drop_take)
  then show "take (unat (packet_length p)) (packet_buffer p) = data"
    using l assms(2,3) by (simp add: packet_buffer_def unat_frame_length)
qed

lemma packet_of_done:
  assumes "pr_inv p" and "frame_done (acc p)"
  shows "take (unat (packet_length p)) (packet_buffer p) = drop 4 (acc p)"
    and "unat (packet_length p) = length (acc p) - 4"
proof -
  define n where "n = unat (bytes_u32 (acc p))"
  have len: "unat (pr_offset p) = 4 + n"
    using length_acc [OF assms(1)] assms(2) by (simp add: frame_done_def n_def)
  then have l: "unat (packet_length p) = n"
    using pr_inv_acc(1) [OF assms(1)] by (simp add: packet_length_def n_def)
  have "take n (drop 4 (pr_buffer p)) = drop 4 (acc p)"
    by (simp add: acc_def len drop_take)
  then show "take (unat (packet_length p)) (packet_buffer p) = drop 4 (acc p)"
    by (simp add: l packet_buffer_def)
  show "unat (packet_length p) = length (acc p) - 4"
    using l len length_acc [OF assms(1)] by simp
qed



text \<open>C2: \<open>OnReceive\<close> on a chunk does what taking its bytes one by
  one until the length-prefixed frame is complete does: the bytes it accumulates, the
  number of bytes it leaves over and \<open>IsComplete\<close> agree with the byte-at-a-time
  specification, for any split of header and payload over calls (below 4 GB in a frame).\<close>

theorem on_receive_refines_feed:
  assumes "pr_inv p" and "unat received \<le> length src"
    and "length (acc p) + unat received < 2 ^ 32"
  shows "case feed (acc p) (take (unat received) src) of (fr, rest) \<Rightarrow>
    \<exists>p'. on_receive src received p = Some (of_nat (length rest), p') \<and> pr_inv p' \<and>
      acc p' = fr \<and> (is_complete p' \<longleftrightarrow> frame_done fr)"
proof -
  obtain fr rest where feed: "feed (acc p) (take (unat received) src) = (fr, rest)"
    by force
  from on_receive_feed [OF assms feed] show ?thesis
    using feed is_complete_frame_done by fastforce
qed

theorem on_receive_refines_feed_witness:
  "\<exists>p'. on_receive [2, 0, 0, 0, 7, 8, 9] 7 new_receiver = Some (1, p') \<and> pr_inv p' \<and>
     acc p' = [2, 0, 0, 0, 7, 8] \<and> is_complete p'"
proof -
  have f: "feed [] [2, 0, 0, 0, 7, 8, 9] = ([2, 0, 0, 0, 7, 8 :: byte], [9])"
    by (simp add: frame_done_def bytes_u32_def)
  show ?thesis
    using on_receive_refines_feed [of new_receiver 7 "[2, 0, 0, 0, 7, 8, 9]"]
    by (simp add: f frame_done_def bytes_u32_def)
qed

end
