(* ===== verification/Win_Api.thy ===== *)
theory Win_Api
  imports Prelude
begin

text \<open>
  The Windows functions the program calls.  Their code is not part of the repository: the
  record \<open>os\<close> holds one function per API function, acting on an unknown world \<open>'w\<close>, and
  every definition that calls the API takes such a record as an argument.  Nothing is
  assumed of these functions here; where a property relies on documented behaviour it
  says so as a hypothesis.  The exception of \<open>lib/exceptions.h\<close> is a value.
\<close>

section \<open>Types and constants of the API\<close>

type_synonym SOCKET = "64 word"
type_synonym HANDLE = "64 word"
type_synonym ovptr = "nat option"      \<comment> \<open>\<open>LPOVERLAPPED\<close>, \<open>None\<close> for null\<close>

abbreviation (input) INVALID_SOCKET :: SOCKET where "INVALID_SOCKET \<equiv> - 1"
abbreviation (input) SOCKET_ERROR :: s32 where "SOCKET_ERROR \<equiv> - 1"
abbreviation (input) ERROR_SUCCESS :: dword where "ERROR_SUCCESS \<equiv> 0"
abbreviation (input) ERROR_OPERATION_ABORTED :: dword where "ERROR_OPERATION_ABORTED \<equiv> 995"
abbreviation (input) WSA_IO_PENDING :: dword where "WSA_IO_PENDING \<equiv> 997"
abbreviation (input) ERROR_NO_SYSTEM_RESOURCES :: dword where "ERROR_NO_SYSTEM_RESOURCES \<equiv> 1450"
abbreviation (input) WSAEWOULDBLOCK :: dword where "WSAEWOULDBLOCK \<equiv> 10035"
abbreviation (input) WSAECONNRESET :: dword where "WSAECONNRESET \<equiv> 10054"
abbreviation (input) WSAENOBUFS :: dword where "WSAENOBUFS \<equiv> 10055"

abbreviation (input) AF_INET :: s32 where "AF_INET \<equiv> 2"
abbreviation (input) SOCK_STREAM :: s32 where "SOCK_STREAM \<equiv> 1"
abbreviation (input) SOL_SOCKET :: s32 where "SOL_SOCKET \<equiv> 0xffff"
abbreviation (input) IPPROTO_TCP :: s32 where "IPPROTO_TCP \<equiv> 6"
abbreviation (input) TCP_NODELAY :: s32 where "TCP_NODELAY \<equiv> 1"
abbreviation (input) SO_SNDBUF :: s32 where "SO_SNDBUF \<equiv> 0x1001"
abbreviation (input) SO_RCVBUF :: s32 where "SO_RCVBUF \<equiv> 0x1002"
abbreviation (input) SO_UPDATE_ACCEPT_CONTEXT :: s32 where "SO_UPDATE_ACCEPT_CONTEXT \<equiv> 0x700B"
abbreviation (input) FIONBIO :: u32 where "FIONBIO \<equiv> 0x8004667E"
abbreviation (input) SOMAXCONN :: s32 where "SOMAXCONN \<equiv> 0x7fffffff"

text \<open>\<open>SOCKADDR_IN\<close>: family, port and address as the program fills them in.\<close>

record sockaddr_in =
  sin_family :: u16
  sin_port :: u16
  sin_addr :: u32

text \<open>What \<open>GetQueuedCompletionStatus\<close> returns for one dequeued packet.\<close>

record io_status =
  st_success :: bool
  st_bytes :: dword
  st_key :: "64 word"
  st_overlapped :: ovptr

record 'w os =
  os_last_error :: "'w \<Rightarrow> dword"
  os_socket :: "s32 \<Rightarrow> s32 \<Rightarrow> s32 \<Rightarrow> 'w \<Rightarrow> SOCKET \<times> 'w"
  os_bind :: "SOCKET \<Rightarrow> sockaddr_in \<Rightarrow> s32 \<Rightarrow> 'w \<Rightarrow> s32 \<times> 'w"
  os_listen :: "SOCKET \<Rightarrow> s32 \<Rightarrow> 'w \<Rightarrow> s32 \<times> 'w"
  os_connect :: "SOCKET \<Rightarrow> sockaddr_in \<Rightarrow> s32 \<Rightarrow> 'w \<Rightarrow> s32 \<times> 'w"
  os_closesocket :: "SOCKET \<Rightarrow> 'w \<Rightarrow> s32 \<times> 'w"
  os_send :: "SOCKET \<Rightarrow> byte list \<Rightarrow> s32 \<Rightarrow> s32 \<Rightarrow> 'w \<Rightarrow> s32 \<times> 'w"
  os_recv :: "SOCKET \<Rightarrow> s32 \<Rightarrow> s32 \<Rightarrow> 'w \<Rightarrow> s32 \<times> byte list \<times> 'w"
  os_setsockopt :: "SOCKET \<Rightarrow> s32 \<Rightarrow> s32 \<Rightarrow> byte list \<Rightarrow> 'w \<Rightarrow> s32 \<times> 'w"
  os_ioctlsocket :: "SOCKET \<Rightarrow> u32 \<Rightarrow> u32 \<Rightarrow> 'w \<Rightarrow> s32 \<times> 'w"
  os_wsa_startup :: "u16 \<Rightarrow> 'w \<Rightarrow> s32 \<times> u16 \<times> 'w"
  os_wsa_cleanup :: "'w \<Rightarrow> s32 \<times> 'w"
  os_wsa_recv :: "SOCKET \<Rightarrow> ovptr \<Rightarrow> 'w \<Rightarrow> s32 \<times> 'w"
  os_wsa_send :: "SOCKET \<Rightarrow> byte list list \<Rightarrow> ovptr \<Rightarrow> 'w \<Rightarrow> s32 \<times> 'w"
  os_accept_ex :: "SOCKET \<Rightarrow> SOCKET \<Rightarrow> ovptr \<Rightarrow> 'w \<Rightarrow> bool \<times> 'w"
  os_create_iocp :: "'w \<Rightarrow> HANDLE \<times> 'w"
  os_attach_iocp :: "HANDLE \<Rightarrow> HANDLE \<Rightarrow> 'w \<Rightarrow> HANDLE \<times> 'w"
  os_post_status :: "HANDLE \<Rightarrow> dword \<Rightarrow> ovptr \<Rightarrow> 'w \<Rightarrow> bool \<times> 'w"
  os_get_status :: "HANDLE \<Rightarrow> 'w \<Rightarrow> io_status \<times> 'w"
  os_processors :: "'w \<Rightarrow> dword"

section \<open>Exceptions\<close>

text \<open>\<open>lib/exceptions.h\<close>: \<open>WinSockException(message, code)\<close>.\<close>

datatype win_sock_exception = WinSockException (what: string) (exn_code: dword)

text \<open>A method of a class with state \<open>'s\<close>: the exception or result, the new state, the world.\<close>

type_synonym ('a, 's, 'w) method_result = "(win_sock_exception + 'a) \<times> 's \<times> 'w"

section \<open>A concrete world\<close>

text \<open>
  Instances of theorems about an arbitrary \<open>os\<close> need one.  In this world every call
  succeeds and the state counts the completion packets ever queued: a posted status, a
  started receive, send or accept adds one.  It models nothing of the program.
\<close>

definition sample_os :: "nat os" where
  "sample_os = \<lparr>
     os_last_error = (\<lambda>w. 0),
     os_socket = (\<lambda>af type protocol w. (7, w)),
     os_bind = (\<lambda>s addr len w. (0, w)),
     os_listen = (\<lambda>s backlog w. (0, w)),
     os_connect = (\<lambda>s addr len w. (0, w)),
     os_closesocket = (\<lambda>s w. (0, w)),
     os_send = (\<lambda>s data len flags w. (len, w)),
     os_recv = (\<lambda>s len flags w. (0, [], w)),
     os_setsockopt = (\<lambda>s level name val w. (0, w)),
     os_ioctlsocket = (\<lambda>s cmd arg w. (0, w)),
     os_wsa_startup = (\<lambda>v w. (0, v, w)),
     os_wsa_cleanup = (\<lambda>w. (0, w)),
     os_wsa_recv = (\<lambda>s ov w. (0, Suc w)),
     os_wsa_send = (\<lambda>s bufs ov w. (0, Suc w)),
     os_accept_ex = (\<lambda>l s ov w. (True, Suc w)),
     os_create_iocp = (\<lambda>w. (5, w)),
     os_attach_iocp = (\<lambda>s h w. (h, w)),
     os_post_status = (\<lambda>h n ov w. (True, Suc w)),
     os_get_status = (\<lambda>h w. (\<lparr>st_success = True, st_bytes = 0, st_key = 0, st_overlapped = None\<rparr>, w - 1)),
     os_processors = (\<lambda>w. 4)\<rparr>"

text \<open>A world no call changes, as a base for others.\<close>

definition null_os :: "'w os" where
  "null_os = \<lparr>
     os_last_error = (\<lambda>w. 0),
     os_socket = (\<lambda>af type protocol w. (7, w)),
     os_bind = (\<lambda>s addr len w. (0, w)),
     os_listen = (\<lambda>s backlog w. (0, w)),
     os_connect = (\<lambda>s addr len w. (0, w)),
     os_closesocket = (\<lambda>s w. (0, w)),
     os_send = (\<lambda>s data len flags w. (len, w)),
     os_recv = (\<lambda>s len flags w. (0, [], w)),
     os_setsockopt = (\<lambda>s level name val w. (0, w)),
     os_ioctlsocket = (\<lambda>s cmd arg w. (0, w)),
     os_wsa_startup = (\<lambda>v w. (0, v, w)),
     os_wsa_cleanup = (\<lambda>w. (0, w)),
     os_wsa_recv = (\<lambda>s ov w. (0, w)),
     os_wsa_send = (\<lambda>s bufs ov w. (0, w)),
     os_accept_ex = (\<lambda>l s ov w. (True, w)),
     os_create_iocp = (\<lambda>w. (5, w)),
     os_attach_iocp = (\<lambda>s h w. (h, w)),
     os_post_status = (\<lambda>h n ov w. (True, w)),
     os_get_status = (\<lambda>h w. (\<lparr>st_success = True, st_bytes = 0, st_key = 0, st_overlapped = None\<rparr>, w)),
     os_processors = (\<lambda>w. 4)\<rparr>"

end
