(* ===== verification/Win_Sock.thy ===== *)
theory Win_Sock
  imports Win_Api
begin

text \<open>
  \<open>lib/winsocklib/win_sock.h\<close>: the class \<open>WinSock\<close>, a wrapper of a socket handle that turns
  error returns into exceptions, and \<open>WinSockInitializer\<close>.  The state of a \<open>WinSock\<close> is its
  \<open>handle_\<close>; each method is a definition of the same name prefixed by \<open>ws_\<close>.
\<close>

section \<open>The class \<open>WinSock\<close>\<close>

abbreviation (input) kSocketBufferSize :: nat where "kSocketBufferSize \<equiv> 1460"

record win_sock = handle :: SOCKET

definition ws_new :: win_sock where
  "ws_new = \<lparr>handle = INVALID_SOCKET\<rparr>"

definition ws_create :: "'w os \<Rightarrow> s32 \<Rightarrow> s32 \<Rightarrow> s32 \<Rightarrow> win_sock \<Rightarrow> 'w \<Rightarrow> (unit, win_sock, 'w) method_result" where
  "ws_create os af type protocol s w =
     (let (h, w) = os_socket os af type protocol w; s = s\<lparr>handle := h\<rparr> in
      if h = INVALID_SOCKET
      then (Inl (WinSockException ''failed to create socket'' (os_last_error os w)), s, w)
      else (Inr (), s, w))"

definition ws_bind :: "'w os \<Rightarrow> sockaddr_in \<Rightarrow> s32 \<Rightarrow> win_sock \<Rightarrow> 'w \<Rightarrow> (unit, win_sock, 'w) method_result" where
  "ws_bind os addr len s w =
     (let (r, w) = os_bind os (handle s) addr len w in
      if r = SOCKET_ERROR
      then (Inl (WinSockException ''failed to bind socket'' (os_last_error os w)), s, w)
      else (Inr (), s, w))"

definition ws_listen :: "'w os \<Rightarrow> s32 \<Rightarrow> win_sock \<Rightarrow> 'w \<Rightarrow> (unit, win_sock, 'w) method_result" where
  "ws_listen os backlog s w =
     (let (r, w) = os_listen os (handle s) backlog w in
      if r = SOCKET_ERROR
      then (Inl (WinSockException ''failed to listen socket'' (os_last_error os w)), s, w)
      else (Inr (), s, w))"

text \<open>\<open>Connect\<close> passes \<open>sizeof(SOCKADDR)\<close>, 16, and reports failure as \<open>false\<close>.\<close>

definition ws_connect :: "'w os \<Rightarrow> sockaddr_in \<Rightarrow> win_sock \<Rightarrow> 'w \<Rightarrow> bool \<times> 'w" where
  "ws_connect os addr s w =
     (let (r, w) = os_connect os (handle s) addr 16 w in
      (r \<noteq> SOCKET_ERROR \<or> os_last_error os w = WSAEWOULDBLOCK, w))"

text \<open>\<open>Close\<close>: a failing \<open>closesocket\<close> is a failed assertion (\<open>None\<close>).\<close>

definition ws_close :: "'w os \<Rightarrow> win_sock \<Rightarrow> 'w \<Rightarrow> (win_sock \<times> 'w) option" where
  "ws_close os s w =
     (if handle s \<noteq> INVALID_SOCKET then
        let (r, w) = os_closesocket os (handle s) w in
        if r = SOCKET_ERROR then None else Some (s\<lparr>handle := INVALID_SOCKET\<rparr>, w)
      else Some (s, w))"

definition ws_send :: "'w os \<Rightarrow> byte list \<Rightarrow> s32 \<Rightarrow> s32 \<Rightarrow> win_sock \<Rightarrow> 'w \<Rightarrow> (s32, win_sock, 'w) method_result" where
  "ws_send os data len flags s w =
     (let (sended, w) = os_send os (handle s) data len flags w in
      if sended = SOCKET_ERROR then
        (let err = os_last_error os w in
         if err = WSAEWOULDBLOCK then (Inr 0, s, w)
         else (Inl (WinSockException ''failed to send socket'' err), s, w))
      else (Inr sended, s, w))"

definition ws_try_recv :: "'w os \<Rightarrow> s32 \<Rightarrow> s32 \<Rightarrow> win_sock \<Rightarrow> 'w \<Rightarrow> s32 \<times> byte list \<times> 'w" where
  "ws_try_recv os len flag s w = os_recv os (handle s) len flag w"

definition ws_recv :: "'w os \<Rightarrow> s32 \<Rightarrow> s32 \<Rightarrow> win_sock \<Rightarrow> 'w \<Rightarrow> (s32 \<times> byte list, win_sock, 'w) method_result" where
  "ws_recv os len flag s w =
     (let (received, bytes, w) = os_recv os (handle s) len flag w in
      if received = SOCKET_ERROR then
        (let err = os_last_error os w in
         if err = WSAEWOULDBLOCK then (Inr (- 1, bytes), s, w)
         else (Inl (WinSockException ''failed to recv socket'' err), s, w))
      else (Inr (received, bytes), s, w))"

text \<open>The option setters share one shape; the value is passed as the bytes of the variable.\<close>

definition ws_setsockopt ::
  "'w os \<Rightarrow> s32 \<Rightarrow> s32 \<Rightarrow> byte list \<Rightarrow> string \<Rightarrow> win_sock \<Rightarrow> 'w \<Rightarrow> (unit, win_sock, 'w) method_result" where
  "ws_setsockopt os level name val msg s w =
     (let (r, w) = os_setsockopt os (handle s) level name val w in
      if r = SOCKET_ERROR then (Inl (WinSockException msg (os_last_error os w)), s, w)
      else (Inr (), s, w))"

definition ws_set_accept :: "'w os \<Rightarrow> SOCKET \<Rightarrow> win_sock \<Rightarrow> 'w \<Rightarrow> (unit, win_sock, 'w) method_result" where
  "ws_set_accept os listen_socket =
     ws_setsockopt os SOL_SOCKET SO_UPDATE_ACCEPT_CONTEXT (le_bytes 8 (unat listen_socket))
       ''failed to update accept socket''"

definition ws_set_non_blocking :: "'w os \<Rightarrow> bool \<Rightarrow> win_sock \<Rightarrow> 'w \<Rightarrow> (unit, win_sock, 'w) method_result" where
  "ws_set_non_blocking os nonblocking s w =
     (let b = (if nonblocking then 1 else 0);
          (r, w) = os_ioctlsocket os (handle s) FIONBIO b w in
      if r = SOCKET_ERROR
      then (Inl (WinSockException ''failed set non blocking socket'' (os_last_error os w)), s, w)
      else (Inr (), s, w))"

definition ws_set_nagle :: "'w os \<Rightarrow> bool \<Rightarrow> win_sock \<Rightarrow> 'w \<Rightarrow> (unit, win_sock, 'w) method_result" where
  "ws_set_nagle os activate =
     (let optval = (of_bool activate :: s32) in
      ws_setsockopt os IPPROTO_TCP TCP_NODELAY (u32_bytes optval) ''failed to set nagle alogrithm'')"

definition ws_set_recv_buffer_size :: "'w os \<Rightarrow> u32 \<Rightarrow> win_sock \<Rightarrow> 'w \<Rightarrow> (unit, win_sock, 'w) method_result" where
  "ws_set_recv_buffer_size os n =
     ws_setsockopt os SOL_SOCKET SO_RCVBUF (u32_bytes n) ''failed to set receive buffer size socket''"

definition ws_set_send_buffer_size :: "'w os \<Rightarrow> u32 \<Rightarrow> win_sock \<Rightarrow> 'w \<Rightarrow> (unit, win_sock, 'w) method_result" where
  "ws_set_send_buffer_size os n =
     ws_setsockopt os SOL_SOCKET SO_SNDBUF (u32_bytes n) ''failed to set send buffer size socket''"

section \<open>\<open>WinSockInitializer\<close>\<close>

text \<open>
  The constructor asks for version \<open>MAKEWORD(2, 0)\<close>, 0x0002, and throws unless the low byte
  of the version it gets is 2.  The destructor ignores the result of \<open>WSACleanup\<close>.
\<close>

definition wsi_new :: "'w os \<Rightarrow> 'w \<Rightarrow> (win_sock_exception + unit) \<times> 'w" where
  "wsi_new os w =
     (let (r, version, w) = os_wsa_startup os 0x0002 w in
      if r \<noteq> 0 \<or> (ucast version :: byte) \<noteq> 2
      then (Inl (WinSockException ''failed to WSAStartup'' (os_last_error os w)), w)
      else (Inr (), w))"

definition wsi_delete :: "'w os \<Rightarrow> 'w \<Rightarrow> 'w" where
  "wsi_delete os w = snd (os_wsa_cleanup os w)"

lemmas ws_defs = ws_create_def ws_bind_def ws_listen_def ws_connect_def ws_close_def ws_send_def
  ws_try_recv_def ws_recv_def ws_setsockopt_def ws_set_accept_def ws_set_non_blocking_def
  ws_set_nagle_def ws_set_recv_buffer_size_def ws_set_send_buffer_size_def

section \<open>The handle\<close>

text \<open>Only \<open>Create\<close> and \<open>Close\<close> change the handle.\<close>

lemma ws_frame [simp]:
  "fst (snd (ws_bind os addr len s w)) = s"
  "fst (snd (ws_listen os backlog s w)) = s"
  "fst (snd (ws_send os data n flags s w)) = s"
  "fst (snd (ws_recv os n flags s w)) = s"
  "fst (snd (ws_setsockopt os level name val msg s w)) = s"
  "fst (snd (ws_set_non_blocking os nb s w)) = s"
  by (simp_all add: ws_defs Let_def split: prod.splits)

lemma ws_close_invalid: "ws_close os s w = Some (s', w') \<Longrightarrow> handle s' = INVALID_SOCKET"
  by (auto simp: ws_close_def Let_def split: prod.splits if_splits)

lemma ws_close_idempotent:
  "ws_close os s w = Some (s', w') \<Longrightarrow> ws_close os s' w'' = Some (s', w'')"
  by (frule ws_close_invalid) (simp add: ws_close_def)

lemma ws_create_handle:
  "ws_create os af type protocol s w = (r, s', w') \<Longrightarrow> isl r \<longleftrightarrow> handle s' = INVALID_SOCKET"
  by (auto simp: ws_create_def Let_def split: prod.splits if_splits)

text \<open>\<open>Send\<close> returns 0 exactly for ``would block'' (or an empty send), never a negative count.\<close>

lemma ws_send_result:
  assumes "ws_send os data len flags s w = (Inr n, s', w')"
    and "\<And>r w'. os_send os (handle s) data len flags w = (r, w') \<Longrightarrow> r = SOCKET_ERROR \<or> (0 \<le> sint r \<and> sint r \<le> sint len)"
    and "0 \<le> sint len"
  shows "0 \<le> sint n \<and> sint n \<le> sint len"
  using assms by (auto simp: ws_send_def Let_def split: prod.splits if_splits)

end
