(* ===== verification/Byte_Pipe.thy ===== *)
theory Byte_Pipe
  imports Socket_Buffer
begin

text \<open>
  The contract of the two sending components, \<open>SessionSender\<close> of the server side and
  \<open>ClientSocket\<close> of the client side: a FIFO pipe of bytes.  Payloads are framed and
  appended to the pending bytes, the transport takes bytes from their front.  The locale
  states what one operation does; its lemmas are about whole runs.
\<close>

section \<open>Runs of a pipe\<close>

datatype pipe_event = Enqueue "byte list" | Transmit nat

inductive pipe_run ::
  "('s \<Rightarrow> byte list) \<Rightarrow> (byte list \<Rightarrow> 's \<Rightarrow> 's \<Rightarrow> bool) \<Rightarrow> (nat \<Rightarrow> 's \<Rightarrow> 's \<Rightarrow> bool) \<Rightarrow>
   's \<Rightarrow> pipe_event list \<Rightarrow> byte list \<Rightarrow> 's \<Rightarrow> bool"
  for pending enq tx where
  pipe_refl: "pipe_run pending enq tx s [] [] s"
| pipe_enqueue: "pipe_run pending enq tx s es out t \<Longrightarrow> enq d t u \<Longrightarrow>
    pipe_run pending enq tx s (es @ [Enqueue d]) out u"
| pipe_transmit: "pipe_run pending enq tx s es out t \<Longrightarrow> tx n t u \<Longrightarrow>
    pipe_run pending enq tx s (es @ [Transmit n]) (out @ take n (pending t)) u"

lemma pipe_enqueue1: "enq d s t \<Longrightarrow> pipe_run pending enq tx s [Enqueue d] [] t"
  using pipe_run.pipe_enqueue [of pending enq tx s "[]" "[]" s d t] by (simp add: pipe_refl)

text \<open>The frames put into the pipe, and the number of bytes taken out of it.\<close>

fun pipe_input :: "pipe_event list \<Rightarrow> byte list" where
  "pipe_input [] = []"
| "pipe_input (Enqueue d # es) = frame d @ pipe_input es"
| "pipe_input (Transmit n # es) = pipe_input es"

lemma pipe_input_append [simp]: "pipe_input (xs @ ys) = pipe_input xs @ pipe_input ys"
  by (induction xs rule: pipe_input.induct) auto

section \<open>The interface\<close>

locale byte_pipe =
  fixes pipe_inv :: "'s \<Rightarrow> bool"
    and pending :: "'s \<Rightarrow> byte list"
    and enq :: "byte list \<Rightarrow> 's \<Rightarrow> 's \<Rightarrow> bool"
    and tx :: "nat \<Rightarrow> 's \<Rightarrow> 's \<Rightarrow> bool"
  assumes enq_inv: "pipe_inv s \<Longrightarrow> enq d s s' \<Longrightarrow> pipe_inv s'"
    and enq_pending: "pipe_inv s \<Longrightarrow> enq d s s' \<Longrightarrow> pending s' = pending s @ frame d"
    and tx_inv: "pipe_inv s \<Longrightarrow> tx n s s' \<Longrightarrow> pipe_inv s'"
    and tx_pending: "pipe_inv s \<Longrightarrow> tx n s s' \<Longrightarrow> pending s' = drop n (pending s)"
begin

lemma run_inv: "pipe_run pending enq tx s es out t \<Longrightarrow> pipe_inv s \<Longrightarrow> pipe_inv t"
  by (induction rule: pipe_run.induct) (auto intro: enq_inv tx_inv)

text \<open>Nothing is lost, duplicated or reordered.\<close>

lemma run_stream:
  "pipe_run pending enq tx s es out t \<Longrightarrow> pipe_inv s \<Longrightarrow>
   out @ pending t = pending s @ pipe_input es"
proof (induction rule: pipe_run.induct)
  case (pipe_refl s)
  then show ?case by simp
next
  case (pipe_enqueue s es out t d u)
  then have "pipe_inv t" by (blast intro: run_inv)
  with pipe_enqueue show ?case by (simp add: enq_pending)
next
  case (pipe_transmit s es out t n u)
  then have "pipe_inv t" by (blast intro: run_inv)
  with pipe_transmit show ?case by (simp add: tx_pending)
qed

end

end
