(* ===== verification/Socket_Io_Thread.thy ===== *)
theory Socket_Io_Thread
  imports Win_Api
begin

text \<open>
  \<open>lib/winsocklib/socket_io_thread.h\<close>: the class template \<open>SocketIoThread\<close>, the client's
  event loop.  Sockets are registered and unregistered through a request queue; \<open>events_[0]\<close>
  wakes the loop for requests, the other events belong to sockets.  Sessions are named by
  numbers; \<open>locked\<close> is what \<open>weak_ptr::lock\<close> yields for one (\<open>None\<close> when it is gone, else
  its current socket handle).  The event functions of Windows are the record \<open>ev_os\<close>.
\<close>

section \<open>The event API and state\<close>

type_synonym WSAEVENT = "64 word"

abbreviation (input) WSA_INVALID_EVENT :: WSAEVENT where "WSA_INVALID_EVENT \<equiv> 0"
abbreviation (input) FD_READ :: s32 where "FD_READ \<equiv> 1"
abbreviation (input) FD_WRITE :: s32 where "FD_WRITE \<equiv> 2"
abbreviation (input) FD_CLOSE :: s32 where "FD_CLOSE \<equiv> 32"

record net_events =
  ne_mask :: s32
  ne_read_error :: s32
  ne_write_error :: s32
  ne_close_error :: s32

record 'w ev_os =
  ev_create :: "'w \<Rightarrow> WSAEVENT \<times> 'w"
  ev_set :: "WSAEVENT \<Rightarrow> 'w \<Rightarrow> 'w"
  ev_reset :: "WSAEVENT \<Rightarrow> 'w \<Rightarrow> 'w"
  ev_wait_any :: "WSAEVENT list \<Rightarrow> 'w \<Rightarrow> dword \<times> 'w"      \<comment> \<open>infinite timeout\<close>
  ev_poll :: "WSAEVENT \<Rightarrow> 'w \<Rightarrow> dword \<times> 'w"               \<comment> \<open>one event, timeout 0\<close>
  ev_enum :: "SOCKET \<Rightarrow> WSAEVENT \<Rightarrow> 'w \<Rightarrow> s32 \<times> net_events \<times> 'w"
  ev_select :: "SOCKET \<Rightarrow> WSAEVENT \<Rightarrow> s32 \<Rightarrow> 'w \<Rightarrow> s32 \<times> 'w"

record io_thread =
  it_running :: bool
  it_requests :: "(nat \<times> s32) list"
  it_events :: "WSAEVENT list"
  it_socket_map :: "WSAEVENT \<rightharpoonup> nat"
  it_event_map :: "SOCKET \<rightharpoonup> WSAEVENT"

definition new_io_thread :: "'w ev_os \<Rightarrow> 'w \<Rightarrow> io_thread \<times> 'w" where
  "new_io_thread ev w =
     (let (e, w) = ev_create ev w in
      (\<lparr>it_running = True, it_requests = [], it_events = [e], it_socket_map = Map.empty,
        it_event_map = Map.empty\<rparr>, w))"

section \<open>Requests\<close>

definition push_request :: "'w ev_os \<Rightarrow> nat \<times> s32 \<Rightarrow> io_thread \<Rightarrow> 'w \<Rightarrow> (io_thread \<times> 'w) option" where
  "push_request ev req t w =
     (let t = t\<lparr>it_requests := it_requests t @ [req]\<rparr> in
      case it_events t of [] \<Rightarrow> None | e # _ \<Rightarrow> Some (t, ev_set ev e w))"

definition request_register ::
  "'w ev_os \<Rightarrow> nat \<Rightarrow> s32 \<Rightarrow> io_thread \<Rightarrow> 'w \<Rightarrow> (io_thread \<times> 'w) option" where
  "request_register ev session network_events t w = push_request ev (session, network_events) t w"

definition request_unregister :: "'w ev_os \<Rightarrow> nat \<Rightarrow> io_thread \<Rightarrow> 'w \<Rightarrow> (io_thread \<times> 'w) option" where
  "request_unregister ev session t w = push_request ev (session, - 1) t w"

text \<open>
  \<open>OnRegisterSocket\<close>: \<open>std::map::insert\<close> keeps an existing entry; failures of
  \<open>WSACreateEvent\<close> and \<open>WSAEventSelect\<close> are ignored.
\<close>

definition map_insert :: "'k \<Rightarrow> 'v \<Rightarrow> ('k \<rightharpoonup> 'v) \<Rightarrow> ('k \<rightharpoonup> 'v)" where
  "map_insert k v m = (if m k = None then m(k \<mapsto> v) else m)"

definition on_register_socket ::
  "'w ev_os \<Rightarrow> (nat \<Rightarrow> SOCKET option) \<Rightarrow> nat \<Rightarrow> s32 \<Rightarrow> io_thread \<Rightarrow> 'w \<Rightarrow> io_thread \<times> 'w" where
  "on_register_socket ev locked session network_events t w =
     (case locked session of
        None \<Rightarrow> (t, w)
      | Some socket_handle \<Rightarrow>
          let (socket_event, w) = ev_create ev w in
          if socket_event = WSA_INVALID_EVENT then (t, w)
          else
            let t = t\<lparr>it_events := it_events t @ [socket_event],
                      it_socket_map := map_insert socket_event session (it_socket_map t),
                      it_event_map := map_insert socket_handle socket_event (it_event_map t)\<rparr>;
                (error, w) = ev_select ev socket_handle socket_event network_events w
            in (t, w))"

definition on_unregister_socket ::
  "(nat \<Rightarrow> SOCKET option) \<Rightarrow> nat \<Rightarrow> io_thread \<Rightarrow> io_thread" where
  "on_unregister_socket locked session t =
     (case locked session of
        None \<Rightarrow> t
      | Some h \<Rightarrow>
          (case it_event_map t h of
             None \<Rightarrow> t
           | Some socket_event \<Rightarrow>
               t\<lparr>it_events := remove1 socket_event (it_events t),
                 it_socket_map := (it_socket_map t)(socket_event := None),
                 it_event_map := (it_event_map t)(h := None)\<rparr>))"

text \<open>\<open>OnRequest\<close> handles one request; \<open>~0L\<close> marks an unregistration.\<close>

definition on_request ::
  "'w ev_os \<Rightarrow> (nat \<Rightarrow> SOCKET option) \<Rightarrow> io_thread \<Rightarrow> 'w \<Rightarrow> io_thread \<times> 'w" where
  "on_request ev locked t w =
     (case it_requests t of
        [] \<Rightarrow> (t, w)
      | (session, network_events) # rest \<Rightarrow>
          let t = t\<lparr>it_requests := rest\<rparr> in
          if network_events = - 1 then (on_unregister_socket locked session t, w)
          else on_register_socket ev locked session network_events t w)"

section \<open>The loop\<close>

text \<open>
  Callbacks of a session: \<open>OnSocketRead\<close>, \<open>OnSocketWrite\<close> and \<open>OnSocketClose\<close> with the error
  code.  They run inside the loop and may queue requests.
\<close>

datatype socket_callback = On_Read s32 | On_Write s32 | On_Close s32

type_synonym ('u, 'w) callbacks =
  "nat \<Rightarrow> socket_callback \<Rightarrow> io_thread \<times> 'u \<times> 'w \<Rightarrow> (io_thread \<times> 'u \<times> 'w) option"

definition on_socket_event ::
  "'w ev_os \<Rightarrow> (nat \<Rightarrow> 'u \<Rightarrow> SOCKET option) \<Rightarrow> ('u, 'w) callbacks \<Rightarrow> WSAEVENT \<Rightarrow>
   io_thread \<times> 'u \<times> 'w \<Rightarrow> (io_thread \<times> 'u \<times> 'w) option" where
  "on_socket_event ev locked cb wsa_event x = (case x of (t, u, w) \<Rightarrow> do {
     session \<leftarrow> it_socket_map t wsa_event;
     h \<leftarrow> locked session u;
     (case ev_enum ev h wsa_event w of (ret, wevents, w) \<Rightarrow>
        if ret = SOCKET_ERROR then Some (t, u, w)
        else do {
          x \<leftarrow> (if bit (ne_mask wevents) 0
               then cb session (On_Read (ne_read_error wevents)) (t, u, w) else Some (t, u, w));
          x \<leftarrow> (if bit (ne_mask wevents) 1
               then cb session (On_Write (ne_write_error wevents)) x else Some x);
          (if bit (ne_mask wevents) 5
           then cb session (On_Close (ne_close_error wevents)) x else Some x)
        })
   })"

text \<open>The \<open>for\<close> loop over \<open>events_[i]\<close>, \<open>i\<close> from \<open>ret\<close> to \<open>cEvents - 1\<close>, as read at the start.\<close>

fun scan_events ::
  "'w ev_os \<Rightarrow> (nat \<Rightarrow> 'u \<Rightarrow> SOCKET option) \<Rightarrow> ('u, 'w) callbacks \<Rightarrow> nat \<Rightarrow> nat \<Rightarrow>
   io_thread \<times> 'u \<times> 'w \<Rightarrow> (io_thread \<times> 'u \<times> 'w) option" where
  "scan_events ev locked cb i 0 x = Some x"
| "scan_events ev locked cb i (Suc n) (t, u, w) =
     (if i < length (it_events t) then
        (case ev_poll ev (it_events t ! i) w of (ret, w) \<Rightarrow>
           (if ret = 0 then do {
              x \<leftarrow> on_socket_event ev locked cb (it_events t ! i) (t, u, w);
              scan_events ev locked cb (Suc i) n x
            }
            else scan_events ev locked cb (Suc i) n (t, u, w)))
      else None)"

definition run_iteration ::
  "'w ev_os \<Rightarrow> (nat \<Rightarrow> 'u \<Rightarrow> SOCKET option) \<Rightarrow> ('u, 'w) callbacks \<Rightarrow>
   io_thread \<times> 'u \<times> 'w \<Rightarrow> (io_thread \<times> 'u \<times> 'w) option" where
  "run_iteration ev locked cb x = (case x of (t, u, w) \<Rightarrow>
     let cEvents = length (it_events t);
         (ret, w) = ev_wait_any ev (it_events t) w
     in if cEvents \<le> unat ret then Some (t, u, w)
        else if ret = 0 then
          let w = ev_reset ev (it_events t ! 0) w;
              (t, w) = on_request ev (\<lambda>s. locked s u) t w
          in scan_events ev locked cb 1 (cEvents - 1) (t, u, w)
        else scan_events ev locked cb (unat ret) (cEvents - unat ret) (t, u, w))"

definition io_thread_close :: "'w ev_os \<Rightarrow> io_thread \<Rightarrow> 'w \<Rightarrow> (io_thread \<times> 'w) option" where
  "io_thread_close ev t w =
     (if it_running t then
        (case it_events t of [] \<Rightarrow> None | e # _ \<Rightarrow> Some (t\<lparr>it_running := False\<rparr>, ev_set ev e w))
      else Some (t, w))"

section \<open>Invariant\<close>

text \<open>
  The wake-up event is first; every other event belongs to exactly one entry of
  \<open>socket_map_\<close>; handles map to distinct registered events.
\<close>

definition it_inv :: "io_thread \<Rightarrow> bool" where
  "it_inv t \<longleftrightarrow> it_events t \<noteq> [] \<and> distinct (it_events t) \<and>
     dom (it_socket_map t) = set (tl (it_events t)) \<and>
     ran (it_event_map t) \<subseteq> set (tl (it_events t)) \<and>
     inj_on (it_event_map t) (dom (it_event_map t))"

lemma it_inv_new: "it_inv (fst (new_io_thread ev w))"
  by (simp add: it_inv_def new_io_thread_def split: prod.splits)

lemma tl_remove1: "distinct xs \<Longrightarrow> x \<in> set (tl xs) \<Longrightarrow> tl (remove1 x xs) = remove1 x (tl xs) \<and> remove1 x xs \<noteq> []"
  by (cases xs) auto

lemma it_inv_unregister:
  assumes "it_inv t"
  shows "it_inv (on_unregister_socket locked s t)"
proof (cases "\<exists>h e. locked s = Some h \<and> it_event_map t h = Some e")
  case False
  then show ?thesis
    using assms by (auto simp: on_unregister_socket_def split: option.splits)
next
  case True
  then obtain h e where he: "locked s = Some h" "it_event_map t h = Some e" by blast
  have e: "e \<in> set (tl (it_events t))"
    using assms he(2) unfolding it_inv_def by (meson ranI subsetD)
  have d: "distinct (it_events t)" "distinct (tl (it_events t))"
    using assms by (auto simp: it_inv_def distinct_tl)
  have rest: "ran ((it_event_map t)(h := None)) \<subseteq> set (tl (it_events t)) - {e}"
  proof
    fix x assume "x \<in> ran ((it_event_map t)(h := None))"
    then obtain k where k: "k \<noteq> h" "it_event_map t k = Some x"
      by (auto simp: ran_def split: if_splits)
    have "x \<noteq> e"
      using assms k he(2) unfolding it_inv_def by (metis domI inj_onD)
    moreover have "x \<in> set (tl (it_events t))"
      using assms k(2) unfolding it_inv_def by (meson ranI subsetD)
    ultimately show "x \<in> set (tl (it_events t)) - {e}" by simp
  qed
  have inj: "inj_on ((it_event_map t)(h := None)) (dom ((it_event_map t)(h := None)))"
    using assms unfolding it_inv_def inj_on_def by auto
  have "on_unregister_socket locked s t = t\<lparr>it_events := remove1 e (it_events t),
      it_socket_map := (it_socket_map t)(e := None), it_event_map := (it_event_map t)(h := None)\<rparr>"
    by (simp add: on_unregister_socket_def he)
  then show ?thesis
    using assms tl_remove1 [OF d(1) e] rest inj d
    by (simp add: it_inv_def distinct_remove1 set_remove1_eq)
qed

lemma it_inv_register:
  assumes "it_inv t"
    and "fst (ev_create ev w) = WSA_INVALID_EVENT \<or> fst (ev_create ev w) \<notin> set (it_events t)"
  shows "it_inv (fst (on_register_socket ev locked s n t w))"
proof (cases "locked s")
  case None
  then show ?thesis using assms by (simp add: on_register_socket_def)
next
  case (Some h)
  obtain e w1 where e: "ev_create ev w = (e, w1)" by force
  show ?thesis
  proof (cases "e = WSA_INVALID_EVENT")
    case True
    then show ?thesis using assms(1) Some e by (simp add: on_register_socket_def)
  next
    case False
  obtain x xs where ev: "it_events t = x # xs"
    using assms(1) by (cases "it_events t") (auto simp: it_inv_def)
  have fresh: "e \<notin> set (x # xs)"
    using assms(2) e ev False by simp
  have sm: "it_socket_map t e = None"
    using assms(1) fresh ev by (auto simp: it_inv_def dom_def)
  have "e \<notin> ran (it_event_map t)"
    using assms(1) fresh ev by (auto simp: it_inv_def)
  then have inj: "inj_on (map_insert h e (it_event_map t)) (dom (map_insert h e (it_event_map t)))"
    using assms(1) by (auto simp: it_inv_def map_insert_def inj_on_def ran_def) 
  have "ran (map_insert h e (it_event_map t)) \<subseteq> insert e (ran (it_event_map t))"
    by (auto simp: map_insert_def ran_def)
  then have rn: "ran (map_insert h e (it_event_map t)) \<subseteq> insert e (set (tl (it_events t)))"
    using assms(1) unfolding it_inv_def by blast
  have dm: "dom (map_insert e s (it_socket_map t)) = insert e (set (tl (it_events t)))"
    using assms(1) sm by (simp add: it_inv_def map_insert_def)
  have fin: "fst (on_register_socket ev locked s n t w) = (if e = WSA_INVALID_EVENT then t else
      t\<lparr>it_events := it_events t @ [e], it_socket_map := map_insert e s (it_socket_map t),
        it_event_map := map_insert h e (it_event_map t)\<rparr>)"
    by (simp add: on_register_socket_def Some e split: prod.splits)
  have "it_inv (t\<lparr>it_events := it_events t @ [e], it_socket_map := map_insert e s (it_socket_map t),
        it_event_map := map_insert h e (it_event_map t)\<rparr>)"
    using assms(1) ev fresh inj rn dm by (auto simp: it_inv_def)
  then show ?thesis
    using assms(1) unfolding fin by simp
  qed
qed

lemma it_inv_requests [simp]: "it_inv (t\<lparr>it_requests := r\<rparr>) = it_inv t"
  by (simp add: it_inv_def)

lemma it_inv_request:
  assumes "it_inv t"
    and "fst (ev_create ev w) = WSA_INVALID_EVENT \<or> fst (ev_create ev w) \<notin> set (it_events t)"
  shows "it_inv (fst (on_request ev locked t w))"
proof (cases "it_requests t")
  case Nil
  then show ?thesis using assms(1) by (simp add: on_request_def)
next
  case (Cons r rest)
  have *: "it_inv (fst (on_register_socket ev locked s n (t\<lparr>it_requests := rest\<rparr>) w))" for s n
    using assms by (intro it_inv_register) simp_all
  show ?thesis
    using assms(1) * by (cases r) (simp add: on_request_def Cons it_inv_unregister Let_def)
qed

text \<open>
  The requests as the loop and the other threads interleave them.  \<open>live w\<close> are the events in
  existence: \<open>WSACreateEvent\<close> fails or gives one that is not among them.
\<close>

inductive request_run :: "'w ev_os \<Rightarrow> io_thread \<times> 'w \<Rightarrow> bool" for ev :: "'w ev_os" where
  start: "request_run ev (new_io_thread ev w)"
| push: "request_run ev (t, w) \<Longrightarrow> push_request ev r t w = Some x \<Longrightarrow> request_run ev x"
| handle: "request_run ev (t, w) \<Longrightarrow> request_run ev (on_request ev locked t w)"

definition event_contract :: "'w ev_os \<Rightarrow> ('w \<Rightarrow> WSAEVENT set) \<Rightarrow> bool" where
  "event_contract ev live \<longleftrightarrow>
     (\<forall>w. (case ev_create ev w of (e, w') \<Rightarrow>
             (if e = WSA_INVALID_EVENT then live w' = live w
              else e \<notin> live w \<and> live w' = insert e (live w)))) \<and>
     (\<forall>e w. live (ev_set ev e w) = live w) \<and>
     (\<forall>h e n w. live (snd (ev_select ev h e n w)) = live w)"

definition events_exist :: "('w \<Rightarrow> WSAEVENT set) \<Rightarrow> io_thread \<Rightarrow> 'w \<Rightarrow> bool" where
  "events_exist live t w \<longleftrightarrow> set (it_events t) \<subseteq> insert WSA_INVALID_EVENT (live w)"

lemma events_exist_unregister:
  "events_exist live t w \<Longrightarrow> events_exist live (on_unregister_socket locked s t) w"
  using set_remove1_subset
  by (fastforce simp: events_exist_def on_unregister_socket_def split: option.splits)

lemma events_exist_register:
  assumes c: "event_contract ev live" and e: "events_exist live t w"
    and r: "on_register_socket ev locked s n t w = (t', w')"
  shows "events_exist live t' w'"
proof (cases "locked s")
  case None
  then show ?thesis using e r by (simp add: on_register_socket_def)
next
  case (Some h)
  obtain x w1 where x: "ev_create ev w = (x, w1)" by force
  have l: "live w1 = (if x = WSA_INVALID_EVENT then live w else insert x (live w))"
    using c x unfolding event_contract_def by (metis (mono_tags, lifting) case_prod_conv)
  have s: "live (snd (ev_select ev h x n w1)) = live w1"
    using c by (simp add: event_contract_def)
  show ?thesis
    using e r l s x Some
    by (auto simp: on_register_socket_def events_exist_def Let_def split: if_splits prod.splits)
qed

lemma events_exist_request:
  assumes c: "event_contract ev live" and e: "events_exist live t w"
    and r: "on_request ev locked t w = (t', w')"
  shows "events_exist live t' w'"
proof (cases "it_requests t")
  case Nil
  then show ?thesis using e r by (simp add: on_request_def)
next
  case (Cons q rest)
  have e': "events_exist live (t\<lparr>it_requests := rest\<rparr>) w"
    using e by (simp add: events_exist_def)
  show ?thesis
    using r events_exist_unregister [OF e'] events_exist_register [OF c e']
    by (cases q) (auto simp: on_request_def Cons Let_def split: if_splits)
qed

lemma event_contract_fresh:
  assumes "event_contract ev live" and "events_exist live t w"
  shows "fst (ev_create ev w) = WSA_INVALID_EVENT \<or> fst (ev_create ev w) \<notin> set (it_events t)"
proof -
  obtain e w1 where e: "ev_create ev w = (e, w1)" by force
  then have "e = WSA_INVALID_EVENT \<or> e \<notin> live w"
    using assms(1) unfolding event_contract_def by (metis (mono_tags, lifting) case_prod_conv)
  then show ?thesis using assms(2) e by (auto simp: events_exist_def)
qed

lemma request_run_invariants:
  assumes "request_run ev x" and c: "event_contract ev live"
  shows "it_inv (fst x) \<and> events_exist live (fst x) (snd x)"
  using assms(1)
proof induction
  case (start w)
  obtain e w1 where e: "ev_create ev w = (e, w1)" by force
  have "live w1 = (if e = WSA_INVALID_EVENT then live w else insert e (live w))"
    using c e unfolding event_contract_def by (metis (mono_tags, lifting) case_prod_conv)
  then show ?case
    using e it_inv_new [of ev w] by (auto simp: events_exist_def new_io_thread_def)
next
  case (push t w r x)
  then show ?case
    using c by (auto simp: push_request_def events_exist_def event_contract_def Let_def
        split: list.splits)
next
  case (handle t w locked)
  then have i: "it_inv t" "events_exist live t w" by simp_all
  obtain t' w' where r: "on_request ev locked t w = (t', w')" by force
  show ?case
    using it_inv_request [OF i(1) event_contract_fresh [OF c i(2)], of locked]
      events_exist_request [OF c i(2) r] r by simp
qed

section \<open>Properties\<close>


text \<open>A world for examples: the number of events created and the list of those signalled.\<close>

definition event_os :: "(nat \<times> WSAEVENT list) ev_os" where
  "event_os = \<lparr>
     ev_create = (\<lambda>(n, s). if n < 64 then (word_of_nat (Suc n), (Suc n, s)) else (0, (n, s))),
     ev_set = (\<lambda>e (n, s). (n, List.insert e s)),
     ev_reset = (\<lambda>e (n, s). (n, removeAll e s)),
     ev_wait_any = (\<lambda>es (n, s). (word_of_nat (length (takeWhile (\<lambda>e. e \<notin> set s) es)), (n, s))),
     ev_poll = (\<lambda>e (n, s). (if e \<in> set s then 0 else 258, (n, s))),
     ev_enum = (\<lambda>h e (n, s). (0, \<lparr>ne_mask = 1, ne_read_error = 0, ne_write_error = 0,
                                  ne_close_error = 0\<rparr>, (n, removeAll e s))),
     ev_select = (\<lambda>h e m (n, s). (0, (n, s)))\<rparr>"

lemma event_os_contract: "event_contract event_os (\<lambda>(n, s). word_of_nat ` {1..min n 64})"
proof -
  have inj: "(word_of_nat (Suc n) :: 64 word) \<notin> word_of_nat ` {1..min n 64}" if "n < 64" for n
  proof
    assume "(word_of_nat (Suc n) :: 64 word) \<in> word_of_nat ` {1..min n 64}"
    then obtain k where k: "k \<le> n" "(word_of_nat (Suc n) :: 64 word) = word_of_nat k"
      by auto
    then have "unat (word_of_nat (Suc n) :: 64 word) = unat (word_of_nat k :: 64 word)" by simp
    then show False using k(1) that by (simp add: unat_of_nat_small del: of_nat_Suc)
  qed
  have nz: "(word_of_nat (Suc n) :: 64 word) \<noteq> 0" if "n < 64" for n
  proof
    assume "(word_of_nat (Suc n) :: 64 word) = 0"
    then have "unat (word_of_nat (Suc n) :: 64 word) = 0" by simp
    then show False using that by (simp add: unat_of_nat_small del: of_nat_Suc)
  qed
  have step: "word_of_nat ` {1..min (Suc n) 64} =
      insert (word_of_nat (Suc n)) ((word_of_nat :: nat \<Rightarrow> 64 word) ` {1..min n 64})" if "n < 64" for n
    using that by (simp add: min_def atLeastAtMostSuc_conv)
  show ?thesis
    unfolding event_contract_def event_os_def
    using inj nz step by (auto simp del: of_nat_Suc)
qed


text \<open>C10: registering a session and then unregistering it, its
  socket unchanged and not registered before, restores the event table exactly.\<close>
theorem register_unregister_roundtrip:
  assumes "it_inv t" and "locked s = Some h" and "it_event_map t h = None"
    and "ev_create ev w = (e, w1)" and "e \<notin> set (it_events t)"
  shows "on_unregister_socket locked s (fst (on_register_socket ev locked s n t w)) = t"
proof (cases "e = WSA_INVALID_EVENT")
  case True
  then show ?thesis using assms by (simp add: on_register_socket_def on_unregister_socket_def)
next
  case False
  have "it_socket_map t e = None"
    using assms(1,5) by (cases "it_events t") (auto simp: it_inv_def dom_def)
  then show ?thesis
    using False assms
    by (simp add: on_register_socket_def on_unregister_socket_def map_insert_def Let_def
        remove1_append fun_upd_idem split: prod.splits)
qed

theorem register_unregister_roundtrip_witness:
  "on_unregister_socket (\<lambda>s. Some 5) 7
     (fst (on_register_socket event_os (\<lambda>s. Some 5) 7 35
        \<lparr>it_running = True, it_requests = [], it_events = [1],
          it_socket_map = Map.empty, it_event_map = Map.empty\<rparr> (1, []))) =
   \<lparr>it_running = True, it_requests = [], it_events = [1],
     it_socket_map = Map.empty, it_event_map = Map.empty\<rparr>"
  by (rule register_unregister_roundtrip [where h = 5 and e = 2 and ?w1.0 = "(2, [])"])
    (simp_all add: it_inv_def event_os_def)

text \<open>C19: one wake-up takes one request off the queue although it resets the
  event for all of them: with two requests queued (a \<open>Connect\<close> and the \<open>Close\<close> after it), the
  loop handles the first, and then waits with the second still queued and its event no longer
  signalled.\<close>
theorem lost_wakeup:
  assumes "it_requests t = r1 # r2 # rs" and "it_events t = [e]" and "it_inv t"
    and "fst (ev_wait_any ev [e] w) = 0"
    and "\<And>w. \<not> signalled e (ev_reset ev e w)"
    and "\<And>w. signalled e (snd (ev_create ev w)) = signalled e w"
    and "\<And>h x n w. signalled e (snd (ev_select ev h x n w)) = signalled e w"
  shows "\<exists>t' w'. run_iteration ev locked cb (t, u, w) = Some (t', u, w') \<and>
           it_requests t' = r2 # rs \<and> hd (it_events t') = e \<and> \<not> signalled e w'"
proof -
  obtain w1 where w1: "ev_wait_any ev [e] w = (0, w1)"
    using assms(4) by (cases "ev_wait_any ev [e] w") simp
  let ?t = "t\<lparr>it_requests := r2 # rs\<rparr>"
  let ?w = "ev_reset ev e w1"
  obtain s n where r1: "r1 = (s, n)" by (cases r1)
  have "it_event_map t h = None" for h
    using assms(2,3) by (cases "it_event_map t h") (auto simp: it_inv_def ran_def)
  then have un: "on_unregister_socket (\<lambda>s. locked s u) s ?t = ?t"
    by (simp add: on_unregister_socket_def split: option.splits)
  obtain t' w' where reg: "on_register_socket ev (\<lambda>s. locked s u) s n ?t ?w = (t', w')" by force
  have "it_requests t' = r2 # rs \<and> hd (it_events t') = e \<and> \<not> signalled e w'"
  proof (cases "locked s u")
    case None
    then show ?thesis using reg assms(2,5) by (auto simp: on_register_socket_def)
  next
    case (Some h)
    obtain x w2 where x: "ev_create ev ?w = (x, w2)" by force
    then have "\<not> signalled e w2" using assms(5,6) by (metis snd_conv)
    then show ?thesis
      using reg Some x assms(2) assms(7) [of h x n w2]
      by (auto simp: on_register_socket_def Let_def split: if_splits prod.splits)
  qed
  moreover have "run_iteration ev locked cb (t, u, w) =
      (if n = - 1 then Some (?t, u, ?w) else Some (t', u, w'))"
    using reg by (simp add: run_iteration_def assms(1,2) w1 on_request_def r1 un Let_def)
  ultimately show ?thesis using assms(2,5) by auto
qed

theorem lost_wakeup_witness:
  "\<exists>t' w'. run_iteration event_os (\<lambda>s u. Some 5) (\<lambda>s c x. Some x)
       (\<lparr>it_running = True, it_requests = [(7, 35), (7, - 1)], it_events = [1],
          it_socket_map = Map.empty, it_event_map = Map.empty\<rparr>, (), (1, [1])) = Some (t', (), w') \<and>
     it_requests t' = [(7, - 1)] \<and> hd (it_events t') = 1 \<and> \<not> 1 \<in> set (snd w')"
  by (rule lost_wakeup [where e = 1 and ?r1.0 = "(7, 35)" and signalled = "\<lambda>e w. e \<in> set (snd w)"])
    (auto simp: it_inv_def event_os_def split: if_splits)

text \<open>C20: the loop keeps the number of events it read before
  it handled the request: when the request unregisters the only socket, the scan that
  follows reads \<open>events_[1]\<close> of a vector of one element, which is undefined.\<close>
theorem unregister_reads_past_events:
  assumes "it_events t = [e0, e1]" and "e0 \<noteq> e1" and "it_requests t = (s, - 1) # rs"
    and "locked s u = Some h" and "it_event_map t h = Some e1"
    and "fst (ev_wait_any ev [e0, e1] w) = 0"
  shows "run_iteration ev locked cb (t, u, w) = None"
proof -
  obtain w1 where w1: "ev_wait_any ev [e0, e1] w = (0, w1)"
    using assms(6) by (cases "ev_wait_any ev [e0, e1] w") simp
  have "on_unregister_socket (\<lambda>s. locked s u) s (t\<lparr>it_requests := rs\<rparr>) =
      t\<lparr>it_requests := rs, it_events := [e0], it_socket_map := (it_socket_map t)(e1 := None),
        it_event_map := (it_event_map t)(h := None)\<rparr>"
    using assms(1,2,4,5) by (simp add: on_unregister_socket_def)
  then show ?thesis
    by (simp add: run_iteration_def assms(1,3) w1 on_request_def numeral_eq_Suc)
qed

theorem unregister_reads_past_events_witness:
  "run_iteration event_os (\<lambda>s u. Some 5) (\<lambda>s c x. Some x)
     (\<lparr>it_running = True, it_requests = [(7, - 1)], it_events = [1, 2],
        it_socket_map = [2 \<mapsto> 7], it_event_map = [5 \<mapsto> 2]\<rparr>, (), (2, [1])) = None"
  by (rule unregister_reads_past_events [where h = 5 and ?e0.0 = 1 and ?e1.0 = 2])
    (simp_all add: event_os_def)

end
