(* ===== verification/Client_Socket.thy ===== *)
theory Client_Socket
  imports Packet_Receiver Win_Sock Byte_Pipe Socket_Io_Thread
begin

text \<open>
  \<open>lib/winsocklib/client_socket.h\<close>: the class template \<open>ClientSocket\<close>, a non-blocking
  client connection with its own \<open>SocketIoThread\<close>.  Reads cut the stream into packets and
  call \<open>OnPacket\<close> of the derived session (the parameter \<open>on_packet\<close>, which may send);
  writes drain a queue of framed packets.  The loops that may not end are partial
  functions: \<open>None\<close> is non-termination or undefined behaviour.
\<close>

unbundle bit_operations_syntax

section \<open>State\<close>

record client_socket =
  cs_socket :: win_sock
  cs_thread :: io_thread
  cs_recv_buffer :: "byte list"
  cs_recv_offset :: u32
  cs_receiver :: packet_receiver
  cs_send_buffers :: "socket_buffer list"
  cs_sending_size :: u32

definition new_client_socket :: "'w ev_os \<Rightarrow> 'w \<Rightarrow> client_socket \<times> 'w" where
  "new_client_socket ev w =
     (let (t, w) = new_io_thread ev w in
      (\<lparr>cs_socket = ws_new, cs_thread = t, cs_recv_buffer = replicate kSocketBufferSize 0,
        cs_recv_offset = 0, cs_receiver = new_receiver, cs_send_buffers = [],
        cs_sending_size = 0\<rparr>, w))"

definition get_socket_handle :: "client_socket \<Rightarrow> SOCKET" where
  "get_socket_handle s = handle (cs_socket s)"

section \<open>Connecting and closing\<close>

text \<open>\<open>self\<close> is the client's name in the requests of its event loop.\<close>

definition client_connect ::
  "'w os \<Rightarrow> 'w ev_os \<Rightarrow> nat \<Rightarrow> sockaddr_in \<Rightarrow> client_socket \<Rightarrow> 'w \<Rightarrow>
   (bool, client_socket, 'w) method_result option" where
  "client_connect os ev self addr_in s w =
     (let (r, sock, w) = ws_create os AF_INET SOCK_STREAM 0 (cs_socket s) w;
          s = s\<lparr>cs_socket := sock\<rparr> in
      case r of Inl e \<Rightarrow> Some (Inl e, s, w)
      | Inr _ \<Rightarrow>
        let (r, sock, w) = ws_set_non_blocking os True (cs_socket s) w in
        (case r of Inl e \<Rightarrow> Some (Inl e, s, w)
         | Inr _ \<Rightarrow> do {
             (t, w) \<leftarrow> request_register ev self (FD_READ OR FD_WRITE OR FD_CLOSE) (cs_thread s) w;
             let s = s\<lparr>cs_thread := t\<rparr>;
             let (ok, w) = ws_connect os addr_in (cs_socket s) w;
             Some (Inr ok, s, w)
           }))"

definition client_close ::
  "'w os \<Rightarrow> 'w ev_os \<Rightarrow> nat \<Rightarrow> client_socket \<Rightarrow> 'w \<Rightarrow> (client_socket \<times> 'w) option" where
  "client_close os ev self s w = do {
     (t, w) \<leftarrow> request_unregister ev self (cs_thread s) w;
     let s = s\<lparr>cs_thread := t, cs_sending_size := 0\<rparr>;
     (sock, w) \<leftarrow> ws_close os (cs_socket s) w;
     Some (s\<lparr>cs_socket := sock\<rparr>, w)
   }"

section \<open>Receiving\<close>

type_synonym 'w on_packet =
  "byte list \<Rightarrow> u32 \<Rightarrow> client_socket \<Rightarrow> 'w \<Rightarrow> (unit, client_socket, 'w) method_result option"

text \<open>
  The \<open>do ... while\<close> loop over one received chunk.  Its two arguments never change: every
  turn passes the start of the chunk and the full count \<open>received\<close> to \<open>OnReceive\<close>.
\<close>

definition read_turn ::
  "'w on_packet \<Rightarrow> byte list \<Rightarrow> u32 \<Rightarrow> client_socket \<Rightarrow> 'w \<Rightarrow> (u32, client_socket, 'w) method_result option" where
  "read_turn on_packet buffer received s w = do {
     (remain, p) \<leftarrow> on_receive buffer received (cs_receiver s);
     let s = s\<lparr>cs_receiver := p\<rparr>;
     (if is_complete p then do {
        (res, s, w) \<leftarrow> on_packet (packet_buffer p) (packet_length p) s w;
        Some (case res of
            Inl e \<Rightarrow> (Inl e, s, w)
          | Inr _ \<Rightarrow> (Inr remain, s\<lparr>cs_receiver := clear (cs_receiver s)\<rparr>, w))
      }
      else Some (Inr remain, s, w))
   }"

partial_function (option) read_chunk ::
  "'w on_packet \<Rightarrow> byte list \<Rightarrow> u32 \<Rightarrow> client_socket \<Rightarrow> 'w \<Rightarrow> (unit, client_socket, 'w) method_result option" where
  "read_chunk on_packet buffer received s w = do {
     (res, s, w) \<leftarrow> read_turn on_packet buffer received s w;
     (case res of
        Inl e \<Rightarrow> Some (Inl e, s, w)
      | Inr remain \<Rightarrow>
          if 0 < remain then read_chunk on_packet buffer received s w
          else Some (Inr (), s, w))
   }"

partial_function (option) read_loop ::
  "'w os \<Rightarrow> 'w on_packet \<Rightarrow> client_socket \<Rightarrow> 'w \<Rightarrow> (unit, client_socket, 'w) method_result option" where
  "read_loop os on_packet s w =
     (case ws_recv os (of_nat kSocketBufferSize - cs_recv_offset s) 0 (cs_socket s) w of
        (Inl e, sock, w) \<Rightarrow> Some (Inl e, s, w)
      | (Inr (received, bytes), sock, w) \<Rightarrow>
          if sint received \<le> 0 then Some (Inr (), s, w)
          else do {
            buf \<leftarrow> copy_to bytes (unat received) (cs_recv_buffer s) (unat (cs_recv_offset s));
            let s = s\<lparr>cs_recv_buffer := buf\<rparr>;
            (res, s, w) \<leftarrow> read_chunk on_packet (drop (unat (cs_recv_offset s)) buf) received s w;
            (case res of
               Inl e \<Rightarrow> Some (Inl e, s, w)
             | Inr _ \<Rightarrow> read_loop os on_packet s w)
          })"

definition on_socket_read ::
  "'w os \<Rightarrow> 'w on_packet \<Rightarrow> s32 \<Rightarrow> client_socket \<Rightarrow> 'w \<Rightarrow> (unit, client_socket, 'w) method_result option" where
  "on_socket_read os on_packet error s w =
     (if 0 < sint error then Some (Inr (), s, w) else read_loop os on_packet s w)"

section \<open>Sending\<close>

text \<open>
  One turn of the loop of \<open>TrySendPacket\<close> with a non-empty queue: \<open>Inr False\<close> is the
  \<open>break\<close>, \<open>Inr True\<close> the next turn.
\<close>

definition send_turn ::
  "'w os \<Rightarrow> client_socket \<Rightarrow> 'w \<Rightarrow> (bool, client_socket, 'w) method_result option" where
  "send_turn os s w =
     (case cs_send_buffers s of
        [] \<Rightarrow> None
      | front # rest \<Rightarrow>
          if length front < unat (cs_sending_size s) then None
          else
            let send_len = get_buffer_size front - cs_sending_size s;
                (r, sock, w) = ws_send os (drop (unat (cs_sending_size s)) front) send_len 0 (cs_socket s) w
            in Some (case r of
                Inl e \<Rightarrow> (Inl e, s, w)
              | Inr len \<Rightarrow>
                  if len = 0 then (Inr False, s, w)
                  else
                    let s = s\<lparr>cs_sending_size := cs_sending_size s + len\<rparr> in
                    if cs_sending_size s < get_buffer_size front then (Inr True, s, w)
                    else (Inr True, s\<lparr>cs_send_buffers := rest, cs_sending_size := 0\<rparr>, w)))"

partial_function (option) try_send_packet ::
  "'w os \<Rightarrow> client_socket \<Rightarrow> 'w \<Rightarrow> (unit, client_socket, 'w) method_result option" where
  "try_send_packet os s w =
     (if cs_send_buffers s = [] then Some (Inr (), s, w)
      else do {
        (r, s, w) \<leftarrow> send_turn os s w;
        (case r of
           Inl e \<Rightarrow> Some (Inl e, s, w)
         | Inr again \<Rightarrow> if again then try_send_packet os s w else Some (Inr (), s, w))
      })"

definition send_packet ::
  "'w os \<Rightarrow> byte list \<Rightarrow> u32 \<Rightarrow> client_socket \<Rightarrow> 'w \<Rightarrow> (unit, client_socket, 'w) method_result option" where
  "send_packet os data sz s w = do {
     b \<leftarrow> allocate data sz;
     try_send_packet os (s\<lparr>cs_send_buffers := cs_send_buffers s @ [b]\<rparr>) w
   }"

definition on_socket_write ::
  "'w os \<Rightarrow> s32 \<Rightarrow> client_socket \<Rightarrow> 'w \<Rightarrow> (unit, client_socket, 'w) method_result option" where
  "on_socket_write os error s w =
     (if 0 < sint error then Some (Inr (), s, w) else try_send_packet os s w)"

definition on_socket_close ::
  "'w os \<Rightarrow> 'w ev_os \<Rightarrow> nat \<Rightarrow> s32 \<Rightarrow> client_socket \<Rightarrow> 'w \<Rightarrow> (client_socket \<times> 'w) option" where
  "on_socket_close os ev self error s w = client_close os ev self s w"

declare read_chunk.simps [code] read_loop.simps [code] try_send_packet.simps [code]

section \<open>The send queue as a pipe of bytes\<close>

definition cs_pending :: "client_socket \<Rightarrow> byte list" where
  "cs_pending s = drop (unat (cs_sending_size s)) (concat (cs_send_buffers s))"

definition sendable :: "socket_buffer \<Rightarrow> bool" where
  "sendable b \<longleftrightarrow> 4 \<le> length b \<and> length b < 2 ^ 31"

definition cs_inv :: "client_socket \<Rightarrow> bool" where
  "cs_inv s \<longleftrightarrow> list_all sendable (cs_send_buffers s) \<and>
     (case cs_send_buffers s of [] \<Rightarrow> cs_sending_size s = 0
      | b # _ \<Rightarrow> unat (cs_sending_size s) < length b)"

lemma sendable_size: "sendable b \<Longrightarrow> unat (get_buffer_size b) = length b"
  by (simp add: sendable_def get_buffer_size_def unat_of_nat)

text \<open>
  What \<open>send\<close> promises: it fails, or takes a prefix of the bytes; \<open>sent w\<close> is everything
  the transport has accepted.
\<close>

definition send_contract :: "'w os \<Rightarrow> ('w \<Rightarrow> byte list) \<Rightarrow> bool" where
  "send_contract os sent \<longleftrightarrow>
     (\<forall>h data len flags w. case os_send os h data len flags w of (r, w') \<Rightarrow>
        if r = SOCKET_ERROR then sent w' = sent w
        else unat r \<le> unat len \<and> sent w' = sent w @ take (unat r) data)"

lemma send_contractD:
  assumes "send_contract os sent" and "os_send os h data len flags w = (r, w')"
  shows "if r = SOCKET_ERROR then sent w' = sent w
    else unat r \<le> unat len \<and> sent w' = sent w @ take (unat r) data"
  using assms(1) [unfolded send_contract_def, THEN spec [of _ h], THEN spec [of _ data],
      THEN spec [of _ len], THEN spec [of _ flags], THEN spec [of _ w]] assms(2) by simp

lemma ws_send_sent:
  assumes "send_contract os sent" and "ws_send os data len flags sock w = (r, sock', w')"
  shows "case r of Inl e \<Rightarrow> sent w' = sent w
    | Inr n \<Rightarrow> unat n \<le> unat len \<and> sent w' = sent w @ take (unat n) data"
proof -
  obtain x w1 where x: "os_send os (handle sock) data len flags w = (x, w1)" by force
  show ?thesis
    using send_contractD [OF assms(1) x] assms(2) x
    by (auto simp: ws_send_def Let_def split: if_splits)
qed

text \<open>
  A turn that sends moves bytes from the front of the pending ones to the transport; any
  other turn changes nothing and ends the loop.
\<close>

lemma send_turn_effect:
  assumes c: "send_contract os sent" and inv: "cs_inv s" and ne: "cs_send_buffers s \<noteq> []"
  obtains r s' w' where "send_turn os s w = Some (r, s', w')" and "cs_inv s'"
    and "sent w' @ cs_pending s' = sent w @ cs_pending s"
    and "r = Inr True \<Longrightarrow> length (cs_pending s') < length (cs_pending s)"
    and "r \<noteq> Inr True \<Longrightarrow> s' = s \<and> sent w' = sent w"
    and "r = Inr False \<Longrightarrow> ws_send os (drop (unat (cs_sending_size s)) (hd (cs_send_buffers s)))
      (get_buffer_size (hd (cs_send_buffers s)) - cs_sending_size s) 0 (cs_socket s) w =
      (Inr 0, cs_socket s, w')"
proof -
  obtain b bs where bs: "cs_send_buffers s = b # bs" using ne by (cases "cs_send_buffers s") auto
  let ?off = "cs_sending_size s"
  let ?len = "get_buffer_size b - ?off"
  have b: "sendable b" "unat ?off < length b" "list_all sendable bs"
    using inv bs by (simp_all add: cs_inv_def)
  note size = sendable_size [OF b(1)]
  have len: "unat ?len = length b - unat ?off"
    using b(2) size by (simp add: unat_sub_le word_le_nat_alt)
  obtain r sock w1 where w1: "ws_send os (drop (unat ?off) b) ?len 0 (cs_socket s) w = (r, sock, w1)"
    by (metis prod_cases3)
  have sock: "sock = cs_socket s"
    using w1 ws_frame(3) [of os "drop (unat ?off) b" ?len 0 "cs_socket s" w] by simp
  have sent: "case r of Inl e \<Rightarrow> sent w1 = sent w
    | Inr n \<Rightarrow> unat n \<le> unat ?len \<and> sent w1 = sent w @ take (unat n) (drop (unat ?off) b)"
    by (rule ws_send_sent [OF c w1])
  show thesis
  proof (cases r)
    case (Inl e)
    then show thesis
      using that [of "Inl e" s w1] sent w1 b(2) inv by (simp add: send_turn_def bs Let_def)
  next
    case (Inr n)
    show thesis
    proof (cases "n = 0")
      case True
      then show thesis
        using that [of "Inr False" s w1] sent w1 b(2) inv Inr sock by (simp add: send_turn_def bs Let_def)
    next
      case False
      have n: "unat n \<le> length b - unat ?off" "0 < unat n"
        using sent Inr len False by (simp_all add: unat_gt_0)
      have sum: "unat (?off + n) = unat ?off + unat n"
      proof (rule unat_add_small)
        have "unat ?off + unat n \<le> length b" using n(1) b(2) by linarith
        then show "unat ?off + unat n < 2 ^ LENGTH(32)" using b(1) by (simp add: sendable_def)
      qed
      let ?s1 = "s\<lparr>cs_sending_size := ?off + n\<rparr>"
      let ?s2 = "s\<lparr>cs_send_buffers := bs, cs_sending_size := 0\<rparr>"
      have w: "sent w1 = sent w @ take (unat n) (drop (unat ?off) b)"
        using sent Inr by simp
      show thesis
      proof (cases "?off + n < get_buffer_size b")
        case True
        then have lt: "unat ?off + unat n < length b"
          using sum size by (simp add: word_less_nat_alt)
        have p: "cs_pending s = take (unat n) (drop (unat ?off) b) @ cs_pending ?s1"
          using lt sum by (simp add: cs_pending_def bs add.commute flip: drop_drop)
        have "cs_inv ?s1" using inv lt sum bs by (simp add: cs_inv_def)
        then show thesis
          using that [of "Inr True" ?s1 w1] p w True False n b(2) w1 Inr
          by (simp add: send_turn_def bs Let_def)
      next
        case full: False
        then have eq: "unat n = length b - unat ?off"
          using sum size n(1) b(2) by (simp add: word_less_nat_alt)
        have p: "cs_pending s = take (unat n) (drop (unat ?off) b) @ cs_pending ?s2"
          using eq b(2) by (simp add: cs_pending_def bs)
        have "cs_inv ?s2" using b(3) by (cases bs) (auto simp: cs_inv_def sendable_def)
        then show thesis
          using that [of "Inr True" ?s2 w1] p w full False n b(2) w1 Inr
          by (simp add: send_turn_def bs Let_def)
      qed
    qed
  qed
qed

lemma try_send_effect:
  assumes c: "send_contract os sent" and "cs_inv s"
  shows "\<exists>r s' w'. try_send_packet os s w = Some (r, s', w') \<and> cs_inv s' \<and>
    sent w' @ cs_pending s' = sent w @ cs_pending s"
  using assms(2)
proof (induction "length (cs_pending s)" arbitrary: s w rule: less_induct)
  case less
  show ?case
  proof (cases "cs_send_buffers s = []")
    case True
    then show ?thesis using less.prems by (subst try_send_packet.simps) auto
  next
    case False
    obtain r s' w' where 1: "send_turn os s w = Some (r, s', w')" "cs_inv s'"
      "sent w' @ cs_pending s' = sent w @ cs_pending s"
      "r = Inr True \<Longrightarrow> length (cs_pending s') < length (cs_pending s)"
      by (rule send_turn_effect [OF c less.prems False, of w]) (rule that, assumption+)
    show ?thesis
    proof (cases "r = Inr True")
      case True
      then show ?thesis
        using less.hyps [OF 1(4) [OF True] 1(2), of w'] 1 False
        by (subst try_send_packet.simps) simp
    next
      case no: False
      then show ?thesis
        using 1 False by (subst try_send_packet.simps) (cases r, auto)
    qed
  qed
qed

text \<open>
  \<open>SendPacket\<close> and \<open>OnSocketWrite\<close> as operations on the byte stream: what the transport has
  accepted followed by what is pending.  The first appends a frame, the second changes
  nothing; how many bytes move between the two parts is up to the transport.
\<close>

definition client_enq :: "'w os \<Rightarrow> byte list \<Rightarrow> client_socket \<times> 'w \<Rightarrow> client_socket \<times> 'w \<Rightarrow> bool" where
  "client_enq os data x y \<longleftrightarrow> sendable (frame data) \<and>
     (\<exists>res. send_packet os data (of_nat (length data)) (fst x) (snd x) = Some (res, y))"

definition client_tx :: "'w os \<Rightarrow> nat \<Rightarrow> client_socket \<times> 'w \<Rightarrow> client_socket \<times> 'w \<Rightarrow> bool" where
  "client_tx os k x y \<longleftrightarrow> k = 0 \<and>
     (\<exists>res error. on_socket_write os error (fst x) (snd x) = Some (res, y))"

lemma push_inv:
  assumes "cs_inv s" and "sendable b"
  shows "cs_inv (s\<lparr>cs_send_buffers := cs_send_buffers s @ [b]\<rparr>)"
    and "cs_pending (s\<lparr>cs_send_buffers := cs_send_buffers s @ [b]\<rparr>) = cs_pending s @ b"
  using assms by (cases "cs_send_buffers s"; auto simp: cs_inv_def cs_pending_def sendable_def)+

lemma client_enq_effect:
  assumes "send_contract os sent" and "cs_inv (fst x)" and "client_enq os data x y"
  shows "cs_inv (fst y) \<and> sent (snd y) @ cs_pending (fst y) =
    (sent (snd x) @ cs_pending (fst x)) @ frame data"
proof -
  have ok: "sendable (frame data)" using assms(3) by (simp add: client_enq_def)
  then have "framable data" by (simp add: sendable_def framable_def)
  then have "\<exists>res. try_send_packet os
      ((fst x)\<lparr>cs_send_buffers := cs_send_buffers (fst x) @ [frame data]\<rparr>) (snd x) = Some (res, y)"
    using assms(3) by (simp add: client_enq_def send_packet_def allocate_frame)
  then show ?thesis
    using try_send_effect [OF assms(1) push_inv(1) [OF assms(2) ok], of "snd x"]
      push_inv(2) [OF assms(2) ok] by auto
qed

lemma client_tx_effect:
  assumes "send_contract os sent" and "cs_inv (fst x)" and "client_tx os k x y"
  shows "cs_inv (fst y) \<and> sent (snd y) @ cs_pending (fst y) = sent (snd x) @ cs_pending (fst x)"
  using assms(3) try_send_effect [OF assms(1,2), of "snd x"] assms(2)
  by (auto simp: client_tx_def on_socket_write_def split: if_splits)

interpretation client_pipe: byte_pipe "\<lambda>x. send_contract os sent \<and> cs_inv (fst x)"
    "\<lambda>x. sent (snd x) @ cs_pending (fst x)" "client_enq os" "client_tx os"
  for os :: "'w os" and sent
proof
  fix d s s'
  assume "send_contract os sent \<and> cs_inv (fst s)" "client_enq os d s s'"
  then show "send_contract os sent \<and> cs_inv (fst s')"
    and "sent (snd s') @ cs_pending (fst s') = (sent (snd s) @ cs_pending (fst s)) @ frame d"
    using client_enq_effect by blast+
next
  fix n s s'
  assume "send_contract os sent \<and> cs_inv (fst s)" and tx: "client_tx os n s s'"
  then have "cs_inv (fst s')"
      "sent (snd s') @ cs_pending (fst s') = sent (snd s) @ cs_pending (fst s)"
    using client_tx_effect by blast+
  then show "send_contract os sent \<and> cs_inv (fst s')"
    and "sent (snd s') @ cs_pending (fst s') = drop n (sent (snd s) @ cs_pending (fst s))"
    using \<open>send_contract os sent \<and> cs_inv (fst s)\<close> tx by (simp_all add: client_tx_def)
qed

section \<open>Properties of sending\<close>

text \<open>A transport that accepts everything; the world is what it has accepted.\<close>

definition accepting_os :: "byte list os" where
  "accepting_os = null_os\<lparr>os_send := (\<lambda>h data len flags w. (of_nat (min (unat len) 100), w @ take (min (unat len) 100) data))\<rparr>"

lemma accepting_contract: "send_contract accepting_os id"
proof -
  have n: "unat (word_of_nat (min (unat len) 100) :: s32) = min (unat len) 100" for len :: s32
    by (rule unat_of_nat_small) simp
  have m1: "unat (- 1 :: s32) = 4294967295"
    by (simp add: unsigned_minus_1_eq_mask mask_eq_exp_minus_1)
  have "word_of_nat (min (unat len) 100) \<noteq> (- 1 :: s32)" for len :: s32
  proof
    assume "word_of_nat (min (unat len) 100) = (- 1 :: s32)"
    then have "unat (word_of_nat (min (unat len) 100) :: s32) = unat (- 1 :: s32)"
      by (rule arg_cong)
    then have "min (unat len) 100 = 4294967295"
      by (simp only: n m1)
    then show False by (simp add: min_def split: if_splits)
  qed
  then show ?thesis
    using n
    by (simp add: send_contract_def accepting_os_def null_os_def)
qed

text \<open>C5: \<open>TrySendPacket\<close> returns for every transport that accepts a
  prefix of what it is given or fails, and neither loses, duplicates nor reorders a byte: what
  the transport has accepted followed by what is still pending stays the same, so that a
  partial send is resumed at the right byte.\<close>
theorem try_send_terminates:
  assumes "send_contract os sent" and "cs_inv s"
  shows "\<exists>r s' w'. try_send_packet os s w = Some (r, s', w') \<and> cs_inv s' \<and>
    sent w' @ cs_pending s' = sent w @ cs_pending s"
  using try_send_effect [OF assms] .

definition idle_client :: client_socket where
  "idle_client = \<lparr>cs_socket = \<lparr>handle = 7\<rparr>,
     cs_thread = \<lparr>it_running = True, it_requests = [], it_events = [1],
       it_socket_map = Map.empty, it_event_map = Map.empty\<rparr>,
     cs_recv_buffer = replicate kSocketBufferSize 0, cs_recv_offset = 0,
     cs_receiver = new_receiver, cs_send_buffers = [], cs_sending_size = 0\<rparr>"

lemma idle_client_receiver [simp]: "cs_receiver idle_client = new_receiver"
  by (simp add: idle_client_def)

theorem try_send_terminates_witness:
  "\<exists>r s' w'. try_send_packet accepting_os
      (idle_client\<lparr>cs_send_buffers := [frame [1, 2, 3]], cs_sending_size := 2\<rparr>) [9] = Some (r, s', w') \<and>
    cs_inv s' \<and> id w' @ cs_pending s' = id [9] @ cs_pending
      (idle_client\<lparr>cs_send_buffers := [frame [1, 2, 3]], cs_sending_size := 2\<rparr>)"
  by (rule try_send_terminates [OF accepting_contract])
    (simp add: cs_inv_def idle_client_def sendable_def)

text \<open>A run of sends (\<open>Enqueue\<close>) and write events (\<open>Transmit 0\<close>) of a client.\<close>

definition client_run ::
  "'w os \<Rightarrow> ('w \<Rightarrow> byte list) \<Rightarrow> client_socket \<times> 'w \<Rightarrow> pipe_event list \<Rightarrow> client_socket \<times> 'w \<Rightarrow> bool" where
  "client_run os sent x es y \<longleftrightarrow>
     pipe_run (\<lambda>x. sent (snd x) @ cs_pending (fst x)) (client_enq os) (client_tx os) x es [] y"

text \<open>C8: whatever the interleaving of \<open>SendPacket\<close> and \<open>OnSocketWrite\<close> on
  a client, with partial sends, refusals and errors of the transport in between, the bytes the
  transport has accepted followed by the pending ones are the frames of the packets sent, in
  order.\<close>
theorem client_stream_fifo:
  assumes "send_contract os sent" and "cs_inv (fst x)" and "cs_pending (fst x) = []"
    and "sent (snd x) = []" and "client_run os sent x es y"
  shows "sent (snd y) @ cs_pending (fst y) = pipe_input es"
  using client_pipe.run_stream [OF assms(5) [unfolded client_run_def]] assms(1-4) by simp

theorem client_stream_fifo_witness:
  "\<exists>y. client_run accepting_os id (idle_client, []) [Enqueue [1, 2, 3]] y \<and>
     id (snd y) @ cs_pending (fst y) = pipe_input [Enqueue [1, 2, 3]]"
proof -
  have inv: "cs_inv idle_client" "cs_pending idle_client = []"
    by (simp_all add: idle_client_def cs_inv_def cs_pending_def)
  have ok: "sendable (frame [1, 2, 3])" by (simp add: sendable_def)
  obtain r s' w' where t: "try_send_packet accepting_os
      (idle_client\<lparr>cs_send_buffers := [frame [1, 2, 3]]\<rparr>) [] = Some (r, s', w')"
    using try_send_effect [OF accepting_contract, of "idle_client\<lparr>cs_send_buffers := [frame [1, 2, 3]]\<rparr>" "[]"]
      push_inv(1) [OF inv(1) ok] by (auto simp: idle_client_def)
  have "client_enq accepting_os [1, 2, 3] (idle_client, []) (s', w')"
    using t ok allocate_frame [of "[1, 2, 3]"]
    by (simp add: client_enq_def send_packet_def framable_def idle_client_def)
  then have "client_run accepting_os id (idle_client, []) [Enqueue [1, 2, 3]] (s', w')"
    unfolding client_run_def by (rule pipe_enqueue1)
  from client_stream_fifo [OF accepting_contract _ _ _ this] this show ?thesis
    by (intro exI [of _ "(s', w')"]) (simp add: inv)
qed

section \<open>Reading\<close>

text \<open>The packet handler of a session that stays connected and leaves the receiver alone.\<close>

definition handler_plain :: "'w on_packet \<Rightarrow> bool" where
  "handler_plain on_packet \<longleftrightarrow>
     (\<forall>b n s w. \<exists>s' w'. on_packet b n s w = Some (Inr (), s', w') \<and> cs_receiver s' = cs_receiver s)"

lemma handler_plainE:
  assumes "handler_plain on_packet"
  obtains s' w' where "on_packet b n s w = Some (Inr (), s', w')" and "cs_receiver s' = cs_receiver s"
  using assms unfolding handler_plain_def by metis

text \<open>A receiver between packets, as after \<open>Clear\<close>.\<close>

definition between_packets :: "client_socket \<Rightarrow> bool" where
  "between_packets s \<longleftrightarrow> pr_inv (cs_receiver s) \<and> acc (cs_receiver s) = []"

lemma read_turn_frame:
  assumes h: "handler_plain on_packet" and b: "between_packets s" and d: "framable data"
    and r: "unat received \<le> length buffer" and chunk: "take (unat received) buffer = frame data @ rest"
  obtains p s' w' where "pr_inv p" and "acc p = frame data"
    and "on_packet (packet_buffer p) (packet_length p) (s\<lparr>cs_receiver := p\<rparr>) w = Some (Inr (), s', w')"
    and "read_turn on_packet buffer received s w =
      Some (Inr (of_nat (length rest)), s'\<lparr>cs_receiver := clear (cs_receiver s')\<rparr>, w')"
    and "between_packets (s'\<lparr>cs_receiver := clear (cs_receiver s')\<rparr>)"
proof -
  have inv: "pr_inv (cs_receiver s)" and acc: "acc (cs_receiver s) = []"
    using b by (simp_all add: between_packets_def)
  have "length (acc (cs_receiver s)) + unat received < 2 ^ 32"
    using unsigned_less [of received] by (simp add: acc)
  moreover have "feed (acc (cs_receiver s)) (take (unat received) buffer) = (frame data, rest)"
    by (simp add: acc chunk feed_frame [OF d])
  ultimately obtain p where p: "on_receive buffer received (cs_receiver s) = Some (of_nat (length rest), p)"
      "pr_inv p" "acc p = frame data"
    using on_receive_feed [OF inv r] by metis
  have "is_complete p"
    using is_complete_frame_done [OF p(2)] p(3) frame_done_frame [OF d] by simp
  obtain s' w' where s': "on_packet (packet_buffer p) (packet_length p) (s\<lparr>cs_receiver := p\<rparr>) w =
      Some (Inr (), s', w')" "cs_receiver s' = p"
    using handler_plainE [OF h] by (metis client_socket.select_convs(5) client_socket.surjective
        client_socket.update_convs(5))
  show thesis
    by (rule that [OF p(2,3) s'(1)])
      (simp_all add: read_turn_def p(1) \<open>is_complete p\<close> s' between_packets_def p(2))
qed

text \<open>The loop never leaves a state in which the chunk starts with a frame and goes on behind it.\<close>

lemma read_chunk_diverges:
  assumes h: "handler_plain on_packet" and d: "framable data" and b: "between_packets s"
    and r: "unat received \<le> length buffer"
    and chunk: "take (unat received) buffer = frame data @ rest" and more: "rest \<noteq> []"
  shows "read_chunk on_packet buffer received s w = None"
proof (rule ccontr)
  assume "read_chunk on_packet buffer received s w \<noteq> None"
  then obtain x where x: "read_chunk on_packet buffer received s w = Some x" by blast
  have "unat received < 2 ^ 32"
    using unsigned_less [of received] by simp
  then have len: "length rest < 2 ^ 32"
    using arg_cong [OF chunk, of length] by simp
  then have pos: "0 < (of_nat (length rest) :: u32)"
    using more by (simp add: word_gt_0 unat_of_nat_small flip: unat_eq_0)
  define start where "start on_packet buffer received s \<longleftrightarrow> handler_plain on_packet \<and>
      unat received \<le> length buffer \<and> take (unat received) buffer = frame data @ rest \<and>
      between_packets s" for on_packet :: "'a on_packet" and buffer and received :: u32 and s
  have "start on_packet buffer received s \<longrightarrow> False"
  proof (rule read_chunk.raw_induct [where P = "\<lambda>on_packet buffer received s w y.
      start on_packet buffer received s \<longrightarrow> False", OF _ x], rule impI)
    fix f on_packet buffer received s w y
    assume IH: "\<And>on_packet buffer received s w y. f on_packet buffer received s w = Some y \<Longrightarrow>
        start on_packet buffer received s \<longrightarrow> False"
      and eq: "(read_turn on_packet buffer received s w \<bind> (\<lambda>(res, s, w).
        case res of Inl e \<Rightarrow> Some (Inl e, s, w)
        | Inr remain \<Rightarrow> if 0 < remain then f on_packet buffer received s w else Some (Inr (), s, w))) = Some y"
      and a: "start on_packet buffer received s"
    obtain s1 w1 where t: "read_turn on_packet buffer received s w =
        Some (Inr (of_nat (length rest)), s1, w1)" "between_packets s1"
      using read_turn_frame [of on_packet s data received buffer rest w] a d
      by (metis start_def)
    have "f on_packet buffer received s1 w1 = Some y"
      using eq t(1) pos by simp
    from IH [OF this] a t(2) show False by (simp add: start_def)
  qed
  then show False using assms by (simp add: start_def)
qed

section \<open>Properties of reading\<close>

text \<open>A received chunk that reaches at most the end of the current
  frame is consumed in one turn: if it completes the frame, exactly the payload is handed to
  \<open>OnPacket\<close> once and the receiver is cleared for the next one; otherwise the bytes are kept.\<close>
theorem client_reads_fragment:
  assumes "handler_plain on_packet" and "pr_inv (cs_receiver s)"
    and "unat received \<le> length buffer" and "length (acc (cs_receiver s)) + unat received < 2 ^ 32"
    and "feed (acc (cs_receiver s)) (take (unat received) buffer) = (fr, [])"
  shows "\<exists>p. pr_inv p \<and> acc p = fr \<and>
    (frame_done fr \<longrightarrow> take (unat (packet_length p)) (packet_buffer p) = drop 4 fr) \<and>
    read_chunk on_packet buffer received s w =
    (if frame_done fr then
       (case on_packet (packet_buffer p) (packet_length p) (s\<lparr>cs_receiver := p\<rparr>) w of
          None \<Rightarrow> None
        | Some (_, s', w') \<Rightarrow> Some (Inr (), s'\<lparr>cs_receiver := clear p\<rparr>, w'))
     else Some (Inr (), s\<lparr>cs_receiver := p\<rparr>, w))"
proof -
  obtain p where p: "on_receive buffer received (cs_receiver s) = Some (0, p)" "pr_inv p" "acc p = fr"
    by (rule on_receive_feed [OF assms(2-5)]) (rule that, simp_all)
  have cpl: "is_complete p \<longleftrightarrow> frame_done fr"
    using is_complete_frame_done [OF p(2)] p(3) by simp
  obtain s' w' where "on_packet (packet_buffer p) (packet_length p) (s\<lparr>cs_receiver := p\<rparr>) w =
      Some (Inr (), s', w')" "cs_receiver s' = p"
    using handler_plainE [OF assms(1)] by (metis client_socket.select_convs(5) client_socket.surjective
        client_socket.update_convs(5))
  then have "read_chunk on_packet buffer received s w =
    (if frame_done fr then
       (case on_packet (packet_buffer p) (packet_length p) (s\<lparr>cs_receiver := p\<rparr>) w of
          None \<Rightarrow> None
        | Some (_, s', w') \<Rightarrow> Some (Inr (), s'\<lparr>cs_receiver := clear p\<rparr>, w'))
     else Some (Inr (), s\<lparr>cs_receiver := p\<rparr>, w))"
    by (subst read_chunk.simps) (simp add: read_turn_def p(1) cpl)
  then show ?thesis using p packet_of_done(1) [OF p(2)] by blast
qed

definition count_packets :: "nat on_packet" where
  "count_packets b n s w = Some (Inr (), s, Suc w)"

lemma count_packets_plain: "handler_plain count_packets"
  by (simp add: handler_plain_def count_packets_def)

theorem client_reads_fragment_sample:
  "\<exists>p. pr_inv p \<and> acc p = [1, 0, 0, 0, 7] \<and>
    read_chunk count_packets [1, 0, 0, 0, 7] 5 idle_client 0 =
      Some (Inr (), idle_client\<lparr>cs_receiver := clear p\<rparr>, 1)"
proof -
  have f: "feed [] [1, 0, 0, 0, 7] = ([1, 0, 0, 0, 7 :: byte], [])"
    by (simp add: frame_done_def bytes_u32_def)
  show ?thesis
    using client_reads_fragment [OF count_packets_plain, of idle_client 5 "[1, 0, 0, 0, 7]" "[1, 0, 0, 0, 7]" 0]
    by (auto simp: f count_packets_def frame_done_def bytes_u32_def)
qed

text \<open>C17: when one \<open>recv\<close> delivers a whole packet and at least
  one byte more, the loop of \<open>OnSocketRead\<close> never ends: each turn restarts at the beginning of
  the chunk with its full length, so that the same packet is handed to \<open>OnPacket\<close> again.\<close>
theorem coalesced_read_never_returns:
  assumes "handler_plain on_packet" and "framable data" and "between_packets s"
    and "unat received \<le> length buffer"
    and "take (unat received) buffer = frame data @ rest" and "rest \<noteq> []"
  shows "read_chunk on_packet buffer received s w = None \<and>
    (\<exists>p s' w' remain. 0 < remain \<and> take (unat (packet_length p)) (packet_buffer p) = data \<and>
       on_packet (packet_buffer p) (packet_length p) (s\<lparr>cs_receiver := p\<rparr>) w = Some (Inr (), s', w') \<and>
       read_turn on_packet buffer received s w =
         Some (Inr remain, s'\<lparr>cs_receiver := clear (cs_receiver s')\<rparr>, w') \<and>
       between_packets (s'\<lparr>cs_receiver := clear (cs_receiver s')\<rparr>))"
proof
  show "read_chunk on_packet buffer received s w = None"
    by (rule read_chunk_diverges [OF assms(1,2,3,4,5,6)])
  have "unat received < 2 ^ 32"
    using unsigned_less [of received] by simp
  then have "length rest < 2 ^ 32"
    using arg_cong [OF assms(5), of length] by simp
  then have pos: "0 < (of_nat (length rest) :: u32)"
    using assms(6) by (simp add: word_gt_0 unat_of_nat_small flip: unat_eq_0)
  obtain p s' w' where "pr_inv p" "acc p = frame data"
      "on_packet (packet_buffer p) (packet_length p) (s\<lparr>cs_receiver := p\<rparr>) w = Some (Inr (), s', w')"
      "read_turn on_packet buffer received s w =
        Some (Inr (of_nat (length rest)), s'\<lparr>cs_receiver := clear (cs_receiver s')\<rparr>, w')"
      "between_packets (s'\<lparr>cs_receiver := clear (cs_receiver s')\<rparr>)"
    by (rule read_turn_frame [OF assms(1,3,2,4,5), of w])
  then show "\<exists>p s' w' remain. 0 < remain \<and> take (unat (packet_length p)) (packet_buffer p) = data \<and>
       on_packet (packet_buffer p) (packet_length p) (s\<lparr>cs_receiver := p\<rparr>) w = Some (Inr (), s', w') \<and>
       read_turn on_packet buffer received s w =
         Some (Inr remain, s'\<lparr>cs_receiver := clear (cs_receiver s')\<rparr>, w') \<and>
       between_packets (s'\<lparr>cs_receiver := clear (cs_receiver s')\<rparr>)"
    using pos packet_of_frame(2) [of p data] assms(2) by blast
qed

theorem coalesced_read_never_returns_witness:
  "read_chunk count_packets [1, 0, 0, 0, 7, 1, 0, 0, 0, 8] 10 idle_client 0 = None"
proof -
  have f: "take (unat (10 :: u32)) [1, 0, 0, 0, 7, 1, 0, 0, 0, 8 :: byte] = frame [7] @ frame [8]"
    by (simp add: frame_def u32_bytes_def le_bytes_numeral)
  have b: "between_packets idle_client"
    by (simp add: between_packets_def idle_client_def)
  show ?thesis
    using coalesced_read_never_returns [OF count_packets_plain _ b _ f, of 0]
    by (simp add: framable_def)
qed

text \<open>\<open>Close\<close> queues the request to unregister and then closes the
  socket; the request, handled when the session's handle is already \<open>INVALID_SOCKET\<close>, finds no
  event for it and leaves the event table as it is, with the closed socket's event in it.\<close>
theorem close_unregisters_nothing:
  assumes "client_close os ev self s w = Some (s', w')"
    and "it_event_map (cs_thread s) INVALID_SOCKET = None"
    and "it_requests (cs_thread s) = []"
  shows "\<exists>w''. on_request ev (\<lambda>n. Some (get_socket_handle s')) (cs_thread s') w' =
    ((cs_thread s)\<lparr>it_requests := []\<rparr>, w'')"
proof -
  obtain t w1 sock w2 where t: "request_unregister ev self (cs_thread s) w = Some (t, w1)"
    and c: "ws_close os (cs_socket s) w1 = Some (sock, w2)"
    and s': "s' = s\<lparr>cs_thread := t, cs_sending_size := 0, cs_socket := sock\<rparr>"
    using assms(1) by (auto simp: client_close_def Let_def split: bind_splits)
  have "t = (cs_thread s)\<lparr>it_requests := [(self, - 1)]\<rparr>"
    using t assms(3)
    by (auto simp: request_unregister_def push_request_def Let_def split: list.splits)
  moreover have "handle sock = INVALID_SOCKET"
    by (rule ws_close_invalid [OF c])
  ultimately show ?thesis
    using assms(2) s'
    by (simp add: on_request_def get_socket_handle_def on_unregister_socket_def)
qed

definition registered_client :: client_socket where
  "registered_client = idle_client\<lparr>cs_thread :=
     \<lparr>it_running = True, it_requests = [], it_events = [1, 2],
       it_socket_map = [2 \<mapsto> 0], it_event_map = [7 \<mapsto> 2]\<rparr>\<rparr>"

theorem close_unregisters_nothing_sample:
  "\<exists>s' w' w''. client_close null_os event_os 0 registered_client (2, []) = Some (s', w') \<and>
     on_request event_os (\<lambda>n. Some (get_socket_handle s')) (cs_thread s') w' =
       (cs_thread registered_client, w'')"
proof -
  have "\<exists>s' w'. client_close null_os event_os 0 registered_client (2, []) = Some (s', w')"
    by (simp add: client_close_def registered_client_def idle_client_def request_unregister_def
        push_request_def event_os_def ws_close_def null_os_def Let_def)
  then obtain s' w' where c: "client_close null_os event_os 0 registered_client (2, []) = Some (s', w')"
    by blast
  then show ?thesis
    using close_unregisters_nothing [OF c] by (simp add: registered_client_def)
qed

end
