(* ===== verification/Fb_Base.thy ===== *)
theory Fb_Base
  imports Prelude
begin

text \<open>
  \<open>examples/flatbuffers/base.h\<close> and \<open>buffer.h\<close>: offset types, scalar reads and writes, padding
  and the root pointer of the FlatBuffers runtime shipped with the example programs.  A buffer
  is a \<open>byte list\<close>; a pointer into it is its distance from the start of the buffer as a
  64-bit \<open>size_t\<close>, so that the pointer arithmetic of the sources wraps as theirs does.  Forming
  a pointer is always allowed, reading or writing outside the buffer is \<open>None\<close>.
\<close>

section \<open>Types and limits\<close>

type_synonym size_t = "64 word"
type_synonym uoffset_t = "32 word"
type_synonym soffset_t = "32 word"    \<comment> \<open>signed, read by \<open>sint\<close>\<close>
type_synonym voffset_t = "16 word"

abbreviation (input) FLATBUFFERS_MAX_BUFFER_SIZE :: size_t where
  "FLATBUFFERS_MAX_BUFFER_SIZE \<equiv> 0x7fffffff"
abbreviation (input) FLATBUFFERS_MIN_BUFFER_SIZE :: size_t where
  "FLATBUFFERS_MIN_BUFFER_SIZE \<equiv> 12"
abbreviation (input) kFileIdentifierLength :: nat where "kFileIdentifierLength \<equiv> 4"

unbundle bit_operations_syntax

definition verify_alignment_requirements :: "size_t \<Rightarrow> size_t \<Rightarrow> bool" where
  "verify_alignment_requirements align min_align \<longleftrightarrow>
     min_align \<le> align \<and> align \<le> 32 \<and> align AND (align - 1) = 0"

definition padding_bytes :: "size_t \<Rightarrow> size_t \<Rightarrow> size_t" where
  "padding_bytes buf_size scalar_size = (NOT buf_size + 1) AND (scalar_size - 1)"

definition is_the_same_as :: "'a \<Rightarrow> 'a \<Rightarrow> bool" where
  "is_the_same_as e def = (e = def)"

definition is_out_range :: "'a::ord \<Rightarrow> 'a \<Rightarrow> 'a \<Rightarrow> bool" where
  "is_out_range v low high \<longleftrightarrow> v < low \<or> high < v"

definition is_in_range :: "'a::ord \<Rightarrow> 'a \<Rightarrow> 'a \<Rightarrow> bool" where
  "is_in_range v low high \<longleftrightarrow> \<not> is_out_range v low high"

section \<open>Byte order\<close>

text \<open>The compiler's \<open>byteswap\<close> intrinsics reverse the bytes; other sizes fail the assertion.\<close>

definition endian_swap :: "'a::len word \<Rightarrow> 'a word option" where
  "endian_swap t =
     (if LENGTH('a) \<in> {8, 16, 32, 64}
      then Some (of_nat (le_nat (rev (le_bytes (LENGTH('a) div 8) (unat t))))) else None)"

definition endian_scalar :: "bool \<Rightarrow> 'a::len word \<Rightarrow> 'a word option" where
  "endian_scalar littleendian t = (if littleendian then Some t else endian_swap t)"

lemma endian_swap_involutive:
  fixes t :: "'a::len word"
  assumes "endian_swap t = Some u"
  shows "endian_swap u = Some t"
proof -
  define n where "n = LENGTH('a) div 8"
  have l: "LENGTH('a) \<in> {8, 16, 32, 64}" and u: "u = of_nat (le_nat (rev (le_bytes n (unat t))))"
    using assms by (auto simp: endian_swap_def n_def split: if_splits)
  then have p: "256 ^ n = (2 :: nat) ^ LENGTH('a)" by (auto simp: n_def)
  have "le_nat (rev (le_bytes n (unat t))) < 256 ^ n"
    using le_nat_bound [of "rev (le_bytes n (unat t))"] by simp
  then have "unat u = le_nat (rev (le_bytes n (unat t)))"
    unfolding u p by (rule unat_of_nat_small)
  then have "le_bytes n (unat u) = rev (le_bytes n (unat t))" by (simp add: le_bytes_le_nat)
  moreover have "unat t mod 256 ^ n = unat t" using unsigned_less [of t] by (simp add: p)
  ultimately show ?thesis using l by (simp add: endian_swap_def le_nat_le_bytes flip: n_def)
qed

section \<open>Scalars in memory\<close>

definition read_bytes :: "nat \<Rightarrow> byte list \<Rightarrow> size_t \<Rightarrow> byte list option" where
  "read_bytes n buf p =
     (if unat p + n \<le> length buf then Some (take n (drop (unat p) buf)) else None)"

definition read_u8 :: "byte list \<Rightarrow> size_t \<Rightarrow> byte option" where
  "read_u8 buf p = map_option (\<lambda>bs. of_nat (le_nat bs)) (read_bytes 1 buf p)"

definition read_u16 :: "byte list \<Rightarrow> size_t \<Rightarrow> u16 option" where
  "read_u16 buf p = map_option (\<lambda>bs. of_nat (le_nat bs)) (read_bytes 2 buf p)"

definition read_u32 :: "byte list \<Rightarrow> size_t \<Rightarrow> u32 option" where
  "read_u32 buf p = map_option (\<lambda>bs. of_nat (le_nat bs)) (read_bytes 4 buf p)"

definition write_bytes :: "byte list \<Rightarrow> byte list \<Rightarrow> size_t \<Rightarrow> byte list option" where
  "write_bytes bs buf p =
     (if unat p + length bs \<le> length buf
      then Some (take (unat p) buf @ bs @ drop (unat p + length bs) buf) else None)"

lemma read_bytes_defined [ub_intros]:
  "unat p + n \<le> length buf \<Longrightarrow> read_bytes n buf p = Some (take n (drop (unat p) buf))"
  by (simp add: read_bytes_def)

lemma read_defined [ub_intros]:
  "unat p + 1 \<le> length buf \<Longrightarrow> \<exists>x. read_u8 buf p = Some x"
  "unat p + 2 \<le> length buf \<Longrightarrow> \<exists>y. read_u16 buf p = Some y"
  "unat p + 4 \<le> length buf \<Longrightarrow> \<exists>z. read_u32 buf p = Some z"
  by (simp_all add: read_u8_def read_u16_def read_u32_def read_bytes_defined)

lemma read_write_bytes [bytes_simps]:
  assumes "write_bytes bs buf p = Some buf'"
  shows "read_bytes (length bs) buf' p = Some bs" and "length buf' = length buf"
  using assms by (auto simp: write_bytes_def read_bytes_def split: if_splits)

lemma read_bytes_below_write:
  assumes "write_bytes bs buf q = Some buf'" and "unat p + n \<le> unat q"
  shows "read_bytes n buf' p = read_bytes n buf p"
  using assms by (auto simp: write_bytes_def read_bytes_def take_drop split: if_splits)

section \<open>Identifiers and the root\<close>

definition get_buffer_identifier :: "size_t \<Rightarrow> bool \<Rightarrow> size_t" where
  "get_buffer_identifier buf size_prefixed = buf + (if size_prefixed then 8 else 4)"

text \<open>\<open>strncmp(p, identifier, n) = 0\<close>: bytes are compared up to a common terminator.\<close>

fun strncmp_eq :: "nat \<Rightarrow> byte list \<Rightarrow> size_t \<Rightarrow> byte list \<Rightarrow> bool option" where
  "strncmp_eq 0 buf p ident = Some True"
| "strncmp_eq (Suc n) buf p [] = None"
| "strncmp_eq (Suc n) buf p (c # cs) = do {
     b \<leftarrow> read_u8 buf p;
     (if b \<noteq> c then Some False else if c = 0 then Some True else strncmp_eq n buf (p + 1) cs)
   }"

definition buffer_has_identifier :: "byte list \<Rightarrow> size_t \<Rightarrow> byte list \<Rightarrow> bool \<Rightarrow> bool option" where
  "buffer_has_identifier buf p identifier size_prefixed =
     strncmp_eq kFileIdentifierLength buf (get_buffer_identifier p size_prefixed) identifier"

text \<open>\<open>GetRoot\<close>: the pointer to the root table; \<open>p\<close> is where the buffer starts.\<close>

definition get_root :: "byte list \<Rightarrow> size_t \<Rightarrow> size_t option" where
  "get_root buf p = do { off \<leftarrow> read_u32 buf p; Some (p + ucast off) }"

definition get_size_prefixed_root :: "byte list \<Rightarrow> size_t \<Rightarrow> size_t option" where
  "get_size_prefixed_root buf p = get_root buf (p + 4)"


section \<open>Alignment\<close>

lemma and_not_mask_64: "(x :: size_t) AND NOT (mask n) = x - take_bit n x"
proof -
  have "x - (x AND mask n) = x AND NOT (x AND mask n)"
    by (rule disjunctive_diff_eq_and_not) (rule bit_eqI, auto simp: bit_simps)
  also have "\<dots> = x AND NOT (mask n)"
    by (rule bit_eqI) (auto simp: bit_simps)
  finally show ?thesis by (simp add: take_bit_eq_mask)
qed

lemma unat_take_bit_64: "unat (take_bit n (x :: size_t)) = unat x mod 2 ^ n"
  by (simp only: unsigned_take_bit_eq) (simp add: take_bit_eq_mod)

lemma unat_align_down: "unat ((x :: size_t) AND NOT (mask n)) = unat x - unat x mod 2 ^ n"
proof -
  have "take_bit n x \<le> x"
    by (simp add: word_le_nat_alt unat_take_bit_64)
  then show ?thesis
    by (simp add: and_not_mask_64 unat_sub_le unat_take_bit_64)
qed

lemma size_minus_1_mask:
  "(1 :: size_t) - 1 = mask 0" "(2 :: size_t) - 1 = mask 1" "(4 :: size_t) - 1 = mask 2"
  "(8 :: size_t) - 1 = mask 3"
  by (simp_all add: mask_eq_exp_minus_1)

text \<open>The padding fills the buffer up to the next multiple of the scalar's size.\<close>

lemma padding_bytes_spec:
  assumes "scalar - 1 = mask k" and "k \<le> 64"
  shows "unat (padding_bytes n scalar) < 2 ^ k"
    and "(unat n + unat (padding_bytes n scalar)) mod 2 ^ k = 0"
proof -
  have "padding_bytes n scalar = take_bit k (- n)"
    by (simp add: padding_bytes_def assms(1) take_bit_eq_mask minus_eq_not_plus_1)
  then have p: "unat (padding_bytes n scalar) = unat (- n) mod 2 ^ k"
    by (simp add: unat_take_bit_64)
  then show "unat (padding_bytes n scalar) < 2 ^ k" by simp
  have "(unat n + unat (- n)) mod 2 ^ 64 = 0"
    using unat_word_ariths(1) [of n "- n"] by simp
  then have "(unat n + unat (- n)) mod 2 ^ k = 0"
    using assms(2) by (meson dvd_imp_mod_0 le_imp_power_dvd mod_0_imp_dvd dvd_trans)
  then show "(unat n + unat (padding_bytes n scalar)) mod 2 ^ k = 0"
    by (simp add: p mod_add_right_eq)
qed

end
