(* ===== verification/Fb_Vector_Downward.thy ===== *)
theory Fb_Vector_Downward
  imports Fb_Base
begin

text \<open>
  \<open>examples/flatbuffers/vector_downward.h\<close>, with the default allocator of \<open>allocator.h\<close> and
  \<open>default_allocator.h\<close>: one allocation that holds a vector growing down from its end and a
  scratch pad growing up from its start.  A memory cell is a \<open>byte option\<close>, \<open>None\<close> as long as
  it is uninitialised; the pointers \<open>cur_\<close> and \<open>scratch_\<close> are offsets from \<open>buf_\<close>.  The
  abstract view is the pair of the used end and the used start; each operation refines the
  corresponding list operation, across reallocation.
\<close>

section \<open>State\<close>

type_synonym cell = "byte option"

record vector_downward =
  vd_initial_size :: size_t
  vd_buffer_minalign :: size_t
  vd_reserved :: size_t
  vd_size :: uoffset_t
  vd_buf :: "cell list option"     \<comment> \<open>\<open>None\<close> is the null pointer\<close>
  vd_cur :: nat
  vd_scratch :: nat

definition vd_new :: "size_t \<Rightarrow> size_t \<Rightarrow> vector_downward" where
  "vd_new initial_size buffer_minalign =
     \<lparr>vd_initial_size = initial_size, vd_buffer_minalign = buffer_minalign, vd_reserved = 0,
      vd_size = 0, vd_buf = None, vd_cur = 0, vd_scratch = 0\<rparr>"

section \<open>The allocator\<close>

definition fb_allocate :: "size_t \<Rightarrow> cell list" where
  "fb_allocate n = replicate (unat n) None"

text \<open>\<open>memcpy_downward\<close> copies the used back and front of the old block.\<close>

definition memcpy_downward :: "cell list \<Rightarrow> cell list \<Rightarrow> nat \<Rightarrow> nat \<Rightarrow> cell list option" where
  "memcpy_downward old_p new_p in_use_back in_use_front =
     (if in_use_back \<le> length old_p \<and> in_use_back \<le> length new_p \<and>
         in_use_front \<le> length old_p \<and> in_use_front \<le> length new_p
      then
        let new_p = take (length new_p - in_use_back) new_p @ drop (length old_p - in_use_back) old_p
        in Some (take in_use_front old_p @ drop in_use_front new_p)
      else None)"

definition reallocate_downward ::
  "cell list \<Rightarrow> size_t \<Rightarrow> size_t \<Rightarrow> nat \<Rightarrow> nat \<Rightarrow> cell list option" where
  "reallocate_downward old_p old_size new_size in_use_back in_use_front =
     (if old_size < new_size
      then memcpy_downward old_p (fb_allocate new_size) in_use_back in_use_front
      else None)"

section \<open>Operations\<close>

definition vd_clear_scratch :: "vector_downward \<Rightarrow> vector_downward" where
  "vd_clear_scratch v = v\<lparr>vd_scratch := 0\<rparr>"

definition vd_clear :: "vector_downward \<Rightarrow> vector_downward" where
  "vd_clear v =
     (let v = (case vd_buf v of
          Some b \<Rightarrow> v\<lparr>vd_cur := unat (vd_reserved v)\<rparr>
        | None \<Rightarrow> v\<lparr>vd_reserved := 0, vd_cur := 0\<rparr>)
      in vd_clear_scratch (v\<lparr>vd_size := 0\<rparr>))"

definition vd_clear_buffer :: "vector_downward \<Rightarrow> vector_downward" where
  "vd_clear_buffer v = v\<lparr>vd_buf := None\<rparr>"

definition vd_reset :: "vector_downward \<Rightarrow> vector_downward" where
  "vd_reset v = vd_clear (vd_clear_buffer v)"

text \<open>\<open>release_raw\<close>: the block, its size, the offset of the data, and the emptied vector.\<close>

definition vd_release_raw ::
  "vector_downward \<Rightarrow> cell list option \<times> size_t \<times> size_t \<times> vector_downward" where
  "vd_release_raw v =
     (vd_buf v, vd_reserved v, of_nat (vd_cur v), vd_clear (v\<lparr>vd_buf := None\<rparr>))"

definition vd_scratch_size :: "vector_downward \<Rightarrow> uoffset_t" where
  "vd_scratch_size v = of_nat (vd_scratch v)"

definition vd_capacity :: "vector_downward \<Rightarrow> size_t" where
  "vd_capacity v = vd_reserved v"

definition vd_reallocate :: "size_t \<Rightarrow> vector_downward \<Rightarrow> vector_downward option" where
  "vd_reallocate len v = do {
     let old_reserved = vd_reserved v;
     let old_size = vd_size v;
     let old_scratch_size = vd_scratch_size v;
     let reserved = old_reserved +
       max len (if old_reserved \<noteq> 0 then old_reserved div 2 else vd_initial_size v);
     let reserved = (reserved + vd_buffer_minalign v - 1) AND NOT (vd_buffer_minalign v - 1);
     buf \<leftarrow> (case vd_buf v of
        Some b \<Rightarrow> reallocate_downward b old_reserved reserved (unat old_size) (unat old_scratch_size)
      | None \<Rightarrow> Some (fb_allocate reserved));
     (if unat old_size \<le> unat reserved \<and> unat old_scratch_size \<le> unat reserved
      then Some (v\<lparr>vd_reserved := reserved, vd_buf := Some buf,
             vd_cur := unat reserved - unat old_size, vd_scratch := unat old_scratch_size\<rparr>)
      else None)
   }"

definition vd_ensure_space :: "size_t \<Rightarrow> vector_downward \<Rightarrow> vector_downward option" where
  "vd_ensure_space len v =
     (if vd_scratch v \<le> vd_cur v then do {
        v \<leftarrow> (if vd_cur v - vd_scratch v < unat len then vd_reallocate len v else Some v);
        (if ucast (vd_size v) < FLATBUFFERS_MAX_BUFFER_SIZE then Some v else None)
      }
      else None)"

definition vd_make_space :: "size_t \<Rightarrow> vector_downward \<Rightarrow> vector_downward option" where
  "vd_make_space len v =
     (if len \<noteq> 0 then do {
        v \<leftarrow> vd_ensure_space len v;
        (if unat len \<le> vd_cur v
         then Some (v\<lparr>vd_cur := vd_cur v - unat len, vd_size := vd_size v + ucast len\<rparr>) else None)
      }
      else Some v)"

text \<open>Writing cells at an offset of the block, and reading initialised bytes from it.\<close>

definition vd_write :: "cell list \<Rightarrow> nat \<Rightarrow> vector_downward \<Rightarrow> vector_downward option" where
  "vd_write cs p v =
     (case vd_buf v of None \<Rightarrow> None
      | Some b \<Rightarrow> if p + length cs \<le> length b
          then Some (v\<lparr>vd_buf := Some (take p b @ cs @ drop (p + length cs) b)\<rparr>) else None)"

definition vd_read :: "nat \<Rightarrow> nat \<Rightarrow> vector_downward \<Rightarrow> byte list option" where
  "vd_read n p v =
     (case vd_buf v of None \<Rightarrow> None
      | Some b \<Rightarrow> if p + n \<le> length b \<and> None \<notin> set (take n (drop p b))
          then Some (map the (take n (drop p b))) else None)"

definition vd_data_ptr :: "vector_downward \<Rightarrow> nat option" where
  "vd_data_ptr v = (if vd_buf v = None then None else Some (vd_cur v))"

definition vd_scratch_data :: "vector_downward \<Rightarrow> nat option" where
  "vd_scratch_data v = (if vd_buf v = None then None else Some 0)"

definition vd_scratch_end :: "vector_downward \<Rightarrow> nat option" where
  "vd_scratch_end v = (if vd_buf v = None then None else Some (vd_scratch v))"

definition vd_data_at :: "size_t \<Rightarrow> vector_downward \<Rightarrow> nat option" where
  "vd_data_at offset v =
     (if offset \<le> vd_reserved v then Some (unat (vd_reserved v) - unat offset) else None)"

definition vd_push :: "byte list \<Rightarrow> vector_downward \<Rightarrow> vector_downward option" where
  "vd_push bytes v =
     (if bytes = [] then Some v
      else do {
        v \<leftarrow> vd_make_space (of_nat (length bytes)) v;
        vd_write (map Some bytes) (vd_cur v) v
      })"

text \<open>\<open>push_small\<close>: a scalar or struct as its cells; \<open>scratch_push_small\<close> likewise.\<close>

definition vd_push_small :: "cell list \<Rightarrow> vector_downward \<Rightarrow> vector_downward option" where
  "vd_push_small cs v = do {
     v \<leftarrow> vd_make_space (of_nat (length cs)) v;
     vd_write cs (vd_cur v) v
   }"

definition vd_scratch_push_small :: "cell list \<Rightarrow> vector_downward \<Rightarrow> vector_downward option" where
  "vd_scratch_push_small cs v = do {
     v \<leftarrow> vd_ensure_space (of_nat (length cs)) v;
     v \<leftarrow> vd_write cs (vd_scratch v) v;
     Some (v\<lparr>vd_scratch := vd_scratch v + length cs\<rparr>)
   }"

definition vd_fill :: "size_t \<Rightarrow> vector_downward \<Rightarrow> vector_downward option" where
  "vd_fill zero_pad_bytes v = do {
     v \<leftarrow> vd_make_space zero_pad_bytes v;
     (if zero_pad_bytes = 0 then Some v
      else vd_write (replicate (unat zero_pad_bytes) (Some 0)) (vd_cur v) v)
   }"

definition vd_fill_big :: "size_t \<Rightarrow> vector_downward \<Rightarrow> vector_downward option" where
  "vd_fill_big zero_pad_bytes v = do {
     v \<leftarrow> vd_make_space zero_pad_bytes v;
     vd_write (replicate (unat zero_pad_bytes) (Some 0)) (vd_cur v) v
   }"

definition vd_pop :: "size_t \<Rightarrow> vector_downward \<Rightarrow> vector_downward option" where
  "vd_pop bytes_to_remove v =
     (if vd_cur v + unat bytes_to_remove \<le> unat (vd_reserved v)
      then Some (v\<lparr>vd_cur := vd_cur v + unat bytes_to_remove,
                   vd_size := vd_size v - ucast bytes_to_remove\<rparr>) else None)"

definition vd_scratch_pop :: "size_t \<Rightarrow> vector_downward \<Rightarrow> vector_downward option" where
  "vd_scratch_pop bytes_to_remove v =
     (if unat bytes_to_remove \<le> vd_scratch v
      then Some (v\<lparr>vd_scratch := vd_scratch v - unat bytes_to_remove\<rparr>) else None)"

section \<open>Abstract view and invariant\<close>

definition vd_top :: "vector_downward \<Rightarrow> cell list" where
  "vd_top v = (case vd_buf v of None \<Rightarrow> [] | Some b \<Rightarrow> drop (vd_cur v) b)"

definition vd_pad :: "vector_downward \<Rightarrow> cell list" where
  "vd_pad v = (case vd_buf v of None \<Rightarrow> [] | Some b \<Rightarrow> take (vd_scratch v) b)"

definition vd_inv :: "vector_downward \<Rightarrow> bool" where
  "vd_inv v \<longleftrightarrow> vd_initial_size v = 1024 \<and> vd_buffer_minalign v = 8 \<and>
     (case vd_buf v of
        None \<Rightarrow> vd_reserved v = 0 \<and> vd_size v = 0 \<and> vd_cur v = 0 \<and> vd_scratch v = 0
      | Some b \<Rightarrow> vd_reserved v \<noteq> 0 \<and> length b = unat (vd_reserved v) \<and> vd_cur v \<le> length b \<and>
          vd_scratch v \<le> vd_cur v \<and> unat (vd_size v) = length b - vd_cur v)"

text \<open>Room for \<open>n\<close> more bytes below the 2 GB limit of the format.\<close>

definition vd_room :: "nat \<Rightarrow> vector_downward \<Rightarrow> bool" where
  "vd_room n v \<longleftrightarrow> n + length (vd_top v) + length (vd_pad v) < 2 ^ 31 - 1"

lemma vd_inv_new [simp]: "vd_inv (vd_new 1024 8)" "vd_top (vd_new 1024 8) = []" "vd_pad (vd_new 1024 8) = []"
  by (simp_all add: vd_inv_def vd_new_def vd_top_def vd_pad_def)

lemma vd_inv_lengths:
  assumes "vd_inv v"
  shows "unat (vd_size v) = length (vd_top v)" and "vd_scratch v = length (vd_pad v)"
    and "vd_cur v + length (vd_top v) = unat (vd_reserved v)"
    and "vd_scratch v \<le> vd_cur v"
  using assms by (auto simp: vd_inv_def vd_top_def vd_pad_def split: option.splits)

lemma memcpy_downward_spec:
  assumes "back \<le> length old" and "front \<le> length old" and "front + back \<le> length new"
  obtains r where "memcpy_downward old new back front = Some r" and "length r = length new"
    and "drop (length new - back) r = drop (length old - back) old"
    and "take front r = take front old"
proof -
  let ?n = "take (length new - back) new @ drop (length old - back) old"
  let ?r = "take front old @ drop front ?n"
  have "memcpy_downward old new back front = Some ?r"
    using assms by (simp add: memcpy_downward_def Let_def)
  moreover have "length ?r = length new" "take front ?r = take front old"
    using assms by simp_all
  moreover have "drop (length new - back) ?r = drop (length old - back) old"
  proof -
    have "drop (length new - back) ?r = drop (length new - back - front) (drop front ?n)"
      using assms by simp
    also have "\<dots> = drop (length new - back) ?n"
      using assms by (simp del: drop_append)
    also have "\<dots> = drop (length old - back) old"
      by simp
    finally show ?thesis .
  qed
  ultimately show thesis using that [of ?r] by simp
qed

text \<open>The new size of the block: a multiple of 8 with room for \<open>len\<close> more bytes.\<close>

lemma vd_new_reserved:
  fixes r len r' :: size_t
  assumes "unat r < 2 ^ 31" and "unat len < 2 ^ 31"
    and "r' = (r + max len (if r \<noteq> 0 then r div 2 else 1024) + 8 - 1) AND NOT (8 - 1)"
  shows "unat r + unat len \<le> unat r'" and "r < r'"
proof -
  define g :: size_t where "g = max len (if r \<noteq> 0 then r div 2 else 1024)"
  have g: "unat g = max (unat len) (if r \<noteq> 0 then unat r div 2 else 1024)"
    by (auto simp: g_def max_def word_le_nat_alt unat_div)
  have gb: "unat g < 2 ^ 32"
    using assms(1,2) g by auto
  have "unat (r + g) = unat r + unat g"
    using assms(1) gb by (subst unat_add_small) simp_all
  moreover have x: "r + g + 8 - 1 = r + g + 7" by simp
  ultimately have "unat (r + g + 8 - 1) = unat r + unat g + 7"
    unfolding x using assms(1) gb by (subst unat_add_small) simp_all
  then have r': "unat r' = (unat r + unat g + 7) - (unat r + unat g + 7) mod 8"
    using assms(3) unat_align_down [of "r + g + 8 - 1" 3] size_minus_1_mask(4) by (simp add: g_def)
  then have "unat r + unat g \<le> unat r'"
    using mod_less_divisor [of 8 "unat r + unat g + 7"] by linarith
  moreover have "0 < unat g \<or> unat r = 1"
  proof (cases "r = 0")
    case True
    then show ?thesis using g by simp
  next
    case False
    then have "unat r \<noteq> 0" by (simp add: unat_eq_0)
    then show ?thesis using g False by (cases "unat r = 1") auto
  qed
  moreover have "unat r < unat r'" if "unat r = 1"
    using r' that by (cases "unat g") auto
  ultimately show "unat r + unat len \<le> unat r'" and "r < r'"
    using g by (auto simp: word_less_nat_alt)
qed

lemma vd_reallocate_spec:
  assumes inv: "vd_inv v" and room: "vd_room (unat len) v" and full: "vd_cur v - vd_scratch v < unat len"
  obtains v' where "vd_reallocate len v = Some v'" and "vd_inv v'" and "vd_top v' = vd_top v"
    and "vd_pad v' = vd_pad v" and "unat len \<le> vd_cur v' - vd_scratch v'" and "vd_size v' = vd_size v"
    and "vd_buf v' \<noteq> None"
proof -
  note L = vd_inv_lengths [OF inv]
  have small: "unat len + length (vd_top v) + length (vd_pad v) < 2 ^ 31 - 1"
    using room by (simp add: vd_room_def)
  define r where "r = (vd_reserved v + max len (if vd_reserved v \<noteq> 0 then vd_reserved v div 2 else 1024)
    + 8 - 1) AND NOT (8 - 1)"
  have "unat (vd_reserved v) < 2 ^ 31"
    using L full small by linarith
  moreover have "unat len < 2 ^ 31" using small by linarith
  ultimately have r: "unat (vd_reserved v) + unat len \<le> unat r" "vd_reserved v < r"
    using vd_new_reserved r_def by blast+
  have sc: "unat (vd_scratch_size v) = length (vd_pad v)"
    unfolding vd_scratch_size_def L(2) using small by (intro unat_of_nat_small) simp
  have frame: "vd_initial_size v = 1024" "vd_buffer_minalign v = 8"
    using inv by (simp_all add: vd_inv_def)
  have fits: "length (vd_top v) \<le> unat r" "length (vd_pad v) \<le> unat r"
    using r(1) L(3,4) L(2) by linarith+
  obtain b where b: "(case vd_buf v of
        Some b \<Rightarrow> reallocate_downward b (vd_reserved v) r (unat (vd_size v)) (unat (vd_scratch_size v))
      | None \<Rightarrow> Some (fb_allocate r)) = Some b" and len: "length b = unat r"
    and top: "drop (unat r - length (vd_top v)) b = vd_top v" and pad: "take (length (vd_pad v)) b = vd_pad v"
  proof (cases "vd_buf v")
    case None
    then show thesis
      using that [of "fb_allocate r"] by (simp add: fb_allocate_def vd_top_def vd_pad_def)
  next
    case (Some old)
    have old: "length old = unat (vd_reserved v)" "vd_cur v \<le> length old"
      using inv Some by (simp_all add: vd_inv_def)
    have t: "vd_top v = drop (vd_cur v) old" and p: "vd_pad v = take (vd_scratch v) old"
      using Some by (simp_all add: vd_top_def vd_pad_def)
    have nl: "length (fb_allocate r) = unat r" by (simp add: fb_allocate_def)
    have f1: "length (vd_top v) \<le> length old" "length (vd_pad v) \<le> length old"
      by (simp_all add: t p)
    have f2: "length (vd_pad v) + length (vd_top v) \<le> length (fb_allocate r)"
      using nl r(1) L(2-4) by linarith
    obtain n where n: "memcpy_downward old (fb_allocate r) (length (vd_top v)) (length (vd_pad v)) = Some n"
      "length n = length (fb_allocate r)"
      "drop (length (fb_allocate r) - length (vd_top v)) n = drop (length old - length (vd_top v)) old"
      "take (length (vd_pad v)) n = take (length (vd_pad v)) old"
      by (rule memcpy_downward_spec [OF f1 f2])
    have c: "length old - length (vd_top v) = vd_cur v"
      using old by (simp add: t)
    have q: "take (length (vd_pad v)) old = vd_pad v"
      by (simp add: p min_def)
    show thesis
      using that [of n] n Some r(2) c q nl L(1) sc t
      by (simp add: reallocate_downward_def)
  qed
  let ?v = "v\<lparr>vd_reserved := r, vd_buf := Some b, vd_cur := unat r - length (vd_top v),
    vd_scratch := length (vd_pad v)\<rparr>"
  have e: "vd_reallocate len v = Some ?v"
    unfolding vd_reallocate_def Let_def frame r_def [symmetric] b
    using fits by (simp add: sc L(1))
  have "r \<noteq> 0" using r(2) by auto
  moreover have "length (vd_pad v) + unat len + length (vd_top v) \<le> unat r"
    using r(1) L(2-4) by linarith
  ultimately have "vd_inv ?v"
    using frame len fits L(1) by (auto simp: vd_inv_def)
  then show thesis
    using that [OF e] top pad \<open>length (vd_pad v) + unat len + length (vd_top v) \<le> unat r\<close>
    by (simp add: vd_top_def vd_pad_def)
qed

lemma vd_size_small:
  assumes "vd_inv v" and "vd_room n v"
  shows "ucast (vd_size v) < FLATBUFFERS_MAX_BUFFER_SIZE"
  using vd_inv_lengths(1) [OF assms(1)] assms(2) by (simp add: word_less_nat_alt vd_room_def)

lemma vd_ensure_space_spec:
  assumes inv: "vd_inv v" and room: "vd_room (unat len) v"
  obtains v' where "vd_ensure_space len v = Some v'" and "vd_inv v'" and "vd_top v' = vd_top v"
    and "vd_pad v' = vd_pad v" and "unat len \<le> vd_cur v' - vd_scratch v'" and "vd_size v' = vd_size v"
    and "len \<noteq> 0 \<Longrightarrow> vd_buf v' \<noteq> None"
proof (cases "vd_cur v - vd_scratch v < unat len")
  case True
  obtain v' where v': "vd_reallocate len v = Some v'" "vd_inv v'" "vd_top v' = vd_top v"
      "vd_pad v' = vd_pad v" "unat len \<le> vd_cur v' - vd_scratch v'" "vd_size v' = vd_size v"
      "vd_buf v' \<noteq> None"
    by (rule vd_reallocate_spec [OF inv room True])
  have "vd_ensure_space len v = Some v'"
    using True v'(1,6) vd_inv_lengths(4) [OF inv] vd_size_small [OF inv room]
    by (simp add: vd_ensure_space_def)
  then show thesis using v' by (intro that) simp_all
next
  case False
  have "vd_ensure_space len v = Some v"
    using False vd_inv_lengths(4) [OF inv] vd_size_small [OF inv room]
    by (simp add: vd_ensure_space_def)
  moreover have "vd_buf v \<noteq> None" if "len \<noteq> 0"
  proof
    assume "vd_buf v = None"
    then have "vd_cur v - vd_scratch v = 0" using inv by (simp add: vd_inv_def)
    then show False using False that by (simp add: unat_eq_0)
  qed
  ultimately show thesis using False inv by (intro that) simp_all
qed

text \<open>\<open>make_space\<close> of at least one byte, followed by filling the new space.\<close>

definition vd_extend :: "cell list \<Rightarrow> vector_downward \<Rightarrow> vector_downward option" where
  "vd_extend cs v = do {
     v \<leftarrow> vd_make_space (of_nat (length cs)) v;
     vd_write cs (vd_cur v) v
   }"

lemma vd_extend_spec:
  assumes inv: "vd_inv v" and room: "vd_room (length cs) v" and ne: "cs \<noteq> []"
  obtains v' where "vd_extend cs v = Some v'" and "vd_inv v'" and "vd_top v' = cs @ vd_top v"
    and "vd_pad v' = vd_pad v"
proof -
  let ?n = "of_nat (length cs) :: size_t"
  have small: "length cs + length (vd_top v) < 2 ^ 31" using room by (simp add: vd_room_def)
  then have n: "unat ?n = length cs"
    by (intro unat_of_nat_small) simp
  then have room': "vd_room (unat ?n) v" using room by simp
  have nz: "?n \<noteq> 0" using n ne by (metis length_0_conv unat_0)
  obtain u where u: "vd_ensure_space ?n v = Some u" "vd_inv u" "vd_top u = vd_top v" "vd_pad u = vd_pad v"
      "unat ?n \<le> vd_cur u - vd_scratch u" "vd_size u = vd_size v"
      "?n \<noteq> 0 \<Longrightarrow> vd_buf u \<noteq> None"
    by (rule vd_ensure_space_spec [OF inv room']) (rule that, assumption+)
  obtain b where b: "vd_buf u = Some b" using u(7) [OF nz] by blast
  have ub: "length b = unat (vd_reserved u)" "vd_cur u \<le> length b" "vd_scratch u \<le> vd_cur u"
    "unat (vd_size u) = length b - vd_cur u" "vd_reserved u \<noteq> 0"
    "vd_initial_size u = 1024" "vd_buffer_minalign u = 8"
    using u(2) b by (simp_all add: vd_inv_def)
  have le: "length cs \<le> vd_cur u - vd_scratch u" using u(5) n by simp
  define c where "c = vd_cur u - length cs"
  have c: "c + length cs = vd_cur u" "vd_scratch u \<le> c"
    using le ub(3) ne by (simp_all add: c_def)
  let ?v = "u\<lparr>vd_cur := c, vd_size := vd_size u + ucast ?n,
      vd_buf := Some (take c b @ cs @ drop (vd_cur u) b)\<rparr>"
  have top: "drop (vd_cur u) b = vd_top v" using u(3) b by (simp add: vd_top_def)
  have pad: "take (vd_scratch u) b = vd_pad v" using u(4) b by (simp add: vd_pad_def)
  have e: "vd_extend cs v = Some ?v"
    using u(1) nz le n c b ub(2)
    by (simp add: vd_extend_def vd_make_space_def vd_write_def flip: c_def)
  have uc: "unat (ucast ?n :: uoffset_t) = length cs"
    using small n by (simp add: unat_ucast_down)
  have "unat (vd_size u + ucast ?n) = unat (vd_size u) + length cs"
  proof -
    have "unat (vd_size u) = length (vd_top v)" using u(6) vd_inv_lengths(1) [OF inv] by simp
    then show ?thesis using small uc by (subst unat_add_small) simp_all
  qed
  then have "vd_inv ?v"
    using ub c by (auto simp: vd_inv_def)
  moreover have "vd_top ?v = cs @ vd_top v"
    using c ub(2) top by (simp add: vd_top_def)
  moreover have "vd_pad ?v = vd_pad v"
    using c pad ub(2) by (simp add: vd_pad_def)
  ultimately show thesis using e that by blast
qed

lemma vd_push_small_spec:
  assumes "vd_inv v" and "vd_room (length cs) v" and "cs \<noteq> []"
  obtains v' where "vd_push_small cs v = Some v'" and "vd_inv v'" and "vd_top v' = cs @ vd_top v"
    and "vd_pad v' = vd_pad v"
  using vd_extend_spec [OF assms] by (auto simp: vd_extend_def vd_push_small_def)

lemma vd_push_spec:
  assumes "vd_inv v" and "vd_room (length bs) v"
  obtains v' where "vd_push bs v = Some v'" and "vd_inv v'" and "vd_top v' = map Some bs @ vd_top v"
    and "vd_pad v' = vd_pad v"
proof (cases "bs = []")
  case True
  then show thesis using that [of v] assms(1) by (simp add: vd_push_def)
next
  case False
  have "vd_room (length (map Some bs)) v" using assms(2) by simp
  moreover have "vd_push bs v = vd_extend (map Some bs) v"
    using False by (simp add: vd_push_def vd_extend_def)
  ultimately show thesis
    using vd_extend_spec [OF assms(1), of "map Some bs"] False that by auto
qed

lemma vd_fill_spec:
  assumes inv: "vd_inv v" and "vd_room (unat n) v"
  obtains v' where "vd_fill n v = Some v'" and "vd_inv v'"
    and "vd_top v' = replicate (unat n) (Some 0) @ vd_top v" and "vd_pad v' = vd_pad v"
proof (cases "n = 0")
  case True
  then show thesis using that [of v] inv by (simp add: vd_fill_def vd_make_space_def)
next
  case False
  then have "vd_fill n v = vd_extend (replicate (unat n) (Some 0)) v"
    by (simp add: vd_fill_def vd_extend_def)
  moreover have "replicate (unat n) (Some (0 :: byte)) \<noteq> []"
    using False by (simp add: unat_eq_0)
  ultimately show thesis
    using vd_extend_spec [OF inv, of "replicate (unat n) (Some 0)"] assms(2) that by auto
qed

lemma vd_fill_big_spec:
  assumes inv: "vd_inv v" and "vd_room (unat n) v" and "n \<noteq> 0"
  obtains v' where "vd_fill_big n v = Some v'" and "vd_inv v'"
    and "vd_top v' = replicate (unat n) (Some 0) @ vd_top v" and "vd_pad v' = vd_pad v"
proof -
  have "vd_fill_big n v = vd_fill n v"
    using assms(3) by (simp add: vd_fill_def vd_fill_big_def)
  then show thesis using vd_fill_spec [OF assms(1,2)] that by auto
qed

lemma vd_scratch_push_small_spec:
  assumes inv: "vd_inv v" and room: "vd_room (length cs) v" and ne: "cs \<noteq> []"
  obtains v' where "vd_scratch_push_small cs v = Some v'" and "vd_inv v'"
    and "vd_top v' = vd_top v" and "vd_pad v' = vd_pad v @ cs"
proof -
  let ?n = "of_nat (length cs) :: size_t"
  have "length cs < 2 ^ 31" using room by (simp add: vd_room_def)
  then have n: "unat ?n = length cs"
    by (intro unat_of_nat_small) simp
  then have room': "vd_room (unat ?n) v" using room by simp
  have nz: "?n \<noteq> 0" using n ne by (metis length_0_conv unat_0)
  obtain u where u: "vd_ensure_space ?n v = Some u" "vd_inv u" "vd_top u = vd_top v" "vd_pad u = vd_pad v"
      "unat ?n \<le> vd_cur u - vd_scratch u" "vd_size u = vd_size v"
      "?n \<noteq> 0 \<Longrightarrow> vd_buf u \<noteq> None"
    by (rule vd_ensure_space_spec [OF inv room']) (rule that, assumption+)
  obtain b where b: "vd_buf u = Some b" using u(7) [OF nz] by blast
  have ub: "length b = unat (vd_reserved u)" "vd_cur u \<le> length b" "vd_scratch u \<le> vd_cur u"
    "unat (vd_size u) = length b - vd_cur u" "vd_reserved u \<noteq> 0"
    "vd_initial_size u = 1024" "vd_buffer_minalign u = 8"
    using u(2) b by (simp_all add: vd_inv_def)
  define s where "s = vd_scratch u"
  have s: "s + length cs \<le> vd_cur u" using u(5) n ub(3) by (simp add: s_def)
  let ?v = "u\<lparr>vd_scratch := s + length cs,
      vd_buf := Some (take s b @ cs @ drop (s + length cs) b)\<rparr>"
  have e: "vd_scratch_push_small cs v = Some ?v"
    using u(1) b s ub(2) by (simp add: vd_scratch_push_small_def vd_write_def flip: s_def)
  have "vd_inv ?v" using ub s by (auto simp: vd_inv_def)
  moreover have "vd_top ?v = vd_top v"
    using u(3) b s ub(2) by (simp add: vd_top_def)
  moreover have "vd_pad ?v = vd_pad v @ cs"
  proof -
    have "vd_pad u = take s b" by (simp add: vd_pad_def b s_def)
    then have p: "take s b = vd_pad v" using u(4) by simp
    have "vd_pad ?v = take (s + length cs) (take s b @ cs @ drop (s + length cs) b)"
      by (simp add: vd_pad_def)
    also have "\<dots> = take s b @ cs" using s ub(2) by simp
    finally show ?thesis by (simp only: p)
  qed
  ultimately show thesis using e that by blast
qed

lemma vd_pop_spec:
  assumes inv: "vd_inv v" and n: "unat n \<le> length (vd_top v)"
  obtains v' where "vd_pop n v = Some v'" and "vd_inv v'" and "vd_top v' = drop (unat n) (vd_top v)"
    and "vd_pad v' = vd_pad v"
proof -
  note L = vd_inv_lengths [OF inv]
  let ?v = "v\<lparr>vd_cur := vd_cur v + unat n, vd_size := vd_size v - ucast n\<rparr>"
  have le: "unat n \<le> unat (vd_size v)" using n L(1) by simp
  moreover have "unat (vd_size v) < 2 ^ 32" using unsigned_less [of "vd_size v"] by simp
  ultimately have uc: "unat (ucast n :: uoffset_t) = unat n"
    by (simp add: unat_ucast_down)
  have "unat (vd_size v - ucast n) = unat (vd_size v) - unat n"
    using le uc by (subst unat_sub_le) (simp_all add: word_le_nat_alt)
  moreover have "vd_cur v + unat n \<le> unat (vd_reserved v)"
    using n L(3) by simp
  moreover have "n = 0" if "vd_buf v = None"
    using that n inv by (simp add: vd_top_def unat_eq_0)
  ultimately have "vd_pop n v = Some ?v" "vd_inv ?v" "vd_top ?v = drop (unat n) (vd_top v)" "vd_pad ?v = vd_pad v"
    using inv by (auto simp: vd_pop_def vd_inv_def vd_top_def vd_pad_def add.commute split: option.splits)
  then show thesis by (rule that)
qed

lemma vd_scratch_pop_spec:
  assumes inv: "vd_inv v" and n: "unat n \<le> length (vd_pad v)"
  obtains v' where "vd_scratch_pop n v = Some v'" and "vd_inv v'" and "vd_top v' = vd_top v"
    and "vd_pad v' = take (length (vd_pad v) - unat n) (vd_pad v)"
proof -
  note L = vd_inv_lengths [OF inv]
  let ?v = "v\<lparr>vd_scratch := vd_scratch v - unat n\<rparr>"
  have "vd_scratch_pop n v = Some ?v" "vd_inv ?v" "vd_top ?v = vd_top v"
    using inv n L(2) by (auto simp: vd_scratch_pop_def vd_inv_def vd_top_def split: option.splits)
  moreover have "vd_pad ?v = take (length (vd_pad v) - unat n) (vd_pad v)"
    using inv L(2) by (auto simp: vd_pad_def vd_inv_def min_def split: option.splits)
  ultimately show thesis by (rule that)
qed

lemma vd_clear_spec:
  assumes "vd_inv v"
  shows "vd_inv (vd_clear v)" and "vd_top (vd_clear v) = []" and "vd_pad (vd_clear v) = []"
  using assms by (auto simp: vd_inv_def vd_clear_def vd_clear_scratch_def vd_top_def vd_pad_def Let_def
      split: option.splits)

lemma vd_reset_spec:
  assumes "vd_inv v"
  shows "vd_inv (vd_reset v)" and "vd_top (vd_reset v) = []" and "vd_pad (vd_reset v) = []"
  using assms by (auto simp: vd_inv_def vd_reset_def vd_clear_buffer_def vd_clear_def vd_clear_scratch_def
      vd_top_def vd_pad_def Let_def split: option.splits)

lemma vd_clear_scratch_spec:
  assumes "vd_inv v"
  shows "vd_inv (vd_clear_scratch v)" and "vd_top (vd_clear_scratch v) = vd_top v"
    and "vd_pad (vd_clear_scratch v) = []"
  using assms by (auto simp: vd_inv_def vd_clear_scratch_def vd_top_def vd_pad_def split: option.splits)

section \<open>Access to cells\<close>

lemma vd_top_buf:
  assumes "vd_inv v" and "vd_top v \<noteq> []"
  obtains b where "vd_buf v = Some b" and "vd_top v = drop (vd_cur v) b" and "vd_cur v \<le> length b"
    and "length b = unat (vd_reserved v)"
  using assms by (cases "vd_buf v") (auto simp: vd_top_def vd_inv_def)

lemma vd_read_top:
  assumes inv: "vd_inv v" and "k + n \<le> length (vd_top v)" and "0 < n"
    and bs: "take n (drop k (vd_top v)) = map Some bs"
  shows "vd_read n (vd_cur v + k) v = Some bs"
proof -
  have "vd_top v \<noteq> []" using assms(2,3) by auto
  then obtain b where b: "vd_buf v = Some b" "vd_top v = drop (vd_cur v) b" "vd_cur v \<le> length b"
    using vd_top_buf [OF inv] by metis
  have "take n (drop (vd_cur v + k) b) = map Some bs"
    using bs b(2) by (simp add: add.commute)
  moreover have "vd_cur v + k + n \<le> length b" using assms(2) b(2,3) by simp
  ultimately show ?thesis by (auto simp: vd_read_def b(1) comp_def)
qed

lemma vd_read_pad:
  assumes inv: "vd_inv v" and "k + n \<le> length (vd_pad v)" and "0 < n"
    and bs: "take n (drop k (vd_pad v)) = map Some bs"
  shows "vd_read n k v = Some bs"
proof -
  obtain b where b: "vd_buf v = Some b"
    using assms(2,3) by (cases "vd_buf v") (auto simp: vd_pad_def)
  have p: "vd_pad v = take (vd_scratch v) b" by (simp add: vd_pad_def b)
  have "k + n \<le> vd_scratch v" "k + n \<le> length b" using assms(2) p by simp_all
  then have "min n (vd_scratch v - k) = n" by linarith
  then have "take n (drop k b) = map Some bs" using bs p by (simp add: drop_take)
  then show ?thesis
    using \<open>k + n \<le> length b\<close> by (auto simp: vd_read_def b comp_def)
qed

lemma vd_write_top:
  assumes inv: "vd_inv v" and "k + length cs \<le> length (vd_top v)" and "cs \<noteq> []"
  obtains v' where "vd_write cs (vd_cur v + k) v = Some v'" and "vd_inv v'"
    and "vd_top v' = take k (vd_top v) @ cs @ drop (k + length cs) (vd_top v)"
    and "vd_pad v' = vd_pad v" and "vd_cur v' = vd_cur v" and "vd_size v' = vd_size v"
proof -
  have "vd_top v \<noteq> []" using assms(2,3) by auto
  then obtain b where b: "vd_buf v = Some b" "vd_top v = drop (vd_cur v) b" "vd_cur v \<le> length b"
    using vd_top_buf [OF inv] by metis
  have le: "vd_cur v + k + length cs \<le> length b" using assms(2) b(2,3) by simp
  let ?b = "take (vd_cur v + k) b @ cs @ drop (vd_cur v + k + length cs) b"
  let ?v = "v\<lparr>vd_buf := Some ?b\<rparr>"
  have w: "vd_write cs (vd_cur v + k) v = Some ?v"
    using le by (simp add: vd_write_def b(1))
  have i: "vd_inv ?v" using inv b(1) le by (auto simp: vd_inv_def)
  have "vd_top ?v = take k (vd_top v) @ cs @ drop (k + length cs) (vd_top v)"
    using le by (simp add: vd_top_def b drop_take add.commute add.left_commute)
  moreover have "vd_pad ?v = vd_pad v"
  proof -
    have "vd_scratch v \<le> vd_cur v" by (rule vd_inv_lengths(4) [OF inv])
    then show ?thesis using le by (simp add: vd_pad_def b(1) min_def)
  qed
  ultimately show thesis using that [OF w i] by simp
qed

lemma vd_data_at_spec:
  assumes "vd_inv v" and "unat off \<le> length (vd_top v)"
  shows "vd_data_at off v = Some (vd_cur v + (length (vd_top v) - unat off))"
proof -
  note L = vd_inv_lengths [OF assms(1)]
  have "off \<le> vd_reserved v" using assms(2) L(3) by (simp add: word_le_nat_alt)
  then show ?thesis using assms(2) L(3) by (simp add: vd_data_at_def)
qed

lemma vd_pointers:
  assumes "vd_inv v" and "vd_top v \<noteq> []"
  shows "vd_data_ptr v = Some (vd_cur v)" and "vd_scratch_data v = Some 0"
    and "vd_scratch_end v = Some (length (vd_pad v))"
proof -
  obtain b where b: "vd_buf v = Some b" using vd_top_buf [OF assms] by metis
  show "vd_data_ptr v = Some (vd_cur v)" and "vd_scratch_data v = Some 0"
    and "vd_scratch_end v = Some (length (vd_pad v))"
    using b vd_inv_lengths(2) [OF assms(1)]
    by (simp_all add: vd_data_ptr_def vd_scratch_data_def vd_scratch_end_def)
qed

section \<open>Property\<close>

text \<open>C6: \<open>vector_downward\<close> implements two byte lists that share one
  allocation: \<open>push\<close> and \<open>fill\<close> extend the used end at its front, \<open>scratch_push_small\<close> extends
  the scratch pad at its end, and neither disturbs the other or any byte already there, also
  when the block has to be reallocated; nothing is written outside the block.\<close>
theorem vector_downward_refines:
  assumes "vd_inv v" and "vd_room (length bs) v" and "vd_room (length cs) v" and "vd_room (unat n) v"
    and "cs \<noteq> []"
  shows "(\<exists>v'. vd_push bs v = Some v' \<and> vd_inv v' \<and> vd_top v' = map Some bs @ vd_top v \<and>
      vd_pad v' = vd_pad v) \<and>
    (\<exists>v'. vd_fill n v = Some v' \<and> vd_inv v' \<and> vd_top v' = replicate (unat n) (Some 0) @ vd_top v \<and>
      vd_pad v' = vd_pad v) \<and>
    (\<exists>v'. vd_scratch_push_small cs v = Some v' \<and> vd_inv v' \<and> vd_top v' = vd_top v \<and>
      vd_pad v' = vd_pad v @ cs)"
  using vd_push_spec [OF assms(1,2)] vd_fill_spec [OF assms(1,4)]
    vd_scratch_push_small_spec [OF assms(1,3,5)] by metis

theorem vector_downward_refines_witness:
  "(\<exists>v'. vd_push [1, 2] (vd_new 1024 8) = Some v' \<and> vd_inv v' \<and> vd_top v' = [Some 1, Some 2] \<and>
      vd_pad v' = []) \<and>
    (\<exists>v'. vd_fill 2000 (vd_new 1024 8) = Some v' \<and> vd_inv v' \<and> vd_top v' = replicate 2000 (Some 0) \<and>
      vd_pad v' = []) \<and>
    (\<exists>v'. vd_scratch_push_small [Some 3] (vd_new 1024 8) = Some v' \<and> vd_inv v' \<and> vd_top v' = [] \<and>
      vd_pad v' = [Some 3])"
  using vector_downward_refines [of "vd_new 1024 8" "[1, 2]" "[Some 3]" 2000]
  by (simp add: vd_room_def)

end
