(* ===== verification/Fb_Builder.thy ===== *)
theory Fb_Builder
  imports Fb_Vector_Downward
begin

text \<open>
  \<open>examples/flatbuffers/flatbuffer_builder.h\<close>: the class \<open>FlatBufferBuilder\<close>.  Operations that
  change the builder return it with their result; a failed \<open>FLATBUFFERS_ASSERT\<close> is \<open>None\<close>.
  A scalar is given as its little-endian bytes.  The pool of shared strings is the list of
  their offsets; it is used in \<open>Fb_Vector_Build\<close>.
\<close>

section \<open>State\<close>

record fb_builder =
  fbb_buf :: vector_downward
  num_field_loc :: u32
  max_voffset :: voffset_t
  fbb_nested :: bool
  fbb_finished :: bool
  fbb_minalign :: size_t
  force_defaults :: bool
  dedup_vtables :: bool
  string_pool :: "uoffset_t list option"   \<comment> \<open>\<open>None\<close> is the null pointer\<close>

definition fbb_new :: "size_t \<Rightarrow> size_t \<Rightarrow> fb_builder" where
  "fbb_new initial_size buffer_minalign =
     \<lparr>fbb_buf = vd_new initial_size buffer_minalign, num_field_loc = 0, max_voffset = 0,
      fbb_nested = False, fbb_finished = False, fbb_minalign = 1, force_defaults = False,
      dedup_vtables = True, string_pool = None\<rparr>"

abbreviation (input) default_builder :: fb_builder where "default_builder \<equiv> fbb_new 1024 8"

definition field_index_to_offset :: "voffset_t \<Rightarrow> voffset_t" where
  "field_index_to_offset field_id = (field_id + 2) * 2"

text \<open>Lifting an operation of the vector to the builder.\<close>

definition on_buf :: "(vector_downward \<Rightarrow> vector_downward option) \<Rightarrow> fb_builder \<Rightarrow> fb_builder option" where
  "on_buf op f = map_option (\<lambda>v. f\<lparr>fbb_buf := v\<rparr>) (op (fbb_buf f))"

definition get_size :: "fb_builder \<Rightarrow> uoffset_t" where
  "get_size f = vd_size (fbb_buf f)"

section \<open>Access to the finished buffer\<close>

definition fbb_check_finished :: "fb_builder \<Rightarrow> unit option" where
  "fbb_check_finished f = (if fbb_finished f then Some () else None)"

definition get_buffer_pointer :: "fb_builder \<Rightarrow> nat option" where
  "get_buffer_pointer f = do { fbb_check_finished f; vd_data_ptr (fbb_buf f) }"

text \<open>The bytes that \<open>GetBufferPointer()\<close> and \<open>GetSize()\<close> delimit.\<close>

definition fbb_contents :: "fb_builder \<Rightarrow> byte list option" where
  "fbb_contents f = do {
     p \<leftarrow> get_buffer_pointer f;
     vd_read (unat (get_size f)) p (fbb_buf f)
   }"

definition get_current_buffer_pointer :: "fb_builder \<Rightarrow> nat option" where
  "get_current_buffer_pointer f = vd_data_ptr (fbb_buf f)"

definition release_raw ::
  "fb_builder \<Rightarrow> (cell list option \<times> size_t \<times> size_t \<times> fb_builder) option" where
  "release_raw f = do {
     fbb_check_finished f;
     let (b, sz, off, v) = vd_release_raw (fbb_buf f);
     Some (b, sz, off, f\<lparr>fbb_buf := v\<rparr>)
   }"

definition get_buffer_min_alignment :: "fb_builder \<Rightarrow> size_t option" where
  "get_buffer_min_alignment f = do { fbb_check_finished f; Some (fbb_minalign f) }"

definition set_force_defaults :: "bool \<Rightarrow> fb_builder \<Rightarrow> fb_builder" where
  "set_force_defaults fd f = f\<lparr>force_defaults := fd\<rparr>"

definition set_dedup_vtables :: "bool \<Rightarrow> fb_builder \<Rightarrow> fb_builder" where
  "set_dedup_vtables dedup f = f\<lparr>dedup_vtables := dedup\<rparr>"

section \<open>Clearing\<close>

abbreviation (input) sizeof_FieldLoc :: size_t where "sizeof_FieldLoc \<equiv> 8"

definition clear_offsets :: "fb_builder \<Rightarrow> fb_builder option" where
  "clear_offsets f = do {
     f \<leftarrow> on_buf (vd_scratch_pop (ucast (num_field_loc f) * sizeof_FieldLoc)) f;
     Some (f\<lparr>num_field_loc := 0, max_voffset := 0\<rparr>)
   }"

definition fbb_clear :: "fb_builder \<Rightarrow> fb_builder option" where
  "fbb_clear f = do {
     f \<leftarrow> clear_offsets f;
     Some (f\<lparr>fbb_buf := vd_clear (fbb_buf f), fbb_nested := False, fbb_finished := False,
       fbb_minalign := 1, string_pool := map_option (\<lambda>_. []) (string_pool f)\<rparr>)
   }"

definition fbb_reset :: "fb_builder \<Rightarrow> fb_builder option" where
  "fbb_reset f = do {
     f \<leftarrow> fbb_clear f;
     Some (f\<lparr>fbb_buf := vd_reset (fbb_buf f)\<rparr>)
   }"

section \<open>Elements and fields\<close>

definition fbb_pad :: "size_t \<Rightarrow> fb_builder \<Rightarrow> fb_builder option" where
  "fbb_pad num_bytes f = on_buf (vd_fill num_bytes) f"

definition track_min_align :: "size_t \<Rightarrow> fb_builder \<Rightarrow> fb_builder" where
  "track_min_align elem_size f =
     (if fbb_minalign f < elem_size then f\<lparr>fbb_minalign := elem_size\<rparr> else f)"

definition fbb_align :: "size_t \<Rightarrow> fb_builder \<Rightarrow> fb_builder option" where
  "fbb_align elem_size f =
     (let f = track_min_align elem_size f in
      on_buf (vd_fill (padding_bytes (ucast (get_size f)) elem_size)) f)"

definition push_bytes :: "byte list \<Rightarrow> fb_builder \<Rightarrow> fb_builder option" where
  "push_bytes bytes f = on_buf (vd_push bytes) f"

definition push_flat_buffer :: "byte list \<Rightarrow> fb_builder \<Rightarrow> fb_builder option" where
  "push_flat_buffer bytes f = map_option (\<lambda>f. f\<lparr>fbb_finished := True\<rparr>) (push_bytes bytes f)"

definition pop_bytes :: "size_t \<Rightarrow> fb_builder \<Rightarrow> fb_builder option" where
  "pop_bytes amount f = on_buf (vd_pop amount) f"

definition push_element :: "byte list \<Rightarrow> fb_builder \<Rightarrow> (uoffset_t \<times> fb_builder) option" where
  "push_element element f = do {
     f \<leftarrow> fbb_align (of_nat (length element)) f;
     f \<leftarrow> on_buf (vd_push_small (map Some element)) f;
     Some (get_size f, f)
   }"

text \<open>A \<open>FieldLoc\<close> in memory: offset, field, and two bytes of padding.\<close>

definition field_loc_cells :: "uoffset_t \<times> voffset_t \<Rightarrow> cell list" where
  "field_loc_cells fl =
     map Some (u32_bytes (fst fl) @ le_bytes 2 (unat (snd fl))) @ [None, None]"

definition track_field :: "voffset_t \<Rightarrow> uoffset_t \<Rightarrow> fb_builder \<Rightarrow> fb_builder option" where
  "track_field field off f = do {
     f \<leftarrow> on_buf (vd_scratch_push_small (field_loc_cells (off, field))) f;
     let f = f\<lparr>num_field_loc := num_field_loc f + 1\<rparr>;
     Some (if max_voffset f < field then f\<lparr>max_voffset := field\<rparr> else f)
   }"

definition add_element :: "voffset_t \<Rightarrow> byte list \<Rightarrow> byte list \<Rightarrow> fb_builder \<Rightarrow> fb_builder option" where
  "add_element field e def f =
     (if is_the_same_as e def \<and> \<not> force_defaults f then Some f
      else do {
        (off, f) \<leftarrow> push_element e f;
        track_field field off f
      })"

definition add_element_always :: "voffset_t \<Rightarrow> byte list \<Rightarrow> fb_builder \<Rightarrow> fb_builder option" where
  "add_element_always field e f = do { (off, f) \<leftarrow> push_element e f; track_field field off f }"

definition refer_to :: "uoffset_t \<Rightarrow> fb_builder \<Rightarrow> (uoffset_t \<times> fb_builder) option" where
  "refer_to off f = do {
     f \<leftarrow> fbb_align 4 f;
     let sz = get_size f;
     (if off \<noteq> 0 \<and> off \<le> sz then Some (sz - off + 4, f) else None)
   }"

definition push_offset :: "uoffset_t \<Rightarrow> fb_builder \<Rightarrow> (uoffset_t \<times> fb_builder) option" where
  "push_offset off f = do { (r, f) \<leftarrow> refer_to off f; push_element (u32_bytes r) f }"

definition add_offset :: "voffset_t \<Rightarrow> uoffset_t \<Rightarrow> fb_builder \<Rightarrow> fb_builder option" where
  "add_offset field off f =
     (if off = 0 then Some f
      else do {
        (r, f) \<leftarrow> refer_to off f;
        add_element field (u32_bytes r) (u32_bytes 0) f
      })"

definition add_struct_offset :: "voffset_t \<Rightarrow> uoffset_t \<Rightarrow> fb_builder \<Rightarrow> fb_builder option" where
  "add_struct_offset field off f = track_field field off f"

section \<open>Tables\<close>

definition not_nested :: "fb_builder \<Rightarrow> unit option" where
  "not_nested f = (if \<not> fbb_nested f \<and> num_field_loc f = 0 then Some () else None)"

definition start_table :: "fb_builder \<Rightarrow> (uoffset_t \<times> fb_builder) option" where
  "start_table f = do {
     not_nested f;
     let f = f\<lparr>fbb_nested := True\<rparr>;
     Some (get_size f, f)
   }"

definition vd_read_u16 :: "nat \<Rightarrow> vector_downward \<Rightarrow> u16 option" where
  "vd_read_u16 p v = map_option (\<lambda>bs. of_nat (le_nat bs)) (vd_read 2 p v)"

definition vd_read_u32 :: "nat \<Rightarrow> vector_downward \<Rightarrow> u32 option" where
  "vd_read_u32 p v = map_option (\<lambda>bs. of_nat (le_nat bs)) (vd_read 4 p v)"

definition vd_write_scalar :: "byte list \<Rightarrow> nat \<Rightarrow> vector_downward \<Rightarrow> vector_downward option" where
  "vd_write_scalar bs p v = vd_write (map Some bs) p v"

text \<open>The loop that writes the field offsets into the new vtable.\<close>

fun write_fields :: "nat \<Rightarrow> nat \<Rightarrow> uoffset_t \<Rightarrow> vector_downward \<Rightarrow> vector_downward option" where
  "write_fields 0 it vtableoffsetloc v = Some v"
| "write_fields (Suc n) it vtableoffsetloc v = do {
     off \<leftarrow> vd_read_u32 it v;
     fid \<leftarrow> vd_read_u16 (it + 4) v;
     let pos = (ucast (vtableoffsetloc - off) :: voffset_t);
     data \<leftarrow> vd_data_ptr v;
     old \<leftarrow> vd_read_u16 (data + unat fid) v;
     (if old \<noteq> 0 then None
      else do {
        v \<leftarrow> vd_write_scalar (le_bytes 2 (unat pos)) (data + unat fid) v;
        write_fields n (it + 8) vtableoffsetloc v
      })
   }"

text \<open>
  The search for an equal vtable among those already written: \<open>Some (Some o)\<close> is its offset;
  \<open>n\<close> is the number of remembered vtables still to compare.
\<close>

fun find_vtable :: "nat \<Rightarrow> nat \<Rightarrow> nat \<Rightarrow> u16 \<Rightarrow> vector_downward \<Rightarrow> uoffset_t option option" where
  "find_vtable 0 it vt1 vt1_size v = Some None"
| "find_vtable (Suc n) it vt1 vt1_size v = do {
     vt_offset \<leftarrow> vd_read_u32 it v;
     vt2 \<leftarrow> vd_data_at (ucast vt_offset) v;
     vt2_size \<leftarrow> vd_read_u16 vt2 v;
     (if vt1_size \<noteq> vt2_size then find_vtable n (it + 4) vt1 vt1_size v
      else do {
        a \<leftarrow> vd_read (unat vt1_size) vt2 v;
        b \<leftarrow> vd_read (unat vt1_size) vt1 v;
        (if a \<noteq> b then find_vtable n (it + 4) vt1 vt1_size v
         else Some (Some vt_offset))
      })
   }"

definition end_table_vtable :: "uoffset_t \<Rightarrow> uoffset_t \<Rightarrow> fb_builder \<Rightarrow> fb_builder option" where
  "end_table_vtable start vtableoffsetloc f = do {
     let f = f\<lparr>max_voffset := max (max_voffset f + 2) (field_index_to_offset 0)\<rparr>;
     f \<leftarrow> on_buf (vd_fill_big (ucast (max_voffset f))) f;
     let table_object_size = vtableoffsetloc - start;
     (if \<not> table_object_size < 0x10000 then None
      else do {
        data \<leftarrow> vd_data_ptr (fbb_buf f);
        f \<leftarrow> on_buf (vd_write_scalar (le_bytes 2 (unat (ucast table_object_size :: u16))) (data + 2)) f;
        f \<leftarrow> on_buf (vd_write_scalar (le_bytes 2 (unat (max_voffset f))) data) f;
        scratch_end \<leftarrow> vd_scratch_end (fbb_buf f);
        on_buf (write_fields (unat (num_field_loc f))
          (scratch_end - unat (num_field_loc f) * unat sizeof_FieldLoc) vtableoffsetloc) f
      })
   }"

text \<open>
  The last part of \<open>EndTable\<close>, from the search for an equal vtable on.
\<close>

definition end_table_finish :: "uoffset_t \<Rightarrow> fb_builder \<Rightarrow> (uoffset_t \<times> fb_builder) option" where
  "end_table_finish vtableoffsetloc f = do {
     vt1 \<leftarrow> vd_data_ptr (fbb_buf f);
     vt1_size \<leftarrow> vd_read_u16 vt1 (fbb_buf f);
     let vt_use = get_size f;
     dup \<leftarrow> (if dedup_vtables f then do {
          it \<leftarrow> vd_scratch_data (fbb_buf f);
          scratch_end \<leftarrow> vd_scratch_end (fbb_buf f);
          find_vtable (scratch_end div 4) it vt1 vt1_size (fbb_buf f)
        } else Some None);
     (vt_use, f) \<leftarrow> (case dup of
         None \<Rightarrow> Some (vt_use, f)
       | Some vt \<Rightarrow> do {
           f \<leftarrow> pop_bytes (ucast (get_size f - vtableoffsetloc)) f;
           Some (vt, f)
         });
     f \<leftarrow> (if vt_use = get_size f then on_buf (vd_scratch_push_small (map Some (u32_bytes vt_use))) f
          else Some f);
     loc \<leftarrow> vd_data_at (ucast vtableoffsetloc) (fbb_buf f);
     f \<leftarrow> on_buf (vd_write_scalar (u32_bytes (vt_use - vtableoffsetloc)) loc) f;
     Some (vtableoffsetloc, f\<lparr>fbb_nested := False\<rparr>)
   }"

definition end_table :: "uoffset_t \<Rightarrow> fb_builder \<Rightarrow> (uoffset_t \<times> fb_builder) option" where
  "end_table start f =
     (if \<not> fbb_nested f then None
      else do {
        (vtableoffsetloc, f) \<leftarrow> push_element (u32_bytes 0) f;
        f \<leftarrow> end_table_vtable start vtableoffsetloc f;
        f \<leftarrow> clear_offsets f;
        end_table_finish vtableoffsetloc f
      })"

text \<open>\<open>Required\<close> asserts that a finished table has a field.\<close>

definition table_field_offset :: "fb_builder \<Rightarrow> uoffset_t \<Rightarrow> voffset_t \<Rightarrow> voffset_t option" where
  "table_field_offset f table field = do {
     t \<leftarrow> vd_data_at (ucast table) (fbb_buf f);
     soff \<leftarrow> vd_read_u32 t (fbb_buf f);
     let vt = nat (int t - sint soff);
     vtsize \<leftarrow> vd_read_u16 vt (fbb_buf f);
     (if field < vtsize then vd_read_u16 (vt + unat field) (fbb_buf f) else Some 0)
   }"

definition required :: "uoffset_t \<Rightarrow> voffset_t \<Rightarrow> fb_builder \<Rightarrow> unit option" where
  "required table field f = do {
     off \<leftarrow> table_field_offset f table field;
     (if off \<noteq> 0 then Some () else None)
   }"

definition start_struct :: "size_t \<Rightarrow> fb_builder \<Rightarrow> (uoffset_t \<times> fb_builder) option" where
  "start_struct alignment f = map_option (\<lambda>f. (get_size f, f)) (fbb_align alignment f)"

definition end_struct :: "fb_builder \<Rightarrow> uoffset_t" where
  "end_struct f = get_size f"

section \<open>Strings and vectors\<close>

definition pre_align :: "size_t \<Rightarrow> size_t \<Rightarrow> fb_builder \<Rightarrow> fb_builder option" where
  "pre_align len alignment f =
     (if len = 0 then Some f
      else
        let f = track_min_align alignment f in
        on_buf (vd_fill (padding_bytes (ucast (get_size f) + len) alignment)) f)"

definition create_string :: "byte list \<Rightarrow> fb_builder \<Rightarrow> (uoffset_t \<times> fb_builder) option" where
  "create_string str f = do {
     not_nested f;
     f \<leftarrow> pre_align (of_nat (length str) + 1) 4 f;
     f \<leftarrow> on_buf (vd_fill 1) f;
     f \<leftarrow> push_bytes str f;
     (off, f) \<leftarrow> push_element (u32_bytes (of_nat (length str))) f;
     Some (get_size f, f)
   }"

text \<open>\<open>CreateString(const char*)\<close>: \<open>strlen\<close> needs a terminator in the readable bytes.\<close>

definition create_cstring :: "byte list \<Rightarrow> fb_builder \<Rightarrow> (uoffset_t \<times> fb_builder) option" where
  "create_cstring str f =
     (if 0 \<in> set str then create_string (takeWhile (\<lambda>b. b \<noteq> 0) str) f else None)"

definition end_vector :: "size_t \<Rightarrow> fb_builder \<Rightarrow> (uoffset_t \<times> fb_builder) option" where
  "end_vector len f =
     (if fbb_nested f then push_element (u32_bytes (ucast len)) (f\<lparr>fbb_nested := False\<rparr>) else None)"

definition start_vector :: "size_t \<Rightarrow> size_t \<Rightarrow> size_t \<Rightarrow> fb_builder \<Rightarrow> fb_builder option" where
  "start_vector len elemsize alignment f = do {
     not_nested f;
     let f = f\<lparr>fbb_nested := True\<rparr>;
     f \<leftarrow> pre_align (len * elemsize) 4 f;
     pre_align (len * elemsize) alignment f
   }"

definition force_vector_alignment :: "size_t \<Rightarrow> size_t \<Rightarrow> size_t \<Rightarrow> fb_builder \<Rightarrow> fb_builder option" where
  "force_vector_alignment len elemsize alignment f =
     (if len = 0 then Some f
      else if verify_alignment_requirements alignment 1 then pre_align (len * elemsize) alignment f
      else None)"

definition force_string_alignment :: "size_t \<Rightarrow> size_t \<Rightarrow> fb_builder \<Rightarrow> fb_builder option" where
  "force_string_alignment len alignment f =
     (if len = 0 then Some f
      else if verify_alignment_requirements alignment 1 then pre_align (len + 1) alignment f
      else None)"

text \<open>\<open>CreateVector\<close> of scalars given by their bytes, on a little-endian machine.\<close>

definition create_vector :: "size_t \<Rightarrow> byte list \<Rightarrow> fb_builder \<Rightarrow> (uoffset_t \<times> fb_builder) option" where
  "create_vector elemsize bytes f =
     (let len = of_nat (length bytes) div elemsize in
      do {
        f \<leftarrow> start_vector len elemsize elemsize f;
        (if len = 0 then end_vector len f
         else do { f \<leftarrow> push_bytes bytes f; end_vector len f })
      })"

section \<open>Finishing\<close>

definition finish_buffer ::
  "uoffset_t \<Rightarrow> byte list option \<Rightarrow> bool \<Rightarrow> fb_builder \<Rightarrow> fb_builder option" where
  "finish_buffer root file_identifier size_prefix f = do {
     not_nested f;
     let f = f\<lparr>fbb_buf := vd_clear_scratch (fbb_buf f)\<rparr>;
     f \<leftarrow> pre_align ((if size_prefix then 4 else 0) + 4 + (if file_identifier \<noteq> None then 4 else 0))
       (fbb_minalign f) f;
     f \<leftarrow> (case file_identifier of
         None \<Rightarrow> Some f
       | Some ident \<Rightarrow> if length ident = kFileIdentifierLength then push_bytes ident f else None);
     (r, f) \<leftarrow> refer_to root f;
     (x, f) \<leftarrow> push_element (u32_bytes r) f;
     f \<leftarrow> (if size_prefix then map_option snd (push_element (u32_bytes (get_size f)) f) else Some f);
     Some (f\<lparr>fbb_finished := True\<rparr>)
   }"

definition fbb_finish :: "uoffset_t \<Rightarrow> fb_builder \<Rightarrow> fb_builder option" where
  "fbb_finish root f = finish_buffer root None False f"

definition finish_size_prefixed :: "uoffset_t \<Rightarrow> fb_builder \<Rightarrow> fb_builder option" where
  "finish_size_prefixed root f = finish_buffer root None True f"

end
