(* ===== verification/Fb_Builder_Spec.thy ===== *)
theory Fb_Builder_Spec
  imports Fb_Builder
begin

text \<open>
  The specification of \<open>FlatBufferBuilder\<close>: a builder is the list of bytes written so far,
  the offsets of its vtables, and the fields of the table under construction.  The lemmas
  show that the builder, with its downward vector, scratch pad and vtable search, implements
  the operations of the specification as long as the data stays below 2 GB.
\<close>

section \<open>Abstract builders\<close>

record abs_builder =
  ab_data :: "byte list"
  ab_vtables :: "uoffset_t list"
  ab_locs :: "(uoffset_t \<times> voffset_t) list"
  ab_max :: voffset_t
  ab_nested :: bool
  ab_finished :: bool
  ab_minalign :: size_t

definition ab_new :: abs_builder where
  "ab_new = \<lparr>ab_data = [], ab_vtables = [], ab_locs = [], ab_max = 0, ab_nested = False,
     ab_finished = False, ab_minalign = 1\<rparr>"

definition ab_pad :: "abs_builder \<Rightarrow> cell list" where
  "ab_pad a = map Some (concat (map u32_bytes (ab_vtables a))) @
     concat (map field_loc_cells (ab_locs a))"

definition ab_used :: "abs_builder \<Rightarrow> nat" where
  "ab_used a = length (ab_data a) + 4 * length (ab_vtables a) + 8 * length (ab_locs a)"

definition fbb_rel :: "fb_builder \<Rightarrow> abs_builder \<Rightarrow> bool" where
  "fbb_rel f a \<longleftrightarrow> vd_inv (fbb_buf f) \<and> vd_top (fbb_buf f) = map Some (ab_data a) \<and>
     vd_pad (fbb_buf f) = ab_pad a \<and> num_field_loc f = of_nat (length (ab_locs a)) \<and>
     max_voffset f = ab_max a \<and> fbb_nested f = ab_nested a \<and> fbb_finished f = ab_finished a \<and>
     fbb_minalign f = ab_minalign a \<and> \<not> force_defaults f \<and> dedup_vtables f"

text \<open>The number of zero bytes that align \<open>n\<close> to a multiple of \<open>k\<close>.\<close>

definition pad_to :: "nat \<Rightarrow> nat \<Rightarrow> nat" where
  "pad_to n k = (k - n mod k) mod k"

definition ab_align :: "nat \<Rightarrow> abs_builder \<Rightarrow> abs_builder" where
  "ab_align k a = a\<lparr>ab_data := replicate (pad_to (length (ab_data a)) k) 0 @ ab_data a,
     ab_minalign := max (ab_minalign a) (of_nat k)\<rparr>"

definition ab_push :: "byte list \<Rightarrow> abs_builder \<Rightarrow> abs_builder" where
  "ab_push bs a = a\<lparr>ab_data := bs @ ab_data a\<rparr>"

definition ab_element :: "byte list \<Rightarrow> abs_builder \<Rightarrow> abs_builder" where
  "ab_element bs a = ab_push bs (ab_align (length bs) a)"

definition ab_track :: "voffset_t \<Rightarrow> abs_builder \<Rightarrow> abs_builder" where
  "ab_track field a = a\<lparr>ab_locs := ab_locs a @ [(of_nat (length (ab_data a)), field)],
     ab_max := max (ab_max a) field\<rparr>"

definition ab_add_element :: "voffset_t \<Rightarrow> byte list \<Rightarrow> byte list \<Rightarrow> abs_builder \<Rightarrow> abs_builder" where
  "ab_add_element field e d a = (if e = d then a else ab_track field (ab_element e a))"

definition ab_offset :: "nat \<Rightarrow> abs_builder \<Rightarrow> byte list" where
  "ab_offset off a = u32_bytes (of_nat (length (ab_data (ab_align 4 a)) - off + 4))"

definition ab_add_offset :: "voffset_t \<Rightarrow> nat \<Rightarrow> abs_builder \<Rightarrow> abs_builder" where
  "ab_add_offset field off a =
     (if off = 0 then a else ab_track field (ab_element (ab_offset off a) (ab_align 4 a)))"

section \<open>Basic lemmas\<close>

lemma length_field_loc_cells [simp]: "length (field_loc_cells x) = 8"
  by (simp add: field_loc_cells_def)

lemma length_ab_pad: "length (ab_pad a) = 4 * length (ab_vtables a) + 8 * length (ab_locs a)"
  by (simp add: ab_pad_def length_concat sum_list_triv comp_def)

lemma rel_size:
  assumes "fbb_rel f a"
  shows "unat (get_size f) = length (ab_data a)"
  using assms vd_inv_lengths(1) [of "fbb_buf f"] by (simp add: fbb_rel_def get_size_def)

lemma rel_size_of_nat: "fbb_rel f a \<Longrightarrow> get_size f = of_nat (length (ab_data a))"
  by (rule word_of_nat_unat) (rule rel_size)

lemma rel_room:
  assumes "fbb_rel f a" and "n + ab_used a < 2 ^ 31 - 1"
  shows "vd_room n (fbb_buf f)"
  using assms by (simp add: fbb_rel_def vd_room_def ab_used_def length_ab_pad)

lemma ab_size_small: "n + ab_used a < 2 ^ 31 - 1 \<Longrightarrow> length (ab_data a) < 2 ^ 31"
  by (simp add: ab_used_def)

lemma rel_new: "fbb_rel default_builder ab_new"
  by (simp add: fbb_rel_def fbb_new_def ab_new_def ab_pad_def)

lemma pad_to_le: "0 < k \<Longrightarrow> pad_to n k < k"
  by (simp add: pad_to_def)

lemma pad_to_unique:
  assumes "p < k" and "(n + p) mod k = 0"
  shows "p = pad_to n k"
proof (cases "n mod k = 0")
  case True
  then have "p mod k = 0" using assms(2) by (simp add: mod_add_eq [symmetric, of n])
  then show ?thesis using assms(1) True by (simp add: pad_to_def)
next
  case False
  have k: "0 < k" using assms(1) by simp
  have "(n mod k + p) mod k = 0" using assms(2) by (simp add: mod_add_left_eq)
  then obtain q where q: "n mod k + p = k * q" by (auto simp: mod_eq_0_iff_dvd)
  have "n mod k < k" using k by simp
  then have "k * q < k * 2" using q assms(1) by linarith
  then have "q < 2" by simp
  moreover have "q \<noteq> 0"
  proof
    assume "q = 0"
    then show False using q False by simp
  qed
  ultimately have "q = 1" by simp
  then have "p = k - n mod k" using q by simp
  then show ?thesis using False k by (simp add: pad_to_def)
qed

lemma padding_bytes_pad_to:
  assumes "scalar - 1 = mask k" and "k \<le> 64"
  shows "unat (padding_bytes n scalar) = pad_to (unat n) (2 ^ k)"
  by (rule pad_to_unique) (rule padding_bytes_spec [OF assms])+

lemma rel_on_buf:
  assumes r: "fbb_rel f a" and v: "op (fbb_buf f) = Some v" "vd_inv v"
    and t: "vd_top v = map Some (ab_data b)" "vd_pad v = ab_pad b"
    and b: "ab_locs b = ab_locs a" "ab_max b = ab_max a" "ab_nested b = ab_nested a"
      "ab_finished b = ab_finished a" "ab_minalign b = ab_minalign a"
  shows "\<exists>f'. on_buf op f = Some f' \<and> fbb_rel f' b"
  using assms by (simp add: on_buf_def fbb_rel_def)

lemma rel_fill:
  assumes r: "fbb_rel f a" and room: "unat n + ab_used a < 2 ^ 31 - 1"
  shows "\<exists>f'. on_buf (vd_fill n) f = Some f' \<and>
    fbb_rel f' (a\<lparr>ab_data := replicate (unat n) 0 @ ab_data a\<rparr>)"
proof -
  have i: "vd_inv (fbb_buf f)" and t: "vd_top (fbb_buf f) = map Some (ab_data a)"
    and p: "vd_pad (fbb_buf f) = ab_pad a"
    using r by (simp_all add: fbb_rel_def)
  obtain v where v: "vd_fill n (fbb_buf f) = Some v" "vd_inv v"
      "vd_top v = replicate (unat n) (Some 0) @ vd_top (fbb_buf f)" "vd_pad v = vd_pad (fbb_buf f)"
    by (rule vd_fill_spec [OF i rel_room [OF r room]])
  show ?thesis
    by (rule rel_on_buf [where op = "vd_fill n", OF r v(1,2)]) (use v t p in \<open>simp_all add: ab_pad_def\<close>)
qed

lemma rel_push:
  assumes r: "fbb_rel f a" and room: "length bs + ab_used a < 2 ^ 31 - 1"
  shows "\<exists>f'. push_bytes bs f = Some f' \<and> fbb_rel f' (ab_push bs a)"
proof -
  have i: "vd_inv (fbb_buf f)" and t: "vd_top (fbb_buf f) = map Some (ab_data a)"
    and p: "vd_pad (fbb_buf f) = ab_pad a"
    using r by (simp_all add: fbb_rel_def)
  obtain v where v: "vd_push bs (fbb_buf f) = Some v" "vd_inv v"
      "vd_top v = map Some bs @ vd_top (fbb_buf f)" "vd_pad v = vd_pad (fbb_buf f)"
    by (rule vd_push_spec [OF i rel_room [OF r room]])
  show ?thesis
    unfolding push_bytes_def
    by (rule rel_on_buf [where op = "vd_push bs", OF r v(1,2)])
      (use v t p in \<open>simp_all add: ab_pad_def ab_push_def\<close>)
qed

text \<open>The sizes of scalars.\<close>

definition scalar_size :: "nat \<Rightarrow> bool" where
  "scalar_size n \<longleftrightarrow> n \<in> {1, 2, 4, 8}"

lemma scalar_size_mask:
  assumes "scalar_size n"
  obtains k where "(of_nat n :: size_t) - 1 = mask k" and "k \<le> 64" and "n = 2 ^ k"
proof -
  consider "n = 1" | "n = 2" | "n = 4" | "n = 8"
    using assms by (auto simp: scalar_size_def)
  then show thesis
  proof cases
    case 1
    then show thesis using that [of 0] size_minus_1_mask by simp
  next
    case 2
    then show thesis using that [of 1] size_minus_1_mask by simp
  next
    case 3
    then show thesis using that [of 2] size_minus_1_mask by simp
  next
    case 4
    then show thesis using that [of 3] size_minus_1_mask by simp
  qed
qed

lemma rel_track_min_align:
  assumes "fbb_rel f a"
  shows "fbb_rel (track_min_align n f) (a\<lparr>ab_minalign := max (ab_minalign a) n\<rparr>)"
  using assms by (auto simp: fbb_rel_def track_min_align_def ab_pad_def max_def)

lemma rel_align:
  assumes r: "fbb_rel f a" and n: "scalar_size n" and room: "8 + ab_used a < 2 ^ 31 - 1"
  shows "\<exists>f'. fbb_align (of_nat n) f = Some f' \<and> fbb_rel f' (ab_align n a)"
proof -
  obtain k where k: "(of_nat n :: size_t) - 1 = mask k" "k \<le> 64" "n = 2 ^ k"
    using scalar_size_mask [OF n] .
  let ?f = "track_min_align (of_nat n) f" and ?a = "a\<lparr>ab_minalign := max (ab_minalign a) (of_nat n)\<rparr>"
  have r': "fbb_rel ?f ?a" by (rule rel_track_min_align [OF r])
  let ?p = "padding_bytes (ucast (get_size ?f)) (of_nat n)"
  have p: "unat ?p = pad_to (length (ab_data a)) n"
    using padding_bytes_pad_to [OF k(1,2), of "ucast (get_size ?f)"] rel_size [OF r'] k(3) by simp
  have "pad_to (length (ab_data a)) n < 9"
    using pad_to_le [of n "length (ab_data a)"] n by (auto simp: scalar_size_def)
  then have "unat ?p + ab_used ?a < 2 ^ 31 - 1"
    using p room by (simp add: ab_used_def)
  from rel_fill [OF r' this]
  have "\<exists>f'. on_buf (vd_fill ?p) ?f = Some f' \<and>
      fbb_rel f' (?a\<lparr>ab_data := replicate (unat ?p) 0 @ ab_data ?a\<rparr>)" .
  moreover have "fbb_align (of_nat n) f = on_buf (vd_fill ?p) ?f"
    by (simp add: fbb_align_def Let_def)
  moreover have "ab_align n a = ?a\<lparr>ab_data := replicate (unat ?p) 0 @ ab_data ?a\<rparr>"
    unfolding p by (simp add: ab_align_def)
  ultimately show ?thesis by (simp only:)
qed

section \<open>Elements and fields\<close>

lemma ab_align_used: "0 < k \<Longrightarrow> k \<le> 8 \<Longrightarrow> ab_used (ab_align k a) \<le> 7 + ab_used a"
  using pad_to_le [of k "length (ab_data a)"] by (simp add: ab_used_def ab_align_def)

lemma rel_push_small:
  assumes "fbb_rel f a" and "length bs + ab_used a < 2 ^ 31 - 1" and "bs \<noteq> []"
  shows "\<exists>f'. on_buf (vd_push_small (map Some bs)) f = Some f' \<and> fbb_rel f' (ab_push bs a)"
proof -
  have "vd_push_small (map Some bs) v = vd_push bs v" for v
    using assms(3) by (simp add: vd_push_small_def vd_push_def)
  then show ?thesis
    using rel_push [OF assms(1,2)] by (simp add: push_bytes_def on_buf_def)
qed

lemma rel_push_element:
  assumes r: "fbb_rel f a" and n: "scalar_size (length bs)" and room: "16 + ab_used a < 2 ^ 31 - 1"
  shows "\<exists>f'. push_element bs f = Some (of_nat (length (ab_data (ab_element bs a))), f') \<and>
    fbb_rel f' (ab_element bs a)"
proof -
  have l: "length bs \<le> 8" "bs \<noteq> []" using n by (auto simp: scalar_size_def)
  obtain g where g: "fbb_align (of_nat (length bs)) f = Some g" "fbb_rel g (ab_align (length bs) a)"
    using rel_align [OF r n] room by auto
  have "length bs + ab_used (ab_align (length bs) a) < 2 ^ 31 - 1"
    using ab_align_used [of "length bs" a] l room by simp
  from rel_push_small [OF g(2) this l(2)] obtain h where
    h: "on_buf (vd_push_small (map Some bs)) g = Some h" "fbb_rel h (ab_element bs a)"
    by (auto simp: ab_element_def)
  show ?thesis
    using g(1) h rel_size_of_nat [OF h(2)] by (simp add: push_element_def)
qed

lemma ab_element_used: "scalar_size (length bs) \<Longrightarrow> ab_used (ab_element bs a) \<le> 15 + ab_used a"
proof -
  assume "scalar_size (length bs)"
  then have l: "0 < length bs" "length bs \<le> 8" by (auto simp: scalar_size_def)
  have "ab_used (ab_element bs a) = length bs + ab_used (ab_align (length bs) a)"
    by (simp add: ab_element_def ab_push_def ab_used_def)
  then show ?thesis using ab_align_used [OF l, of a] l by linarith
qed

lemma rel_track_field:
  assumes r: "fbb_rel f a" and room: "8 + ab_used a < 2 ^ 31 - 1"
  shows "\<exists>f'. track_field field (of_nat (length (ab_data a))) f = Some f' \<and> fbb_rel f' (ab_track field a)"
proof -
  let ?c = "field_loc_cells (of_nat (length (ab_data a)), field)"
  have i: "vd_inv (fbb_buf f)" and t: "vd_top (fbb_buf f) = map Some (ab_data a)"
    and p: "vd_pad (fbb_buf f) = ab_pad a"
    using r by (simp_all add: fbb_rel_def)
  have "vd_room (length ?c) (fbb_buf f)" using rel_room [OF r] room by simp
  moreover have "?c \<noteq> []" by (simp add: field_loc_cells_def)
  ultimately obtain v where v: "vd_scratch_push_small ?c (fbb_buf f) = Some v" "vd_inv v"
      "vd_top v = vd_top (fbb_buf f)" "vd_pad v = vd_pad (fbb_buf f) @ ?c"
    using vd_scratch_push_small_spec [OF i] by metis
  show ?thesis
    using r v t p
    by (auto simp: track_field_def on_buf_def Let_def fbb_rel_def ab_track_def ab_pad_def max_def)
qed

lemma rel_add_element:
  assumes r: "fbb_rel f a" and n: "scalar_size (length e)" and room: "24 + ab_used a < 2 ^ 31 - 1"
  shows "\<exists>f'. add_element field e d f = Some f' \<and> fbb_rel f' (ab_add_element field e d a)"
proof (cases "e = d")
  case True
  have "\<not> force_defaults f" using r by (simp add: fbb_rel_def)
  then show ?thesis using True r by (simp add: add_element_def is_the_same_as_def ab_add_element_def)
next
  case False
  obtain g where g: "push_element e f = Some (of_nat (length (ab_data (ab_element e a))), g)"
      "fbb_rel g (ab_element e a)"
    using rel_push_element [OF r n] room by auto
  have "8 + ab_used (ab_element e a) < 2 ^ 31 - 1"
    using ab_element_used [OF n, of a] room by simp
  from rel_track_field [OF g(2) this] show ?thesis
    using g(1) False by (simp add: add_element_def is_the_same_as_def ab_add_element_def)
qed

lemma rel_refer_to:
  assumes r: "fbb_rel f a" and room: "16 + ab_used a < 2 ^ 31 - 1"
    and off: "0 < off" "off \<le> length (ab_data a)"
  shows "\<exists>f'. refer_to (of_nat off) f =
      Some (of_nat (length (ab_data (ab_align 4 a)) - off + 4), f') \<and> fbb_rel f' (ab_align 4 a)"
proof -
  have s4: "scalar_size 4" by (simp add: scalar_size_def)
  obtain g where g: "fbb_align 4 f = Some g" "fbb_rel g (ab_align 4 a)"
    using rel_align [OF r s4] room by auto
  let ?n = "length (ab_data (ab_align 4 a))"
  have le: "off \<le> ?n" using off(2) by (simp add: ab_align_def)
  have sz: "get_size g = of_nat ?n" by (rule rel_size_of_nat [OF g(2)])
  have small: "?n < 2 ^ 31"
    using ab_align_used [of 4 a] room by (simp add: ab_used_def)
  then have u: "unat (of_nat ?n :: uoffset_t) = ?n" "unat (of_nat off :: uoffset_t) = off"
    using le by (simp_all add: unat_of_nat_small)
  have "(of_nat off :: uoffset_t) \<noteq> 0" using u(2) off(1) by (metis unat_0 less_numeral_extra(3))
  moreover have "(of_nat off :: uoffset_t) \<le> of_nat ?n" using u le by (simp add: word_le_nat_alt)
  moreover have "(of_nat ?n :: uoffset_t) - of_nat off + 4 = of_nat (?n - off + 4)"
    using le by (simp add: of_nat_diff)
  ultimately show ?thesis
    using g sz by (simp add: refer_to_def Let_def)
qed

lemma rel_push_offset:
  assumes r: "fbb_rel f a" and room: "32 + ab_used a < 2 ^ 31 - 1"
    and off: "0 < off" "off \<le> length (ab_data a)"
  shows "\<exists>f'. push_offset (of_nat off) f =
      Some (of_nat (length (ab_data (ab_element (ab_offset off a) (ab_align 4 a)))), f') \<and>
    fbb_rel f' (ab_element (ab_offset off a) (ab_align 4 a))"
proof -
  obtain g where g: "refer_to (of_nat off) f =
      Some (of_nat (length (ab_data (ab_align 4 a)) - off + 4), g)" "fbb_rel g (ab_align 4 a)"
    using rel_refer_to [OF r _ off] room by auto
  have "16 + ab_used (ab_align 4 a) < 2 ^ 31 - 1"
    using ab_align_used [of 4 a] room by simp
  moreover have "scalar_size (length (ab_offset off a))"
    by (simp add: scalar_size_def ab_offset_def)
  ultimately show ?thesis
    using rel_push_element [OF g(2)] g(1) by (simp add: push_offset_def ab_offset_def)
qed

lemma u32_bytes_inject [simp]: "u32_bytes x = u32_bytes y \<longleftrightarrow> x = y"
  using bytes_u32_u32_bytes [of _ "[]"] by (metis append_Nil2)

lemma rel_add_offset:
  assumes r: "fbb_rel f a" and room: "40 + ab_used a < 2 ^ 31 - 1"
    and off: "off \<le> length (ab_data a)"
  shows "\<exists>f'. add_offset field (of_nat off) f = Some f' \<and> fbb_rel f' (ab_add_offset field off a)"
proof (cases "off = 0")
  case True
  then show ?thesis using r by (simp add: add_offset_def ab_add_offset_def)
next
  case False
  obtain g where g: "refer_to (of_nat off) f =
      Some (of_nat (length (ab_data (ab_align 4 a)) - off + 4), g)" "fbb_rel g (ab_align 4 a)"
    using rel_refer_to [OF r _ _ off] room False by auto
  have small: "length (ab_data (ab_align 4 a)) < 2 ^ 31"
    using ab_align_used [of 4 a] room by (simp add: ab_used_def)
  then have "unat (of_nat (length (ab_data (ab_align 4 a)) - off + 4) :: u32) =
      length (ab_data (ab_align 4 a)) - off + 4"
    by (intro unat_of_nat_small) simp
  then have nz: "ab_offset off a \<noteq> u32_bytes 0"
    by (auto simp: ab_offset_def simp del: of_nat_add of_nat_diff)
  have offnz: "(of_nat off :: uoffset_t) \<noteq> 0"
    using unat_of_nat_small [where 'a = 32, of off] False off room
    by (auto simp: ab_used_def)
  have "24 + ab_used (ab_align 4 a) < 2 ^ 31 - 1"
    using ab_align_used [of 4 a] room by simp
  moreover have "scalar_size (length (ab_offset off a))"
    by (simp add: scalar_size_def ab_offset_def)
  ultimately show ?thesis
    using rel_add_element [OF g(2), of "ab_offset off a" field "u32_bytes 0"] g(1) False nz offnz
    by (simp add: add_offset_def ab_add_offset_def ab_add_element_def ab_offset_def)
qed

section \<open>The vtable\<close>

fun ab_write_fields :: "uoffset_t \<Rightarrow> (uoffset_t \<times> voffset_t) list \<Rightarrow> byte list \<Rightarrow> byte list" where
  "ab_write_fields vloc [] vt = vt"
| "ab_write_fields vloc ((off, fid) # ls) vt =
     ab_write_fields vloc ls
       (take (unat fid) vt @ le_bytes 2 (unat (ucast (vloc - off) :: voffset_t)) @ drop (unat fid + 2) vt)"

definition ab_vtable :: "nat \<Rightarrow> nat \<Rightarrow> abs_builder \<Rightarrow> byte list" where
  "ab_vtable start vloc a =
     (let n = unat (max (ab_max a + 2) 4) in
      ab_write_fields (of_nat vloc) (ab_locs a)
        (le_bytes 2 n @ le_bytes 2 (vloc - start) @ replicate (n - 4) 0))"

text \<open>Fields with room in the vtable, each set once.\<close>

definition locs_ok :: "(uoffset_t \<times> voffset_t) list \<Rightarrow> nat \<Rightarrow> bool" where
  "locs_ok ls n \<longleftrightarrow> distinct (map snd ls) \<and>
     (\<forall>x \<in> set ls. even (unat (snd x)) \<and> 4 \<le> unat (snd x) \<and> unat (snd x) + 2 \<le> n)"

lemma ab_write_fields_shape:
  assumes "locs_ok ls (length vt)"
  shows "length (ab_write_fields vloc ls vt) = length vt \<and> take 4 (ab_write_fields vloc ls vt) = take 4 vt"
  using assms
proof (induction vloc ls vt rule: ab_write_fields.induct)
  case (2 vloc off fid ls vt)
  let ?vt = "take (unat fid) vt @ le_bytes 2 (unat (ucast (vloc - off) :: voffset_t)) @ drop (unat fid + 2) vt"
  have f: "4 \<le> unat fid" "unat fid + 2 \<le> length vt" "locs_ok ls (length vt)"
    using "2.prems" by (simp_all add: locs_ok_def)
  then have len: "length ?vt = length vt" by simp
  have "min 4 (unat fid) = 4" using f(1) by linarith
  then have t: "take 4 ?vt = take 4 vt" using f by simp
  have "locs_ok ls (length ?vt)" using f(3) len by (simp only:)
  from "2.IH" [OF this] show ?case by (simp only: ab_write_fields.simps len t)
qed simp

lemma u16_read: "(of_nat (le_nat (le_bytes 2 (unat (x :: u16)))) :: u16) = x"
proof -
  have "unat x < 256 ^ 2" using unsigned_less [of x] by simp
  then show ?thesis by (simp add: le_nat_le_bytes)
qed

lemma u32_read: "(of_nat (le_nat (u32_bytes x)) :: u32) = x"
proof -
  have "unat x < 256 ^ 4" using unsigned_less [of x] by simp
  then show ?thesis by (simp add: u32_bytes_def le_nat_le_bytes)
qed

lemma field_loc_cells_take [simp]:
  "take 4 (field_loc_cells (off, fid)) = map Some (u32_bytes off)"
  "take 2 (drop 4 (field_loc_cells (off, fid))) = map Some (le_bytes 2 (unat fid))"
  by (simp_all add: field_loc_cells_def)

lemma rel_write_fields:
  assumes "vd_inv v" and "vd_top v = map Some (vt @ d)"
    and "vd_pad v = P @ concat (map field_loc_cells ls)" and "length P = it"
    and "locs_ok ls (length vt)"
    and "\<And>x. x \<in> set ls \<Longrightarrow> take 2 (drop (unat (snd x)) vt) = [0, 0]"
  shows "\<exists>v'. write_fields (length ls) it vloc v = Some v' \<and> vd_inv v' \<and>
    vd_top v' = map Some (ab_write_fields vloc ls vt @ d) \<and> vd_pad v' = vd_pad v"
  using assms
proof (induction ls arbitrary: v vt P it)
  case Nil
  then show ?case by simp
next
  case (Cons x ls)
  obtain off fid where x: "x = (off, fid)" by force
  have fid: "unat fid + 2 \<le> length vt" "even (unat fid)"
    using Cons.prems(5) by (simp_all add: x locs_ok_def)
  have pad: "vd_pad v = P @ field_loc_cells (off, fid) @ concat (map field_loc_cells ls)"
    using Cons.prems(3) by (simp add: x)
  have "vd_read 4 it v = Some (u32_bytes off)"
    by (rule vd_read_pad [OF Cons.prems(1)])
      (simp_all add: pad Cons.prems(4) [symmetric])
  then have r1: "vd_read_u32 it v = Some off"
    by (simp add: vd_read_u32_def u32_read)
  have "vd_read 2 (it + 4) v = Some (le_bytes 2 (unat fid))"
    by (rule vd_read_pad [OF Cons.prems(1)])
      (simp_all add: pad Cons.prems(4) [symmetric])
  then have r2: "vd_read_u16 (it + 4) v = Some fid"
    by (simp add: vd_read_u16_def u16_read)
  have ne: "vd_top v \<noteq> []" using Cons.prems(2) fid by auto
  have "vd_read 2 (vd_cur v + unat fid) v = Some [0, 0]"
  proof (rule vd_read_top [OF Cons.prems(1)])
    show "unat fid + 2 \<le> length (vd_top v)" using Cons.prems(2) fid by simp
    have "take 2 (drop (unat fid) vt) = [0, 0]" using Cons.prems(6) [of x] x by simp
    then show "take 2 (drop (unat fid) (vd_top v)) = map Some [0, 0]"
      using Cons.prems(2) fid by (simp add: drop_map take_map)
  qed simp
  then have r3: "vd_read_u16 (vd_cur v + unat fid) v = Some 0"
    by (simp add: vd_read_u16_def)
  let ?e = "le_bytes 2 (unat (ucast (vloc - off) :: voffset_t))"
  let ?vt = "take (unat fid) vt @ ?e @ drop (unat fid + 2) vt"
  obtain u where u: "vd_write (map Some ?e) (vd_cur v + unat fid) v = Some u" "vd_inv u"
      "vd_top u = take (unat fid) (vd_top v) @ map Some ?e @ drop (unat fid + length (map Some ?e)) (vd_top v)"
      "vd_pad u = vd_pad v" "vd_cur u = vd_cur v" "vd_size u = vd_size v"
  proof (rule vd_write_top [OF Cons.prems(1), of "unat fid" "map Some ?e"])
    show "unat fid + length (map Some ?e) \<le> length (vd_top v)" using Cons.prems(2) fid by simp
    show "map Some ?e \<noteq> []" by (simp add: le_bytes_numeral)
  qed
  have top: "vd_top u = map Some (?vt @ d)"
    using u(3) Cons.prems(2) fid by (simp add: take_map drop_map)
  have len: "length ?vt = length vt" using fid by simp
  have zero: "take 2 (drop (unat (snd y)) ?vt) = [0, 0]" if y: "y \<in> set ls" for y
  proof -
    have "snd y \<noteq> fid" using Cons.prems(5) y x by (force simp: locs_ok_def)
    then have "unat (snd y) \<noteq> unat fid" by (metis word_unat_eq_iff)
    moreover have "even (unat (snd y))" "unat (snd y) + 2 \<le> length vt"
      using Cons.prems(5) y by (simp_all add: locs_ok_def)
    ultimately have "unat (snd y) + 2 \<le> unat fid \<or> unat fid + 2 \<le> unat (snd y)"
      using fid(2) by presburger
    then have "take 2 (drop (unat (snd y)) ?vt) = take 2 (drop (unat (snd y)) vt)"
    proof
      assume le: "unat (snd y) + 2 \<le> unat fid"
      then have "min 2 (unat fid - unat (snd y)) = 2" by linarith
      then show ?thesis using le fid(1) by (simp add: drop_take)
    next
      assume ge: "unat fid + 2 \<le> unat (snd y)"
      then have "Suc (Suc (unat (snd y) - 2)) = unat (snd y)" by linarith
      then show ?thesis using ge fid(1) by simp
    qed
    also have "\<dots> = [0, 0]" using Cons.prems(6) [of y] y by simp
    finally show ?thesis .
  qed
  have "locs_ok ls (length vt)"
    using Cons.prems(5) by (simp add: locs_ok_def)
  then have ok: "locs_ok ls (length ?vt)"
    by (simp only: len)
  have pad': "vd_pad u = (P @ field_loc_cells (off, fid)) @ concat (map field_loc_cells ls)"
    using u(4) pad by simp
  obtain v' where v': "write_fields (length ls) (it + 8) vloc u = Some v'" "vd_inv v'"
      "vd_top v' = map Some (ab_write_fields vloc ls ?vt @ d)" "vd_pad v' = vd_pad u"
    using Cons.IH [OF u(2) top pad' _ ok zero] Cons.prems(4) by auto
  have "write_fields (length (x # ls)) it vloc v = Some v'"
    using r1 r2 r3 u(1) v'(1) vd_pointers(1) [OF Cons.prems(1) ne]
    by (simp add: Let_def vd_write_scalar_def)
  then show ?case using v' u(4) x by simp
qed

section \<open>The search for an equal vtable\<close>

fun ab_find :: "byte list \<Rightarrow> byte list \<Rightarrow> uoffset_t list \<Rightarrow> uoffset_t option" where
  "ab_find vt d [] = None"
| "ab_find vt d (x # xs) =
     (if take (length vt) (drop (length d - unat x) d) = vt then Some x else ab_find vt d xs)"

text \<open>Offset \<open>x\<close> from the end of \<open>d\<close> is the start of a vtable, sized by its first two bytes.\<close>

definition vt_ok :: "byte list \<Rightarrow> uoffset_t \<Rightarrow> bool" where
  "vt_ok d x \<longleftrightarrow> 2 \<le> unat x \<and> unat x \<le> length d \<and>
     le_nat (take 2 (drop (length d - unat x) d)) \<le> unat x"

lemma vt_ok_extend:
  assumes "vt_ok d x"
  shows "vt_ok (bs @ d) x"
proof -
  have "unat x \<le> length d"
    using assms by (simp add: vt_ok_def)
  then have "length bs \<le> length bs + length d - unat x"
    by linarith
  then have "drop (length (bs @ d) - unat x) (bs @ d) = drop (length d - unat x) d"
    by simp
  then show ?thesis using assms by (simp only: vt_ok_def length_append trans_le_add2)
qed

lemma concat_u32_bytes_Cons: "concat (map u32_bytes (x # xs)) = u32_bytes x @ concat (map u32_bytes xs)"
  by simp

lemma ab_find_mem: "ab_find vt d xs = Some x \<Longrightarrow> x \<in> set xs"
  by (induction xs) (auto split: if_splits)

lemma rel_find_vtable:
  assumes inv: "vd_inv v" and top: "vd_top v = map Some D"
    and vt: "take (length vt) D = vt" "2 \<le> length vt" "length vt < 2 ^ 16"
      "take 2 vt = le_bytes 2 (length vt)"
    and "vd_pad v = P @ map Some (concat (map u32_bytes xs))" and "length P = it"
    and "\<forall>x \<in> set xs. vt_ok D x"
  shows "find_vtable (length xs) it (vd_cur v) (of_nat (length vt)) v = Some (ab_find vt D xs)"
  using assms(7-)
proof (induction xs arbitrary: P it)
  case Nil
  then show ?case by simp
next
  case (Cons x xs)
  have "vd_read 4 it v = Some (u32_bytes x)"
    by (rule vd_read_pad [OF inv]) (simp_all add: Cons.prems(1) Cons.prems(2) [symmetric])
  then have r1: "vd_read_u32 it v = Some x"
    by (simp add: vd_read_u32_def u32_read)
  have x: "2 \<le> unat x" "unat x \<le> length D" "le_nat (take 2 (drop (length D - unat x) D)) \<le> unat x"
    using Cons.prems(3) by (simp_all add: vt_ok_def)
  let ?k = "length D - unat x"
  have r2: "vd_data_at (ucast x) v = Some (vd_cur v + ?k)"
    using vd_data_at_spec [OF inv, of "ucast x"] x(2) top by simp
  let ?s = "le_nat (take 2 (drop ?k D))"
  have s: "?s < 2 ^ 16" using le_nat_bound [of "take 2 (drop ?k D)"] x by simp
  have "vd_read 2 (vd_cur v + ?k) v = Some (take 2 (drop ?k D))"
    by (rule vd_read_top [OF inv]) (use x top in \<open>simp_all add: take_map drop_map\<close>)
  then have r3: "vd_read_u16 (vd_cur v + ?k) v = Some (of_nat ?s)"
    by (simp add: vd_read_u16_def)
  have ih: "find_vtable (length xs) (it + 4) (vd_cur v) (of_nat (length vt)) v = Some (ab_find vt D xs)"
    by (rule Cons.IH [of "P @ map Some (u32_bytes x)"]) (use Cons.prems in simp_all)
  have ul: "unat (of_nat (length vt) :: u16) = length vt"
    by (rule unat_of_nat_small) (use vt(3) in simp)
  show ?case
  proof (cases "?s = length vt")
    case False
    have us: "unat (of_nat ?s :: u16) = ?s"
      by (rule unat_of_nat_small) (use s in simp)
    have "(of_nat (length vt) :: u16) \<noteq> of_nat ?s"
    proof
      assume "(of_nat (length vt) :: u16) = of_nat ?s"
      from arg_cong [OF this, of unat] show False using False by (simp only: ul us)
    qed
    moreover have "take (length vt) (drop ?k D) \<noteq> vt"
    proof
      assume "take (length vt) (drop ?k D) = vt"
      then have "take 2 (drop ?k D) = take 2 vt" using vt(2) by (metis min.absorb1 take_take)
      then have "?s = length vt mod 256 ^ 2" using vt(4) by (simp add: le_nat_le_bytes)
      then show False using False vt(3) by simp
    qed
    ultimately show ?thesis using r1 r2 r3 ih by simp
  next
    case True
    have ne: "vt \<noteq> []" using vt(2) by auto
    have a: "vd_read (length vt) (vd_cur v + ?k) v = Some (take (length vt) (drop ?k D))"
      by (rule vd_read_top [OF inv]) (use x top True ne in \<open>simp_all add: take_map drop_map\<close>)
    have "vd_read (length vt) (vd_cur v + 0) v = Some vt"
    proof (rule vd_read_top [OF inv])
      have "length vt \<le> length D" using vt(1) by (metis length_take min.cobounded1)
      then show "0 + length vt \<le> length (vd_top v)" using top by simp
      show "take (length vt) (drop 0 (vd_top v)) = map Some vt"
        using top vt(1) by (simp add: take_map)
    qed (use ne in simp)
    then have b: "vd_read (length vt) (vd_cur v) v = Some vt" by simp
    show ?thesis using r1 r2 r3 ih a b True ul by simp
  qed
qed

section \<open>Ending a table\<close>

definition ab_end_table :: "nat \<Rightarrow> abs_builder \<Rightarrow> abs_builder" where
  "ab_end_table start a =
     (let a1 = ab_element (u32_bytes 0) a;
          vloc = length (ab_data a1);
          d = drop 4 (ab_data a1);
          vt = ab_vtable start vloc a;
          a2 = a1\<lparr>ab_locs := [], ab_max := 0, ab_nested := False\<rparr>
      in case ab_find vt (vt @ ab_data a1) (ab_vtables a) of
           Some x \<Rightarrow> a2\<lparr>ab_data := u32_bytes (x - of_nat vloc) @ d\<rparr>
         | None \<Rightarrow> a2\<lparr>ab_data := vt @ u32_bytes (of_nat (length vt)) @ d,
                     ab_vtables := ab_vtables a @ [of_nat (vloc + length vt)]\<rparr>)"

definition ab_table_ok :: "nat \<Rightarrow> abs_builder \<Rightarrow> bool" where
  "ab_table_ok start a \<longleftrightarrow> ab_nested a \<and> unat (ab_max a) < 2 ^ 16 - 2 \<and>
     locs_ok (ab_locs a) (unat (max (ab_max a + 2) 4)) \<and> length (ab_locs a) < 2 ^ 16 \<and>
     (\<forall>x \<in> set (ab_vtables a). vt_ok (ab_data a) x) \<and>
     start \<le> length (ab_data a) \<and> length (ab_data a) + 8 - start < 2 ^ 16 \<and>
     2 ^ 17 + ab_used a < 2 ^ 31 - 1"

lemma rel_write:
  assumes r: "fbb_rel f a" and k: "k + length bs \<le> length (ab_data a)" and ne: "bs \<noteq> []"
  shows "\<exists>f'. on_buf (vd_write_scalar bs (vd_cur (fbb_buf f) + k)) f = Some f' \<and>
    fbb_rel f' (a\<lparr>ab_data := take k (ab_data a) @ bs @ drop (k + length bs) (ab_data a)\<rparr>) \<and>
    vd_cur (fbb_buf f') = vd_cur (fbb_buf f)"
proof -
  have i: "vd_inv (fbb_buf f)" and t: "vd_top (fbb_buf f) = map Some (ab_data a)"
    using r by (simp_all add: fbb_rel_def)
  obtain v where v: "vd_write (map Some bs) (vd_cur (fbb_buf f) + k) (fbb_buf f) = Some v" "vd_inv v"
      "vd_top v = take k (vd_top (fbb_buf f)) @ map Some bs @ drop (k + length (map Some bs)) (vd_top (fbb_buf f))"
      "vd_pad v = vd_pad (fbb_buf f)" "vd_cur v = vd_cur (fbb_buf f)" "vd_size v = vd_size (fbb_buf f)"
    by (rule vd_write_top [OF i, of k "map Some bs"]) (use k ne t in simp_all)
  show ?thesis
    using r v t by (simp add: on_buf_def vd_write_scalar_def fbb_rel_def take_map drop_map ab_pad_def)
qed

lemma rel_data_ptr:
  assumes "fbb_rel f a" and "ab_data a \<noteq> []"
  shows "vd_data_ptr (fbb_buf f) = Some (vd_cur (fbb_buf f))"
    and "vd_scratch_data (fbb_buf f) = Some 0"
    and "vd_scratch_end (fbb_buf f) = Some (length (ab_pad a))"
  using assms vd_pointers [of "fbb_buf f"] by (simp_all add: fbb_rel_def)

lemma rel_fill_big:
  assumes r: "fbb_rel f a" and room: "unat n + ab_used a < 2 ^ 31 - 1" and "n \<noteq> 0"
  shows "\<exists>f'. on_buf (vd_fill_big n) f = Some f' \<and>
    fbb_rel f' (a\<lparr>ab_data := replicate (unat n) 0 @ ab_data a\<rparr>)"
proof -
  have "vd_fill_big n = vd_fill n"
    using assms(3) by (auto simp: vd_fill_def vd_fill_big_def)
  then show ?thesis using rel_fill [OF r room] by simp
qed

lemma rel_clear_offsets:
  assumes r: "fbb_rel f a" and n: "length (ab_locs a) < 2 ^ 16"
  shows "\<exists>f'. clear_offsets f = Some f' \<and> fbb_rel f' (a\<lparr>ab_locs := [], ab_max := 0\<rparr>)"
proof -
  have i: "vd_inv (fbb_buf f)" and p: "vd_pad (fbb_buf f) = ab_pad a"
    using r by (simp_all add: fbb_rel_def)
  let ?n = "ucast (num_field_loc f) * 8 :: size_t"
  have "unat (num_field_loc f) = length (ab_locs a)"
    using r n by (simp add: fbb_rel_def unat_of_nat_small)
  then have u: "unat ?n = length (ab_locs a) * 8"
    using n by (simp add: unat_mult_lem [THEN iffD1])
  then have "unat ?n \<le> length (vd_pad (fbb_buf f))" by (simp add: p length_ab_pad)
  then obtain v where v: "vd_scratch_pop ?n (fbb_buf f) = Some v" "vd_inv v"
      "vd_top v = vd_top (fbb_buf f)"
      "vd_pad v = take (length (vd_pad (fbb_buf f)) - unat ?n) (vd_pad (fbb_buf f))"
    by (rule vd_scratch_pop_spec [OF i])
  have "length (map Some (concat (map u32_bytes (ab_vtables a)))) = length (ab_pad a) - unat ?n"
    by (simp add: length_ab_pad u length_concat sum_list_triv comp_def)
  then have "vd_pad v = map Some (concat (map u32_bytes (ab_vtables a)))"
    using v(4) p by (simp add: ab_pad_def)
  then show ?thesis
    using r v(1-3) by (simp add: clear_offsets_def on_buf_def fbb_rel_def ab_pad_def)
qed

lemma unat_max_word: "unat (max x y :: 'a::len word) = max (unat x) (unat y)"
  by (simp add: max_def word_le_nat_alt)

lemma rel_set_max:
  "fbb_rel f a \<Longrightarrow> fbb_rel (f\<lparr>max_voffset := m\<rparr>) (a\<lparr>ab_max := m\<rparr>)"
  by (simp add: fbb_rel_def ab_pad_def)

text \<open>The vtable of a well-formed table has the size of its first two bytes.\<close>

lemma ab_vtable_shape:
  assumes ok: "locs_ok (ab_locs a) (unat (max (ab_max a + 2) 4))"
  shows "length (ab_vtable start vloc a) = unat (max (ab_max a + 2) 4)"
    and "take 2 (ab_vtable start vloc a) = le_bytes 2 (unat (max (ab_max a + 2) 4))"
proof -
  define n where "n = unat (max (ab_max a + 2) 4)"
  have "4 \<le> n" by (simp add: n_def unat_max_word)
  let ?vt0 = "le_bytes 2 n @ le_bytes 2 (vloc - start) @ replicate (n - 4) 0"
  have l: "length ?vt0 = n" using \<open>4 \<le> n\<close> by simp
  have "locs_ok (ab_locs a) (length ?vt0)" using ok unfolding n_def [symmetric] l .
  note s = ab_write_fields_shape [OF this, of "of_nat vloc"]
  have v: "ab_vtable start vloc a = ab_write_fields (of_nat vloc) (ab_locs a) ?vt0"
    by (simp add: ab_vtable_def Let_def n_def)
  show "length (ab_vtable start vloc a) = unat (max (ab_max a + 2) 4)"
    using s l by (simp add: v n_def)
  have "take 2 (ab_vtable start vloc a) = take 2 (take 4 (ab_vtable start vloc a))"
    by simp
  also have "\<dots> = take 2 (take 4 ?vt0)" unfolding v using s by (simp only:)
  also have "\<dots> = le_bytes 2 n" by simp
  finally show "take 2 (ab_vtable start vloc a) = le_bytes 2 (unat (max (ab_max a + 2) 4))"
    by (simp add: n_def)
qed

lemma rel_end_table_vtable:
  assumes r: "fbb_rel f a" and ok: "locs_ok (ab_locs a) (unat (max (ab_max a + 2) 4))"
    and m: "unat (ab_max a) < 2 ^ 16 - 2" and nl: "length (ab_locs a) < 2 ^ 16"
    and st: "start \<le> vloc" "vloc - start < 2 ^ 16" "vloc < 2 ^ 31"
    and room: "2 ^ 16 + ab_used a < 2 ^ 31 - 1"
  shows "\<exists>f' m'. end_table_vtable (of_nat start) (of_nat vloc) f = Some f' \<and>
    fbb_rel f' (a\<lparr>ab_max := m', ab_data := ab_vtable start vloc a @ ab_data a\<rparr>)"
proof -
  define mw where "mw = max (ab_max a + 2) 4"
  define n where "n = unat mw"
  have n4: "4 \<le> n" by (simp add: n_def mw_def unat_max_word)
  have n16: "n < 2 ^ 16" using unsigned_less [of mw] by (simp add: n_def)
  let ?f1 = "f\<lparr>max_voffset := mw\<rparr>" and ?a1 = "a\<lparr>ab_max := mw\<rparr>"
  have r1: "fbb_rel ?f1 ?a1" by (rule rel_set_max [OF r])
  have "ucast mw \<noteq> (0 :: size_t)"
    using n4 unat_ucast_up(2) [of mw] by (metis n_def not_numeral_le_zero unat_0)
  moreover have "unat (ucast mw :: size_t) + ab_used ?a1 < 2 ^ 31 - 1"
    using room n16 by (simp add: ab_used_def flip: n_def)
  ultimately obtain f2 where f2: "on_buf (vd_fill_big (ucast mw)) ?f1 = Some f2"
      "fbb_rel f2 (?a1\<lparr>ab_data := replicate n 0 @ ab_data a\<rparr>)"
    using rel_fill_big [OF r1, of "ucast mw"] by (auto simp: n_def)
  let ?a2 = "?a1\<lparr>ab_data := replicate n 0 @ ab_data a\<rparr>"
  have ne2: "ab_data ?a2 \<noteq> []" using n4 by auto
  define sz where "sz = vloc - start"
  have tos: "of_nat vloc - of_nat start = (of_nat sz :: uoffset_t)"
    using st(1) by (simp add: sz_def of_nat_diff)
  have usz: "unat (of_nat sz :: uoffset_t) = sz"
    by (rule unat_of_nat_small) (use st(2) in \<open>simp add: sz_def\<close>)
  then have lt: "(of_nat sz :: uoffset_t) < 0x10000"
    using st(2) by (simp add: word_less_nat_alt sz_def)
  have u16: "unat (ucast (of_nat sz :: uoffset_t) :: u16) = sz"
    using usz st(2) by (simp only: unsigned_ucast_eq) (simp add: take_bit_eq_mod sz_def)
  obtain f3 where f3: "on_buf (vd_write_scalar (le_bytes 2 sz) (vd_cur (fbb_buf f2) + 2)) f2 = Some f3"
      "fbb_rel f3 (?a2\<lparr>ab_data := take 2 (ab_data ?a2) @ le_bytes 2 sz @ drop 4 (ab_data ?a2)\<rparr>)"
      "vd_cur (fbb_buf f3) = vd_cur (fbb_buf f2)"
    using rel_write [OF f2(2), of 2 "le_bytes 2 sz"] n4 by (auto simp: le_bytes_numeral)
  let ?d3 = "take 2 (ab_data ?a2) @ le_bytes 2 sz @ drop 4 (ab_data ?a2)"
  have n2: "min 2 n = 2" using n4 by linarith
  have d4: "take 0 ?d3 @ le_bytes 2 n @ drop (0 + length (le_bytes 2 n)) ?d3 =
      (le_bytes 2 n @ le_bytes 2 sz @ replicate (n - 4) 0) @ ab_data a"
    using n4 n2 by simp
  have l3: "0 + length (le_bytes 2 n) \<le> length (ab_data (?a2\<lparr>ab_data := ?d3\<rparr>))" by simp
  have ne: "le_bytes 2 n \<noteq> []" by (simp add: le_bytes_numeral)
  obtain f4 where w4: "on_buf (vd_write_scalar (le_bytes 2 n) (vd_cur (fbb_buf f3) + 0)) f3 = Some f4"
      "fbb_rel f4 (?a2\<lparr>ab_data := ?d3\<rparr>\<lparr>ab_data := take 0 (ab_data (?a2\<lparr>ab_data := ?d3\<rparr>)) @ le_bytes 2 n @
        drop (0 + length (le_bytes 2 n)) (ab_data (?a2\<lparr>ab_data := ?d3\<rparr>))\<rparr>)"
    using rel_write [OF f3(2) l3 ne] by blast
  have "?a2\<lparr>ab_data := ?d3\<rparr>\<lparr>ab_data := take 0 (ab_data (?a2\<lparr>ab_data := ?d3\<rparr>)) @ le_bytes 2 n @
        drop (0 + length (le_bytes 2 n)) (ab_data (?a2\<lparr>ab_data := ?d3\<rparr>))\<rparr> =
      ?a2\<lparr>ab_data := (le_bytes 2 n @ le_bytes 2 sz @ replicate (n - 4) 0) @ ab_data a\<rparr>"
    using d4 by simp
  then have f4: "on_buf (vd_write_scalar (le_bytes 2 n) (vd_cur (fbb_buf f2))) f3 = Some f4"
      "fbb_rel f4 (?a2\<lparr>ab_data := (le_bytes 2 n @ le_bytes 2 sz @ replicate (n - 4) 0) @ ab_data a\<rparr>)"
    using w4 f3(3) by simp_all
  let ?vt0 = "le_bytes 2 n @ le_bytes 2 sz @ replicate (n - 4) 0"
  let ?a4 = "?a2\<lparr>ab_data := ?vt0 @ ab_data a\<rparr>"
  have l0: "length ?vt0 = n" using n4 by simp
  have "locs_ok (ab_locs a) n" using ok by (simp only: n_def mw_def)
  then have ok0: "locs_ok (ab_locs a) (length ?vt0)" by (simp only: l0)
  have zero: "take 2 (drop (unat (snd x)) ?vt0) = [0, 0]" if "x \<in> set (ab_locs a)" for x
  proof -
    have x: "4 \<le> unat (snd x)" "unat (snd x) + 2 \<le> n"
      using ok0 that unfolding l0 by (simp_all add: locs_ok_def)
    then have "drop (unat (snd x)) ?vt0 = replicate (n - unat (snd x)) 0" by simp
    moreover have "min 2 (n - unat (snd x)) = 2" using x by linarith
    ultimately show ?thesis by (simp add: numeral_2_eq_2)
  qed
  have i4: "vd_inv (fbb_buf f4)" and t4: "vd_top (fbb_buf f4) = map Some (?vt0 @ ab_data a)"
    and p4: "vd_pad (fbb_buf f4) = ab_pad a"
    using f4(2) by (simp_all add: fbb_rel_def ab_pad_def)
  let ?it = "4 * length (ab_vtables a)"
  obtain v5 where v5: "write_fields (length (ab_locs a)) ?it (of_nat vloc) (fbb_buf f4) = Some v5" "vd_inv v5"
      "vd_top v5 = map Some (ab_write_fields (of_nat vloc) (ab_locs a) ?vt0 @ ab_data a)"
      "vd_pad v5 = vd_pad (fbb_buf f4)"
    using rel_write_fields [OF i4 t4 p4 [unfolded ab_pad_def] _ ok0 zero, of ?it "of_nat vloc"]
    by (auto simp: length_concat sum_list_triv comp_def)
  have vt: "ab_write_fields (of_nat vloc) (ab_locs a) ?vt0 = ab_vtable start vloc a"
    by (simp add: ab_vtable_def Let_def n_def mw_def sz_def)
  have nf: "unat (num_field_loc f4) = length (ab_locs a)"
    using f4(2) nl by (simp add: fbb_rel_def unat_of_nat_small)
  have se: "vd_scratch_end (fbb_buf f4) = Some (length (ab_pad a))"
    using rel_data_ptr(3) [OF f4(2)] n4 by (simp add: ab_pad_def le_bytes_numeral)
  have dp: "vd_data_ptr (fbb_buf f2) = Some (vd_cur (fbb_buf f2))"
    by (rule rel_data_ptr(1) [OF f2(2) ne2])
  have m4: "max_voffset f3 = mw" "max_voffset f2 = mw"
    using f3(2) f2(2) by (simp_all add: fbb_rel_def)
  have mx: "max (max_voffset f + 2) (field_index_to_offset 0) = mw"
    using r by (simp add: fbb_rel_def mw_def field_index_to_offset_def)
  have last: "on_buf (write_fields (length (ab_locs a)) ?it (of_nat vloc)) f4 = Some (f4\<lparr>fbb_buf := v5\<rparr>)"
    by (simp add: on_buf_def v5(1))
  have e: "end_table_vtable (of_nat start) (of_nat vloc) f = Some (f4\<lparr>fbb_buf := v5\<rparr>)"
    unfolding end_table_vtable_def Let_def mx tos
    using f2(1) f3(1) f4(1) last lt dp se m4 nf
    by (simp add: u16 length_ab_pad flip: n_def)
  have "fbb_rel (f4\<lparr>fbb_buf := v5\<rparr>) (a\<lparr>ab_max := mw, ab_data := ab_vtable start vloc a @ ab_data a\<rparr>)"
    using f4(2) v5(2-4) unfolding vt by (simp add: fbb_rel_def ab_pad_def)
  then show ?thesis using e by blast
qed

lemma rel_pop:
  assumes r: "fbb_rel f a" and n: "unat n \<le> length (ab_data a)"
  shows "\<exists>f'. pop_bytes n f = Some f' \<and> fbb_rel f' (a\<lparr>ab_data := drop (unat n) (ab_data a)\<rparr>)"
proof -
  have i: "vd_inv (fbb_buf f)" and t: "vd_top (fbb_buf f) = map Some (ab_data a)"
    and p: "vd_pad (fbb_buf f) = ab_pad a"
    using r by (simp_all add: fbb_rel_def)
  obtain v where v: "vd_pop n (fbb_buf f) = Some v" "vd_inv v"
      "vd_top v = drop (unat n) (vd_top (fbb_buf f))" "vd_pad v = vd_pad (fbb_buf f)"
    by (rule vd_pop_spec [OF i, of n]) (use n t in simp_all)
  show ?thesis
    unfolding pop_bytes_def
    by (rule rel_on_buf [where op = "vd_pop n", OF r v(1,2)])
      (use v t p in \<open>simp_all add: ab_pad_def drop_map\<close>)
qed

lemma rel_remember:
  assumes r: "fbb_rel f a" and n: "ab_locs a = []" and room: "4 + ab_used a < 2 ^ 31 - 1"
  shows "\<exists>f'. on_buf (vd_scratch_push_small (map Some (u32_bytes x))) f = Some f' \<and>
    fbb_rel f' (a\<lparr>ab_vtables := ab_vtables a @ [x]\<rparr>)"
proof -
  let ?c = "map Some (u32_bytes x)"
  have i: "vd_inv (fbb_buf f)" using r by (simp add: fbb_rel_def)
  have "vd_room (length ?c) (fbb_buf f)" using rel_room [OF r] room by simp
  moreover have "?c \<noteq> []" by (simp add: u32_bytes_def le_bytes_numeral)
  ultimately obtain v where v: "vd_scratch_push_small ?c (fbb_buf f) = Some v" "vd_inv v"
      "vd_top v = vd_top (fbb_buf f)" "vd_pad v = vd_pad (fbb_buf f) @ ?c"
    using vd_scratch_push_small_spec [OF i] by metis
  then show ?thesis using r n by (simp add: on_buf_def fbb_rel_def ab_pad_def)
qed

lemma rel_end_table_finish:
  assumes r: "fbb_rel f a" and D: "ab_data a = vt @ d1" and locs: "ab_locs a = []"
    and vt: "4 \<le> length vt" "length vt < 2 ^ 16" "take 2 vt = le_bytes 2 (length vt)"
    and d1: "4 \<le> length d1" and xs: "\<forall>x \<in> set (ab_vtables a). vt_ok d1 x \<and> unat x < length d1"
    and room: "4 + ab_used a < 2 ^ 31 - 1"
  shows "\<exists>f'. end_table_finish (of_nat (length d1)) f = Some (of_nat (length d1), f') \<and>
    fbb_rel f' (case ab_find vt (vt @ d1) (ab_vtables a) of
       Some x \<Rightarrow> a\<lparr>ab_nested := False, ab_data := u32_bytes (x - of_nat (length d1)) @ drop 4 d1\<rparr>
     | None \<Rightarrow> a\<lparr>ab_nested := False, ab_data := vt @ u32_bytes (of_nat (length vt)) @ drop 4 d1,
         ab_vtables := ab_vtables a @ [of_nat (length d1 + length vt)]\<rparr>)"
proof -
  have i: "vd_inv (fbb_buf f)" and t: "vd_top (fbb_buf f) = map Some (vt @ d1)"
    and p: "vd_pad (fbb_buf f) = ab_pad a"
    using r D by (simp_all add: fbb_rel_def)
  have ne: "ab_data a \<noteq> []" using D vt(1) by auto
  note ptr = rel_data_ptr [OF r ne]
  have small: "length vt + length d1 < 2 ^ 31" using room D by (simp add: ab_used_def)
  have sz: "get_size f = of_nat (length vt + length d1)"
    using rel_size_of_nat [OF r] D by simp
  have pl: "ab_pad a = [] @ map Some (concat (map u32_bytes (ab_vtables a)))"
    using locs by (simp add: ab_pad_def)
  have div4: "length (ab_pad a) div 4 = length (ab_vtables a)"
    using locs by (simp add: length_ab_pad)
  have "vd_read 2 (vd_cur (fbb_buf f) + 0) (fbb_buf f) = Some (le_bytes 2 (length vt))"
  proof (rule vd_read_top [OF i])
    have "take 2 (vt @ d1) = le_bytes 2 (length vt)" using vt(1,3) by simp
    then show "take 2 (drop 0 (vd_top (fbb_buf f))) = map Some (le_bytes 2 (length vt))"
      using t by (metis drop0 take_map)
  qed (use t vt(1) in simp_all)
  then have r2: "vd_read_u16 (vd_cur (fbb_buf f)) (fbb_buf f) = Some (of_nat (length vt))"
    using vt(2) by (simp add: vd_read_u16_def le_nat_le_bytes)
  have find: "find_vtable (length (ab_vtables a)) 0 (vd_cur (fbb_buf f)) (of_nat (length vt)) (fbb_buf f)
      = Some (ab_find vt (vt @ d1) (ab_vtables a))"
  proof (rule rel_find_vtable [OF i t])
    show "vd_pad (fbb_buf f) = [] @ map Some (concat (map u32_bytes (ab_vtables a)))"
      using p pl by simp
    show "\<forall>x \<in> set (ab_vtables a). vt_ok (vt @ d1) x" using xs vt_ok_extend by blast
  qed (use vt in simp_all)
  have dd: "dedup_vtables f" using r by (simp add: fbb_rel_def)
  show ?thesis
  proof (cases "ab_find vt (vt @ d1) (ab_vtables a)")
    case None
    let ?x = "of_nat (length vt + length d1) :: uoffset_t"
    obtain f2 where f2: "on_buf (vd_scratch_push_small (map Some (u32_bytes ?x))) f = Some f2"
        "fbb_rel f2 (a\<lparr>ab_vtables := ab_vtables a @ [?x]\<rparr>)"
      using rel_remember [OF r locs room] by blast
    let ?a2 = "a\<lparr>ab_vtables := ab_vtables a @ [?x]\<rparr>"
    have i2: "vd_inv (fbb_buf f2)" "vd_top (fbb_buf f2) = map Some (vt @ d1)"
      using f2(2) D by (simp_all add: fbb_rel_def)
    have ul: "unat (ucast (of_nat (length d1) :: uoffset_t) :: size_t) = length d1"
      using small by (simp add: unat_of_nat_small)
    have at: "vd_data_at (ucast (of_nat (length d1) :: uoffset_t)) (fbb_buf f2) =
        Some (vd_cur (fbb_buf f2) + length vt)"
      using vd_data_at_spec [OF i2(1), of "ucast (of_nat (length d1) :: uoffset_t)"] i2(2) ul by simp
    have off: "?x - of_nat (length d1) = of_nat (length vt)" by simp
    have k: "length vt + length (u32_bytes (of_nat (length vt))) \<le> length (ab_data ?a2)"
      using D d1 by simp
    have ne4: "u32_bytes (of_nat (length vt)) \<noteq> []" by (simp add: u32_bytes_def le_bytes_numeral)
    obtain f3 where f3: "on_buf (vd_write_scalar (u32_bytes (of_nat (length vt)))
        (vd_cur (fbb_buf f2) + length vt)) f2 = Some f3"
      "fbb_rel f3 (?a2\<lparr>ab_data := take (length vt) (ab_data ?a2) @ u32_bytes (of_nat (length vt)) @
          drop (length vt + length (u32_bytes (of_nat (length vt)))) (ab_data ?a2)\<rparr>)"
      using rel_write [OF f2(2) k ne4] by blast
    have "fbb_rel (f3\<lparr>fbb_nested := False\<rparr>) (a\<lparr>ab_nested := False,
        ab_data := vt @ u32_bytes (of_nat (length vt)) @ drop 4 d1,
        ab_vtables := ab_vtables a @ [of_nat (length d1 + length vt)]\<rparr>)"
      using f3(2) D by (simp add: fbb_rel_def ab_pad_def add.commute)
    then show ?thesis
      using None f2(1) at f3(1) off sz
      by (simp add: end_table_finish_def ptr r2 dd div4 find)
  next
    case (Some x)
    have mem: "x \<in> set (ab_vtables a)"
      by (rule ab_find_mem [OF Some])
    have x: "unat x < length d1" using xs mem by blast
    let ?n = "get_size f - of_nat (length d1)"
    have n: "?n = of_nat (length vt)" using sz by simp
    have un: "unat (ucast ?n :: size_t) = length vt"
      unfolding n using small by (simp add: unat_of_nat_small)
    have le: "unat (ucast ?n :: size_t) \<le> length (ab_data a)" unfolding un using D by simp
    have dr: "drop (unat (ucast ?n :: size_t)) (ab_data a) = d1" unfolding un using D by simp
    obtain f2 where f2: "pop_bytes (ucast ?n) f = Some f2" "fbb_rel f2 (a\<lparr>ab_data := d1\<rparr>)"
      using rel_pop [OF r le] unfolding dr by blast
    let ?a2 = "a\<lparr>ab_data := d1\<rparr>"
    have i2: "vd_inv (fbb_buf f2)" "vd_top (fbb_buf f2) = map Some d1"
      using f2(2) by (simp_all add: fbb_rel_def)
    have ud: "unat (of_nat (length d1) :: uoffset_t) = length d1"
      using small by (intro unat_of_nat_small) simp
    have at: "vd_data_at (ucast (of_nat (length d1) :: uoffset_t)) (fbb_buf f2) =
        Some (vd_cur (fbb_buf f2) + 0)"
      using vd_data_at_spec [OF i2(1), of "ucast (of_nat (length d1) :: uoffset_t)"] i2(2) ud by simp
    have sz2: "get_size f2 = of_nat (length d1)"
      using rel_size_of_nat [OF f2(2)] by simp
    have nx: "x \<noteq> of_nat (length d1)" using x ud by auto
    let ?e = "u32_bytes (x - of_nat (length d1))"
    have k: "0 + length ?e \<le> length (ab_data ?a2)" using d1 by simp
    have ne4: "?e \<noteq> []" by (simp add: u32_bytes_def le_bytes_numeral)
    obtain f3 where f3: "on_buf (vd_write_scalar ?e (vd_cur (fbb_buf f2) + 0)) f2 = Some f3"
      "fbb_rel f3 (?a2\<lparr>ab_data := take 0 (ab_data ?a2) @ ?e @ drop (0 + length ?e) (ab_data ?a2)\<rparr>)"
      using rel_write [OF f2(2) k ne4] by blast
    have "fbb_rel (f3\<lparr>fbb_nested := False\<rparr>) (a\<lparr>ab_nested := False, ab_data := ?e @ drop 4 d1\<rparr>)"
      using f3(2) by (simp add: fbb_rel_def ab_pad_def)
    then show ?thesis
      using Some f2(1) at f3(1) sz2 nx
      by (simp add: end_table_finish_def ptr r2 dd div4 find)
  qed
qed

text \<open>\<open>EndTable\<close> as a whole.\<close>

lemma rel_end_table:
  assumes r: "fbb_rel f a" and ok: "ab_table_ok start a"
  shows "\<exists>f'. end_table (of_nat start) f =
      Some (of_nat (length (ab_data (ab_element (u32_bytes 0) a))), f') \<and>
    fbb_rel f' (ab_end_table start a)"
proof -
  have a: "ab_nested a" "unat (ab_max a) < 2 ^ 16 - 2"
    "locs_ok (ab_locs a) (unat (max (ab_max a + 2) 4))" "length (ab_locs a) < 2 ^ 16"
    "\<forall>x \<in> set (ab_vtables a). vt_ok (ab_data a) x" "start \<le> length (ab_data a)"
    "length (ab_data a) + 8 - start < 2 ^ 16" "2 ^ 17 + ab_used a < 2 ^ 31 - 1"
    using ok by (simp_all add: ab_table_ok_def)
  let ?a1 = "ab_element (u32_bytes 0) a"
  let ?d1 = "ab_data ?a1" and ?vloc = "length (ab_data ?a1)"
  have s4: "scalar_size (length (u32_bytes 0))" by (simp add: scalar_size_def)
  have "16 + ab_used a < 2 ^ 31 - 1" using a(8) by simp
  then obtain f1 where f1: "push_element (u32_bytes 0) f = Some (of_nat ?vloc, f1)" "fbb_rel f1 ?a1"
    using rel_push_element [OF r s4] by blast
  let ?p = "replicate (pad_to (length (ab_data a)) 4) (0 :: byte)"
  have d1: "?d1 = u32_bytes 0 @ ?p @ ab_data a"
    by (simp add: ab_element_def ab_push_def ab_align_def)
  have pl: "length ?p < 4" using pad_to_le [of 4 "length (ab_data a)"] by simp
  have vl: "?vloc = 4 + length ?p + length (ab_data a)" by (simp add: d1)
  have same: "ab_locs ?a1 = ab_locs a" "ab_max ?a1 = ab_max a" "ab_vtables ?a1 = ab_vtables a"
    by (simp_all add: ab_element_def ab_push_def ab_align_def)
  have used: "ab_used ?a1 \<le> 15 + ab_used a" by (rule ab_element_used [OF s4])
  have vt1: "ab_vtable start ?vloc ?a1 = ab_vtable start ?vloc a"
    by (simp add: ab_vtable_def same)
  have c1: "locs_ok (ab_locs ?a1) (unat (max (ab_max ?a1 + 2) 4))"
    and c2: "unat (ab_max ?a1) < 2 ^ 16 - 2" and c3: "length (ab_locs ?a1) < 2 ^ 16"
    using a(2-4) by (simp_all only: same)
  have c4: "start \<le> ?vloc" using a(6) vl by linarith
  have c5: "?vloc - start < 2 ^ 16" using a(7) vl pl by linarith
  have "length (ab_data a) \<le> ab_used a" by (simp add: ab_used_def)
  then have c6: "?vloc < 2 ^ 31" using a(8) vl pl by simp
  have c7: "2 ^ 16 + ab_used ?a1 < 2 ^ 31 - 1" using used a(8) by simp
  obtain f2 m' where f2: "end_table_vtable (of_nat start) (of_nat ?vloc) f1 = Some f2"
      "fbb_rel f2 (?a1\<lparr>ab_max := m', ab_data := ab_vtable start ?vloc a @ ?d1\<rparr>)"
    using rel_end_table_vtable [OF f1(2) c1 c2 c3 c4 c5 c6 c7] unfolding vt1 by blast
  let ?vt = "ab_vtable start ?vloc a"
  let ?a2 = "?a1\<lparr>ab_max := m', ab_data := ?vt @ ?d1\<rparr>"
  obtain f3 where f3: "clear_offsets f2 = Some f3" "fbb_rel f3 (?a2\<lparr>ab_locs := [], ab_max := 0\<rparr>)"
    using rel_clear_offsets [OF f2(2)] a(4) same by auto
  let ?a3 = "?a2\<lparr>ab_locs := [], ab_max := 0\<rparr>"
  note vs = ab_vtable_shape [OF a(3), of start ?vloc]
  have mx: "unat (ab_max a + 2) < 2 ^ 16"
    using unsigned_less [of "ab_max a + 2"] by simp
  have vt: "4 \<le> length ?vt" "length ?vt < 2 ^ 16" "take 2 ?vt = le_bytes 2 (length ?vt)"
    using vs mx by (simp_all add: unat_max_word)
  have xs: "\<forall>x \<in> set (ab_vtables ?a3). vt_ok ?d1 x \<and> unat x < length ?d1"
  proof
    fix x assume "x \<in> set (ab_vtables ?a3)"
    then have v: "vt_ok (ab_data a) x" using a(5) same by simp
    then have "vt_ok ((u32_bytes 0 @ ?p) @ ab_data a) x" by (rule vt_ok_extend)
    then show "vt_ok ?d1 x \<and> unat x < length ?d1"
      using v vl by (simp add: d1 vt_ok_def)
  qed
  have "4 + ab_used ?a3 < 2 ^ 31 - 1"
    using vt(2) used a(8) by (simp add: ab_used_def)
  moreover have "4 \<le> length ?d1" using vl by simp
  ultimately obtain f4 where f4: "end_table_finish (of_nat ?vloc) f3 = Some (of_nat ?vloc, f4)"
    "fbb_rel f4 (case ab_find ?vt (?vt @ ?d1) (ab_vtables ?a3) of
       Some x \<Rightarrow> ?a3\<lparr>ab_nested := False, ab_data := u32_bytes (x - of_nat ?vloc) @ drop 4 ?d1\<rparr>
     | None \<Rightarrow> ?a3\<lparr>ab_nested := False, ab_data := ?vt @ u32_bytes (of_nat (length ?vt)) @ drop 4 ?d1,
         ab_vtables := ab_vtables ?a3 @ [of_nat (?vloc + length ?vt)]\<rparr>)"
    using rel_end_table_finish [OF f3(2) _ _ vt _ xs] by auto
  have "(case ab_find ?vt (?vt @ ?d1) (ab_vtables ?a3) of
       Some x \<Rightarrow> ?a3\<lparr>ab_nested := False, ab_data := u32_bytes (x - of_nat ?vloc) @ drop 4 ?d1\<rparr>
     | None \<Rightarrow> ?a3\<lparr>ab_nested := False, ab_data := ?vt @ u32_bytes (of_nat (length ?vt)) @ drop 4 ?d1,
         ab_vtables := ab_vtables ?a3 @ [of_nat (?vloc + length ?vt)]\<rparr>) = ab_end_table start a"
    by (simp add: ab_end_table_def Let_def same split: option.splits)
  moreover have "end_table (of_nat start) f = Some (of_nat ?vloc, f4)"
    using r a(1) f1(1) f2(1) f3(1) f4(1) by (simp add: end_table_def fbb_rel_def)
  ultimately show ?thesis using f4(2) by auto
qed

end
