(* ===== verification/Fb_Builder_Finish.thy ===== *)
theory Fb_Builder_Finish
  imports Fb_Builder_Spec
begin

text \<open>
  The remaining operations of the specification of \<open>FlatBufferBuilder\<close>: starting a table,
  strings, vectors of scalars and \<open>Finish\<close>, each with the lemma that the builder implements
  it.
\<close>

section \<open>Strings, vectors and the root\<close>

definition ab_start_table :: "abs_builder \<Rightarrow> abs_builder" where
  "ab_start_table a = a\<lparr>ab_nested := True\<rparr>"

definition ab_pre_align :: "nat \<Rightarrow> nat \<Rightarrow> abs_builder \<Rightarrow> abs_builder" where
  "ab_pre_align len k a =
     (if len = 0 then a
      else a\<lparr>ab_data := replicate (pad_to (length (ab_data a) + len) k) 0 @ ab_data a,
             ab_minalign := max (ab_minalign a) (of_nat k)\<rparr>)"

definition ab_create_string :: "byte list \<Rightarrow> abs_builder \<Rightarrow> abs_builder" where
  "ab_create_string str a =
     ab_element (u32_bytes (of_nat (length str)))
       (ab_push str (ab_push [0] (ab_pre_align (length str + 1) 4 a)))"

definition ab_finish :: "nat \<Rightarrow> abs_builder \<Rightarrow> abs_builder" where
  "ab_finish root a =
     (let a = ab_pre_align 4 (unat (ab_minalign a)) (a\<lparr>ab_vtables := []\<rparr>)
      in (ab_element (ab_offset root a) (ab_align 4 a))\<lparr>ab_finished := True\<rparr>)"

definition ab_idle :: "abs_builder \<Rightarrow> bool" where
  "ab_idle a \<longleftrightarrow> \<not> ab_nested a \<and> ab_locs a = []"

lemma rel_not_nested: "fbb_rel f a \<Longrightarrow> ab_idle a \<Longrightarrow> not_nested f = Some ()"
  by (simp add: fbb_rel_def ab_idle_def not_nested_def)

lemma rel_nested: "fbb_rel f a \<Longrightarrow> fbb_rel (f\<lparr>fbb_nested := b\<rparr>) (a\<lparr>ab_nested := b\<rparr>)"
  by (simp add: fbb_rel_def ab_pad_def)

lemma rel_finished: "fbb_rel f a \<Longrightarrow> fbb_rel (f\<lparr>fbb_finished := b\<rparr>) (a\<lparr>ab_finished := b\<rparr>)"
  by (simp add: fbb_rel_def ab_pad_def)

lemma rel_start_table:
  assumes r: "fbb_rel f a" and "ab_idle a"
  shows "\<exists>f'. start_table f = Some (of_nat (length (ab_data a)), f') \<and> fbb_rel f' (ab_start_table a)"
  using rel_not_nested [OF assms] rel_nested [OF r, of True] rel_size_of_nat [OF rel_nested [OF r, of True]]
  by (simp add: start_table_def Let_def ab_start_table_def)

lemma rel_pre_align:
  assumes r: "fbb_rel f a" and n: "scalar_size k" and room: "8 + ab_used a < 2 ^ 31 - 1"
    and len: "len < 2 ^ 32"
  shows "\<exists>f'. pre_align (of_nat len) (of_nat k) f = Some f' \<and> fbb_rel f' (ab_pre_align len k a)"
proof (cases "len = 0")
  case True
  then show ?thesis using r by (simp add: pre_align_def ab_pre_align_def)
next
  case False
  have u: "unat (of_nat len :: size_t) = len"
    using len by (intro unat_of_nat_small) simp
  then have nz: "(of_nat len :: size_t) \<noteq> 0" using False by (metis unat_0)
  obtain j where j: "(of_nat k :: size_t) - 1 = mask j" "j \<le> 64" "k = 2 ^ j"
    using scalar_size_mask [OF n] .
  let ?f = "track_min_align (of_nat k) f" and ?a = "a\<lparr>ab_minalign := max (ab_minalign a) (of_nat k)\<rparr>"
  have r': "fbb_rel ?f ?a" by (rule rel_track_min_align [OF r])
  let ?n = "ucast (get_size ?f) + of_nat len :: size_t"
  have "unat (ucast (get_size ?f) :: size_t) = length (ab_data a)"
    using rel_size [OF r'] by simp
  moreover have "length (ab_data a) < 2 ^ 31" using room by (simp add: ab_used_def)
  ultimately have n': "unat ?n = length (ab_data a) + len"
    using u len by (simp add: unat_add_lem [THEN iffD1])
  let ?p = "padding_bytes ?n (of_nat k)"
  have p: "unat ?p = pad_to (length (ab_data a) + len) k"
    using padding_bytes_pad_to [OF j(1,2), of ?n] n' j(3) by simp
  have "pad_to (length (ab_data a) + len) k < 9"
    using pad_to_le [of k "length (ab_data a) + len"] n by (auto simp: scalar_size_def)
  then have "unat ?p + ab_used ?a < 2 ^ 31 - 1"
    using p room by (simp add: ab_used_def)
  from rel_fill [OF r' this]
  have "\<exists>f'. on_buf (vd_fill ?p) ?f = Some f' \<and>
      fbb_rel f' (?a\<lparr>ab_data := replicate (unat ?p) 0 @ ab_data ?a\<rparr>)" .
  moreover have "pre_align (of_nat len) (of_nat k) f = on_buf (vd_fill ?p) ?f"
    using nz by (simp add: pre_align_def Let_def)
  moreover have "ab_pre_align len k a = ?a\<lparr>ab_data := replicate (unat ?p) 0 @ ab_data ?a\<rparr>"
    unfolding p using False by (simp add: ab_pre_align_def)
  ultimately show ?thesis by (simp only:)
qed

lemma ab_pre_align_used: "0 < k \<Longrightarrow> k \<le> 8 \<Longrightarrow> ab_used (ab_pre_align n k a) \<le> 7 + ab_used a"
  using pad_to_le [of k "length (ab_data a) + n"] by (simp add: ab_used_def ab_pre_align_def)

lemma ab_push_used [simp]: "ab_used (ab_push bs a) = length bs + ab_used a"
  by (simp add: ab_push_def ab_used_def)

lemma rel_create_string:
  assumes r: "fbb_rel f a" and i: "ab_idle a" and room: "length str + 32 + ab_used a < 2 ^ 31 - 1"
  shows "\<exists>f'. create_string str f = Some (of_nat (length (ab_data (ab_create_string str a))), f') \<and>
    fbb_rel f' (ab_create_string str a)"
proof -
  have s4: "scalar_size 4" and s4': "scalar_size (length (u32_bytes x))" for x
    by (simp_all add: scalar_size_def)
  let ?a1 = "ab_pre_align (length str + 1) 4 a"
  obtain f1 where f1: "pre_align (of_nat (length str + 1)) (of_nat 4) f = Some f1" "fbb_rel f1 ?a1"
    using rel_pre_align [OF r s4, of "length str + 1"] room by auto
  have u: "ab_used ?a1 \<le> 7 + ab_used a" by (rule ab_pre_align_used) simp_all
  let ?a2 = "ab_push [0] ?a1"
  have "unat (1 :: size_t) + ab_used ?a1 < 2 ^ 31 - 1" using u room by simp
  from rel_fill [OF f1(2) this] obtain f2 where
    f2: "on_buf (vd_fill 1) f1 = Some f2" "fbb_rel f2 ?a2"
    by (auto simp: ab_push_def)
  let ?a3 = "ab_push str ?a2"
  have u2: "ab_used ?a2 \<le> 8 + ab_used a" using u by simp
  then obtain f3 where f3: "push_bytes str f2 = Some f3" "fbb_rel f3 ?a3"
    using rel_push [OF f2(2), of str] room by auto
  have "16 + ab_used ?a3 < 2 ^ 31 - 1" using u2 room by simp
  from rel_push_element [OF f3(2) s4' this] obtain f4 where
    f4: "push_element (u32_bytes (of_nat (length str))) f3 =
        Some (of_nat (length (ab_data (ab_create_string str a))), f4)"
      "fbb_rel f4 (ab_create_string str a)"
    unfolding ab_create_string_def by blast
  show ?thesis
    using rel_not_nested [OF r i] f1(1) f2(1) f3(1) f4 rel_size_of_nat [OF f4(2)]
    by (simp add: create_string_def add.commute)
qed

lemma rel_clear_scratch:
  assumes r: "fbb_rel f a" and "ab_locs a = []"
  shows "fbb_rel (f\<lparr>fbb_buf := vd_clear_scratch (fbb_buf f)\<rparr>) (a\<lparr>ab_vtables := []\<rparr>)"
  using assms by (auto simp: fbb_rel_def ab_pad_def vd_clear_scratch_def vd_inv_def vd_top_def vd_pad_def
      split: option.splits)

lemma rel_finish:
  assumes r: "fbb_rel f a" and i: "ab_idle a" and room: "48 + ab_used a < 2 ^ 31 - 1"
    and m: "scalar_size (unat (ab_minalign a))"
    and off: "0 < root" "root \<le> length (ab_data a)"
  shows "\<exists>f'. fbb_finish (of_nat root) f = Some f' \<and> fbb_rel f' (ab_finish root a)"
proof -
  let ?a0 = "a\<lparr>ab_vtables := []\<rparr>" and ?k = "unat (ab_minalign a)"
  let ?f0 = "f\<lparr>fbb_buf := vd_clear_scratch (fbb_buf f)\<rparr>"
  have r0: "fbb_rel ?f0 ?a0"
    using rel_clear_scratch [OF r] i by (simp add: ab_idle_def)
  have u0: "ab_used ?a0 \<le> ab_used a" by (simp add: ab_used_def)
  let ?a1 = "ab_pre_align 4 ?k ?a0"
  obtain f1 where f1: "pre_align (of_nat 4) (of_nat ?k) ?f0 = Some f1" "fbb_rel f1 ?a1"
    using rel_pre_align [OF r0 m, of 4] room u0 by auto
  have k: "0 < ?k" "?k \<le> 8" using m by (auto simp: scalar_size_def)
  have u1: "ab_used ?a1 \<le> 7 + ab_used a"
    using ab_pre_align_used [OF k, of 4 ?a0] u0 by linarith
  have "root \<le> length (ab_data ?a1)" using off by (simp add: ab_pre_align_def)
  with f1(2) off(1) u1 room obtain f2 where f2: "push_offset (of_nat root) f1 =
      Some (of_nat (length (ab_data (ab_element (ab_offset root ?a1) (ab_align 4 ?a1)))), f2)"
      "fbb_rel f2 (ab_element (ab_offset root ?a1) (ab_align 4 ?a1))"
    using rel_push_offset [of f1 ?a1 root] by auto
  have "ab_minalign a = fbb_minalign f" using r by (simp add: fbb_rel_def)
  then show ?thesis
    using rel_not_nested [OF r i] f1(1) f2(1) rel_finished [OF f2(2), of True]
    by (auto simp: fbb_finish_def finish_buffer_def push_offset_def ab_finish_def Let_def split: bind_splits)
qed

end
