(* ===== verification/Fb_Message_Spec.thy ===== *)
theory Fb_Message_Spec
  imports Fb_Builder_Finish
begin

text \<open>
  The tables that the generated builders write, on the specification of the builder: a table
  without fields, with one scalar field, with two offsets, and the \<open>Packet\<close> with its union.
  The lemmas give the bytes of each and that the sequences of calls on \<open>FlatBufferBuilder\<close>
  produce them.
\<close>

section \<open>Ending a table with a new vtable\<close>

definition ab_wf :: "abs_builder \<Rightarrow> bool" where
  "ab_wf a \<longleftrightarrow> ab_idle a \<and> ab_max a = 0 \<and> (\<forall>x \<in> set (ab_vtables a). vt_ok (ab_data a) x)"

definition ab_table_loc :: "abs_builder \<Rightarrow> nat" where
  "ab_table_loc a = length (ab_data a) + pad_to (length (ab_data a)) 4 + 4"

lemma ab_element_zero [simp]:
  "ab_data (ab_element (u32_bytes 0) a) =
     u32_bytes 0 @ replicate (pad_to (length (ab_data a)) 4) 0 @ ab_data a"
  by (simp add: ab_element_def ab_push_def ab_align_def)

lemma length_ab_element_zero [simp]:
  "length (ab_data (ab_element (u32_bytes 0) a)) = ab_table_loc a"
  by (simp add: ab_table_loc_def)

lemma ab_end_table_new:
  assumes "vt = ab_vtable start (ab_table_loc a) a"
    and "ab_find vt (vt @ ab_data (ab_element (u32_bytes 0) a)) (ab_vtables a) = None"
  shows "ab_end_table start a = a\<lparr>
     ab_data := vt @ u32_bytes (of_nat (length vt)) @
       replicate (pad_to (length (ab_data a)) 4) 0 @ ab_data a,
     ab_vtables := ab_vtables a @ [of_nat (ab_table_loc a + length vt)],
     ab_locs := [], ab_max := 0, ab_nested := False, ab_minalign := max (ab_minalign a) 4\<rparr>"
  using assms
  by (simp add: ab_end_table_def Let_def ab_element_def ab_push_def ab_align_def ab_table_loc_def
      add.commute add.left_commute)


lemma replicate_numeral: "replicate (numeral k) x = x # replicate (pred_numeral k) x"
  by (simp only: numeral_eq_Suc replicate.simps)

section \<open>Padding\<close>

lemma pad_to_mod: "0 < k \<Longrightarrow> (n + pad_to n k) mod k = 0"
proof (cases "n mod k = 0")
  case False
  assume "0 < k"
  then have "n mod k < k" by simp
  with False have "pad_to n k = k - n mod k" by (simp add: pad_to_def)
  moreover have "n + (k - n mod k) = k * (n div k) + k"
    using \<open>n mod k < k\<close> by (metis add.assoc add_diff_inverse_nat div_mult_mod_eq less_imp_le_nat mult.commute not_le)
  ultimately show ?thesis by simp
qed (simp add: pad_to_def)

lemma pad_to_aligned: "n mod k = 0 \<Longrightarrow> pad_to n k = 0"
  by (simp add: pad_to_def)

lemma pad_to_done [simp]: "0 < k \<Longrightarrow> pad_to (n + pad_to n k) k = 0"
  by (simp add: pad_to_aligned pad_to_mod)

lemma pad_to_one [simp]: "pad_to n 1 = 0" "pad_to n (Suc 0) = 0"
  by (simp_all add: pad_to_def)

lemma pad_to_4_plus:
  assumes "n mod 4 = 0"
  shows "pad_to (n + 4 + 1) 4 = 3" and "pad_to (n + 4) 4 = 0"
proof -
  have "(n + 4 + 1) mod 4 = 1" "(n + 4) mod 4 = 0" using assms by presburger+
  then show "pad_to (n + 4 + 1) 4 = 3" "pad_to (n + 4) 4 = 0" by (simp_all add: pad_to_def)
qed

section \<open>A packet with its union\<close>

definition ab_packet_fields :: "byte \<Rightarrow> nat \<Rightarrow> abs_builder \<Rightarrow> abs_builder" where
  "ab_packet_fields ty off a =
     ab_add_element 4 [ty] [0] (ab_add_offset 6 off (ab_start_table a))"

definition ab_packet :: "byte \<Rightarrow> nat \<Rightarrow> abs_builder \<Rightarrow> abs_builder" where
  "ab_packet ty off a = ab_end_table (length (ab_data a)) (ab_packet_fields ty off a)"

lemma max_4_again [simp]: "max (max x 4) 4 = max x (4 :: size_t)" "max (max x 4) 1 = max x (4 :: size_t)"
    "max (max x 4) 2 = max x (4 :: size_t)"
  by (cases "x \<le> 4"; auto simp: max_def word_le_nat_alt)+

lemma ab_element_4:
  assumes "length bs = 4" and "length (ab_data a) mod 4 = 0"
  shows "ab_element bs a = a\<lparr>ab_data := bs @ ab_data a, ab_minalign := max (ab_minalign a) 4\<rparr>"
  using assms by (simp add: ab_element_def ab_align_def ab_push_def pad_to_aligned)

lemma ab_element_1:
  "ab_element [b] a = a\<lparr>ab_data := b # ab_data a, ab_minalign := max (ab_minalign a) 1\<rparr>"
  by (simp add: ab_element_def ab_align_def ab_push_def)

lemma ab_add_offset_eq:
  assumes "0 < off" and "n = length (ab_data a) + pad_to (length (ab_data a)) 4"
  shows "ab_add_offset field off a = a\<lparr>
    ab_data := u32_bytes (of_nat (n - off + 4)) @ replicate (pad_to (length (ab_data a)) 4) 0 @ ab_data a,
    ab_locs := ab_locs a @ [(of_nat (n + 4), field)],
    ab_max := max (ab_max a) field, ab_minalign := max (ab_minalign a) 4\<rparr>"
proof -
  have "length (ab_data (ab_align 4 a)) mod 4 = 0"
    using pad_to_mod [of 4 "length (ab_data a)"] by (simp add: ab_align_def add.commute)
  then have "ab_element (ab_offset off a) (ab_align 4 a) = a\<lparr>
      ab_data := ab_offset off a @ replicate (pad_to (length (ab_data a)) 4) 0 @ ab_data a,
      ab_minalign := max (ab_minalign a) 4\<rparr>"
    by (simp add: ab_element_4 ab_offset_def ab_align_def)
  then show ?thesis
    using assms by (simp add: ab_add_offset_def ab_track_def ab_offset_def ab_align_def add.commute)
qed

lemma ab_packet_fields_eq:
  assumes "0 < off" and "ty \<noteq> 0" and "ab_idle a" and "ab_max a = 0"
    and "n = length (ab_data a) + pad_to (length (ab_data a)) 4"
  shows "ab_packet_fields ty off a = a\<lparr>ab_nested := True,
    ab_data := [ty] @ u32_bytes (of_nat (n - off + 4)) @
      replicate (pad_to (length (ab_data a)) 4) 0 @ ab_data a,
    ab_locs := [(of_nat (n + 4), 6), (of_nat (n + 4 + 1), 4)],
    ab_max := 6, ab_minalign := max (ab_minalign a) 4\<rparr>"
proof -
  have "ab_add_offset 6 off (ab_start_table a) = a\<lparr>ab_nested := True,
    ab_data := u32_bytes (of_nat (n - off + 4)) @
      replicate (pad_to (length (ab_data a)) 4) 0 @ ab_data a,
    ab_locs := [(of_nat (n + 4), 6)], ab_max := 6, ab_minalign := max (ab_minalign a) 4\<rparr>"
    using assms ab_add_offset_eq [of off n "ab_start_table a" 6]
    by (simp add: ab_start_table_def ab_idle_def)
  moreover have "\<not> (6 :: voffset_t) \<le> 4" by (simp add: word_le_nat_alt)
  ultimately show ?thesis
    using assms(2,5)
    by (simp add: ab_packet_fields_def ab_add_element_def ab_element_1 ab_track_def add.commute)
qed

definition packet_vtable :: "nat \<Rightarrow> byte list" where
  "packet_vtable p = [8, 0] @ le_bytes 2 (p + 12) @ [7, 0, 8, 0]"

lemma length_packet_vtable [simp]: "length (packet_vtable p) = 8"
  by (simp add: packet_vtable_def)

lemma ab_packet_vtable:
  assumes "ab_locs b = [(of_nat (m + 4), 6), (of_nat (m + 4 + 1), 4)]" and "ab_max b = 6"
    and "m + 12 - start = p + 12"
  shows "ab_vtable start (m + 12) b = packet_vtable p"
proof -
  have n: "unat (max (6 + 2 :: voffset_t) 4) = 8"
    by (simp add: unat_max_word)
  have w: "ucast (of_nat (m + 12) - of_nat (m + 4) :: u32) = (8 :: voffset_t)"
    "ucast (of_nat (m + 12) - of_nat (m + 4 + 1) :: u32) = (7 :: voffset_t)"
    by simp_all
  obtain x y where xy: "le_bytes 2 (p + 12) = [x, y]"
    by (simp add: le_bytes_numeral)
  show ?thesis
    unfolding ab_vtable_def Let_def assms n packet_vtable_def xy ab_write_fields.simps w
    by (simp add: le_bytes_numeral replicate_numeral)
qed

lemma ab_packet_eq:
  fixes a off ty
  defines "p \<equiv> pad_to (length (ab_data a)) 4"
  defines "d \<equiv> [0, 0, 0, ty] @ u32_bytes (of_nat (length (ab_data a) + p - off + 4)) @
    replicate p 0 @ ab_data a"
  assumes "0 < off" and "ty \<noteq> 0" and "ab_idle a" and "ab_max a = 0"
    and "ab_find (packet_vtable p) (packet_vtable p @ u32_bytes 0 @ d) (ab_vtables a) = None"
  shows "ab_packet ty off a = a\<lparr>ab_data := packet_vtable p @ u32_bytes 8 @ d,
    ab_vtables := ab_vtables a @ [of_nat (length d + 12)],
    ab_minalign := max (ab_minalign a) 4\<rparr>"
proof -
  let ?n = "length (ab_data a) + p"
  have n4: "?n mod 4 = 0" unfolding p_def by (rule pad_to_mod) simp
  let ?b = "ab_packet_fields ty off a"
  note b = ab_packet_fields_eq [OF assms(3-6), of ?n, folded p_def, OF refl]
  have lb: "length (ab_data ?b) = ?n + 4 + 1" by (simp add: b)
  then have loc: "ab_table_loc ?b = ?n + 12"
    using pad_to_4_plus(1) [OF n4] by (simp add: ab_table_loc_def)
  have "ab_vtable (length (ab_data a)) (?n + 12) ?b = packet_vtable p"
    by (rule ab_packet_vtable) (simp_all add: b)
  then have vt: "packet_vtable p = ab_vtable (length (ab_data a)) (ab_table_loc ?b) ?b"
    by (simp add: loc)
  have d: "replicate (pad_to (length (ab_data ?b)) 4) 0 @ ab_data ?b = d"
    unfolding lb pad_to_4_plus(1) [OF n4] by (simp add: b d_def numeral_eq_Suc)
  have ld: "length d = ?n + 8" by (simp add: d_def)
  have "ab_find (packet_vtable p) (packet_vtable p @ ab_data (ab_element (u32_bytes 0) ?b))
      (ab_vtables ?b) = None"
    using assms(7) by (simp only: ab_element_zero d) (simp add: b)
  from ab_end_table_new [OF vt this] have
    "ab_packet ty off a = ?b\<lparr>ab_data := packet_vtable p @ u32_bytes 8 @ d,
     ab_vtables := ab_vtables ?b @ [of_nat (?n + 12 + 8)],
     ab_locs := [], ab_max := 0, ab_nested := False, ab_minalign := max (ab_minalign ?b) 4\<rparr>"
    unfolding ab_packet_def d loc by simp
  moreover have "a\<lparr>ab_data := x, ab_vtables := v, ab_locs := [], ab_max := 0, ab_nested := False,
      ab_minalign := m\<rparr> = a\<lparr>ab_data := x, ab_vtables := v, ab_minalign := m\<rparr>" for x v m
    using assms(5,6) by (intro abs_builder.equality) (simp_all add: ab_idle_def)
  ultimately show ?thesis by (simp add: b ld)
qed

section \<open>The builder writes these tables\<close>

definition write_packet :: "byte \<Rightarrow> uoffset_t \<Rightarrow> fb_builder \<Rightarrow> (uoffset_t \<times> fb_builder) option" where
  "write_packet ty off f = do {
     (start, f) \<leftarrow> start_table f;
     f \<leftarrow> add_offset 6 off f;
     f \<leftarrow> add_element 4 [ty] [0] f;
     end_table start f
   }"

lemma wf_vtables_extend:
  "ab_wf a \<Longrightarrow> ab_vtables b = ab_vtables a \<Longrightarrow> ab_data b = bs @ ab_data a \<Longrightarrow>
   \<forall>x \<in> set (ab_vtables b). vt_ok (ab_data b) x"
  by (simp add: ab_wf_def vt_ok_extend)

lemma ab_used_start [simp]: "ab_used (ab_start_table a) = ab_used a"
  by (simp add: ab_used_def ab_start_table_def)

lemma ab_add_offset_used:
  assumes "0 < off"
  shows "ab_used (ab_add_offset field off a) \<le> 16 + ab_used a"
proof -
  have "pad_to (length (ab_data a)) 4 < 4" by (rule pad_to_le) simp
  then show ?thesis
    using ab_add_offset_eq [OF assms, of _ a field] by (simp add: ab_used_def)
qed

lemma rel_write_packet:
  assumes r: "fbb_rel f a" and w: "ab_wf a" and room: "2 ^ 17 + 100 + ab_used a < 2 ^ 31 - 1"
    and off: "0 < off" "off \<le> length (ab_data a)" and ty: "ty \<noteq> 0"
  shows "\<exists>f'. write_packet ty (of_nat off) f =
      Some (of_nat (length (ab_data a) + pad_to (length (ab_data a)) 4 + 12), f') \<and>
    fbb_rel f' (ab_packet ty off a)"
proof -
  let ?n = "length (ab_data a)" and ?p = "pad_to (length (ab_data a)) 4"
  have idle: "ab_idle a" and mx: "ab_max a = 0" using w by (simp_all add: ab_wf_def)
  obtain f1 where f1: "start_table f = Some (of_nat ?n, f1)" "fbb_rel f1 (ab_start_table a)"
    using rel_start_table [OF r idle] by blast
  obtain f2 where f2: "add_offset 6 (of_nat off) f1 = Some f2"
      "fbb_rel f2 (ab_add_offset 6 off (ab_start_table a))"
    using rel_add_offset [OF f1(2), of off 6] off room by (auto simp: ab_start_table_def ab_used_def)
  have "24 + ab_used (ab_add_offset 6 off (ab_start_table a)) < 2 ^ 31 - 1"
    using ab_add_offset_used [OF off(1), of 6 "ab_start_table a"] room by simp
  then obtain f3 where f3: "add_element 4 [ty] [0] f2 = Some f3" "fbb_rel f3 (ab_packet_fields ty off a)"
    using rel_add_element [OF f2(2), of "[ty]" 4 "[0]"] by (auto simp: scalar_size_def ab_packet_fields_def)
  let ?b = "ab_packet_fields ty off a"
  note b = ab_packet_fields_eq [OF off(1) ty idle mx refl]
  have p4: "?p < 4" by (rule pad_to_le) simp
  have n4: "(?n + ?p) mod 4 = 0" by (rule pad_to_mod) simp
  have "ab_data ?b = ([ty] @ u32_bytes (of_nat (?n + ?p - off + 4)) @ replicate ?p 0) @ ab_data a"
    by (simp add: b)
  then have "\<forall>x \<in> set (ab_vtables ?b). vt_ok (ab_data ?b) x"
    by (rule wf_vtables_extend [OF w, rotated]) (simp add: b)
  moreover have "ab_used ?b \<le> ab_used a + 24"
    using p4 by (simp add: b ab_used_def)
  moreover have "unat (max (6 + 2 :: voffset_t) 4) = 8"
    by (simp add: unat_max_word)
  ultimately have "ab_table_ok ?n ?b"
    using p4 room by (simp add: ab_table_ok_def b locs_ok_def)
  from rel_end_table [OF f3(2) this, unfolded length_ab_element_zero] obtain f4 where f4:
    "end_table (of_nat ?n) f3 = Some (of_nat (ab_table_loc ?b), f4)" "fbb_rel f4 (ab_packet ty off a)"
    unfolding ab_packet_def by blast
  have "length (ab_data ?b) = ?n + ?p + 4 + 1" by (simp add: b)
  then have "ab_table_loc ?b = ?n + ?p + 12"
    using pad_to_4_plus(1) [OF n4] by (simp add: ab_table_loc_def)
  then show ?thesis
    using f1(1) f2(1) f3(1) f4 by (simp add: write_packet_def)
qed

section \<open>A table with two offsets\<close>

definition ab_two_offsets :: "nat \<Rightarrow> nat \<Rightarrow> abs_builder \<Rightarrow> abs_builder" where
  "ab_two_offsets off4 off6 a = ab_end_table (length (ab_data a))
     (ab_add_offset 4 off4 (ab_add_offset 6 off6 (ab_start_table a)))"

definition write_two_offsets ::
  "uoffset_t \<Rightarrow> uoffset_t \<Rightarrow> fb_builder \<Rightarrow> (uoffset_t \<times> fb_builder) option" where
  "write_two_offsets off4 off6 f = do {
     (start, f) \<leftarrow> start_table f;
     f \<leftarrow> add_offset 6 off6 f;
     f \<leftarrow> add_offset 4 off4 f;
     end_table start f
   }"

lemma ab_two_offsets_fields:
  assumes "0 < off4" and "0 < off6" and "ab_idle a" and "ab_max a = 0"
    and n: "n = length (ab_data a)" "n mod 4 = 0"
  shows "ab_add_offset 4 off4 (ab_add_offset 6 off6 (ab_start_table a)) = a\<lparr>ab_nested := True,
    ab_data := u32_bytes (of_nat (n + 4 - off4 + 4)) @ u32_bytes (of_nat (n - off6 + 4)) @ ab_data a,
    ab_locs := [(of_nat (n + 4), 6), (of_nat (n + 8), 4)],
    ab_max := 6, ab_minalign := max (ab_minalign a) 4\<rparr>"
proof -
  have p: "pad_to n 4 = 0" "pad_to (n + 4) 4 = 0"
    using n(2) pad_to_4_plus(2) [of n] by (simp_all add: pad_to_aligned)
  have "ab_add_offset 6 off6 (ab_start_table a) = a\<lparr>ab_nested := True,
    ab_data := u32_bytes (of_nat (n - off6 + 4)) @ ab_data a,
    ab_locs := [(of_nat (n + 4), 6)], ab_max := 6, ab_minalign := max (ab_minalign a) 4\<rparr>"
    using assms p ab_add_offset_eq [of off6 n "ab_start_table a" 6]
    by (simp add: ab_start_table_def ab_idle_def)
  moreover have "\<not> (6 :: voffset_t) \<le> 4" by (simp add: word_le_nat_alt)
  ultimately show ?thesis
    using assms p ab_add_offset_eq [of off4 "n + 4" "ab_add_offset 6 off6 (ab_start_table a)" 4]
    by (simp add: add.commute)
qed

lemma ab_two_offsets_vtable:
  assumes "ab_locs b = [(of_nat (n + 4), 6), (of_nat (n + 8), 4)]" and "ab_max b = 6"
  shows "ab_vtable n (n + 12) b = [8, 0, 12, 0, 4, 0, 8, 0]"
proof -
  have n: "unat (max (6 + 2 :: voffset_t) 4) = 8"
    by (simp add: unat_max_word)
  have w: "ucast (of_nat (n + 12) - of_nat (n + 4) :: u32) = (8 :: voffset_t)"
    "ucast (of_nat (n + 12) - of_nat (n + 8) :: u32) = (4 :: voffset_t)"
    by simp_all
  show ?thesis
    unfolding ab_vtable_def Let_def assms n ab_write_fields.simps w
    by (simp add: le_bytes_numeral replicate_numeral)
qed

lemma ab_two_offsets_eq:
  assumes "0 < off4" and "0 < off6" and "ab_idle a" and "ab_max a = 0" and "ab_vtables a = []"
    and n: "n = length (ab_data a)" "n mod 4 = 0"
  shows "ab_two_offsets off4 off6 a = a\<lparr>
    ab_data := [8, 0, 12, 0, 4, 0, 8, 0] @ u32_bytes 8 @ u32_bytes (of_nat (n + 4 - off4 + 4)) @
      u32_bytes (of_nat (n - off6 + 4)) @ ab_data a,
    ab_vtables := [of_nat (n + 20)], ab_minalign := max (ab_minalign a) 4\<rparr>"
proof -
  let ?b = "ab_add_offset 4 off4 (ab_add_offset 6 off6 (ab_start_table a))"
  note b = ab_two_offsets_fields [OF assms(1-4) n]
  have p: "pad_to (n + 8) 4 = 0" using n(2) by (intro pad_to_aligned) presburger
  have lb: "length (ab_data ?b) = n + 8" using n(1) by (simp add: b)
  then have loc: "ab_table_loc ?b = n + 12" using p by (simp add: ab_table_loc_def)
  have vt: "[8, 0, 12, 0, 4, 0, 8, 0] = ab_vtable n (ab_table_loc ?b) ?b"
    unfolding loc by (rule ab_two_offsets_vtable [symmetric]) (simp_all add: b)
  have "ab_find [8, 0, 12, 0, 4, 0, 8, 0]
      ([8, 0, 12, 0, 4, 0, 8, 0] @ ab_data (ab_element (u32_bytes 0) ?b)) (ab_vtables ?b) = None"
    using assms(5) by (simp add: b)
  from ab_end_table_new [OF vt this] have "ab_two_offsets off4 off6 a = ?b\<lparr>
     ab_data := [8, 0, 12, 0, 4, 0, 8, 0] @ u32_bytes 8 @ ab_data ?b,
     ab_vtables := ab_vtables ?b @ [of_nat (n + 20)],
     ab_locs := [], ab_max := 0, ab_nested := False, ab_minalign := max (ab_minalign ?b) 4\<rparr>"
    unfolding ab_two_offsets_def loc lb p n(1) [symmetric] by simp
  moreover have "a\<lparr>ab_data := x, ab_vtables := v, ab_locs := [], ab_max := 0, ab_nested := False,
      ab_minalign := m\<rparr> = a\<lparr>ab_data := x, ab_vtables := v, ab_minalign := m\<rparr>" for x v m
    using assms(3,4) by (intro abs_builder.equality) (simp_all add: ab_idle_def)
  ultimately show ?thesis by (simp add: b assms(5))
qed

lemma rel_write_two_offsets:
  assumes r: "fbb_rel f a" and w: "ab_wf a" and room: "2 ^ 17 + 100 + ab_used a < 2 ^ 31 - 1"
    and off4: "0 < off4" "off4 \<le> length (ab_data a)" and off6: "0 < off6" "off6 \<le> length (ab_data a)"
    and n4: "length (ab_data a) mod 4 = 0"
  shows "\<exists>f'. write_two_offsets (of_nat off4) (of_nat off6) f =
      Some (of_nat (length (ab_data a) + 12), f') \<and> fbb_rel f' (ab_two_offsets off4 off6 a)"
proof -
  let ?n = "length (ab_data a)"
  have idle: "ab_idle a" and mx: "ab_max a = 0" using w by (simp_all add: ab_wf_def)
  obtain f1 where f1: "start_table f = Some (of_nat ?n, f1)" "fbb_rel f1 (ab_start_table a)"
    using rel_start_table [OF r idle] by blast
  let ?a2 = "ab_add_offset 6 off6 (ab_start_table a)"
  obtain f2 where f2: "add_offset 6 (of_nat off6) f1 = Some f2" "fbb_rel f2 ?a2"
    using rel_add_offset [OF f1(2), of off6 6] off6 room by (auto simp: ab_start_table_def ab_used_def)
  have "off4 \<le> length (ab_data ?a2)"
    using ab_add_offset_eq [OF off6(1) refl, of 6 "ab_start_table a"] off4(2)
    by (simp add: ab_start_table_def)
  moreover have "40 + ab_used ?a2 < 2 ^ 31 - 1"
    using ab_add_offset_used [OF off6(1), of 6 "ab_start_table a"] room by simp
  ultimately obtain f3 where f3: "add_offset 4 (of_nat off4) f2 = Some f3"
      "fbb_rel f3 (ab_add_offset 4 off4 ?a2)"
    using rel_add_offset [OF f2(2), of off4 4] by auto
  let ?b = "ab_add_offset 4 off4 ?a2"
  note b = ab_two_offsets_fields [OF off4(1) off6(1) idle mx refl n4]
  have "ab_data ?b = (u32_bytes (of_nat (?n + 4 - off4 + 4)) @ u32_bytes (of_nat (?n - off6 + 4))) @ ab_data a"
    by (simp add: b)
  then have "\<forall>x \<in> set (ab_vtables ?b). vt_ok (ab_data ?b) x"
    by (rule wf_vtables_extend [OF w, rotated]) (simp add: b)
  moreover have "ab_used ?b \<le> ab_used a + 24"
    by (simp add: b ab_used_def)
  moreover have "unat (max (6 + 2 :: voffset_t) 4) = 8"
    by (simp add: unat_max_word)
  ultimately have "ab_table_ok ?n ?b"
    using room by (simp add: ab_table_ok_def b locs_ok_def)
  from rel_end_table [OF f3(2) this, unfolded length_ab_element_zero] obtain f4 where f4:
    "end_table (of_nat ?n) f3 = Some (of_nat (ab_table_loc ?b), f4)"
    "fbb_rel f4 (ab_two_offsets off4 off6 a)"
    unfolding ab_two_offsets_def by blast
  have "pad_to (?n + 8) 4 = 0" using n4 by (intro pad_to_aligned) presburger
  then have "ab_table_loc ?b = ?n + 12"
    by (simp add: b ab_table_loc_def add.commute [of 8])
  then show ?thesis
    using f1(1) f2(1) f3(1) f4 by (simp add: write_two_offsets_def)
qed

section \<open>The first table of a buffer: at most one scalar\<close>

definition ab_scalar_table :: "byte list \<Rightarrow> byte list \<Rightarrow> abs_builder" where
  "ab_scalar_table e d = ab_end_table 0 (ab_add_element 4 e d (ab_start_table ab_new))"

definition write_scalar_table ::
  "byte list \<Rightarrow> byte list \<Rightarrow> fb_builder \<Rightarrow> (uoffset_t \<times> fb_builder) option" where
  "write_scalar_table e d f = do {
     (start, f) \<leftarrow> start_table f;
     f \<leftarrow> add_element 4 e d f;
     end_table start f
   }"

lemma ab_new_sel [simp]:
  "ab_data ab_new = []" "ab_vtables ab_new = []" "ab_locs ab_new = []" "ab_max ab_new = 0"
  "\<not> ab_nested ab_new" "\<not> ab_finished ab_new" "ab_minalign ab_new = 1"
  by (simp_all add: ab_new_def)

lemma pad_to_small: "pad_to 0 k = 0" "pad_to 2 4 = 2" "pad_to 4 4 = 0"
  by (simp_all add: pad_to_def)

lemma ab_scalar_table_default:
  "ab_scalar_table e e = ab_new\<lparr>ab_data := [4, 0, 4, 0] @ u32_bytes 4, ab_vtables := [8],
     ab_minalign := 4\<rparr>"
proof -
  have loc: "ab_table_loc (ab_start_table ab_new) = 4"
    by (simp add: ab_table_loc_def ab_start_table_def ab_new_def pad_to_small)
  have "ab_vtable 0 4 (ab_start_table ab_new) = [4, 0, 4, 0]"
    by (simp add: ab_vtable_def ab_start_table_def ab_new_def unat_max_word le_bytes_numeral)
  then have "[4, 0, 4, 0] = ab_vtable 0 (ab_table_loc (ab_start_table ab_new)) (ab_start_table ab_new)"
    by (simp only: loc)
  from ab_end_table_new [OF this] show ?thesis
    by (simp add: ab_scalar_table_def ab_add_element_def loc)
      (simp add: ab_start_table_def ab_new_def pad_to_small max_def word_le_nat_alt)
qed

lemma ab_scalar_fields:
  assumes "length e = k" and "k \<in> {2, 4}" and "e \<noteq> d"
  shows "ab_add_element 4 e d (ab_start_table ab_new) = ab_new\<lparr>ab_nested := True, ab_data := e,
    ab_locs := [(of_nat k, 4)], ab_max := 4, ab_minalign := of_nat k\<rparr>"
proof -
  have m: "max (0 :: voffset_t) 4 = 4" "max (1 :: size_t) 4 = 4" "max (1 :: size_t) 2 = 2"
    by (simp_all add: max_def word_le_nat_alt)
  show ?thesis
    using assms by (auto simp: ab_add_element_def ab_start_table_def ab_new_def ab_track_def ab_element_def
        ab_push_def ab_align_def pad_to_small m)
qed

lemma ab_scalar_table_eq:
  assumes "length e = k" and "k \<in> {2, 4}" and "e \<noteq> d"
  shows "ab_scalar_table e d = ab_new\<lparr>
    ab_data := [6, 0, 8, 0, of_nat (8 - k), 0] @ u32_bytes 6 @ replicate (4 - k) 0 @ e,
    ab_vtables := [14], ab_minalign := 4\<rparr>"
proof -
  let ?b = "ab_add_element 4 e d (ab_start_table ab_new)"
  note b = ab_scalar_fields [OF assms]
  have p: "pad_to (length (ab_data ?b)) 4 = 4 - k"
    using assms by (auto simp: b pad_to_small)
  have loc: "ab_table_loc ?b = 8"
    using assms(1,2) p by (auto simp: b ab_table_loc_def pad_to_small)
  have n: "unat (max (4 + 2 :: voffset_t) 4) = 6" by (simp add: unat_max_word)
  have "ucast (of_nat 8 - of_nat k :: u32) = (of_nat (8 - k) :: voffset_t)"
    using assms(2) by auto
  then have "ab_vtable 0 8 ?b = [6, 0, 8, 0, of_nat (8 - k), 0]"
    using assms(2) n
    by (auto simp: ab_vtable_def b le_bytes_numeral replicate_numeral)
  then have "[6, 0, 8, 0, of_nat (8 - k), 0] = ab_vtable 0 (ab_table_loc ?b) ?b"
    by (simp only: loc)
  from ab_end_table_new [OF this] have "ab_scalar_table e d = ?b\<lparr>
     ab_data := [6, 0, 8, 0, of_nat (8 - k), 0] @ u32_bytes 6 @ replicate (4 - k) 0 @ ab_data ?b,
     ab_vtables := ab_vtables ?b @ [14],
     ab_locs := [], ab_max := 0, ab_nested := False, ab_minalign := max (ab_minalign ?b) 4\<rparr>"
    unfolding ab_scalar_table_def loc p by (simp add: b)
  moreover have "max (of_nat k) 4 = (4 :: size_t)"
    using assms(2) by (auto simp: max_def word_le_nat_alt)
  ultimately show ?thesis by (intro abs_builder.equality) (simp_all add: b)
qed

lemma rel_write_scalar_table:
  assumes "length e = k" and "k \<in> {2, 4}"
  shows "\<exists>f'. write_scalar_table e d default_builder =
      Some (if e = d then 4 else 8, f') \<and> fbb_rel f' (ab_scalar_table e d)"
proof -
  have idle: "ab_idle ab_new" by (simp add: ab_idle_def ab_new_def)
  obtain f1 where f1: "start_table default_builder = Some (of_nat 0, f1)" "fbb_rel f1 (ab_start_table ab_new)"
    using rel_start_table [OF rel_new idle] by (auto simp: ab_new_def)
  let ?b = "ab_add_element 4 e d (ab_start_table ab_new)"
  have "24 + ab_used (ab_start_table ab_new) < 2 ^ 31 - 1"
    by (simp add: ab_used_def ab_start_table_def ab_new_def)
  then obtain f2 where f2: "add_element 4 e d f1 = Some f2" "fbb_rel f2 ?b"
    using rel_add_element [OF f1(2), of e 4 d] assms by (auto simp: scalar_size_def)
  have "ab_table_ok 0 ?b \<and> ab_table_loc ?b = (if e = d then 4 else 8)"
  proof (cases "e = d")
    case True
    then show ?thesis
      by (simp add: ab_table_ok_def ab_add_element_def ab_start_table_def ab_new_def locs_ok_def ab_used_def
          ab_table_loc_def pad_to_small)
  next
    case False
    have n: "unat (max (4 + 2 :: voffset_t) 4) = 6" by (simp add: unat_max_word)
    show ?thesis
      using assms False n
      by (auto simp: ab_scalar_fields [OF assms False] ab_table_ok_def locs_ok_def ab_used_def
          ab_table_loc_def pad_to_small)
  qed
  then show ?thesis
    using rel_end_table [OF f2(2), of 0, unfolded length_ab_element_zero] f1(1) f2(1)
    by (auto simp: write_scalar_table_def ab_scalar_table_def)
qed

section \<open>Finished buffers\<close>

lemma rel_contents:
  assumes r: "fbb_rel f a" and fin: "ab_finished a" and ne: "ab_data a \<noteq> []"
  shows "fbb_contents f = Some (ab_data a)"
proof -
  have i: "vd_inv (fbb_buf f)" and t: "vd_top (fbb_buf f) = map Some (ab_data a)" and "fbb_finished f"
    using r fin by (simp_all add: fbb_rel_def)
  moreover have "vd_read (length (ab_data a)) (vd_cur (fbb_buf f) + 0) (fbb_buf f) = Some (ab_data a)"
    by (rule vd_read_top [OF i]) (use t ne in simp_all)
  ultimately show ?thesis
    using rel_data_ptr(1) [OF r ne] rel_size [OF r]
    by (simp add: fbb_contents_def get_buffer_pointer_def fbb_check_finished_def)
qed

lemma ab_finish_eq:
  assumes "ab_minalign a = 4" and "length (ab_data a) mod 4 = 0"
  shows "ab_data (ab_finish root a) = u32_bytes (of_nat (length (ab_data a) - root + 4)) @ ab_data a"
    and "ab_finished (ab_finish root a)"
proof -
  have p: "pad_to (length (ab_data a)) 4 = 0" "pad_to (length (ab_data a) + 4) 4 = 0"
    using assms(2) pad_to_4_plus(2) by (simp_all add: pad_to_aligned)
  then show "ab_data (ab_finish root a) = u32_bytes (of_nat (length (ab_data a) - root + 4)) @ ab_data a"
    using assms
    by (simp add: ab_finish_def ab_pre_align_def Let_def ab_offset_def ab_align_def ab_element_4)
  show "ab_finished (ab_finish root a)" by (simp add: ab_finish_def Let_def)
qed

lemma rel_finish_contents:
  assumes r: "fbb_rel f a" and i: "ab_idle a" and room: "48 + ab_used a < 2 ^ 31 - 1"
    and m: "ab_minalign a = 4" and n4: "length (ab_data a) mod 4 = 0"
    and off: "0 < root" "root \<le> length (ab_data a)"
  shows "do { f \<leftarrow> fbb_finish (of_nat root) f; fbb_contents f } =
    Some (u32_bytes (of_nat (length (ab_data a) - root + 4)) @ ab_data a)"
proof -
  have "scalar_size (unat (ab_minalign a))" using m by (simp add: scalar_size_def)
  then obtain f' where f': "fbb_finish (of_nat root) f = Some f'" "fbb_rel f' (ab_finish root a)"
    using rel_finish [OF r i room _ off] by blast
  have "ab_data (ab_finish root a) \<noteq> []" by (simp add: ab_finish_eq(1) [OF m n4] u32_bytes_def le_bytes_numeral)
  from rel_contents [OF f'(2) ab_finish_eq(2) [OF m n4] this] show ?thesis
    using f'(1) ab_finish_eq(1) [OF m n4] by simp
qed

text \<open>The message with a table of at most one scalar as its union.\<close>

definition scalar_message :: "byte \<Rightarrow> byte list \<Rightarrow> byte list \<Rightarrow> byte list" where
  "scalar_message ty e d = u32_bytes 12 @
     (if e = d
      then packet_vtable 0 @ u32_bytes 8 @ [0, 0, 0, ty] @ u32_bytes 8 @ [4, 0, 4, 0] @ u32_bytes 4
      else packet_vtable 2 @ u32_bytes 8 @ [0, 0, 0, ty] @ u32_bytes 12 @
        [0, 0, 6, 0, 8, 0, of_nat (8 - length e), 0] @ u32_bytes 6 @ replicate (4 - length e) 0 @ e)"

lemma length_scalar_message: "length e \<le> 4 \<Longrightarrow> length (scalar_message ty e d) \<le> 40"
  by (simp add: scalar_message_def)

lemma write_scalar_message:
  assumes "length e = k" and "k \<in> {2, 4}" and "ty \<noteq> 0"
  shows "do { (t, f) \<leftarrow> write_scalar_table e d default_builder;
              (p, f) \<leftarrow> write_packet ty t f;
              f \<leftarrow> fbb_finish p f;
              fbb_contents f } = Some (scalar_message ty e d)"
proof -
  let ?a = "ab_scalar_table e d" and ?t = "if e = d then 4 else 8 :: nat"
  let ?n = "if e = d then 8 else 14 :: nat" and ?p = "if e = d then 0 else 2 :: nat"
  have dt: "?a = ab_new\<lparr>ab_data := (if e = d then [4, 0, 4, 0] @ u32_bytes 4
        else [6, 0, 8, 0, of_nat (8 - k), 0] @ u32_bytes 6 @ replicate (4 - k) 0 @ e),
      ab_vtables := [of_nat ?n], ab_minalign := 4\<rparr>"
    using ab_scalar_table_default ab_scalar_table_eq [OF assms(1,2)] by simp
  have a: "length (ab_data ?a) = ?n" "ab_idle ?a" "ab_max ?a = 0" "ab_minalign ?a = 4"
      "ab_locs ?a = []" "ab_vtables ?a = [of_nat ?n]" "\<not> ab_nested ?a"
    using assms(1,2) dt by (auto simp: ab_idle_def)
  have pd: "pad_to ?n 4 = ?p" by (simp add: pad_to_def)
  have "vt_ok (ab_data ?a) (of_nat ?n)"
    using assms(1,2) by (auto simp: dt vt_ok_def)
  then have wf: "ab_wf ?a" using a by (simp add: ab_wf_def)
  obtain f1 where f1: "write_scalar_table e d default_builder = Some (of_nat ?t, f1)" "fbb_rel f1 ?a"
    using rel_write_scalar_table [OF assms(1,2), of d] by auto
  have room: "2 ^ 17 + 100 + ab_used ?a < 2 ^ 31 - 1" by (simp add: ab_used_def a)
  have t: "0 < ?t" "?t \<le> length (ab_data ?a)" by (simp_all add: a)
  obtain f2 where f2: "write_packet ty (of_nat ?t) f1 = Some (of_nat (?n + ?p + 12), f2)"
      "fbb_rel f2 (ab_packet ty ?t ?a)"
    using rel_write_packet [OF f1(2) wf room t assms(3)] unfolding a(1) pd by blast
  let ?d = "[0, 0, 0, ty] @ u32_bytes (of_nat (?n + ?p - ?t + 4)) @ replicate ?p 0 @ ab_data ?a"
  have "ab_find (packet_vtable ?p) (packet_vtable ?p @ u32_bytes 0 @ ?d) (ab_vtables ?a) = None"
    using assms(1,2) by (auto simp: dt packet_vtable_def)
  from ab_packet_eq [of ?t ty ?a, OF _ assms(3) a(2,3), unfolded a(1) pd, OF _ this]
  have b: "ab_packet ty ?t ?a = ?a\<lparr>ab_data := packet_vtable ?p @ u32_bytes 8 @ ?d,
      ab_vtables := ab_vtables ?a @ [of_nat (length ?d + 12)], ab_minalign := max (ab_minalign ?a) 4\<rparr>"
    by simp
  have pb: "ab_data (ab_packet ty ?t ?a) = packet_vtable ?p @ u32_bytes 8 @ ?d"
    by (simp add: b)
  have da: "ab_data ?a = (if e = d then [4, 0, 4, 0] @ u32_bytes 4
      else [6, 0, 8, 0, of_nat (8 - k), 0] @ u32_bytes 6 @ replicate (4 - k) 0 @ e)"
    by (simp add: dt)
  have "do { f \<leftarrow> fbb_finish (of_nat (?n + ?p + 12)) f2; fbb_contents f } =
      Some (u32_bytes (of_nat (length (ab_data (ab_packet ty ?t ?a)) - (?n + ?p + 12) + 4)) @
        ab_data (ab_packet ty ?t ?a))"
    by (rule rel_finish_contents [OF f2(2)]) (simp_all add: b a ab_idle_def ab_used_def)
  moreover have "\<dots> = Some (scalar_message ty e d)"
    using assms(1,2) unfolding pb by (auto simp: da scalar_message_def replicate_numeral)
  ultimately show ?thesis using f1(1) f2(1) by simp
qed

section \<open>The message with a table of two strings\<close>

definition string_bytes :: "byte list \<Rightarrow> byte list" where
  "string_bytes s = u32_bytes (of_nat (length s)) @ s @ [0] @ replicate (pad_to (length s + 1) 4) 0"

lemma string_bytes_mod: "length (string_bytes s) mod 4 = 0"
proof -
  have "(length s + 1 + pad_to (length s + 1) 4) mod 4 = 0" by (rule pad_to_mod) simp
  moreover have "length (string_bytes s) = 4 + (length s + 1 + pad_to (length s + 1) 4)"
    by (simp add: string_bytes_def)
  ultimately show ?thesis by presburger
qed

lemma length_string_bytes: "length s + 5 \<le> length (string_bytes s)" "length (string_bytes s) \<le> length s + 8"
  using pad_to_le [of 4 "length s + 1"] by (simp_all add: string_bytes_def)

lemma ab_create_string_eq:
  assumes "length (ab_data a) mod 4 = 0"
  shows "ab_create_string s a = a\<lparr>ab_data := string_bytes s @ ab_data a, ab_minalign := max (ab_minalign a) 4\<rparr>"
proof -
  let ?n = "length (ab_data a)" and ?q = "pad_to (length s + 1) 4"
  obtain m where m: "?n = 4 * m" using assms by auto
  have p: "pad_to (?n + (length s + 1)) 4 = ?q"
    by (simp add: pad_to_def m)
  have "(length s + 1 + ?q) mod 4 = 0" by (rule pad_to_mod) simp
  then have "(length s + (1 + (?q + ?n))) mod 4 = 0" using assms by presburger
  then show ?thesis
    using p by (simp add: ab_create_string_def ab_pre_align_def ab_push_def ab_element_4 string_bytes_def)
qed

definition login_message :: "byte list \<Rightarrow> byte list \<Rightarrow> byte list" where
  "login_message s4 s6 = u32_bytes 12 @ packet_vtable 0 @ u32_bytes 8 @ [0, 0, 0, 1] @ u32_bytes 12 @
     [8, 0, 12, 0, 4, 0, 8, 0] @ u32_bytes 8 @ u32_bytes (of_nat (length (string_bytes s6) + 8)) @
     u32_bytes 4 @ string_bytes s6 @ string_bytes s4"

lemma length_login_message: "length (login_message s4 s6) \<le> length s4 + length s6 + 60"
  using length_string_bytes(2) [of s4] length_string_bytes(2) [of s6] by (simp add: login_message_def)

lemma write_login_message:
  assumes small: "length s4 + length s6 < 2 ^ 30"
  shows "do { (o4, f) \<leftarrow> create_string s4 default_builder;
              (o6, f) \<leftarrow> create_string s6 f;
              (t, f) \<leftarrow> write_two_offsets o4 o6 f;
              (p, f) \<leftarrow> write_packet 1 t f;
              f \<leftarrow> fbb_finish p f;
              fbb_contents f } = Some (login_message s4 s6)"
proof -
  let ?n4 = "length (string_bytes s4)" and ?n6 = "length (string_bytes s6)"
  let ?n = "?n6 + ?n4"
  have m: "?n4 mod 4 = 0" "?n6 mod 4 = 0" by (rule string_bytes_mod)+
  then have m': "?n mod 4 = 0" by presburger
  have l: "?n4 \<le> length s4 + 8" "?n6 \<le> length s6 + 8" "0 < ?n4" "0 < ?n6"
    using length_string_bytes [of s4] length_string_bytes [of s6] by linarith+
  have mx: "max 1 4 = (4 :: size_t)" by (simp add: max_def word_le_nat_alt)
  let ?a1 = "ab_new\<lparr>ab_data := string_bytes s4, ab_minalign := 4\<rparr>"
  let ?a2 = "ab_new\<lparr>ab_data := string_bytes s6 @ string_bytes s4, ab_minalign := 4\<rparr>"
  have i0: "ab_idle ab_new" and i1: "ab_idle ?a1" and i2: "ab_idle ?a2" and w2: "ab_wf ?a2"
    by (simp_all add: ab_idle_def ab_wf_def)
  have c: "ab_create_string s4 ab_new = ?a1" "ab_create_string s6 ?a1 = ?a2"
    using m by (simp_all add: ab_create_string_eq mx)
  have "length s4 + 32 + ab_used ab_new < 2 ^ 31 - 1"
    using small by (simp add: ab_used_def)
  from rel_create_string [OF rel_new i0 this, unfolded c] obtain f1 where
    f1: "create_string s4 default_builder = Some (of_nat ?n4, f1)" "fbb_rel f1 ?a1"
    by auto
  have "length s6 + 32 + ab_used ?a1 < 2 ^ 31 - 1"
    using small l by (simp add: ab_used_def)
  from rel_create_string [OF f1(2) i1 this, unfolded c] obtain f2 where
    f2: "create_string s6 f1 = Some (of_nat ?n, f2)" "fbb_rel f2 ?a2"
    by auto
  let ?a3 = "ab_two_offsets ?n4 ?n ?a2"
  have room2: "2 ^ 17 + 100 + ab_used ?a2 < 2 ^ 31 - 1"
    using small l by (simp add: ab_used_def)
  have l2: "length (ab_data ?a2) = ?n" and t2: "ab_max ?a2 = 0" "ab_vtables ?a2 = []" by simp_all
  have off2: "0 < ?n" "?n4 \<le> length (ab_data ?a2)" "?n \<le> length (ab_data ?a2)"
      "length (ab_data ?a2) mod 4 = 0"
    using l(3) m' unfolding l2 by simp_all
  obtain f3 where f3: "write_two_offsets (of_nat ?n4) (of_nat ?n) f2 = Some (of_nat (?n + 12), f3)"
      "fbb_rel f3 ?a3"
    using rel_write_two_offsets [OF f2(2) w2 room2 l(3) off2(2) off2(1) off2(3,4)] unfolding l2 by blast
  have "?n + 4 - ?n4 + 4 = ?n6 + 8" "?n - ?n + 4 = 4" by simp_all
  with ab_two_offsets_eq [OF l(3) off2(1) i2 t2 l2 [symmetric] m']
  have a3: "?a3 = ab_new\<lparr>ab_data := [8, 0, 12, 0, 4, 0, 8, 0] @ u32_bytes 8 @
      u32_bytes (of_nat (?n6 + 8)) @ u32_bytes 4 @ string_bytes s6 @ string_bytes s4,
      ab_vtables := [of_nat (?n + 20)], ab_minalign := 4\<rparr>"
    by (simp only:) simp
  have u: "unat (of_nat (?n + 20) :: u32) = ?n + 20"
    using small l by (intro unat_of_nat_small) simp
  have "vt_ok (ab_data ?a3) (of_nat (?n + 20))"
    by (simp add: vt_ok_def u [simplified] a3)
  then have w3: "ab_wf ?a3" by (simp add: a3 ab_wf_def ab_idle_def)
  let ?pv = "packet_vtable 0"
  let ?d = "[0, 0, 0, 1] @ u32_bytes (of_nat (?n + 20 + 0 - (?n + 12) + 4)) @ replicate 0 0 @ ab_data ?a3"
  have l3: "length (ab_data ?a3) = ?n + 20" by (simp add: a3)
  have p3: "pad_to (?n + 20) 4 = 0"
    using m' by (intro pad_to_aligned) presburger
  have room3: "2 ^ 17 + 100 + ab_used ?a3 < 2 ^ 31 - 1"
    using small l by (simp add: ab_used_def a3)
  have off3: "0 < ?n + 12" "?n + 12 \<le> length (ab_data ?a3)" by (simp_all add: l3)
  have one: "(1 :: byte) \<noteq> 0" by simp
  obtain f4 where f4: "write_packet 1 (of_nat (?n + 12)) f3 = Some (of_nat (?n + 20 + 0 + 12), f4)"
      "fbb_rel f4 (ab_packet 1 (?n + 12) ?a3)"
    using rel_write_packet [OF f3(2) w3 room3 off3 one] unfolding l3 p3 by blast
  have i3: "ab_idle ?a3" "ab_max ?a3 = 0" using w3 by (simp_all add: ab_wf_def)
  have "ab_find ?pv (?pv @ u32_bytes 0 @ ?d) (ab_vtables ?a3) = None"
    by (simp add: a3 u [simplified] packet_vtable_def)
  from ab_packet_eq [OF off3(1) one i3, unfolded l3 p3, OF this]
  have b: "ab_packet 1 (?n + 12) ?a3 = ?a3\<lparr>ab_data := ?pv @ u32_bytes 8 @ ?d,
      ab_vtables := ab_vtables ?a3 @ [of_nat (length ?d + 12)],
      ab_minalign := max (ab_minalign ?a3) 4\<rparr>"
    by simp
  have b4: "ab_packet 1 (?n + 12) ?a3 = ab_new\<lparr>ab_data := ?pv @ u32_bytes 8 @ [0, 0, 0, 1] @ u32_bytes 12 @
        [8, 0, 12, 0, 4, 0, 8, 0] @ u32_bytes 8 @ u32_bytes (of_nat (?n6 + 8)) @ u32_bytes 4 @
        string_bytes s6 @ string_bytes s4,
      ab_vtables := [of_nat (?n + 20), of_nat (length ?d + 12)], ab_minalign := 4\<rparr>"
    unfolding b by (simp add: a3)
  have lb: "length (ab_data (ab_packet 1 (?n + 12) ?a3)) = ?n + 40"
    by (simp add: b4)
  have m40: "(?n + 40) mod 4 = 0" using m' by presburger
  have "do { f \<leftarrow> fbb_finish (of_nat (?n + 20 + 0 + 12)) f4; fbb_contents f } =
      Some (u32_bytes (of_nat (?n + 40 - (?n + 20 + 0 + 12) + 4)) @ ab_data (ab_packet 1 (?n + 12) ?a3))"
    unfolding lb [symmetric]
  proof (rule rel_finish_contents [OF f4(2)])
    show "length (ab_data (ab_packet 1 (?n + 12) ?a3)) mod 4 = 0" unfolding lb by (rule m40)
    show "48 + ab_used (ab_packet 1 (?n + 12) ?a3) < 2 ^ 31 - 1"
      using small l by (simp add: b4 ab_used_def)
  qed (simp_all add: b4 ab_idle_def)
  moreover have "\<dots> = Some (login_message s4 s6)"
    by (simp add: b4 login_message_def)
  ultimately show ?thesis using f1(1) f2(1) f3(1) f4(1) by simp
qed

end
