(* ===== verification/Fb_Verifier.thy ===== *)
theory Fb_Verifier
  imports Fb_Base
begin

text \<open>
  \<open>examples/flatbuffers/verifier.h\<close>: the class \<open>Verifier\<close>, which checks that the offsets of an
  untrusted buffer stay inside it before any accessor follows them.  The methods that count
  tables change the verifier; a check is a function from a verifier to ``undefined
  behaviour'' or its result and the verifier afterwards.  \<open>vall\<close> is the short-circuiting
  chain of \<open>&&\<close>.
\<close>

section \<open>State\<close>

record verifier_options =
  max_depth :: u32
  max_tables :: u32
  check_alignment :: bool
  check_nested_flatbuffers :: bool

record verifier =
  vf_buf :: "byte list"
  vf_size :: size_t
  vf_opts :: verifier_options
  vf_depth :: u32
  vf_num_tables :: u32

definition default_options :: verifier_options where
  "default_options = \<lparr>max_depth = 64, max_tables = 1000000, check_alignment = True,
     check_nested_flatbuffers = True\<rparr>"

text \<open>The constructor asserts the size; \<open>buf\<close> are the bytes readable from the pointer.\<close>

definition new_verifier :: "byte list \<Rightarrow> size_t \<Rightarrow> verifier_options \<Rightarrow> verifier option" where
  "new_verifier buf len opts =
     (if len < FLATBUFFERS_MAX_BUFFER_SIZE
      then Some \<lparr>vf_buf = buf, vf_size = len, vf_opts = opts, vf_depth = 0, vf_num_tables = 0\<rparr>
      else None)"

type_synonym vcheck = "verifier \<Rightarrow> (bool \<times> verifier) option"

definition vpure :: "(verifier \<Rightarrow> bool) \<Rightarrow> vcheck" where
  "vpure f v = Some (f v, v)"

definition vread :: "(verifier \<Rightarrow> bool option) \<Rightarrow> vcheck" where
  "vread f v = map_option (\<lambda>b. (b, v)) (f v)"

fun vall :: "vcheck list \<Rightarrow> vcheck" where
  "vall [] v = Some (True, v)"
| "vall (c # cs) v = do {
     (ok, v) \<leftarrow> c v;
     (if ok then vall cs v else Some (False, v))
   }"

section \<open>Ranges and scalars\<close>

definition verify_range :: "size_t \<Rightarrow> size_t \<Rightarrow> verifier \<Rightarrow> bool" where
  "verify_range elem elem_len v \<longleftrightarrow> elem_len < vf_size v \<and> elem \<le> vf_size v - elem_len"

definition verify_alignment :: "size_t \<Rightarrow> size_t \<Rightarrow> verifier \<Rightarrow> bool" where
  "verify_alignment elem align v \<longleftrightarrow>
     elem AND (align - 1) = 0 \<or> \<not> check_alignment (vf_opts v)"

definition verify_scalar :: "size_t \<Rightarrow> size_t \<Rightarrow> verifier \<Rightarrow> bool" where
  "verify_scalar n elem v \<longleftrightarrow> verify_alignment elem n v \<and> verify_range elem n v"

definition verify_from_pointer :: "size_t \<Rightarrow> size_t \<Rightarrow> verifier \<Rightarrow> bool" where
  "verify_from_pointer p len v = verify_range p len v"

definition verify_field_struct ::
  "size_t \<Rightarrow> voffset_t \<Rightarrow> size_t \<Rightarrow> size_t \<Rightarrow> verifier \<Rightarrow> bool" where
  "verify_field_struct base elem_off elem_len align v =
     (let f = base + ucast elem_off in verify_alignment f align v \<and> verify_range f elem_len v)"

definition verify_field :: "size_t \<Rightarrow> size_t \<Rightarrow> voffset_t \<Rightarrow> size_t \<Rightarrow> verifier \<Rightarrow> bool" where
  "verify_field n base elem_off align v =
     (let f = base + ucast elem_off in verify_alignment f align v \<and> verify_range f n v)"

section \<open>Vectors and strings\<close>

text \<open>The result with the \<open>end\<close> pointer; \<open>0\<close> stands for an \<open>end\<close> that was not written.\<close>

definition verify_vector_or_string :: "size_t \<Rightarrow> size_t \<Rightarrow> verifier \<Rightarrow> (bool \<times> size_t) option" where
  "verify_vector_or_string veco elem_size v =
     (if \<not> verify_scalar 4 veco v then Some (False, 0)
      else do {
        sz \<leftarrow> read_u32 (vf_buf v) veco;
        let max_elems = FLATBUFFERS_MAX_BUFFER_SIZE div elem_size;
        (if \<not> ucast sz < max_elems then Some (False, 0)
         else
           let byte_size = 4 + elem_size * ucast sz in
           Some (verify_range veco byte_size v, veco + byte_size))
      })"

definition verify_vector :: "size_t \<Rightarrow> size_t option \<Rightarrow> verifier \<Rightarrow> bool option" where
  "verify_vector elem_size vec v =
     (case vec of None \<Rightarrow> Some True
      | Some p \<Rightarrow> map_option fst (verify_vector_or_string p elem_size v))"

definition verify_string :: "size_t option \<Rightarrow> verifier \<Rightarrow> bool option" where
  "verify_string str v =
     (case str of
        None \<Rightarrow> Some True
      | Some p \<Rightarrow> do {
          (ok, ende) \<leftarrow> verify_vector_or_string p 1 v;
          (if ok \<and> verify_range ende 1 v
           then map_option (\<lambda>b. b = 0) (read_u8 (vf_buf v) ende) else Some False)
        })"

text \<open>
  Vectors of offsets: element \<open>i\<close> is the pointer stored in the \<open>i\<close>-th slot behind the length
  field, relative to the slot; \<open>n\<close> counts the elements still to be checked.
\<close>

definition vector_get_offset :: "byte list \<Rightarrow> size_t \<Rightarrow> u32 \<Rightarrow> size_t option" where
  "vector_get_offset buf vec i = do {
     let p = vec + 4 + ucast i * 4;
     off \<leftarrow> read_u32 buf p;
     Some (p + ucast off)
   }"

fun verify_strings_from :: "nat \<Rightarrow> u32 \<Rightarrow> size_t \<Rightarrow> verifier \<Rightarrow> bool option" where
  "verify_strings_from 0 i vec v = Some True"
| "verify_strings_from (Suc n) i vec v = do {
     p \<leftarrow> vector_get_offset (vf_buf v) vec i;
     ok \<leftarrow> verify_string (Some p) v;
     (if ok then verify_strings_from n (i + 1) vec v else Some False)
   }"

definition verify_vector_of_strings :: "size_t option \<Rightarrow> verifier \<Rightarrow> bool option" where
  "verify_vector_of_strings vec v =
     (case vec of None \<Rightarrow> Some True
      | Some p \<Rightarrow> do { n \<leftarrow> read_u32 (vf_buf v) p; verify_strings_from (unat n) 0 p v })"

fun verify_tables_from :: "(size_t \<Rightarrow> vcheck) \<Rightarrow> nat \<Rightarrow> u32 \<Rightarrow> size_t \<Rightarrow> vcheck" where
  "verify_tables_from tv 0 i vec v = Some (True, v)"
| "verify_tables_from tv (Suc n) i vec v = do {
     p \<leftarrow> vector_get_offset (vf_buf v) vec i;
     (ok, v) \<leftarrow> tv p v;
     (if ok then verify_tables_from tv n (i + 1) vec v else Some (False, v))
   }"

definition verify_vector_of_tables :: "(size_t \<Rightarrow> vcheck) \<Rightarrow> size_t option \<Rightarrow> vcheck" where
  "verify_vector_of_tables tv vec v =
     (case vec of None \<Rightarrow> Some (True, v)
      | Some p \<Rightarrow> do { n \<leftarrow> read_u32 (vf_buf v) p; verify_tables_from tv (unat n) 0 p v })"

section \<open>Tables and offsets\<close>

definition verify_table :: "(size_t \<Rightarrow> vcheck) \<Rightarrow> size_t option \<Rightarrow> vcheck" where
  "verify_table tv table v = (case table of None \<Rightarrow> Some (True, v) | Some p \<Rightarrow> tv p v)"

definition verify_complexity :: vcheck where
  "verify_complexity v =
     (let v = v\<lparr>vf_depth := vf_depth v + 1, vf_num_tables := vf_num_tables v + 1\<rparr> in
      Some (vf_depth v \<le> max_depth (vf_opts v) \<and> vf_num_tables v \<le> max_tables (vf_opts v), v))"

definition end_table :: vcheck where
  "end_table v = Some (True, v\<lparr>vf_depth := vf_depth v - 1\<rparr>)"

definition verify_table_start :: "size_t \<Rightarrow> vcheck" where
  "verify_table_start tableo v =
     (if \<not> verify_scalar 4 tableo v then Some (False, v)
      else do {
        soff \<leftarrow> read_u32 (vf_buf v) tableo;
        let vtableo = tableo - scast soff;
        (ok, v) \<leftarrow> vall [verify_complexity, vpure (verify_scalar 2 vtableo),
          vread (\<lambda>v. map_option (\<lambda>vs. verify_alignment (ucast vs) 2 v) (read_u16 (vf_buf v) vtableo))] v;
        (if \<not> ok then Some (False, v)
         else do {
           vsize \<leftarrow> read_u16 (vf_buf v) vtableo;
           Some (vsize AND 1 = 0 \<and> verify_range vtableo (ucast vsize) v, v)
         })
      })"

definition verify_offset_at :: "size_t \<Rightarrow> verifier \<Rightarrow> uoffset_t option" where
  "verify_offset_at start v =
     (if \<not> verify_scalar 4 start v then Some 0
      else do {
        off \<leftarrow> read_u32 (vf_buf v) start;
        Some (if off = 0 then 0
              else if sint off < 0 then 0
              else if \<not> verify_range (start + ucast off) 1 v then 0
              else off)
      })"

definition verify_offset_base :: "size_t \<Rightarrow> voffset_t \<Rightarrow> verifier \<Rightarrow> uoffset_t option" where
  "verify_offset_base base start v = verify_offset_at (base + ucast start) v"

section \<open>Buffers\<close>

definition verify_buffer_from_start ::
  "(size_t \<Rightarrow> vcheck) \<Rightarrow> byte list option \<Rightarrow> size_t \<Rightarrow> vcheck" where
  "verify_buffer_from_start tv identifier start v =
     (if \<not> FLATBUFFERS_MIN_BUFFER_SIZE \<le> vf_size v then Some (False, v)
      else do {
        id_ok \<leftarrow> (case identifier of None \<Rightarrow> Some True
          | Some ident \<Rightarrow> if 8 \<le> vf_size v
              then buffer_has_identifier (vf_buf v) start ident False else Some False);
        (if \<not> id_ok then Some (False, v)
         else do {
           off \<leftarrow> verify_offset_at start v;
           (if off \<noteq> 0 then tv (start + ucast off) v else Some (False, v))
         })
      })"

definition verify_buffer :: "(size_t \<Rightarrow> vcheck) \<Rightarrow> byte list option \<Rightarrow> vcheck" where
  "verify_buffer tv identifier v = verify_buffer_from_start tv identifier 0 v"

definition verify_size_prefixed_buffer :: "(size_t \<Rightarrow> vcheck) \<Rightarrow> byte list option \<Rightarrow> vcheck" where
  "verify_size_prefixed_buffer tv identifier v =
     (if \<not> verify_scalar 4 0 v then Some (False, v)
      else do {
        n \<leftarrow> read_u32 (vf_buf v) 0;
        (if ucast n = vf_size v - 4 then verify_buffer_from_start tv identifier 4 v
         else Some (False, v))
      })"

text \<open>
  A nested buffer is a vector of bytes with a verifier of its own.
\<close>

definition verify_nested_flatbuffer ::
  "(size_t \<Rightarrow> vcheck) \<Rightarrow> size_t option \<Rightarrow> byte list option \<Rightarrow> verifier \<Rightarrow> bool option" where
  "verify_nested_flatbuffer tv vec identifier v =
     (if \<not> check_nested_flatbuffers (vf_opts v) then Some True
      else case vec of None \<Rightarrow> Some True
      | Some p \<Rightarrow> do {
          n \<leftarrow> read_u32 (vf_buf v) p;
          (if \<not> FLATBUFFERS_MIN_BUFFER_SIZE \<le> ucast n then Some False
           else do {
             nested \<leftarrow> new_verifier (drop (unat (p + 4)) (vf_buf v)) (ucast n) default_options;
             (ok, nested) \<leftarrow> verify_buffer tv identifier nested;
             Some ok
           })
        })"

section \<open>Memory safety\<close>

text \<open>
  The verified length lies inside the memory behind the pointer, as the callers guarantee,
  and below 2 GB, as the constructor asserts; no block of memory has 2 to the 63 bytes.
\<close>

definition vf_ok :: "verifier \<Rightarrow> bool" where
  "vf_ok v \<longleftrightarrow> unat (vf_size v) \<le> length (vf_buf v) \<and> vf_size v < FLATBUFFERS_MAX_BUFFER_SIZE \<and>
     length (vf_buf v) < 2 ^ 63"

definition same_buffer :: "verifier \<Rightarrow> verifier \<Rightarrow> bool" where
  "same_buffer v v' \<longleftrightarrow> vf_buf v' = vf_buf v \<and> vf_size v' = vf_size v \<and> vf_opts v' = vf_opts v"

text \<open>A check that never leaves the buffer.\<close>

definition safe_check :: "vcheck \<Rightarrow> verifier \<Rightarrow> bool" where
  "safe_check c v \<longleftrightarrow> (\<exists>ok v'. c v = Some (ok, v') \<and> same_buffer v v')"

lemma same_buffer_refl [simp]: "same_buffer v v"
  by (simp add: same_buffer_def)

lemma same_buffer_trans: "same_buffer u v \<Longrightarrow> same_buffer v w \<Longrightarrow> same_buffer u w"
  by (simp add: same_buffer_def)

lemma same_buffer_ok: "same_buffer v v' \<Longrightarrow> vf_ok v \<Longrightarrow> vf_ok v'"
  by (simp add: same_buffer_def vf_ok_def)

lemma safe_vpure [ub_intros]: "safe_check (vpure f) v"
  by (simp add: safe_check_def vpure_def)

lemma safe_vread [ub_intros]: "\<exists>b. f v = Some b \<Longrightarrow> safe_check (vread f) v"
  by (auto simp: safe_check_def vread_def)

lemma verify_range_bound:
  assumes "verify_range e n v"
  shows "unat e + unat n \<le> unat (vf_size v)"
proof -
  have lt: "n < vf_size v" and le: "e \<le> vf_size v - n"
    using assms by (simp_all add: verify_range_def)
  have "unat (vf_size v - n) = unat (vf_size v) - unat n"
    using lt by (intro unat_sub_le) simp
  then have "unat e \<le> unat (vf_size v) - unat n"
    using le by (simp add: word_le_nat_alt)
  then show ?thesis using lt by (simp add: word_less_nat_alt)
qed

lemma verify_scalar_bound: "verify_scalar n e v \<Longrightarrow> unat e + unat n \<le> unat (vf_size v)"
  by (simp add: verify_scalar_def verify_range_bound)

lemma range_read:
  assumes "vf_ok v" and "verify_range e n v"
  shows "unat e + unat n \<le> length (vf_buf v)"
  using verify_range_bound [OF assms(2)] assms(1) by (simp add: vf_ok_def)

lemma scalar_read:
  "vf_ok v \<Longrightarrow> verify_scalar n e v \<Longrightarrow> unat e + unat n \<le> length (vf_buf v)"
  by (simp add: verify_scalar_def range_read)

lemma verify_string_safe [ub_intros]:
  assumes "vf_ok v"
  shows "\<exists>b. verify_vector_or_string p n v = Some b" and "\<exists>b. verify_string s v = Some b"
    and "\<exists>b. verify_vector n s v = Some b"
proof -
  show 1: "\<exists>b. verify_vector_or_string p n v = Some b" for p n
  proof (cases "verify_scalar 4 p v")
    case True
    then obtain z where "read_u32 (vf_buf v) p = Some z"
      using read_defined(3) [of p "vf_buf v"] scalar_read [OF assms, of 4 p] by auto
    with True show ?thesis
      by (cases "ucast z < FLATBUFFERS_MAX_BUFFER_SIZE div n")
        (simp_all add: verify_vector_or_string_def Let_def exI [of _ False])
  qed (simp add: verify_vector_or_string_def exI [of _ False])
  show "\<exists>b. verify_vector n s v = Some b"
    using 1 by (cases s) (auto simp: verify_vector_def)
  show "\<exists>b. verify_string s v = Some b"
  proof (cases s)
    case None
    then show ?thesis by (simp add: verify_string_def exI [of _ True])
  next
    case (Some q)
    obtain ok ende where e: "verify_vector_or_string q 1 v = Some (ok, ende)"
      using 1 [of q 1] by auto
    show ?thesis
      using Some e read_defined(1) [of ende "vf_buf v"] range_read [OF assms, of ende 1]
      by (auto simp: verify_string_def)
  qed
qed

lemma verify_offset_safe [ub_intros]:
  assumes "vf_ok v"
  shows "\<exists>off. verify_offset_at p v = Some off"
  using read_defined(3) [of p "vf_buf v"] scalar_read [OF assms, of 4 p]
  by (auto simp: verify_offset_at_def)

lemma verify_offset_result:
  assumes "vf_ok v" and "verify_offset_at p v = Some off" and "off \<noteq> 0"
  shows "read_u32 (vf_buf v) p = Some off" and "unat (p + ucast off) < unat (vf_size v)"
    and "unat (p + ucast off) = unat p + unat off"
proof -
  have s: "verify_scalar 4 p v" and r: "read_u32 (vf_buf v) p = Some off"
    and v: "verify_range (p + ucast off) 1 v" and pos: "\<not> sint off < 0"
    using assms(2,3) by (auto simp: verify_offset_at_def split: if_splits bind_splits)
  show "read_u32 (vf_buf v) p = Some off" by (rule r)
  show "unat (p + ucast off) < unat (vf_size v)"
    using verify_range_bound [OF v] by simp
  have "unat p + 4 \<le> unat (vf_size v)"
    using verify_scalar_bound [OF s] by simp
  then have "unat p < 2 ^ 31"
    using assms(1) by (simp add: vf_ok_def word_less_nat_alt)
  moreover have "unat off < 2 ^ 32"
    using unsigned_less [of off] by simp
  ultimately show "unat (p + ucast off) = unat p + unat off"
    by (subst unat_add_small) simp_all
qed

text \<open>Where a verified table starts and where its vtable lies.\<close>

definition vtable_at :: "byte list \<Rightarrow> size_t \<Rightarrow> size_t \<Rightarrow> u16 \<Rightarrow> bool" where
  "vtable_at buf table vtable vsize \<longleftrightarrow> unat table + 4 \<le> length buf \<and>
     (\<exists>soff. read_u32 buf table = Some soff \<and> vtable = table - scast soff) \<and>
     read_u16 buf vtable = Some vsize \<and> even (unat vsize) \<and>
     unat vtable + unat vsize \<le> length buf"

definition table_ok :: "byte list \<Rightarrow> size_t \<Rightarrow> bool" where
  "table_ok buf table \<longleftrightarrow> (\<exists>vtable vsize. vtable_at buf table vtable vsize)"

lemma and_1_even: "(x :: u16) AND 1 = 0 \<Longrightarrow> even (unat x)"
proof -
  assume "x AND 1 = 0"
  then have "unat (x mod 2) = 0" by (simp add: and_one_eq)
  then show ?thesis by (simp add: unat_mod even_iff_mod_2_eq_zero)
qed

lemma verify_table_start_safe:
  assumes "vf_ok v"
  obtains ok v' where "verify_table_start p v = Some (ok, v')" and "same_buffer v v'"
    and "ok \<Longrightarrow> table_ok (vf_buf v) p"
proof (cases "verify_scalar 4 p v")
  case False
  then show thesis using that [of False v] by (simp add: verify_table_start_def)
next
  case True
  have p: "unat p + 4 \<le> length (vf_buf v)"
    using scalar_read [OF assms True] by simp
  then obtain soff where soff: "read_u32 (vf_buf v) p = Some soff"
    using read_defined(3) by blast
  define vt where "vt = p - scast soff"
  obtain ok1 v1 where c: "verify_complexity v = Some (ok1, v1)" "same_buffer v v1"
    by (simp add: verify_complexity_def same_buffer_def Let_def)
  show thesis
  proof (cases "ok1 \<and> verify_scalar 2 vt v1")
    case False
    then have "verify_table_start p v = Some (False, v1)"
      using True soff c by (auto simp: verify_table_start_def vt_def vpure_def Let_def)
    then show thesis using that [of False v1] c by simp
  next
    case 2: True
    have v1: "vf_ok v1" "vf_buf v1 = vf_buf v"
      using same_buffer_ok [OF c(2) assms] c(2) by (simp_all add: same_buffer_def)
    have "unat vt + 2 \<le> length (vf_buf v)"
      using scalar_read [OF v1(1), of 2 vt] 2 v1(2) by simp
    then obtain vs where vs: "read_u16 (vf_buf v) vt = Some vs"
      using read_defined(2) by blast
    define ok where "ok \<longleftrightarrow> verify_alignment (ucast vs) 2 v1 \<and> vs AND 1 = 0 \<and> verify_range vt (ucast vs) v1"
    have r: "verify_table_start p v = Some (ok, v1)"
      using True soff c 2 vs v1(2)
      by (auto simp: verify_table_start_def vpure_def vread_def Let_def ok_def simp flip: vt_def)
    have "table_ok (vf_buf v) p" if ok
    proof -
      have "unat vt + unat vs \<le> length (vf_buf v)"
        using range_read [OF v1(1), of vt "ucast vs"] that v1(2) by (simp add: ok_def)
      then show ?thesis
        using p soff vs that and_1_even [of vs]
        by (auto simp: table_ok_def vtable_at_def ok_def vt_def)
    qed
    then show thesis using that [OF r c(2)] by simp
  qed
qed

text \<open>Chains of checks: each may rely on what the successful ones before it established.\<close>

lemma safe_vall_Nil [ub_intros]: "safe_check (vall []) v"
  by (simp add: safe_check_def exI [of _ True])

lemma safe_vall_Cons:
  assumes "c v = Some (ok, v1)" and "same_buffer v v1" and "ok \<Longrightarrow> safe_check (vall cs) v1"
  shows "safe_check (vall (c # cs)) v"
proof (cases ok)
  case True
  then obtain b v2 where "vall cs v1 = Some (b, v2)" "same_buffer v1 v2"
    using assms(3) by (auto simp: safe_check_def)
  then show ?thesis
    using True assms(1,2) by (auto simp: safe_check_def intro: same_buffer_trans)
next
  case False
  then show ?thesis
    using assms(1,2) by (auto simp: safe_check_def)
qed

lemma safe_vall_pure:
  assumes "f v \<Longrightarrow> safe_check (vall cs) v"
  shows "safe_check (vall (vpure f # cs)) v"
  by (rule safe_vall_Cons [of _ _ "f v" v]) (use assms in \<open>simp_all add: vpure_def\<close>)

lemma safe_vall_read:
  assumes "f v = Some b" and "b \<Longrightarrow> safe_check (vall cs) v"
  shows "safe_check (vall (vread f # cs)) v"
  by (rule safe_vall_Cons [of _ _ b v]) (use assms in \<open>simp_all add: vread_def\<close>)

lemma safe_end_table [ub_intros]: "safe_check (vall [end_table]) v"
  by (simp add: safe_check_def end_table_def same_buffer_def exI [of _ True])

lemma vall_ConsD:
  assumes "vall (c # cs) v = Some (True, v')"
  obtains v1 where "c v = Some (True, v1)" and "vall cs v1 = Some (True, v')"
  using assms by (auto split: bind_splits if_splits)

lemma vreadD: "vread f v = Some (b, v') \<Longrightarrow> f v = Some b \<and> v' = v"
  by (auto simp: vread_def)

section \<open>The interface of a verified type\<close>

text \<open>
  What the generic checks need of \<open>T::Verify\<close>: it never leaves the buffer, whatever pointer
  it is given.  Each generated table type is an instance.
\<close>

locale verified_type =
  fixes tv :: "size_t \<Rightarrow> vcheck"
  assumes tv_safe: "vf_ok v \<Longrightarrow> safe_check (tv p) v"
begin

lemma verify_table_safe: "vf_ok v \<Longrightarrow> safe_check (verify_table tv t) v"
  by (cases t) (auto simp: verify_table_def safe_check_def exI [of _ True] dest: tv_safe [unfolded safe_check_def])

lemma verify_buffer_from_start_safe:
  assumes "vf_ok v"
  shows "safe_check (verify_buffer_from_start tv None start) v"
proof -
  obtain off where "verify_offset_at start v = Some off"
    using verify_offset_safe [OF assms] by blast
  then show ?thesis
    using tv_safe [OF assms, of "start + ucast off"]
    by (auto simp: verify_buffer_from_start_def safe_check_def exI [of _ False])
qed

lemma verify_buffer_safe: "vf_ok v \<Longrightarrow> safe_check (verify_buffer tv None) v"
  using verify_buffer_from_start_safe
  by (auto simp: safe_check_def verify_buffer_def)

lemma verify_size_prefixed_buffer_safe:
  assumes "vf_ok v"
  shows "safe_check (verify_size_prefixed_buffer tv None) v"
proof (cases "verify_scalar 4 0 v")
  case True
  then obtain n where "read_u32 (vf_buf v) 0 = Some n"
    using read_defined(3) [of 0 "vf_buf v"] scalar_read [OF assms, of 4 0] by auto
  then show ?thesis
    using True verify_buffer_from_start_safe [OF assms, of 4]
    by (auto simp: verify_size_prefixed_buffer_def safe_check_def exI [of _ False])
qed (simp add: verify_size_prefixed_buffer_def safe_check_def exI [of _ False])

text \<open>A buffer that verifies has a root pointer inside it, and the root verified there.\<close>

lemma verify_buffer_root:
  assumes v: "vf_ok v" and r: "verify_buffer tv None v = Some (True, v')"
  obtains root where "get_root (vf_buf v) 0 = Some root" and "unat root < length (vf_buf v)"
    and "tv root v = Some (True, v')"
proof -
  obtain off where off: "verify_offset_at 0 v = Some off" "off \<noteq> 0" "tv (ucast off) v = Some (True, v')"
    using r by (auto simp: verify_buffer_def verify_buffer_from_start_def split: if_splits bind_splits)
  note res = verify_offset_result [OF v off(1,2)]
  show thesis
    using that [of "ucast off"] off(3) res v by (simp add: get_root_def vf_ok_def)
qed

end

end
