(* ===== verification/Fb_Table.thy ===== *)
theory Fb_Table
  imports Fb_Verifier
begin

text \<open>
  \<open>examples/flatbuffers/table.h\<close> and \<open>string.h\<close>: the class \<open>Table\<close>, reached through a pointer
  into a buffer.  Accessors find a field through the vtable and return the default, or a
  null pointer (\<open>Some None\<close>), when it is absent.  The lemmas show that on a table whose start
  has been verified no lookup leaves the buffer, and which fields the accessors may follow.
\<close>

section \<open>Accessors\<close>

type_synonym 'a reader = "byte list \<Rightarrow> size_t \<Rightarrow> 'a option"

definition get_vtable :: "byte list \<Rightarrow> size_t \<Rightarrow> size_t option" where
  "get_vtable buf t = do { soff \<leftarrow> read_u32 buf t; Some (t - scast soff) }"

definition get_optional_field_offset :: "byte list \<Rightarrow> size_t \<Rightarrow> voffset_t \<Rightarrow> voffset_t option" where
  "get_optional_field_offset buf t field = do {
     vtable \<leftarrow> get_vtable buf t;
     vtsize \<leftarrow> read_u16 buf vtable;
     (if field < vtsize then read_u16 buf (vtable + ucast field) else Some 0)
   }"

definition get_field :: "'a reader \<Rightarrow> byte list \<Rightarrow> size_t \<Rightarrow> voffset_t \<Rightarrow> 'a \<Rightarrow> 'a option" where
  "get_field rd buf t field defaultval = do {
     field_offset \<leftarrow> get_optional_field_offset buf t field;
     (if field_offset \<noteq> 0 then rd buf (t + ucast field_offset) else Some defaultval)
   }"

definition get_pointer :: "byte list \<Rightarrow> size_t \<Rightarrow> voffset_t \<Rightarrow> size_t option option" where
  "get_pointer buf t field = do {
     field_offset \<leftarrow> get_optional_field_offset buf t field;
     let p = t + ucast field_offset;
     (if field_offset \<noteq> 0 then do { off \<leftarrow> read_u32 buf p; Some (Some (p + ucast off)) }
      else Some None)
   }"

definition get_struct :: "byte list \<Rightarrow> size_t \<Rightarrow> voffset_t \<Rightarrow> size_t option option" where
  "get_struct buf t field = do {
     field_offset \<leftarrow> get_optional_field_offset buf t field;
     Some (if field_offset \<noteq> 0 then Some (t + ucast field_offset) else None)
   }"

definition get_optional :: "'a reader \<Rightarrow> byte list \<Rightarrow> size_t \<Rightarrow> voffset_t \<Rightarrow> 'a option option" where
  "get_optional rd buf t field = do {
     field_offset \<leftarrow> get_optional_field_offset buf t field;
     (if field_offset \<noteq> 0 then map_option Some (rd buf (t + ucast field_offset)) else Some None)
   }"

text \<open>The mutators; \<open>bytes\<close> is the scalar in memory.  The result is what the method returns.\<close>

definition set_field :: "byte list \<Rightarrow> byte list \<Rightarrow> size_t \<Rightarrow> voffset_t \<Rightarrow> byte list \<Rightarrow> (bool \<times> byte list) option" where
  "set_field bytes buf t field def_bytes = do {
     field_offset \<leftarrow> get_optional_field_offset buf t field;
     (if field_offset = 0 then Some (is_the_same_as bytes def_bytes, buf)
      else do { buf \<leftarrow> write_bytes bytes buf (t + ucast field_offset); Some (True, buf) })
   }"

definition set_field_optional :: "byte list \<Rightarrow> byte list \<Rightarrow> size_t \<Rightarrow> voffset_t \<Rightarrow> (bool \<times> byte list) option" where
  "set_field_optional bytes buf t field = do {
     field_offset \<leftarrow> get_optional_field_offset buf t field;
     (if field_offset = 0 then Some (False, buf)
      else do { buf \<leftarrow> write_bytes bytes buf (t + ucast field_offset); Some (True, buf) })
   }"

definition set_pointer :: "size_t \<Rightarrow> byte list \<Rightarrow> size_t \<Rightarrow> voffset_t \<Rightarrow> (bool \<times> byte list) option" where
  "set_pointer val buf t field = do {
     field_offset \<leftarrow> get_optional_field_offset buf t field;
     (if field_offset = 0 then Some (False, buf)
      else do {
        let p = t + ucast field_offset;
        buf \<leftarrow> write_bytes (u32_bytes (ucast (val - p))) buf p;
        Some (True, buf)
      })
   }"

definition get_address_of :: "byte list \<Rightarrow> size_t \<Rightarrow> voffset_t \<Rightarrow> size_t option option" where
  "get_address_of buf t field = do {
     field_offset \<leftarrow> get_optional_field_offset buf t field;
     Some (if field_offset \<noteq> 0 then Some (t + ucast field_offset) else None)
   }"

definition check_field :: "byte list \<Rightarrow> size_t \<Rightarrow> voffset_t \<Rightarrow> bool option" where
  "check_field buf t field = map_option (\<lambda>off. off \<noteq> 0) (get_optional_field_offset buf t field)"

section \<open>Verification of fields\<close>

definition table_verify_start :: "size_t \<Rightarrow> vcheck" where
  "table_verify_start t = verify_table_start t"

definition table_verify_field :: "size_t \<Rightarrow> size_t \<Rightarrow> voffset_t \<Rightarrow> size_t \<Rightarrow> vcheck" where
  "table_verify_field n t field align = vread (\<lambda>v. do {
     field_offset \<leftarrow> get_optional_field_offset (vf_buf v) t field;
     Some (field_offset = 0 \<or> verify_field n t field_offset align v)
   })"

definition table_verify_field_required :: "size_t \<Rightarrow> size_t \<Rightarrow> voffset_t \<Rightarrow> size_t \<Rightarrow> vcheck" where
  "table_verify_field_required n t field align = vread (\<lambda>v. do {
     field_offset \<leftarrow> get_optional_field_offset (vf_buf v) t field;
     Some (field_offset \<noteq> 0 \<and> verify_field n t field_offset align v)
   })"

definition table_verify_offset :: "size_t \<Rightarrow> voffset_t \<Rightarrow> vcheck" where
  "table_verify_offset t field = vread (\<lambda>v. do {
     field_offset \<leftarrow> get_optional_field_offset (vf_buf v) t field;
     (if field_offset = 0 then Some True
      else map_option (\<lambda>off. off \<noteq> 0) (verify_offset_base t field_offset v))
   })"

definition table_verify_offset_required :: "size_t \<Rightarrow> voffset_t \<Rightarrow> vcheck" where
  "table_verify_offset_required t field = vread (\<lambda>v. do {
     field_offset \<leftarrow> get_optional_field_offset (vf_buf v) t field;
     (if field_offset = 0 then Some False
      else map_option (\<lambda>off. off \<noteq> 0) (verify_offset_base t field_offset v))
   })"

section \<open>Strings\<close>

text \<open>
  A string is a vector of bytes; \<open>c_str\<close> is the pointer to its data.  Printing a C string
  reads up to the terminator, which has to come before the end of the memory.
\<close>

definition vector_size :: "byte list \<Rightarrow> size_t \<Rightarrow> u32 option" where
  "vector_size buf vec = read_u32 buf vec"

definition c_str :: "size_t \<Rightarrow> size_t" where
  "c_str s = s + 4"

definition c_string :: "byte list \<Rightarrow> size_t \<Rightarrow> byte list option" where
  "c_string buf p =
     (let bs = drop (unat p) buf in
      if 0 \<in> set bs then Some (takeWhile (\<lambda>b. b \<noteq> 0) bs) else None)"

definition string_str :: "byte list \<Rightarrow> size_t \<Rightarrow> byte list option" where
  "string_str buf s = do { n \<leftarrow> vector_size buf s; read_bytes (unat n) buf (c_str s) }"

definition get_string :: "byte list \<Rightarrow> size_t option \<Rightarrow> byte list option" where
  "get_string buf str = (case str of None \<Rightarrow> Some [] | Some s \<Rightarrow> string_str buf s)"

section \<open>Lookups in a verified table\<close>

lemma vtable_lookup:
  assumes "vtable_at buf t vt vs" and "even (unat field)" and "length buf < 2 ^ 63"
  shows "\<exists>off. get_optional_field_offset buf t field = Some off"
proof -
  obtain soff where soff: "read_u32 buf t = Some soff" "vt = t - scast soff"
    using assms(1) by (auto simp: vtable_at_def)
  have vs: "read_u16 buf vt = Some vs" "even (unat vs)" "unat vt + unat vs \<le> length buf"
    using assms(1) by (auto simp: vtable_at_def)
  show ?thesis
  proof (cases "field < vs")
    case True
    then have lt: "unat field < unat vs" by (simp add: word_less_nat_alt)
    then have le: "unat field + 2 \<le> unat vs"
      using assms(2) vs(2) by presburger
    have "unat (vt + ucast field) = unat vt + unat field"
      using le vs(3) assms(3) by (subst unat_add_small) simp_all
    then have "\<exists>y. read_u16 buf (vt + ucast field) = Some y"
      using le vs(3) by (intro read_defined(2)) simp
    then show ?thesis
      using soff vs(1) True by (simp add: get_optional_field_offset_def get_vtable_def)
  next
    case False
    then show ?thesis
      using soff vs(1) by (simp add: get_optional_field_offset_def get_vtable_def)
  qed
qed

lemma table_ok_lookup:
  assumes "table_ok buf t" and "even (unat field)" and "length buf < 2 ^ 63"
  obtains off where "get_optional_field_offset buf t field = Some off"
  using assms vtable_lookup by (metis table_ok_def)

section \<open>What a successful verification establishes\<close>

text \<open>A field that is absent or readable as \<open>n\<close> bytes; an offset that leads into the buffer.\<close>

definition field_readable :: "nat \<Rightarrow> byte list \<Rightarrow> size_t \<Rightarrow> voffset_t \<Rightarrow> bool" where
  "field_readable n buf t field \<longleftrightarrow>
     (\<exists>off. get_optional_field_offset buf t field = Some off \<and>
        (off = 0 \<or> unat (t + ucast off) + n \<le> length buf))"

definition pointer_inside :: "byte list \<Rightarrow> size_t \<Rightarrow> voffset_t \<Rightarrow> bool" where
  "pointer_inside buf t field \<longleftrightarrow>
     (case get_pointer buf t field of None \<Rightarrow> False
      | Some None \<Rightarrow> True
      | Some (Some q) \<Rightarrow> unat q < length buf)"

definition string_ok :: "byte list \<Rightarrow> size_t \<Rightarrow> bool" where
  "string_ok buf s \<longleftrightarrow> (\<exists>n. read_u32 buf s = Some n \<and> unat s + 4 + unat n < length buf \<and>
     buf ! (unat s + 4 + unat n) = 0)"

lemma vf_ok_length: "vf_ok v \<Longrightarrow> unat (vf_size v) < 2 ^ 31"
  by (simp add: vf_ok_def word_less_nat_alt)

lemma get_field_readable:
  assumes "field_readable n buf t field" and "\<And>p. unat p + n \<le> length buf \<Longrightarrow> \<exists>x. rd buf p = Some x"
  shows "\<exists>x. get_field rd buf t field d = Some x"
  using assms by (auto simp: field_readable_def get_field_def)

lemma table_verify_field_safe:
  assumes v: "vf_ok v" and t: "table_ok (vf_buf v) t" and e: "even (unat field)"
  obtains ok where "table_verify_field n t field align v = Some (ok, v)"
    and "ok \<Longrightarrow> field_readable (unat n) (vf_buf v) t field"
proof -
  obtain off where off: "get_optional_field_offset (vf_buf v) t field = Some off"
    using table_ok_lookup [OF t e] v by (metis vf_ok_def)
  let ?ok = "off = 0 \<or> verify_field n t off align v"
  have "table_verify_field n t field align v = Some (?ok, v)"
    by (simp add: table_verify_field_def vread_def off)
  moreover have "field_readable (unat n) (vf_buf v) t field" if ?ok
    using that off range_read [OF v, of "t + ucast off" n]
    by (auto simp: field_readable_def verify_field_def Let_def)
  ultimately show thesis using that by blast
qed

lemma table_verify_offset_safe:
  assumes v: "vf_ok v" and t: "table_ok (vf_buf v) t" and e: "even (unat field)"
  obtains ok where "table_verify_offset t field v = Some (ok, v)"
    and "ok \<Longrightarrow> pointer_inside (vf_buf v) t field"
proof -
  obtain off where off: "get_optional_field_offset (vf_buf v) t field = Some off"
    using table_ok_lookup [OF t e] v by (metis vf_ok_def)
  obtain o2 where o2: "verify_offset_at (t + ucast off) v = Some o2"
    using verify_offset_safe [OF v] by blast
  let ?ok = "off = 0 \<or> o2 \<noteq> 0"
  have "table_verify_offset t field v = Some (?ok, v)"
    by (simp add: table_verify_offset_def vread_def off verify_offset_base_def o2)
  moreover have "pointer_inside (vf_buf v) t field" if ok: ?ok
  proof (cases "off = 0")
    case True
    then show ?thesis by (simp add: pointer_inside_def get_pointer_def off)
  next
    case False
    then have "o2 \<noteq> 0" using ok by simp
    from verify_offset_result [OF v o2 this] show ?thesis
      using False v by (simp add: pointer_inside_def get_pointer_def off Let_def vf_ok_def)
  qed
  ultimately show thesis using that by blast
qed

lemma verify_string_ok:
  assumes v: "vf_ok v" and s: "verify_string (Some p) v = Some True"
  shows "string_ok (vf_buf v) p"
proof -
  obtain n where sc: "verify_scalar 4 p v" and n: "read_u32 (vf_buf v) p = Some n"
    and small: "ucast n < FLATBUFFERS_MAX_BUFFER_SIZE"
    and r: "verify_range p (4 + ucast n) v" "verify_range (p + (4 + ucast n)) 1 v"
    and z: "read_u8 (vf_buf v) (p + (4 + ucast n)) = Some 0"
    using s by (auto simp: verify_string_def verify_vector_or_string_def Let_def
        split: bind_splits if_splits)
  have b: "unat (4 + ucast n :: size_t) = 4 + unat n"
  proof (subst unat_add_small)
    have "unat n < 2 ^ 32" using unsigned_less [of n] by simp
    then show "unat (4 :: size_t) + unat (ucast n :: size_t) < 2 ^ LENGTH(64)" by simp
  qed simp
  have le: "unat p + (4 + unat n) \<le> unat (vf_size v)"
    using verify_range_bound [OF r(1)] b by simp
  have e: "unat (p + (4 + ucast n)) = unat p + 4 + unat n"
  proof (subst unat_add_small)
    show "unat p + unat (4 + ucast n :: size_t) < 2 ^ LENGTH(64)"
      using le vf_ok_length [OF v] b by simp
  qed (simp add: b)
  have lt: "unat p + 4 + unat n < length (vf_buf v)"
    using verify_range_bound [OF r(2)] e v by (simp add: vf_ok_def)
  then have "read_u8 (vf_buf v) (p + (4 + ucast n)) = Some (vf_buf v ! (unat p + 4 + unat n))"
    by (simp add: read_u8_def read_bytes_def e take_Suc hd_drop_conv_nth del: add.commute)
  then show ?thesis
    using n lt z by (simp add: string_ok_def)
qed

text \<open>A C string read from a verified string stays inside it.\<close>

lemma c_string_ok:
  assumes "string_ok buf s" and "length buf < 2 ^ 63"
  obtains n where "string_str buf s = Some (take n (drop (unat s + 4) buf))"
    and "c_string buf (c_str s) = Some (takeWhile (\<lambda>b. b \<noteq> 0) (take n (drop (unat s + 4) buf)))"
proof -
  obtain n where n: "read_u32 buf s = Some n" "unat s + 4 + unat n < length buf"
      "buf ! (unat s + 4 + unat n) = 0"
    using assms(1) by (auto simp: string_ok_def)
  have p: "unat (c_str s) = unat s + 4"
    unfolding c_str_def using n(2) assms(2) by (subst unat_add_small) simp_all
  have d: "drop (unat s + 4) buf = take (unat n) (drop (unat s + 4) buf) @ 0 # drop (Suc (unat s + 4 + unat n)) buf"
    using n(2,3) id_take_nth_drop [of "unat n" "drop (unat s + 4) buf"] by (simp add: add.assoc add.commute add.left_commute)
  have "takeWhile (\<lambda>b. b \<noteq> 0) (drop (unat s + 4) buf) =
      takeWhile (\<lambda>b. b \<noteq> 0) (take (unat n) (drop (unat s + 4) buf))"
    by (subst d) (simp add: takeWhile_stop)
  moreover have "0 \<in> set (drop (unat s + 4) buf)"
    by (subst d) simp
  ultimately show thesis
    using that [of "unat n"] n(1,2) p
    by (simp add: string_str_def vector_size_def c_string_def read_bytes_def Let_def)
qed

text \<open>The checks of a scalar field and of an offset inside a chain.\<close>

lemma safe_vall_field:
  assumes "vf_ok v" and "table_ok (vf_buf v) t" and "even (unat field)"
    and "field_readable (unat n) (vf_buf v) t field \<Longrightarrow> safe_check (vall cs) v"
  shows "safe_check (vall (table_verify_field n t field align # cs)) v"
proof -
  obtain ok where "table_verify_field n t field align v = Some (ok, v)"
      "ok \<Longrightarrow> field_readable (unat n) (vf_buf v) t field"
    using table_verify_field_safe [OF assms(1-3)] by blast
  then show ?thesis using assms(4) safe_vall_Cons by (metis same_buffer_refl)
qed

lemma safe_vall_offset:
  assumes "vf_ok v" and "table_ok (vf_buf v) t" and "even (unat field)"
    and "pointer_inside (vf_buf v) t field \<Longrightarrow> safe_check (vall cs) v"
  shows "safe_check (vall (table_verify_offset t field # cs)) v"
proof -
  obtain ok where "table_verify_offset t field v = Some (ok, v)"
      "ok \<Longrightarrow> pointer_inside (vf_buf v) t field"
    using table_verify_offset_safe [OF assms(1-3)] by blast
  then show ?thesis using assms(4) safe_vall_Cons by (metis same_buffer_refl)
qed

lemma safe_vall_start:
  assumes "vf_ok v"
    and "\<And>v1. same_buffer v v1 \<Longrightarrow> vf_ok v1 \<Longrightarrow> table_ok (vf_buf v1) t \<Longrightarrow> safe_check (vall cs) v1"
  shows "safe_check (vall (table_verify_start t # cs)) v"
proof -
  obtain ok v1 where 1: "verify_table_start t v = Some (ok, v1)" "same_buffer v v1"
      "ok \<Longrightarrow> table_ok (vf_buf v) t"
    using verify_table_start_safe [OF assms(1)] by blast
  show ?thesis
  proof (rule safe_vall_Cons [OF _ 1(2)])
    show "table_verify_start t v = Some (ok, v1)" using 1(1) by (simp add: table_verify_start_def)
    assume ok
    then show "safe_check (vall cs) v1"
      using assms(2) [OF 1(2) same_buffer_ok [OF 1(2) assms(1)]] 1(2,3) by (simp add: same_buffer_def)
  qed
qed

text \<open>Conversely, what successful checks tell about the fields.\<close>

lemma verified_start:
  assumes "vf_ok v" and "table_verify_start t v = Some (True, v')"
  shows "table_ok (vf_buf v) t" and "same_buffer v v'" and "vf_ok v'"
proof -
  show "table_ok (vf_buf v) t" and s: "same_buffer v v'"
    using verify_table_start_safe [OF assms(1), of t] assms(2)
    by (metis Pair_inject option.inject table_verify_start_def)+
  show "vf_ok v'" by (rule same_buffer_ok [OF s assms(1)])
qed

lemma verified_field:
  assumes "vf_ok v" and "table_ok (vf_buf v) t" and "even (unat field)"
    and "table_verify_field n t field align v = Some (True, v')"
  shows "field_readable (unat n) (vf_buf v) t field" and "v' = v"
  using table_verify_field_safe [OF assms(1-3), of n align] assms(4) by auto

lemma verified_offset:
  assumes "vf_ok v" and "table_ok (vf_buf v) t" and "even (unat field)"
    and "table_verify_offset t field v = Some (True, v')"
  shows "pointer_inside (vf_buf v) t field" and "v' = v"
  using table_verify_offset_safe [OF assms(1-3)] assms(4) by auto

definition string_field_ok :: "byte list \<Rightarrow> size_t \<Rightarrow> voffset_t \<Rightarrow> bool" where
  "string_field_ok buf t field \<longleftrightarrow>
     (case get_pointer buf t field of None \<Rightarrow> False | Some None \<Rightarrow> True
      | Some (Some s) \<Rightarrow> string_ok buf s)"

definition verify_string_field :: "size_t \<Rightarrow> voffset_t \<Rightarrow> vcheck" where
  "verify_string_field t field = vread (\<lambda>v. do {
     s \<leftarrow> get_pointer (vf_buf v) t field;
     verify_string s v
   })"

lemma pointer_inside_defined:
  "pointer_inside buf t field \<Longrightarrow> \<exists>q. get_pointer buf t field = Some q"
  by (auto simp: pointer_inside_def split: option.splits)

lemma safe_vall_string:
  assumes "vf_ok v" and "pointer_inside (vf_buf v) t field" and "safe_check (vall cs) v"
  shows "safe_check (vall (verify_string_field t field # cs)) v"
proof -
  obtain q where q: "get_pointer (vf_buf v) t field = Some q"
    using pointer_inside_defined [OF assms(2)] by blast
  obtain b where b: "verify_string q v = Some b"
    using verify_string_safe(2) [OF assms(1)] by blast
  show ?thesis
    unfolding verify_string_field_def
    by (rule safe_vall_read [where b = b]) (use q b assms(3) in simp_all)
qed

lemma verified_string:
  assumes "vf_ok v" and "verify_string_field t field v = Some (True, v')"
  shows "string_field_ok (vf_buf v) t field" and "v' = v"
  using assms verify_string_ok [OF assms(1)]
  by (auto simp: verify_string_field_def string_field_ok_def dest!: vreadD split: bind_splits option.splits)

end
