(* ===== verification/Fb_Roundtrip.thy ===== *)
theory Fb_Roundtrip
  imports Fb_Message_Spec Fb_Table
begin

text \<open>
  Reading back what the builder wrote: the definitions of the verifier and of the accessors as
  one bundle for evaluation on given bytes, and the checks and accessors on a string placed
  anywhere in a buffer.
\<close>

section \<open>Evaluation on given bytes\<close>

lemmas read_eval = read_u32_def read_u16_def read_u8_def read_bytes_def

lemmas verifier_eval = verify_buffer_def verify_buffer_from_start_def verify_offset_at_def
  verify_offset_base_def verify_scalar_def verify_alignment_def verify_field_def
  verify_table_start_def verify_complexity_def vpure_def vread_def verify_table_def
  Fb_Verifier.end_table_def default_options_def

lemmas table_eval = table_verify_start_def table_verify_field_def table_verify_offset_def
  get_optional_field_offset_def get_vtable_def get_pointer_def get_field_def get_root_def

definition verifier_for :: "byte list \<Rightarrow> size_t \<Rightarrow> verifier" where
  "verifier_for buf n = \<lparr>vf_buf = buf, vf_size = n, vf_opts = default_options, vf_depth = 0,
     vf_num_tables = 0\<rparr>"

lemma new_verifier_for:
  "n < FLATBUFFERS_MAX_BUFFER_SIZE \<Longrightarrow> new_verifier buf n default_options = Some (verifier_for buf n)"
  by (simp add: new_verifier_def verifier_for_def)

lemma verify_range_unat:
  "verify_range p n v \<longleftrightarrow> unat n < unat (vf_size v) \<and> unat p + unat n \<le> unat (vf_size v)"
proof -
  have "p \<le> vf_size v - n \<longleftrightarrow> unat p + unat n \<le> unat (vf_size v)" if "n < vf_size v"
  proof -
    have "unat (vf_size v - n) = unat (vf_size v) - unat n"
      using that by (simp add: unat_sub less_imp_le)
    moreover have "unat n < unat (vf_size v)" using that by (simp add: word_less_nat_alt)
    ultimately show ?thesis by (auto simp: word_le_nat_alt)
  qed
  then show ?thesis by (auto simp: verify_range_def word_less_nat_alt)
qed

lemma ucast_of_nat_u32:
  assumes "n < 2 ^ 32"
  shows "(ucast (of_nat n :: u32) :: size_t) = of_nat n"
proof -
  have "unat (of_nat n :: u32) = n"
    using assms by (intro unat_of_nat_small) simp
  moreover have "(of_nat (unat (of_nat n :: u32)) :: size_t) = ucast (of_nat n :: u32)"
    by (rule of_nat_unat)
  ultimately show ?thesis by (simp only:)
qed

lemma aligned_4: "k mod 4 = 0 \<Longrightarrow> (of_nat k :: size_t) AND 3 = 0"
proof -
  assume "k mod 4 = 0"
  then obtain m where "k = 4 * m" by auto
  then have "(of_nat k :: size_t) = push_bit 2 (of_nat m)" by (simp add: push_bit_eq_mult)
  moreover have "(3 :: size_t) = mask 2" by (simp add: mask_eq_exp_minus_1)
  ultimately show ?thesis
    by (simp add: bit_eq_iff bit_and_iff bit_mask_iff bit_push_bit_iff)
qed

lemma u32_of_bytes [simp]: "u32_bytes w = [b0, b1, b2, b3] \<Longrightarrow> of_nat (le_nat [b0, b1, b2, b3]) = w"
  using u32_read [of w] by simp

lemma u16_of_bytes [simp]: "le_bytes 2 (unat w) = [b0, b1] \<Longrightarrow> of_nat (le_nat [b0, b1]) = (w :: u16)"
  using u16_read [of w] by simp

lemma empty_table_write:
  "do { (start, f) \<leftarrow> start_table default_builder; Fb_Builder.end_table start f } =
   write_scalar_table d d default_builder"
  by (simp add: write_scalar_table_def start_table_def not_nested_def add_element_def is_the_same_as_def
      fbb_new_def Let_def)

section \<open>Strings\<close>

lemma read_bytes_append:
  assumes "unat p = length pre"
  shows "read_bytes (length bs) (pre @ bs @ post) p = Some bs"
  using assms by (simp add: read_bytes_def)

lemma takeWhile_terminator: "0 \<notin> set s \<Longrightarrow> takeWhile (\<lambda>b. b \<noteq> 0) (s @ 0 # r) = s" for s :: "byte list"
  by (induction s) auto

lemma string_at:
  assumes buf: "buf = pre @ string_bytes s @ post" and k: "length pre = k" "k mod 4 = 0"
    and v: "vf_buf v = buf" "k + length (string_bytes s) \<le> unat (vf_size v)" "unat (vf_size v) < 2 ^ 31"
  shows "verify_string (Some (of_nat k)) v = Some True"
    and "string_str buf (of_nat k) = Some s"
    and "0 \<notin> set s \<Longrightarrow> c_string buf (c_str (of_nat k)) = Some s"
proof -
  have l: "k + length s + 5 \<le> unat (vf_size v)"
    using v(2) length_string_bytes(1) [of s] by linarith
  have ku: "unat (of_nat k :: size_t) = k" "unat (of_nat (k + 4) :: size_t) = k + 4"
    "unat (of_nat (k + (4 + length s)) :: size_t) = k + (4 + length s)"
    "unat (of_nat (4 + length s) :: size_t) = 4 + length s"
    using l v(3) by (intro unat_of_nat_small; simp)+
  have lu: "unat (of_nat (length s) :: u32) = length s"
    using l v(3) by (intro unat_of_nat_small) simp
  have s: "buf = pre @ u32_bytes (of_nat (length s)) @ s @ [0] @ replicate (pad_to (length s + 1) 4) 0 @ post"
    by (simp add: buf string_bytes_def)
  have "read_bytes 4 buf (of_nat k) = Some (u32_bytes (of_nat (length s)))"
    using read_bytes_append [of "of_nat k" pre "u32_bytes (of_nat (length s))"] ku(1) k(1) s by simp
  then have r: "read_u32 buf (of_nat k) = Some (of_nat (length s))"
    by (simp add: read_u32_def u32_read)
  have "read_bytes (length [0 :: byte]) ((pre @ u32_bytes (of_nat (length s)) @ s) @ [0] @
      replicate (pad_to (length s + 1) 4) 0 @ post) (of_nat (k + (4 + length s))) = Some [0]"
    by (rule read_bytes_append) (simp only: ku, simp add: k(1))
  then have z: "read_u8 buf (of_nat (k + (4 + length s))) = Some 0"
    by (simp add: read_u8_def s)
  have uc: "(ucast (of_nat (length s) :: u32) :: size_t) = of_nat (length s)"
    using l v(3) by (intro ucast_of_nat_u32) simp
  show "verify_string (Some (of_nat k)) v = Some True"
  proof -
    have sc: "verify_scalar 4 (of_nat k) v"
      using l ku(1) by (simp add: verify_scalar_def verify_alignment_def aligned_4 [OF k(2)] verify_range_unat)
    have "unat (of_nat (length s) :: size_t) = length s"
      using l v(3) by (intro unat_of_nat_small) simp
    then have small: "(of_nat (length s) :: size_t) < FLATBUFFERS_MAX_BUFFER_SIZE"
      using l v(3) by (simp add: word_less_nat_alt)
    have rg: "verify_range (of_nat k) (of_nat (4 + length s)) v"
      "verify_range (of_nat (k + (4 + length s))) 1 v"
      using l by (simp_all only: verify_range_unat ku) simp_all
    show ?thesis
      using sc r z small rg v(1)
      by (simp add: verify_string_def verify_vector_or_string_def uc Let_def add.assoc)
  qed
  have "read_bytes (length s) ((pre @ u32_bytes (of_nat (length s))) @ s @ [0] @
      replicate (pad_to (length s + 1) 4) 0 @ post) (of_nat (k + 4)) = Some s"
    by (rule read_bytes_append) (simp only: ku, simp add: k(1))
  then show "string_str buf (of_nat k) = Some s"
    using r lu by (simp add: string_str_def vector_size_def c_str_def s add.commute)
  have "drop (k + 4) buf = s @ [0] @ replicate (pad_to (length s + 1) 4) 0 @ post"
    by (simp add: s k(1))
  then show "c_string buf (c_str (of_nat k)) = Some s" if "0 \<notin> set s"
    using that ku(2) by (auto simp: c_string_def c_str_def Let_def add.commute takeWhile_terminator)
qed

lemma fbb_contents_size:
  assumes "fbb_contents b = Some bs"
  shows "get_size b = of_nat (length bs)"
proof -
  have "length bs = unat (get_size b)"
    using assms by (auto simp: fbb_contents_def vd_read_def split: Option.bind_splits option.splits if_splits)
  then show ?thesis by simp
qed

end
