(* ===== verification/Client_Message.thy ===== *)
theory Client_Message
  imports Fb_Table
begin

text \<open>
  \<open>examples/message/client_message_generated.h\<close>: the accessors and checks of the messages a
  client sends.  A \<open>Packet\<close> is a union of a \<open>LoginRequest\<close>, a \<open>LogoutRequest\<close> and a
  \<open>ConnectServerRequest\<close>; a message is a pointer into the buffer, \<open>None\<close> for null.  Names
  start with \<open>cm_\<close>.
\<close>

section \<open>The union\<close>

abbreviation (input) cm_NONE :: byte where "cm_NONE \<equiv> 0"
abbreviation (input) cm_LoginRequest :: byte where "cm_LoginRequest \<equiv> 1"
abbreviation (input) cm_LogoutRequest :: byte where "cm_LogoutRequest \<equiv> 2"
abbreviation (input) cm_ConnectServerRequest :: byte where "cm_ConnectServerRequest \<equiv> 3"

definition cm_enum_values :: "byte list" where
  "cm_enum_values = [cm_NONE, cm_LoginRequest, cm_LogoutRequest, cm_ConnectServerRequest]"

definition cm_enum_names :: "string list" where
  "cm_enum_names = [''NONE'', ''LoginRequest'', ''LogoutRequest'', ''ConnectServerRequest'']"

definition cm_enum_name :: "byte \<Rightarrow> string" where
  "cm_enum_name e =
     (if is_out_range e cm_NONE cm_ConnectServerRequest then '''' else cm_enum_names ! unat e)"

section \<open>Accessors\<close>

definition cm_type_type :: "byte list \<Rightarrow> size_t \<Rightarrow> byte option" where
  "cm_type_type buf p = get_field read_u8 buf p 4 0"

definition cm_type :: "byte list \<Rightarrow> size_t \<Rightarrow> size_t option option" where
  "cm_type buf p = get_pointer buf p 6"

definition cm_type_as :: "byte \<Rightarrow> byte list \<Rightarrow> size_t \<Rightarrow> size_t option option" where
  "cm_type_as want buf p = do {
     ty \<leftarrow> cm_type_type buf p;
     (if ty = want then cm_type buf p else Some None)
   }"

definition cm_id :: "byte list \<Rightarrow> size_t \<Rightarrow> size_t option option" where
  "cm_id buf p = get_pointer buf p 4"

definition cm_password :: "byte list \<Rightarrow> size_t \<Rightarrow> size_t option option" where
  "cm_password buf p = get_pointer buf p 6"

definition cm_server_id :: "byte list \<Rightarrow> size_t \<Rightarrow> u16 option" where
  "cm_server_id buf p = get_field read_u16 buf p 4 (- 1)"

section \<open>Verification\<close>

definition cm_verify_LoginRequest :: "size_t \<Rightarrow> vcheck" where
  "cm_verify_LoginRequest p =
     vall [table_verify_start p, table_verify_offset p 4, verify_string_field p 4,
       table_verify_offset p 6, verify_string_field p 6, end_table]"

definition cm_verify_ConnectServerRequest :: "size_t \<Rightarrow> vcheck" where
  "cm_verify_ConnectServerRequest p =
     vall [table_verify_start p, table_verify_field 2 p 4 2, end_table]"

definition cm_verify_LogoutRequest :: "size_t \<Rightarrow> vcheck" where
  "cm_verify_LogoutRequest p = vall [table_verify_start p, end_table]"

definition cm_verify_packet_type :: "size_t option \<Rightarrow> byte \<Rightarrow> vcheck" where
  "cm_verify_packet_type obj type =
     (if type = cm_NONE then vpure (\<lambda>v. True)
      else if type = cm_LoginRequest then verify_table cm_verify_LoginRequest obj
      else if type = cm_LogoutRequest then verify_table cm_verify_LogoutRequest obj
      else if type = cm_ConnectServerRequest then verify_table cm_verify_ConnectServerRequest obj
      else vpure (\<lambda>v. True))"

definition cm_verify_union :: "size_t \<Rightarrow> vcheck" where
  "cm_verify_union p v = do {
     obj \<leftarrow> cm_type (vf_buf v) p;
     ty \<leftarrow> cm_type_type (vf_buf v) p;
     cm_verify_packet_type obj ty v
   }"

definition cm_verify_Packet :: "size_t \<Rightarrow> vcheck" where
  "cm_verify_Packet p =
     vall [table_verify_start p, table_verify_field 1 p 4 1, table_verify_offset p 6,
       cm_verify_union p, end_table]"

text \<open>A vector of unions comes as a vector of offsets and a vector of types.\<close>

fun cm_verify_types_from :: "nat \<Rightarrow> u32 \<Rightarrow> size_t \<Rightarrow> size_t \<Rightarrow> vcheck" where
  "cm_verify_types_from 0 i values types v = Some (True, v)"
| "cm_verify_types_from (Suc n) i values types v = do {
     obj \<leftarrow> vector_get_offset (vf_buf v) values i;
     ty \<leftarrow> read_u8 (vf_buf v) (types + 4 + ucast i);
     (ok, v) \<leftarrow> cm_verify_packet_type (Some obj) ty v;
     (if ok then cm_verify_types_from n (i + 1) values types v else Some (False, v))
   }"

definition cm_verify_packet_type_vector :: "size_t option \<Rightarrow> size_t option \<Rightarrow> vcheck" where
  "cm_verify_packet_type_vector values types v =
     (case (values, types) of
        (Some vs, Some ts) \<Rightarrow> do {
          n \<leftarrow> vector_size (vf_buf v) vs;
          m \<leftarrow> vector_size (vf_buf v) ts;
          (if n \<noteq> m then Some (False, v) else cm_verify_types_from (unat n) 0 vs ts v)
        }
      | _ \<Rightarrow> Some (values = None \<and> types = None, v))"

definition cm_get_Packet :: "byte list \<Rightarrow> size_t option" where
  "cm_get_Packet buf = get_root buf 0"

definition cm_get_size_prefixed_Packet :: "byte list \<Rightarrow> size_t option" where
  "cm_get_size_prefixed_Packet buf = get_size_prefixed_root buf 0"

definition cm_verify_packet_buffer :: vcheck where
  "cm_verify_packet_buffer = verify_buffer cm_verify_Packet None"

definition cm_verify_size_prefixed_packet_buffer :: vcheck where
  "cm_verify_size_prefixed_packet_buffer = verify_size_prefixed_buffer cm_verify_Packet None"

section \<open>The checks never leave the buffer\<close>

interpretation cm_login: verified_type cm_verify_LoginRequest
proof
  fix v p assume v: "vf_ok v"
  show "safe_check (cm_verify_LoginRequest p) v"
    unfolding cm_verify_LoginRequest_def
    by (rule safe_vall_start [OF v], rule safe_vall_offset, assumption+, simp,
        rule safe_vall_string, assumption+, rule safe_vall_offset, assumption+, simp,
        rule safe_vall_string, assumption+, rule safe_end_table)
qed

interpretation cm_logout: verified_type cm_verify_LogoutRequest
proof
  fix v p assume v: "vf_ok v"
  show "safe_check (cm_verify_LogoutRequest p) v"
    unfolding cm_verify_LogoutRequest_def
    by (rule safe_vall_start [OF v]) (rule safe_end_table)
qed

interpretation cm_connect: verified_type cm_verify_ConnectServerRequest
proof
  fix v p assume v: "vf_ok v"
  show "safe_check (cm_verify_ConnectServerRequest p) v"
    unfolding cm_verify_ConnectServerRequest_def
    by (rule safe_vall_start [OF v], rule safe_vall_field, assumption+, simp, rule safe_end_table)
qed

lemma cm_verify_packet_type_safe:
  assumes "vf_ok v"
  shows "safe_check (cm_verify_packet_type obj ty) v"
  using cm_login.verify_table_safe [OF assms] cm_logout.verify_table_safe [OF assms]
    cm_connect.verify_table_safe [OF assms]
  by (simp add: cm_verify_packet_type_def safe_vpure)

lemma cm_type_type_defined:
  "field_readable 1 buf p 4 \<Longrightarrow> \<exists>ty. cm_type_type buf p = Some ty"
  unfolding cm_type_type_def by (rule get_field_readable) (auto intro: read_defined(1))

interpretation cm_packet: verified_type cm_verify_Packet
proof
  fix v p assume v: "vf_ok v"
  show "safe_check (cm_verify_Packet p) v"
    unfolding cm_verify_Packet_def
  proof (rule safe_vall_start [OF v], rule safe_vall_field, assumption+, simp,
      rule safe_vall_offset, assumption+, simp)
    fix v1
    assume v1: "vf_ok v1" and f: "field_readable (unat 1) (vf_buf v1) p 4"
      and q: "pointer_inside (vf_buf v1) p 6"
    from f have "field_readable 1 (vf_buf v1) p 4" by simp
    then obtain ty where "cm_type_type (vf_buf v1) p = Some ty"
      using cm_type_type_defined by blast
    moreover obtain obj where "cm_type (vf_buf v1) p = Some obj"
      using pointer_inside_defined [OF q] by (auto simp: cm_type_def)
    moreover obtain ok v2 where c: "cm_verify_packet_type obj ty v1 = Some (ok, v2)" "same_buffer v1 v2"
      using cm_verify_packet_type_safe [OF v1, of obj ty] by (auto simp: safe_check_def)
    ultimately show "safe_check (vall [cm_verify_union p, end_table]) v1"
      by (intro safe_vall_Cons [of _ _ ok v2] safe_end_table) (simp_all add: cm_verify_union_def)
  qed
qed

section \<open>What a verified packet looks like\<close>

definition cm_login_ok :: "byte list \<Rightarrow> size_t \<Rightarrow> bool" where
  "cm_login_ok buf p \<longleftrightarrow> string_field_ok buf p 4 \<and> string_field_ok buf p 6"

text \<open>The union is absent, or leads to a message of the announced type.\<close>

definition cm_packet_ok :: "byte list \<Rightarrow> size_t \<Rightarrow> bool" where
  "cm_packet_ok buf p \<longleftrightarrow> (\<exists>ty obj. cm_type_type buf p = Some ty \<and> cm_type buf p = Some obj \<and>
     (case obj of None \<Rightarrow> True
      | Some q \<Rightarrow> (ty = cm_LoginRequest \<longrightarrow> cm_login_ok buf q) \<and>
          (ty = cm_ConnectServerRequest \<longrightarrow> field_readable 2 buf q 4)))"

lemma cm_verified_login:
  assumes v: "vf_ok v" and r: "cm_verify_LoginRequest p v = Some (True, v')"
  shows "cm_login_ok (vf_buf v) p"
proof -
  obtain v1 where 1: "table_verify_start p v = Some (True, v1)"
    and r1: "vall [table_verify_offset p 4, verify_string_field p 4, table_verify_offset p 6,
      verify_string_field p 6, end_table] v1 = Some (True, v')"
    using r unfolding cm_verify_LoginRequest_def by (rule vall_ConsD)
  note s = verified_start [OF v 1]
  have buf: "vf_buf v1 = vf_buf v" using s(2) by (simp add: same_buffer_def)
  have t: "table_ok (vf_buf v1) p" using s(1) buf by simp
  obtain v2 where 2: "table_verify_offset p 4 v1 = Some (True, v2)"
    and r2: "vall [verify_string_field p 4, table_verify_offset p 6, verify_string_field p 6,
      end_table] v2 = Some (True, v')"
    using r1 by (rule vall_ConsD)
  have v2: "v2 = v1" using verified_offset(2) [OF s(3) t _ 2] by simp
  obtain v3 where 3: "verify_string_field p 4 v1 = Some (True, v3)"
    and r3: "vall [table_verify_offset p 6, verify_string_field p 6, end_table] v3 = Some (True, v')"
    using r2 unfolding v2 by (rule vall_ConsD)
  note f3 = verified_string [OF s(3) 3]
  obtain v4 where 4: "table_verify_offset p 6 v1 = Some (True, v4)"
    and r4: "vall [verify_string_field p 6, end_table] v4 = Some (True, v')"
    using r3 unfolding f3(2) by (rule vall_ConsD)
  have v4: "v4 = v1" using verified_offset(2) [OF s(3) t _ 4] by simp
  obtain v5 where 5: "verify_string_field p 6 v1 = Some (True, v5)"
    using r4 unfolding v4 by (rule vall_ConsD)
  show ?thesis
    using f3(1) verified_string(1) [OF s(3) 5] buf by (simp add: cm_login_ok_def)
qed

lemma cm_verified_connect:
  assumes v: "vf_ok v" and r: "cm_verify_ConnectServerRequest p v = Some (True, v')"
  shows "field_readable 2 (vf_buf v) p 4"
proof -
  obtain v1 where 1: "table_verify_start p v = Some (True, v1)"
    and r1: "vall [table_verify_field 2 p 4 2, end_table] v1 = Some (True, v')"
    using r unfolding cm_verify_ConnectServerRequest_def by (rule vall_ConsD)
  note s = verified_start [OF v 1]
  have buf: "vf_buf v1 = vf_buf v" using s(2) by (simp add: same_buffer_def)
  obtain v2 where 2: "table_verify_field 2 p 4 2 v1 = Some (True, v2)"
    using r1 by (rule vall_ConsD)
  show ?thesis
    using verified_field(1) [OF s(3) _ _ 2] s(1) buf by simp
qed

lemma cm_verified_packet:
  assumes v: "vf_ok v" and r: "cm_verify_Packet p v = Some (True, v')"
  shows "cm_packet_ok (vf_buf v) p"
proof -
  obtain v1 where 1: "table_verify_start p v = Some (True, v1)"
    and r1: "vall [table_verify_field 1 p 4 1, table_verify_offset p 6, cm_verify_union p,
      end_table] v1 = Some (True, v')"
    using r unfolding cm_verify_Packet_def by (rule vall_ConsD)
  note s = verified_start [OF v 1]
  have buf: "vf_buf v1 = vf_buf v" using s(2) by (simp add: same_buffer_def)
  have t: "table_ok (vf_buf v1) p" using s(1) buf by simp
  obtain v2 where 2: "table_verify_field 1 p 4 1 v1 = Some (True, v2)"
    and r2: "vall [table_verify_offset p 6, cm_verify_union p, end_table] v2 = Some (True, v')"
    using r1 by (rule vall_ConsD)
  have v2: "v2 = v1" using verified_field(2) [OF s(3) t _ 2] by simp
  obtain v3 where 3: "table_verify_offset p 6 v1 = Some (True, v3)"
    and r3: "vall [cm_verify_union p, end_table] v3 = Some (True, v')"
    using r2 unfolding v2 by (rule vall_ConsD)
  have v3: "v3 = v1" using verified_offset(2) [OF s(3) t _ 3] by simp
  obtain v4 where 4: "cm_verify_union p v1 = Some (True, v4)"
    using r3 unfolding v3 by (rule vall_ConsD)
  then obtain obj ty where o: "cm_type (vf_buf v1) p = Some obj" "cm_type_type (vf_buf v1) p = Some ty"
      "cm_verify_packet_type obj ty v1 = Some (True, v4)"
    by (auto simp: cm_verify_union_def split: bind_splits)
  show ?thesis
    using o cm_verified_login [OF s(3)] cm_verified_connect [OF s(3)]
    by (cases obj) (auto simp: cm_packet_ok_def cm_verify_packet_type_def verify_table_def simp flip: buf)
qed

lemma cm_verified_buffer:
  assumes "vf_ok v" and "cm_verify_packet_buffer v = Some (True, v')"
  obtains root where "cm_get_Packet (vf_buf v) = Some root" and "cm_packet_ok (vf_buf v) root"
  using cm_packet.verify_buffer_root [OF assms(1) assms(2) [unfolded cm_verify_packet_buffer_def]]
    cm_verified_packet [OF assms(1)] by (metis cm_get_Packet_def)

end
