(* ===== verification/Client_Message_Build.thy ===== *)
theory Client_Message_Build
  imports Fb_Roundtrip Client_Message
begin

text \<open>
  The builders of \<open>examples/message/client_message_generated.h\<close>.  A builder object is its
  \<open>start_\<close> together with the \<open>FlatBufferBuilder\<close> it refers to; its constructor starts a table,
  its \<open>add_\<close> methods write fields and \<open>Finish\<close> ends the table.
\<close>

section \<open>\<open>PacketBuilder\<close>\<close>

definition cm_PacketBuilder :: "fb_builder \<Rightarrow> (uoffset_t \<times> fb_builder) option" where
  "cm_PacketBuilder fbb = start_table fbb"

definition cm_add_type_type :: "byte \<Rightarrow> fb_builder \<Rightarrow> fb_builder option" where
  "cm_add_type_type type_type fbb = add_element 4 [type_type] [0] fbb"

definition cm_add_type :: "uoffset_t \<Rightarrow> fb_builder \<Rightarrow> fb_builder option" where
  "cm_add_type type fbb = add_offset 6 type fbb"

definition cm_PacketBuilder_Finish :: "uoffset_t \<Rightarrow> fb_builder \<Rightarrow> (uoffset_t \<times> fb_builder) option" where
  "cm_PacketBuilder_Finish start fbb = Fb_Builder.end_table start fbb"

definition cm_create_Packet ::
  "byte \<Rightarrow> uoffset_t \<Rightarrow> fb_builder \<Rightarrow> (uoffset_t \<times> fb_builder) option" where
  "cm_create_Packet type_type type fbb = do {
     (start, fbb) \<leftarrow> cm_PacketBuilder fbb;
     fbb \<leftarrow> cm_add_type type fbb;
     fbb \<leftarrow> cm_add_type_type type_type fbb;
     cm_PacketBuilder_Finish start fbb
   }"

section \<open>\<open>LoginRequestBuilder\<close>\<close>

definition cm_LoginRequestBuilder :: "fb_builder \<Rightarrow> (uoffset_t \<times> fb_builder) option" where
  "cm_LoginRequestBuilder fbb = start_table fbb"

definition cm_add_id :: "uoffset_t \<Rightarrow> fb_builder \<Rightarrow> fb_builder option" where
  "cm_add_id off fbb = add_offset 4 off fbb"

definition cm_add_password :: "uoffset_t \<Rightarrow> fb_builder \<Rightarrow> fb_builder option" where
  "cm_add_password off fbb = add_offset 6 off fbb"

definition cm_LoginRequestBuilder_Finish ::
  "uoffset_t \<Rightarrow> fb_builder \<Rightarrow> (uoffset_t \<times> fb_builder) option" where
  "cm_LoginRequestBuilder_Finish start fbb = Fb_Builder.end_table start fbb"

definition cm_create_LoginRequest ::
  "uoffset_t \<Rightarrow> uoffset_t \<Rightarrow> fb_builder \<Rightarrow> (uoffset_t \<times> fb_builder) option" where
  "cm_create_LoginRequest id_off password fbb = do {
     (start, fbb) \<leftarrow> cm_LoginRequestBuilder fbb;
     fbb \<leftarrow> cm_add_password password fbb;
     fbb \<leftarrow> cm_add_id id_off fbb;
     cm_LoginRequestBuilder_Finish start fbb
   }"

text \<open>The C strings may be null pointers.\<close>

definition cm_create_LoginRequest_direct ::
  "byte list option \<Rightarrow> byte list option \<Rightarrow> fb_builder \<Rightarrow> (uoffset_t \<times> fb_builder) option" where
  "cm_create_LoginRequest_direct id_str password_str fbb = do {
     (id_off, fbb) \<leftarrow> (case id_str of Some s \<Rightarrow> create_cstring s fbb | None \<Rightarrow> Some (0, fbb));
     (password, fbb) \<leftarrow> (case password_str of Some s \<Rightarrow> create_cstring s fbb | None \<Rightarrow> Some (0, fbb));
     cm_create_LoginRequest id_off password fbb
   }"

section \<open>\<open>ConnectServerRequestBuilder\<close>\<close>

definition cm_ConnectServerRequestBuilder :: "fb_builder \<Rightarrow> (uoffset_t \<times> fb_builder) option" where
  "cm_ConnectServerRequestBuilder fbb = start_table fbb"

definition cm_add_server_id :: "u16 \<Rightarrow> fb_builder \<Rightarrow> fb_builder option" where
  "cm_add_server_id server_id fbb =
     add_element 4 (le_bytes 2 (unat server_id)) (le_bytes 2 (unat (- 1 :: u16))) fbb"

definition cm_ConnectServerRequestBuilder_Finish ::
  "uoffset_t \<Rightarrow> fb_builder \<Rightarrow> (uoffset_t \<times> fb_builder) option" where
  "cm_ConnectServerRequestBuilder_Finish start fbb = Fb_Builder.end_table start fbb"

definition cm_create_ConnectServerRequest ::
  "u16 \<Rightarrow> fb_builder \<Rightarrow> (uoffset_t \<times> fb_builder) option" where
  "cm_create_ConnectServerRequest server_id fbb = do {
     (start, fbb) \<leftarrow> cm_ConnectServerRequestBuilder fbb;
     fbb \<leftarrow> cm_add_server_id server_id fbb;
     cm_ConnectServerRequestBuilder_Finish start fbb
   }"

section \<open>\<open>LogoutRequestBuilder\<close>\<close>

definition cm_LogoutRequestBuilder :: "fb_builder \<Rightarrow> (uoffset_t \<times> fb_builder) option" where
  "cm_LogoutRequestBuilder fbb = start_table fbb"

definition cm_LogoutRequestBuilder_Finish ::
  "uoffset_t \<Rightarrow> fb_builder \<Rightarrow> (uoffset_t \<times> fb_builder) option" where
  "cm_LogoutRequestBuilder_Finish start fbb = Fb_Builder.end_table start fbb"

definition cm_create_LogoutRequest :: "fb_builder \<Rightarrow> (uoffset_t \<times> fb_builder) option" where
  "cm_create_LogoutRequest fbb = do {
     (start, fbb) \<leftarrow> cm_LogoutRequestBuilder fbb;
     cm_LogoutRequestBuilder_Finish start fbb
   }"

section \<open>Finishing\<close>

definition cm_finish_packet_buffer :: "uoffset_t \<Rightarrow> fb_builder \<Rightarrow> fb_builder option" where
  "cm_finish_packet_buffer root fbb = fbb_finish root fbb"

definition cm_finish_size_prefixed_packet_buffer :: "uoffset_t \<Rightarrow> fb_builder \<Rightarrow> fb_builder option" where
  "cm_finish_size_prefixed_packet_buffer root fbb = finish_size_prefixed root fbb"

section \<open>What the builders write\<close>

lemma cm_create_Packet_write: "cm_create_Packet = write_packet"
  by (intro ext) (simp add: cm_create_Packet_def cm_PacketBuilder_def cm_add_type_def cm_add_type_type_def
      cm_PacketBuilder_Finish_def write_packet_def)


lemmas cm_create_defs =
  cm_create_LoginRequest_def cm_LoginRequestBuilder_def cm_add_id_def cm_add_password_def
  cm_LoginRequestBuilder_Finish_def cm_create_LoginRequest_direct_def
  cm_create_LogoutRequest_def cm_LogoutRequestBuilder_def cm_LogoutRequestBuilder_Finish_def
  cm_create_ConnectServerRequest_def cm_ConnectServerRequestBuilder_def cm_add_server_id_def
  cm_ConnectServerRequestBuilder_Finish_def

lemma cm_connect_request_bytes:
  "do { (r, f) \<leftarrow> cm_create_ConnectServerRequest sid default_builder;
        (p, f) \<leftarrow> cm_create_Packet 3 r f;
        f \<leftarrow> fbb_finish p f;
        fbb_contents f } = Some (scalar_message 3 (le_bytes 2 (unat sid)) (le_bytes 2 (unat (- 1 :: u16))))"
  using write_scalar_message [of "le_bytes 2 (unat sid)" 2 3 "le_bytes 2 (unat (- 1 :: u16))"]
  by (simp add: cm_create_Packet_write cm_create_defs write_scalar_table_def)

lemma cm_logout_request_bytes:
  "do { (r, f) \<leftarrow> cm_create_LogoutRequest default_builder;
        (p, f) \<leftarrow> cm_create_Packet 2 r f;
        f \<leftarrow> fbb_finish p f;
        fbb_contents f } = Some (scalar_message 2 (u32_bytes 0) (u32_bytes 0))"
  using write_scalar_message [of "u32_bytes 0" 4 2 "u32_bytes 0"] empty_table_write [of "u32_bytes 0"]
  by (simp add: cm_create_Packet_write cm_create_defs)

lemma cm_create_LoginRequest_write: "cm_create_LoginRequest = write_two_offsets"
  by (intro ext) (simp add: cm_create_defs write_two_offsets_def)

lemma cm_login_request_bytes:
  assumes "0 \<notin> set s4" and "0 \<notin> set s6" and "length s4 + length s6 < 2 ^ 30"
  shows "do { (r, f) \<leftarrow> cm_create_LoginRequest_direct (Some (s4 @ [0])) (Some (s6 @ [0])) default_builder;
        (p, f) \<leftarrow> cm_create_Packet 1 r f;
        f \<leftarrow> fbb_finish p f;
        fbb_contents f } = Some (login_message s4 s6)"
  using write_login_message [OF assms(3)] assms(1,2)
  by (simp add: cm_create_Packet_write cm_create_LoginRequest_write cm_create_LoginRequest_direct_def
      create_cstring_def takeWhile_terminator split_def)

section \<open>What the accessors read\<close>

lemmas cm_eval = cm_verify_packet_buffer_def cm_verify_Packet_def cm_verify_union_def cm_type_def
  cm_type_type_def cm_verify_packet_type_def cm_verify_LogoutRequest_def
  cm_verify_ConnectServerRequest_def cm_type_as_def cm_server_id_def cm_get_Packet_def

lemma cm_read_logout:
  assumes msg: "msg = scalar_message 2 (u32_bytes 0) (u32_bytes 0)"
  shows "\<exists>v t. cm_verify_packet_buffer (verifier_for (msg @ rest) (of_nat (length msg))) = Some (True, v) \<and>
    cm_get_Packet (msg @ rest) = Some 12 \<and> cm_type_type (msg @ rest) 12 = Some 2 \<and>
    cm_type_as 2 (msg @ rest) 12 = Some (Some t)"
proof -
  have "msg = [12, 0, 0, 0, 8, 0, 12, 0, 7, 0, 8, 0, 8, 0, 0, 0, 0, 0, 0, 2, 8, 0, 0, 0, 4, 0, 4, 0, 4, 0, 0, 0]"
    by (simp add: msg scalar_message_def packet_vtable_def le_bytes_numeral u32_bytes_def)
  then show ?thesis
    unfolding verifier_for_def
    by (intro exI [of _ 28] exI) (simp add: cm_eval read_eval verifier_eval verify_range_def table_eval)
qed

lemma cm_read_connect:
  assumes msg: "msg = scalar_message 3 (le_bytes 2 (unat sid)) (le_bytes 2 (unat (- 1 :: u16)))"
  shows "\<exists>v t. cm_verify_packet_buffer (verifier_for (msg @ rest) (of_nat (length msg))) = Some (True, v) \<and>
    cm_get_Packet (msg @ rest) = Some 12 \<and> cm_type_type (msg @ rest) 12 = Some 3 \<and>
    cm_type_as 3 (msg @ rest) 12 = Some (Some t) \<and> cm_server_id (msg @ rest) t = Some sid"
proof -
  have same: "le_bytes 2 (unat sid) = le_bytes 2 (unat (- 1 :: u16)) \<longleftrightarrow> sid = - 1"
    using u16_read by metis
  obtain b0 b1 where b: "le_bytes 2 (unat sid) = [b0, b1]" by (simp add: le_bytes_numeral)
  show ?thesis
  proof (cases "sid = - 1")
    case True
    have "msg = [12, 0, 0, 0, 8, 0, 12, 0, 7, 0, 8, 0, 8, 0, 0, 0, 0, 0, 0, 3, 8, 0, 0, 0, 4, 0, 4, 0, 4, 0, 0, 0]"
      unfolding msg scalar_message_def same using True
      by (simp add: packet_vtable_def le_bytes_numeral u32_bytes_def)
    then show ?thesis
      using True unfolding verifier_for_def
      by (intro exI [of _ 28] exI) (simp add: cm_eval read_eval verifier_eval verify_range_def table_eval)
  next
    case False
    have "msg = [12, 0, 0, 0, 8, 0, 14, 0, 7, 0, 8, 0, 8, 0, 0, 0, 0, 0, 0, 3, 12, 0, 0, 0,
        0, 0, 6, 0, 8, 0, 6, 0, 6, 0, 0, 0, 0, 0, b0, b1]"
      unfolding msg scalar_message_def same using False
      by (simp add: b) (simp add: packet_vtable_def le_bytes_numeral u32_bytes_def replicate_numeral)
    then show ?thesis
      using u16_of_bytes [OF b] unfolding verifier_for_def
      by (intro exI [of _ 32] exI) (simp add: cm_eval read_eval verifier_eval verify_range_def table_eval)
  qed
qed

text \<open>The bytes at the fixed positions of a login message.\<close>

definition login_header :: "byte list \<Rightarrow> u32 \<Rightarrow> bool" where
  "login_header buf w \<longleftrightarrow>
     read_u32 buf 0 = Some 12 \<and> read_u16 buf 4 = Some 8 \<and> read_u16 buf 8 = Some 7 \<and>
     read_u16 buf 10 = Some 8 \<and> read_u32 buf 12 = Some 8 \<and> read_u8 buf 19 = Some 1 \<and>
     read_u32 buf 20 = Some 12 \<and> read_u16 buf 24 = Some 8 \<and> read_u16 buf 28 = Some 4 \<and>
     read_u16 buf 30 = Some 8 \<and> read_u32 buf 32 = Some 8 \<and> read_u32 buf 36 = Some w \<and>
     read_u32 buf 40 = Some 4"

lemma login_header_accessors:
  assumes "login_header buf w"
  shows "cm_get_Packet buf = Some 12" and "cm_type_type buf 12 = Some 1"
    and "cm_type buf 12 = Some (Some 32)"
    and "cm_id buf 32 = Some (Some (36 + ucast w))" and "cm_password buf 32 = Some (Some 44)"
  using assms by (simp_all add: login_header_def cm_eval table_eval cm_id_def cm_password_def)

lemma login_header_verified:
  assumes h: "login_header (vf_buf v) w" and sz: "44 < unat (vf_size v)"
    and w: "w \<noteq> 0" "\<not> sint w < 0" "36 + unat w < unat (vf_size v)"
    and opts: "vf_opts v = default_options" "vf_depth v = 0" "vf_num_tables v = 0"
    and s4: "\<And>d n. verify_string (Some (36 + ucast w)) (v\<lparr>vf_depth := d, vf_num_tables := n\<rparr>) = Some True"
    and s6: "\<And>d n. verify_string (Some 44) (v\<lparr>vf_depth := d, vf_num_tables := n\<rparr>) = Some True"
  shows "\<exists>v'. cm_verify_packet_buffer v = Some (True, v')"
proof -
  have "unat w < 2 ^ 32" using unsigned_less [of w] by simp
  then have u: "unat (36 + ucast w :: size_t) = 36 + unat w"
    by (simp add: unat_add_lem [THEN iffD1])
  have "12 \<le> vf_size v" using sz by (simp add: word_le_nat_alt)
  then show ?thesis
    using h [unfolded login_header_def] sz w opts s4 s6 u
    by (simp add: cm_eval table_eval verifier_eval cm_verify_LoginRequest_def verify_string_field_def
        verify_range_unat)
qed

lemma cm_read_login:
  fixes s4 s6 rest :: "byte list"
  defines "buf \<equiv> login_message s4 s6 @ rest" and "k \<equiv> 44 + length (string_bytes s6)"
  assumes small: "length s4 + length s6 < 2 ^ 30"
  shows "\<exists>v. cm_verify_packet_buffer (verifier_for buf (of_nat (length (login_message s4 s6)))) = Some (True, v)"
    and "cm_get_Packet buf = Some 12" and "cm_type_type buf 12 = Some 1"
    and "cm_type buf 12 = Some (Some 32)"
    and "cm_id buf 32 = Some (Some (of_nat k))" and "cm_password buf 32 = Some (Some 44)"
    and "string_str buf (of_nat k) = Some s4" and "string_str buf 44 = Some s6"
    and "0 \<notin> set s4 \<Longrightarrow> c_string buf (c_str (of_nat k)) = Some s4"
    and "0 \<notin> set s6 \<Longrightarrow> c_string buf (c_str 44) = Some s6"
proof -
  let ?n4 = "length (string_bytes s4)" and ?n6 = "length (string_bytes s6)"
  let ?w = "of_nat (?n6 + 8) :: u32"
  have l: "?n4 \<le> length s4 + 8" "?n6 \<le> length s6 + 8" "5 \<le> ?n4" "5 \<le> ?n6"
    using length_string_bytes [of s4] length_string_bytes [of s6] by simp_all
  obtain c0 c1 c2 c3 where c: "u32_bytes ?w = [c0, c1, c2, c3]"
    by (simp add: u32_bytes_def le_bytes_numeral)
  obtain hdr where hdr: "hdr = [12, 0, 0, 0, 8, 0, 12, 0, 7, 0, 8, 0, 8, 0, 0, 0, 0, 0, 0, 1, 12, 0, 0, 0,
    8, 0, 12, 0, 4, 0, 8, 0, 8, 0, 0, 0, c0, c1, c2, c3, 4, 0, 0, 0]" by simp
  have b: "login_message s4 s6 = hdr @ string_bytes s6 @ string_bytes s4"
    unfolding login_message_def c hdr
    by (simp add: packet_vtable_def le_bytes_numeral u32_bytes_def)
  have buf: "buf = hdr @ string_bytes s6 @ string_bytes s4 @ rest"
    "buf = (hdr @ string_bytes s6) @ string_bytes s4 @ rest"
    by (simp_all add: buf_def b)
  have hl: "length hdr = 44" by (simp add: hdr)
  have len: "length (login_message s4 s6) = k + ?n4"
    by (simp add: b hl k_def)
  have wu: "unat ?w = ?n6 + 8"
    using small l by (intro unat_of_nat_small) simp
  have H: "login_header buf ?w"
    unfolding login_header_def buf(1) hdr using u32_of_bytes [OF c] by (simp add: read_eval)
  have m: "?n6 mod 4 = 0" by (rule string_bytes_mod)
  then have k4: "k mod 4 = 0" unfolding k_def by presburger
  have ks: "k + ?n4 < 2 ^ 31" using small l unfolding k_def by simp
  have kw: "36 + ucast ?w = (of_nat k :: size_t)"
    using small l by (simp add: ucast_of_nat_u32 k_def del: of_nat_add) (simp add: k_def)
  have "unat (of_nat (k + ?n4) :: size_t) = k + ?n4"
    using ks by (intro unat_of_nat_small) simp
  then have v: "vf_buf v = buf" "unat (vf_size v) = k + ?n4"
    if "v = (verifier_for buf (of_nat (k + ?n4)))\<lparr>vf_depth := d, vf_num_tables := n\<rparr>" for v d n
    using that by (simp_all add: verifier_for_def)
  have hl2: "length (hdr @ string_bytes s6) = k" by (simp add: hl k_def)
  let ?v = "verifier_for buf (of_nat (k + ?n4))"
  have l6: "44 + ?n6 \<le> k + ?n4" by (simp add: k_def)
  note s6 = string_at [OF buf(1) hl _ v(1), OF _ refl]
  note s4 = string_at [OF buf(2) hl2 k4 v(1), OF refl]
  show "cm_get_Packet buf = Some 12" "cm_type_type buf 12 = Some 1" "cm_type buf 12 = Some (Some 32)"
    "cm_id buf 32 = Some (Some (of_nat k))" "cm_password buf 32 = Some (Some 44)"
    using login_header_accessors [OF H] kw by simp_all
  have S4: "verify_string (Some (of_nat k)) (?v\<lparr>vf_depth := d, vf_num_tables := n\<rparr>) = Some True" for d n
    by (rule s4(1)) (use v [OF refl] ks in simp_all)
  show "string_str buf (of_nat k) = Some s4"
    by (rule s4(2)) (use v [OF refl] ks in simp_all)
  show "0 \<notin> set s4 \<Longrightarrow> c_string buf (c_str (of_nat k)) = Some s4"
    by (rule s4(3)) (use v [OF refl] ks in simp_all)
  have S6: "verify_string (Some 44) (?v\<lparr>vf_depth := d, vf_num_tables := n\<rparr>) = Some True" for d n
    using s6(1) [of n d] v [OF refl] ks l6 by simp
  show "string_str buf 44 = Some s6"
    using s6(2) v [OF refl] ks l6 by simp
  show "0 \<notin> set s6 \<Longrightarrow> c_string buf (c_str 44) = Some s6"
    using s6(3) v [OF refl] ks l6 by simp
  have v0: "?v = ?v\<lparr>vf_depth := 0, vf_num_tables := 0\<rparr>" by (simp add: verifier_for_def)
  show "\<exists>v. cm_verify_packet_buffer (verifier_for buf (of_nat (length (login_message s4 s6)))) = Some (True, v)"
    unfolding len
  proof (rule login_header_verified [of _ ?w])
    show "login_header (vf_buf ?v) ?w" using H by (simp add: verifier_for_def)
    show "44 < unat (vf_size ?v)" "36 + unat ?w < unat (vf_size ?v)"
      using v(2) [OF v0] wu l by (simp_all only: k_def)
    show "?w \<noteq> 0" using wu by (metis unat_0 add_is_0 zero_neq_numeral)
    show "\<not> sint ?w < 0" by (rule sint_nonneg_u32) (use wu small l in simp)
    show "verify_string (Some (36 + ucast ?w)) (?v\<lparr>vf_depth := d, vf_num_tables := n\<rparr>) = Some True" for d n
      unfolding kw by (rule S4)
  qed (rule S6 | simp add: verifier_for_def)+
qed

section \<open>Round trip\<close>

text \<open>The client's packets as data; the strings are C strings without their terminator.\<close>

datatype client_packet =
  LoginRequest "byte list" "byte list" | LogoutRequest | ConnectServerRequest u16

fun client_packet_ok :: "client_packet \<Rightarrow> bool" where
  "client_packet_ok (LoginRequest s4 s6) \<longleftrightarrow> 0 \<notin> set s4 \<and> 0 \<notin> set s6 \<and> length s4 + length s6 < 2 ^ 30"
| "client_packet_ok _ \<longleftrightarrow> True"

fun client_packet_bytes :: "client_packet \<Rightarrow> byte list" where
  "client_packet_bytes (LoginRequest s4 s6) = login_message s4 s6"
| "client_packet_bytes LogoutRequest = scalar_message 2 (u32_bytes 0) (u32_bytes 0)"
| "client_packet_bytes (ConnectServerRequest sid) =
     scalar_message 3 (le_bytes 2 (unat sid)) (le_bytes 2 (unat (- 1 :: u16)))"

text \<open>Building a packet: its table, the \<open>Packet\<close> around it, \<open>Finish\<close>.\<close>

definition build_client_union :: "client_packet \<Rightarrow> fb_builder \<Rightarrow> (uoffset_t \<times> fb_builder) option" where
  "build_client_union m fbb =
     (case m of
        LoginRequest s4 s6 \<Rightarrow> cm_create_LoginRequest_direct (Some (s4 @ [0])) (Some (s6 @ [0])) fbb
      | LogoutRequest \<Rightarrow> cm_create_LogoutRequest fbb
      | ConnectServerRequest sid \<Rightarrow> cm_create_ConnectServerRequest sid fbb)"

definition client_packet_type :: "client_packet \<Rightarrow> byte" where
  "client_packet_type m =
     (case m of LoginRequest s4 s6 \<Rightarrow> cm_LoginRequest | LogoutRequest \<Rightarrow> cm_LogoutRequest
      | ConnectServerRequest sid \<Rightarrow> cm_ConnectServerRequest)"

definition build_client_packet :: "client_packet \<Rightarrow> fb_builder option" where
  "build_client_packet m = do {
     (r, fbb) \<leftarrow> build_client_union m default_builder;
     (p, fbb) \<leftarrow> cm_create_Packet (client_packet_type m) r fbb;
     fbb_finish p fbb
   }"

text \<open>Reading a packet through the accessors.\<close>

definition read_client_packet :: "byte list \<Rightarrow> client_packet option" where
  "read_client_packet buf = do {
     root \<leftarrow> cm_get_Packet buf;
     ty \<leftarrow> cm_type_type buf root;
     t \<leftarrow> cm_type_as ty buf root;
     t \<leftarrow> t;
     (if ty = cm_LoginRequest then do {
        p4 \<leftarrow> cm_id buf t;
        p6 \<leftarrow> cm_password buf t;
        p4 \<leftarrow> p4;
        p6 \<leftarrow> p6;
        s4 \<leftarrow> c_string buf (c_str p4);
        s6 \<leftarrow> c_string buf (c_str p6);
        Some (LoginRequest s4 s6)
      }
      else if ty = cm_LogoutRequest then Some LogoutRequest
      else if ty = cm_ConnectServerRequest then map_option ConnectServerRequest (cm_server_id buf t)
      else None)
   }"

lemma build_client_packet_bytes:
  assumes "client_packet_ok m"
  shows "Option.bind (build_client_packet m) fbb_contents = Some (client_packet_bytes m)"
  using assms cm_login_request_bytes cm_logout_request_bytes cm_connect_request_bytes
  by (cases m) (simp_all add: build_client_packet_def build_client_union_def client_packet_type_def split_def)

lemma client_packet_length:
  assumes "client_packet_ok m"
  shows "length (client_packet_bytes m) < 2 ^ 30 + 60"
proof (cases m)
  case (LoginRequest s4 s6)
  then show ?thesis
    using assms length_login_message [of s4 s6] by simp
next
  case LogoutRequest
  then show ?thesis
    using length_scalar_message [of "u32_bytes 0" 2 "u32_bytes 0"] by simp
next
  case (ConnectServerRequest sid)
  then show ?thesis
    using length_scalar_message [of "le_bytes 2 (unat sid)" 3 "le_bytes 2 (unat (- 1 :: u16))"] by simp
qed

lemma client_packet_verified:
  assumes "client_packet_ok m" and "msg = client_packet_bytes m"
  shows "\<exists>v. cm_verify_packet_buffer (verifier_for (msg @ rest) (of_nat (length msg))) = Some (True, v)"
    and "read_client_packet (msg @ rest) = Some m"
proof -
  have "(\<exists>v. cm_verify_packet_buffer (verifier_for (msg @ rest) (of_nat (length msg))) = Some (True, v)) \<and>
    read_client_packet (msg @ rest) = Some m"
  proof (cases m)
    case (LoginRequest s4 s6)
    then have ok: "0 \<notin> set s4" "0 \<notin> set s6" "length s4 + length s6 < 2 ^ 30" and m: "msg = login_message s4 s6"
      using assms by simp_all
    note r = cm_read_login [OF ok(3), of rest, folded m]
    show ?thesis
      using r(1-6) r(9) [OF ok(1)] r(10) [OF ok(2)]
      by (simp add: read_client_packet_def cm_type_as_def LoginRequest)
  next
    case LogoutRequest
    then show ?thesis
      using cm_read_logout [of msg rest] assms(2) by (auto simp: read_client_packet_def)
  next
    case (ConnectServerRequest sid)
    then show ?thesis
      using cm_read_connect [of msg sid rest] assms(2) by (auto simp: read_client_packet_def)
  qed
  then show "\<exists>v. cm_verify_packet_buffer (verifier_for (msg @ rest) (of_nat (length msg))) = Some (True, v)"
    and "read_client_packet (msg @ rest) = Some m"
    by simp_all
qed

text \<open>C21: whatever login request without embedded zero bytes (up to 1 GB),
  logout request or connect request the client builds, the builder does not run into undefined
  behaviour, the finished buffer passes \<open>VerifyPacketBuffer\<close>, also when it is read in place in
  front of other bytes, and the accessors read back exactly the values it was built from.\<close>

theorem client_packet_roundtrip:
  assumes "client_packet_ok m"
  shows "\<exists>msg. Option.bind (build_client_packet m) fbb_contents = Some msg \<and>
    (\<exists>v v'. new_verifier (msg @ rest) (of_nat (length msg)) default_options = Some v \<and>
       cm_verify_packet_buffer v = Some (True, v')) \<and>
    read_client_packet (msg @ rest) = Some m"
proof -
  let ?msg = "client_packet_bytes m"
  obtain v' where "cm_verify_packet_buffer (verifier_for (?msg @ rest) (of_nat (length ?msg))) = Some (True, v')"
    using client_packet_verified(1) [OF assms refl] by blast
  moreover have "(of_nat (length ?msg) :: size_t) < FLATBUFFERS_MAX_BUFFER_SIZE"
    using client_packet_length [OF assms] by (simp add: word_less_nat_alt unat_of_nat_small)
  ultimately show ?thesis
    using build_client_packet_bytes [OF assms] client_packet_verified(2) [OF assms refl, of rest]
      new_verifier_for by blast
qed

theorem client_packet_roundtrip_witness:
  "\<exists>msg. Option.bind (build_client_packet (LoginRequest [97, 98] [99])) fbb_contents = Some msg \<and>
    (\<exists>v v'. new_verifier (msg @ [7]) (of_nat (length msg)) default_options = Some v \<and>
       cm_verify_packet_buffer v = Some (True, v')) \<and>
    read_client_packet (msg @ [7]) = Some (LoginRequest [97, 98] [99])"
  by (rule client_packet_roundtrip) simp

end
