(* ===== verification/Server_Message.thy ===== *)
theory Server_Message
  imports Fb_Table
begin

text \<open>
  \<open>examples/message/server_message_generated.h\<close>: the accessors and checks of the messages the
  server sends.  A \<open>Packet\<close> is a union of a \<open>LoginResult\<close>, a \<open>LogoutResult\<close> and a
  \<open>ConnectServerResult\<close>.  Names start with \<open>sm_\<close>.
\<close>

section \<open>The union\<close>

abbreviation (input) sm_NONE :: byte where "sm_NONE \<equiv> 0"
abbreviation (input) sm_LoginResult :: byte where "sm_LoginResult \<equiv> 1"
abbreviation (input) sm_LogoutResult :: byte where "sm_LogoutResult \<equiv> 2"
abbreviation (input) sm_ConnectServerResult :: byte where "sm_ConnectServerResult \<equiv> 3"

definition sm_enum_values :: "byte list" where
  "sm_enum_values = [sm_NONE, sm_LoginResult, sm_LogoutResult, sm_ConnectServerResult]"

definition sm_enum_names :: "string list" where
  "sm_enum_names = [''NONE'', ''LoginResult'', ''LogoutResult'', ''ConnectServerResult'']"

definition sm_enum_name :: "byte \<Rightarrow> string" where
  "sm_enum_name e =
     (if is_out_range e sm_NONE sm_ConnectServerResult then '''' else sm_enum_names ! unat e)"

section \<open>Accessors\<close>

definition sm_type_type :: "byte list \<Rightarrow> size_t \<Rightarrow> byte option" where
  "sm_type_type buf p = get_field read_u8 buf p 4 0"

definition sm_type :: "byte list \<Rightarrow> size_t \<Rightarrow> size_t option option" where
  "sm_type buf p = get_pointer buf p 6"

definition sm_type_as :: "byte \<Rightarrow> byte list \<Rightarrow> size_t \<Rightarrow> size_t option option" where
  "sm_type_as want buf p = do {
     ty \<leftarrow> sm_type_type buf p;
     (if ty = want then sm_type buf p else Some None)
   }"

definition sm_login_error :: "byte list \<Rightarrow> size_t \<Rightarrow> s32 option" where
  "sm_login_error buf p = get_field read_u32 buf p 4 0"

definition sm_connect_error :: "byte list \<Rightarrow> size_t \<Rightarrow> s32 option" where
  "sm_connect_error buf p = get_field read_u32 buf p 4 0"

section \<open>Verification\<close>

definition sm_verify_LoginResult :: "size_t \<Rightarrow> vcheck" where
  "sm_verify_LoginResult p =
     vall [table_verify_start p, table_verify_field 4 p 4 4, end_table]"

definition sm_verify_LogoutResult :: "size_t \<Rightarrow> vcheck" where
  "sm_verify_LogoutResult p = vall [table_verify_start p, end_table]"

definition sm_verify_ConnectServerResult :: "size_t \<Rightarrow> vcheck" where
  "sm_verify_ConnectServerResult p =
     vall [table_verify_start p, table_verify_field 4 p 4 4, end_table]"

definition sm_verify_packet_type :: "size_t option \<Rightarrow> byte \<Rightarrow> vcheck" where
  "sm_verify_packet_type obj type =
     (if type = sm_NONE then vpure (\<lambda>v. True)
      else if type = sm_LoginResult then verify_table sm_verify_LoginResult obj
      else if type = sm_LogoutResult then verify_table sm_verify_LogoutResult obj
      else if type = sm_ConnectServerResult then verify_table sm_verify_ConnectServerResult obj
      else vpure (\<lambda>v. True))"

definition sm_verify_union :: "size_t \<Rightarrow> vcheck" where
  "sm_verify_union p v = do {
     obj \<leftarrow> sm_type (vf_buf v) p;
     ty \<leftarrow> sm_type_type (vf_buf v) p;
     sm_verify_packet_type obj ty v
   }"

definition sm_verify_Packet :: "size_t \<Rightarrow> vcheck" where
  "sm_verify_Packet p =
     vall [table_verify_start p, table_verify_field 1 p 4 1, table_verify_offset p 6,
       sm_verify_union p, end_table]"

fun sm_verify_types_from :: "nat \<Rightarrow> u32 \<Rightarrow> size_t \<Rightarrow> size_t \<Rightarrow> vcheck" where
  "sm_verify_types_from 0 i values types v = Some (True, v)"
| "sm_verify_types_from (Suc n) i values types v = do {
     obj \<leftarrow> vector_get_offset (vf_buf v) values i;
     ty \<leftarrow> read_u8 (vf_buf v) (types + 4 + ucast i);
     (ok, v) \<leftarrow> sm_verify_packet_type (Some obj) ty v;
     (if ok then sm_verify_types_from n (i + 1) values types v else Some (False, v))
   }"

definition sm_verify_packet_type_vector :: "size_t option \<Rightarrow> size_t option \<Rightarrow> vcheck" where
  "sm_verify_packet_type_vector values types v =
     (case (values, types) of
        (Some vs, Some ts) \<Rightarrow> do {
          n \<leftarrow> vector_size (vf_buf v) vs;
          m \<leftarrow> vector_size (vf_buf v) ts;
          (if n \<noteq> m then Some (False, v) else sm_verify_types_from (unat n) 0 vs ts v)
        }
      | _ \<Rightarrow> Some (values = None \<and> types = None, v))"

definition sm_get_Packet :: "byte list \<Rightarrow> size_t option" where
  "sm_get_Packet buf = get_root buf 0"

definition sm_get_size_prefixed_Packet :: "byte list \<Rightarrow> size_t option" where
  "sm_get_size_prefixed_Packet buf = get_size_prefixed_root buf 0"

definition sm_verify_packet_buffer :: vcheck where
  "sm_verify_packet_buffer = verify_buffer sm_verify_Packet None"

definition sm_verify_size_prefixed_packet_buffer :: vcheck where
  "sm_verify_size_prefixed_packet_buffer = verify_size_prefixed_buffer sm_verify_Packet None"

section \<open>The checks never leave the buffer\<close>

interpretation sm_logout: verified_type sm_verify_LogoutResult
proof
  fix v p assume v: "vf_ok v"
  show "safe_check (sm_verify_LogoutResult p) v"
    unfolding sm_verify_LogoutResult_def
    by (rule safe_vall_start [OF v]) (rule safe_end_table)
qed

interpretation sm_login: verified_type sm_verify_LoginResult
proof
  fix v p assume v: "vf_ok v"
  show "safe_check (sm_verify_LoginResult p) v"
    unfolding sm_verify_LoginResult_def
    by (rule safe_vall_start [OF v], rule safe_vall_field, assumption+, simp, rule safe_end_table)
qed

interpretation sm_connect: verified_type sm_verify_ConnectServerResult
proof
  fix v p assume v: "vf_ok v"
  show "safe_check (sm_verify_ConnectServerResult p) v"
    using sm_login.tv_safe [OF v]
    by (simp add: sm_verify_ConnectServerResult_def sm_verify_LoginResult_def)
qed

lemma sm_verify_packet_type_safe:
  assumes "vf_ok v"
  shows "safe_check (sm_verify_packet_type obj ty) v"
  using sm_login.verify_table_safe [OF assms] sm_logout.verify_table_safe [OF assms]
    sm_connect.verify_table_safe [OF assms]
  by (simp add: sm_verify_packet_type_def safe_vpure)

lemma sm_type_type_defined:
  "field_readable 1 buf p 4 \<Longrightarrow> \<exists>ty. sm_type_type buf p = Some ty"
  unfolding sm_type_type_def by (rule get_field_readable) (auto intro: read_defined(1))

interpretation sm_packet: verified_type sm_verify_Packet
proof
  fix v p assume v: "vf_ok v"
  show "safe_check (sm_verify_Packet p) v"
    unfolding sm_verify_Packet_def
  proof (rule safe_vall_start [OF v], rule safe_vall_field, assumption+, simp,
      rule safe_vall_offset, assumption+, simp)
    fix v1
    assume v1: "vf_ok v1" and f: "field_readable (unat 1) (vf_buf v1) p 4"
      and q: "pointer_inside (vf_buf v1) p 6"
    from f have "field_readable 1 (vf_buf v1) p 4" by simp
    then obtain ty where "sm_type_type (vf_buf v1) p = Some ty"
      using sm_type_type_defined by blast
    moreover obtain obj where "sm_type (vf_buf v1) p = Some obj"
      using pointer_inside_defined [OF q] by (auto simp: sm_type_def)
    moreover obtain ok v2 where c: "sm_verify_packet_type obj ty v1 = Some (ok, v2)" "same_buffer v1 v2"
      using sm_verify_packet_type_safe [OF v1, of obj ty] by (auto simp: safe_check_def)
    ultimately show "safe_check (vall [sm_verify_union p, end_table]) v1"
      by (intro safe_vall_Cons [of _ _ ok v2] safe_end_table) (simp_all add: sm_verify_union_def)
  qed
qed

section \<open>What a verified packet looks like\<close>

definition sm_packet_ok :: "byte list \<Rightarrow> size_t \<Rightarrow> bool" where
  "sm_packet_ok buf p \<longleftrightarrow> (\<exists>ty obj. sm_type_type buf p = Some ty \<and> sm_type buf p = Some obj \<and>
     (case obj of None \<Rightarrow> True
      | Some q \<Rightarrow> (ty \<in> {sm_LoginResult, sm_ConnectServerResult} \<longrightarrow> field_readable 4 buf q 4)))"

lemma sm_verified_result:
  assumes v: "vf_ok v" and r: "sm_verify_LoginResult p v = Some (True, v')"
  shows "field_readable 4 (vf_buf v) p 4"
proof -
  obtain v1 where 1: "table_verify_start p v = Some (True, v1)"
    and r1: "vall [table_verify_field 4 p 4 4, end_table] v1 = Some (True, v')"
    using r unfolding sm_verify_LoginResult_def by (rule vall_ConsD)
  note s = verified_start [OF v 1]
  have buf: "vf_buf v1 = vf_buf v" using s(2) by (simp add: same_buffer_def)
  obtain v2 where 2: "table_verify_field 4 p 4 4 v1 = Some (True, v2)"
    using r1 by (rule vall_ConsD)
  show ?thesis
    using verified_field(1) [OF s(3) _ _ 2] s(1) buf by simp
qed

lemma sm_verified_packet:
  assumes v: "vf_ok v" and r: "sm_verify_Packet p v = Some (True, v')"
  shows "sm_packet_ok (vf_buf v) p"
proof -
  obtain v1 where 1: "table_verify_start p v = Some (True, v1)"
    and r1: "vall [table_verify_field 1 p 4 1, table_verify_offset p 6, sm_verify_union p,
      end_table] v1 = Some (True, v')"
    using r unfolding sm_verify_Packet_def by (rule vall_ConsD)
  note s = verified_start [OF v 1]
  have buf: "vf_buf v1 = vf_buf v" using s(2) by (simp add: same_buffer_def)
  have t: "table_ok (vf_buf v1) p" using s(1) buf by simp
  obtain v2 where 2: "table_verify_field 1 p 4 1 v1 = Some (True, v2)"
    and r2: "vall [table_verify_offset p 6, sm_verify_union p, end_table] v2 = Some (True, v')"
    using r1 by (rule vall_ConsD)
  have v2: "v2 = v1" using verified_field(2) [OF s(3) t _ 2] by simp
  obtain v3 where 3: "table_verify_offset p 6 v1 = Some (True, v3)"
    and r3: "vall [sm_verify_union p, end_table] v3 = Some (True, v')"
    using r2 unfolding v2 by (rule vall_ConsD)
  have v3: "v3 = v1" using verified_offset(2) [OF s(3) t _ 3] by simp
  obtain v4 where 4: "sm_verify_union p v1 = Some (True, v4)"
    using r3 unfolding v3 by (rule vall_ConsD)
  then obtain obj ty where o: "sm_type (vf_buf v1) p = Some obj" "sm_type_type (vf_buf v1) p = Some ty"
      "sm_verify_packet_type obj ty v1 = Some (True, v4)"
    by (auto simp: sm_verify_union_def split: bind_splits)
  have "sm_verify_ConnectServerResult = sm_verify_LoginResult"
    by (rule ext)+ (simp add: sm_verify_ConnectServerResult_def sm_verify_LoginResult_def)
  then show ?thesis
    using o sm_verified_result [OF s(3)]
    by (cases obj) (auto simp: sm_packet_ok_def sm_verify_packet_type_def verify_table_def simp flip: buf)
qed

lemma sm_verified_buffer:
  assumes "vf_ok v" and "sm_verify_packet_buffer v = Some (True, v')"
  obtains root where "sm_get_Packet (vf_buf v) = Some root" and "sm_packet_ok (vf_buf v) root"
  using sm_packet.verify_buffer_root [OF assms(1) assms(2) [unfolded sm_verify_packet_buffer_def]]
    sm_verified_packet [OF assms(1)] by (metis sm_get_Packet_def)

end
