(* ===== verification/Server_Message_Build.thy ===== *)
theory Server_Message_Build
  imports Fb_Roundtrip Server_Message
begin

text \<open>
  The builders of \<open>examples/message/server_message_generated.h\<close>, in the form of those of the
  client's messages.
\<close>

section \<open>\<open>PacketBuilder\<close>\<close>

definition sm_PacketBuilder :: "fb_builder \<Rightarrow> (uoffset_t \<times> fb_builder) option" where
  "sm_PacketBuilder fbb = start_table fbb"

definition sm_add_type_type :: "byte \<Rightarrow> fb_builder \<Rightarrow> fb_builder option" where
  "sm_add_type_type type_type fbb = add_element 4 [type_type] [0] fbb"

definition sm_add_type :: "uoffset_t \<Rightarrow> fb_builder \<Rightarrow> fb_builder option" where
  "sm_add_type type fbb = add_offset 6 type fbb"

definition sm_PacketBuilder_Finish :: "uoffset_t \<Rightarrow> fb_builder \<Rightarrow> (uoffset_t \<times> fb_builder) option" where
  "sm_PacketBuilder_Finish start fbb = Fb_Builder.end_table start fbb"

definition sm_create_Packet ::
  "byte \<Rightarrow> uoffset_t \<Rightarrow> fb_builder \<Rightarrow> (uoffset_t \<times> fb_builder) option" where
  "sm_create_Packet type_type type fbb = do {
     (start, fbb) \<leftarrow> sm_PacketBuilder fbb;
     fbb \<leftarrow> sm_add_type type fbb;
     fbb \<leftarrow> sm_add_type_type type_type fbb;
     sm_PacketBuilder_Finish start fbb
   }"

section \<open>\<open>LoginResultBuilder\<close>\<close>

definition sm_LoginResultBuilder :: "fb_builder \<Rightarrow> (uoffset_t \<times> fb_builder) option" where
  "sm_LoginResultBuilder fbb = start_table fbb"

definition sm_add_login_error :: "s32 \<Rightarrow> fb_builder \<Rightarrow> fb_builder option" where
  "sm_add_login_error error fbb = add_element 4 (u32_bytes error) (u32_bytes 0) fbb"

definition sm_LoginResultBuilder_Finish ::
  "uoffset_t \<Rightarrow> fb_builder \<Rightarrow> (uoffset_t \<times> fb_builder) option" where
  "sm_LoginResultBuilder_Finish start fbb = Fb_Builder.end_table start fbb"

definition sm_create_LoginResult :: "s32 \<Rightarrow> fb_builder \<Rightarrow> (uoffset_t \<times> fb_builder) option" where
  "sm_create_LoginResult error fbb = do {
     (start, fbb) \<leftarrow> sm_LoginResultBuilder fbb;
     fbb \<leftarrow> sm_add_login_error error fbb;
     sm_LoginResultBuilder_Finish start fbb
   }"

section \<open>\<open>LogoutResultBuilder\<close>\<close>

definition sm_LogoutResultBuilder :: "fb_builder \<Rightarrow> (uoffset_t \<times> fb_builder) option" where
  "sm_LogoutResultBuilder fbb = start_table fbb"

definition sm_LogoutResultBuilder_Finish ::
  "uoffset_t \<Rightarrow> fb_builder \<Rightarrow> (uoffset_t \<times> fb_builder) option" where
  "sm_LogoutResultBuilder_Finish start fbb = Fb_Builder.end_table start fbb"

definition sm_create_LogoutResult :: "fb_builder \<Rightarrow> (uoffset_t \<times> fb_builder) option" where
  "sm_create_LogoutResult fbb = do {
     (start, fbb) \<leftarrow> sm_LogoutResultBuilder fbb;
     sm_LogoutResultBuilder_Finish start fbb
   }"

section \<open>\<open>ConnectServerResultBuilder\<close>\<close>

definition sm_ConnectServerResultBuilder :: "fb_builder \<Rightarrow> (uoffset_t \<times> fb_builder) option" where
  "sm_ConnectServerResultBuilder fbb = start_table fbb"

definition sm_add_connect_error :: "s32 \<Rightarrow> fb_builder \<Rightarrow> fb_builder option" where
  "sm_add_connect_error error fbb = add_element 4 (u32_bytes error) (u32_bytes 0) fbb"

definition sm_ConnectServerResultBuilder_Finish ::
  "uoffset_t \<Rightarrow> fb_builder \<Rightarrow> (uoffset_t \<times> fb_builder) option" where
  "sm_ConnectServerResultBuilder_Finish start fbb = Fb_Builder.end_table start fbb"

definition sm_create_ConnectServerResult :: "s32 \<Rightarrow> fb_builder \<Rightarrow> (uoffset_t \<times> fb_builder) option" where
  "sm_create_ConnectServerResult error fbb = do {
     (start, fbb) \<leftarrow> sm_ConnectServerResultBuilder fbb;
     fbb \<leftarrow> sm_add_connect_error error fbb;
     sm_ConnectServerResultBuilder_Finish start fbb
   }"

section \<open>Finishing\<close>

definition sm_finish_packet_buffer :: "uoffset_t \<Rightarrow> fb_builder \<Rightarrow> fb_builder option" where
  "sm_finish_packet_buffer root fbb = fbb_finish root fbb"

definition sm_finish_size_prefixed_packet_buffer :: "uoffset_t \<Rightarrow> fb_builder \<Rightarrow> fb_builder option" where
  "sm_finish_size_prefixed_packet_buffer root fbb = finish_size_prefixed root fbb"

section \<open>What the builders write\<close>

lemma sm_create_Packet_write: "sm_create_Packet = write_packet"
  by (intro ext) (simp add: sm_create_Packet_def sm_PacketBuilder_def sm_add_type_def sm_add_type_type_def
      sm_PacketBuilder_Finish_def write_packet_def)

lemmas sm_create_defs =
  sm_create_LoginResult_def sm_LoginResultBuilder_def sm_add_login_error_def sm_LoginResultBuilder_Finish_def
  sm_create_LogoutResult_def sm_LogoutResultBuilder_def sm_LogoutResultBuilder_Finish_def
  sm_create_ConnectServerResult_def sm_ConnectServerResultBuilder_def sm_add_connect_error_def
  sm_ConnectServerResultBuilder_Finish_def

lemma sm_login_result_bytes:
  "do { (r, f) \<leftarrow> sm_create_LoginResult e default_builder;
        (p, f) \<leftarrow> sm_create_Packet 1 r f;
        f \<leftarrow> fbb_finish p f;
        fbb_contents f } = Some (scalar_message 1 (u32_bytes e) (u32_bytes 0))"
  using write_scalar_message [of "u32_bytes e" 4 1 "u32_bytes 0"]
  by (simp add: sm_create_Packet_write sm_create_defs write_scalar_table_def)

lemma sm_connect_result_bytes:
  "do { (r, f) \<leftarrow> sm_create_ConnectServerResult e default_builder;
        (p, f) \<leftarrow> sm_create_Packet 3 r f;
        f \<leftarrow> fbb_finish p f;
        fbb_contents f } = Some (scalar_message 3 (u32_bytes e) (u32_bytes 0))"
  using write_scalar_message [of "u32_bytes e" 4 3 "u32_bytes 0"]
  by (simp add: sm_create_Packet_write sm_create_defs write_scalar_table_def)

lemma sm_logout_result_bytes:
  "do { (r, f) \<leftarrow> sm_create_LogoutResult default_builder;
        (p, f) \<leftarrow> sm_create_Packet 2 r f;
        f \<leftarrow> fbb_finish p f;
        fbb_contents f } = Some (scalar_message 2 (u32_bytes 0) (u32_bytes 0))"
  using write_scalar_message [of "u32_bytes 0" 4 2 "u32_bytes 0"] empty_table_write [of "u32_bytes 0"]
  by (simp add: sm_create_Packet_write sm_create_defs)

section \<open>What the accessors read\<close>

lemma scalar_message_cases:
  obtains b0 b1 b2 b3 where "u32_bytes e = [b0, b1, b2, b3]"
    and "scalar_message ty (u32_bytes e) (u32_bytes 0) =
      (if e = 0 then [12, 0, 0, 0, 8, 0, 12, 0, 7, 0, 8, 0, 8, 0, 0, 0, 0, 0, 0, ty, 8, 0, 0, 0,
                      4, 0, 4, 0, 4, 0, 0, 0]
       else [12, 0, 0, 0, 8, 0, 14, 0, 7, 0, 8, 0, 8, 0, 0, 0, 0, 0, 0, ty, 12, 0, 0, 0,
             0, 0, 6, 0, 8, 0, 4, 0, 6, 0, 0, 0, b0, b1, b2, b3])"
proof -
  obtain b0 b1 b2 b3 where b: "u32_bytes e = [b0, b1, b2, b3]"
    by (simp add: u32_bytes_def le_bytes_numeral)
  have "u32_bytes 12 = [12, 0, 0, 0]" "u32_bytes 8 = [8, 0, 0, 0]" "u32_bytes 6 = [6, 0, 0, 0]"
    "u32_bytes 4 = [4, 0, 0, 0]"
    by (simp_all add: u32_bytes_def le_bytes_numeral)
  then have "scalar_message ty (u32_bytes e) (u32_bytes 0) =
      (if e = 0 then [12, 0, 0, 0, 8, 0, 12, 0, 7, 0, 8, 0, 8, 0, 0, 0, 0, 0, 0, ty, 8, 0, 0, 0,
                      4, 0, 4, 0, 4, 0, 0, 0]
       else [12, 0, 0, 0, 8, 0, 14, 0, 7, 0, 8, 0, 8, 0, 0, 0, 0, 0, 0, ty, 12, 0, 0, 0,
             0, 0, 6, 0, 8, 0, 4, 0, 6, 0, 0, 0, b0, b1, b2, b3])"
    using u32_bytes_inject [of e 0] b
    by (cases "e = 0") (simp_all add: scalar_message_def packet_vtable_def le_bytes_numeral)
  with b show thesis by (rule that)
qed

lemmas sm_eval = sm_verify_packet_buffer_def sm_verify_Packet_def sm_verify_union_def sm_type_def
  sm_type_type_def sm_verify_packet_type_def sm_verify_LoginResult_def sm_verify_LogoutResult_def
  sm_verify_ConnectServerResult_def sm_type_as_def sm_login_error_def sm_connect_error_def
  sm_get_Packet_def

lemma sm_read_scalar:
  assumes msg: "msg = scalar_message ty (u32_bytes e) (u32_bytes 0)" and ty: "ty \<in> {1, 2, 3}"
    and e: "ty = 2 \<longrightarrow> e = 0"
  shows "\<exists>v t. sm_verify_packet_buffer (verifier_for (msg @ rest) (of_nat (length msg))) = Some (True, v) \<and>
    sm_get_Packet (msg @ rest) = Some 12 \<and> sm_type_type (msg @ rest) 12 = Some ty \<and>
    sm_type_as ty (msg @ rest) 12 = Some (Some t) \<and>
    sm_login_error (msg @ rest) t = Some e \<and> sm_connect_error (msg @ rest) t = Some e"
proof -
  obtain b0 b1 b2 b3 where b: "u32_bytes e = [b0, b1, b2, b3]"
    and m: "scalar_message ty (u32_bytes e) (u32_bytes 0) =
      (if e = 0 then [12, 0, 0, 0, 8, 0, 12, 0, 7, 0, 8, 0, 8, 0, 0, 0, 0, 0, 0, ty, 8, 0, 0, 0,
                      4, 0, 4, 0, 4, 0, 0, 0]
       else [12, 0, 0, 0, 8, 0, 14, 0, 7, 0, 8, 0, 8, 0, 0, 0, 0, 0, 0, ty, 12, 0, 0, 0,
             0, 0, 6, 0, 8, 0, 4, 0, 6, 0, 0, 0, b0, b1, b2, b3])"
    by (rule scalar_message_cases)
  show ?thesis
  proof (cases "e = 0")
    case True
    then show ?thesis
      using ty unfolding msg m verifier_for_def
      by (elim insertE; intro exI [of _ 28] exI; simp add: sm_eval read_eval verifier_eval verify_range_def table_eval)
  next
    case False
    then show ?thesis
      using ty e u32_of_bytes [OF b] unfolding msg m verifier_for_def
      by (elim insertE; intro exI [of _ 32] exI; simp add: sm_eval read_eval verifier_eval verify_range_def table_eval)
  qed
qed

section \<open>Round trip\<close>

datatype server_packet = LoginResult s32 | LogoutResult | ConnectServerResult s32

fun server_packet_bytes :: "server_packet \<Rightarrow> byte list" where
  "server_packet_bytes (LoginResult e) = scalar_message 1 (u32_bytes e) (u32_bytes 0)"
| "server_packet_bytes LogoutResult = scalar_message 2 (u32_bytes 0) (u32_bytes 0)"
| "server_packet_bytes (ConnectServerResult e) = scalar_message 3 (u32_bytes e) (u32_bytes 0)"

definition build_server_union :: "server_packet \<Rightarrow> fb_builder \<Rightarrow> (uoffset_t \<times> fb_builder) option" where
  "build_server_union m fbb =
     (case m of LoginResult e \<Rightarrow> sm_create_LoginResult e fbb | LogoutResult \<Rightarrow> sm_create_LogoutResult fbb
      | ConnectServerResult e \<Rightarrow> sm_create_ConnectServerResult e fbb)"

definition server_packet_type :: "server_packet \<Rightarrow> byte" where
  "server_packet_type m =
     (case m of LoginResult e \<Rightarrow> sm_LoginResult | LogoutResult \<Rightarrow> sm_LogoutResult
      | ConnectServerResult e \<Rightarrow> sm_ConnectServerResult)"

definition build_server_packet :: "server_packet \<Rightarrow> fb_builder option" where
  "build_server_packet m = do {
     (r, fbb) \<leftarrow> build_server_union m default_builder;
     (p, fbb) \<leftarrow> sm_create_Packet (server_packet_type m) r fbb;
     fbb_finish p fbb
   }"

definition read_server_packet :: "byte list \<Rightarrow> server_packet option" where
  "read_server_packet buf = do {
     root \<leftarrow> sm_get_Packet buf;
     ty \<leftarrow> sm_type_type buf root;
     t \<leftarrow> sm_type_as ty buf root;
     t \<leftarrow> t;
     (if ty = sm_LoginResult then map_option LoginResult (sm_login_error buf t)
      else if ty = sm_LogoutResult then Some LogoutResult
      else if ty = sm_ConnectServerResult then map_option ConnectServerResult (sm_connect_error buf t)
      else None)
   }"

lemma build_server_packet_bytes:
  "Option.bind (build_server_packet m) fbb_contents = Some (server_packet_bytes m)"
  using sm_login_result_bytes sm_logout_result_bytes sm_connect_result_bytes
  by (cases m) (simp_all add: build_server_packet_def build_server_union_def server_packet_type_def split_def)

lemma server_packet_length: "length (server_packet_bytes m) \<le> 40"
  by (cases m) (simp_all add: length_scalar_message)

lemma server_packet_verified:
  assumes "msg = server_packet_bytes m"
  shows "\<exists>v. sm_verify_packet_buffer (verifier_for (msg @ rest) (of_nat (length msg))) = Some (True, v)"
    and "read_server_packet (msg @ rest) = Some m"
proof -
  have "(\<exists>v. sm_verify_packet_buffer (verifier_for (msg @ rest) (of_nat (length msg))) = Some (True, v)) \<and>
    read_server_packet (msg @ rest) = Some m"
  proof (cases m)
    case (LoginResult e)
    then show ?thesis
      using sm_read_scalar [of msg 1 e rest] assms by (auto simp: read_server_packet_def)
  next
    case LogoutResult
    then show ?thesis
      using sm_read_scalar [of msg 2 0 rest] assms by (auto simp: read_server_packet_def)
  next
    case (ConnectServerResult e)
    then show ?thesis
      using sm_read_scalar [of msg 3 e rest] assms by (auto simp: read_server_packet_def)
  qed
  then show "\<exists>v. sm_verify_packet_buffer (verifier_for (msg @ rest) (of_nat (length msg))) = Some (True, v)"
    and "read_server_packet (msg @ rest) = Some m"
    by simp_all
qed

text \<open>C22: whatever result the server builds, with any 32-bit error code
  (the default 0 is not stored at all), the builder succeeds, the finished buffer passes
  \<open>VerifyPacketBuffer\<close>, also in front of other bytes, and the accessors read back exactly the
  values it was built from.\<close>

theorem server_packet_roundtrip:
  "\<exists>msg. Option.bind (build_server_packet m) fbb_contents = Some msg \<and>
    (\<exists>v v'. new_verifier (msg @ rest) (of_nat (length msg)) default_options = Some v \<and>
       sm_verify_packet_buffer v = Some (True, v')) \<and>
    read_server_packet (msg @ rest) = Some m"
proof -
  let ?msg = "server_packet_bytes m"
  obtain v' where "sm_verify_packet_buffer (verifier_for (?msg @ rest) (of_nat (length ?msg))) = Some (True, v')"
    using server_packet_verified(1) [OF refl] by blast
  moreover have "(of_nat (length ?msg) :: size_t) < FLATBUFFERS_MAX_BUFFER_SIZE"
    using server_packet_length [of m] by (simp add: word_less_nat_alt unat_of_nat_small)
  ultimately show ?thesis
    using build_server_packet_bytes server_packet_verified(2) [OF refl, of m rest]
      new_verifier_for by blast
qed

end
