(* ===== verification/Client_Session.thy ===== *)
theory Client_Session
  imports Client_Socket Client_Message_Build Server_Message_Build
begin

text \<open>
  \<open>examples/client/client_session.cpp\<close>: the session of the example client, a \<open>ClientSocket\<close>
  whose \<open>OnPacket\<close> verifies the packet, prints the result it holds and sends the next request
  of the dialogue: login, connect, logout.  \<open>cout\<close> is the effect of \<open>std::cout\<close> on the world.
\<close>

section \<open>Requests\<close>

definition clt_send ::
  "'w os \<Rightarrow> fb_builder \<Rightarrow> client_socket \<Rightarrow> 'w \<Rightarrow> (unit, client_socket, 'w) method_result option" where
  "clt_send os builder s w = do {
     data \<leftarrow> fbb_contents builder;
     send_packet os data (get_size builder) s w
   }"

text \<open>The arguments are the characters of the two \<open>std::string\<close>s; \<open>c_str\<close> appends the zero.\<close>

definition clt_SendLoginRequest ::
  "'w os \<Rightarrow> byte list \<Rightarrow> byte list \<Rightarrow> client_socket \<Rightarrow> 'w \<Rightarrow> (unit, client_socket, 'w) method_result option" where
  "clt_SendLoginRequest os s4 s6 s w = do {
     (request, builder) \<leftarrow> cm_create_LoginRequest_direct (Some (s4 @ [0])) (Some (s6 @ [0])) default_builder;
     (packet, builder) \<leftarrow> cm_create_Packet cm_LoginRequest request builder;
     builder \<leftarrow> fbb_finish packet builder;
     clt_send os builder s w
   }"

definition clt_ConnectServerRequest ::
  "'w os \<Rightarrow> u16 \<Rightarrow> client_socket \<Rightarrow> 'w \<Rightarrow> (unit, client_socket, 'w) method_result option" where
  "clt_ConnectServerRequest os server_id s w = do {
     (request, builder) \<leftarrow> cm_create_ConnectServerRequest server_id default_builder;
     (packet, builder) \<leftarrow> cm_create_Packet cm_ConnectServerRequest request builder;
     builder \<leftarrow> fbb_finish packet builder;
     clt_send os builder s w
   }"

definition clt_SendLogoutRequest ::
  "'w os \<Rightarrow> client_socket \<Rightarrow> 'w \<Rightarrow> (unit, client_socket, 'w) method_result option" where
  "clt_SendLogoutRequest os s w = do {
     (request, builder) \<leftarrow> cm_create_LogoutRequest default_builder;
     (packet, builder) \<leftarrow> cm_create_Packet cm_LogoutRequest request builder;
     builder \<leftarrow> fbb_finish packet builder;
     clt_send os builder s w
   }"

section \<open>Results\<close>

definition clt_LoginResult ::
  "(out_item list \<Rightarrow> 'w \<Rightarrow> 'w) \<Rightarrow> 'w os \<Rightarrow> byte list \<Rightarrow> size_t option \<Rightarrow> client_socket \<Rightarrow> 'w \<Rightarrow>
   (unit, client_socket, 'w) method_result option" where
  "clt_LoginResult cout os buf result s w = do {
     r \<leftarrow> result;
     error \<leftarrow> sm_login_error buf r;
     let w = cout [Text ''_LoginResult: '', Number (sint error), Endl] w;
     (if error = 0 then clt_ConnectServerRequest os 1 s w else Some (Inr (), s, w))
   }"

definition clt_ConnectServerResult ::
  "(out_item list \<Rightarrow> 'w \<Rightarrow> 'w) \<Rightarrow> 'w os \<Rightarrow> byte list \<Rightarrow> size_t option \<Rightarrow> client_socket \<Rightarrow> 'w \<Rightarrow>
   (unit, client_socket, 'w) method_result option" where
  "clt_ConnectServerResult cout os buf result s w = do {
     r \<leftarrow> result;
     error \<leftarrow> sm_connect_error buf r;
     clt_SendLogoutRequest os s (cout [Text ''_ConnectServerResult: '', Number (sint error), Endl] w)
   }"

definition clt_LogoutResult ::
  "(out_item list \<Rightarrow> 'w \<Rightarrow> 'w) \<Rightarrow> 'w os \<Rightarrow> byte list \<Rightarrow> size_t option \<Rightarrow> client_socket \<Rightarrow> 'w \<Rightarrow>
   (unit, client_socket, 'w) method_result option" where
  "clt_LogoutResult cout os buf result s w = Some (Inr (), s, cout [Text ''_LogoutResult: '', Endl] w)"

definition clt_on_packet :: "(out_item list \<Rightarrow> 'w \<Rightarrow> 'w) \<Rightarrow> 'w os \<Rightarrow> 'w on_packet" where
  "clt_on_packet cout os buffer len s w = do {
     verifier \<leftarrow> new_verifier buffer (ucast len) default_options;
     (ok, verifier) \<leftarrow> sm_verify_packet_buffer verifier;
     (if \<not> ok then Some (Inr (), s, w)
      else do {
        packet \<leftarrow> sm_get_Packet buffer;
        ty \<leftarrow> sm_type_type buffer packet;
        (if ty = sm_LoginResult then do {
           result \<leftarrow> sm_type_as sm_LoginResult buffer packet;
           clt_LoginResult cout os buffer result s w
         }
         else if ty = sm_ConnectServerResult then do {
           result \<leftarrow> sm_type_as sm_ConnectServerResult buffer packet;
           clt_ConnectServerResult cout os buffer result s w
         }
         else if ty = sm_LogoutResult then do {
           result \<leftarrow> sm_type_as sm_LogoutResult buffer packet;
           clt_LogoutResult cout os buffer result s w
         }
         else Some (Inr (), s, w))
      })
   }"

section \<open>What the client does with a result\<close>

definition send_request ::
  "'w os \<Rightarrow> client_packet \<Rightarrow> client_socket \<Rightarrow> 'w \<Rightarrow> (unit, client_socket, 'w) method_result option" where
  "send_request os m =
     (case m of LoginRequest s4 s6 \<Rightarrow> clt_SendLoginRequest os s4 s6
      | LogoutRequest \<Rightarrow> clt_SendLogoutRequest os
      | ConnectServerRequest sid \<Rightarrow> clt_ConnectServerRequest os sid)"

fun result_output :: "server_packet \<Rightarrow> out_item list" where
  "result_output (LoginResult e) = [Text ''_LoginResult: '', Number (sint e), Endl]"
| "result_output (ConnectServerResult e) = [Text ''_ConnectServerResult: '', Number (sint e), Endl]"
| "result_output LogoutResult = [Text ''_LogoutResult: '', Endl]"

fun next_request :: "server_packet \<Rightarrow> client_packet option" where
  "next_request (LoginResult e) = (if e = 0 then Some (ConnectServerRequest 1) else None)"
| "next_request (ConnectServerResult e) = Some LogoutRequest"
| "next_request LogoutResult = None"

lemma send_request_packet:
  assumes "client_packet_ok m"
  shows "send_request os m s w =
    send_packet os (client_packet_bytes m) (of_nat (length (client_packet_bytes m))) s w"
proof -
  obtain b where b: "build_client_packet m = Some b" "fbb_contents b = Some (client_packet_bytes m)"
    using build_client_packet_bytes [OF assms] by (auto simp: bind_eq_Some_conv)
  have "send_request os m s w = Option.bind (build_client_packet m) (\<lambda>b. clt_send os b s w)"
    by (cases m) (simp_all add: send_request_def clt_SendLoginRequest_def clt_SendLogoutRequest_def
        clt_ConnectServerRequest_def build_client_packet_def build_client_union_def client_packet_type_def split_def)
  then show ?thesis
    using b fbb_contents_size [OF b(2)] by (simp add: clt_send_def)
qed

lemma read_server_packetE:
  assumes "read_server_packet buf = Some m" and "sm_get_Packet buf = Some root"
  obtains (login) e t where "m = LoginResult e" "sm_type_type buf root = Some 1"
      "sm_type_as 1 buf root = Some (Some t)" "sm_login_error buf t = Some e"
    | (logout) t where "m = LogoutResult" "sm_type_type buf root = Some 2"
      "sm_type_as 2 buf root = Some (Some t)"
    | (connect) e t where "m = ConnectServerResult e" "sm_type_type buf root = Some 3"
      "sm_type_as 3 buf root = Some (Some t)" "sm_connect_error buf t = Some e"
proof -
  obtain ty where ty: "sm_type_type buf root = Some ty"
    using assms by (auto simp: read_server_packet_def bind_eq_Some_conv)
  obtain t where t: "sm_type_as ty buf root = Some (Some t)"
    using assms ty by (auto simp: read_server_packet_def bind_eq_Some_conv)
  note r = assms(1) [unfolded read_server_packet_def assms(2) ty, simplified, unfolded t, simplified]
  show thesis
    using login logout connect r ty t by (auto split: if_splits)
qed

lemma clt_on_packet_result:
  fixes rest :: "byte list"
  assumes "len = of_nat (length (server_packet_bytes m))"
  shows "clt_on_packet cout os (server_packet_bytes m @ rest) len s w =
    (let w = cout (result_output m) w in
     case next_request m of None \<Rightarrow> Some (Inr (), s, w) | Some q \<Rightarrow> send_request os q s w)"
proof -
  let ?msg = "server_packet_bytes m"
  obtain v where v: "sm_verify_packet_buffer (verifier_for (?msg @ rest) (of_nat (length ?msg))) = Some (True, v)"
    using server_packet_verified(1) [OF refl] by blast
  have "(of_nat (length ?msg) :: size_t) < FLATBUFFERS_MAX_BUFFER_SIZE"
    using server_packet_length [of m] by (simp add: word_less_nat_alt unat_of_nat_small)
  moreover have "(ucast len :: size_t) = of_nat (length ?msg)"
    using server_packet_length [of m] by (simp add: assms ucast_of_nat_u32)
  ultimately have nv: "new_verifier (?msg @ rest) (ucast len) default_options =
      Some (verifier_for (?msg @ rest) (of_nat (length ?msg)))"
    by (simp add: new_verifier_for)
  have rd: "read_server_packet (?msg @ rest) = Some m"
    by (rule server_packet_verified(2) [OF refl])
  then obtain root where root: "sm_get_Packet (?msg @ rest) = Some root"
    by (auto simp: read_server_packet_def bind_eq_Some_conv)
  define buf where "buf = ?msg @ rest"
  define vf where "vf = verifier_for buf (of_nat (length ?msg))"
  note facts = nv [folded buf_def, folded vf_def] v [folded buf_def, folded vf_def] root [folded buf_def]
  have "clt_on_packet cout os buf len s w =
    (let w = cout (result_output m) w in
     case next_request m of None \<Rightarrow> Some (Inr (), s, w) | Some q \<Rightarrow> send_request os q s w)"
    using rd [folded buf_def] facts(3)
  proof (cases rule: read_server_packetE)
    case (login e t)
    then show ?thesis
      by (simp add: clt_on_packet_def facts clt_LoginResult_def send_request_def Let_def)
  next
    case (logout t)
    then show ?thesis
      by (simp add: clt_on_packet_def facts clt_LogoutResult_def send_request_def Let_def)
  next
    case (connect e t)
    then show ?thesis
      by (simp add: clt_on_packet_def facts clt_ConnectServerResult_def send_request_def Let_def)
  qed
  then show ?thesis by (simp add: buf_def)
qed

end
