(* ===== verification/Session_Sender.thy ===== *)
theory Session_Sender
  imports Byte_Pipe Win_Api
begin

text \<open>
  \<open>lib/iocplib/socket_session.h\<close> and \<open>src/socket_session.cpp\<close>: the class \<open>SessionSender\<close>.
  \<open>SendAsync\<close> queues a framed packet and posts a signal to the completion port unless one
  is outstanding; the worker that picks up the signal (or the completion of an earlier
  \<open>WSASend\<close>) calls \<open>OnSend\<close>, which drops the transmitted bytes and sends the rest in
  \<open>BeginSend\<close>.  All methods run under the sender's recursive mutex, so each is one step.
  The argument \<open>session\<close> is what \<open>session_.lock()\<close> returns: \<open>None\<close> for an expired pointer.
\<close>

section \<open>State\<close>

record session_ref =
  sr_socket :: SOCKET
  sr_iocp :: HANDLE

record session_sender =
  ss_overlapped :: nat            \<comment> \<open>the address of \<open>overlapped_context_\<close>\<close>
  ss_ov_offset :: u32             \<comment> \<open>its field \<open>Offset\<close>\<close>
  post_send_signal :: bool
  send_queue :: "socket_buffer list"
  sending_packets :: "socket_buffer list"
  sending_offset :: u32
  send_error :: dword

definition new_sender :: "nat \<Rightarrow> session_sender" where
  "new_sender ctx = \<lparr>ss_overlapped = ctx, ss_ov_offset = 0, post_send_signal = False,
     send_queue = [], sending_packets = [], sending_offset = 0, send_error = 0\<rparr>"

section \<open>Operations\<close>

definition post_completion_port_signal ::
  "'w os \<Rightarrow> HANDLE \<Rightarrow> session_sender \<Rightarrow> 'w \<Rightarrow> (unit, session_sender, 'w) method_result" where
  "post_completion_port_signal os iocp_handle s w =
     (if \<not> post_send_signal s then
        let (ok, w) = os_post_status os iocp_handle 0 (Some (ss_overlapped s)) w in
        if \<not> ok then (Inl (WinSockException '''' (os_last_error os w)), s, w)
        else (Inr (), s\<lparr>post_send_signal := True\<rparr>, w)
      else (Inr (), s, w))"

definition send_async ::
  "'w os \<Rightarrow> session_ref option \<Rightarrow> byte list \<Rightarrow> u32 \<Rightarrow> session_sender \<Rightarrow> 'w \<Rightarrow>
   (unit, session_sender, 'w) method_result option" where
  "send_async os session data sz s w =
     (case session of
        None \<Rightarrow> Some (Inr (), s, w)
      | Some r \<Rightarrow> do {
          b \<leftarrow> allocate data sz;
          Some (post_completion_port_signal os (sr_iocp r) (s\<lparr>send_queue := send_queue s @ [b]\<rparr>) w)
        })"

text \<open>
  The array of \<open>WSABUF\<close>s, each modelled by the bytes the kernel may read through it.  The
  first one starts \<open>sending_offset_\<close> bytes into its buffer; indexing \<open>wsabufs[0]\<close> of an
  empty vector, or an offset past the buffer's end, is undefined.
\<close>

definition wsabuf :: "socket_buffer \<Rightarrow> byte list" where
  "wsabuf b = take (unat (get_buffer_size b)) b"

definition make_wsabufs :: "u32 \<Rightarrow> socket_buffer list \<Rightarrow> byte list list option" where
  "make_wsabufs offset bufs =
     (case map wsabuf bufs of
        [] \<Rightarrow> None
      | x # xs \<Rightarrow> if unat offset \<le> length x then Some (drop (unat offset) x # xs) else None)"

definition begin_send ::
  "'w os \<Rightarrow> session_ref option \<Rightarrow> session_sender \<Rightarrow> 'w \<Rightarrow> (dword \<times> session_sender \<times> 'w) option" where
  "begin_send os session s w =
     (if send_queue s = [] then Some (ERROR_SUCCESS, s\<lparr>post_send_signal := False\<rparr>, w)
      else
        let s = s\<lparr>sending_packets := sending_packets s @ send_queue s, send_queue := []\<rparr> in
        do {
          bufs \<leftarrow> make_wsabufs (sending_offset s) (sending_packets s);
          let s = s\<lparr>ss_ov_offset := 0\<rparr>;
          r \<leftarrow> session;
          let (ret, w) = os_wsa_send os (sr_socket r) bufs (Some (ss_overlapped s)) w;
          if ret = SOCKET_ERROR \<and> os_last_error os w \<noteq> WSA_IO_PENDING
          then Some (os_last_error os w, s, w)
          else Some (ERROR_SUCCESS, s, w)
        })"

text \<open>The loop of \<open>OnSend\<close> that drops transmitted packets; \<open>n\<close> is \<open>dwBytesTransferred\<close>.\<close>

fun drop_sent :: "dword \<Rightarrow> socket_buffer list \<Rightarrow> u32 \<Rightarrow> socket_buffer list \<times> u32" where
  "drop_sent n [] offset = ([], offset)"
| "drop_sent n (b # bs) offset =
     (if n = 0 then (b # bs, offset)
      else if get_buffer_size b \<le> n then drop_sent (n - get_buffer_size b) bs offset
      else (b # bs, n))"

definition retryable :: "dword \<Rightarrow> bool" where
  "retryable e \<longleftrightarrow> e \<in> {ERROR_OPERATION_ABORTED, ERROR_NO_SYSTEM_RESOURCES, WSAENOBUFS}"

definition on_send_advance :: "dword \<Rightarrow> dword \<Rightarrow> session_sender \<Rightarrow> session_sender" where
  "on_send_advance dwError dwBytesTransferred s =
     (if dwError = ERROR_SUCCESS then
        let (packets, offset) = drop_sent (dwBytesTransferred + sending_offset s) (sending_packets s) 0
        in s\<lparr>sending_packets := packets, sending_offset := offset\<rparr>
      else s)"

definition on_send ::
  "'w os \<Rightarrow> session_ref option \<Rightarrow> dword \<Rightarrow> dword \<Rightarrow> session_sender \<Rightarrow> 'w \<Rightarrow> (session_sender \<times> 'w) option" where
  "on_send os session dwError dwBytesTransferred s w = do {
     let s = on_send_advance dwError dwBytesTransferred s;
     (e, s, w) \<leftarrow> begin_send os session s w;
     (e, s, w) \<leftarrow> (if retryable e then begin_send os session s w else Some (e, s, w));
     Some (if e \<noteq> ERROR_SUCCESS then s\<lparr>send_error := e, post_send_signal := False\<rparr> else s, w)
   }"

section \<open>Pending bytes and the invariant\<close>

definition ss_pending :: "session_sender \<Rightarrow> byte list" where
  "ss_pending s = drop (unat (sending_offset s)) (concat (sending_packets s)) @ concat (send_queue s)"

definition buffer_ok :: "socket_buffer \<Rightarrow> bool" where
  "buffer_ok b \<longleftrightarrow> 4 \<le> length b \<and> length b < 2 ^ 32"

definition offset_ok :: "socket_buffer list \<Rightarrow> u32 \<Rightarrow> bool" where
  "offset_ok bufs offset \<longleftrightarrow>
     (case bufs of [] \<Rightarrow> offset = 0 | b # _ \<Rightarrow> unat offset < length b)"

definition ss_inv :: "session_sender \<Rightarrow> bool" where
  "ss_inv s \<longleftrightarrow> list_all buffer_ok (sending_packets s) \<and> list_all buffer_ok (send_queue s) \<and>
     offset_ok (sending_packets s) (sending_offset s)"

lemma ss_inv_new [simp]: "ss_inv (new_sender ctx)" "ss_pending (new_sender ctx) = []"
  by (simp_all add: ss_inv_def new_sender_def offset_ok_def ss_pending_def)

lemma unat_buffer_size: "buffer_ok b \<Longrightarrow> unat (get_buffer_size b) = length b"
  by (simp add: buffer_ok_def get_buffer_size_def unat_of_nat)

lemma wsabuf_whole: "buffer_ok b \<Longrightarrow> wsabuf b = b"
  by (simp add: wsabuf_def unat_buffer_size)

lemma buffer_ok_frame: "framable data \<Longrightarrow> buffer_ok (frame data)"
  by (simp add: buffer_ok_def framable_def)

lemma make_wsabufs_defined:
  assumes "list_all buffer_ok bufs" and "offset_ok bufs offset" and "bufs \<noteq> []"
  obtains ws where "make_wsabufs offset bufs = Some ws"
    and "concat ws = drop (unat offset) (concat bufs)"
proof -
  obtain b bs where bufs: "bufs = b # bs"
    using assms(3) by (cases bufs) auto
  have "map wsabuf bufs = bufs"
    using assms(1) by (simp add: list_all_iff wsabuf_whole map_idI)
  then show thesis
    using assms(2) bufs that by (simp add: make_wsabufs_def offset_ok_def)
qed

text \<open>Acknowledged bytes leave at the front; the offset stays inside the first packet.\<close>

lemma drop_sent_spec:
  assumes "list_all buffer_ok bufs" and "unat n \<le> length (concat bufs)"
    and "drop_sent n bufs 0 = (bufs', offset)"
  shows "list_all buffer_ok bufs' \<and> offset_ok bufs' offset \<and>
    drop (unat offset) (concat bufs') = drop (unat n) (concat bufs)"
  using assms
proof (induction n bufs "0 :: u32" rule: drop_sent.induct)
  case (1 n)
  then show ?case by (simp add: offset_ok_def)
next
  case (2 n b bs)
  have b: "buffer_ok b" and size: "unat (get_buffer_size b) = length b"
    using "2.prems"(1) by (simp_all add: unat_buffer_size)
  consider (zero) "n = 0" | (all) "n \<noteq> 0" "get_buffer_size b \<le> n" | (part) "n \<noteq> 0" "\<not> get_buffer_size b \<le> n"
    by blast
  then show ?case
  proof cases
    case zero
    then show ?thesis
      using "2.prems" b by (auto simp: offset_ok_def buffer_ok_def)
  next
    case all
    then have rest: "unat (n - get_buffer_size b) = unat n - length b"
      by (simp add: unat_sub_le size)
    moreover have "length b \<le> unat n"
      using all(2) size by (simp add: word_le_nat_alt)
    ultimately show ?thesis
      using "2.hyps" [OF all] "2.prems" all by simp
  next
    case part
    then have "unat n < length b"
      using size by (simp add: word_le_nat_alt)
    then show ?thesis
      using "2.prems" part by (auto simp: offset_ok_def)
  qed
qed

section \<open>What the operations do to the pending bytes\<close>

lemma offset_ok_append:
  "offset_ok bufs offset \<Longrightarrow> list_all buffer_ok bs \<Longrightarrow> offset_ok (bufs @ bs) offset"
  by (cases bufs; cases bs) (auto simp: offset_ok_def buffer_ok_def)

lemma offset_le_concat: "offset_ok bufs offset \<Longrightarrow> unat offset \<le> length (concat bufs)"
  by (cases bufs) (auto simp: offset_ok_def)

lemma post_signal_frame:
  "post_completion_port_signal os h s w = (r, s', w') \<Longrightarrow>
   ss_pending s' = ss_pending s \<and> ss_inv s' = ss_inv s \<and> send_queue s' = send_queue s \<and>
   (isl r \<longrightarrow> \<not> post_send_signal s') \<and> (\<not> isl r \<longrightarrow> post_send_signal s')"
  by (auto simp: post_completion_port_signal_def Let_def ss_pending_def ss_inv_def
      split: if_splits prod.splits)

lemma send_async_enqueues:
  assumes "send_async os (Some r) data (of_nat (length data)) s w = Some (res, s', w')"
    and "framable data" and "ss_inv s"
  shows "ss_inv s'" and "ss_pending s' = ss_pending s @ frame data"
    and "send_queue s' = send_queue s @ [frame data]"
proof -
  let ?q = "s\<lparr>send_queue := send_queue s @ [frame data]\<rparr>"
  have "post_completion_port_signal os (sr_iocp r) ?q w = (res, s', w')"
    using assms(1,2) by (simp add: send_async_def allocate_frame)
  note post = post_signal_frame [OF this]
  have q: "ss_inv ?q" "ss_pending ?q = ss_pending s @ frame data"
    using assms(2,3) by (simp_all add: ss_inv_def ss_pending_def buffer_ok_frame)
  from post q show "ss_inv s'" and "ss_pending s' = ss_pending s @ frame data"
    and "send_queue s' = send_queue s @ [frame data]" by simp_all
qed

lemma begin_send_empty:
  "send_queue s = [] \<Longrightarrow> begin_send os session s w = Some (0, s\<lparr>post_send_signal := False\<rparr>, w)"
  by (simp add: begin_send_def)

text \<open>\<open>BeginSend\<close> with work hands the kernel exactly the pending bytes and keeps them.\<close>

lemma begin_send_nonempty:
  assumes inv: "ss_inv s" and ne: "send_queue s \<noteq> []"
  obtains bufs t ret w' e where
    "concat bufs = ss_pending s"
    and "os_wsa_send os (sr_socket r) bufs (Some (ss_overlapped s)) w = (ret, w')"
    and "e = (if ret = SOCKET_ERROR \<and> os_last_error os w' \<noteq> WSA_IO_PENDING then os_last_error os w' else 0)"
    and "begin_send os (Some r) s w = Some (e, t, w')"
    and "ss_inv t" and "ss_pending t = ss_pending s" and "send_queue t = []"
    and "post_send_signal t = post_send_signal s" and "ss_overlapped t = ss_overlapped s"
    and "sending_packets t = sending_packets s @ send_queue s" and "send_error t = send_error s"
proof -
  let ?bufs = "sending_packets s @ send_queue s"
  have ok: "list_all buffer_ok ?bufs" "offset_ok ?bufs (sending_offset s)"
    using inv by (simp_all add: ss_inv_def offset_ok_append)
  from make_wsabufs_defined [OF this] ne obtain bufs where
    bufs: "make_wsabufs (sending_offset s) ?bufs = Some bufs"
      "concat bufs = drop (unat (sending_offset s)) (concat ?bufs)" by auto
  have "unat (sending_offset s) \<le> length (concat (sending_packets s))"
    using inv by (simp add: ss_inv_def offset_le_concat)
  then have pending: "concat bufs = ss_pending s"
    using bufs(2) by (simp add: ss_pending_def)
  obtain ret w' where ret: "os_wsa_send os (sr_socket r) bufs (Some (ss_overlapped s)) w = (ret, w')"
    by force
  let ?t = "s\<lparr>sending_packets := ?bufs, send_queue := [], ss_ov_offset := 0\<rparr>"
  have "begin_send os (Some r) s w = Some (if ret = SOCKET_ERROR \<and> os_last_error os w' \<noteq> WSA_IO_PENDING
      then os_last_error os w' else 0, ?t, w')"
    using ne bufs(1) ret by (simp add: begin_send_def Let_def)
  moreover have "ss_inv ?t" "ss_pending ?t = ss_pending s"
    using ok bufs(2) pending by (simp_all add: ss_inv_def ss_pending_def)
  ultimately show thesis
    using that [OF pending ret refl] by simp
qed

lemma begin_send_result:
  assumes "ss_inv s"
  obtains e t w' where "begin_send os (Some r) s w = Some (e, t, w')"
    and "ss_inv t" and "ss_pending t = ss_pending s" and "send_queue t = []"
    and "post_send_signal t \<longrightarrow> post_send_signal s" and "ss_overlapped t = ss_overlapped s"
proof (cases "send_queue s = []")
  case True
  then show thesis
    using assms that [of 0 "s\<lparr>post_send_signal := False\<rparr>" w]
    by (simp add: begin_send_empty [OF True] ss_inv_def ss_pending_def)
next
  case False
  show thesis
    by (rule begin_send_nonempty [OF assms False, of os r w]) (rule that, (assumption | simp)+)
qed

text \<open>Bytes in flight: what the last \<open>WSASend\<close> may have transmitted.\<close>

definition ss_sending :: "session_sender \<Rightarrow> nat" where
  "ss_sending s = length (concat (sending_packets s)) - unat (sending_offset s)"

lemma on_send_advance_spec:
  assumes inv: "ss_inv s" and n: "unat n \<le> ss_sending s"
    and small: "length (concat (sending_packets s)) < 2 ^ 32"
  shows "ss_inv (on_send_advance 0 n s) \<and>
    ss_pending (on_send_advance 0 n s) = drop (unat n) (ss_pending s)"
proof -
  let ?off = "sending_offset s" and ?bufs = "sending_packets s"
  have off: "unat ?off \<le> length (concat ?bufs)"
    using inv by (simp add: ss_inv_def offset_le_concat)
  then have sum: "unat (n + ?off) = unat n + unat ?off"
    using n small by (intro unat_add_small) (simp add: ss_sending_def)
  obtain packets offset where d: "drop_sent (n + ?off) ?bufs 0 = (packets, offset)"
    by force
  have "unat (n + ?off) \<le> length (concat ?bufs)"
    using sum n off by (simp add: ss_sending_def)
  from drop_sent_spec [OF _ this d] inv
  have "list_all buffer_ok packets \<and> offset_ok packets offset \<and>
      drop (unat offset) (concat packets) = drop (unat n) (drop (unat ?off) (concat ?bufs))"
    by (simp add: ss_inv_def sum add.commute)
  moreover have "on_send_advance 0 n s = s\<lparr>sending_packets := packets, sending_offset := offset\<rparr>"
    by (simp add: on_send_advance_def d)
  ultimately show ?thesis
    using inv n by (simp add: ss_inv_def ss_pending_def ss_sending_def)
qed

lemma on_send_advance_frame [simp]:
  "send_queue (on_send_advance e n s) = send_queue s"
  "post_send_signal (on_send_advance e n s) = post_send_signal s"
  "ss_overlapped (on_send_advance e n s) = ss_overlapped s"
  by (auto simp: on_send_advance_def Let_def split: prod.splits)

text \<open>After the bytes are dropped, \<open>OnSend\<close> never changes the pending bytes again.\<close>

lemma on_send_from:
  assumes "ss_inv (on_send_advance e n s)"
  obtains t w' where "on_send os (Some r) e n s w = Some (t, w')"
    and "ss_inv t" and "ss_pending t = ss_pending (on_send_advance e n s)"
    and "send_queue t = []" and "ss_overlapped t = ss_overlapped s"
proof -
  let ?a = "on_send_advance e n s"
  obtain e1 t1 w1 where
    1: "begin_send os (Some r) ?a w = Some (e1, t1, w1)" "ss_inv t1"
      "ss_pending t1 = ss_pending ?a" "send_queue t1 = []" "ss_overlapped t1 = ss_overlapped s"
    by (rule begin_send_result [OF assms, of os r w]) (rule that, (assumption | simp)+)
  obtain e2 t2 w2 where
    2: "begin_send os (Some r) t1 w1 = Some (e2, t2, w2)" "ss_inv t2"
      "ss_pending t2 = ss_pending t1" "send_queue t2 = []" "ss_overlapped t2 = ss_overlapped t1"
    by (rule begin_send_result [OF 1(2), of os r w1]) (rule that, assumption+)
  have upd: "ss_inv (t\<lparr>send_error := x, post_send_signal := False\<rparr>) = ss_inv t"
    "ss_pending (t\<lparr>send_error := x, post_send_signal := False\<rparr>) = ss_pending t" for t x
    by (simp_all add: ss_inv_def ss_pending_def)
  show thesis
  proof (cases "retryable e1")
    case True
    then show thesis
      using that 1 2 upd by (simp add: on_send_def Let_def)
  next
    case False
    then show thesis
      using that 1 upd by (simp add: on_send_def Let_def)
  qed
qed

section \<open>The sender as a pipe of bytes\<close>

text \<open>
  One operation on sender and world.  \<open>sender_tx\<close> is a completion: with success it reports
  \<open>n\<close> transmitted bytes, at most those in flight; with an error it transmits nothing.
  The world may change arbitrarily between operations.
\<close>

definition sender_enq :: "'w os \<Rightarrow> session_ref \<Rightarrow> byte list \<Rightarrow> session_sender \<times> 'w \<Rightarrow> session_sender \<times> 'w \<Rightarrow> bool" where
  "sender_enq os r data x y \<longleftrightarrow> framable data \<and>
     (\<exists>w res. send_async os (Some r) data (of_nat (length data)) (fst x) w = Some (res, y))"

definition sender_tx :: "'w os \<Rightarrow> session_ref \<Rightarrow> nat \<Rightarrow> session_sender \<times> 'w \<Rightarrow> session_sender \<times> 'w \<Rightarrow> bool" where
  "sender_tx os r k x y \<longleftrightarrow>
     (\<exists>w e n. on_send os (Some r) e n (fst x) w = Some y \<and>
        k = (if e = ERROR_SUCCESS then unat n else 0) \<and>
        (e = ERROR_SUCCESS \<longrightarrow> unat n \<le> ss_sending (fst x)) \<and>
        length (concat (sending_packets (fst x))) < 2 ^ 32)"

lemma sender_tx_effect:
  assumes "ss_inv (fst x)" and "sender_tx os r k x y"
  shows "ss_inv (fst y) \<and> ss_pending (fst y) = drop k (ss_pending (fst x))"
proof -
  from assms(2) obtain w e n where on: "on_send os (Some r) e n (fst x) w = Some y"
    and k: "k = (if e = 0 then unat n else 0)" and le: "e = 0 \<longrightarrow> unat n \<le> ss_sending (fst x)"
    and small: "length (concat (sending_packets (fst x))) < 2 ^ 32"
    by (auto simp: sender_tx_def)
  let ?a = "on_send_advance e n (fst x)"
  have adv: "ss_inv ?a \<and> ss_pending ?a = drop k (ss_pending (fst x))"
  proof (cases "e = 0")
    case True
    then show ?thesis
      using on_send_advance_spec [OF assms(1) _ small] k le by simp
  next
    case False
    then show ?thesis
      using assms(1) k by (simp add: on_send_advance_def)
  qed
  obtain t w' where
    "on_send os (Some r) e n (fst x) w = Some (t, w')" "ss_inv t" "ss_pending t = ss_pending ?a"
    by (rule on_send_from [OF adv [THEN conjunct1], of os r w]) (rule that, assumption+)
  then show ?thesis
    using on adv by auto
qed

interpretation sender_pipe: byte_pipe "\<lambda>x. ss_inv (fst x)" "\<lambda>x. ss_pending (fst x)"
    "sender_enq os r" "sender_tx os r" for os :: "'w os" and r
proof
  fix d s s' assume "ss_inv (fst s)" "sender_enq os r d s s'"
  then show "ss_inv (fst s')" and "ss_pending (fst s') = ss_pending (fst s) @ frame d"
    by (cases s'; auto simp: sender_enq_def dest: send_async_enqueues(1,2))+
next
  fix n s s' assume "ss_inv (fst s)" "sender_tx os r n s s'"
  then show "ss_inv (fst s')" and "ss_pending (fst s') = drop n (ss_pending (fst s))"
    by (blast dest: sender_tx_effect)+
qed

section \<open>The completion protocol\<close>

text \<open>
  What the sender relies on: \<open>queued w\<close> counts the completions for its \<open>OVERLAPPED\<close> that
  are in the port or will arrive.  A successful \<open>PostQueuedCompletionStatus\<close>, and a
  \<open>WSASend\<close> that succeeds or is pending, adds one; a failing call adds none, and a failing
  \<open>WSASend\<close> has an error code.
\<close>

definition completion_contract :: "'w os \<Rightarrow> nat \<Rightarrow> ('w \<Rightarrow> nat) \<Rightarrow> bool" where
  "completion_contract os ctx queued \<longleftrightarrow>
     (\<forall>h n w. case os_post_status os h n (Some ctx) w of (ok, w') \<Rightarrow>
        queued w' = queued w + (if ok then 1 else 0)) \<and>
     (\<forall>h bufs w. case os_wsa_send os h bufs (Some ctx) w of (ret, w') \<Rightarrow>
        queued w' = queued w +
          (if ret = SOCKET_ERROR \<and> os_last_error os w' \<noteq> WSA_IO_PENDING then 0 else 1) \<and>
        (ret = SOCKET_ERROR \<longrightarrow> os_last_error os w' \<noteq> ERROR_SUCCESS))"

lemma contract_postD:
  assumes "completion_contract os ctx queued" and "os_post_status os h n (Some ctx) w = (ok, w')"
  shows "queued w' = queued w + (if ok then 1 else 0)"
  using assms(1) [unfolded completion_contract_def, THEN conjunct1, THEN spec [of _ h], THEN spec [of _ n], THEN spec [of _ w]] assms(2)
  by simp

lemma contract_sendD:
  assumes "completion_contract os ctx queued" and "os_wsa_send os h bufs (Some ctx) w = (ret, w')"
  shows "queued w' = queued w +
      (if ret = SOCKET_ERROR \<and> os_last_error os w' \<noteq> WSA_IO_PENDING then 0 else 1)"
    and "ret = SOCKET_ERROR \<Longrightarrow> os_last_error os w' \<noteq> ERROR_SUCCESS"
  using assms(1) [unfolded completion_contract_def, THEN conjunct2, THEN spec [of _ h], THEN spec [of _ bufs], THEN spec [of _ w]] assms(2)
  by simp_all

text \<open>
  Steps of a sender: an application thread sends, another component acts on the world
  without touching this sender's completions, or a worker dequeues one of its completions
  and runs \<open>OnSend\<close>.
\<close>

inductive sender_step ::
  "'w os \<Rightarrow> session_ref \<Rightarrow> ('w \<Rightarrow> nat) \<Rightarrow> session_sender \<times> 'w \<Rightarrow> session_sender \<times> 'w \<Rightarrow> bool"
  for os r queued where
  app_send: "framable data \<Longrightarrow>
    send_async os (Some r) data (of_nat (length data)) s w = Some (res, s', w') \<Longrightarrow>
    sender_step os r queued (s, w) (s', w')"
| other: "queued w' = queued w \<Longrightarrow> sender_step os r queued (s, w) (s, w')"
| completion: "queued w = Suc (queued w1) \<Longrightarrow>
    (e = ERROR_SUCCESS \<longrightarrow> unat n \<le> ss_sending s) \<Longrightarrow>
    length (concat (sending_packets s)) < 2 ^ 32 \<Longrightarrow>
    on_send os (Some r) e n s w1 = Some (s', w') \<Longrightarrow>
    sender_step os r queued (s, w) (s', w')"

inductive_cases sender_stepE: "sender_step os r queued x y"

text \<open>The signal flag is exactly the number of outstanding completions.\<close>

definition signal_inv :: "nat \<Rightarrow> ('w \<Rightarrow> nat) \<Rightarrow> session_sender \<times> 'w \<Rightarrow> bool" where
  "signal_inv ctx queued = (\<lambda>(s, w). ss_inv s \<and> ss_overlapped s = ctx \<and>
     queued w = (if post_send_signal s then 1 else 0))"

lemma send_async_signal:
  assumes "completion_contract os ctx queued" and "signal_inv ctx queued (s, w)" and "framable data"
    and "send_async os (Some r) data (of_nat (length data)) s w = Some (res, s', w')"
  shows "signal_inv ctx queued (s', w')"
proof -
  have inv: "ss_inv s'"
    using send_async_enqueues [OF assms(4,3)] assms(2) by (simp add: signal_inv_def)
  have "post_completion_port_signal os (sr_iocp r) (s\<lparr>send_queue := send_queue s @ [frame data]\<rparr>) w
      = (res, s', w')"
    using assms(3,4) by (simp add: send_async_def allocate_frame)
  moreover obtain ok v where "os_post_status os (sr_iocp r) 0 (Some ctx) w = (ok, v)"
    by force
  ultimately show ?thesis
    using assms(2) inv contract_postD [OF assms(1), of "sr_iocp r" 0 w]
    by (auto simp: post_completion_port_signal_def signal_inv_def Let_def split: if_splits prod.splits)
qed

text \<open>One \<open>BeginSend\<close> with no completion outstanding: it leaves one exactly if it succeeds with work.\<close>

lemma begin_send_signal:
  assumes "completion_contract os ctx queued" and "ss_inv s" "ss_overlapped s = ctx"
    and "queued w = 0" and "begin_send os (Some r) s w = Some (e, t, w')"
  shows "if send_queue s = [] then e = 0 \<and> queued w' = 0 \<and> \<not> post_send_signal t
    else post_send_signal t = post_send_signal s \<and> queued w' = (if e = 0 then 1 else 0)"
proof (cases "send_queue s = []")
  case True
  then show ?thesis
    using assms(4,5) by (auto simp: begin_send_empty)
next
  case False
  obtain bufs u ret v e' where
    b: "os_wsa_send os (sr_socket r) bufs (Some (ss_overlapped s)) w = (ret, v)"
      "e' = (if ret = SOCKET_ERROR \<and> os_last_error os v \<noteq> WSA_IO_PENDING then os_last_error os v else 0)"
      "begin_send os (Some r) s w = Some (e', u, v)" "post_send_signal u = post_send_signal s"
    by (rule begin_send_nonempty [OF assms(2) False, of os r w]) (rule that, assumption+)
  have "queued v = (if ret = SOCKET_ERROR \<and> os_last_error os v \<noteq> WSA_IO_PENDING then 0 else 1)"
    and "ret = SOCKET_ERROR \<longrightarrow> os_last_error os v \<noteq> ERROR_SUCCESS"
    using contract_sendD [OF assms(1) b(1) [unfolded assms(3)]] assms(4) by simp_all
  moreover have "t = u" "w' = v" "e = e'"
    using b(3) assms(5) by simp_all
  ultimately show ?thesis
    using b(2,4) False by simp
qed

lemma on_send_signal:
  assumes con: "completion_contract os ctx queued" and inv: "ss_inv (on_send_advance e n s)"
    and ctx: "ss_overlapped s = ctx" and q: "queued w = 0" and flag: "post_send_signal s"
    and on: "on_send os (Some r) e n s w = Some (t, w')"
  shows "queued w' = (if post_send_signal t then 1 else 0)"
proof -
  let ?a = "on_send_advance e n s"
  obtain e1 t1 w1 where
    1: "begin_send os (Some r) ?a w = Some (e1, t1, w1)" "ss_inv t1" "send_queue t1 = []"
      "ss_overlapped t1 = ctx"
    by (rule begin_send_result [OF inv, of os r w]) (rule that, (assumption | simp add: ctx)+)
  have s1: "if send_queue s = [] then e1 = 0 \<and> queued w1 = 0 \<and> \<not> post_send_signal t1
      else post_send_signal t1 \<and> queued w1 = (if e1 = 0 then 1 else 0)"
    using begin_send_signal [OF con inv _ q 1(1)] ctx flag by simp
  show ?thesis
  proof (cases "retryable e1")
    case True
    then have "e1 \<noteq> 0" by (auto simp: retryable_def)
    then have q1: "queued w1 = 0"
      using s1 by (simp split: if_splits)
    have "t = t1\<lparr>post_send_signal := False\<rparr>" "w' = w1"
      using on 1 True by (auto simp: on_send_def Let_def begin_send_empty)
    then show ?thesis using q1 by simp
  next
    case False
    then show ?thesis
      using on 1(1) s1 by (auto simp: on_send_def Let_def split: if_splits)
  qed
qed

lemma sender_step_signal:
  assumes "completion_contract os ctx queued" and "signal_inv ctx queued x"
    and "sender_step os r queued x y"
  shows "signal_inv ctx queued y"
  using assms(3)
proof (cases rule: sender_step.cases)
  case (app_send data s w res s' w')
  then show ?thesis
    using send_async_signal [OF assms(1)] assms(2) by simp
next
  case (other w' w s)
  then show ?thesis
    using assms(2) by (simp add: signal_inv_def)
next
  case (completion w w1 e n s s' w')
  then have flag: "post_send_signal s" and q: "queued w1 = 0" and inv: "ss_inv s"
    and ctx: "ss_overlapped s = ctx"
    using assms(2) by (auto simp: signal_inv_def split: if_splits)
  have adv: "ss_inv (on_send_advance e n s)"
  proof (cases "e = 0")
    case True
    then show ?thesis
      using on_send_advance_spec [OF inv _ completion(5)] completion(4) by simp
  next
    case False
    then show ?thesis using inv by (simp add: on_send_advance_def)
  qed
  have "ss_inv s' \<and> ss_overlapped s' = ctx"
    by (rule on_send_from [OF adv, of os r w1]) (use completion(6) ctx in simp)
  then show ?thesis
    using on_send_signal [OF assms(1) adv ctx q flag completion(6)] completion(2) by (simp add: signal_inv_def)
qed

section \<open>Properties\<close>

lemma sample_contract: "completion_contract sample_os ctx id"
  by (simp add: completion_contract_def sample_os_def)

text \<open>C3: In every reachable state of a sender, with any
  interleaving of \<open>SendAsync\<close> calls, completions (full, partial or failed) and activity of
  other components, at most one completion for its \<open>OVERLAPPED\<close> is outstanding, and the flag
  \<open>post_send_signal\<close> is set exactly when one is: the structure is never handed to the kernel
  twice.\<close>

theorem sender_one_completion_outstanding:
  assumes "completion_contract os ctx queued" and "queued w0 = 0"
    and "(sender_step os r queued)\<^sup>*\<^sup>* (new_sender ctx, w0) (s, w)"
  shows "queued w = (if post_send_signal s then 1 else 0)"
proof -
  have "signal_inv ctx queued (s, w)"
    using assms(3)
  proof (induction "(s, w)" arbitrary: s w rule: rtranclp_induct)
    case base
    then show ?case
      using assms(2) by (simp add: signal_inv_def new_sender_def ss_inv_def offset_ok_def)
  next
    case (step y)
    then show ?case
      using sender_step_signal [OF assms(1)] by (metis surj_pair)
  qed
  then show ?thesis by (simp add: signal_inv_def)
qed

theorem sender_one_completion_outstanding_witness:
  "\<exists>s. (sender_step sample_os \<lparr>sr_socket = 7, sr_iocp = 5\<rparr> id)\<^sup>*\<^sup>* (new_sender 1, 0) (s, 1) \<and>
     id (1 :: nat) = (if post_send_signal s then 1 else 0)"
proof -
  let ?r = "\<lparr>sr_socket = 7, sr_iocp = 5\<rparr>" and ?s = "new_sender 1\<lparr>send_queue := [frame [42]], post_send_signal := True\<rparr>"
  have f: "framable [42]" by (simp add: framable_def)
  have "send_async sample_os (Some ?r) [42] (of_nat (length [42 :: byte])) (new_sender 1) 0 = Some (Inr (), ?s, 1)"
    using allocate_frame [OF f]
    by (simp add: send_async_def post_completion_port_signal_def new_sender_def sample_os_def)
  then have "sender_step sample_os ?r id (new_sender 1, 0) (?s, 1)"
    by (rule app_send [OF f])
  then have "(sender_step sample_os ?r id)\<^sup>*\<^sup>* (new_sender 1, 0) (?s, 1)" by blast
  then show ?thesis
    using sender_one_completion_outstanding [OF sample_contract, of 0 ?r 1 ?s 1] by auto
qed



text \<open>C18: When a completion reports only part of the bytes in flight and
  nothing new is queued, \<open>OnSend\<close> makes no system call at all: the untransmitted bytes stay
  in \<open>sending_packets_\<close> with no send and no signal outstanding, until somebody happens to
  call \<open>SendAsync\<close> again.\<close>

theorem partial_send_stalls:
  assumes "ss_inv s" and "send_queue s = []" and "unat n < ss_sending s"
    and "length (concat (sending_packets s)) < 2 ^ 32"
  shows "\<exists>t. on_send os session 0 n s w = Some (t, w) \<and> \<not> post_send_signal t \<and>
    ss_pending t \<noteq> [] \<and> ss_pending t = drop (unat n) (ss_pending s)"
proof -
  let ?a = "on_send_advance 0 n s"
  have adv: "ss_pending ?a = drop (unat n) (ss_pending s)"
    using on_send_advance_spec [OF assms(1) _ assms(4)] assms(3) by simp
  have "on_send os session 0 n s w = Some (?a\<lparr>post_send_signal := False\<rparr>, w)"
    using assms(2) by (simp add: on_send_def Let_def begin_send_empty retryable_def)
  moreover have "length (ss_pending s) = ss_sending s"
    using assms(2) by (simp add: ss_pending_def ss_sending_def)
  moreover have "ss_pending (?a\<lparr>post_send_signal := False\<rparr>) = ss_pending ?a"
    by (simp add: ss_pending_def)
  ultimately show ?thesis
    using adv assms(3) by auto
qed

theorem partial_send_stalls_witness:
  "\<exists>t. on_send sample_os None 0 2 (new_sender 1\<lparr>sending_packets := [[1, 0, 0, 0, 42]], post_send_signal := True\<rparr>) 0
      = Some (t, 0) \<and> \<not> post_send_signal t \<and> ss_pending t \<noteq> [] \<and> ss_pending t = [0, 0, 42]"
proof -
  let ?s = "new_sender 1\<lparr>sending_packets := [[1, 0, 0, 0, 42]], post_send_signal := True\<rparr>"
  have "ss_inv ?s"
    by (simp add: ss_inv_def new_sender_def offset_ok_def buffer_ok_def)
  from partial_send_stalls [OF this, of 2 sample_os None 0] show ?thesis
    by (simp add: new_sender_def ss_sending_def ss_pending_def)
qed

text \<open>When \<open>WSASend\<close> fails with one of the three errors that
  \<open>OnSend\<close> means to retry, the second \<open>BeginSend\<close> finds the queue already emptied by the
  first: no second \<open>WSASend\<close> is issued (the world is the one after the failed call), the
  error is not recorded, and all bytes stay pending with no completion outstanding.\<close>

theorem failed_send_is_not_retried:
  assumes "ss_inv s" and "send_queue s \<noteq> []" and "length (concat (sending_packets s)) < 2 ^ 32"
    and fails: "\<And>bufs. os_wsa_send os (sr_socket r) bufs (Some (ss_overlapped s)) w = (SOCKET_ERROR, w')"
    and retry: "retryable (os_last_error os w')"
  shows "\<exists>t. on_send os (Some r) 0 0 s w = Some (t, w') \<and> \<not> post_send_signal t \<and>
    send_error t = send_error s \<and> ss_pending t = ss_pending s \<and> ss_pending t \<noteq> []"
proof -
  let ?a = "on_send_advance 0 0 s"
  have adv: "ss_inv ?a" "ss_pending ?a = ss_pending s"
    using on_send_advance_spec [OF assms(1) _ assms(3), of 0] by simp_all
  have err: "send_error ?a = send_error s"
    by (auto simp: on_send_advance_def Let_def split: prod.splits)
  have ne: "send_queue ?a \<noteq> []"
    using assms(2) by simp
  obtain bufs t ret v e where
    t: "os_wsa_send os (sr_socket r) bufs (Some (ss_overlapped ?a)) w = (ret, v)"
      "e = (if ret = SOCKET_ERROR \<and> os_last_error os v \<noteq> WSA_IO_PENDING then os_last_error os v else 0)"
      "begin_send os (Some r) ?a w = Some (e, t, v)"
      "ss_pending t = ss_pending ?a" "send_queue t = []" "send_error t = send_error ?a"
    by (rule begin_send_nonempty [OF adv(1) ne, of os r w]) (rule that, assumption+)
  have e: "e = os_last_error os w'" "v = w'"
    using t(1,2) fails retry by (auto simp: retryable_def)
  have "on_send os (Some r) 0 0 s w = Some (t\<lparr>post_send_signal := False\<rparr>, w')"
    using t(3,5) retry e by (simp add: on_send_def Let_def begin_send_empty)
  moreover have "ss_pending s \<noteq> []"
    using assms(1,2) by (cases "send_queue s") (auto simp: ss_pending_def ss_inv_def buffer_ok_def)
  moreover have "ss_pending (t\<lparr>post_send_signal := False\<rparr>) = ss_pending t"
    by (simp add: ss_pending_def)
  ultimately show ?thesis
    using t(4,6) adv(2) err by auto
qed

theorem failed_send_is_not_retried_sample:
  "\<exists>os t. on_send os (Some \<lparr>sr_socket = 7, sr_iocp = 5\<rparr>) 0 0
      (new_sender 1\<lparr>send_queue := [[1, 0, 0, 0, 42]], post_send_signal := True\<rparr>) (0 :: nat) = Some (t, 1) \<and>
    \<not> post_send_signal t \<and> send_error t = 0 \<and> ss_pending t \<noteq> []"
proof -
  let ?os = "sample_os\<lparr>os_wsa_send := (\<lambda>s bufs ov w. (SOCKET_ERROR, Suc w)), os_last_error := (\<lambda>w. WSAENOBUFS)\<rparr>"
  let ?s = "new_sender 1\<lparr>send_queue := [[1, 0, 0, 0, 42]], post_send_signal := True\<rparr>"
  have "ss_inv ?s"
    by (simp add: ss_inv_def new_sender_def offset_ok_def buffer_ok_def)
  from failed_send_is_not_retried [OF this, of ?os "\<lparr>sr_socket = 7, sr_iocp = 5\<rparr>" 0 1] show ?thesis
    by (fastforce simp: new_sender_def retryable_def)
qed

end
