(* ===== verification/Session_Receiver.thy ===== *)
theory Session_Receiver
  imports Win_Sock Session_Sender
begin

text \<open>
  \<open>lib/iocplib/socket_session.h\<close> and \<open>src/socket_session.cpp\<close>: the class \<open>SessionReceiver\<close>.
  A zero-byte \<open>WSARecv\<close> is kept outstanding; when it completes, \<open>OnReceive\<close> reads the
  socket until it would block, hands each chunk to the session's virtual method
  \<open>OnReceivePacket\<close> (the parameter \<open>handler\<close>), and starts the next \<open>WSARecv\<close>.
  The argument \<open>session\<close> is what \<open>session_.lock()\<close> returns; the handler works on the state
  \<open>'u\<close> of the session outside the receiver.
\<close>

section \<open>State\<close>

record session_receiver =
  sc_overlapped :: nat            \<comment> \<open>the address of \<open>overlapped_context_\<close>\<close>
  zero_byte_recv :: bool
  recv_error :: dword
  sc_buffer :: "byte list"

definition new_session_receiver :: "nat \<Rightarrow> session_receiver" where
  "new_session_receiver ctx = \<lparr>sc_overlapped = ctx, zero_byte_recv = False, recv_error = 0,
     sc_buffer = replicate kSocketBufferSize 0\<rparr>"

type_synonym ('u, 'w) packet_handler =
  "byte list \<Rightarrow> u32 \<Rightarrow> 'u \<Rightarrow> 'w \<Rightarrow> (unit, 'u, 'w) method_result option"

section \<open>Operations\<close>

definition begin_receive ::
  "'w os \<Rightarrow> session_ref option \<Rightarrow> session_receiver \<Rightarrow> 'w \<Rightarrow> (dword \<times> session_receiver \<times> 'w) option" where
  "begin_receive os session s w =
     (let s = s\<lparr>zero_byte_recv := True\<rparr> in
      do {
        r \<leftarrow> session;
        let (err, w) = os_wsa_recv os (sr_socket r) (Some (sc_overlapped s)) w;
        if err = SOCKET_ERROR \<and> os_last_error os w \<noteq> WSA_IO_PENDING
        then Some (os_last_error os w, s, w)
        else Some (0, s, w)
      })"

definition recv_on_error ::
  "'w os \<Rightarrow> session_ref option \<Rightarrow> dword \<Rightarrow> session_receiver \<Rightarrow> 'w \<Rightarrow> (dword \<times> session_receiver \<times> 'w) option" where
  "recv_on_error os session dwError s w =
     (if dwError = ERROR_SUCCESS then Some (dwError, s, w)
      else if retryable dwError then begin_receive os session s w
      else Some (dwError, s\<lparr>recv_error := dwError\<rparr>, w))"

text \<open>
  The \<open>while (true)\<close> loop of \<open>OnReceive\<close>.  It ends when the socket would block or fails
  (\<open>Drained e\<close> with \<open>e\<close> the new \<open>dwError\<close>), when the peer has closed, or by an exception of
  the handler; a loop that never ends is \<open>None\<close>.
\<close>

datatype recv_end = Drained dword | Disconnected | Threw win_sock_exception

partial_function (option) recv_loop ::
  "'w os \<Rightarrow> ('u, 'w) packet_handler \<Rightarrow> win_sock \<Rightarrow> byte list \<Rightarrow> 'u \<Rightarrow> 'w \<Rightarrow>
   (recv_end \<times> byte list \<times> 'u \<times> 'w) option" where
  "recv_loop os handler sock buffer u w =
     (case ws_try_recv os (of_nat kSocketBufferSize) 0 sock w of
        (received, bytes, w) \<Rightarrow>
          if received = SOCKET_ERROR then
            (if os_last_error os w = WSAEWOULDBLOCK then Some (Drained 0, buffer, u, w)
             else Some (Drained (os_last_error os w), buffer, u, w))
          else if received = 0 then Some (Disconnected, buffer, u, w)
          else do {
            buffer \<leftarrow> copy_to bytes (unat received) buffer 0;
            (res, u, w) \<leftarrow> handler buffer received u w;
            (case res of
               Inl e \<Rightarrow> Some (Threw e, buffer, u, w)
             | Inr _ \<Rightarrow> recv_loop os handler sock buffer u w)
          })"

definition recv_zero_byte ::
  "'w os \<Rightarrow> ('u, 'w) packet_handler \<Rightarrow> session_ref option \<Rightarrow> session_receiver \<Rightarrow> 'u \<Rightarrow> 'w \<Rightarrow>
   ((win_sock_exception + unit) \<times> session_receiver \<times> 'u \<times> 'w) option" where
  "recv_zero_byte os handler session s u w =
     (let s = s\<lparr>zero_byte_recv := False\<rparr> in
      do {
        r \<leftarrow> session;
        (res, buffer, u, w) \<leftarrow> recv_loop os handler \<lparr>handle = sr_socket r\<rparr> (sc_buffer s) u w;
        let s = s\<lparr>sc_buffer := buffer\<rparr>;
        (case res of
           Threw e \<Rightarrow> Some (Inl e, s, u, w)
         | _ \<Rightarrow> do {
             let s = (if res = Disconnected then s\<lparr>recv_error := WSAECONNRESET\<rparr> else s);
             let dwError = (case res of Drained e \<Rightarrow> e | _ \<Rightarrow> ERROR_SUCCESS);
             (dwError, s, w) \<leftarrow> (if dwError = ERROR_SUCCESS then begin_receive os session s w
                                else Some (dwError, s, w));
             (dwError, s, w) \<leftarrow> (if dwError \<noteq> 0 then recv_on_error os session dwError s w
                                else Some (dwError, s, w));
             Some (Inr (), s, u, w)
           })
      })"

definition session_on_receive ::
  "'w os \<Rightarrow> ('u, 'w) packet_handler \<Rightarrow> session_ref option \<Rightarrow> dword \<Rightarrow> dword \<Rightarrow> session_receiver \<Rightarrow> 'u \<Rightarrow> 'w \<Rightarrow>
   ((win_sock_exception + unit) \<times> session_receiver \<times> 'u \<times> 'w) option" where
  "session_on_receive os handler session dwError dwBytesTransferred s u w =
     (if dwError \<noteq> 0 then do {
        (e, s, w) \<leftarrow> recv_on_error os session dwError s w;
        Some (Inr (), s, u, w)
      }
      else if zero_byte_recv s then recv_zero_byte os handler session s u w
      else Some (Inr (), s, u, w))"

declare recv_loop.simps [code]

section \<open>The protocol of the receive \<open>OVERLAPPED\<close>\<close>

text \<open>
  As for the sender: \<open>queued w\<close> counts the completions of the receiver's \<open>OVERLAPPED\<close> that
  are in the port or will arrive.
\<close>

definition recv_contract :: "'w os \<Rightarrow> nat \<Rightarrow> ('w \<Rightarrow> nat) \<Rightarrow> bool" where
  "recv_contract os ctx queued \<longleftrightarrow>
     (\<forall>h w. case os_wsa_recv os h (Some ctx) w of (ret, w') \<Rightarrow>
        queued w' = queued w +
          (if ret = SOCKET_ERROR \<and> os_last_error os w' \<noteq> WSA_IO_PENDING then 0 else 1) \<and>
        (ret = SOCKET_ERROR \<longrightarrow> os_last_error os w' \<noteq> ERROR_SUCCESS)) \<and>
     (\<forall>h n flags w. case os_recv os h n flags w of (ret, bytes, w') \<Rightarrow> queued w' = queued w)"

definition handler_keeps :: "('u, 'w) packet_handler \<Rightarrow> ('w \<Rightarrow> nat) \<Rightarrow> bool" where
  "handler_keeps handler queued \<longleftrightarrow>
     (\<forall>b n u w. case handler b n u w of None \<Rightarrow> True | Some (res, u', w') \<Rightarrow> queued w' = queued w)"

definition recv_inv :: "nat \<Rightarrow> ('w \<Rightarrow> nat) \<Rightarrow> session_receiver \<times> 'w \<Rightarrow> bool" where
  "recv_inv ctx queued = (\<lambda>(s, w). sc_overlapped s = ctx \<and> queued w \<le> 1 \<and>
     (queued w = 1 \<longrightarrow> zero_byte_recv s))"

lemma recv_contractD:
  assumes "recv_contract os ctx queued" and "os_wsa_recv os h (Some ctx) w = (ret, w')"
  shows "queued w' = queued w +
      (if ret = SOCKET_ERROR \<and> os_last_error os w' \<noteq> WSA_IO_PENDING then 0 else 1)"
    and "ret = SOCKET_ERROR \<Longrightarrow> os_last_error os w' \<noteq> ERROR_SUCCESS"
  using assms(1) [unfolded recv_contract_def, THEN conjunct1, THEN spec [of _ h], THEN spec [of _ w]]
    assms(2) by simp_all

lemma begin_receive_queued:
  assumes "recv_contract os ctx queued" and "sc_overlapped s = ctx" and "queued w = 0"
    and "begin_receive os (Some r) s w = Some (e, t, w')"
  shows "queued w' = (if e = 0 then 1 else 0)" and "zero_byte_recv t" and "sc_overlapped t = ctx"
proof -
  obtain ret v where v: "os_wsa_recv os (sr_socket r) (Some ctx) w = (ret, v)"
    by force
  note c = recv_contractD [OF assms(1) v]
  show "queued w' = (if e = 0 then 1 else 0)" and "zero_byte_recv t" and "sc_overlapped t = ctx"
    using assms(2-4) v c by (auto simp: begin_receive_def Let_def split: if_splits)
qed

lemma begin_receive_flag: "begin_receive os (Some r) s w = Some (e, t, w') \<Longrightarrow> t = s\<lparr>zero_byte_recv := True\<rparr>"
  by (auto simp: begin_receive_def Let_def split: prod.splits if_splits)

lemma begin_receive_defined: "\<exists>e t w'. begin_receive os (Some r) s w = Some (e, t, w')"
  by (auto simp: begin_receive_def Let_def split: prod.splits)

lemma recv_on_error_queued:
  assumes "recv_contract os ctx queued" and "sc_overlapped s = ctx" and "queued w = 0"
    and "recv_on_error os (Some r) e s w = Some (e', t, w')"
  shows "recv_inv ctx queued (t, w')"
  using assms begin_receive_queued [OF assms(1-3)]
  by (auto simp: recv_on_error_def recv_inv_def split: if_splits)

lemma recv_recvD:
  "recv_contract os ctx queued \<Longrightarrow> ws_try_recv os n flags sock w = (ret, bytes, w') \<Longrightarrow> queued w' = queued w"
  unfolding recv_contract_def ws_try_recv_def
  by (drule conjunct2) (drule spec [of _ "handle sock"], drule spec [of _ n], drule spec [of _ flags],
      drule spec [of _ w], simp)

lemma handler_keepsD:
  "handler_keeps handler queued \<Longrightarrow> handler b n u w = Some (res, u', w') \<Longrightarrow> queued w' = queued w"
  unfolding handler_keeps_def by (fastforce split: option.splits)

lemma recv_loop_queued:
  assumes "recv_contract os ctx queued" and "handler_keeps handler queued"
    and "recv_loop os handler sock buffer u w = Some r"
  shows "queued (snd (snd (snd r))) = queued w"
proof -
  have "recv_contract os ctx queued \<longrightarrow> handler_keeps handler queued \<longrightarrow> queued (snd (snd (snd r))) = queued w"
  proof (rule recv_loop.raw_induct [where P = "\<lambda>os handler sock buffer u w r.
      recv_contract os ctx queued \<longrightarrow> handler_keeps handler queued \<longrightarrow> queued (snd (snd (snd r))) = queued w",
      OF _ assms(3)])
    fix f os handler sock buffer u w r
    assume IH: "\<And>os handler sock buffer u w r. f os handler sock buffer u w = Some r \<Longrightarrow>
        recv_contract os ctx queued \<longrightarrow> handler_keeps handler queued \<longrightarrow> queued (snd (snd (snd r))) = queued w"
      and eq: "(case ws_try_recv os (of_nat kSocketBufferSize) 0 sock w of
        (received, bytes, w) \<Rightarrow>
          if received = SOCKET_ERROR then
            (if os_last_error os w = WSAEWOULDBLOCK then Some (Drained 0, buffer, u, w)
             else Some (Drained (os_last_error os w), buffer, u, w))
          else if received = 0 then Some (Disconnected, buffer, u, w)
          else do {
            buffer \<leftarrow> copy_to bytes (unat received) buffer 0;
            (res, u, w) \<leftarrow> handler buffer received u w;
            (case res of
               Inl e \<Rightarrow> Some (Threw e, buffer, u, w)
             | Inr _ \<Rightarrow> f os handler sock buffer u w)
          }) = Some r"
    show "recv_contract os ctx queued \<longrightarrow> handler_keeps handler queued \<longrightarrow> queued (snd (snd (snd r))) = queued w"
      using eq IH
      by (auto split: prod.splits if_splits sum.splits bind_splits
          dest!: recv_recvD handler_keepsD)
  qed
  then show ?thesis using assms(1,2) by blast
qed

text \<open>The part of \<open>OnReceive\<close> after the loop: at most one new receive is started.\<close>

lemma recv_zero_byte_queued:
  assumes con: "recv_contract os ctx queued" and keeps: "handler_keeps handler queued"
    and ctx: "sc_overlapped s = ctx" and q: "queued w = 0"
    and rz: "recv_zero_byte os handler (Some r) s u w = Some (res, t, u', w')"
  shows "recv_inv ctx queued (t, w')"
proof -
  let ?s0 = "s\<lparr>zero_byte_recv := False\<rparr>"
  from rz obtain e b u1 w1 where
    loop: "recv_loop os handler \<lparr>handle = sr_socket r\<rparr> (sc_buffer s) u w = Some (e, b, u1, w1)"
    by (auto simp: recv_zero_byte_def Let_def split: bind_splits)
  have q1: "queued w1 = 0"
    using recv_loop_queued [OF con keeps loop] q by simp
  let ?s1 = "(?s0\<lparr>sc_buffer := b\<rparr>)"
  let ?s2 = "if e = Disconnected then ?s1\<lparr>recv_error := WSAECONNRESET\<rparr> else ?s1"
  have ctx2: "sc_overlapped ?s2 = ctx" "sc_overlapped ?s1 = ctx"
    using ctx by simp_all
  show ?thesis
  proof (cases e)
    case (Threw x)
    then show ?thesis
      using rz loop q1 ctx by (auto simp: recv_zero_byte_def recv_inv_def)
  next
    case (Drained d)
    show ?thesis
    proof (cases "d = 0")
      case True
      obtain e3 t3 w3 where b3: "begin_receive os (Some r) ?s1 w1 = Some (e3, t3, w3)"
        using begin_receive_defined by metis
      note bq = begin_receive_queued [OF con ctx2(2) q1 b3]
      show ?thesis
        using rz loop Drained True b3 bq recv_on_error_queued [OF con bq(3)]
        by (auto simp: recv_zero_byte_def Let_def recv_inv_def split: if_splits bind_splits)
    next
      case False
      then show ?thesis
        using rz loop Drained recv_on_error_queued [OF con ctx2(2) q1]
        by (auto simp: recv_zero_byte_def Let_def split: bind_splits)
    qed
  next
    case Disconnected
    obtain e3 t3 w3 where b3: "begin_receive os (Some r) ?s2 w1 = Some (e3, t3, w3)"
      using begin_receive_defined by metis
    note bq = begin_receive_queued [OF con ctx2(1) q1 b3]
    show ?thesis
      using rz loop Disconnected b3 bq recv_on_error_queued [OF con bq(3)]
      by (auto simp: recv_zero_byte_def Let_def recv_inv_def split: if_splits bind_splits)
  qed
qed

lemma session_on_receive_queued:
  assumes "recv_contract os ctx queued" and "handler_keeps handler queued"
    and "sc_overlapped s = ctx" and "queued w = 0"
    and "session_on_receive os handler (Some r) e n s u w = Some (res, t, u', w')"
  shows "recv_inv ctx queued (t, w')"
  using assms recv_on_error_queued [OF assms(1,3,4)] recv_zero_byte_queued [OF assms(1-4)]
  by (auto simp: session_on_receive_def recv_inv_def split: if_splits bind_splits)

text \<open>Steps of a receiver after \<open>OnAccept\<close>: other components, or one of its completions.\<close>

inductive receiver_step ::
  "'w os \<Rightarrow> ('u, 'w) packet_handler \<Rightarrow> session_ref \<Rightarrow> ('w \<Rightarrow> nat) \<Rightarrow>
   session_receiver \<times> 'w \<Rightarrow> session_receiver \<times> 'w \<Rightarrow> bool"
  for os handler r queued where
  recv_other: "queued w' = queued w \<Longrightarrow> receiver_step os handler r queued (s, w) (s, w')"
| recv_completion: "queued w = Suc (queued w1) \<Longrightarrow>
    session_on_receive os handler (Some r) e n s u w1 = Some (res, s', u', w') \<Longrightarrow>
    receiver_step os handler r queued (s, w) (s', w')"

lemma receiver_step_inv:
  assumes "recv_contract os ctx queued" and "handler_keeps handler queued"
    and "recv_inv ctx queued x" and "receiver_step os handler r queued x y"
  shows "recv_inv ctx queued y"
  using assms(4)
proof (cases rule: receiver_step.cases)
  case (recv_other w' w s)
  then show ?thesis using assms(3) by (simp add: recv_inv_def)
next
  case (recv_completion w w1 e n s u res s' u' w')
  then have "sc_overlapped s = ctx" and "queued w1 = 0"
    using assms(3) by (auto simp: recv_inv_def)
  then show ?thesis
    using session_on_receive_queued [OF assms(1,2)] recv_completion(1,2,4) by simp
qed

section \<open>Properties\<close>


definition sample_handler :: "(unit, nat) packet_handler" where
  "sample_handler b n u w = Some (Inr (), u, w)"

lemma sample_recv_contract: "recv_contract sample_os ctx id"
  by (simp add: recv_contract_def sample_os_def)

lemma sample_handler_keeps: "handler_keeps sample_handler queued"
  by (simp add: handler_keeps_def sample_handler_def)


text \<open>When the peer has closed the connection (\<open>recv\<close> returns 0),
  \<open>OnReceive\<close> only records \<open>WSAECONNRESET\<close> and immediately starts another \<open>WSARecv\<close> on the
  same socket: the session is neither closed nor detached, and each further completion of
  that receive does the same again.\<close>

theorem disconnect_rearms_receive:
  assumes "zero_byte_recv s"
    and "os_recv os (sr_socket r) (of_nat kSocketBufferSize) 0 w = (0, bytes, w1)"
    and "os_wsa_recv os (sr_socket r) (Some (sc_overlapped s)) w1 = (0, w2)"
  shows "session_on_receive os handler (Some r) 0 n s u w =
    Some (Inr (), s\<lparr>zero_byte_recv := True, recv_error := WSAECONNRESET\<rparr>, u, w2)"
  using assms
  by (simp add: session_on_receive_def recv_zero_byte_def recv_loop.simps ws_try_recv_def
      begin_receive_def)

theorem disconnect_rearms_receive_sample:
  "session_on_receive sample_os sample_handler (Some \<lparr>sr_socket = 7, sr_iocp = 5\<rparr>) 0 0
     (new_session_receiver 2\<lparr>zero_byte_recv := True\<rparr>) () 0 =
   Some (Inr (), new_session_receiver 2\<lparr>zero_byte_recv := True, recv_error := WSAECONNRESET\<rparr>, (), 1)"
  using disconnect_rearms_receive [of "new_session_receiver 2\<lparr>zero_byte_recv := True\<rparr>" sample_os
      "\<lparr>sr_socket = 7, sr_iocp = 5\<rparr>" 0 "[]" 0 1 sample_handler 0 "()"]
  by (simp add: sample_os_def)

text \<open>
  A socket that delivers finitely many bytes: \<open>available w\<close> decreases with every positive
  \<open>recv\<close>, which returns as many bytes as it says and at most what was asked for.
\<close>

definition finite_input :: "'w os \<Rightarrow> SOCKET \<Rightarrow> ('w \<Rightarrow> nat) \<Rightarrow> bool" where
  "finite_input os h available \<longleftrightarrow>
     (\<forall>w. case os_recv os h (of_nat kSocketBufferSize) 0 w of (received, bytes, w') \<Rightarrow>
        received = SOCKET_ERROR \<or> received = 0 \<or>
        (available w' < available w \<and> unat received \<le> kSocketBufferSize \<and> unat received \<le> length bytes))"

definition handler_total :: "('u, 'w) packet_handler \<Rightarrow> ('w \<Rightarrow> nat) \<Rightarrow> bool" where
  "handler_total handler available \<longleftrightarrow>
     (\<forall>b n u w. unat n \<le> length b \<longrightarrow>
        (case handler b n u w of None \<Rightarrow> False | Some (res, u', w') \<Rightarrow> available w' \<le> available w))"

text \<open>C12: The receive loop returns, without any out-of-bounds write to the
  1460-byte buffer, whenever the socket has finitely many bytes to deliver and the packet
  handler always returns; the buffer keeps its size.\<close>

theorem recv_loop_terminates:
  assumes "finite_input os (handle sock) available" and "handler_total handler available"
    and "length buffer = kSocketBufferSize"
  shows "\<exists>res b u' w'. recv_loop os handler sock buffer u w = Some (res, b, u', w') \<and>
    length b = kSocketBufferSize"
  using assms(3)
proof (induction "available w" arbitrary: buffer u w rule: less_induct)
  case less
  obtain n bytes w1 where recv: "os_recv os (handle sock) (of_nat kSocketBufferSize) 0 w = (n, bytes, w1)"
    by (metis prod_cases3)
  have fin: "n = SOCKET_ERROR \<or> n = 0 \<or>
      (available w1 < available w \<and> unat n \<le> kSocketBufferSize \<and> unat n \<le> length bytes)"
    using assms(1) [unfolded finite_input_def, THEN spec [of _ w]] recv by simp
  show ?case
  proof (cases "n = SOCKET_ERROR \<or> n = 0")
    case True
    then show ?thesis
      using recv less.prems by (subst recv_loop.simps) (auto simp: ws_try_recv_def)
  next
    case False
    then have lt: "available w1 < available w" and n: "unat n \<le> length buffer" "unat n \<le> length bytes"
      using fin less.prems by auto
    obtain b where b: "copy_to bytes (unat n) buffer 0 = Some b"
      using n by (simp add: copy_to_defined)
    have len: "length b = kSocketBufferSize"
      using copy_to_SomeD(1) [OF b] less.prems by simp
    have "case handler b n u w1 of None \<Rightarrow> False | Some (res, u', w') \<Rightarrow> available w' \<le> available w1"
      using assms(2) n(1) less.prems len unfolding handler_total_def by simp
    then obtain res u2 w2 where h: "handler b n u w1 = Some (res, u2, w2)" "available w2 \<le> available w1"
      by (auto split: option.splits)
    have ih: "\<exists>res b' u' w'. recv_loop os handler sock b u2 w2 = Some (res, b', u', w') \<and>
        length b' = kSocketBufferSize"
      using less.hyps [OF _ len] lt h(2) by simp
    have "recv_loop os handler sock buffer u w =
        (case res of Inl e \<Rightarrow> Some (Threw e, b, u2, w2) | Inr _ \<Rightarrow> recv_loop os handler sock b u2 w2)"
      using recv False b h(1) by (subst recv_loop.simps) (simp add: ws_try_recv_def)
    then show ?thesis
      using ih len by (cases res) auto
  qed
qed

theorem recv_loop_terminates_witness:
  "\<exists>res b u' w'. recv_loop (sample_os\<lparr>os_recv := (\<lambda>s n flags w. if w = 0 then (0, [], 0) else (1, [9], w - 1))\<rparr>)
     sample_handler \<lparr>handle = 7\<rparr> (replicate kSocketBufferSize 0) () 3 = Some (res, b, u', w') \<and>
   length b = kSocketBufferSize"
proof (rule recv_loop_terminates [where available = id])
  show "finite_input (sample_os\<lparr>os_recv := (\<lambda>s n flags w. if w = 0 then (0, [], 0) else (1, [9], w - 1))\<rparr>)
      (handle \<lparr>handle = 7\<rparr>) id"
    by (simp add: finite_input_def)
  show "handler_total sample_handler id"
    by (simp add: handler_total_def sample_handler_def)
qed simp

end
