(* ===== verification/Overlapped.thy ===== *)
theory Overlapped
  imports Win_Api
begin

text \<open>
  \<open>lib/iocplib/overlapped.h\<close>: the context that extends \<open>OVERLAPPED\<close> by the data union and
  the weak pointer to the object whose \<open>OnCompleteOverlappedIO\<close> handles the completion.
\<close>

section \<open>Contexts\<close>

datatype overlapped_type = Recv | Send

fun overlapped_type_code :: "overlapped_type \<Rightarrow> u32" where
  "overlapped_type_code Recv = 1"
| "overlapped_type_code Send = 2"

text \<open>The union \<open>Data\<close>: the member last written.\<close>

datatype overlapped_data = DataType u32 | DataObj nat

text \<open>\<open>oc_callback\<close> is what \<open>callback.lock()\<close> yields: the object, or \<open>None\<close> when it is gone.\<close>

record overlapped_context =
  oc_data :: overlapped_data
  oc_callback :: "nat option"

text \<open>The constructor clears all bytes: no callback, and the type is none of the two.\<close>

definition new_context :: overlapped_context where
  "new_context = \<lparr>oc_data = DataType 0, oc_callback = None\<rparr>"

lemma overlapped_type_code_inject [simp]:
  "overlapped_type_code a = overlapped_type_code b \<longleftrightarrow> a = b"
  by (cases a; cases b) auto

lemma overlapped_type_code_nonzero [simp]: "overlapped_type_code a \<noteq> 0"
  by (cases a) auto

end
