(* ===== verification/Io_Completion_Port.thy ===== *)
theory Io_Completion_Port
  imports Overlapped
begin

text \<open>
  \<open>lib/iocplib/io_completion_port.h\<close>: the classes \<open>IoCompletionPort\<close> and
  \<open>IoCompletionPortWorker\<close>.  The state of the port object is its handle, its worker threads
  (a worker is \<open>True\<close> while its \<open>Run\<close> has not returned) and the counter of attached sockets.
  The worker's loop body is \<open>worker_iter\<close>; threads interleave in \<open>port_step\<close>.
\<close>

section \<open>State and operations\<close>

record io_port =
  io_handle :: HANDLE
  io_workers :: "bool list"
  io_attached :: u32

definition new_port :: io_port where
  "new_port = \<lparr>io_handle = 0, io_workers = [], io_attached = 0\<rparr>"

definition iocp_create :: "'w os \<Rightarrow> u32 \<Rightarrow> io_port \<Rightarrow> 'w \<Rightarrow> bool \<times> io_port \<times> 'w" where
  "iocp_create os io_thread p w =
     (let (h, w) = os_create_iocp os w; p = p\<lparr>io_handle := h\<rparr> in
      if h = 0 then (False, p, w)
      else
        let io_thread = (if io_thread = 0 then os_processors os w * 2 else io_thread) in
        (True, p\<lparr>io_workers := io_workers p @ replicate (unat io_thread) True\<rparr>, w))"

definition iocp_attach :: "'w os \<Rightarrow> HANDLE \<Rightarrow> io_port \<Rightarrow> 'w \<Rightarrow> io_port \<times> 'w" where
  "iocp_attach os socket p w =
     (let (h, w) = os_attach_iocp os socket (io_handle p) w in
      if h = 0 then (p, w) else (p\<lparr>io_attached := io_attached p + 1\<rparr>, w))"

definition iocp_detach :: "io_port \<Rightarrow> io_port option" where
  "iocp_detach p =
     (if io_attached p > 0 then Some (p\<lparr>io_attached := io_attached p - 1\<rparr>) else None)"

text \<open>
  \<open>Close\<close>, first part: the loop that spins until \<open>attached_sockets_\<close> is zero.  \<open>obs k\<close> is
  the value the \<open>k\<close>-th read of the atomic counter returns; \<open>None\<close> is a loop that never ends.
\<close>

partial_function (option) close_wait :: "(nat \<Rightarrow> u32) \<Rightarrow> nat \<Rightarrow> nat option" where
  "close_wait obs k = (if obs k > 0 then close_wait obs (Suc k) else Some k)"

text \<open>\<open>Close\<close>, second part: one null packet per worker is posted; the results are ignored.\<close>

fun post_nulls :: "'w os \<Rightarrow> HANDLE \<Rightarrow> nat \<Rightarrow> 'w \<Rightarrow> 'w" where
  "post_nulls os h 0 w = w"
| "post_nulls os h (Suc n) w = post_nulls os h n (snd (os_post_status os h 0 None w))"

definition close_post :: "'w os \<Rightarrow> io_port \<Rightarrow> 'w \<Rightarrow> 'w" where
  "close_post os p w = post_nulls os (io_handle p) (length (io_workers p)) w"

text \<open>\<open>Close\<close>, third part: every \<open>Join\<close> returns once its worker's \<open>Run\<close> has returned.\<close>

definition all_joined :: "io_port \<Rightarrow> bool" where
  "all_joined p \<longleftrightarrow> (\<forall>b \<in> set (io_workers p). \<not> b)"

section \<open>Workers\<close>

text \<open>
  One iteration of \<open>IoCompletionPortWorker::Run\<close>: \<open>(False, _)\<close> leaves the loop.  \<open>ctx_at\<close>
  is the memory holding the contexts (a dangling pointer is \<open>None\<close>), \<open>dispatch\<close> the virtual
  method \<open>OnCompleteOverlappedIO\<close>.
\<close>

type_synonym 'w dispatch = "nat \<Rightarrow> overlapped_data \<Rightarrow> dword \<Rightarrow> dword \<Rightarrow> 64 word \<Rightarrow> 'w \<Rightarrow> 'w option"

definition worker_iter ::
  "'w os \<Rightarrow> (nat \<Rightarrow> overlapped_context option) \<Rightarrow> 'w dispatch \<Rightarrow> HANDLE \<Rightarrow> 'w \<Rightarrow> (bool \<times> 'w) option" where
  "worker_iter os ctx_at dispatch h w =
     (let (st, w) = os_get_status os h w in
      case st_overlapped st of
        None \<Rightarrow> Some (False, w)
      | Some a \<Rightarrow>
          let dwError = (if st_success st then 0 else os_last_error os w) in
          do {
            context \<leftarrow> ctx_at a;
            (case oc_callback context of
               None \<Rightarrow> Some (True, w)
             | Some obj \<Rightarrow> do {
                 w \<leftarrow> dispatch obj (oc_data context) dwError (st_bytes st) (st_key st) w;
                 Some (True, w)
               })
          })"

text \<open>
  Interleaving: a running worker makes one iteration when a packet is there (the call
  blocks otherwise), or the kernel or another thread queues a packet.  The counter is the
  number of worker iterations of the run.
\<close>

inductive port_run ::
  "'w os \<Rightarrow> (nat \<Rightarrow> overlapped_context option) \<Rightarrow> 'w dispatch \<Rightarrow> ('w \<Rightarrow> io_status list) \<Rightarrow>
   nat \<Rightarrow> io_port \<times> 'w \<Rightarrow> io_port \<times> 'w \<Rightarrow> bool"
  for os ctx_at dispatch queue where
  port_refl: "port_run os ctx_at dispatch queue 0 x x"
| port_work: "port_run os ctx_at dispatch queue n x (p, w) \<Longrightarrow>
    i < length (io_workers p) \<Longrightarrow> io_workers p ! i \<Longrightarrow> queue w \<noteq> [] \<Longrightarrow>
    worker_iter os ctx_at dispatch (io_handle p) w = Some (b, w') \<Longrightarrow>
    port_run os ctx_at dispatch queue (Suc n) x (p\<lparr>io_workers := (io_workers p)[i := b]\<rparr>, w')"
| port_arrive: "port_run os ctx_at dispatch queue n x (p, w) \<Longrightarrow>
    queue w' = queue w @ [st] \<Longrightarrow> st_overlapped st \<noteq> None \<Longrightarrow>
    port_run os ctx_at dispatch queue n x (p, w')"

section \<open>The completion queue\<close>

text \<open>
  The documented behaviour of a completion port, as seen through \<open>queue w\<close>, the packets in
  it: posting appends, getting takes the oldest.  The callbacks only add packets, each with
  an \<open>OVERLAPPED\<close>.
\<close>

definition port_contract :: "'w os \<Rightarrow> HANDLE \<Rightarrow> ('w \<Rightarrow> io_status list) \<Rightarrow> bool" where
  "port_contract os h queue \<longleftrightarrow>
     (\<forall>n ov w. case os_post_status os h n ov w of (ok, w') \<Rightarrow>
        ok \<and> (\<exists>st. st_overlapped st = ov \<and> queue w' = queue w @ [st])) \<and>
     (\<forall>w st rest. queue w = st # rest \<longrightarrow>
        (case os_get_status os h w of (st', w') \<Rightarrow> st' = st \<and> queue w' = rest))"

definition dispatch_adds :: "'w dispatch \<Rightarrow> ('w \<Rightarrow> io_status list) \<Rightarrow> bool" where
  "dispatch_adds dispatch queue \<longleftrightarrow>
     (\<forall>obj d e n k w. case dispatch obj d e n k w of
        None \<Rightarrow> True
      | Some w' \<Rightarrow> \<exists>more. queue w' = queue w @ more \<and> (\<forall>st \<in> set more. st_overlapped st \<noteq> None))"

abbreviation (input) is_null :: "io_status \<Rightarrow> bool" where "is_null st \<equiv> st_overlapped st = None"

definition nulls :: "io_status list \<Rightarrow> nat" where
  "nulls q = length (filter is_null q)"

definition running :: "io_port \<Rightarrow> nat" where
  "running p = length (filter id (io_workers p))"

text \<open>How many packets are in the queue up to its last null packet.\<close>

fun to_last_null :: "io_status list \<Rightarrow> nat" where
  "to_last_null [] = 0"
| "to_last_null (st # q) =
     (if is_null st \<or> 0 < to_last_null q then Suc (to_last_null q) else 0)"

lemma nulls_simps [simp]:
  "nulls [] = 0" "nulls (st # q) = (if is_null st then 1 else 0) + nulls q"
  "nulls (q @ q') = nulls q + nulls q'"
  by (simp_all add: nulls_def)

lemma nulls_zero: "nulls q = 0 \<longleftrightarrow> (\<forall>st \<in> set q. \<not> is_null st)"
  by (auto simp: nulls_def filter_empty_conv)

lemma to_last_null_zero: "to_last_null q = 0 \<longleftrightarrow> nulls q = 0"
  by (induction q) auto

lemma to_last_null_pos: "0 < to_last_null q \<longleftrightarrow> 0 < nulls q"
  using to_last_null_zero [of q] by linarith

lemma to_last_null_append: "nulls r = 0 \<Longrightarrow> to_last_null (q @ r) = to_last_null q"
  by (induction q) (simp_all add: to_last_null_zero to_last_null_pos)

lemma to_last_null_Cons: "0 < nulls (st # q) \<Longrightarrow> to_last_null (st # q) = Suc (to_last_null q)"
  using to_last_null_zero [of q] by (auto split: if_splits)

declare to_last_null.simps(2) [simp del]

lemma to_last_null_bound: "to_last_null q \<le> length q"
  by (induction q) (auto simp: to_last_null.simps)

section \<open>One iteration of a worker\<close>

lemma contract_getD:
  assumes "port_contract os h queue" and "queue w = st # rest" and "os_get_status os h w = (st', w')"
  shows "st' = st \<and> queue w' = rest"
  using assms(1) [unfolded port_contract_def, THEN conjunct2, THEN spec [of _ w], THEN spec [of _ st],
      THEN spec [of _ rest]] assms(2,3) by simp

lemma contract_nullD:
  assumes "port_contract os h queue"
  shows "\<exists>st. is_null st \<and> queue (snd (os_post_status os h n None w)) = queue w @ [st]"
  using assms [unfolded port_contract_def, THEN conjunct1, THEN spec [of _ n], THEN spec [of _ None],
      THEN spec [of _ w]] by (auto split: prod.splits)

lemma dispatch_addsD:
  assumes "dispatch_adds dispatch queue" and "dispatch obj d e n k w = Some w'"
  obtains new where "queue w' = queue w @ new" and "nulls new = 0"
  using assms(1) [unfolded dispatch_adds_def, THEN spec [of _ obj], THEN spec [of _ d],
      THEN spec [of _ e], THEN spec [of _ n], THEN spec [of _ k], THEN spec [of _ w]] assms(2) that
  by (auto simp: nulls_zero)

text \<open>An iteration removes the head of the queue and stops the worker exactly on a null packet.\<close>

lemma worker_iter_queue:
  assumes con: "port_contract os h queue" and disp: "dispatch_adds dispatch queue"
    and q: "queue w = st # rest" and it: "worker_iter os ctx_at dispatch h w = Some (b, w')"
  obtains new where "queue w' = rest @ new" and "nulls new = 0" and "b \<longleftrightarrow> \<not> is_null st"
proof -
  obtain st' v where g: "os_get_status os h w = (st', v)"
    by force
  have v: "st' = st" "queue v = rest"
    using contract_getD [OF con q g] by simp_all
  show thesis
  proof (cases "st_overlapped st")
    case None
    then show thesis
      using it g v that [of "[]"] by (auto simp: worker_iter_def)
  next
    case (Some a)
    from it obtain c where c: "ctx_at a = Some c" and b: b
      by (auto simp: worker_iter_def g v Some Let_def split: bind_splits option.splits)
    show thesis
    proof (cases "oc_callback c")
      case None
      then show thesis
        using it g v Some c that [of "[]"] by (auto simp: worker_iter_def)
    next
      case (Some obj)
      from it Some g v c \<open>st_overlapped st = _\<close> obtain e n k where
        "dispatch obj (oc_data c) e n k v = Some w'"
        by (auto simp: worker_iter_def Let_def split: bind_splits)
      from dispatch_addsD [OF disp this] v show thesis
        using that b \<open>st_overlapped st = _\<close> by (metis option.distinct(1))
    qed
  qed
qed

lemma running_update:
  "i < length ws \<Longrightarrow> ws ! i \<Longrightarrow> length (filter id (ws[i := b])) = length (filter id ws) - (if b then 0 else 1)"
proof (induction ws arbitrary: i)
  case Nil
  then show ?case by simp
next
  case (Cons x ws)
  show ?case
  proof (cases i)
    case 0
    then show ?thesis using Cons.prems by simp
  next
    case (Suc j)
    have "ws ! j \<in> set ws"
      using Cons.prems(1) Suc by (intro nth_mem) simp
    moreover have "ws ! j"
      using Cons.prems(2) Suc by simp
    ultimately have "filter id ws \<noteq> []"
      by (metis filter_empty_conv id_apply)
    then have "0 < length (filter (\<lambda>a. a) ws)"
      by (simp add: id_def)
    then show ?thesis
      using Cons.IH [of j] Cons.prems Suc by (cases b) auto
  qed
qed

lemma running_pos: "i < length (io_workers p) \<Longrightarrow> io_workers p ! i \<Longrightarrow> 0 < running p"
  unfolding running_def by (auto simp: filter_empty_conv intro: nth_mem)

section \<open>Shutdown\<close>

lemma nulls_post_nulls:
  assumes "port_contract os h queue"
  shows "\<exists>new. queue (post_nulls os h n w) = queue w @ new \<and> nulls new = n \<and> length new = n"
proof (induction n arbitrary: w)
  case 0
  then show ?case by simp
next
  case (Suc n)
  obtain st where "is_null st" "queue (snd (os_post_status os h 0 None w)) = queue w @ [st]"
    using contract_nullD [OF assms] by metis
  with Suc [of "snd (os_post_status os h 0 None w)"] show ?case
    by (metis append.assoc append_Cons append_Nil length_Cons nulls_simps(2) plus_1_eq_Suc post_nulls.simps(2))
qed

text \<open>
  What a shutting-down port keeps: as many null packets as running workers, and the worker
  iterations made plus those still needed are as many as at the start.
\<close>

lemma port_run_shutdown:
  assumes con: "port_contract os h queue" and disp: "dispatch_adds dispatch queue"
    and run: "port_run os ctx_at dispatch queue n x y"
    and start: "io_handle (fst x) = h" "nulls (queue (snd x)) = running (fst x)"
  shows "io_handle (fst y) = h \<and> nulls (queue (snd y)) = running (fst y) \<and>
    (0 < running (fst y) \<longrightarrow> n + to_last_null (queue (snd y)) = to_last_null (queue (snd x))) \<and>
    (running (fst y) = 0 \<longrightarrow> n \<le> to_last_null (queue (snd x)))"
  using run start
proof (induction rule: port_run.induct)
  case (port_refl x)
  then show ?case by simp
next
  case (port_arrive n x p w w' st)
  then have "nulls [st] = 0" by simp
  with port_arrive show ?case
    by (simp add: to_last_null_append)
next
  case (port_work n x p w i b w')
  then have IH: "io_handle p = h" "nulls (queue w) = running p"
      "0 < running p \<longrightarrow> n + to_last_null (queue w) = to_last_null (queue (snd x))"
    by simp_all
  have pos: "0 < running p"
    using port_work.hyps(2,3) by (rule running_pos)
  obtain st rest where q: "queue w = st # rest"
    using port_work.hyps(4) by (cases "queue w") auto
  have it: "worker_iter os ctx_at dispatch h w = Some (b, w')"
    using port_work.hyps(5) IH(1) by simp
  obtain new where new: "queue w' = rest @ new" "nulls new = 0" "b \<longleftrightarrow> \<not> is_null st"
    by (rule worker_iter_queue [OF con disp q it])
  have run': "running (p\<lparr>io_workers := (io_workers p)[i := b]\<rparr>) = running p - (if b then 0 else 1)"
    using running_update [OF port_work.hyps(2,3), of b] by (simp add: running_def)
  have n: "nulls (queue w') = running (p\<lparr>io_workers := (io_workers p)[i := b]\<rparr>)"
    using run' new q IH(2) by auto
  have "0 < nulls (st # rest)"
    using q IH(2) pos by (simp only:)
  then have "to_last_null (queue w) = Suc (to_last_null rest)"
    unfolding q by (rule to_last_null_Cons)
  then have "Suc n + to_last_null (queue w') = to_last_null (queue (snd x))"
    using IH(3) pos new to_last_null_append [OF new(2)] by simp
  then show ?case
    using n IH(1) by simp
qed

lemma to_last_null_full: "0 < k \<Longrightarrow> nulls r = k \<Longrightarrow> length r = k \<Longrightarrow> to_last_null (q @ r) = length q + k"
proof (induction q)
  case Nil
  have "\<forall>st \<in> set r. is_null st"
  proof (rule ballI, rule ccontr)
    fix st assume "st \<in> set r" and "\<not> is_null st"
    then have "length (filter is_null r) < length r"
      by (intro length_filter_less [where P = is_null])
    then show False
      using Nil(2,3) by (simp add: nulls_def)
  qed
  then have "to_last_null r = length r"
    by (induction r) (auto simp: to_last_null.simps)
  then show ?case using Nil by simp
next
  case (Cons st q)
  then show ?case by (simp add: to_last_null.simps)
qed

lemma running_zero: "running p = 0 \<longleftrightarrow> all_joined p"
  by (auto simp: running_def all_joined_def filter_empty_conv)

section \<open>Waiting for the sockets\<close>

lemma close_wait_Suc: "0 < obs k \<Longrightarrow> close_wait obs k = close_wait obs (Suc k)"
  by (subst close_wait.simps) simp

lemma close_wait_zero: "obs k = 0 \<Longrightarrow> close_wait obs k = Some k"
  by (subst close_wait.simps) simp

lemma close_wait_reaches: "obs (k + d) = 0 \<Longrightarrow> \<exists>j. close_wait obs k = Some j"
proof (induction d arbitrary: k)
  case 0
  then show ?case using close_wait_zero [of obs k] by auto
next
  case (Suc d)
  show ?case
  proof (cases "obs k = 0")
    case True
    then show ?thesis using close_wait_zero [of obs k] by auto
  next
    case False
    then show ?thesis
      using Suc.IH [of "Suc k"] Suc.prems close_wait_Suc [of obs k] by (simp add: word_gt_0)
  qed
qed

lemma close_wait_result: "close_wait obs k = Some j \<Longrightarrow> obs j = 0"
proof (rule close_wait.raw_induct [where P = "\<lambda>obs k j. obs j = 0"])
  fix f obs and k :: nat and j
  assume "\<And>obs k j. f obs k = Some j \<Longrightarrow> obs j = (0 :: u32)"
    and "(if obs k > 0 then f obs (Suc k) else Some k) = Some j"
  then show "obs j = 0"
    by (auto split: if_splits simp: word_gt_0)
qed

lemma close_wait_spins: "\<forall>k. 0 < obs k \<Longrightarrow> close_wait obs k = None"
  using close_wait_result [of obs k] by (cases "close_wait obs k") (auto simp: word_gt_0)

section \<open>Properties\<close>

text \<open>C4: Once \<open>Close\<close> has posted its null packets, under every
  interleaving of the workers with further completions: while a worker is still in its
  loop, the port is not empty (no worker, and so no \<open>Join\<close>, waits for ever); the workers
  make at most as many iterations as packets were pending plus workers; and after that many
  all of them have left their loops, so that all \<open>Join\<close>s return.\<close>

theorem close_joins_all_workers:
  assumes "port_contract os (io_handle p) queue" and "dispatch_adds dispatch queue"
    and "io_workers p = replicate k True" and "nulls (queue w) = 0"
    and "port_run os ctx_at dispatch queue n (p, close_post os p w) (p', w')"
  shows "(queue w' = [] \<longrightarrow> all_joined p') \<and> n \<le> length (queue w) + k \<and>
    (n = length (queue w) + k \<longrightarrow> all_joined p')"
proof -
  obtain new where new: "queue (close_post os p w) = queue w @ new" "nulls new = k" "length new = k"
    using nulls_post_nulls [OF assms(1), of k w] assms(3) by (auto simp: close_post_def)
  have run: "running p = k"
    by (simp add: running_def assms(3))
  have inv: "nulls (queue w') = running p'"
      "0 < running p' \<longrightarrow> n + to_last_null (queue w') = to_last_null (queue w @ new)"
      "running p' = 0 \<longrightarrow> n \<le> to_last_null (queue w @ new)"
    using port_run_shutdown [OF assms(1,2,5)] new run assms(4) by simp_all
  have total: "to_last_null (queue w @ new) \<le> length (queue w) + k"
    using to_last_null_bound [of "queue w @ new"] new(3) by simp
  have joined: "all_joined p' \<longleftrightarrow> running p' = 0"
    using running_zero by simp
  have "queue w' = [] \<longrightarrow> all_joined p'"
    using inv(1) joined by auto
  moreover have "n \<le> length (queue w) + k"
    using inv(2,3) total by (cases "running p' = 0") auto
  moreover have "n = length (queue w) + k \<longrightarrow> all_joined p'"
    using inv(1,2) total joined to_last_null_zero [of "queue w'"] by (cases "running p' = 0") auto
  ultimately show ?thesis by blast
qed

text \<open>A world that is the queue itself, for the instances.\<close>

definition queue_os :: "io_status list os" where
  "queue_os = \<lparr>
     os_last_error = (\<lambda>w. 0),
     os_socket = (\<lambda>af type protocol w. (7, w)),
     os_bind = (\<lambda>s addr len w. (0, w)),
     os_listen = (\<lambda>s backlog w. (0, w)),
     os_connect = (\<lambda>s addr len w. (0, w)),
     os_closesocket = (\<lambda>s w. (0, w)),
     os_send = (\<lambda>s data len flags w. (len, w)),
     os_recv = (\<lambda>s len flags w. (0, [], w)),
     os_setsockopt = (\<lambda>s level name val w. (0, w)),
     os_ioctlsocket = (\<lambda>s cmd arg w. (0, w)),
     os_wsa_startup = (\<lambda>v w. (0, v, w)),
     os_wsa_cleanup = (\<lambda>w. (0, w)),
     os_wsa_recv = (\<lambda>s ov w. (0, w)),
     os_wsa_send = (\<lambda>s bufs ov w. (0, w)),
     os_accept_ex = (\<lambda>l s ov w. (True, w)),
     os_create_iocp = (\<lambda>w. (5, w)),
     os_attach_iocp = (\<lambda>s h w. (h, w)),
     os_post_status = (\<lambda>h n ov w. (True,
        w @ [\<lparr>st_success = True, st_bytes = n, st_key = 0, st_overlapped = ov\<rparr>])),
     os_get_status = (\<lambda>h w. (hd w, tl w)),
     os_processors = (\<lambda>w. 4)\<rparr>"

theorem close_joins_all_workers_witness:
  "\<exists>p'. port_run queue_os (\<lambda>a. None) (\<lambda>obj d e n k w. None) id 2
      (\<lparr>io_handle = 5, io_workers = [True, True], io_attached = 0\<rparr>,
       close_post queue_os \<lparr>io_handle = 5, io_workers = [True, True], io_attached = 0\<rparr> []) (p', []) \<and>
    all_joined p'"
proof -
  let ?p = "\<lparr>io_handle = 5, io_workers = [True, True], io_attached = 0\<rparr>"
  let ?null = "\<lparr>st_success = True, st_bytes = 0, st_key = 0, st_overlapped = None\<rparr>"
  let ?run = "port_run queue_os (\<lambda>a. None) (\<lambda>obj d e n k w. None) id"
  have post: "close_post queue_os ?p [] = [?null, ?null]"
    by (simp add: close_post_def queue_os_def numeral_2_eq_2)
  have 1: "?run (Suc 0) (?p, [?null, ?null]) (?p\<lparr>io_workers := [True, True][0 := False]\<rparr>, [?null])"
    using port_work [OF port_refl, where i = 0 and p = ?p and w = "[?null, ?null]" and queue = id
        and os = queue_os and ctx_at = "\<lambda>a. None" and dispatch = "\<lambda>obj d e n k w. None"
        and b = False and w' = "[?null]"]
    by (simp add: worker_iter_def queue_os_def)
  have run: "?run (Suc (Suc 0)) (?p, [?null, ?null]) (?p\<lparr>io_workers := [False, False]\<rparr>, [])"
    using port_work [OF 1, where i = 1 and b = False and w' = "[]"] by (simp add: worker_iter_def queue_os_def)
  have con: "port_contract queue_os (io_handle ?p) id" and disp: "dispatch_adds (\<lambda>obj d e n k w. None) id"
    by (simp_all add: port_contract_def queue_os_def dispatch_adds_def)
  have "all_joined (?p\<lparr>io_workers := [False, False]\<rparr>)"
    using close_joins_all_workers [OF con disp, of 2 "[]" "\<lambda>a. None" 2 "?p\<lparr>io_workers := [False, False]\<rparr>" "[]"]
      run post by (simp add: numeral_2_eq_2)
  then show ?thesis
    using run post by (auto simp: numeral_2_eq_2)
qed

text \<open>The first loop of \<open>Close\<close> returns if and only if some read
  of the counter of attached sockets yields zero; if every read is positive, \<open>Close\<close> spins
  for ever and neither stops nor joins the workers.\<close>

theorem close_waits_for_all_sockets:
  "(close_wait obs 0 = None \<longleftrightarrow> (\<forall>k. 0 < obs k)) \<and>
   (\<forall>k. close_wait obs 0 = Some k \<longrightarrow> obs k = 0)"
proof (intro conjI allI impI)
  show "close_wait obs 0 = None \<longleftrightarrow> (\<forall>k. 0 < obs k)"
    using close_wait_spins [of obs 0] close_wait_reaches [of obs 0] by (auto simp: word_gt_0)
qed (rule close_wait_result)

theorem close_waits_for_all_sockets_sample:
  "close_wait (\<lambda>k. if k < 3 then 1 else 0) 0 \<noteq> None \<and> close_wait (\<lambda>k. 1) 0 = None"
  using close_waits_for_all_sockets [of "\<lambda>k. if k < 3 then 1 else 0"]
    close_waits_for_all_sockets [of "\<lambda>k. 1"] by auto

end
