(* ===== verification/Socket_Session.thy ===== *)
theory Socket_Session
  imports Session_Receiver Io_Completion_Port
begin

text \<open>
  \<open>lib/iocplib/socket_session.h\<close> and \<open>src/socket_session.cpp\<close>: the class \<open>SocketSession\<close>, a
  socket with a receiver and a sender whose completions it handles.  The state of a derived
  class is the type parameter \<open>'a\<close>; its \<open>OnReceivePacket\<close> is the parameter \<open>handler\<close>, which
  may call \<open>SendAsync\<close> and so works on the sender and the derived state.  The completion
  port object a session points to is passed explicitly.
\<close>

section \<open>State\<close>

record 'a session =
  ses_sock :: win_sock
  ses_iocp :: bool                \<comment> \<open>\<open>iocp_\<close> is set\<close>
  ses_receiver :: session_receiver
  ses_sender :: session_sender
  ses_bound :: bool               \<comment> \<open>the weak pointers of receiver and sender are set and alive\<close>
  ses_ext :: 'a

definition new_session :: "'a \<Rightarrow> nat \<Rightarrow> nat \<Rightarrow> 'a session" where
  "new_session ext receiver_ctx sender_ctx =
     \<lparr>ses_sock = ws_new, ses_iocp = False, ses_receiver = new_session_receiver receiver_ctx,
      ses_sender = new_sender sender_ctx, ses_bound = False, ses_ext = ext\<rparr>"

definition get_iocp_handle :: "io_port \<Rightarrow> 'a session \<Rightarrow> HANDLE option" where
  "get_iocp_handle port s = (if ses_iocp s then Some (io_handle port) else None)"

text \<open>What \<open>session_.lock()\<close> yields in receiver and sender.\<close>

definition session_lock :: "io_port \<Rightarrow> 'a session \<Rightarrow> session_ref option" where
  "session_lock port s =
     (if ses_bound s then map_option (\<lambda>h. \<lparr>sr_socket = handle (ses_sock s), sr_iocp = h\<rparr>) (get_iocp_handle port s)
      else None)"

section \<open>Operations\<close>

definition session_on_accept ::
  "'w os \<Rightarrow> io_port \<Rightarrow> 'a session \<Rightarrow> 'w \<Rightarrow> ((win_sock_exception + unit) \<times> 'a session \<times> io_port \<times> 'w) option" where
  "session_on_accept os port s w =
     (case ws_set_non_blocking os True (ses_sock s) w of
        (Inl e, sock, w) \<Rightarrow> Some (Inl e, s\<lparr>ses_sock := sock\<rparr>, port, w)
      | (Inr _, sock, w) \<Rightarrow>
          (case ws_set_nagle os False sock w of
             (Inl e, sock, w) \<Rightarrow> Some (Inl e, s\<lparr>ses_sock := sock\<rparr>, port, w)
           | (Inr _, sock, w) \<Rightarrow>
               let s = s\<lparr>ses_sock := sock, ses_iocp := True\<rparr>;
                   (port, w) = iocp_attach os (handle sock) port w;
                   s = s\<lparr>ses_bound := True\<rparr>
               in do {
                 (error, receiver, w) \<leftarrow> begin_receive os (session_lock port s) (ses_receiver s) w;
                 Some (Inr (), s\<lparr>ses_receiver := receiver\<rparr>, port, w)
               }))"

definition session_send_async ::
  "'w os \<Rightarrow> io_port \<Rightarrow> byte list \<Rightarrow> u32 \<Rightarrow> 'a session \<Rightarrow> 'w \<Rightarrow> (unit, 'a session, 'w) method_result option" where
  "session_send_async os port data sz s w = do {
     (r, sender, w) \<leftarrow> send_async os (session_lock port s) data sz (ses_sender s) w;
     Some (r, s\<lparr>ses_sender := sender\<rparr>, w)
   }"

text \<open>
  \<open>OnCompleteOverlappedIO\<close>.  Reading \<open>type\<close> from a union that holds an object pointer is
  undefined; a type code other than \<open>Recv\<close> and \<open>Send\<close> is ignored.
\<close>

definition session_on_complete ::
  "'w os \<Rightarrow> (session_ref option \<Rightarrow> (session_sender \<times> 'a, 'w) packet_handler) \<Rightarrow> io_port \<Rightarrow>
   overlapped_data \<Rightarrow> dword \<Rightarrow> dword \<Rightarrow> 64 word \<Rightarrow> 'a session \<Rightarrow> 'w \<Rightarrow>
   (unit, 'a session, 'w) method_result option" where
  "session_on_complete os handler port data dwError dwBytesTransferred completionKey s w =
     (let ref = session_lock port s in
      case data of
        DataObj _ \<Rightarrow> None
      | DataType t \<Rightarrow>
          if t = overlapped_type_code Recv then do {
            (r, receiver, (sender, ext), w) \<leftarrow>
              session_on_receive os (handler ref) ref dwError dwBytesTransferred
                (ses_receiver s) (ses_sender s, ses_ext s) w;
            Some (r, s\<lparr>ses_receiver := receiver, ses_sender := sender, ses_ext := ext\<rparr>, w)
          }
          else if t = overlapped_type_code Send then do {
            (sender, w) \<leftarrow> on_send os ref dwError dwBytesTransferred (ses_sender s) w;
            Some (Inr (), s\<lparr>ses_sender := sender\<rparr>, w)
          }
          else Some (Inr (), s, w))"

text \<open>The contexts the constructors of receiver and sender set up.\<close>

definition receiver_context :: "nat \<Rightarrow> 'a session \<Rightarrow> overlapped_context" where
  "receiver_context self s =
     \<lparr>oc_data = DataType (overlapped_type_code Recv), oc_callback = (if ses_bound s then Some self else None)\<rparr>"

definition sender_context :: "nat \<Rightarrow> 'a session \<Rightarrow> overlapped_context" where
  "sender_context self s =
     \<lparr>oc_data = DataType (overlapped_type_code Send), oc_callback = (if ses_bound s then Some self else None)\<rparr>"

section \<open>Acceptance\<close>

lemma ws_set_nagle_frame: "fst (snd (ws_set_nagle os activate s w)) = s"
  by (simp add: ws_set_nagle_def Let_def)

lemma session_on_accept_cases:
  obtains (non_blocking) e sock v where
      "ws_set_non_blocking os True (ses_sock s) w = (Inl e, sock, v)"
      "session_on_accept os port s w = Some (Inl e, s\<lparr>ses_sock := sock\<rparr>, port, v)"
    | (nagle) e sock v where
      "session_on_accept os port s w = Some (Inl e, s\<lparr>ses_sock := sock\<rparr>, port, v)"
    | (accepted) s' port' v' v error where
      "session_on_accept os port s w = Some (Inr (), s', port', v')"
      "(port', v) = iocp_attach os (handle (ses_sock s)) port (snd (snd (ws_set_nagle os False
         (ses_sock s) (snd (snd (ws_set_non_blocking os True (ses_sock s) w))))))"
      "begin_receive os (Some \<lparr>sr_socket = handle (ses_sock s), sr_iocp = io_handle port'\<rparr>)
         (ses_receiver s) v = Some (error, ses_receiver s', v')"
      "ses_sock s' = ses_sock s" "ses_sender s' = ses_sender s" "ses_iocp s'" "ses_bound s'"
proof -
  obtain r1 k1 w1 where nb': "ws_set_non_blocking os True (ses_sock s) w = (r1, k1, w1)"
    by (metis prod_cases3)
  obtain r2 k2 w2 where ng': "ws_set_nagle os False (ses_sock s) w1 = (r2, k2, w2)"
    by (metis prod_cases3)
  have k: "k1 = ses_sock s" "k2 = ses_sock s"
    using ws_frame(6) [of os True "ses_sock s" w, unfolded nb']
      ws_set_nagle_frame [of os False "ses_sock s" w1, unfolded ng'] by simp_all
  note nb = nb' [unfolded k] and ng = ng' [unfolded k]
  show thesis
  proof (cases r1)
    case (Inl e)
    then show thesis
      by (intro non_blocking [of e "ses_sock s" w1]) (simp_all add: session_on_accept_def nb)
  next
    case r1: (Inr a)
    show thesis
    proof (cases r2)
      case (Inl e)
      then show thesis
        by (intro nagle [of e "ses_sock s" w2]) (simp add: session_on_accept_def nb ng r1)
    next
      case (Inr b)
      obtain port' v where at: "iocp_attach os (handle (ses_sock s)) port w2 = (port', v)"
        by force
      obtain er t v' where br: "begin_receive os (Some \<lparr>sr_socket = handle (ses_sock s), sr_iocp = io_handle port'\<rparr>)
         (ses_receiver s) v = Some (er, t, v')"
        using begin_receive_defined by metis
      let ?s = "s\<lparr>ses_sock := ses_sock s, ses_iocp := True, ses_bound := True, ses_receiver := t\<rparr>"
      have eq: "session_on_accept os port s w = Some (Inr (), ?s, port', v')"
        using at br
        by (simp add: session_on_accept_def nb ng r1 Inr session_lock_def get_iocp_handle_def)
      show thesis
        by (rule accepted [OF eq, of v er]) (use at br in \<open>simp_all add: nb ng\<close>)
    qed
  qed
qed

lemma session_on_accept_defined: "session_on_accept os port s w \<noteq> None"
  by (rule session_on_accept_cases [of os s w port]) simp_all

lemma iocp_attach_handle: "io_handle (fst (iocp_attach os socket p w)) = io_handle p"
  by (simp add: iocp_attach_def Let_def split: prod.splits)

text \<open>Accepting a session either fails with an exception before
  anything is attached, leaving port and session untouched apart from its socket, or
  attaches its socket to the port and leaves it ready: both weak pointers set, so that its
  contexts reach it, a zero-byte receive requested, and nothing queued for sending.\<close>

theorem accepted_session_is_ready:
  "case session_on_accept os port s w of
     None \<Rightarrow> False
   | Some (Inl e, s', port', w') \<Rightarrow> port' = port \<and> ses_bound s' = ses_bound s \<and> ses_receiver s' = ses_receiver s
   | Some (Inr _, s', port', w') \<Rightarrow>
       session_lock port' s' = Some \<lparr>sr_socket = handle (ses_sock s), sr_iocp = io_handle port\<rparr> \<and>
       oc_callback (receiver_context self s') = Some self \<and> oc_callback (sender_context self s') = Some self \<and>
       zero_byte_recv (ses_receiver s') \<and> ses_sender s' = ses_sender s"
proof (rule session_on_accept_cases [of os s w port])
  fix s' port' v' v error
  assume a: "session_on_accept os port s w = Some (Inr (), s', port', v')"
    and at: "(port', v) = iocp_attach os (handle (ses_sock s)) port (snd (snd (ws_set_nagle os False
         (ses_sock s) (snd (snd (ws_set_non_blocking os True (ses_sock s) w))))))"
    and br: "begin_receive os (Some \<lparr>sr_socket = handle (ses_sock s), sr_iocp = io_handle port'\<rparr>)
         (ses_receiver s) v = Some (error, ses_receiver s', v')"
    and eqs: "ses_sock s' = ses_sock s" "ses_sender s' = ses_sender s" "ses_iocp s'" "ses_bound s'"
  have "io_handle port' = io_handle port"
    using at iocp_attach_handle by (metis fst_conv)
  moreover have "zero_byte_recv (ses_receiver s')"
    using begin_receive_flag [OF br] by simp
  ultimately show ?thesis
    using a eqs by (simp add: session_lock_def get_iocp_handle_def receiver_context_def sender_context_def)
qed simp_all

text \<open>On the path without errors \<open>OnAccept\<close> makes the socket
  non-blocking, sets \<open>TCP_NODELAY\<close> to the value 0 (the result of \<open>SetNagleAlogrithm(false)\<close>,
  so the Nagle algorithm that it means to switch off stays on), attaches the socket and
  counts it, and starts the zero-byte receive.\<close>

theorem accept_leaves_nagle_on:
  assumes "os_ioctlsocket os (handle (ses_sock s)) FIONBIO 1 w = (0, w1)"
    and "os_setsockopt os (handle (ses_sock s)) IPPROTO_TCP TCP_NODELAY [0, 0, 0, 0] w1 = (0, w2)"
    and "os_attach_iocp os (handle (ses_sock s)) (io_handle port) w2 = (h, w3)" and "h \<noteq> 0"
    and "os_wsa_recv os (handle (ses_sock s)) (Some (sc_overlapped (ses_receiver s))) w3 = (0, w4)"
  shows "session_on_accept os port s w =
    Some (Inr (), s\<lparr>ses_iocp := True, ses_bound := True,
        ses_receiver := (ses_receiver s)\<lparr>zero_byte_recv := True\<rparr>\<rparr>,
      port\<lparr>io_attached := io_attached port + 1\<rparr>, w4)"
  using assms
  by (simp add: session_on_accept_def ws_set_non_blocking_def ws_set_nagle_def ws_setsockopt_def
      iocp_attach_def session_lock_def get_iocp_handle_def begin_receive_def u32_bytes_def le_bytes_numeral)

theorem accept_leaves_nagle_on_sample:
  "session_on_accept sample_os (new_port\<lparr>io_handle := 5\<rparr>) (new_session () 1 2) 0 =
    Some (Inr (), (new_session () 1 2)\<lparr>ses_iocp := True, ses_bound := True,
        ses_receiver := (new_session_receiver 1)\<lparr>zero_byte_recv := True\<rparr>\<rparr>,
      new_port\<lparr>io_handle := 5, io_attached := 1\<rparr>, 1)"
  using accept_leaves_nagle_on [of sample_os "new_session () 1 2" 0 0 0 "new_port\<lparr>io_handle := 5\<rparr>" 5 0 1]
  by (simp add: sample_os_def new_port_def new_session_def new_session_receiver_def)

end
