(* ===== verification/Server_Session.thy ===== *)
theory Server_Session
  imports Socket_Session Packet_Receiver Client_Message_Build Server_Message_Build
begin

text \<open>
  \<open>examples/server/client_session.cpp\<close>: the session of the example server.  It collects the
  bytes of its socket into packets, verifies each packet, dispatches it by the type of its
  union to one of three handlers, and each handler prints the request and sends a reply.
\<close>

section \<open>State\<close>

record server_ext =
  srv_receiver :: packet_receiver
  srv_out :: "out_item list"

definition new_server_ext :: server_ext where
  "new_server_ext = \<lparr>srv_receiver = new_receiver, srv_out = []\<rparr>"

definition print :: "out_item list \<Rightarrow> server_ext \<Rightarrow> server_ext" where
  "print items ext = ext\<lparr>srv_out := srv_out ext @ items\<rparr>"

section \<open>Handlers\<close>

text \<open>
  The handlers get the pointer to their table, which is null when the packet has no union.
  Reading a field of a null pointer, or the characters of a null string, is undefined.
  \<open>reply\<close> is the finished buffer, given to \<open>SendAsync\<close> with its size.
\<close>

type_synonym ('w, 'r) handler_result = "('r, session_sender \<times> server_ext, 'w) method_result option"

definition srv_reply ::
  "'w os \<Rightarrow> session_ref option \<Rightarrow> fb_builder \<Rightarrow> session_sender \<times> server_ext \<Rightarrow> 'w \<Rightarrow> ('w, unit) handler_result" where
  "srv_reply os ref builder u w = do {
     data \<leftarrow> fbb_contents builder;
     (r, sender, w) \<leftarrow> send_async os ref data (get_size builder) (fst u) w;
     Some (r, (sender, snd u), w)
   }"

definition srv_LoginRequest ::
  "'w os \<Rightarrow> session_ref option \<Rightarrow> byte list \<Rightarrow> size_t option \<Rightarrow> session_sender \<times> server_ext \<Rightarrow> 'w \<Rightarrow>
   ('w, unit) handler_result" where
  "srv_LoginRequest os ref buf request u w = do {
     r \<leftarrow> request;
     p4 \<leftarrow> cm_id buf r;
     p4 \<leftarrow> p4;
     s4 \<leftarrow> c_string buf (c_str p4);
     p6 \<leftarrow> cm_password buf r;
     p6 \<leftarrow> p6;
     s6 \<leftarrow> c_string buf (c_str p6);
     let ext = print [Text ''_LoginRequest: '', CString s4, Text '', '', CString s6, Endl] (snd u);
     (result, builder) \<leftarrow> sm_create_LoginResult 0 default_builder;
     (packet, builder) \<leftarrow> sm_create_Packet sm_LoginResult result builder;
     builder \<leftarrow> fbb_finish packet builder;
     srv_reply os ref builder (fst u, ext) w
   }"

definition srv_LogoutRequest ::
  "'w os \<Rightarrow> session_ref option \<Rightarrow> byte list \<Rightarrow> size_t option \<Rightarrow> session_sender \<times> server_ext \<Rightarrow> 'w \<Rightarrow>
   ('w, unit) handler_result" where
  "srv_LogoutRequest os ref buf request u w = do {
     let ext = print [Text ''_LogoutRequest: '', Endl] (snd u);
     (result, builder) \<leftarrow> sm_create_LogoutResult default_builder;
     (packet, builder) \<leftarrow> sm_create_Packet sm_LogoutResult result builder;
     builder \<leftarrow> fbb_finish packet builder;
     srv_reply os ref builder (fst u, ext) w
   }"

definition srv_ConnectServerRequest ::
  "'w os \<Rightarrow> session_ref option \<Rightarrow> byte list \<Rightarrow> size_t option \<Rightarrow> session_sender \<times> server_ext \<Rightarrow> 'w \<Rightarrow>
   ('w, unit) handler_result" where
  "srv_ConnectServerRequest os ref buf request u w = do {
     r \<leftarrow> request;
     server_id \<leftarrow> cm_server_id buf r;
     let ext = print [Text ''_ConnectServerRequest: '', Number (sint server_id), Endl] (snd u);
     (result, builder) \<leftarrow> sm_create_ConnectServerResult 0 default_builder;
     (packet, builder) \<leftarrow> sm_create_Packet sm_ConnectServerResult result builder;
     builder \<leftarrow> fbb_finish packet builder;
     srv_reply os ref builder (fst u, ext) w
   }"

section \<open>Dispatch\<close>

definition srv_on_packet ::
  "'w os \<Rightarrow> session_ref option \<Rightarrow> byte list \<Rightarrow> size_t \<Rightarrow> session_sender \<times> server_ext \<Rightarrow> 'w \<Rightarrow>
   ('w, unit) handler_result" where
  "srv_on_packet os ref buf packet u w = do {
     ty \<leftarrow> cm_type_type buf packet;
     (if ty = cm_LoginRequest then do {
        request \<leftarrow> cm_type_as cm_LoginRequest buf packet;
        srv_LoginRequest os ref buf request u w
      }
      else if ty = cm_ConnectServerRequest then do {
        request \<leftarrow> cm_type_as cm_ConnectServerRequest buf packet;
        srv_ConnectServerRequest os ref buf request u w
      }
      else if ty = cm_LogoutRequest then do {
        request \<leftarrow> cm_type_as cm_LogoutRequest buf packet;
        srv_LogoutRequest os ref buf request u w
      }
      else Some (Inr (), u, w))
   }"

text \<open>
  One turn of the loop of \<open>OnReceivePacket\<close>: \<open>Inr None\<close> is the \<open>break\<close> after a packet that
  does not verify, \<open>Inr (Some n)\<close> the new \<open>remain_length\<close>.
\<close>

definition srv_turn ::
  "'w os \<Rightarrow> session_ref option \<Rightarrow> byte list \<Rightarrow> u32 \<Rightarrow> session_sender \<times> server_ext \<Rightarrow> 'w \<Rightarrow>
   ('w, u32 option) handler_result" where
  "srv_turn os ref buffer remain u w = do {
     (remain, p) \<leftarrow> on_receive buffer remain (srv_receiver (snd u));
     let u = (fst u, (snd u)\<lparr>srv_receiver := p\<rparr>);
     (if is_complete p then do {
        verifier \<leftarrow> new_verifier (packet_buffer p) (ucast (packet_length p)) default_options;
        (ok, verifier) \<leftarrow> cm_verify_packet_buffer verifier;
        (if \<not> ok then Some (Inr None, u, w)
         else do {
           packet \<leftarrow> cm_get_Packet (packet_buffer p);
           (res, u, w) \<leftarrow> srv_on_packet os ref (packet_buffer p) packet u w;
           Some (case res of
               Inl e \<Rightarrow> (Inl e, u, w)
             | Inr _ \<Rightarrow> (Inr (Some remain),
                 (fst u, (snd u)\<lparr>srv_receiver := clear (srv_receiver (snd u))\<rparr>), w))
         })
      }
      else Some (Inr (Some remain), u, w))
   }"

text \<open>
  The \<open>do ... while\<close> loop.  \<open>buffer\<close> never moves: the second turn reads the first bytes of
  the chunk again, with the smaller count.
\<close>

partial_function (option) srv_on_receive_packet ::
  "'w os \<Rightarrow> session_ref option \<Rightarrow> byte list \<Rightarrow> u32 \<Rightarrow> session_sender \<times> server_ext \<Rightarrow> 'w \<Rightarrow>
   ('w, unit) handler_result" where
  "srv_on_receive_packet os ref buffer remain u w = do {
     (res, u, w) \<leftarrow> srv_turn os ref buffer remain u w;
     (case res of
        Inl e \<Rightarrow> Some (Inl e, u, w)
      | Inr None \<Rightarrow> Some (Inr (), u, w)
      | Inr (Some remain) \<Rightarrow>
          if 0 < remain then srv_on_receive_packet os ref buffer remain u w
          else Some (Inr (), u, w))
   }"

section \<open>What a request is answered with\<close>

fun request_reply :: "client_packet \<Rightarrow> server_packet" where
  "request_reply (LoginRequest s4 s6) = LoginResult 0"
| "request_reply LogoutRequest = LogoutResult"
| "request_reply (ConnectServerRequest sid) = ConnectServerResult 0"

fun request_output :: "client_packet \<Rightarrow> out_item list" where
  "request_output (LoginRequest s4 s6) =
     [Text ''_LoginRequest: '', CString s4, Text '', '', CString s6, Endl]"
| "request_output LogoutRequest = [Text ''_LogoutRequest: '', Endl]"
| "request_output (ConnectServerRequest sid) =
     [Text ''_ConnectServerRequest: '', Number (sint sid), Endl]"

definition reply_frame :: "client_packet \<Rightarrow> byte list" where
  "reply_frame m = frame (server_packet_bytes (request_reply m))"

lemma framable_server_packet: "framable (server_packet_bytes m)"
  using server_packet_length [of m] by (simp add: framable_def)

lemma srv_reply_packet:
  assumes "build_server_packet m = Some b"
  shows "srv_reply os (Some r) b (s, ext) w =
    (case post_completion_port_signal os (sr_iocp r)
       (s\<lparr>send_queue := send_queue s @ [frame (server_packet_bytes m)]\<rparr>) w of
     (res, s', w') \<Rightarrow> Some (res, (s', ext), w'))"
proof -
  have c: "fbb_contents b = Some (server_packet_bytes m)"
    using build_server_packet_bytes [of m] assms by simp
  show ?thesis
    by (simp add: srv_reply_def c fbb_contents_size [OF c] send_async_def
        allocate_frame [OF framable_server_packet] split: prod.splits)
qed

lemma read_client_packetE:
  assumes "read_client_packet buf = Some m" and "cm_get_Packet buf = Some root"
  obtains (login) s4 s6 t p4 p6 where "m = LoginRequest s4 s6" "cm_type_type buf root = Some 1"
      "cm_type_as 1 buf root = Some (Some t)" "cm_id buf t = Some (Some p4)"
      "cm_password buf t = Some (Some p6)" "c_string buf (c_str p4) = Some s4"
      "c_string buf (c_str p6) = Some s6"
    | (logout) t where "m = LogoutRequest" "cm_type_type buf root = Some 2"
      "cm_type_as 2 buf root = Some (Some t)"
    | (connect) sid t where "m = ConnectServerRequest sid" "cm_type_type buf root = Some 3"
      "cm_type_as 3 buf root = Some (Some t)" "cm_server_id buf t = Some sid"
proof -
  obtain ty where ty: "cm_type_type buf root = Some ty"
    using assms by (auto simp: read_client_packet_def bind_eq_Some_conv)
  obtain t where t: "cm_type_as ty buf root = Some (Some t)"
    using assms ty by (auto simp: read_client_packet_def bind_eq_Some_conv)
  note r = assms(1) [unfolded read_client_packet_def assms(2) ty, simplified, unfolded t, simplified]
  show thesis
  proof (cases "ty = 1")
    case True
    then show thesis using login r ty t by (auto simp: bind_eq_Some_conv)
  next
    case False
    then show thesis
      using logout connect r ty t by (auto split: if_splits)
  qed
qed

lemma srv_on_packet_reads:
  assumes "read_client_packet buf = Some m" and "cm_get_Packet buf = Some packet"
  shows "srv_on_packet os ref buf packet (s, ext) w =
    Option.bind (build_server_packet (request_reply m))
      (\<lambda>b. srv_reply os ref b (s, print (request_output m) ext) w)"
  using assms
proof (cases rule: read_client_packetE)
  case (login s4 s6 t p4 p6)
  then show ?thesis
    by (simp add: srv_on_packet_def srv_LoginRequest_def build_server_packet_def build_server_union_def
        server_packet_type_def split_def)
next
  case (logout t)
  then show ?thesis
    by (simp add: srv_on_packet_def srv_LogoutRequest_def build_server_packet_def build_server_union_def
        server_packet_type_def split_def)
next
  case (connect sid t)
  then show ?thesis
    by (simp add: srv_on_packet_def srv_ConnectServerRequest_def build_server_packet_def build_server_union_def
        server_packet_type_def split_def)
qed

lemma srv_on_packet_replies:
  assumes "read_client_packet buf = Some m" and "cm_get_Packet buf = Some packet"
  shows "srv_on_packet os (Some r) buf packet (s, ext) w =
    (case post_completion_port_signal os (sr_iocp r) (s\<lparr>send_queue := send_queue s @ [reply_frame m]\<rparr>) w of
     (res, s', w') \<Rightarrow> Some (res, (s', print (request_output m) ext), w'))"
proof -
  obtain b where "build_server_packet (request_reply m) = Some b"
    using build_server_packet_bytes [of "request_reply m"] by (cases "build_server_packet (request_reply m)") auto
  then show ?thesis
    using srv_on_packet_reads [OF assms, of os "Some r" s ext w] by (simp add: srv_reply_packet reply_frame_def)
qed

lemma frame_prefix_done:
  assumes "fr @ cs = frame data" and "framable data"
  shows "frame_done fr \<longleftrightarrow> cs = []"
proof -
  have "length fr + length cs = 4 + length data"
    using assms(1) length_frame [of data] by (metis length_append)
  moreover have "unat (bytes_u32 fr) = length data" if "4 \<le> length fr"
    using that assms frame_done_frame [OF assms(2)] bytes_u32_append [of fr cs] by (simp add: frame_done_def)
  ultimately show ?thesis
    by (auto simp: frame_done_def)
qed

lemma feed_prefix:
  "fr @ bs @ cs = frame data \<Longrightarrow> framable data \<Longrightarrow> feed fr bs = (fr @ bs, [])"
proof (induction bs arbitrary: fr)
  case Nil
  then show ?case by simp
next
  case (Cons b bs)
  then have "\<not> frame_done fr"
    using frame_prefix_done [of fr "(b # bs) @ cs" data] by simp
  then show ?case
    using Cons by simp
qed

lemma on_receive_prefix:
  assumes "pr_inv p" and "acc p @ c @ cs = frame data" and "framable data"
  obtains p' where "on_receive c (of_nat (length c)) p = Some (0, p')" and "pr_inv p'"
    and "acc p' = acc p @ c" and "is_complete p' \<longleftrightarrow> cs = []"
proof -
  have l: "length (acc p) + length c + length cs = 4 + length data"
    using assms(2) length_frame [of data] by (metis length_append add.assoc)
  then have u: "unat (of_nat (length c) :: u32) = length c"
    using assms(3) by (intro unat_of_nat_small) (simp add: framable_def)
  obtain p' where p': "on_receive c (of_nat (length c)) p = Some (of_nat (length ([] :: byte list)), p')"
    "pr_inv p'" "acc p' = acc p @ c"
    by (rule on_receive_feed [OF assms(1), of "of_nat (length c)" c "acc p @ c" "[]"])
      (use l u assms(2,3) feed_prefix [OF assms(2,3)] in \<open>simp_all add: framable_def\<close>)
  then show thesis
    using that [of p'] is_complete_frame_done [OF p'(2)] frame_prefix_done [of "acc p @ c" cs] assms(2,3)
    by simp
qed

section \<open>Requests arriving in chunks\<close>

text \<open>The handler is called once per chunk that \<open>recv\<close> delivers; an exception ends the calls.\<close>

fun srv_chunks ::
  "'w os \<Rightarrow> session_ref option \<Rightarrow> byte list list \<Rightarrow> session_sender \<times> server_ext \<Rightarrow> 'w \<Rightarrow>
   ('w, unit) handler_result" where
  "srv_chunks os ref [] u w = Some (Inr (), u, w)"
| "srv_chunks os ref (c # cs) u w = do {
     (res, u, w) \<leftarrow> srv_on_receive_packet os ref c (of_nat (length c)) u w;
     (case res of Inl e \<Rightarrow> Some (Inl e, u, w) | Inr _ \<Rightarrow> srv_chunks os ref cs u w)
   }"

lemma srv_receive_part:
  assumes "on_receive c n (srv_receiver ext) = Some (0, p)" and "\<not> is_complete p"
  shows "srv_on_receive_packet os ref c n (s, ext) w = Some (Inr (), (s, ext\<lparr>srv_receiver := p\<rparr>), w)"
  by (subst srv_on_receive_packet.simps) (simp add: srv_turn_def assms Let_def)

lemma framable_client_packet:
  assumes "client_packet_ok m"
  shows "framable (client_packet_bytes m)"
  using client_packet_length [OF assms] by (simp add: framable_def)

lemma ucast_length_client_packet:
  assumes "client_packet_ok m"
  shows "(ucast (of_nat (length (client_packet_bytes m)) :: u32) :: size_t) = of_nat (length (client_packet_bytes m))"
  using client_packet_length [OF assms] by (simp add: ucast_of_nat_u32)

lemma srv_turn_complete:
  assumes "on_receive c n (srv_receiver ext) = Some (rem, p)" and "is_complete p"
    and m: "client_packet_ok m" and p: "pr_inv p" "acc p = frame (client_packet_bytes m)"
    and post: "post_completion_port_signal os (sr_iocp r)
      (s\<lparr>send_queue := send_queue s @ [reply_frame m]\<rparr>) w = (res, s', w')"
  shows "srv_turn os (Some r) c n (s, ext) w = Some
    (map_sum (\<lambda>e. e) (\<lambda>_. Some rem) res, (s', print (request_output m)
        (ext\<lparr>srv_receiver := (if isl res then p else clear p)\<rparr>)), w')"
proof -
  let ?msg = "client_packet_bytes m"
  note pk = packet_of_frame [OF p framable_client_packet [OF m]]
  obtain rest where buf: "packet_buffer p = ?msg @ rest"
    using pk(2) by (metis append_take_drop_id)
  obtain v where v: "cm_verify_packet_buffer (verifier_for (?msg @ rest) (of_nat (length ?msg))) = Some (True, v)"
    using client_packet_verified(1) [OF m refl] by blast
  have "(of_nat (length ?msg) :: size_t) < FLATBUFFERS_MAX_BUFFER_SIZE"
    using client_packet_length [OF m] by (simp add: word_less_nat_alt unat_of_nat_small)
  then have nv: "new_verifier (?msg @ rest) (ucast (packet_length p)) default_options =
      Some (verifier_for (?msg @ rest) (of_nat (length ?msg)))"
    unfolding pk(1) ucast_length_client_packet [OF m] by (rule new_verifier_for)
  have rd: "read_client_packet (?msg @ rest) = Some m"
    by (rule client_packet_verified(2) [OF m refl])
  then obtain root where root: "cm_get_Packet (?msg @ rest) = Some root"
    by (auto simp: read_client_packet_def bind_eq_Some_conv)
  show ?thesis
    by (cases res)
      (simp_all add: srv_turn_def assms(1,2) Let_def nv v root srv_on_packet_replies [OF rd root] buf
        print_def post)
qed

lemma srv_receive_last:
  assumes "on_receive c n (srv_receiver ext) = Some (0, p)" and "is_complete p"
    and m: "client_packet_ok m" and p: "pr_inv p" "acc p = frame (client_packet_bytes m)"
  shows "srv_on_receive_packet os (Some r) c n (s, ext) w =
    (case post_completion_port_signal os (sr_iocp r) (s\<lparr>send_queue := send_queue s @ [reply_frame m]\<rparr>) w of
     (res, s', w') \<Rightarrow> Some (res, (s', print (request_output m)
        (ext\<lparr>srv_receiver := (if isl res then p else clear p)\<rparr>)), w'))"
proof -
  obtain res s' w' where post: "post_completion_port_signal os (sr_iocp r)
      (s\<lparr>send_queue := send_queue s @ [reply_frame m]\<rparr>) w = (res, s', w')"
    by (metis prod_cases3)
  show ?thesis
    by (subst srv_on_receive_packet.simps, cases res)
      (simp_all add: srv_turn_complete [OF assms post] post)
qed

lemma srv_chunks_request:
  assumes "client_packet_ok m" and "pr_inv (srv_receiver ext)"
    and "acc (srv_receiver ext) @ concat cs = frame (client_packet_bytes m)" and "cs \<noteq> []" "[] \<notin> set cs"
  shows "\<exists>p. pr_inv p \<and> srv_chunks os (Some r) cs (s, ext) w =
    (case post_completion_port_signal os (sr_iocp r) (s\<lparr>send_queue := send_queue s @ [reply_frame m]\<rparr>) w of
     (res, s', w') \<Rightarrow> Some (res, (s', print (request_output m)
        (ext\<lparr>srv_receiver := (if isl res then p else clear p)\<rparr>)), w'))"
  using assms(2-)
proof (induction cs arbitrary: ext)
  case Nil
  then show ?case by simp
next
  case (Cons c cs)
  note ok = framable_client_packet [OF assms(1)]
  obtain p where p: "on_receive c (of_nat (length c)) (srv_receiver ext) = Some (0, p)" "pr_inv p"
    "acc p = acc (srv_receiver ext) @ c" "is_complete p \<longleftrightarrow> concat cs = []"
    by (rule on_receive_prefix [OF Cons.prems(1) _ ok, of c "concat cs"]) (use Cons.prems(2) in simp_all)
  show ?case
  proof (cases "cs = []")
    case True
    obtain res s' w' where post: "post_completion_port_signal os (sr_iocp r)
        (s\<lparr>send_queue := send_queue s @ [reply_frame m]\<rparr>) w = (res, s', w')"
      by (metis prod_cases3)
    have "srv_on_receive_packet os (Some r) c (of_nat (length c)) (s, ext) w =
      Some (res, (s', print (request_output m) (ext\<lparr>srv_receiver := (if isl res then p else clear p)\<rparr>)), w')"
      using srv_receive_last [OF p(1) _ assms(1) p(2), of os r s w] p(3,4) Cons.prems(2) True post by simp
    then show ?thesis
      using p(2) True post by (intro exI [of _ p]) (cases res; simp)
  next
    case False
    then have "concat cs \<noteq> []" using Cons.prems(4) by (cases cs) auto
    then have part: "srv_on_receive_packet os (Some r) c (of_nat (length c)) (s, ext) w =
        Some (Inr (), (s, ext\<lparr>srv_receiver := p\<rparr>), w)"
      using srv_receive_part [OF p(1)] p(4) by simp
    have "\<exists>q. pr_inv q \<and> srv_chunks os (Some r) cs (s, ext\<lparr>srv_receiver := p\<rparr>) w =
      (case post_completion_port_signal os (sr_iocp r) (s\<lparr>send_queue := send_queue s @ [reply_frame m]\<rparr>) w of
       (res, s', w') \<Rightarrow> Some (res, (s', print (request_output m)
          ((ext\<lparr>srv_receiver := p\<rparr>)\<lparr>srv_receiver := (if isl res then q else clear q)\<rparr>)), w'))"
      using Cons.prems p False by (intro Cons.IH) simp_all
    then show ?thesis
      using part by simp
  qed
qed

lemma srv_chunks_append:
  "srv_chunks os ref (cs @ ds) u w =
     Option.bind (srv_chunks os ref cs u w)
       (\<lambda>(res, u, w). case res of Inl e \<Rightarrow> Some (Inl e, u, w) | Inr _ \<Rightarrow> srv_chunks os ref ds u w)"
proof (induction cs arbitrary: u w)
  case Nil
  then show ?case by simp
next
  case (Cons c cs)
  show ?case
    by (cases "srv_on_receive_packet os ref c (of_nat (length c)) u w")
      (auto simp: Cons.IH split: sum.splits)
qed

text \<open>How the bytes of one request are cut into received chunks.\<close>

definition cut_into :: "client_packet \<Rightarrow> byte list list \<Rightarrow> bool" where
  "cut_into m cs \<longleftrightarrow> concat cs = frame (client_packet_bytes m) \<and> [] \<notin> set cs"

definition post_succeeds :: "'w os \<Rightarrow> bool" where
  "post_succeeds os \<longleftrightarrow> (\<forall>h n ov w. fst (os_post_status os h n ov w))"

lemma post_succeedsD:
  assumes "post_succeeds os"
  obtains s' w' where "post_completion_port_signal os h s w = (Inr (), s', w')"
    and "send_queue s' = send_queue s"
proof -
  obtain ok w' where "os_post_status os h 0 (Some (ss_overlapped s)) w = (ok, w')" by force
  moreover have ok using assms calculation unfolding post_succeeds_def by (metis fst_conv)
  ultimately show thesis
    using that [of s w] that [of "s\<lparr>post_send_signal := True\<rparr>" w']
    by (cases "post_send_signal s") (simp_all add: post_completion_port_signal_def)
qed

text \<open>C30: However the frames of a sequence of well-formed requests are cut
  into received chunks, as long as no chunk spans two requests and posting to the completion
  port succeeds: every request is dispatched exactly once, to its own handler, in order, with
  the values the client sent; exactly one reply of the right type is queued for each; and
  the receiver ends up ready for the next frame.\<close>

theorem srv_answers_requests:
  assumes "list_all2 cut_into ms css" and "\<forall>m \<in> set ms. client_packet_ok m"
    and "pr_inv (srv_receiver ext)" "acc (srv_receiver ext) = []" and "post_succeeds os"
  shows "\<exists>s' ext' w'. srv_chunks os (Some r) (concat css) (s, ext) w = Some (Inr (), (s', ext'), w') \<and>
    srv_out ext' = srv_out ext @ concat (map request_output ms) \<and>
    send_queue s' = send_queue s @ map reply_frame ms \<and>
    pr_inv (srv_receiver ext') \<and> acc (srv_receiver ext') = []"
  using assms(1-4)
proof (induction ms css arbitrary: s ext w)
  case Nil
  then show ?case by simp
next
  case (Cons m ms cs css)
  have "cs \<noteq> []" using Cons.hyps(1) by (auto simp: cut_into_def frame_not_Nil [symmetric])
  then obtain p where p: "pr_inv p" "srv_chunks os (Some r) cs (s, ext) w =
    (case post_completion_port_signal os (sr_iocp r) (s\<lparr>send_queue := send_queue s @ [reply_frame m]\<rparr>) w of
     (res, s', w') \<Rightarrow> Some (res, (s', print (request_output m)
        (ext\<lparr>srv_receiver := (if isl res then p else clear p)\<rparr>)), w'))"
    using srv_chunks_request [of m ext cs os r s w] Cons.hyps(1) Cons.prems by (auto simp: cut_into_def)
  obtain s' w' where post: "post_completion_port_signal os (sr_iocp r)
      (s\<lparr>send_queue := send_queue s @ [reply_frame m]\<rparr>) w = (Inr (), s', w')"
    "send_queue s' = send_queue s @ [reply_frame m]"
    by (rule post_succeedsD [OF assms(5), of "sr_iocp r" "s\<lparr>send_queue := send_queue s @ [reply_frame m]\<rparr>" w]) simp
  let ?ext = "print (request_output m) (ext\<lparr>srv_receiver := clear p\<rparr>)"
  have "\<exists>s'' ext' w''. srv_chunks os (Some r) (concat css) (s', ?ext) w' = Some (Inr (), (s'', ext'), w'') \<and>
    srv_out ext' = srv_out ?ext @ concat (map request_output ms) \<and>
    send_queue s'' = send_queue s' @ map reply_frame ms \<and>
    pr_inv (srv_receiver ext') \<and> acc (srv_receiver ext') = []"
    using Cons.prems p(1) by (intro Cons.IH) (simp_all add: print_def)
  then show ?case
    using p(2) post by (auto simp: srv_chunks_append print_def)
qed

theorem srv_answers_requests_witness:
  "\<exists>s' ext' w'. srv_chunks sample_os (Some \<lparr>sr_socket = 7, sr_iocp = 5\<rparr>)
      (concat [map (\<lambda>b. [b]) (frame (client_packet_bytes (LoginRequest [97] [98]))),
               [frame (client_packet_bytes LogoutRequest)]]) (new_sender 1, new_server_ext) 0 =
      Some (Inr (), (s', ext'), w') \<and>
    srv_out ext' = srv_out new_server_ext @ concat (map request_output [LoginRequest [97] [98], LogoutRequest]) \<and>
    send_queue s' = send_queue (new_sender 1) @ map reply_frame [LoginRequest [97] [98], LogoutRequest] \<and>
    pr_inv (srv_receiver ext') \<and> acc (srv_receiver ext') = []"
  by (rule srv_answers_requests)
    (simp_all add: cut_into_def new_server_ext_def post_succeeds_def sample_os_def frame_not_Nil [symmetric] image_iff
      del: client_packet_bytes.simps)

end
