(* ===== verification/Server_Session_Safety.thy ===== *)
theory Server_Session_Safety
  imports Server_Session
begin

text \<open>
  \<open>examples/server/client_session.cpp\<close> under arbitrary input: the receive loop ends for
  every chunk, undefined behaviour occurs exactly at the null pointers that verification
  lets through, and what the loop does with a packet that does not verify and with two
  requests in one chunk.
\<close>

section \<open>The receive loop ends\<close>

lemma append_bytes_fields:
  "append_bytes src n p = Some p' \<Longrightarrow> pr_length p' = pr_length p \<and> pr_offset p' = pr_offset p + n"
  by (auto simp: append_bytes_def Let_def split: bind_splits)

lemma word_diff_less:
  fixes n r :: "'a::len word"
  assumes "n \<le> r"
  shows "r - n \<le> r" and "n \<noteq> 0 \<Longrightarrow> r - n < r"
proof -
  have u: "unat (r - n) = unat r - unat n" "unat n \<le> unat r"
    using assms by (simp_all add: unat_sub_le word_le_nat_alt)
  then show "r - n \<le> r" by (simp add: word_le_nat_alt)
  show "r - n < r" if "n \<noteq> 0"
  proof -
    have "0 < unat n" using that by (simp add: unat_gt_0)
    then show ?thesis using u by (simp add: word_less_nat_alt)
  qed
qed

lemma on_receive_body_progress:
  assumes "on_receive_body src received p = Some (r, p')"
  shows "r \<le> received" and "r \<noteq> 0 \<Longrightarrow> is_complete p'"
    and "received \<noteq> 0 \<Longrightarrow> \<not> is_complete p \<Longrightarrow> r < received"
proof -
  define m where "m = pr_length p + 4 - pr_offset p"
  have r: "r = received - min received m" and p': "append_bytes src (min received m) p = Some p'"
    using assms by (auto simp: on_receive_body_def Let_def m_def split: bind_splits)
  show "r \<le> received"
    unfolding r by (rule word_diff_less) simp
  show "is_complete p'" if "r \<noteq> 0"
  proof -
    have "min received m = m" using that r by (auto simp: min_def split: if_splits)
    then show ?thesis
      using append_bytes_fields [OF p'] by (simp add: is_complete_def m_def)
  qed
  show "r < received" if "received \<noteq> 0" "\<not> is_complete p"
  proof -
    have "m \<noteq> 0" using that(2) by (simp add: is_complete_def m_def)
    then show ?thesis
      unfolding r using that(1) by (intro word_diff_less(2)) (auto simp: min_def)
  qed
qed

lemma on_receive_progress:
  assumes "on_receive src received p = Some (r, p')"
  shows "r \<le> received" and "r \<noteq> 0 \<Longrightarrow> is_complete p'"
    and "received \<noteq> 0 \<Longrightarrow> \<not> is_complete p \<Longrightarrow> r < received"
proof -
  have "r \<le> received \<and> (r \<noteq> 0 \<longrightarrow> is_complete p') \<and> (received \<noteq> 0 \<and> \<not> is_complete p \<longrightarrow> r < received)"
  proof (cases "pr_offset p < 4")
    case False
    then have "on_receive_body src received p = Some (r, p')"
      using assms by (simp add: on_receive_def on_receive_header_def)
    from on_receive_body_progress [OF this] show ?thesis by blast
  next
    case True
    define n where "n = min received (4 - pr_offset p)"
    have n: "n \<le> received" by (simp add: n_def)
    have n0: "n \<noteq> 0" if "received \<noteq> 0"
      using that True by (auto simp: n_def min_def split: if_splits)
    show ?thesis
    proof (cases "received - n = 0")
      case z: True
      then have "r = 0"
        using assms True by (auto simp: on_receive_def on_receive_header_def Let_def n_def split: bind_splits if_splits)
      then show ?thesis by (simp add: word_gt_0)
    next
      case False
      then obtain q where "on_receive_body (drop (unat n) src) (received - n) q = Some (r, p')"
        using assms True by (auto simp: on_receive_def on_receive_header_def Let_def n_def split: bind_splits if_splits)
      note b = on_receive_body_progress [OF this]
      have "received \<noteq> 0" using False n by auto
      then have "received - n < received" by (intro word_diff_less(2) n n0)
      then show ?thesis using b by auto
    qed
  qed
  then show "r \<le> received" and "r \<noteq> 0 \<Longrightarrow> is_complete p'"
    and "received \<noteq> 0 \<Longrightarrow> \<not> is_complete p \<Longrightarrow> r < received" by blast+
qed

lemma clear_not_complete [simp]: "\<not> is_complete (clear p)"
  by (simp add: clear_def is_complete_def)

lemma srv_turn_progress:
  assumes "srv_turn os ref buffer remain u w = Some (Inr (Some r), u', w')" and "0 < r"
  shows "\<not> is_complete (srv_receiver (snd u'))" and "r \<le> remain"
    and "remain \<noteq> 0 \<Longrightarrow> \<not> is_complete (srv_receiver (snd u)) \<Longrightarrow> r < remain"
proof -
  obtain p where p: "on_receive buffer remain (srv_receiver (snd u)) = Some (r, p)"
    and "\<not> is_complete (srv_receiver (snd u'))"
    using assms(1)
    by (auto simp: srv_turn_def Let_def split: bind_splits if_splits sum.splits prod.splits)
  note g = on_receive_progress [OF p]
  show "r \<le> remain" and "remain \<noteq> 0 \<Longrightarrow> \<not> is_complete (srv_receiver (snd u)) \<Longrightarrow> r < remain"
    using g by blast+
  show "\<not> is_complete (srv_receiver (snd u'))" by fact
qed

text \<open>
  The loop with a budget of turns: \<open>None\<close> when the budget does not suffice, otherwise what
  the loop yields (\<open>Some None\<close> when a turn is undefined).
\<close>

fun srv_loop ::
  "nat \<Rightarrow> 'w os \<Rightarrow> session_ref option \<Rightarrow> byte list \<Rightarrow> u32 \<Rightarrow> session_sender \<times> server_ext \<Rightarrow> 'w \<Rightarrow>
   ('w, unit) handler_result option" where
  "srv_loop 0 os ref buffer remain u w = None"
| "srv_loop (Suc k) os ref buffer remain u w =
     (case srv_turn os ref buffer remain u w of
        None \<Rightarrow> Some None
      | Some (Inl e, u, w) \<Rightarrow> Some (Some (Inl e, u, w))
      | Some (Inr None, u, w) \<Rightarrow> Some (Some (Inr (), u, w))
      | Some (Inr (Some remain), u, w) \<Rightarrow>
          if 0 < remain then srv_loop k os ref buffer remain u w else Some (Some (Inr (), u, w)))"

lemma srv_loop_sound:
  "srv_loop k os ref buffer remain u w = Some res \<Longrightarrow> srv_on_receive_packet os ref buffer remain u w = res"
proof (induction k arbitrary: remain u w)
  case 0
  then show ?case by simp
next
  case (Suc k)
  show ?case
    using Suc.prems
    by (subst srv_on_receive_packet.simps)
      (auto simp: Suc.IH split: option.splits sum.splits prod.splits if_splits)
qed

lemma srv_loop_fuel:
  "unat remain + (if is_complete (srv_receiver (snd u)) then 1 else 0) < k \<or> remain = 0 \<and> 0 < k \<Longrightarrow>
   \<exists>res. srv_loop k os ref buffer remain u w = Some res"
proof (induction k arbitrary: remain u w)
  case 0
  then show ?case by simp
next
  case (Suc k)
  show ?case
  proof (cases "\<exists>r u' w'. srv_turn os ref buffer remain u w = Some (Inr (Some r), u', w') \<and> 0 < r")
    case True
    then obtain r u' w' where t: "srv_turn os ref buffer remain u w = Some (Inr (Some r), u', w')" "0 < r"
      by blast
    note g = srv_turn_progress [OF t]
    have "remain \<noteq> 0" using g(2) t(2) by auto
    moreover have "r < remain \<Longrightarrow> unat r < unat remain" and "unat r \<le> unat remain"
      using g(2) by (simp_all add: word_less_nat_alt word_le_nat_alt)
    ultimately have "unat r < k"
      using Suc.prems g(3) by (cases "is_complete (srv_receiver (snd u))") auto
    then show ?thesis
      using t g(1) Suc.IH [of r u' w'] by simp
  next
    case False
    then show ?thesis
      by (auto split: option.splits sum.splits prod.splits)
  qed
qed

text \<open>C32: The \<open>do ... while\<close> loop of the server's \<open>OnReceivePacket\<close> ends for
  every received chunk and every state of the receiver, whatever length fields the peer
  sends and even where 32-bit arithmetic wraps around: it takes at most two turns more than
  there are bytes in the chunk, and its result is that of those turns.\<close>

theorem srv_loop_terminates:
  "\<exists>res. srv_loop (unat remain + 2) os ref buffer remain u w = Some res \<and>
    srv_on_receive_packet os ref buffer remain u w = res"
proof -
  have "\<exists>res. srv_loop (unat remain + 2) os ref buffer remain u w = Some res"
    by (rule srv_loop_fuel) simp
  then show ?thesis using srv_loop_sound by metis
qed


section \<open>Which verified packets crash the handlers\<close>

lemma string_ok_c_string:
  assumes "string_ok buf s" and "length buf < 2 ^ 63"
  obtains cs where "c_string buf (c_str s) = Some cs"
proof -
  obtain n where n: "unat s + 4 + unat n < length buf" "buf ! (unat s + 4 + unat (n :: u32)) = 0"
    using assms(1) by (auto simp: string_ok_def)
  have "unat (s + 4) = unat s + 4"
    using n(1) assms(2) by (subst unat_add_small) simp_all
  then have "drop (unat (s + 4)) buf ! unat n = 0" "unat n < length (drop (unat (s + 4)) buf)"
    using n by simp_all
  then have "0 \<in> set (drop (unat (s + 4)) buf)"
    by (metis nth_mem)
  then show thesis
    using that by (simp add: c_string_def c_str_def Let_def)
qed

lemma srv_reply_defined:
  "build_server_packet m = Some b \<Longrightarrow> \<exists>x. srv_reply os (Some r) b u w = Some x"
  by (cases u) (auto simp: srv_reply_packet split: prod.splits)

lemma build_server_packet_defined: "\<exists>b. build_server_packet m = Some b"
  using build_server_packet_bytes [of m] by (cases "build_server_packet m") auto

definition field_missing :: "size_t option option \<Rightarrow> bool" where
  "field_missing p \<longleftrightarrow> p = Some None"

text \<open>The null pointers a verified packet may still hold and a handler dereferences.\<close>

definition crashes_handler :: "byte list \<Rightarrow> size_t \<Rightarrow> bool" where
  "crashes_handler buf packet =
     (case cm_type buf packet of
        Some None \<Rightarrow> cm_type_type buf packet \<in> {Some cm_LoginRequest, Some cm_ConnectServerRequest}
      | Some (Some t) \<Rightarrow> cm_type_type buf packet = Some cm_LoginRequest \<and>
          (field_missing (cm_id buf t) \<or> field_missing (cm_password buf t))
      | None \<Rightarrow> False)"

lemma srv_LoginRequest_undefined_iff:
  assumes "cm_login_ok buf t" and "length buf < 2 ^ 63"
  shows "srv_LoginRequest os (Some r) buf (Some t) u w = None \<longleftrightarrow>
    field_missing (cm_id buf t) \<or> field_missing (cm_password buf t)"
proof -
  obtain p4 p6 where p: "cm_id buf t = Some p4" "cm_password buf t = Some p6"
    and ok: "\<And>s. p4 = Some s \<Longrightarrow> string_ok buf s" "\<And>s. p6 = Some s \<Longrightarrow> string_ok buf s"
    using assms(1) by (auto simp: cm_login_ok_def string_field_ok_def cm_id_def cm_password_def split: option.splits)
  obtain b where b: "build_server_packet (LoginResult 0) = Some b"
    using build_server_packet_defined by blast
  show ?thesis
  proof (cases "p4 = None \<or> p6 = None")
    case True
    then show ?thesis
      by (auto simp: srv_LoginRequest_def p field_missing_def split: bind_splits)
  next
    case False
    then obtain s4 s6 where s: "p4 = Some s4" "p6 = Some s6" by auto
    obtain c4 where c4: "c_string buf (c_str s4) = Some c4"
      using string_ok_c_string [OF ok(1) [OF s(1)] assms(2)] .
    obtain c6 where c6: "c_string buf (c_str s6) = Some c6"
      using string_ok_c_string [OF ok(2) [OF s(2)] assms(2)] .
    obtain x where x: "srv_reply os (Some r) b (fst u, print
        [Text ''_LoginRequest: '', CString c4, Text '', '', CString c6, Endl] (snd u)) w = Some x"
      using srv_reply_defined [OF b] by metis
    show ?thesis
      using b x by (cases x) (auto simp: srv_LoginRequest_def p s c4 c6 field_missing_def build_server_packet_def
          build_server_union_def server_packet_type_def split_def bind_eq_Some_conv)
  qed
qed

text \<open>C33: Verification does not protect the handlers completely: on a
  packet that passes \<open>VerifyPacketBuffer\<close>, \<open>OnPacket\<close> is free of undefined behaviour except
  exactly where a handler dereferences a null pointer the verifier lets through: a login or
  connect request whose union is absent, or a login request without id or password.\<close>

theorem srv_dispatch_undefined_iff:
  assumes "vf_ok v" and "cm_verify_packet_buffer v = Some (True, v')"
  shows "\<exists>packet. cm_get_Packet (vf_buf v) = Some packet \<and>
    (srv_on_packet os (Some r) (vf_buf v) packet u w = None \<longleftrightarrow> crashes_handler (vf_buf v) packet)"
proof -
  let ?buf = "vf_buf v"
  obtain packet where pk: "cm_get_Packet ?buf = Some packet" "cm_packet_ok ?buf packet"
    using cm_verified_buffer [OF assms] .
  have len: "length ?buf < 2 ^ 63" using assms(1) by (simp add: vf_ok_def)
  obtain ty obj where ty: "cm_type_type ?buf packet = Some ty" "cm_type ?buf packet = Some obj"
    and ok: "\<And>q. obj = Some q \<Longrightarrow> (ty = 1 \<longrightarrow> cm_login_ok ?buf q) \<and> (ty = 3 \<longrightarrow> field_readable 2 ?buf q 4)"
    using pk(2) by (auto simp: cm_packet_ok_def split: option.splits)
  have logout: "srv_LogoutRequest os (Some r) ?buf q u w \<noteq> None" for q
  proof -
    obtain b where "build_server_packet LogoutResult = Some b"
      using build_server_packet_defined by blast
    moreover obtain x where "srv_reply os (Some r) b (fst u, print [Text ''_LogoutRequest: '', Endl] (snd u)) w = Some x"
      using srv_reply_defined [OF calculation] by metis
    ultimately show ?thesis
      by (cases x) (auto simp: srv_LogoutRequest_def build_server_packet_def
          build_server_union_def server_packet_type_def split_def bind_eq_Some_conv)
  qed
  have connect: "srv_ConnectServerRequest os (Some r) ?buf obj u w = None \<longleftrightarrow> obj = None" if "ty = 3"
  proof (cases obj)
    case None
    then show ?thesis by (simp add: srv_ConnectServerRequest_def)
  next
    case (Some q)
    then have "field_readable 2 ?buf q 4" using ok [of q] that by simp
    then obtain sid where sid: "cm_server_id ?buf q = Some sid"
      using get_field_readable [of 2 ?buf q 4 read_u16 "- 1"] read_defined(2) [of _ ?buf]
      by (auto simp: cm_server_id_def)
    obtain b where "build_server_packet (ConnectServerResult 0) = Some b"
      using build_server_packet_defined by blast
    moreover obtain x where "srv_reply os (Some r) b (fst u, print
        [Text ''_ConnectServerRequest: '', Number (sint sid), Endl] (snd u)) w = Some x"
      using srv_reply_defined [OF calculation] by metis
    ultimately show ?thesis
      by (cases x) (auto simp: srv_ConnectServerRequest_def Some sid build_server_packet_def
          build_server_union_def server_packet_type_def split_def bind_eq_Some_conv)
  qed
  have login: "srv_LoginRequest os (Some r) ?buf obj u w = None \<longleftrightarrow>
      (case obj of None \<Rightarrow> True | Some t \<Rightarrow> field_missing (cm_id ?buf t) \<or> field_missing (cm_password ?buf t))"
    if "ty = 1"
    using srv_LoginRequest_undefined_iff [OF _ len] ok that
    by (cases obj) (simp_all add: srv_LoginRequest_def)
  show ?thesis
    using pk(1) ty login connect logout
    by (intro exI [of _ packet]) (auto simp: srv_on_packet_def cm_type_as_def crashes_handler_def split: option.splits)
qed

text \<open>A packet with type \<open>LoginRequest\<close> and no union.\<close>

definition null_login :: "byte list" where
  "null_login = [12, 0, 0, 0, 0, 0, 6, 0, 8, 0, 4, 0, 6, 0, 0, 0, 1, 0, 0, 0]"

lemma null_login_verified:
  "\<exists>v. cm_verify_packet_buffer (verifier_for (null_login @ rest) 20) = Some (True, v)"
  unfolding null_login_def verifier_for_def
  by (simp add: cm_eval read_eval verifier_eval verify_range_def table_eval)

lemma null_login_fields:
  "cm_get_Packet (null_login @ rest) = Some 12" "cm_type_type (null_login @ rest) 12 = Some 1"
  "cm_type (null_login @ rest) 12 = Some None"
  unfolding null_login_def
  by (simp_all add: cm_eval read_eval verifier_eval verify_range_def table_eval)

theorem srv_dispatch_undefined_iff_witness:
  "\<exists>packet. cm_get_Packet null_login = Some packet \<and>
    srv_on_packet sample_os (Some \<lparr>sr_socket = 7, sr_iocp = 5\<rparr>) null_login packet
      (new_sender 1, new_server_ext) 0 = None"
proof -
  have "vf_ok (verifier_for null_login 20)"
    by (simp add: vf_ok_def verifier_for_def null_login_def word_less_nat_alt)
  moreover obtain v where "cm_verify_packet_buffer (verifier_for null_login 20) = Some (True, v)"
    using null_login_verified [of "[]"] by auto
  ultimately show ?thesis
    using srv_dispatch_undefined_iff [of "verifier_for null_login 20" v sample_os "\<lparr>sr_socket = 7, sr_iocp = 5\<rparr>"
        "(new_sender 1, new_server_ext)" 0] null_login_fields [of "[]"]
    by (auto simp: verifier_for_def crashes_handler_def)
qed

text \<open>C34: Verifying untrusted bytes is safe: for every block of
  memory and every size inside it \<open>VerifyPacketBuffer\<close> returns a verdict without reading
  outside the block, whatever the bytes are, and after a positive verdict the root, the
  type, the union and the fields of the request the type announces are all read inside it,
  the strings of a login request up to their terminating zero.\<close>

theorem verify_packet_memory_safe:
  assumes "new_verifier buf n opts = Some v" and "unat n \<le> length buf" and "length buf < 2 ^ 63"
  shows "\<exists>ok v'. cm_verify_packet_buffer v = Some (ok, v') \<and>
    (ok \<longrightarrow> (\<exists>root ty obj. cm_get_Packet buf = Some root \<and> cm_type_type buf root = Some ty \<and> cm_type buf root = Some obj \<and>
      (\<forall>q. obj = Some q \<longrightarrow>
        (ty = cm_LoginRequest \<longrightarrow> (\<exists>i p. cm_id buf q = Some i \<and> cm_password buf q = Some p \<and>
           (\<forall>s. i = Some s \<or> p = Some s \<longrightarrow> (\<exists>cs. c_string buf (c_str s) = Some cs)))) \<and>
        (ty = cm_ConnectServerRequest \<longrightarrow> (\<exists>sid. cm_server_id buf q = Some sid)))))"
proof -
  have v: "vf_ok v" "vf_buf v = buf"
    using assms by (auto simp: new_verifier_def vf_ok_def split: if_splits)
  obtain ok v' where r: "cm_verify_packet_buffer v = Some (ok, v')"
    using cm_packet.verify_buffer_safe [OF v(1)] by (auto simp: safe_check_def cm_verify_packet_buffer_def)
  have strings: "\<exists>i p. cm_id buf q = Some i \<and> cm_password buf q = Some p \<and>
      (\<forall>s. i = Some s \<or> p = Some s \<longrightarrow> (\<exists>cs. c_string buf (c_str s) = Some cs))" if l: "cm_login_ok buf q" for q
  proof -
    obtain i p where ip: "cm_id buf q = Some i" "cm_password buf q = Some p"
      using l by (cases "get_pointer buf q 4"; cases "get_pointer buf q 6")
        (simp_all add: cm_login_ok_def string_field_ok_def cm_id_def cm_password_def)
    then have "string_ok buf s" if "i = Some s \<or> p = Some s" for s
      using that l
      by (auto simp: cm_login_ok_def string_field_ok_def cm_id_def cm_password_def)
    then show ?thesis using ip string_ok_c_string [OF _ assms(3)] by metis
  qed
  have sid: "\<exists>sid. cm_server_id buf q = Some sid" if "field_readable 2 buf q 4" for q
    unfolding cm_server_id_def using that by (rule get_field_readable) (rule read_defined(2))
  show ?thesis
  proof (cases ok)
    case True
    then obtain root where root: "cm_get_Packet buf = Some root" "cm_packet_ok buf root"
      using cm_verified_buffer [of v v'] v r by auto
    from root(2) obtain ty obj where ty: "cm_type_type buf root = Some ty" "cm_type buf root = Some obj"
      and ok': "\<And>q. obj = Some q \<Longrightarrow> (ty = cm_LoginRequest \<longrightarrow> cm_login_ok buf q) \<and>
          (ty = cm_ConnectServerRequest \<longrightarrow> field_readable 2 buf q 4)"
      unfolding cm_packet_ok_def by (auto split: option.splits)
    then show ?thesis using r root(1) ok' strings sid by blast
  qed (use r in blast)
qed

theorem verify_packet_memory_safe_witness:
  "\<exists>root ty. cm_get_Packet null_login = Some root \<and> cm_type_type null_login root = Some ty"
proof -
  have nv: "new_verifier null_login 20 default_options = Some (verifier_for null_login 20)"
    using new_verifier_for [of 20 null_login] by (simp add: word_less_nat_alt)
  obtain v where "cm_verify_packet_buffer (verifier_for null_login 20) = Some (True, v)"
    using null_login_verified [of "[]"] by auto
  then show ?thesis
    using verify_packet_memory_safe [OF nv] by (auto simp: null_login_def)
qed

text \<open>One frame of 24 bytes makes the server dereference a null
  pointer: a \<open>Packet\<close> of type \<open>LoginRequest\<close> without the request itself passes
  \<open>VerifyPacketBuffer\<close>, and the first turn of the loop is undefined, whatever the state of
  the sender and of the operating system.\<close>

theorem null_login_crashes_server:
  "(\<exists>v v'. new_verifier null_login 20 default_options = Some v \<and> cm_verify_packet_buffer v = Some (True, v')) \<and>
   srv_loop 1 os ref (frame null_login) 24 (s, new_server_ext) w = Some None"
proof -
  have len: "length null_login = 20" by (simp add: null_login_def)
  have f: "framable null_login" by (simp add: framable_def len)
  have nv: "new_verifier (null_login @ rest) 20 default_options = Some (verifier_for (null_login @ rest) 20)" for rest
    by (rule new_verifier_for) (simp add: word_less_nat_alt)
  obtain p where p: "on_receive (frame null_login) (of_nat (length (frame null_login))) new_receiver = Some (0, p)"
    "pr_inv p" "acc p = acc new_receiver @ frame null_login" "is_complete p \<longleftrightarrow> [] = ([] :: byte list)"
    by (rule on_receive_prefix [of new_receiver "frame null_login" "[]" null_login]) (simp_all add: f)
  have "acc p = frame null_login" using p(3) by simp
  note pk = packet_of_frame [OF p(2) this f]
  obtain rest where buf: "packet_buffer p = null_login @ rest"
    using pk(2) by (metis append_take_drop_id)
  obtain v where v: "cm_verify_packet_buffer (verifier_for (null_login @ rest) 20) = Some (True, v)"
    using null_login_verified by blast
  have "srv_on_packet os ref (null_login @ rest) 12 u w = None" for u
    by (simp add: srv_on_packet_def null_login_fields cm_type_as_def srv_LoginRequest_def)
  then have "srv_turn os ref (frame null_login) 24 (s, new_server_ext) w = None"
    using p(1,4) pk(1) v nv [of rest]
    by (simp add: srv_turn_def new_server_ext_def Let_def buf null_login_fields len)
  moreover obtain v' where "cm_verify_packet_buffer (verifier_for null_login 20) = Some (True, v')"
    using null_login_verified [of "[]"] by auto
  ultimately show ?thesis
    using nv [of "[]"] by simp
qed

section \<open>After a packet that does not verify\<close>

text \<open>The receiver holds a complete frame whose content does not verify.\<close>

definition wedged :: "packet_receiver \<Rightarrow> bool" where
  "wedged p \<longleftrightarrow> is_complete p \<and> 4 \<le> pr_offset p \<and>
     (\<exists>v v'. new_verifier (packet_buffer p) (ucast (packet_length p)) default_options = Some v \<and>
        cm_verify_packet_buffer v = Some (False, v'))"

lemma on_receive_complete:
  assumes "is_complete p" and "4 \<le> pr_offset p" and "pr_room p"
  shows "on_receive src received p = Some (received, p)"
proof -
  have "\<not> pr_offset p < 4" using assms(2) by simp
  moreover have "pr_length p + 4 - pr_offset p = 0"
    using assms(1) by (simp add: is_complete_def)
  moreover have "append_bytes src 0 p = Some p"
    using assms(3) by (auto simp: append_bytes_def copy_to_def pr_room_def)
  ultimately show ?thesis
    by (simp add: on_receive_def on_receive_header_def on_receive_body_def Let_def)
qed

text \<open>C35: Once a completed frame fails verification the session is
  deaf: it leaves the loop without clearing the receiver or closing the socket, and every
  later chunk, whatever it contains, is dropped with the state unchanged.\<close>

theorem invalid_packet_wedges_session:
  assumes "wedged (srv_receiver ext)" and "pr_room (srv_receiver ext)"
  shows "srv_chunks os ref cs (s, ext) w = Some (Inr (), (s, ext), w)"
proof (induction cs)
  case Nil
  then show ?case by simp
next
  case (Cons c cs)
  let ?p = "srv_receiver ext"
  obtain v v' where v: "new_verifier (packet_buffer ?p) (ucast (packet_length ?p)) default_options = Some v"
    "cm_verify_packet_buffer v = Some (False, v')" and c: "is_complete ?p" "4 \<le> pr_offset ?p"
    using assms(1) by (auto simp: wedged_def)
  have "srv_turn os ref c n (s, ext) w = Some (Inr None, (s, ext), w)" for n
    using v c(1) by (simp add: srv_turn_def Let_def on_receive_complete [OF c assms(2)])
  then have "srv_on_receive_packet os ref c n (s, ext) w = Some (Inr (), (s, ext), w)" for n
    by (subst srv_on_receive_packet.simps) simp
  then show ?case
    using Cons.IH by simp
qed

theorem invalid_packet_wedges_session_witness:
  "\<exists>p. on_receive [1, 0, 0, 0, 0] 5 new_receiver = Some (0, p) \<and>
    srv_chunks sample_os None [[1, 2, 3], [4]] (new_sender 1, \<lparr>srv_receiver = p, srv_out = []\<rparr>) 0 =
      Some (Inr (), (new_sender 1, \<lparr>srv_receiver = p, srv_out = []\<rparr>), 0)"
proof -
  have fr: "[1, 0, 0, 0, 0] = frame [0]"
    by (simp add: frame_def u32_bytes_def le_bytes_numeral)
  have f: "framable [0]" by (simp add: framable_def)
  obtain p where p: "on_receive (frame [0]) (of_nat (length (frame [0]))) new_receiver = Some (0, p)"
    "pr_inv p" "acc p = acc new_receiver @ frame [0]" "is_complete p \<longleftrightarrow> [] = ([] :: byte list)"
    by (rule on_receive_prefix [of new_receiver "frame [0]" "[]" "[0]"]) (simp_all add: f)
  have a: "acc p = frame [0]" using p(3) by simp
  note pk = packet_of_frame [OF p(2) a f]
  have "unat (pr_offset p) = 5" using length_acc [OF p(2)] a by simp
  then have "4 \<le> pr_offset p" by (simp add: word_le_nat_alt)
  moreover have "\<exists>v v'. new_verifier (packet_buffer p) 1 default_options = Some v \<and>
      cm_verify_packet_buffer v = Some (False, v')"
    by (simp add: new_verifier_def word_less_nat_alt cm_verify_packet_buffer_def verifier_eval verify_range_def)
  ultimately have "wedged p"
    using p(4) pk(1) by (simp add: wedged_def)
  then show ?thesis
    using invalid_packet_wedges_session [of "\<lparr>srv_receiver = p, srv_out = []\<rparr>" sample_os None
        "[[1, 2, 3], [4]]" "new_sender 1" 0] p(1) pr_inv_room [OF p(2)] fr by auto
qed

section \<open>Two requests in one chunk\<close>

lemma on_receive_frame:
  assumes "pr_inv p" "acc p = []" and d: "framable d"
    and "take (unat n) src = frame d @ rest" "unat n \<le> length src"
  obtains p' where "on_receive src n p = Some (of_nat (length rest), p')" "pr_inv p'"
    "acc p' = frame d" "is_complete p'"
proof -
  have "length (acc p) + unat n < 2 ^ 32" using assms(2) unsigned_less [of n] by simp
  moreover have "feed (acc p) (take (unat n) src) = (frame d, rest)"
    using feed_frame [OF d] assms(2,4) by simp
  ultimately obtain p' where p': "on_receive src n p = Some (of_nat (length rest), p')" "pr_inv p'"
    "acc p' = frame d"
    by (rule on_receive_feed [OF assms(1,5)])
  then show thesis
    using that is_complete_frame_done [OF p'(2)] frame_done_frame [OF d] by simp
qed

text \<open>C36: When one \<open>recv\<close> delivers the frames of two requests of the
  same length, the loop does not advance its pointer into the chunk: the first request is
  handled and answered twice and the second one never.\<close>

theorem coalesced_requests_misread:
  assumes "client_packet_ok m" "client_packet_ok m'"
    and len: "length (client_packet_bytes m') = length (client_packet_bytes m)"
    and inv: "pr_inv (srv_receiver ext)" "acc (srv_receiver ext) = []" and "post_succeeds os"
  defines "chunk \<equiv> frame (client_packet_bytes m) @ frame (client_packet_bytes m')"
  shows "\<exists>s' ext' w'. srv_on_receive_packet os (Some r) chunk (of_nat (length chunk)) (s, ext) w =
      Some (Inr (), (s', ext'), w') \<and>
    srv_out ext' = srv_out ext @ request_output m @ request_output m \<and>
    send_queue s' = send_queue s @ [reply_frame m, reply_frame m]"
proof -
  let ?f = "frame (client_packet_bytes m)" and ?g = "frame (client_packet_bytes m')"
  let ?n = "of_nat (length chunk) :: u32" and ?k = "of_nat (length ?g) :: u32"
  note ok = framable_client_packet [OF assms(1)]
  have small: "length ?f < 2 ^ 30 + 64" "length ?g = length ?f"
    using client_packet_length [OF assms(1)] len by simp_all
  have cl: "length chunk = length ?f + length ?f" using small(2) by (simp add: chunk_def)
  have n: "unat ?n = length chunk" by (rule unat_of_nat_small) (use small cl in simp)
  have k: "unat ?k = length ?f" using small by (subst unat_of_nat_small) simp_all
  have t1: "take (unat ?n) chunk = ?f @ ?g" and t2: "take (unat ?k) chunk = ?f @ []"
    using n k by (simp_all add: chunk_def)
  have len: "unat ?n \<le> length chunk" "unat ?k \<le> length chunk" using n k cl by simp_all
  obtain p where p: "on_receive chunk ?n (srv_receiver ext) = Some (?k, p)" "pr_inv p" "acc p = ?f"
    and c: "is_complete p"
    by (rule on_receive_frame [OF inv ok t1 len(1)])
  obtain s1 w1 where post: "post_completion_port_signal os (sr_iocp r)
      (s\<lparr>send_queue := send_queue s @ [reply_frame m]\<rparr>) w = (Inr (), s1, w1)"
    "send_queue s1 = send_queue s @ [reply_frame m]"
    by (rule post_succeedsD [OF assms(6), of "sr_iocp r" "s\<lparr>send_queue := send_queue s @ [reply_frame m]\<rparr>" w]) simp
  let ?ext = "print (request_output m) (ext\<lparr>srv_receiver := clear p\<rparr>)"
  have turn: "srv_turn os (Some r) chunk ?n (s, ext) w = Some (Inr (Some ?k), (s1, ?ext), w1)"
    using srv_turn_complete [OF p(1) c assms(1) p(2,3) post(1)] by simp
  have r2: "srv_receiver ?ext = clear p" by (simp add: print_def)
  obtain q where q: "on_receive chunk ?k (clear p) = Some (of_nat (length ([] :: byte list)), q)"
    "pr_inv q" "acc q = ?f" and c2: "is_complete q"
    by (rule on_receive_frame [OF pr_inv_clear [OF p(2)] acc_clear ok t2 len(2)])
  obtain s2 w2 where post2: "post_completion_port_signal os (sr_iocp r)
      (s1\<lparr>send_queue := send_queue s1 @ [reply_frame m]\<rparr>) w1 = (Inr (), s2, w2)"
    "send_queue s2 = send_queue s1 @ [reply_frame m]"
    by (rule post_succeedsD [OF assms(6), of "sr_iocp r" "s1\<lparr>send_queue := send_queue s1 @ [reply_frame m]\<rparr>" w1]) simp
  have last: "srv_on_receive_packet os (Some r) chunk ?k (s1, ?ext) w1 =
      Some (Inr (), (s2, print (request_output m) (?ext\<lparr>srv_receiver := clear q\<rparr>)), w2)"
    using srv_receive_last [of chunk ?k ?ext q m os r s1 w1] q c2 assms(1) post2(1) by (simp add: r2)
  have "0 < ?k"
    using k small by (simp add: word_less_nat_alt del: length_frame)
  then have "srv_on_receive_packet os (Some r) chunk ?n (s, ext) w =
      Some (Inr (), (s2, print (request_output m) (?ext\<lparr>srv_receiver := clear q\<rparr>)), w2)"
    by (subst srv_on_receive_packet.simps) (simp add: turn last del: length_frame)
  then show ?thesis
    using post(2) post2(2) by (simp add: print_def)
qed

theorem coalesced_requests_misread_witness:
  "\<exists>s' ext' w'. srv_on_receive_packet sample_os (Some \<lparr>sr_socket = 7, sr_iocp = 5\<rparr>)
      (frame (client_packet_bytes (LoginRequest [97] [98])) @ frame (client_packet_bytes (LoginRequest [99] [100])))
      (of_nat (length (frame (client_packet_bytes (LoginRequest [97] [98])) @
         frame (client_packet_bytes (LoginRequest [99] [100])))))
      (new_sender 1, new_server_ext) 0 = Some (Inr (), (s', ext'), w') \<and>
    srv_out ext' = srv_out new_server_ext @ request_output (LoginRequest [97] [98]) @
      request_output (LoginRequest [97] [98]) \<and>
    send_queue s' = send_queue (new_sender 1) @
      [reply_frame (LoginRequest [97] [98]), reply_frame (LoginRequest [97] [98])]"
  by (rule coalesced_requests_misread)
    (simp_all add: new_server_ext_def post_succeeds_def sample_os_def login_message_def string_bytes_def)

end
