(* ===== verification/Example_Dialogue.thy ===== *)
theory Example_Dialogue
  imports Client_Session Server_Session_Safety
begin

text \<open>
  The example server and the example client talking to each other: the composition of
  \<open>Server_Session\<close> and \<open>Client_Session\<close> over a reliable byte stream that delivers the bytes
  of each direction in chunks of any size.
\<close>

section \<open>A client whose transport takes everything\<close>

definition eager_transport :: "'w os \<Rightarrow> ('w \<Rightarrow> byte list) \<Rightarrow> bool" where
  "eager_transport os sent \<longleftrightarrow> send_contract os sent \<and>
     (\<forall>h data len flags w. 0 < unat len \<longrightarrow>
        fst (os_send os h data len flags w) \<noteq> SOCKET_ERROR \<and> fst (os_send os h data len flags w) \<noteq> 0)"

lemma send_turn_receiver:
  "send_turn os s w = Some (r, s', w') \<Longrightarrow> cs_receiver s' = cs_receiver s"
  by (auto simp: send_turn_def Let_def split: list.splits if_splits prod.splits sum.splits)

lemma send_turn_eager:
  assumes "eager_transport os sent" and inv: "cs_inv s" and "send_turn os s w = Some (r, s', w')"
  shows "r = Inr True"
proof -
  obtain b bs where bs: "cs_send_buffers s = b # bs"
    using assms(3) by (cases "cs_send_buffers s") (auto simp: send_turn_def)
  have b: "sendable b" "unat (cs_sending_size s) < length b"
    using inv bs by (simp_all add: cs_inv_def)
  let ?len = "get_buffer_size b - cs_sending_size s" and ?d = "drop (unat (cs_sending_size s)) b"
  have "unat ?len = length b - unat (cs_sending_size s)"
    using b(2) sendable_size [OF b(1)] by (simp add: unat_sub_le word_le_nat_alt)
  then have "0 < unat ?len" using b(2) by simp
  moreover obtain n w1 where n: "os_send os (handle (cs_socket s)) ?d ?len 0 w = (n, w1)" by force
  ultimately have "n \<noteq> SOCKET_ERROR" "n \<noteq> 0"
    using assms(1) unfolding eager_transport_def by (metis fst_conv)+
  then show ?thesis
    using assms(3) b(2) by (auto simp: send_turn_def bs Let_def ws_send_def n split: if_splits)
qed

lemma try_send_eager:
  assumes "eager_transport os sent" and "cs_inv s"
  shows "\<exists>s' w'. try_send_packet os s w = Some (Inr (), s', w') \<and> cs_send_buffers s' = [] \<and> cs_inv s' \<and>
    cs_receiver s' = cs_receiver s \<and> sent w' = sent w @ cs_pending s"
  using assms(2)
proof (induction "length (cs_pending s)" arbitrary: s w rule: less_induct)
  case less
  show ?case
  proof (cases "cs_send_buffers s = []")
    case True
    then show ?thesis using less.prems by (subst try_send_packet.simps) (simp add: cs_pending_def)
  next
    case False
    obtain r s' w' where 1: "send_turn os s w = Some (r, s', w')" "cs_inv s'"
      "sent w' @ cs_pending s' = sent w @ cs_pending s"
      "r = Inr True \<Longrightarrow> length (cs_pending s') < length (cs_pending s)"
      by (rule send_turn_effect [OF _ less.prems False, of os sent w])
        (use assms(1) in \<open>auto simp: eager_transport_def\<close>)
    note r = send_turn_eager [OF assms(1) less.prems 1(1)]
    show ?thesis
      using less.hyps [OF 1(4) [OF r] 1(2), of w'] 1(1,3) send_turn_receiver [OF 1(1)] r False
      by (subst try_send_packet.simps) auto
  qed
qed

definition clean_client :: "client_socket \<Rightarrow> bool" where
  "clean_client s \<longleftrightarrow> cs_send_buffers s = [] \<and> cs_sending_size s = 0 \<and> pr_inv (cs_receiver s)"

lemma send_request_eager:
  assumes "eager_transport os sent" and "clean_client s" and m: "client_packet_ok m"
  shows "\<exists>s' w'. send_request os m s w = Some (Inr (), s', w') \<and> clean_client s' \<and>
    cs_receiver s' = cs_receiver s \<and> sent w' = sent w @ frame (client_packet_bytes m)"
proof -
  let ?d = "client_packet_bytes m"
  have c: "cs_inv s" "cs_pending s = []"
    using assms(2) by (simp_all add: clean_client_def cs_inv_def cs_pending_def)
  have ok: "sendable (frame ?d)"
    using client_packet_length [OF m] by (simp add: sendable_def)
  obtain s' w' where t: "try_send_packet os (s\<lparr>cs_send_buffers := cs_send_buffers s @ [frame ?d]\<rparr>) w = Some (Inr (), s', w')"
    "cs_send_buffers s' = []" "cs_inv s'" "cs_receiver s' = cs_receiver s" "sent w' = sent w @ frame ?d"
    using try_send_eager [OF assms(1) push_inv(1) [OF c(1) ok], of w] push_inv(2) [OF c(1) ok] c(2) by auto
  then have "clean_client s'"
    using assms(2) by (simp add: clean_client_def cs_inv_def)
  then show ?thesis
    using t framable_client_packet [OF m] by (simp add: send_request_packet [OF m] send_packet_def allocate_frame)
qed

section \<open>A client reading a reply\<close>

lemma read_chunk_part:
  assumes "on_receive c n (cs_receiver s) = Some (0, p)" and "\<not> is_complete p"
  shows "read_chunk op c n s w = Some (Inr (), s\<lparr>cs_receiver := p\<rparr>, w)"
  by (subst read_chunk.simps) (simp add: read_turn_def assms Let_def)

text \<open>Printing does not send.\<close>

definition silent :: "(out_item list \<Rightarrow> 'w \<Rightarrow> 'w) \<Rightarrow> ('w \<Rightarrow> byte list) \<Rightarrow> bool" where
  "silent cout sent \<longleftrightarrow> (\<forall>xs w. sent (cout xs w) = sent w)"

abbreviation request_frame :: "client_packet \<Rightarrow> byte list" where
  "request_frame q \<equiv> frame (client_packet_bytes q)"

lemma next_request_ok: "next_request m = Some q \<Longrightarrow> client_packet_ok q"
  by (cases m) (auto split: if_splits)

lemma clt_on_packet_eager:
  assumes e: "eager_transport os sent" and "silent cout sent" and s: "clean_client s"
    and len: "len = of_nat (length (server_packet_bytes m))"
  shows "\<exists>s' w'. clt_on_packet cout os (server_packet_bytes m @ rest) len s w = Some (Inr (), s', w') \<and>
    clean_client s' \<and> cs_receiver s' = cs_receiver s \<and>
    sent w' = sent w @ (case next_request m of None \<Rightarrow> [] | Some q \<Rightarrow> request_frame q)"
proof (cases "next_request m")
  case None
  then show ?thesis
    using assms(2) s by (simp add: clt_on_packet_result [OF len] silent_def)
next
  case (Some q)
  then show ?thesis
    using send_request_eager [OF e s next_request_ok [OF Some], of "cout (result_output m) w"] assms(2)
    by (auto simp: clt_on_packet_result [OF len] silent_def)
qed

lemma read_chunk_last:
  assumes e: "eager_transport os sent" "silent cout sent" and s: "clean_client s"
    and c: "on_receive c n (cs_receiver s) = Some (0, p)" "is_complete p"
    and p: "pr_inv p" "acc p = frame (server_packet_bytes m)"
  shows "\<exists>s' w'. read_chunk (clt_on_packet cout os) c n s w = Some (Inr (), s', w') \<and>
    clean_client s' \<and> acc (cs_receiver s') = [] \<and>
    sent w' = sent w @ (case next_request m of None \<Rightarrow> [] | Some q \<Rightarrow> request_frame q)"
proof -
  note pk = packet_of_frame [OF p framable_server_packet]
  obtain rest where buf: "packet_buffer p = server_packet_bytes m @ rest"
    using pk(2) by (metis append_take_drop_id)
  have "clean_client (s\<lparr>cs_receiver := p\<rparr>)" using s p(1) by (simp add: clean_client_def)
  from clt_on_packet_eager [OF e this pk(1), of rest w] obtain s' w' where
    "clt_on_packet cout os (packet_buffer p) (packet_length p) (s\<lparr>cs_receiver := p\<rparr>) w = Some (Inr (), s', w')"
    "clean_client s'" and w': "sent w' = sent w @ (case next_request m of None \<Rightarrow> [] | Some q \<Rightarrow> request_frame q)"
    by (auto simp: buf)
  then have "read_chunk (clt_on_packet cout os) c n s w =
      Some (Inr (), s'\<lparr>cs_receiver := clear (cs_receiver s')\<rparr>, w')"
    by (subst read_chunk.simps) (simp add: read_turn_def c Let_def)
  moreover have "clean_client (s'\<lparr>cs_receiver := clear (cs_receiver s')\<rparr>)"
    using \<open>clean_client s'\<close> by (simp add: clean_client_def)
  ultimately show ?thesis using w' by simp
qed

section \<open>The two programs and the wires between them\<close>

text \<open>
  \<open>sys_up\<close> and \<open>sys_down\<close> are the bytes on their way to the server and to the client.  The
  server's worker transmits its send queue as a whole; \<open>Session_Sender\<close> shows that what it
  transmits are these bytes in this order.
\<close>

record ('w, 'v) system =
  sys_client :: client_socket
  sys_cw :: 'w
  sys_sender :: session_sender
  sys_ext :: server_ext
  sys_sw :: 'v
  sys_up :: "byte list"
  sys_down :: "byte list"

inductive sys_step ::
  "(out_item list \<Rightarrow> 'w \<Rightarrow> 'w) \<Rightarrow> 'w os \<Rightarrow> ('w \<Rightarrow> byte list) \<Rightarrow> 'v os \<Rightarrow> session_ref \<Rightarrow>
   ('w, 'v) system \<Rightarrow> ('w, 'v) system \<Rightarrow> bool"
  for cout os_c sent os_s r where
  server_reads: "sys_up S = c @ rest \<Longrightarrow> c \<noteq> [] \<Longrightarrow>
    srv_on_receive_packet os_s (Some r) c (of_nat (length c)) (sys_sender S, sys_ext S) (sys_sw S) =
      Some (Inr (), (sd, ext), v) \<Longrightarrow>
    sys_step cout os_c sent os_s r S (S\<lparr>sys_sender := sd, sys_ext := ext, sys_sw := v, sys_up := rest\<rparr>)"
| server_sends: "send_queue (sys_sender S) \<noteq> [] \<Longrightarrow>
    sys_step cout os_c sent os_s r S (S\<lparr>sys_sender := (sys_sender S)\<lparr>send_queue := []\<rparr>,
      sys_down := sys_down S @ concat (send_queue (sys_sender S))\<rparr>)"
| client_reads: "sys_down S = c @ rest \<Longrightarrow> c \<noteq> [] \<Longrightarrow>
    read_chunk (clt_on_packet cout os_c) c (of_nat (length c)) (sys_client S) (sys_cw S) = Some (Inr (), s, w) \<Longrightarrow>
    sys_step cout os_c sent os_s r S (S\<lparr>sys_client := s, sys_cw := w, sys_down := rest,
      sys_up := sys_up S @ drop (length (sent (sys_cw S))) (sent w)\<rparr>)"

definition quiet :: "('w, 'v) system \<Rightarrow> bool" where
  "quiet S \<longleftrightarrow> sys_up S = [] \<and> sys_down S = [] \<and> send_queue (sys_sender S) = []"

section \<open>The phases of the dialogue\<close>

definition follow_up :: "client_packet \<Rightarrow> client_packet option" where
  "follow_up q = next_request (request_reply q)"

text \<open>What holds in every phase: \<open>hs\<close> are the requests sent, \<open>ds\<close> those handled.\<close>

definition sys_ok :: "('w \<Rightarrow> byte list) \<Rightarrow> client_packet list \<Rightarrow> client_packet list \<Rightarrow> ('w, 'v) system \<Rightarrow> bool" where
  "sys_ok sent hs ds S \<longleftrightarrow> clean_client (sys_client S) \<and> pr_inv (srv_receiver (sys_ext S)) \<and>
     list_all client_packet_ok hs \<and> sent (sys_cw S) = concat (map request_frame hs) \<and>
     srv_out (sys_ext S) = concat (map request_output ds)"

inductive talk :: "('w \<Rightarrow> byte list) \<Rightarrow> client_packet list \<Rightarrow> ('w, 'v) system \<Rightarrow> bool" for sent where
  asking: "sys_ok sent (ds @ [q]) ds S \<Longrightarrow> acc (srv_receiver (sys_ext S)) @ sys_up S = request_frame q \<Longrightarrow>
    sys_up S \<noteq> [] \<Longrightarrow> send_queue (sys_sender S) = [] \<Longrightarrow> sys_down S = [] \<Longrightarrow>
    acc (cs_receiver (sys_client S)) = [] \<Longrightarrow> talk sent (ds @ [q]) S"
| answering: "sys_ok sent (ds @ [q]) (ds @ [q]) S \<Longrightarrow> acc (srv_receiver (sys_ext S)) = [] \<Longrightarrow> sys_up S = [] \<Longrightarrow>
    send_queue (sys_sender S) = [reply_frame q] \<Longrightarrow> sys_down S = [] \<Longrightarrow>
    acc (cs_receiver (sys_client S)) = [] \<Longrightarrow> talk sent (ds @ [q]) S"
| replying: "sys_ok sent (ds @ [q]) (ds @ [q]) S \<Longrightarrow> acc (srv_receiver (sys_ext S)) = [] \<Longrightarrow> sys_up S = [] \<Longrightarrow>
    send_queue (sys_sender S) = [] \<Longrightarrow> sys_down S \<noteq> [] \<Longrightarrow>
    acc (cs_receiver (sys_client S)) @ sys_down S = reply_frame q \<Longrightarrow> talk sent (ds @ [q]) S"
| finished: "sys_ok sent (ds @ [q]) (ds @ [q]) S \<Longrightarrow> follow_up q = None \<Longrightarrow> quiet S \<Longrightarrow> talk sent (ds @ [q]) S"


lemma asking_reads:
  assumes ok: "sys_ok sent (ds @ [q]) ds S" and up: "acc (srv_receiver (sys_ext S)) @ sys_up S = request_frame q"
    and idle: "send_queue (sys_sender S) = []" "sys_down S = []" "acc (cs_receiver (sys_client S)) = []"
    and c: "sys_up S = c @ rest" "c \<noteq> []" and post: "post_succeeds os_s"
  shows "\<exists>sd ext v. srv_on_receive_packet os_s (Some r) c (of_nat (length c)) (sys_sender S, sys_ext S) (sys_sw S) =
      Some (Inr (), (sd, ext), v) \<and>
    talk sent (ds @ [q]) (S\<lparr>sys_sender := sd, sys_ext := ext, sys_sw := v, sys_up := rest\<rparr>)"
proof -
  have q: "client_packet_ok q" and inv: "pr_inv (srv_receiver (sys_ext S))"
    using ok by (simp_all add: sys_ok_def)
  obtain p where p: "on_receive c (of_nat (length c)) (srv_receiver (sys_ext S)) = Some (0, p)" "pr_inv p"
    "acc p = acc (srv_receiver (sys_ext S)) @ c" "is_complete p \<longleftrightarrow> rest = []"
    by (rule on_receive_prefix [OF inv _ framable_client_packet [OF q], of c rest]) (use up c in simp_all)
  show ?thesis
  proof (cases "rest = []")
    case False
    then have "srv_on_receive_packet os_s (Some r) c (of_nat (length c)) (sys_sender S, sys_ext S) (sys_sw S) =
        Some (Inr (), (sys_sender S, (sys_ext S)\<lparr>srv_receiver := p\<rparr>), sys_sw S)"
      using srv_receive_part [OF p(1)] p(4) by simp
    moreover have "talk sent (ds @ [q]) (S\<lparr>sys_sender := sys_sender S,
        sys_ext := (sys_ext S)\<lparr>srv_receiver := p\<rparr>, sys_sw := sys_sw S, sys_up := rest\<rparr>)"
      using ok up idle c p False by (intro talk.asking) (simp_all add: sys_ok_def)
    ultimately show ?thesis by blast
  next
    case True
    have a: "acc p = request_frame q" using p(3) up c(1) True by simp
    obtain sd v where sd: "post_completion_port_signal os_s (sr_iocp r)
        ((sys_sender S)\<lparr>send_queue := send_queue (sys_sender S) @ [reply_frame q]\<rparr>) (sys_sw S) = (Inr (), sd, v)"
      "send_queue sd = [reply_frame q]"
      by (rule post_succeedsD [OF post, of "sr_iocp r"
            "(sys_sender S)\<lparr>send_queue := send_queue (sys_sender S) @ [reply_frame q]\<rparr>" "sys_sw S"]) (simp add: idle)
    let ?ext = "print (request_output q) ((sys_ext S)\<lparr>srv_receiver := clear p\<rparr>)"
    have "srv_on_receive_packet os_s (Some r) c (of_nat (length c)) (sys_sender S, sys_ext S) (sys_sw S) =
        Some (Inr (), (sd, ?ext), v)"
      using srv_receive_last [OF p(1) _ q p(2) a, of os_s r "sys_sender S" "sys_sw S"] p(4) True sd(1) by simp
    moreover have "talk sent (ds @ [q]) (S\<lparr>sys_sender := sd, sys_ext := ?ext, sys_sw := v, sys_up := rest\<rparr>)"
      using ok idle sd(2) True p(2) by (intro talk.answering) (simp_all add: sys_ok_def print_def)
    ultimately show ?thesis by blast
  qed
qed

lemma replying_reads:
  assumes ok: "sys_ok sent (ds @ [q]) (ds @ [q]) S" and srv: "acc (srv_receiver (sys_ext S)) = []" "sys_up S = []"
    "send_queue (sys_sender S) = []"
    and down: "acc (cs_receiver (sys_client S)) @ sys_down S = reply_frame q"
    and c: "sys_down S = c @ rest" "c \<noteq> []" and e: "eager_transport os_c sent" "silent cout sent"
  shows "\<exists>s w. read_chunk (clt_on_packet cout os_c) c (of_nat (length c)) (sys_client S) (sys_cw S) =
      Some (Inr (), s, w) \<and>
    drop (length (sent (sys_cw S))) (sent w) =
      (if rest = [] then case follow_up q of None \<Rightarrow> [] | Some q' \<Rightarrow> request_frame q' else []) \<and>
    (let S' = S\<lparr>sys_client := s, sys_cw := w, sys_down := rest,
        sys_up := sys_up S @ drop (length (sent (sys_cw S))) (sent w)\<rparr> in
     if rest \<noteq> [] then talk sent (ds @ [q]) S'
     else talk sent ((ds @ [q]) @ (case follow_up q of None \<Rightarrow> [] | Some q' \<Rightarrow> [q'])) S')"
proof -
  have s: "clean_client (sys_client S)" and inv: "pr_inv (cs_receiver (sys_client S))"
    using ok by (simp_all add: sys_ok_def clean_client_def)
  obtain p where p: "on_receive c (of_nat (length c)) (cs_receiver (sys_client S)) = Some (0, p)" "pr_inv p"
    "acc p = acc (cs_receiver (sys_client S)) @ c" "is_complete p \<longleftrightarrow> rest = []"
    by (rule on_receive_prefix [OF inv _ framable_server_packet [of "request_reply q"], of c rest])
      (use down c in \<open>simp_all add: reply_frame_def\<close>)
  show ?thesis
  proof (cases "rest = []")
    case False
    then have "read_chunk (clt_on_packet cout os_c) c (of_nat (length c)) (sys_client S) (sys_cw S) =
        Some (Inr (), (sys_client S)\<lparr>cs_receiver := p\<rparr>, sys_cw S)"
      using read_chunk_part [OF p(1)] p(4) by simp
    moreover have "talk sent (ds @ [q]) (S\<lparr>sys_client := (sys_client S)\<lparr>cs_receiver := p\<rparr>, sys_cw := sys_cw S,
        sys_down := rest, sys_up := sys_up S @ drop (length (sent (sys_cw S))) (sent (sys_cw S))\<rparr>)"
      using ok srv down c p False by (intro talk.replying) (simp_all add: sys_ok_def clean_client_def)
    ultimately show ?thesis using False by (auto simp: Let_def)
  next
    case True
    have a: "acc p = frame (server_packet_bytes (request_reply q))"
      using p(3) down c(1) True by (simp add: reply_frame_def)
    obtain s' w' where r: "read_chunk (clt_on_packet cout os_c) c (of_nat (length c)) (sys_client S) (sys_cw S) =
        Some (Inr (), s', w')" "clean_client s'" "acc (cs_receiver s') = []"
      "sent w' = sent (sys_cw S) @ (case follow_up q of None \<Rightarrow> [] | Some q \<Rightarrow> request_frame q)"
      using read_chunk_last [OF e s p(1) _ p(2) a, of "sys_cw S"] p(4) True by (auto simp: follow_up_def)
    let ?S = "S\<lparr>sys_client := s', sys_cw := w', sys_down := rest,
      sys_up := sys_up S @ drop (length (sent (sys_cw S))) (sent w')\<rparr>"
    have "talk sent ((ds @ [q]) @ (case follow_up q of None \<Rightarrow> [] | Some q' \<Rightarrow> [q'])) ?S"
    proof (cases "follow_up q")
      case None
      then show ?thesis
        using ok srv r True talk.finished [of sent ds q ?S] by (simp add: sys_ok_def quiet_def)
    next
      case (Some q')
      have "client_packet_ok q'" using Some next_request_ok by (simp add: follow_up_def)
      then have "talk sent ((ds @ [q]) @ [q']) ?S"
        using ok srv r True Some frame_not_Nil by (intro talk.asking) (simp_all add: sys_ok_def)
      then show ?thesis using Some by simp
    qed
    then show ?thesis using r(1,4) True by (auto simp: Let_def)
  qed
qed

section \<open>Every step keeps the dialogue going\<close>

text \<open>How many steps a request, its reply and everything after it can take at most.\<close>

definition exchange_cost :: "client_packet \<Rightarrow> nat" where
  "exchange_cost q = length (request_frame q) + 1 + length (reply_frame q)"

fun later_cost :: "client_packet \<Rightarrow> nat" where
  "later_cost (LoginRequest s4 s6) = exchange_cost (ConnectServerRequest 1) + exchange_cost LogoutRequest"
| "later_cost (ConnectServerRequest sid) = exchange_cost LogoutRequest"
| "later_cost LogoutRequest = 0"

lemma later_cost_follow_up: "follow_up q = Some q' \<Longrightarrow> later_cost q = exchange_cost q' + later_cost q'"
  by (cases q) (auto simp: follow_up_def)

definition steps_left :: "client_packet list \<Rightarrow> ('w, 'v) system \<Rightarrow> nat" where
  "steps_left hs S = length (sys_up S) +
     (if sys_up S \<noteq> [] \<or> send_queue (sys_sender S) \<noteq> [] then 1 + length (reply_frame (last hs))
      else length (sys_down S)) + later_cost (last hs)"

definition continues :: "client_packet list \<Rightarrow> client_packet list \<Rightarrow> bool" where
  "continues hs hs' \<longleftrightarrow> hs' = hs \<or> (\<exists>q. follow_up (last hs) = Some q \<and> hs' = hs @ [q])"

lemma reply_frame_not_Nil [simp]: "reply_frame q \<noteq> []"
  by (simp add: reply_frame_def)

lemma talk_step:
  assumes "talk sent hs S" and "sys_step cout os_c sent os_s r S S'"
    and e: "eager_transport os_c sent" "silent cout sent" "post_succeeds os_s"
  shows "\<exists>hs'. continues hs hs' \<and> talk sent hs' S' \<and> steps_left hs' S' < steps_left hs S"
  using assms(1)
proof cases
  case (asking ds q)
  from assms(2) show ?thesis
  proof cases
    case (server_reads c rest sd ext v)
    have "talk sent (ds @ [q]) S'"
      using asking_reads [OF asking(2,3,5,6,7) server_reads(2,3) e(3), of r] server_reads(1,4) by auto
    moreover have "steps_left hs S' < steps_left hs S"
      using server_reads asking by (cases c) (auto simp: steps_left_def)
    ultimately show ?thesis using asking(1) by (auto simp: continues_def)
  qed (use asking in simp_all)
next
  case (answering ds q)
  from assms(2) show ?thesis
  proof cases
    case server_sends
    have "talk sent (ds @ [q]) S'"
      unfolding server_sends(1) using answering by (intro talk.replying) (simp_all add: sys_ok_def)
    moreover have "steps_left hs S' < steps_left hs S"
      using server_sends answering by (simp add: steps_left_def)
    ultimately show ?thesis using answering(1) by (auto simp: continues_def)
  qed (use answering in simp_all)
next
  case (replying ds q)
  from assms(2) show ?thesis
  proof cases
    case (client_reads c rest s w)
    note r = replying_reads [OF replying(2,3,4,5,7) client_reads(2,3) e(1,2)]
    have t: "if rest \<noteq> [] then talk sent hs S'
      else talk sent (hs @ (case follow_up q of None \<Rightarrow> [] | Some q' \<Rightarrow> [q'])) S'"
      using r client_reads(1,4) replying(1) by (auto simp: Let_def)
    have up: "sys_up S' = (if rest = [] then case follow_up q of None \<Rightarrow> [] | Some q' \<Rightarrow> request_frame q' else [])"
      using r client_reads(1,4) replying(4) by auto
    have "length rest < length (sys_down S)" "sys_down S' = rest" "sys_sender S' = sys_sender S"
      using client_reads by simp_all
    then have "steps_left (if rest = [] then hs @ (case follow_up q of None \<Rightarrow> [] | Some q' \<Rightarrow> [q']) else hs) S'
        < steps_left hs S"
      using replying up later_cost_follow_up [of q]
      by (auto simp: steps_left_def exchange_cost_def split: option.splits)
    then show ?thesis
      using t replying(1) by (auto simp: continues_def split: option.splits if_splits)
  qed (use replying in simp_all)
next
  case (finished ds q)
  from assms(2) show ?thesis
    by cases (use finished in \<open>simp_all add: quiet_def\<close>)
qed


lemma talk_defined:
  assumes "talk sent hs S"
    and e: "eager_transport os_c sent" "silent cout sent" "post_succeeds os_s"
  shows "sys_up S = c @ rest \<Longrightarrow> c \<noteq> [] \<Longrightarrow>
      \<exists>sd ext v. srv_on_receive_packet os_s (Some r) c (of_nat (length c)) (sys_sender S, sys_ext S) (sys_sw S) =
        Some (Inr (), (sd, ext), v)"
    and "sys_down S = c @ rest \<Longrightarrow> c \<noteq> [] \<Longrightarrow>
      \<exists>s w. read_chunk (clt_on_packet cout os_c) c (of_nat (length c)) (sys_client S) (sys_cw S) = Some (Inr (), s, w)"
proof -
  assume c: "sys_up S = c @ rest" "c \<noteq> []"
  from assms(1) show "\<exists>sd ext v. srv_on_receive_packet os_s (Some r) c (of_nat (length c))
      (sys_sender S, sys_ext S) (sys_sw S) = Some (Inr (), (sd, ext), v)"
  proof cases
    case (asking ds q)
    then show ?thesis
      using asking_reads [OF asking(2,3,5,6,7) c e(3), of r] by blast
  qed (use c in \<open>simp_all add: quiet_def\<close>)
next
  assume c: "sys_down S = c @ rest" "c \<noteq> []"
  from assms(1) show "\<exists>s w. read_chunk (clt_on_packet cout os_c) c (of_nat (length c))
      (sys_client S) (sys_cw S) = Some (Inr (), s, w)"
  proof cases
    case (replying ds q)
    then show ?thesis
      using replying_reads [OF replying(2,3,4,5,7) c e(1,2)] by blast
  qed (use c in \<open>simp_all add: quiet_def\<close>)
qed

lemma talk_progress:
  assumes "talk sent hs S" and "\<not> quiet S"
    and e: "eager_transport os_c sent" "silent cout sent" "post_succeeds os_s"
  shows "\<exists>S'. sys_step cout os_c sent os_s r S S'"
proof (cases "sys_up S \<noteq> [] \<or> sys_down S \<noteq> []")
  case True
  then show ?thesis
    using talk_defined(1) [OF assms(1) e, where c = "sys_up S" and rest = "[]" and r = r]
      talk_defined(2) [OF assms(1) e, where c = "sys_down S" and rest = "[]"]
    by (auto intro: sys_step.server_reads [of _ "sys_up S" "[]"] sys_step.client_reads [of _ "sys_down S" "[]"])
next
  case False
  then show ?thesis using assms(2) by (auto simp: quiet_def intro: sys_step.server_sends)
qed

lemma talk_run:
  assumes "(sys_step cout os_c sent os_s r ^^ n) S S'" and "talk sent hs S"
    and e: "eager_transport os_c sent" "silent cout sent" "post_succeeds os_s"
  shows "\<exists>hs'. continues\<^sup>*\<^sup>* hs hs' \<and> talk sent hs' S' \<and> n + steps_left hs' S' \<le> steps_left hs S"
  using assms(1)
proof (induction n arbitrary: S')
  case 0
  then show ?case using assms(2) by auto
next
  case (Suc n)
  then obtain S1 where 1: "(sys_step cout os_c sent os_s r ^^ n) S S1" "sys_step cout os_c sent os_s r S1 S'"
    by auto
  obtain hs1 where h1: "continues\<^sup>*\<^sup>* hs hs1" "talk sent hs1 S1" "n + steps_left hs1 S1 \<le> steps_left hs S"
    using Suc.IH [OF 1(1)] by blast
  obtain hs2 where "continues hs1 hs2" "talk sent hs2 S'" "steps_left hs2 S' < steps_left hs1 S1"
    using talk_step [OF h1(2) 1(2) e] by blast
  then show ?case
    using h1(1,3) by (intro exI [of _ hs2]) auto
qed

section \<open>The whole dialogue\<close>

definition dialogue :: "byte list \<Rightarrow> byte list \<Rightarrow> client_packet list" where
  "dialogue s4 s6 = [LoginRequest s4 s6, ConnectServerRequest 1, LogoutRequest]"

lemma continues_dialogue:
  assumes "continues\<^sup>*\<^sup>* [LoginRequest s4 s6] hs"
  shows "hs \<in> {take 1 (dialogue s4 s6), take 2 (dialogue s4 s6), dialogue s4 s6}"
  using assms
  by induction (auto simp: continues_def dialogue_def follow_up_def)

text \<open>The client has called \<open>SendLoginRequest\<close>; the server has just accepted it.\<close>

definition dialogue_start ::
  "('w \<Rightarrow> byte list) \<Rightarrow> 'w os \<Rightarrow> byte list \<Rightarrow> byte list \<Rightarrow> ('w, 'v) system \<Rightarrow> bool" where
  "dialogue_start sent os s4 s6 S \<longleftrightarrow>
     (\<exists>s w. clean_client s \<and> acc (cs_receiver s) = [] \<and> sent w = [] \<and>
        clt_SendLoginRequest os s4 s6 s w = Some (Inr (), sys_client S, sys_cw S)) \<and>
     sys_up S = sent (sys_cw S) \<and> sys_down S = [] \<and> send_queue (sys_sender S) = [] \<and>
     sys_ext S = new_server_ext"

lemma dialogue_start_talk:
  assumes "dialogue_start sent os s4 s6 S" and "client_packet_ok (LoginRequest s4 s6)" and "eager_transport os sent"
  shows "talk sent [LoginRequest s4 s6] S"
proof -
  let ?q = "LoginRequest s4 s6"
  obtain s w where s: "clean_client s" "acc (cs_receiver s) = []" "sent w = []"
    "send_request os ?q s w = Some (Inr (), sys_client S, sys_cw S)"
    using assms(1) by (auto simp: dialogue_start_def send_request_def)
  then have c: "clean_client (sys_client S)" "cs_receiver (sys_client S) = cs_receiver s"
    "sent (sys_cw S) = request_frame ?q"
    using send_request_eager [OF assms(3) s(1) assms(2), of w] by auto
  have "talk sent ([] @ [?q]) S"
    by (rule talk.asking) (use assms(1,2) c s(2) frame_not_Nil [of "client_packet_bytes ?q"] in
        \<open>simp_all add: dialogue_start_def sys_ok_def new_server_ext_def del: client_packet_bytes.simps\<close>)
  then show ?thesis by simp
qed

text \<open>Whatever part of the bytes under way is received next, receiving it is defined and does not throw.\<close>

definition receives_safely ::
  "(out_item list \<Rightarrow> 'w \<Rightarrow> 'w) \<Rightarrow> 'w os \<Rightarrow> 'v os \<Rightarrow> session_ref \<Rightarrow> ('w, 'v) system \<Rightarrow> bool" where
  "receives_safely cout os_c os_s r S \<longleftrightarrow>
     (\<forall>c rest. c \<noteq> [] \<and> sys_up S = c @ rest \<longrightarrow>
        (\<exists>u v. srv_on_receive_packet os_s (Some r) c (of_nat (length c)) (sys_sender S, sys_ext S) (sys_sw S) =
          Some (Inr (), u, v))) \<and>
     (\<forall>c rest. c \<noteq> [] \<and> sys_down S = c @ rest \<longrightarrow>
        (\<exists>s w. read_chunk (clt_on_packet cout os_c) c (of_nat (length c)) (sys_client S) (sys_cw S) =
          Some (Inr (), s, w)))"

lemma quiet_talk:
  assumes "talk sent hs S" and "quiet S"
  shows "hs \<noteq> [] \<and> follow_up (last hs) = None \<and> sys_ok sent hs hs S"
  using assms by cases (auto simp: quiet_def)


lemma accepting_eager: "eager_transport accepting_os id"
proof -
  have "word_of_nat (min (unat len) 100) \<noteq> (- 1 :: s32) \<and> word_of_nat (min (unat len) 100) \<noteq> (0 :: s32)"
    if "0 < unat len" for len :: s32
  proof -
    have n: "unat (word_of_nat (min (unat len) 100) :: s32) = min (unat len) 100"
      by (rule unat_of_nat_small) simp
    have m: "unat (- 1 :: s32) = 4294967295"
      by (simp add: unsigned_minus_1_eq_mask mask_eq_exp_minus_1)
    have "x \<noteq> - 1 \<and> x \<noteq> 0" if "unat x = min (unat len) 100" for x :: s32
    proof
      show "x \<noteq> - 1" using that m by auto
      show "x \<noteq> 0" using that \<open>0 < unat len\<close> by auto
    qed
    then show ?thesis using n by blast
  qed
  then show ?thesis
    using accepting_contract by (simp add: eager_transport_def accepting_os_def)
qed


end
