(* ===== verification/Acceptor.thy ===== *)
theory Acceptor
  imports Socket_Session
begin

text \<open>
  \<open>lib/iocplib/acceptor.h\<close> and \<open>server_base.h\<close>: the class templates \<open>AcceptSocket\<close>,
  \<open>Acceptor\<close> and \<open>ServerBase\<close>.  \<open>AcceptSocket\<close>s are the entries of \<open>accept_sockets_\<close>; each
  is modelled by its \<open>socket_\<close> (\<open>None\<close> while null), and a completion names it by index.
  \<open>ext\<close> is the state a default-constructed derived session has.  Fresh addresses for the
  overlapped contexts of new sessions are counted by \<open>acc_next\<close>.  The remote address that
  \<open>GetRemoteAddr\<close> reads is passed on but never used by \<open>OnAccept\<close>, and is left out.
\<close>

section \<open>State\<close>

record 'a acceptor =
  acc_port :: "io_port option"            \<comment> \<open>\<open>io_completion_port_\<close>, \<open>None\<close> after \<open>Close\<close>\<close>
  listen_socket :: win_sock
  opened :: bool
  accept_sockets :: "'a session option list"
  sockets :: "'a session list"
  acc_next :: nat

definition new_acceptor :: "'a acceptor" where
  "new_acceptor = \<lparr>acc_port = Some new_port, listen_socket = ws_new, opened = False,
     accept_sockets = [], sockets = [], acc_next = 0\<rparr>"

abbreviation (input) kAddressBufferSize :: nat where "kAddressBufferSize \<equiv> 16 + 16"

section \<open>\<open>AcceptSocket\<close>\<close>

text \<open>
  \<open>PostAccept\<close>: a new session object with a fresh socket replaces \<open>socket_\<close>; \<open>Create\<close> may
  throw; every error of \<open>AcceptEx\<close> is ignored.  The result has the new \<open>socket_\<close>.
\<close>

definition post_accept ::
  "'w os \<Rightarrow> 'a \<Rightarrow> SOCKET \<Rightarrow> nat \<Rightarrow> ovptr \<Rightarrow> 'w \<Rightarrow> (win_sock_exception + unit) \<times> 'a session \<times> 'w" where
  "post_accept os ext listen ctx self w =
     (let s = new_session ext ctx (Suc ctx) in
      case ws_create os AF_INET SOCK_STREAM 0 (ses_sock s) w of
        (Inl e, sock, w) \<Rightarrow> (Inl e, s\<lparr>ses_sock := sock\<rparr>, w)
      | (Inr _, sock, w) \<Rightarrow>
          let (ok, w) = os_accept_ex os listen (handle sock) self w
          in (Inr (), s\<lparr>ses_sock := sock\<rparr>, w))"

definition accept_socket_on_accept ::
  "'w os \<Rightarrow> SOCKET \<Rightarrow> 'a session \<Rightarrow> 'w \<Rightarrow> (unit, 'a session, 'w) method_result" where
  "accept_socket_on_accept os listen s w =
     (let (r, sock, w) = ws_set_accept os listen (ses_sock s) w in (r, s\<lparr>ses_sock := sock\<rparr>, w))"

section \<open>\<open>Acceptor\<close>\<close>

text \<open>The loop of \<open>Open\<close> that posts \<open>accepts\<close> accept operations.\<close>

fun open_accepts ::
  "'w os \<Rightarrow> 'a \<Rightarrow> nat \<Rightarrow> 'a acceptor \<Rightarrow> 'w \<Rightarrow> (unit, 'a acceptor, 'w) method_result" where
  "open_accepts os ext 0 a w = (Inr (), a, w)"
| "open_accepts os ext (Suc n) a w =
     (case post_accept os ext (handle (listen_socket a)) (acc_next a) (Some (length (accept_sockets a))) w of
        (Inl e, s, w) \<Rightarrow> (Inl e, a\<lparr>acc_next := acc_next a + 2\<rparr>, w)
      | (Inr _, s, w) \<Rightarrow> open_accepts os ext n
          (a\<lparr>accept_sockets := accept_sockets a @ [Some s], acc_next := acc_next a + 2\<rparr>) w)"

definition open_listen ::
  "'w os \<Rightarrow> sockaddr_in \<Rightarrow> s32 \<Rightarrow> win_sock \<Rightarrow> 'w \<Rightarrow> (unit, win_sock, 'w) method_result" where
  "open_listen os addr backlog l w =
     (case ws_create os AF_INET SOCK_STREAM 0 l w of
        (Inl e, l, w) \<Rightarrow> (Inl e, l, w)
      | (Inr _, l, w) \<Rightarrow>
          (case ws_bind os addr 16 l w of
             (Inl e, l, w) \<Rightarrow> (Inl e, l, w)
           | (Inr _, l, w) \<Rightarrow> ws_listen os backlog l w))"

definition acceptor_open ::
  "'w os \<Rightarrow> 'a \<Rightarrow> u32 \<Rightarrow> sockaddr_in \<Rightarrow> s32 \<Rightarrow> nat \<Rightarrow> 'a acceptor \<Rightarrow> 'w \<Rightarrow>
   (bool, 'a acceptor, 'w) method_result option" where
  "acceptor_open os ext io_thread addr backlog accepts a w = do {
     port \<leftarrow> acc_port a;
     (let (ok, port, w) = iocp_create os io_thread port w; a = a\<lparr>acc_port := Some port\<rparr> in
      if \<not> ok then Some (Inr False, a, w)
      else
        (case open_listen os addr backlog (listen_socket a) w of
           (Inl e, l, w) \<Rightarrow> Some (Inl e, a\<lparr>listen_socket := l\<rparr>, w)
         | (Inr _, l, w) \<Rightarrow>
             let (port, w) = iocp_attach os (handle l) port w;
                 a = a\<lparr>listen_socket := l, acc_port := Some port\<rparr>
             in (case open_accepts os ext accepts a w of
                   (Inl e, a, w) \<Rightarrow> Some (Inl e, a, w)
                 | (Inr _, a, w) \<Rightarrow> Some (Inr True, a\<lparr>opened := True\<rparr>, w))))
   }"

text \<open>\<open>OnAccept\<close>: the session is attached and remembered; it may throw.\<close>

definition acceptor_on_accept ::
  "'w os \<Rightarrow> dword \<Rightarrow> 'a session \<Rightarrow> 'a acceptor \<Rightarrow> 'w \<Rightarrow>
   (unit, 'a session \<times> 'a acceptor, 'w) method_result option" where
  "acceptor_on_accept os dwError s a w =
     (if dwError \<noteq> 0 then Some (Inr (), (s, a), w)
      else do {
        port \<leftarrow> acc_port a;
        (r, s, port, w) \<leftarrow> session_on_accept os port s w;
        let a = a\<lparr>acc_port := Some port\<rparr>;
        (case r of
           Inl e \<Rightarrow> Some (Inl e, (s, a), w)
         | Inr _ \<Rightarrow> Some (Inr (), (s, a\<lparr>sockets := sockets a @ [s]\<rparr>), w))
      })"

text \<open>
  \<open>OnCompleteOverlappedIO\<close> for the \<open>AcceptSocket\<close> number \<open>i\<close>: exceptions of the acceptance
  are swallowed; the following \<open>PostAccept\<close> is outside the \<open>try\<close> and its exception escapes.
\<close>

definition acceptor_on_complete ::
  "'w os \<Rightarrow> 'a \<Rightarrow> nat \<Rightarrow> dword \<Rightarrow> 'a acceptor \<Rightarrow> 'w \<Rightarrow> (unit, 'a acceptor, 'w) method_result option" where
  "acceptor_on_complete os ext i dwError a w =
     (if i < length (accept_sockets a) then do {
        (a, w) \<leftarrow>
          (if dwError = 0 then do {
             s \<leftarrow> accept_sockets a ! i;
             (case accept_socket_on_accept os (handle (listen_socket a)) s w of
                (Inl e, s, w) \<Rightarrow> Some (a, w)
              | (Inr _, s, w) \<Rightarrow> do {
                  (r, (s, a), w) \<leftarrow> acceptor_on_accept os 0 s a w;
                  Some (a, w)
                })
           }
           else Some (a, w));
        (case post_accept os ext (handle (listen_socket a)) (acc_next a) (Some i) w of
           (r, s, w) \<Rightarrow>
             Some (r, a\<lparr>accept_sockets := (accept_sockets a)[i := Some s], acc_next := acc_next a + 2\<rparr>, w))
      }
      else None)"

text \<open>
  \<open>Close\<close>.  \<open>obs\<close> gives the values that the waiting loop of the port's \<open>Close\<close> reads from
  the counter; \<open>Hangs\<close> is a call that never returns, \<open>None\<close> a null port, a failed assertion
  of \<open>Detach\<close> or a failed assertion of \<open>closesocket\<close>.
\<close>

datatype 'b close_result = Hangs | Closed 'b

definition close_detach :: "'a acceptor \<Rightarrow> io_port option" where
  "close_detach a = do {
     port \<leftarrow> acc_port a;
     (if opened a then iocp_detach port else Some port)
   }"

definition acceptor_close ::
  "'w os \<Rightarrow> (nat \<Rightarrow> u32) \<Rightarrow> 'a acceptor \<Rightarrow> 'w \<Rightarrow> ('a acceptor \<times> 'w) close_result option" where
  "acceptor_close os obs a w = do {
     port \<leftarrow> close_detach a;
     (case close_wait obs 0 of
        None \<Rightarrow> Some Hangs
      | Some _ \<Rightarrow>
          let w = close_post os port w in
          do {
            (l, w) \<leftarrow> ws_close os (listen_socket a) w;
            Some (Closed (a\<lparr>acc_port := None, listen_socket := l, opened := False\<rparr>, w))
          })
   }"

section \<open>\<open>ServerBase\<close>\<close>

definition htons :: "u16 \<Rightarrow> u16" where
  "htons x = of_nat (le_nat (rev (le_bytes 2 (unat x))))"

definition server_addr :: "u16 \<Rightarrow> sockaddr_in" where
  "server_addr port = \<lparr>sin_family = 2, sin_port = htons port, sin_addr = 0\<rparr>"

definition server_open ::
  "'w os \<Rightarrow> 'a \<Rightarrow> u16 \<Rightarrow> u32 \<Rightarrow> 'a acceptor \<Rightarrow> 'w \<Rightarrow> (bool, 'a acceptor, 'w) method_result option" where
  "server_open os ext port io_thread a w =
     acceptor_open os ext io_thread (server_addr port) SOMAXCONN 1 a w"

definition server_close ::
  "'w os \<Rightarrow> (nat \<Rightarrow> u32) \<Rightarrow> 'a acceptor option \<Rightarrow> 'w \<Rightarrow> ('a acceptor option \<times> 'w) close_result option" where
  "server_close os obs acc w =
     (case acc of
        None \<Rightarrow> Some (Closed (None, w))
      | Some a \<Rightarrow> do {
          r \<leftarrow> acceptor_close os obs a w;
          (case r of Hangs \<Rightarrow> Some Hangs | Closed (a, w) \<Rightarrow> Some (Closed (Some a, w)))
        })"

section \<open>The counter of attached sockets\<close>

text \<open>Attaching a socket always succeeds (documented for a fresh socket and a valid port).\<close>

definition attach_succeeds :: "'w os \<Rightarrow> bool" where
  "attach_succeeds os \<longleftrightarrow> (\<forall>h p w. fst (os_attach_iocp os h p w) \<noteq> 0)"

lemma iocp_attach_counts:
  assumes "attach_succeeds os" and "iocp_attach os h p w = (p', w')"
  shows "p' = p\<lparr>io_attached := io_attached p + 1\<rparr>"
  using assms unfolding attach_succeeds_def iocp_attach_def
  by (auto simp: Let_def split: prod.splits if_splits) (metis fst_conv)

text \<open>The invariant: the counter is the listening socket plus the accepted sessions.\<close>

definition attached_inv :: "'a acceptor \<Rightarrow> bool" where
  "attached_inv a \<longleftrightarrow>
     (\<exists>p. acc_port a = Some p \<and>
        io_attached p = (if opened a then 1 else 0) + of_nat (length (sockets a)))"

definition acceptor_ok :: "'a acceptor \<Rightarrow> bool" where
  "acceptor_ok a \<longleftrightarrow> attached_inv a \<and> opened a \<and> None \<notin> set (accept_sockets a)"

lemma session_on_accept_attach:
  assumes "attach_succeeds os" and "session_on_accept os port s w = Some (r, s', port', w')"
  shows "port' = (if isl r then port else port\<lparr>io_attached := io_attached port + 1\<rparr>)"
proof (rule session_on_accept_cases [of os s w port])
  fix t port1 v' v error
  assume a: "session_on_accept os port s w = Some (Inr (), t, port1, v')"
    and at: "(port1, v) = iocp_attach os (handle (ses_sock s)) port (snd (snd (ws_set_nagle os False
         (ses_sock s) (snd (snd (ws_set_non_blocking os True (ses_sock s) w))))))"
  show ?thesis
    using iocp_attach_counts [OF assms(1) at [symmetric]] a assms(2) by auto
qed (use assms(2) in auto)

lemma acceptor_on_accept_inv:
  assumes "attach_succeeds os" and "attached_inv a"
    and "acceptor_on_accept os 0 s a w = Some (r, (s', a'), w')"
  shows "attached_inv a' \<and> opened a' = opened a \<and> accept_sockets a' = accept_sockets a \<and>
    listen_socket a' = listen_socket a"
proof -
  obtain p where p: "acc_port a = Some p"
    "io_attached p = (if opened a then 1 else 0) + of_nat (length (sockets a))"
    using assms(2) by (auto simp: attached_inv_def)
  obtain r1 s1 p1 w1 where on: "session_on_accept os p s w = Some (r1, s1, p1, w1)"
    using session_on_accept_defined [of os p s w] by auto
  show ?thesis
    using assms(3) p on session_on_accept_attach [OF assms(1) on]
    by (auto simp: acceptor_on_accept_def attached_inv_def Let_def split: sum.splits)
qed

lemma acceptor_on_accept_defined:
  assumes "attached_inv a"
  shows "acceptor_on_accept os e s a w \<noteq> None"
proof -
  obtain p where p: "acc_port a = Some p"
    using assms by (auto simp: attached_inv_def)
  show ?thesis
    using session_on_accept_defined [of os p s w] p
    by (auto simp: acceptor_on_accept_def Let_def split: sum.splits)
qed

lemma attached_inv_update [simp]:
  "attached_inv (a\<lparr>accept_sockets := x, acc_next := y\<rparr>) = attached_inv a"
  by (simp add: attached_inv_def)

lemma set_update_not_None: "None \<notin> set xs \<Longrightarrow> None \<notin> set (xs[i := Some s])"
  using set_update_subset_insert [of xs i "Some s"] by auto

lemma acceptor_on_complete_ok:
  assumes "attach_succeeds os" and "acceptor_ok a" and "i < length (accept_sockets a)"
  obtains r a' w' where "acceptor_on_complete os ext i e a w = Some (r, a', w')" and "acceptor_ok a'"
    and "length (accept_sockets a') = length (accept_sockets a)"
proof -
  have inv: "attached_inv a" and op: "opened a" and none: "None \<notin> set (accept_sockets a)"
    using assms(2) by (simp_all add: acceptor_ok_def)
  have "accept_sockets a ! i \<noteq> None"
    using none nth_mem [OF assms(3)] by metis
  then obtain s where s: "accept_sockets a ! i = Some s"
    by auto
  have step: "\<exists>r a' w'. Some (case post_accept os ext (handle (listen_socket b)) (acc_next b) (Some i) v of
        (r, s, w) \<Rightarrow> (r, b\<lparr>accept_sockets := (accept_sockets b)[i := Some s], acc_next := acc_next b + 2\<rparr>, w))
        = Some (r, a', w') \<and> acceptor_ok a' \<and> length (accept_sockets a') = length (accept_sockets a)"
    if "attached_inv b" "opened b" "accept_sockets b = accept_sockets a" for b v
    using that none by (auto simp: acceptor_ok_def set_update_not_None split: prod.splits)
  show thesis
  proof (cases "e = 0")
    case False
    then show thesis
      using step [OF inv op, of w] that assms(3)
      by (auto simp: acceptor_on_complete_def split: prod.splits)
  next
    case True
    obtain r1 s1 w1 where acc: "accept_socket_on_accept os (handle (listen_socket a)) s w = (r1, s1, w1)"
      by (metis prod_cases3)
    show thesis
    proof (cases r1)
      case (Inl x)
      then show thesis
        using step [OF inv op, of w1] that assms(3) True s acc
        by (auto simp: acceptor_on_complete_def split: prod.splits)
    next
      case (Inr x)
      obtain r2 s2 a2 w2 where on: "acceptor_on_accept os 0 s1 a w1 = Some (r2, (s2, a2), w2)"
        using acceptor_on_accept_defined [OF inv, of os 0 s1 w1] by auto
      note a2 = acceptor_on_accept_inv [OF assms(1) inv on]
      show thesis
        using step [of a2 w2] that assms(3) True s acc Inr on a2 op
        by (auto simp: acceptor_on_complete_def split: prod.splits)
    qed
  qed
qed

lemma open_accepts_ok:
  assumes "open_accepts os ext n a w = (Inr (), a', w')" and "None \<notin> set (accept_sockets a)"
  shows "None \<notin> set (accept_sockets a') \<and> acc_port a' = acc_port a \<and> sockets a' = sockets a \<and>
    length (accept_sockets a') = length (accept_sockets a) + n \<and> opened a' = opened a"
  using assms by (induction n arbitrary: a w) (auto split: prod.splits sum.splits)

lemma open_accepts_port:
  assumes "open_accepts os ext n a w = (r, a', w')"
  shows "acc_port a' = acc_port a \<and> opened a' = opened a \<and> listen_socket a' = listen_socket a"
  using assms by (induction n arbitrary: a w) (auto split: prod.splits sum.splits)

lemma acceptor_open_ok:
  assumes "attach_succeeds os"
    and "acceptor_open os ext io_thread addr backlog n new_acceptor w = Some (Inr True, a, w')"
  shows "acceptor_ok a \<and> length (accept_sockets a) = n \<and> sockets a = []"
proof -
  obtain ok port w1 where cr0: "iocp_create os io_thread new_port w = (ok, port, w1)"
    by (metis prod_cases3)
  have ok
    by (rule ccontr) (use assms(2) cr0 in \<open>simp add: acceptor_open_def new_acceptor_def Let_def\<close>)
  with cr0 have cr: "iocp_create os io_thread new_port w = (True, port, w1)"
    by simp
  have zero: "io_attached port = 0"
    using cr by (auto simp: iocp_create_def new_port_def Let_def split: prod.splits if_splits)
  obtain r l w2 where li: "open_listen os addr backlog ws_new w1 = (r, l, w2)"
    by (metis prod_cases3)
  obtain port' w3 where at: "iocp_attach os (handle l) port w2 = (port', w3)"
    by force
  let ?a = "new_acceptor\<lparr>acc_port := Some port', listen_socket := l\<rparr>"
  obtain r' a' w4 where oa: "open_accepts os ext n ?a w3 = (r', a', w4)"
    by (metis prod_cases3)
  have a: "r' = Inr ()" "a = a'\<lparr>opened := True\<rparr>"
    using assms(2) cr li at oa
    by (auto simp: acceptor_open_def new_acceptor_def Let_def split: sum.splits)
  have "io_attached port' = 1"
    using iocp_attach_counts [OF assms(1) at] zero by simp
  then show ?thesis
    using open_accepts_ok [OF oa [unfolded a(1)]] a(2)
    by (auto simp: new_acceptor_def acceptor_ok_def attached_inv_def)
qed

section \<open>Runs of an open acceptor\<close>

text \<open>Completions of the accept operations, the world changing in between.\<close>

inductive accept_run :: "'w os \<Rightarrow> 'a \<Rightarrow> 'a acceptor \<Rightarrow> 'a acceptor \<Rightarrow> bool" for os ext where
  accept_refl: "accept_run os ext a a"
| accept_step: "accept_run os ext a b \<Longrightarrow> i < length (accept_sockets b) \<Longrightarrow>
    acceptor_on_complete os ext i e b w = Some (Inr (), c, w') \<Longrightarrow> accept_run os ext a c"

lemma accept_run_ok:
  assumes "attach_succeeds os"
  shows "accept_run os ext a b \<Longrightarrow> acceptor_ok a \<Longrightarrow>
    acceptor_ok b \<and> length (accept_sockets b) = length (accept_sockets a)"
proof (induction rule: accept_run.induct)
  case (accept_refl a)
  then show ?case by simp
next
  case (accept_step a b i e w c w')
  then have b: "acceptor_ok b" "length (accept_sockets b) = length (accept_sockets a)"
    by simp_all
  show ?case
    by (rule acceptor_on_complete_ok [OF assms b(1) accept_step.hyps(2), of ext e w])
       (use accept_step.hyps(3) b(2) in simp)
qed

lemma open_then_run_ok:
  assumes "attach_succeeds os"
    and "acceptor_open os ext io_thread addr backlog n new_acceptor w = Some (Inr True, a0, w')"
    and "accept_run os ext a0 a"
  shows "acceptor_ok a \<and> length (accept_sockets a) = n"
  using accept_run_ok [OF assms(1,3)] acceptor_open_ok [OF assms(1,2)] by simp

lemma acceptor_ok_counter:
  assumes "acceptor_ok a"
  obtains p where "acc_port a = Some p" and "io_attached p = 1 + of_nat (length (sockets a))"
    and "length (sockets a) < 2 ^ 32 - 1 \<Longrightarrow>
      close_detach a = Some (p\<lparr>io_attached := of_nat (length (sockets a))\<rparr>)"
proof -
  from assms obtain p where p: "acc_port a = Some p" "io_attached p = 1 + of_nat (length (sockets a))"
    and op: "opened a"
    by (auto simp: acceptor_ok_def attached_inv_def)
  have "0 < io_attached p" if "length (sockets a) < 2 ^ 32 - 1"
  proof -
    have "unat (1 + of_nat (length (sockets a)) :: u32) = 1 + length (sockets a)"
      using that unat_of_nat_small [where 'a = 32, of "1 + length (sockets a)"] by simp
    then show ?thesis
      using p(2) by (metis add_is_0 one_neq_zero unat_0 word_gt_0)
  qed
  then show thesis
    using that [OF p] p op by (simp add: close_detach_def iocp_detach_def)
qed

section \<open>Instances\<close>

text \<open>An acceptor opened in the concrete world, before and after one connection.\<close>

definition sample_acceptor :: "'a \<Rightarrow> bool list \<Rightarrow> 'a acceptor" where
  "sample_acceptor ext ws = \<lparr>acc_port = Some \<lparr>io_handle = 5, io_workers = ws, io_attached = 1\<rparr>,
     listen_socket = \<lparr>handle = 7\<rparr>, opened = True,
     accept_sockets = [Some ((new_session ext 0 1)\<lparr>ses_sock := \<lparr>handle = 7\<rparr>\<rparr>)], sockets = [], acc_next = 2\<rparr>"

definition sample_accepted :: "'a \<Rightarrow> bool list \<Rightarrow> 'a acceptor" where
  "sample_accepted ext ws = (sample_acceptor ext ws)\<lparr>acc_port := Some \<lparr>io_handle = 5, io_workers = ws, io_attached = 2\<rparr>,
     accept_sockets := [Some ((new_session ext 2 3)\<lparr>ses_sock := \<lparr>handle = 7\<rparr>\<rparr>)],
     sockets := [(new_session ext 0 1)\<lparr>ses_sock := \<lparr>handle = 7\<rparr>, ses_iocp := True, ses_bound := True,
        ses_receiver := (new_session_receiver 0)\<lparr>zero_byte_recv := True\<rparr>\<rparr>],
     acc_next := 4\<rparr>"

lemma sample_attach: "attach_succeeds (queue_os\<lparr>os_attach_iocp := (\<lambda>s h w. (5, w))\<rparr>)"
  by (simp add: attach_succeeds_def)

lemmas sample_simps = queue_os_def iocp_create_def new_port_def open_listen_def ws_create_def ws_new_def
  ws_bind_def ws_listen_def iocp_attach_def post_accept_def new_acceptor_def new_session_def

abbreviation (input) "sample_world \<equiv> queue_os\<lparr>os_attach_iocp := (\<lambda>s h w. (5, w))\<rparr>"

lemma sample_open:
  assumes "unat (if n = 0 then 8 else n) = length ws" and "set ws \<subseteq> {True}"
  shows "acceptor_open sample_world ext n (server_addr 4000) SOMAXCONN 1 new_acceptor [] =
     Some (Inr True, sample_acceptor ext ws, [])"
proof -
  have "replicate (unat (if n = 0 then 8 else n)) True = ws"
    using assms by (simp add: list_eq_iff_nth_eq subset_iff) (metis nth_mem)
  then show ?thesis
    by (cases "n = 0") (simp_all add: acceptor_open_def sample_acceptor_def sample_simps Let_def)
qed

lemma sample_open1:
  "acceptor_open sample_world ext 1 (server_addr 4000) SOMAXCONN 1 new_acceptor [] =
     Some (Inr True, sample_acceptor ext [True], [])"
  by (rule sample_open) simp_all

lemma sample_run0: "accept_run sample_world ext (sample_acceptor ext ws) (sample_acceptor ext ws)"
  by (rule accept_refl)

lemma sample_step:
  "acceptor_on_complete sample_world ext 0 0 (sample_acceptor ext ws) [] =
     Some (Inr (), sample_accepted ext ws, [])"
  by (simp add: acceptor_on_complete_def accept_socket_on_accept_def ws_set_accept_def ws_setsockopt_def
      acceptor_on_accept_def session_on_accept_def ws_set_non_blocking_def ws_set_nagle_def
      session_lock_def get_iocp_handle_def begin_receive_def new_session_receiver_def
      sample_acceptor_def sample_accepted_def sample_simps Let_def)

lemma sample_run1: "accept_run sample_world ext (sample_acceptor ext ws) (sample_accepted ext ws)"
  by (rule accept_step [OF sample_run0 _ sample_step]) (simp add: sample_acceptor_def)

section \<open>Properties\<close>



lemma server_close_hangs:
  assumes "attach_succeeds os"
    and "acceptor_open os ext io_thread addr backlog n new_acceptor w = Some (Inr True, a0, w')"
    and "accept_run os ext a0 a"
    and "sockets a \<noteq> []" and "length (sockets a) < 2 ^ 32 - 1"
    and "\<And>k. (of_nat (length (sockets a)) :: u32) \<le> obs k"
  shows "server_close os obs (Some a) v = Some Hangs"
proof -
  have "acceptor_ok a"
    using open_then_run_ok [OF assms(1-3)] by simp
  from acceptor_ok_counter [OF this] obtain p where
    p: "close_detach a = Some (p\<lparr>io_attached := of_nat (length (sockets a))\<rparr>)"
    using assms(5) by metis
  have "unat (of_nat (length (sockets a)) :: u32) = length (sockets a)"
    using assms(5) by (simp add: unat_of_nat_small)
  then have pos: "0 < (of_nat (length (sockets a)) :: u32)"
    using assms(4) by (metis length_0_conv unat_0 word_gt_0)
  then have "0 < obs k" for k
    using assms(6) by (meson order_less_le_trans)
  then have "close_wait obs 0 = None"
    using close_wait_spins by blast
  then show ?thesis
    using p by (simp add: server_close_def acceptor_close_def)
qed





text \<open>If \<open>Open\<close> throws because creating, binding or listening fails (a port in
  use, for example), nothing was attached and \<open>Close\<close> does not wait; if it throws while it posts
  the accept operations, the listening socket has been attached but \<open>opened_\<close> is not set, so
  \<open>Close\<close> does not detach it and spins for ever.\<close>

theorem failed_open_close_behaviour:
  assumes "attach_succeeds os"
    and "acceptor_open os ext io_thread addr backlog n new_acceptor w = Some (Inl e, a, w')"
    and "acc_port a = Some p" and "\<And>k. obs k = io_attached p"
  shows "acceptor_close os obs a v = Some Hangs \<longleftrightarrow>
    \<not> isl (fst (open_listen os addr backlog ws_new (snd (snd (iocp_create os io_thread new_port w)))))"
proof -
  obtain ok port w1 where cr0: "iocp_create os io_thread new_port w = (ok, port, w1)"
    by (metis prod_cases3)
  have ok
    by (rule ccontr) (use assms(2) cr0 in \<open>simp add: acceptor_open_def new_acceptor_def Let_def\<close>)
  with cr0 have cr: "iocp_create os io_thread new_port w = (True, port, w1)"
    by simp
  have zero: "io_attached port = 0"
    using cr by (auto simp: iocp_create_def new_port_def Let_def split: prod.splits if_splits)
  obtain r l w2 where li: "open_listen os addr backlog ws_new w1 = (r, l, w2)"
    by (metis prod_cases3)
  show ?thesis
  proof (cases r)
    case (Inl x)
    then have "p = port" "\<not> opened a"
      using assms(2,3) cr li by (auto simp: acceptor_open_def new_acceptor_def Let_def)
    then have "close_detach a = Some port" and "close_wait obs 0 = Some 0"
      using assms(3,4) zero close_wait_zero by (simp_all add: close_detach_def)
    then have "acceptor_close os obs a v \<noteq> Some Hangs"
      by (auto simp: acceptor_close_def Let_def split: bind_splits)
    then show ?thesis
      using cr li Inl by simp
  next
    case (Inr x)
    obtain port' w3 where at: "iocp_attach os (handle l) port w2 = (port', w3)"
      by force
    obtain r' a' w4 where
      oa: "open_accepts os ext n (new_acceptor\<lparr>acc_port := Some port', listen_socket := l\<rparr>) w3 = (r', a', w4)"
      by (metis prod_cases3)
    have a: "a = a'"
      using assms(2) cr li Inr at oa
      by (auto simp: acceptor_open_def new_acceptor_def Let_def split: sum.splits)
    have "acc_port a = Some port'" and "\<not> opened a"
      using open_accepts_port [OF oa] a by (simp_all add: new_acceptor_def)
    moreover have "io_attached port' = 1"
      using iocp_attach_counts [OF assms(1) at] zero by simp
    ultimately have "close_detach a = Some p" and "close_wait obs 0 = None"
      using assms(3,4) by (auto simp: close_detach_def intro: close_wait_spins)
    then show ?thesis
      using cr li Inr by (simp add: acceptor_close_def)
  qed
qed

theorem failed_open_close_behaviour_sample:
  "\<exists>a w'. acceptor_open (sample_world\<lparr>os_bind := (\<lambda>s addr len w. (SOCKET_ERROR, w))\<rparr>) () 1 (server_addr 4000)
      SOMAXCONN 1 new_acceptor [] = Some (Inl (WinSockException ''failed to bind socket'' 0), a, w') \<and>
    acceptor_close (sample_world\<lparr>os_bind := (\<lambda>s addr len w. (SOCKET_ERROR, w))\<rparr>) (\<lambda>k. 0) a w' \<noteq> Some Hangs"
proof -
  let ?os = "sample_world\<lparr>os_bind := (\<lambda>s addr len w. (SOCKET_ERROR, w))\<rparr>"
  let ?a = "(new_acceptor :: unit acceptor)\<lparr>acc_port := Some \<lparr>io_handle = 5, io_workers = [True], io_attached = 0\<rparr>,
     listen_socket := \<lparr>handle = 7\<rparr>\<rparr>"
  have op: "acceptor_open ?os () 1 (server_addr 4000) SOMAXCONN 1 new_acceptor [] =
      Some (Inl (WinSockException ''failed to bind socket'' 0), ?a, [])"
    by (simp add: acceptor_open_def sample_simps Let_def)
  have att: "attach_succeeds ?os"
    by (simp add: attach_succeeds_def)
  have "acceptor_close ?os (\<lambda>k. 0) ?a [] \<noteq> Some Hangs"
    using failed_open_close_behaviour [OF att op, of "\<lparr>io_handle = 5, io_workers = [True], io_attached = 0\<rparr>" "\<lambda>k. 0" "[]"]
    by (simp add: sample_simps)
  then show ?thesis using op by blast
qed

end
