(* ===== verification/Example_Main.thy ===== *)
theory Example_Main
  imports Example_Dialogue Acceptor
begin

text \<open>
  The two programs: \<open>main\<close> and \<open>SignalHandler\<close> of \<open>examples/server/main.cpp\<close> and \<open>main\<close> of
  \<open>examples/client/client.cpp\<close>.  What other threads do while \<open>main\<close> waits is a parameter;
  \<open>Hangs\<close> is a program that never ends, an exception on the left one that no one catches.
\<close>

section \<open>The server\<close>

abbreviation (input) SIGINT :: s32 where "SIGINT \<equiv> 2"
abbreviation (input) SIGTERM :: s32 where "SIGTERM \<equiv> 15"

text \<open>The new value of \<open>g_running\<close>.\<close>

definition signal_handler :: "s32 \<Rightarrow> bool \<Rightarrow> bool" where
  "signal_handler signo go =
     (if signo = SIGTERM then False else if signo = SIGINT then False else go)"

text \<open>The loop around \<open>Sleep\<close>; \<open>go k\<close> is what the \<open>k\<close>-th test of \<open>g_running\<close> reads.\<close>

partial_function (option) wait_signal :: "(nat \<Rightarrow> bool) \<Rightarrow> nat \<Rightarrow> nat option" where
  "wait_signal go k = (if go k then wait_signal go (Suc k) else Some k)"

text \<open>
  \<open>set_signal\<close> is \<open>signal(\<dots>) != SIG_ERR\<close>, \<open>serve\<close> what the workers do with the acceptor
  before \<open>Close\<close>.  The result of \<open>Open\<close> is ignored, as in the code.
\<close>

definition server_main ::
  "'w os \<Rightarrow> (s32 \<Rightarrow> 'w \<Rightarrow> bool \<times> 'w) \<Rightarrow> (server_ext acceptor \<Rightarrow> 'w \<Rightarrow> server_ext acceptor \<times> 'w) \<Rightarrow>
   (nat \<Rightarrow> bool) \<Rightarrow> (nat \<Rightarrow> u32) \<Rightarrow> 'w \<Rightarrow> ((win_sock_exception + s32) \<times> 'w) close_result option" where
  "server_main os set_signal serve go obs w =
     (case wsi_new os w of
        (Inl e, w) \<Rightarrow> Some (Closed (Inl e, w))
      | (Inr _, w) \<Rightarrow>
          let (ok, w) = set_signal SIGTERM w in
          if \<not> ok then Some (Closed (Inr (- 1), wsi_delete os w))
          else
            let (ok, w) = set_signal SIGINT w in
            if \<not> ok then Some (Closed (Inr (- 1), wsi_delete os w))
            else do {
              (r, a, w) \<leftarrow> server_open os new_server_ext 4000 0 new_acceptor w;
              (case r of
                 Inl e \<Rightarrow> Some (Closed (Inl e, w))
               | Inr _ \<Rightarrow>
                   (case wait_signal go 0 of
                      None \<Rightarrow> Some Hangs
                    | Some _ \<Rightarrow>
                        let (a, w) = serve a w in
                        do {
                          c \<leftarrow> server_close os obs (Some a) w;
                          Some (case c of Hangs \<Rightarrow> Hangs
                            | Closed (_, w) \<Rightarrow> Closed (Inr 0, wsi_delete os w))
                        }))
            })"

text \<open>The example server never ends once it has served a
  connection: with signal handlers installed and \<open>Open\<close> successful, if the workers have
  accepted at least one session, \<open>main\<close> hangs, whether or not \<open>SIGTERM\<close> or \<open>SIGINT\<close> ever
  clears \<open>g_running\<close>.\<close>

theorem server_main_hangs_after_accept:
  assumes "wsi_new os w = (Inr (), w1)" and "set_signal SIGTERM w1 = (True, w2)" and "set_signal SIGINT w2 = (True, w3)"
    and "attach_succeeds os"
    and "server_open os new_server_ext 4000 0 new_acceptor w3 = Some (Inr True, a0, w4)"
    and "serve a0 w4 = (a, w5)" and "accept_run os new_server_ext a0 a"
    and "sockets a \<noteq> []" and "length (sockets a) < 2 ^ 32 - 1"
    and "\<And>k. (of_nat (length (sockets a)) :: u32) \<le> obs k"
  shows "server_main os set_signal serve go obs w = Some Hangs"
proof -
  have "server_close os obs (Some a) w5 = Some Hangs"
    using assms(5) by (intro server_close_hangs [OF assms(4) _ assms(7-10)]) (simp add: server_open_def)
  then show ?thesis
    using assms(1-3,5,6) by (simp add: server_main_def split: option.splits)
qed

theorem server_main_hangs_after_accept_sample:
  "server_main sample_world (\<lambda>_ w. (True, w)) (\<lambda>_ w. (sample_accepted new_server_ext (replicate 8 True), w))
     (\<lambda>k. k < 3) (\<lambda>k. 1) [] = Some Hangs"
proof (rule server_main_hangs_after_accept)
  show "wsi_new sample_world [] = (Inr (), [])"
    by (simp add: wsi_new_def queue_os_def)
  show "attach_succeeds sample_world" by (rule sample_attach)
  show "server_open sample_world new_server_ext 4000 0 new_acceptor [] =
      Some (Inr True, sample_acceptor new_server_ext (replicate 8 True), [])"
    unfolding server_open_def by (rule sample_open) simp_all
  show "accept_run sample_world new_server_ext (sample_acceptor new_server_ext (replicate 8 True))
      (sample_accepted new_server_ext (replicate 8 True))"
    by (rule sample_run1)
qed (simp_all add: sample_accepted_def)

section \<open>The client\<close>

text \<open>
  \<open>pause\<close> is what happens during \<open>system("pause")\<close>, the I/O thread's work included; \<open>addr\<close> is
  the address \<open>InetPton\<close> makes of \<open>127.0.0.1\<close>.  The strings are \<open>"test_id"\<close> and
  \<open>"test_password"\<close>.
\<close>

definition client_main ::
  "'w os \<Rightarrow> 'w ev_os \<Rightarrow> (out_item list \<Rightarrow> 'w \<Rightarrow> 'w) \<Rightarrow> nat \<Rightarrow> u32 \<Rightarrow>
   (client_socket \<Rightarrow> 'w \<Rightarrow> client_socket \<times> 'w) \<Rightarrow> 'w \<Rightarrow> ((win_sock_exception + s32) \<times> 'w) option" where
  "client_main os ev cout self addr pause w =
     (case wsi_new os w of
        (Inl e, w) \<Rightarrow> Some (Inl e, w)
      | (Inr _, w) \<Rightarrow>
          let (s, w) = new_client_socket ev w in
          do {
            (r, s, w) \<leftarrow> client_connect os ev self
              \<lparr>sin_family = 2, sin_port = htons 4000, sin_addr = addr\<rparr> s w;
            (case r of
               Inl e \<Rightarrow> Some (Inl e, w)
             | Inr ok \<Rightarrow>
                 if \<not> ok then Some (Inr 1, wsi_delete os (cout [Text ''failed to connect'', Endl] w))
                 else do {
                   (r, s, w) \<leftarrow> clt_SendLoginRequest os [116, 101, 115, 116, 95, 105, 100]
                     [116, 101, 115, 116, 95, 112, 97, 115, 115, 119, 111, 114, 100] s w;
                   (case r of
                      Inl e \<Rightarrow> Some (Inl e, w)
                    | Inr _ \<Rightarrow>
                        let (s, w) = pause s w in
                        do {
                          (s, w) \<leftarrow> client_close os ev self s w;
                          Some (Inr 0, wsi_delete os w)
                        })
                 })
          })"

lemma send_request_fails:
  assumes "clean_client s" and "client_packet_ok m"
    and "\<And>h d l f v. os_send os h d l f v = (SOCKET_ERROR, failed v)"
    and "\<And>v. os_last_error os (failed v) = err" and "err \<noteq> WSAEWOULDBLOCK"
  shows "\<exists>s'. send_request os m s w = Some (Inl (WinSockException ''failed to send socket'' err), s', failed w)"
proof -
  have b: "allocate (client_packet_bytes m) (of_nat (length (client_packet_bytes m))) = Some (request_frame m)"
    by (rule allocate_frame [OF framable_client_packet [OF assms(2)]])
  show ?thesis
    using assms by (subst send_request_packet [OF assms(2)])
      (simp add: send_packet_def b, subst try_send_packet.simps,
       simp add: clean_client_def send_turn_def ws_send_def Let_def)
qed

text \<open>The client sends its login request right after \<open>Connect\<close>
  on a non-blocking socket, without waiting for the connection: if the connect is merely in
  progress and \<open>send\<close> on the unconnected socket fails with anything but \<open>WSAEWOULDBLOCK\<close> (as
  documented, \<open>WSAENOTCONN\<close>), \<open>main\<close> ends with an uncaught exception.\<close>

theorem login_before_connected_throws:
  assumes "wsi_new os w = (Inr (), w1)" and "new_client_socket ev w1 = (s0, w2)"
    and "client_connect os ev self \<lparr>sin_family = 2, sin_port = htons 4000, sin_addr = addr\<rparr> s0 w2 =
      Some (Inr True, s, w3)"
    and "\<And>h d l f v. os_send os h d l f v = (SOCKET_ERROR, failed v)"
    and "\<And>v. os_last_error os (failed v) = err" and "err \<noteq> WSAEWOULDBLOCK"
  shows "client_main os ev cout self addr pause w =
    Some (Inl (WinSockException ''failed to send socket'' err), failed w3)"
proof -
  have "cs_send_buffers s = cs_send_buffers s0 \<and> cs_sending_size s = cs_sending_size s0 \<and> cs_receiver s = cs_receiver s0"
    using assms(3) by (auto simp: client_connect_def Let_def split: sum.splits prod.splits bind_splits)
  then have "clean_client s"
    using assms(2) by (auto simp: clean_client_def new_client_socket_def split: prod.splits)
  from send_request_fails [OF this _ assms(4-6), of "LoginRequest [116, 101, 115, 116, 95, 105, 100]
      [116, 101, 115, 116, 95, 112, 97, 115, 115, 119, 111, 114, 100]" w3]
  show ?thesis
    using assms(1-3) by (auto simp: client_main_def send_request_def)
qed

text \<open>The connect is in progress (10035) and \<open>send\<close> fails with 10057.\<close>

definition connecting_os :: "(nat \<times> WSAEVENT list) os" where
  "connecting_os = null_os\<lparr>
     os_last_error := (\<lambda>(n, s). if 0 \<in> set s then 10057 else WSAEWOULDBLOCK),
     os_connect := (\<lambda>h a l w. (SOCKET_ERROR, w)),
     os_send := (\<lambda>h d l f (n, s). (SOCKET_ERROR, (n, 0 # s)))\<rparr>"

theorem login_before_connected_throws_sample:
  "\<exists>w. client_main connecting_os event_os (\<lambda>_ w. w) 0 0x100007F (\<lambda>s w. (s, w)) (0, []) =
     Some (Inl (WinSockException ''failed to send socket'' 10057), w)"
proof -
  obtain s0 w2 where s0: "new_client_socket event_os (0, []) = (s0, w2)" "w2 = (1, [])" "it_events (cs_thread s0) = [1]"
    by (auto simp: new_client_socket_def new_io_thread_def event_os_def)
  obtain s w3 where s: "client_connect connecting_os event_os 0
      \<lparr>sin_family = 2, sin_port = htons 4000, sin_addr = 0x100007F\<rparr> s0 w2 = Some (Inr True, s, w3)"
    using s0(2,3) by (simp add: client_connect_def ws_create_def ws_set_non_blocking_def ws_connect_def
        request_register_def push_request_def connecting_os_def null_os_def event_os_def Let_def)
  have "client_main connecting_os event_os (\<lambda>_ w. w) 0 0x100007F (\<lambda>s w. (s, w)) (0, []) =
     Some (Inl (WinSockException ''failed to send socket'' 10057), (\<lambda>(n, s). (n, 0 # s)) w3)"
    by (rule login_before_connected_throws [OF _ s0(1) s])
      (auto simp: wsi_new_def connecting_os_def null_os_def split: prod.splits)
  then show ?thesis by blast
qed

end
