(* ===== verification/Fb_Text.thy ===== *)
theory Fb_Text
  imports Prelude
begin

text \<open>
  \<open>examples/flatbuffers/util.h\<close>, the parts on text: character classes, hexadecimal numbers,
  UTF-8, string escapes, word wrapping and hex dumps.  A \<open>char\<close> is a byte, a \<open>std::string\<close> a
  list of bytes; \<open>None\<close> is a failed assertion or a read past the readable bytes.
\<close>

unbundle bit_operations_syntax

section \<open>Characters\<close>

definition ascii :: "string \<Rightarrow> byte list" where
  "ascii s = map of_char s"

text \<open>\<open>char\<close> is signed; the difference is taken in \<open>int\<close> and compared as \<open>unsigned\<close>.\<close>

definition check_ascii_range :: "byte \<Rightarrow> byte \<Rightarrow> byte \<Rightarrow> bool" where
  "check_ascii_range x a b \<longleftrightarrow>
     (of_int (sint x - sint a) :: u32) \<le> of_int (sint b - sint a)"

definition is_alpha :: "byte \<Rightarrow> bool" where
  "is_alpha c \<longleftrightarrow> check_ascii_range (c AND 0xDF) (0x61 AND 0xDF) (0x7A AND 0xDF)"

definition is_alpha_upper :: "byte \<Rightarrow> bool" where
  "is_alpha_upper c \<longleftrightarrow> check_ascii_range c 0x41 0x5A"

definition is_alpha_char :: "byte \<Rightarrow> byte \<Rightarrow> bool" where
  "is_alpha_char c alpha \<longleftrightarrow> c AND 0xDF = alpha AND 0xDF"

definition is_digit :: "byte \<Rightarrow> bool" where
  "is_digit c \<longleftrightarrow> check_ascii_range c 0x30 0x39"

definition is_xdigit :: "byte \<Rightarrow> bool" where
  "is_xdigit c \<longleftrightarrow> is_digit c \<or> check_ascii_range (c AND 0xDF) (0x61 AND 0xDF) (0x66 AND 0xDF)"

definition is_alnum :: "byte \<Rightarrow> bool" where
  "is_alnum c \<longleftrightarrow> is_alpha c \<or> is_digit c"

text \<open>In the C locale.\<close>

definition char_to_upper :: "byte \<Rightarrow> byte" where
  "char_to_upper c = (if 0x61 \<le> c \<and> c \<le> 0x7A then c - 0x20 else c)"

definition char_to_lower :: "byte \<Rightarrow> byte" where
  "char_to_lower c = (if 0x41 \<le> c \<and> c \<le> 0x5A then c + 0x20 else c)"

section \<open>Hexadecimal numbers\<close>

definition hex_digit :: "nat \<Rightarrow> byte" where
  "hex_digit d = of_nat (if d < 10 then 0x30 + d else 0x37 + d)"

fun hex_digits :: "nat \<Rightarrow> byte list" where
  "hex_digits n = (if n < 16 then [hex_digit n] else hex_digits (n div 16) @ [hex_digit (n mod 16)])"

declare hex_digits.simps [simp del]

definition int_to_string_hex :: "s32 \<Rightarrow> nat \<Rightarrow> byte list option" where
  "int_to_string_hex i xdigits =
     (if sint i < 0 then None
      else let ds = hex_digits (nat (sint i)) in
        Some (replicate (xdigits - length ds) 0x30 @ ds))"

section \<open>UTF-8\<close>

definition utf8_max_bits :: "nat \<Rightarrow> nat" where
  "utf8_max_bits i = 6 + i * 5 + (if i = 0 then 1 else 0)"

text \<open>The bytes \<open>ToUTF8\<close> appends; it returns their number.\<close>

definition to_utf8 :: "u32 \<Rightarrow> byte list option" where
  "to_utf8 ucc =
     (if ucc AND 0x80000000 \<noteq> 0 then None
      else case find (\<lambda>i. ucc < push_bit (utf8_max_bits i) 1) [0..<6] of
          None \<Rightarrow> None
        | Some i \<Rightarrow>
            let remain_bits = i * 6 in
            Some (ucast (push_bit (utf8_max_bits i - remain_bits) 0xFE OR drop_bit remain_bits ucc)
              # map (\<lambda>j. ucast ((drop_bit (j * 6) ucc AND 0x3F) OR 0x80)) (rev [0..<i])))"

text \<open>\<open>FromUTF8\<close>: the code, \<open>None\<close> for the result -1, and the bytes after those parsed.\<close>

fun leading_ones :: "byte list \<Rightarrow> byte \<Rightarrow> nat" where
  "leading_ones [] b = 0"
| "leading_ones (m # ms) b = (if b AND m \<noteq> 0 then Suc (leading_ones ms b) else 0)"

fun utf8_continue :: "nat \<Rightarrow> u32 \<Rightarrow> byte list \<Rightarrow> (u32 option \<times> byte list) option" where
  "utf8_continue 0 ucc bs = Some (Some ucc, bs)"
| "utf8_continue (Suc n) ucc [] = None"
| "utf8_continue (Suc n) ucc (b # bs) =
     (if b AND 0xC0 \<noteq> 0x80 then Some (None, b # bs)
      else utf8_continue n (push_bit 6 ucc OR (ucast b AND 0x3F)) bs)"

definition utf8_code_ok :: "nat \<Rightarrow> u32 \<Rightarrow> bool" where
  "utf8_code_ok len ucc \<longleftrightarrow> \<not> (0xD800 \<le> ucc \<and> ucc \<le> 0xDFFF) \<and>
     (if len = 2 then 0x80 \<le> ucc \<and> ucc \<le> 0x7FF
      else if len = 3 then 0x800 \<le> ucc \<and> ucc \<le> 0xFFFF
      else if len = 4 then 0x10000 \<le> ucc \<and> ucc \<le> 0x10FFFF
      else True)"

definition from_utf8 :: "byte list \<Rightarrow> (u32 option \<times> byte list) option" where
  "from_utf8 bs =
     (case bs of
        [] \<Rightarrow> None
      | b # bs' \<Rightarrow>
          let len = leading_ones [0x80, 0x40, 0x20, 0x10, 0x08, 0x04] b in
          if push_bit len (ucast b :: u32) AND 0x80 \<noteq> 0 then Some (None, bs)
          else if len = 0 then Some (Some (ucast b), bs')
          else if len < 2 \<or> len > 4 then Some (None, bs)
          else do {
            (r, rest) \<leftarrow> utf8_continue (len - 1) (ucast b AND (push_bit (7 - len) 1 - 1)) bs';
            Some (case r of
                None \<Rightarrow> (None, rest)
              | Some ucc \<Rightarrow> (if utf8_code_ok len ucc then Some ucc else None, rest))
          })"


section \<open>UTF-8 round trip\<close>

text \<open>The arithmetic of 6-bit groups, on numbers; the finitely many bytes are checked one by one.\<close>

lemma or_low_nat: "v < 2 ^ k \<Longrightarrow> push_bit k a OR v = push_bit k a + (v :: nat)"
proof (rule disjunctive_add [symmetric])
  fix n assume v: "v < 2 ^ k"
  show "\<not> bit (push_bit k a) n \<or> \<not> bit v n"
  proof (cases "n < k")
    case True
    then show ?thesis by (simp add: bit_push_bit_iff)
  next
    case False
    have "v < 2 ^ n" using v False by (meson less_le_trans not_less one_le_numeral power_increasing)
    then show ?thesis by (simp add: bit_iff_odd)
  qed
qed

lemma group_word:
  assumes "v < 64"
  shows "push_bit 6 (of_nat a) OR of_nat v = (of_nat (64 * a + v) :: u32)"
proof -
  have "push_bit 6 (of_nat a) OR of_nat v = (of_nat (push_bit 6 a OR v) :: u32)"
    by (simp only: of_nat_or_eq of_nat_push_bit)
  also have "push_bit 6 a OR v = 64 * a + v"
    using assms or_low_nat [of v 6 a] by (simp add: push_bit_eq_mult)
  finally show ?thesis .
qed

lemma drop_bit_of_nat_u32:
  assumes "n < 2 ^ 32"
  shows "drop_bit k (of_nat n :: u32) = of_nat (n div 2 ^ k)"
proof -
  have u: "unat (of_nat m :: u32) = m" if "m < 2 ^ 32" for m
    using that by (intro unat_of_nat_small) simp
  have "n div 2 ^ k < 2 ^ 32" using assms by (meson div_le_dividend le_less_trans)
  moreover have "unat (drop_bit k (of_nat n :: u32)) = drop_bit k n"
    unfolding unsigned_drop_bit_eq u [OF assms] using assms by (simp add: take_bit_nat_eq_self)
  ultimately show ?thesis
    by (intro word_unat_eq_iff [THEN iffD2]) (simp only: u, simp add: drop_bit_eq_div)
qed

lemma and_3F_of_nat: "(of_nat n :: u32) AND 0x3F = of_nat (n mod 64)"
proof -
  have "n AND 0x3F = n mod 64"
    using take_bit_eq_mask [of 6 n] by (simp add: take_bit_eq_mod mask_eq_exp_minus_1)
  then have "(of_nat (n AND 0x3F) :: u32) = of_nat (n mod 64)" by (rule arg_cong)
  then show ?thesis by (simp only: of_nat_and_eq of_nat_numeral)
qed

definition utf8_cont :: "nat \<Rightarrow> byte" where
  "utf8_cont v = ucast ((of_nat v :: u32) OR 0x80)"

lemma utf8_cont_table:
  "list_all (\<lambda>v. utf8_cont v AND 0xC0 = 0x80 \<and> (ucast (utf8_cont v) AND 0x3F :: u32) = of_nat v) [0..<64]"
  by code_simp

lemma utf8_cont:
  assumes "v < 64"
  shows "utf8_cont v AND 0xC0 = 0x80" and "(ucast (utf8_cont v) AND 0x3F :: u32) = of_nat v"
  using utf8_cont_table assms by (simp_all add: list_all_iff)

definition utf8_lead :: "nat \<Rightarrow> nat \<Rightarrow> byte" where
  "utf8_lead len v = ucast (push_bit (7 - len) 0xFE OR (of_nat v :: u32))"

definition utf8_lead_ok :: "nat \<Rightarrow> nat \<Rightarrow> bool" where
  "utf8_lead_ok len v \<longleftrightarrow>
     leading_ones [0x80, 0x40, 0x20, 0x10, 0x08, 0x04] (utf8_lead len v) = len \<and>
     push_bit len (ucast (utf8_lead len v) :: u32) AND 0x80 = 0 \<and>
     (ucast (utf8_lead len v) AND (push_bit (7 - len) 1 - 1) :: u32) = of_nat v"

lemma utf8_lead_table:
  "list_all (utf8_lead_ok 2) [0..<32]" "list_all (utf8_lead_ok 3) [0..<16]" "list_all (utf8_lead_ok 4) [0..<8]"
  by code_simp+

lemma utf8_lead:
  assumes "len \<in> {2, 3, 4}" and "v < 2 ^ (7 - len)"
  shows "utf8_lead_ok len v"
  using utf8_lead_table assms by (auto simp: list_all_iff)

definition utf8_ascii_ok :: "nat \<Rightarrow> bool" where
  "utf8_ascii_ok v \<longleftrightarrow> leading_ones [0x80, 0x40, 0x20, 0x10, 0x08, 0x04] (of_nat v) = 0 \<and>
     push_bit 0 (ucast (of_nat v :: byte) :: u32) AND 0x80 = 0 \<and> (ucast (of_nat v :: byte) :: u32) = of_nat v \<and>
     (ucast (push_bit 7 0xFE OR (of_nat v :: u32)) :: byte) = of_nat v"

lemma utf8_ascii_table: "list_all utf8_ascii_ok [0..<128]"
  by code_simp

lemma utf8_ascii: "v < 128 \<Longrightarrow> utf8_ascii_ok v"
  using utf8_ascii_table by (simp add: list_all_iff)

text \<open>What \<open>ToUTF8\<close> yields for a code that takes \<open>i\<close> continuation bytes.\<close>

lemma to_utf8_fit:
  assumes "n < 2 ^ 31" and "i < 6" and "n < 2 ^ utf8_max_bits i" and "\<And>j. j < i \<Longrightarrow> 2 ^ utf8_max_bits j \<le> n"
  shows "to_utf8 (of_nat n) =
    Some (ucast (push_bit (utf8_max_bits i - i * 6) 0xFE OR (of_nat (n div 2 ^ (i * 6)) :: u32))
      # map (\<lambda>j. utf8_cont (n div 2 ^ (j * 6) mod 64)) (rev [0..<i]))"
proof -
  have n: "n < 2 ^ 32" using assms(1) by simp
  have u: "unat (of_nat m :: u32) = m" if "m < 2 ^ 32" for m
    using that by (intro unat_of_nat_small) simp
  have top: "(of_nat n :: u32) AND 0x80000000 = 0"
  proof -
    have "n AND push_bit 31 1 = 0"
    proof (rule bit_eqI)
      fix k
      have "\<not> bit n 31" using assms(1) by (simp add: bit_iff_odd)
      then show "bit (n AND push_bit 31 1) k = bit 0 k"
        unfolding bit_and_iff bit_push_bit_iff bit_1_iff bit_0_eq by auto
    qed
    then have h: "n AND 0x80000000 = 0" by (simp add: push_bit_eq_mult)
    have "(of_nat n :: u32) AND of_nat 0x80000000 = of_nat (n AND 0x80000000)"
      by (simp only: of_nat_and_eq)
    then show ?thesis by (simp add: h)
  qed
  have lt: "(of_nat n :: u32) < push_bit (utf8_max_bits j) 1 \<longleftrightarrow> n < 2 ^ utf8_max_bits j" if "j < 6" for j
  proof -
    have "utf8_max_bits j \<le> 31" using that by (simp add: utf8_max_bits_def)
    then have "(2 :: nat) ^ utf8_max_bits j \<le> 2 ^ 31" by (intro power_increasing) simp_all
    then have b: "(2 :: nat) ^ utf8_max_bits j < 2 ^ 32" by simp
    have "push_bit (utf8_max_bits j) (1 :: u32) = of_nat (2 ^ utf8_max_bits j)"
      by (simp add: push_bit_eq_mult)
    then show ?thesis by (simp only: word_less_nat_alt u [OF n] u [OF b])
  qed
  have f: "find (\<lambda>i. (of_nat n :: u32) < push_bit (utf8_max_bits i) 1) [0..<6] = Some i"
    unfolding find_Some_iff
    using assms(2-4) lt by (intro exI [of _ i]) (auto simp: not_less)
  show ?thesis
    unfolding to_utf8_def f by (simp add: top Let_def drop_bit_of_nat_u32 [OF n] and_3F_of_nat utf8_cont_def)
qed

text \<open>The bytes of a code below 0x200000, by its size.\<close>

definition utf8_bytes :: "nat \<Rightarrow> byte list" where
  "utf8_bytes n =
     (if n < 0x80 then [of_nat n]
      else if n < 0x800 then [utf8_lead 2 (n div 64), utf8_cont (n mod 64)]
      else if n < 0x10000 then [utf8_lead 3 (n div 4096), utf8_cont (n div 64 mod 64), utf8_cont (n mod 64)]
      else [utf8_lead 4 (n div 262144), utf8_cont (n div 4096 mod 64), utf8_cont (n div 64 mod 64),
        utf8_cont (n mod 64)])"

lemma to_utf8_bytes:
  assumes "n < 0x200000"
  shows "to_utf8 (of_nat n) = Some (utf8_bytes n)"
proof -
  have n: "n < 2 ^ 31" using assms by simp
  have less_cases: "j < 2 \<Longrightarrow> j = 0 \<or> j = 1" "k < 3 \<Longrightarrow> k = 0 \<or> k = 1 \<or> k = 2" for j k :: nat by auto
  have below: "0x800 \<le> n \<Longrightarrow> j < 2 \<Longrightarrow> 2 ^ utf8_max_bits j \<le> n" "0x10000 \<le> n \<Longrightarrow> k < 3 \<Longrightarrow> 2 ^ utf8_max_bits k \<le> n" for j k
    using less_cases(1) [of j] less_cases(2) [of k] by (auto simp: utf8_max_bits_def)
  consider "n < 0x80" | "0x80 \<le> n" "n < 0x800" | "0x800 \<le> n" "n < 0x10000" | "0x10000 \<le> n" by linarith
  then show ?thesis
  proof cases
    case 1
    then show ?thesis
      using to_utf8_fit [OF n, of 0] utf8_ascii [of n]
      by (simp add: utf8_max_bits_def utf8_bytes_def utf8_ascii_ok_def)
  next
    case 2
    then show ?thesis
      using to_utf8_fit [OF n, of 1] by (simp add: utf8_max_bits_def utf8_bytes_def utf8_lead_def)
  next
    case 3
    then show ?thesis
      using to_utf8_fit [OF n, of 2] below(1)
      by (simp add: utf8_max_bits_def utf8_bytes_def utf8_lead_def upt_rec)
  next
    case 4
    then show ?thesis
      using to_utf8_fit [OF n, of 3] assms below(2)
      by (simp add: utf8_max_bits_def utf8_bytes_def utf8_lead_def upt_rec)
  qed
qed

text \<open>Codes \<open>FromUTF8\<close> accepts.\<close>

definition unicode_scalar :: "nat \<Rightarrow> bool" where
  "unicode_scalar n \<longleftrightarrow> n < 0xD800 \<or> 0xDFFF < n \<and> n < 0x110000"

lemma utf8_continue_step:
  assumes "v < 64"
  shows "utf8_continue (Suc k) (of_nat a) (utf8_cont v # bs) = utf8_continue k (of_nat (64 * a + v)) bs"
  using utf8_cont [OF assms] group_word [OF assms] by simp

lemma from_utf8_lead:
  assumes "len \<in> {2, 3, 4}" and "v < 2 ^ (7 - len)"
  shows "from_utf8 (utf8_lead len v # bs) = do {
    (r, rest) \<leftarrow> utf8_continue (len - 1) (of_nat v) bs;
    Some (case r of None \<Rightarrow> (None, rest) | Some ucc \<Rightarrow> (if utf8_code_ok len ucc then Some ucc else None, rest))
  }"
  using utf8_lead [OF assms] assms(1)
  unfolding from_utf8_def utf8_lead_ok_def by (simp only: list.case Let_def) auto

lemma utf8_code_ok_of_nat:
  assumes "n < 2 ^ 32"
  shows "utf8_code_ok len (of_nat n) \<longleftrightarrow> \<not> (0xD800 \<le> n \<and> n \<le> 0xDFFF) \<and>
     (if len = 2 then 0x80 \<le> n \<and> n \<le> 0x7FF
      else if len = 3 then 0x800 \<le> n \<and> n \<le> 0xFFFF
      else if len = 4 then 0x10000 \<le> n \<and> n \<le> 0x10FFFF else True)"
proof -
  have "unat (of_nat n :: u32) = n" using assms by (intro unat_of_nat_small) simp
  then show ?thesis by (simp add: utf8_code_ok_def word_le_nat_alt)
qed

lemma groups:
  fixes n :: nat
  shows "64 * (n div 64) + n mod 64 = n" and "64 * (n div 4096) + n div 64 mod 64 = n div 64"
    and "64 * (n div 262144) + n div 4096 mod 64 = n div 4096"
proof -
  have d: "n div 4096 = n div 64 div 64" "n div 262144 = n div 4096 div 64"
    by (simp_all flip: div_mult2_eq)
  show "64 * (n div 64) + n mod 64 = n" by simp
  show "64 * (n div 4096) + n div 64 mod 64 = n div 64" unfolding d(1) by simp
  show "64 * (n div 262144) + n div 4096 mod 64 = n div 4096" unfolding d(2) by simp
qed

lemma from_utf8_bytes:
  assumes "unicode_scalar n"
  shows "from_utf8 (utf8_bytes n @ rest) = Some (Some (of_nat n), rest)"
proof -
  have n: "n < 0x110000" "n < 2 ^ 32" using assms by (auto simp: unicode_scalar_def)
  consider "n < 0x80" | "0x80 \<le> n" "n < 0x800" | "0x800 \<le> n" "n < 0x10000" | "0x10000 \<le> n" by linarith
  then show ?thesis
  proof cases
    case 1
    note ok = utf8_ascii [OF 1, unfolded utf8_ascii_ok_def]
    have a: "leading_ones [0x80, 0x40, 0x20, 0x10, 0x08, 0x04] (of_nat n) = 0"
      using ok by (rule conjunct1)
    have b: "(ucast (of_nat n :: byte) :: u32) = of_nat n"
      using ok by (elim conjE) assumption
    have c: "(of_nat n :: u32) AND 0x80 = 0"
      using ok [THEN conjunct2, THEN conjunct1] unfolding b by simp
    then show ?thesis
      using 1 by (simp add: utf8_bytes_def from_utf8_def Let_def a b c del: leading_ones.simps)
  next
    case 2
    then have b: "utf8_bytes n = [utf8_lead 2 (n div 64), utf8_cont (n mod 64)]" by (simp add: utf8_bytes_def)
    have "utf8_continue 1 (of_nat (n div 64)) (utf8_cont (n mod 64) # rest) = Some (Some (of_nat n), rest)"
      using utf8_continue_step [of "n mod 64" 0 "n div 64" rest] by (simp only: groups) simp
    moreover have "n div 64 < 2 ^ (7 - 2)" using 2 by simp
    ultimately show ?thesis
      using 2 n assms from_utf8_lead [of 2 "n div 64" "utf8_cont (n mod 64) # rest"]
      by (auto simp: b utf8_code_ok_of_nat unicode_scalar_def)
  next
    case 3
    then have b: "utf8_bytes n = [utf8_lead 3 (n div 4096), utf8_cont (n div 64 mod 64), utf8_cont (n mod 64)]"
      by (simp add: utf8_bytes_def)
    have "utf8_continue 2 (of_nat (n div 4096)) (utf8_cont (n div 64 mod 64) # utf8_cont (n mod 64) # rest) =
        Some (Some (of_nat n), rest)"
      using utf8_continue_step [of "n div 64 mod 64" 1 "n div 4096" "utf8_cont (n mod 64) # rest"]
        utf8_continue_step [of "n mod 64" 0 "64 * (n div 4096) + n div 64 mod 64" rest]
      by (simp only: groups numeral_2_eq_2 One_nat_def) simp
    moreover have "n div 4096 < 2 ^ (7 - 3)" using 3 by simp
    ultimately show ?thesis
      using 3 n assms from_utf8_lead [of 3 "n div 4096" "utf8_cont (n div 64 mod 64) # utf8_cont (n mod 64) # rest"]
      by (auto simp: b utf8_code_ok_of_nat unicode_scalar_def)
  next
    case 4
    then have b: "utf8_bytes n = [utf8_lead 4 (n div 262144), utf8_cont (n div 4096 mod 64),
        utf8_cont (n div 64 mod 64), utf8_cont (n mod 64)]"
      by (simp add: utf8_bytes_def)
    have "utf8_continue 3 (of_nat (n div 262144))
        (utf8_cont (n div 4096 mod 64) # utf8_cont (n div 64 mod 64) # utf8_cont (n mod 64) # rest) =
        Some (Some (of_nat n), rest)"
      using utf8_continue_step [of "n div 4096 mod 64" 2 "n div 262144" "utf8_cont (n div 64 mod 64) # utf8_cont (n mod 64) # rest"]
        utf8_continue_step [of "n div 64 mod 64" 1 "64 * (n div 262144) + n div 4096 mod 64" "utf8_cont (n mod 64) # rest"]
        utf8_continue_step [of "n mod 64" 0 "64 * (64 * (n div 262144) + n div 4096 mod 64) + n div 64 mod 64" rest]
      by (simp only: groups numeral_2_eq_2 numeral_3_eq_3 One_nat_def) simp
    moreover have "n div 262144 < 2 ^ (7 - 4)" using n by simp
    ultimately show ?thesis
      using 4 n assms from_utf8_lead [of 4 "n div 262144" "utf8_cont (n div 4096 mod 64) # utf8_cont (n div 64 mod 64) # utf8_cont (n mod 64) # rest"]
      by (auto simp: b utf8_code_ok_of_nat unicode_scalar_def)
  qed
qed

text \<open>The other direction: every byte the decoder accepts is one the encoder writes.\<close>

lemma and_one_bit:
  fixes b :: byte
  assumes "b AND push_bit k 1 \<noteq> 0"
  shows "b AND push_bit k 1 = push_bit k 1"
proof -
  have "bit b k" using assms by (simp add: push_bit_eq_mult and_exp_eq_0_iff_not_bit)
  then show ?thesis
    by (intro bit_word_eqI) (unfold bit_and_iff bit_push_bit_iff bit_1_iff, auto)
qed

lemma and_one_bits:
  fixes b :: byte
  shows "b AND 0x80 \<noteq> 0 \<Longrightarrow> b AND 0x80 = 0x80" "b AND 0x40 \<noteq> 0 \<Longrightarrow> b AND 0x40 = 0x40"
    "b AND 0x20 \<noteq> 0 \<Longrightarrow> b AND 0x20 = 0x20" "b AND 0x10 \<noteq> 0 \<Longrightarrow> b AND 0x10 = 0x10"
  using and_one_bit [of b 7] and_one_bit [of b 6] and_one_bit [of b 5] and_one_bit [of b 4]
  by (simp_all add: push_bit_eq_mult)

lemma byte_parts:
  fixes b x y :: byte
  assumes "x OR y = 0xFF"
  shows "b = (b AND x) OR (b AND y)"
proof -
  have "(0xFF :: byte) = - 1" by code_simp
  then have "b = b AND (x OR y)" unfolding assms by (simp only: and.right_neutral)
  then show ?thesis by (simp only: bit.conj_disj_distrib)
qed

lemma of_unat_u32: "(of_nat (unat x) :: u32) = x"
  by simp

lemma ucast_ucast_byte: "(ucast (ucast (b :: byte) :: u32) :: byte) = b"
  by (intro bit_word_eqI) (simp add: bit_ucast_iff)

lemma lead_patterns: "(0x1FC0 :: byte) = 0xC0" "(0xFE0 :: byte) = 0xE0" "(0x7F0 :: byte) = 0xF0"
  by code_simp+

lemma utf8_cont_inverse:
  assumes "b AND 0xC0 = 0x80"
  shows "b = utf8_cont (unat (ucast b AND 0x3F :: u32))" and "unat (ucast b AND 0x3F :: u32) < 64"
proof -
  have "utf8_cont (unat (ucast b AND 0x3F :: u32)) = (b AND 0x3F) OR 0x80"
    unfolding utf8_cont_def of_unat_u32 by (simp add: unsigned_or_eq unsigned_and_eq ucast_ucast_byte)
  then show "b = utf8_cont (unat (ucast b AND 0x3F :: u32))"
    using byte_parts [of "0x3F" "0xC0" b] assms by simp
  have "(ucast b AND 0x3F :: u32) \<le> 0x3F" by (rule word_and_le1)
  then show "unat (ucast b AND 0x3F :: u32) < 64" by (simp add: word_le_nat_alt)
qed

lemma utf8_lead_eq:
  assumes "b AND high = pattern" and "low OR high = 0xFF"
    and "ucast (push_bit (7 - len) 0xFE OR (ucast b AND m :: u32)) = pattern OR (b AND low)"
  shows "b = utf8_lead len (unat (ucast b AND m :: u32))"
  using byte_parts [OF assms(2), of b] assms(1,3) unfolding utf8_lead_def of_unat_u32
  by (simp add: or.commute)

lemma utf8_lead_inverse:
  assumes "leading_ones [0x80, 0x40, 0x20, 0x10, 0x08, 0x04] b = len" and "len \<in> {2, 3, 4}"
  defines "v \<equiv> unat (ucast b AND (push_bit (7 - len) 1 - 1) :: u32)"
  shows "b = utf8_lead len v" and "v < 2 ^ (7 - len)"
proof -
  have "(ucast b AND (push_bit (7 - len) 1 - 1) :: u32) \<le> push_bit (7 - len) 1 - 1" by (rule word_and_le1)
  then have "v \<le> unat (push_bit (7 - len) 1 - 1 :: u32)" by (simp add: v_def word_le_nat_alt)
  then show "v < 2 ^ (7 - len)" using assms(2) by (auto simp: push_bit_eq_mult)
  have "len = 2 \<or> len = 3 \<or> len = 4" using assms(2) by auto
  then show "b = utf8_lead len v"
  proof (elim disjE)
    assume l: "len = 2"
    then have "b AND 0x80 \<noteq> 0" "b AND 0x40 \<noteq> 0" "b AND 0x20 = 0"
      using assms(1) by (auto split: if_splits)
    moreover have "b AND 0xE0 = (b AND 0x80) OR (b AND 0x40) OR (b AND 0x20)"
      by (simp flip: bit.conj_disj_distrib)
    ultimately have "b AND 0xE0 = 0xC0" by (simp add: and_one_bits)
    then show ?thesis
      unfolding v_def by (rule utf8_lead_eq [of _ _ _ "0x1F"])
        (simp_all add: l unsigned_or_eq unsigned_and_eq push_bit_eq_mult ucast_ucast_byte lead_patterns)
  next
    assume l: "len = 3"
    then have "b AND 0x80 \<noteq> 0" "b AND 0x40 \<noteq> 0" "b AND 0x20 \<noteq> 0" "b AND 0x10 = 0"
      using assms(1) by (auto split: if_splits)
    moreover have "b AND 0xF0 = (b AND 0x80) OR (b AND 0x40) OR (b AND 0x20) OR (b AND 0x10)"
      by (simp flip: bit.conj_disj_distrib)
    ultimately have "b AND 0xF0 = 0xE0" by (simp add: and_one_bits)
    then show ?thesis
      unfolding v_def by (rule utf8_lead_eq [of _ _ _ "0x0F"])
        (simp_all add: l unsigned_or_eq unsigned_and_eq push_bit_eq_mult ucast_ucast_byte lead_patterns)
  next
    assume l: "len = 4"
    then have "b AND 0x80 \<noteq> 0" "b AND 0x40 \<noteq> 0" "b AND 0x20 \<noteq> 0" "b AND 0x10 \<noteq> 0" "b AND 0x08 = 0"
      using assms(1) by (auto split: if_splits)
    moreover have "b AND 0xF8 = (b AND 0x80) OR (b AND 0x40) OR (b AND 0x20) OR (b AND 0x10) OR (b AND 0x08)"
      by (simp flip: bit.conj_disj_distrib)
    ultimately have "b AND 0xF8 = 0xF0" by (simp add: and_one_bits)
    then show ?thesis
      unfolding v_def by (rule utf8_lead_eq [of _ _ _ "0x07"])
        (simp_all add: l unsigned_or_eq unsigned_and_eq push_bit_eq_mult ucast_ucast_byte lead_patterns)
  qed
qed

lemma utf8_ascii_inverse:
  fixes b :: byte
  assumes "leading_ones [0x80, 0x40, 0x20, 0x10, 0x08, 0x04] b = 0"
  shows "unat b < 128"
proof -
  have "b AND 0x80 = 0" using assms by (auto split: if_splits)
  then have "b = b AND 0x7F" using byte_parts [of "0x7F" "0x80" b] by simp
  then have "b \<le> 0x7F" by (metis word_and_le1)
  then show ?thesis by (simp add: word_le_nat_alt)
qed

lemma utf8_continueD:
  assumes "utf8_continue (Suc k) (of_nat a) bs = Some (Some c, rest)"
  obtains v bs' where "v < 64" "bs = utf8_cont v # bs'" "utf8_continue k (of_nat (64 * a + v)) bs' = Some (Some c, rest)"
proof -
  obtain b bs' where bs: "bs = b # bs'" "b AND 0xC0 = 0x80"
    and r: "utf8_continue k (push_bit 6 (of_nat a) OR (ucast b AND 0x3F)) bs' = Some (Some c, rest)"
    using assms by (cases bs) (auto split: if_splits)
  define v where "v = unat (ucast b AND 0x3F :: u32)"
  have "b = utf8_cont v" and "v < 64"
    using utf8_cont_inverse [OF bs(2)] by (simp_all only: v_def)
  moreover have "utf8_continue k (of_nat (64 * a + v)) bs' = Some (Some c, rest)"
    using r group_word [OF \<open>v < 64\<close>, of a] by (simp add: v_def)
  ultimately show thesis using that bs(1) by blast
qed

lemma ungroup:
  fixes a v :: nat
  assumes "v < 64"
  shows "(64 * a + v) div 64 = a" and "(64 * a + v) mod 64 = v"
  using assms by simp_all

lemma div_64:
  fixes n :: nat
  shows "n div 4096 = n div 64 div 64" and "n div 262144 = n div 64 div 64 div 64"
  by (simp_all flip: div_mult2_eq)

lemma from_utf8_inverse:
  assumes "from_utf8 bs = Some (Some c, rest)"
  shows "unicode_scalar (unat c)" and "bs = utf8_bytes (unat c) @ rest"
proof -
  obtain b bs' where bs: "bs = b # bs'" using assms by (cases bs) (auto simp: from_utf8_def)
  define len where "len = leading_ones [0x80, 0x40, 0x20, 0x10, 0x08, 0x04] b"
  define v where "v = unat (ucast b AND (push_bit (7 - len) 1 - 1) :: u32)"
  have top: "push_bit len (ucast b :: u32) AND 0x80 = 0"
    using assms unfolding bs from_utf8_def Let_def by (simp only: list.case flip: len_def) (auto split: if_splits)
  note r = assms [unfolded bs from_utf8_def Let_def list.case, folded len_def]
  have "unicode_scalar (unat c) \<and> bs = utf8_bytes (unat c) @ rest"
  proof (cases "len = 0")
    case True
    then have "unat b < 128" "c = ucast b" "rest = bs'"
      using utf8_ascii_inverse [of b] len_def top r by simp_all
    moreover have "unat (ucast b :: u32) = unat b"
    proof -
      have "unat b < 2 ^ LENGTH(8)" by (rule unsigned_less)
      then show ?thesis by (simp add: unsigned_ucast_eq take_bit_nat_eq_self)
    qed
    ultimately show ?thesis
      by (simp add: unicode_scalar_def utf8_bytes_def bs)
  next
    case False
    then have len: "len \<in> {2, 3, 4}"
      using r top by (auto split: if_splits)
    then have b: "b = utf8_lead len v" "v < 2 ^ (7 - len)"
      using utf8_lead_inverse [OF len_def [symmetric] len] by (simp_all only: v_def)
    have cont: "utf8_continue (len - 1) (of_nat v) bs' = Some (Some c, rest)" and ok: "utf8_code_ok len c"
      using r top len False by (auto simp: v_def split: bind_splits option.splits if_splits)
    note ok' = ok [unfolded utf8_code_ok_def word_le_nat_alt]
    consider "len = 2" | "len = 3" | "len = 4" using len by auto
    then show ?thesis
    proof cases
      case 1
      obtain v0 where v0: "v0 < 64" "bs' = utf8_cont v0 # rest" "c = of_nat (64 * v + v0)"
        using utf8_continueD [of 0 v bs' c rest] cont 1 by auto
      have "unat c = 64 * v + v0" unfolding v0(3) using b(2) v0(1) 1 by (intro unat_of_nat_small) simp
      then show ?thesis
        using ok' 1 v0(1,2) b bs by (auto simp: unicode_scalar_def utf8_bytes_def)
    next
      case 2
      obtain v1 bs1 where v1: "v1 < 64" "bs' = utf8_cont v1 # bs1"
        "utf8_continue 1 (of_nat (64 * v + v1)) bs1 = Some (Some c, rest)"
        using utf8_continueD [of 1 v bs' c rest] cont 2 by (auto simp: numeral_2_eq_2)
      obtain v0 where v0: "v0 < 64" "bs1 = utf8_cont v0 # rest" "c = of_nat (64 * (64 * v + v1) + v0)"
        using utf8_continueD [of 0 "64 * v + v1" bs1 c rest] v1(3) by auto
      have n: "unat c = 64 * (64 * v + v1) + v0" unfolding v0(3) using b(2) v0(1) v1(1) 2 by (intro unat_of_nat_small) simp
      have "unat c div 64 mod 64 = v1" "unat c mod 64 = v0" "unat c div 4096 = v"
        unfolding div_64 n by (simp_all only: ungroup v0(1) v1(1))
      then show ?thesis
        using ok' 2 v0(2) v1(1,2) b bs by (auto simp: unicode_scalar_def utf8_bytes_def)
    next
      case 3
      obtain v2 bs2 where v2: "v2 < 64" "bs' = utf8_cont v2 # bs2"
        "utf8_continue 2 (of_nat (64 * v + v2)) bs2 = Some (Some c, rest)"
        using utf8_continueD [of 2 v bs' c rest] cont 3 by (auto simp: numeral_2_eq_2 numeral_3_eq_3)
      obtain v1 bs1 where v1: "v1 < 64" "bs2 = utf8_cont v1 # bs1"
        "utf8_continue 1 (of_nat (64 * (64 * v + v2) + v1)) bs1 = Some (Some c, rest)"
        using utf8_continueD [of 1 "64 * v + v2" bs2 c rest] v2(3) by (auto simp: numeral_2_eq_2)
      obtain v0 where v0: "v0 < 64" "bs1 = utf8_cont v0 # rest" "c = of_nat (64 * (64 * (64 * v + v2) + v1) + v0)"
        using utf8_continueD [of 0 "64 * (64 * v + v2) + v1" bs1 c rest] v1(3) by auto
      have n: "unat c = 64 * (64 * (64 * v + v2) + v1) + v0"
        unfolding v0(3) using b(2) v0(1) v1(1) v2(1) 3 by (intro unat_of_nat_small) simp
      have "unat c div 64 mod 64 = v1" "unat c mod 64 = v0" "unat c div 4096 mod 64 = v2"
        "unat c div 262144 = v"
        unfolding div_64 n by (simp_all only: ungroup v0(1) v1(1) v2(1))
      then show ?thesis
        using ok' 3 v0(2) v1(1,2) v2(1,2) b bs by (auto simp: unicode_scalar_def utf8_bytes_def)
    qed
  qed
  then show "unicode_scalar (unat c)" and "bs = utf8_bytes (unat c) @ rest" by simp_all
qed

text \<open>C39: \<open>FromUTF8\<close> and \<open>ToUTF8\<close> are inverse to each other on exactly the Unicode
  scalar values: a code is decoded if and only if it is not a surrogate, is below U+110000 and
  the bytes are those \<open>ToUTF8\<close> writes for it; in particular no other, overlong encoding of
  a code is accepted, and what follows the code is left untouched.\<close>

theorem utf8_codec:
  "from_utf8 bs = Some (Some c, rest) \<longleftrightarrow>
     unicode_scalar (unat c) \<and> (\<exists>enc. to_utf8 c = Some enc \<and> bs = enc @ rest)"
proof -
  have enc: "to_utf8 c = Some (utf8_bytes (unat c))" if "unicode_scalar (unat c)"
  proof -
    have "unat c < 0x200000" using that by (auto simp: unicode_scalar_def)
    from to_utf8_bytes [OF this] show ?thesis by simp
  qed
  show ?thesis
  proof
    assume "from_utf8 bs = Some (Some c, rest)"
    from from_utf8_inverse [OF this] enc show "unicode_scalar (unat c) \<and> (\<exists>enc. to_utf8 c = Some enc \<and> bs = enc @ rest)"
      by blast
  next
    assume r: "unicode_scalar (unat c) \<and> (\<exists>enc. to_utf8 c = Some enc \<and> bs = enc @ rest)"
    then have "bs = utf8_bytes (unat c) @ rest" using enc by auto
    then show "from_utf8 bs = Some (Some c, rest)"
      using from_utf8_bytes [of "unat c" rest] r by simp
  qed
qed

end
