(* ===== verification/Fb_Escape.thy ===== *)
theory Fb_Escape
  imports Fb_Text
begin

text \<open>
  \<open>examples/flatbuffers/util.h\<close>: \<open>EscapeString\<close>, \<open>BufferToHexText\<close> and \<open>WordWrap\<close>.
\<close>

unbundle bit_operations_syntax

section \<open>Escapes\<close>

text \<open>The letter after the backslash for the characters with an escape of their own.\<close>

definition simple_escape :: "byte \<Rightarrow> byte option" where
  "simple_escape c =
     (if c = 0x0A then Some 0x6E else if c = 0x09 then Some 0x74 else if c = 0x0D then Some 0x72
      else if c = 0x08 then Some 0x62 else if c = 0x0C then Some 0x66 else if c = 0x22 then Some 0x22
      else if c = 0x5C then Some 0x5C else None)"

definition escape_u :: "s32 \<Rightarrow> byte list option" where
  "escape_u i = map_option (\<lambda>h. [0x5C, 0x75] @ h) (int_to_string_hex i 4)"

definition escape_code :: "u32 \<Rightarrow> byte list option" where
  "escape_code ucc =
     (if ucc \<le> 0xFFFF then escape_u ucc
      else if ucc \<le> 0x10FFFF then do {
        let base = ucc - 0x10000;
        h \<leftarrow> escape_u (drop_bit 10 base + 0xD800);
        l \<leftarrow> escape_u ((base AND 0x03FF) + 0xDC00);
        Some (h @ l)
      }
      else Some [])"

text \<open>
  One turn of the loop at position \<open>i\<close>: \<open>Some None\<close> is \<open>return false\<close>, otherwise the text
  appended and the value of \<open>i\<close> before its increment.
\<close>

definition escape_char :: "bool \<Rightarrow> bool \<Rightarrow> byte list \<Rightarrow> u32 \<Rightarrow> (byte list \<times> u32) option option" where
  "escape_char allow_non_utf8 natural_utf8 s i =
     (case drop (unat i) s of
        [] \<Rightarrow> None
      | c # _ \<Rightarrow>
          (case simple_escape c of
             Some e \<Rightarrow> Some (Some ([0x5C, e], i))
           | None \<Rightarrow>
               if 32 \<le> sint c \<and> sint c \<le> 126 then Some (Some ([c], i))
               else do {
                 (ucc, utf8) \<leftarrow> from_utf8 (drop (unat i) s);
                 (case ucc of
                    None \<Rightarrow>
                      if allow_non_utf8
                      then map_option (\<lambda>h. Some ([0x5C, 0x78] @ h, i)) (int_to_string_hex (ucast c) 2)
                      else Some None
                  | Some ucc \<Rightarrow> do {
                      t \<leftarrow> (if natural_utf8 then Some (take (length s - length utf8 - unat i) (drop (unat i) s))
                           else escape_code ucc);
                      Some (Some (t, of_nat (length s - length utf8 - 1)))
                    })
               }))"

partial_function (option) escape_from ::
  "bool \<Rightarrow> bool \<Rightarrow> byte list \<Rightarrow> nat \<Rightarrow> u32 \<Rightarrow> byte list \<Rightarrow> (bool \<times> byte list) option" where
  "escape_from allow_non_utf8 natural_utf8 s len i text =
     (if unat i < len then do {
        r \<leftarrow> escape_char allow_non_utf8 natural_utf8 s i;
        (case r of
           None \<Rightarrow> Some (False, text)
         | Some (t, i) \<Rightarrow> escape_from allow_non_utf8 natural_utf8 s len (i + 1) (text @ t))
      }
      else Some (True, text @ [0x22]))"

definition escape_string :: "byte list \<Rightarrow> nat \<Rightarrow> byte list \<Rightarrow> bool \<Rightarrow> bool \<Rightarrow> (bool \<times> byte list) option" where
  "escape_string s len text allow_non_utf8 natural_utf8 =
     escape_from allow_non_utf8 natural_utf8 s len 0 (text @ [0x22])"

section \<open>Hex dumps\<close>

text \<open>The loop of \<open>BufferToHexText\<close> over the bytes from position \<open>i\<close> on.\<close>

fun hex_text_from :: "nat \<Rightarrow> byte list \<Rightarrow> byte list \<Rightarrow> nat \<Rightarrow> byte list \<Rightarrow> byte list \<Rightarrow> byte list option" where
  "hex_text_from max_length prefix suffix start_offset text [] = Some text"
| "hex_text_from max_length prefix suffix start_offset text (b # bs) = do {
     h \<leftarrow> int_to_string_hex (ucast b) 2;
     let have_more = (bs \<noteq> []);
     let text = text @ [0x30, 0x78] @ h;
     let text = (if have_more then text @ [0x2C] else text);
     (if have_more \<and> start_offset + max_length \<le> length text + length suffix then
        let text = text @ suffix @ [0x0A] in
        hex_text_from max_length prefix suffix (length text) (text @ prefix) bs
      else hex_text_from max_length prefix suffix start_offset text bs)
   }"

definition buffer_to_hex_text :: "byte list \<Rightarrow> nat \<Rightarrow> byte list \<Rightarrow> byte list \<Rightarrow> byte list option" where
  "buffer_to_hex_text buffer max_length prefix suffix =
     map_option (\<lambda>text. text @ suffix) (hex_text_from max_length prefix suffix 0 prefix buffer)"

section \<open>Word wrapping\<close>

definition is_space :: "byte \<Rightarrow> bool" where
  "is_space c \<longleftrightarrow> c \<in> {0x20, 0x09, 0x0A, 0x0B, 0x0C, 0x0D}"

text \<open>What \<open>>>\<close> reads from a string stream: skip white space, then one word; \<open>None\<close> at the end.\<close>

definition next_word :: "byte list \<Rightarrow> (byte list \<times> byte list) option" where
  "next_word s =
     (case dropWhile is_space s of
        [] \<Rightarrow> None
      | c # t \<Rightarrow> Some (c # takeWhile (\<lambda>c. \<not> is_space c) t, dropWhile (\<lambda>c. \<not> is_space c) t))"

lemma next_word_shorter:
  assumes "next_word s = Some (w, t)"
  shows "length t < length s"
proof -
  obtain c u where u: "dropWhile is_space s = c # u" "t = dropWhile (\<lambda>c. \<not> is_space c) u"
    using assms by (auto simp: next_word_def split: list.splits)
  have "length t \<le> length u" using u(2) length_dropWhile_le by metis
  moreover have "length (c # u) \<le> length s" using u(1) length_dropWhile_le by metis
  ultimately show ?thesis by simp
qed

function wrap_words :: "nat \<Rightarrow> byte list \<Rightarrow> byte list \<Rightarrow> byte list \<Rightarrow> byte list \<Rightarrow> byte list \<Rightarrow> byte list" where
  "wrap_words max_length prefix suffix wrapped line s =
     (case next_word s of
        None \<Rightarrow> wrapped @ line
      | Some (w, s) \<Rightarrow>
          if length line + 1 + length w + length suffix < max_length
          then wrap_words max_length prefix suffix wrapped (line @ [0x20] @ w) s
          else wrap_words max_length prefix suffix (wrapped @ line @ suffix @ [0x0A]) (prefix @ w) s)"
  by auto
termination
  by (relation "measure (\<lambda>(m, p, u, w, l, s). length s)") (auto dest: next_word_shorter)

definition word_wrap :: "byte list \<Rightarrow> nat \<Rightarrow> byte list \<Rightarrow> byte list \<Rightarrow> byte list" where
  "word_wrap s max_length prefix suffix =
     (case next_word s of None \<Rightarrow> [] | Some (w, s) \<Rightarrow> wrap_words max_length prefix suffix [] w s)"

section \<open>The escape of a Unicode text\<close>

definition printable :: "byte \<Rightarrow> bool" where
  "printable b \<longleftrightarrow> 0x20 \<le> b \<and> b \<le> 0x7E"

text \<open>What a code is written as when only ASCII may be used.\<close>

definition code_text :: "nat \<Rightarrow> byte list" where
  "code_text n =
     (case (if n < 0x80 then simple_escape (of_nat n) else None) of
        Some e \<Rightarrow> [0x5C, e]
      | None \<Rightarrow> if 32 \<le> n \<and> n \<le> 126 then [of_nat n] else the (escape_code (of_nat n)))"

lemma printable_hex_digit: "d < 16 \<Longrightarrow> printable (hex_digit d)"
  by (auto simp: printable_def hex_digit_def word_le_nat_alt unat_of_nat_small)

lemma printable_hex_digits: "list_all printable (hex_digits n)"
proof (induction n rule: hex_digits.induct)
  case (1 n)
  then show ?case
    by (subst hex_digits.simps) (simp add: printable_hex_digit)
qed

lemma int_to_string_hex_defined:
  assumes "unat i < 2 ^ 31"
  obtains h where "int_to_string_hex i k = Some h" "list_all printable h"
proof -
  let ?ds = "hex_digits (nat (sint i))"
  have "int_to_string_hex i k = Some (replicate (k - length ?ds) 0x30 @ ?ds)"
    using sint_nonneg_u32 [OF assms] by (simp add: int_to_string_hex_def Let_def)
  moreover have "list_all printable (replicate (k - length ?ds) 0x30 @ ?ds)"
    using printable_hex_digits [of "nat (sint i)"] by (auto simp: list_all_iff printable_def)
  ultimately show thesis using that by blast
qed

lemma escape_u_defined:
  assumes "unat i < 2 ^ 31"
  obtains t where "escape_u i = Some t" "list_all printable t"
proof -
  obtain h where "int_to_string_hex i 4 = Some h" "list_all printable h"
    by (rule int_to_string_hex_defined [OF assms])
  then show thesis using that [of "[0x5C, 0x75] @ h"] by (simp add: escape_u_def printable_def)
qed

lemma escape_code_defined:
  assumes "unat c < 0x110000"
  obtains t where "escape_code c = Some t" "list_all printable t"
proof (cases "c \<le> 0xFFFF")
  case True
  then have "unat c < 2 ^ 31" using assms by simp
  from escape_u_defined [OF this] that True show thesis by (auto simp: escape_code_def)
next
  case False
  then have ge: "0x10000 \<le> unat c" by (simp add: word_le_nat_alt)
  then have b: "unat (c - 0x10000) = unat c - 0x10000" by (subst unat_sub_le) (simp_all add: word_le_nat_alt)
  have plus: "unat (x + y) \<le> unat x + unat y" for x y :: u32
    by (simp add: unat_word_ariths)
  have dr: "unat (drop_bit 10 (of_nat (unat (c - 0x10000)) :: u32)) \<le> unat (c - 0x10000)"
  proof -
    have lt: "unat (c - 0x10000) < 2 ^ 32" using b assms by simp
    then have "unat (c - 0x10000) div 2 ^ 10 < 2 ^ 32" by (meson div_le_dividend le_less_trans)
    then have "unat (of_nat (unat (c - 0x10000) div 2 ^ 10) :: u32) = unat (c - 0x10000) div 2 ^ 10"
      by (intro unat_of_nat_small) simp
    then show ?thesis unfolding drop_bit_of_nat_u32 [OF lt] by simp
  qed
  have d2: "unat (drop_bit 10 (c - 0x10000)) \<le> unat c"
    using dr [unfolded of_unat_u32] b by linarith
  have h: "unat (drop_bit 10 (c - 0x10000) + 0xD800) < 2 ^ 31"
    using plus [of "drop_bit 10 (c - 0x10000)" "0xD800"] d2 assms by simp
  have "((c - 0x10000) AND 0x03FF) \<le> 0x03FF" by (rule word_and_le1)
  then have l: "unat (((c - 0x10000) AND 0x03FF) + 0xDC00) < 2 ^ 31"
    using plus [of "(c - 0x10000) AND 0x03FF" "0xDC00"] by (simp add: word_le_nat_alt)
  obtain t where t: "escape_u (drop_bit 10 (c - 0x10000) + 0xD800) = Some t" "list_all printable t"
    by (rule escape_u_defined [OF h])
  obtain t' where t': "escape_u (((c - 0x10000) AND 0x03FF) + 0xDC00) = Some t'" "list_all printable t'"
    by (rule escape_u_defined [OF l])
  have "c \<le> 0x10FFFF" using assms by (simp add: word_le_nat_alt)
  then show thesis
    using that [of "t @ t'"] False t t' by (simp add: escape_code_def Let_def)
qed

section \<open>Escaping a text\<close>

lemma code_text_ascii_simple: "simple_escape b = Some e \<Longrightarrow> unat b < 0x80 \<and> printable e"
  by (auto simp: simple_escape_def printable_def split: if_splits)

lemma byte_cases_high: 
  assumes "32 \<le> sint (c :: byte) \<and> sint c \<le> 126"
  shows "unat c < 128"
proof (rule ccontr)
  assume "\<not> unat c < 128"
  have "uint c = take_bit 8 (sint c)" by (simp add: uint_sint)
  then have "uint c = sint c" using assms by (simp add: take_bit_int_eq_self)
  moreover have "int (unat c) = uint c" by (rule of_nat_unat)
  ultimately show False using \<open>\<not> unat c < 128\<close> assms by linarith
qed

lemma printable_code_text:
  assumes "unicode_scalar n"
  shows "list_all printable (code_text n)"
proof -
  have "unat (of_nat n :: u32) = n" using assms by (intro unat_of_nat_small) (auto simp: unicode_scalar_def)
  then have "unat (of_nat n :: u32) < 0x110000" using assms by (auto simp: unicode_scalar_def)
  then obtain t where t: "escape_code (of_nat n) = Some t" "list_all printable t"
    by (rule escape_code_defined)
  have "printable (of_nat n)" if "32 \<le> n" "n \<le> 126"
    using that by (simp add: printable_def word_le_nat_alt unat_of_nat_small)
  then show ?thesis
    using t code_text_ascii_simple by (auto simp: code_text_def printable_def split: option.splits)
qed

lemma utf8_lead_high:
  assumes "len \<in> {2, 3, 4}" and "v < 2 ^ (7 - len)"
  shows "128 \<le> unat (utf8_lead len v)"
proof (rule ccontr)
  assume "\<not> 128 \<le> unat (utf8_lead len v)"
  then have "utf8_ascii_ok (unat (utf8_lead len v))" by (intro utf8_ascii) simp
  then have "leading_ones [0x80, 0x40, 0x20, 0x10, 0x08, 0x04] (utf8_lead len v) = 0"
    by (simp add: utf8_ascii_ok_def del: leading_ones.simps)
  then show False
    using utf8_lead [OF assms] assms(1) unfolding utf8_lead_ok_def by auto
qed

lemma utf8_bytes_high:
  assumes "unicode_scalar n" and "\<not> n < 0x80"
  shows "128 \<le> unat (hd (utf8_bytes n))"
proof -
  have "n < 0x110000" using assms(1) by (auto simp: unicode_scalar_def)
  then have "n < 0x800 \<Longrightarrow> n div 64 < 2 ^ (7 - 2)" "n < 0x10000 \<Longrightarrow> n div 4096 < 2 ^ (7 - 3)"
    "n div 262144 < 2 ^ (7 - 4)" by simp_all
  then show ?thesis
    using assms(2) utf8_lead_high [of 2 "n div 64"] utf8_lead_high [of 3 "n div 4096"]
      utf8_lead_high [of 4 "n div 262144"]
    by (simp add: utf8_bytes_def)
qed

text \<open>One turn of the loop consumes one code.\<close>

lemma escape_char_code:
  assumes n: "unicode_scalar n" and s: "drop (unat i) s = utf8_bytes n @ rest" and len: "length s < 2 ^ 32"
  shows "escape_char allow False s i = Some (Some (code_text n, of_nat (unat i + length (utf8_bytes n) - 1)))"
proof -
  have ls: "length s = unat i + length (utf8_bytes n) + length rest"
  proof -
    have "unat i \<le> length s" using s by (cases "unat i \<le> length s") (auto simp: utf8_bytes_def split: if_splits)
    then show ?thesis using arg_cong [OF s, of length] by simp
  qed
  have dec: "from_utf8 (drop (unat i) s) = Some (Some (of_nat n), rest)"
    unfolding s by (rule from_utf8_bytes [OF n])
  obtain c bs where c: "utf8_bytes n = c # bs" by (cases "utf8_bytes n") (auto simp: utf8_bytes_def split: if_splits)
  have "unat (of_nat n :: u32) = n" using n by (intro unat_of_nat_small) (auto simp: unicode_scalar_def)
  then have "unat (of_nat n :: u32) < 0x110000" using n by (auto simp: unicode_scalar_def)
  then obtain t where t: "escape_code (of_nat n) = Some t" by (rule escape_code_defined)
  show ?thesis
  proof (cases "n < 0x80")
    case True
    then have b: "c = of_nat n" "bs = []" "unat c = n" using c by (auto simp: utf8_bytes_def unat_of_nat_small)
    then have "sint c = int n" using sint_small [of c] True by simp
    then show ?thesis
      using s c b True dec t ls
      by (auto simp: escape_char_def code_text_def split: option.splits)
  next
    case False
    have "128 \<le> unat c" using utf8_bytes_high [OF n False] by (simp add: c)
    then have "simple_escape c = None" "\<not> (32 \<le> sint c \<and> sint c \<le> 126)"
      using code_text_ascii_simple [of c] byte_cases_high [of c] by (cases "simple_escape c"; force)+
    then show ?thesis
      using s c False dec t ls n by (auto simp: escape_char_def code_text_def)
  qed
qed

lemma utf8_bytes_not_Nil [simp]: "utf8_bytes n \<noteq> []"
  by (simp add: utf8_bytes_def)

lemma escape_from_codes:
  assumes "\<forall>n \<in> set cps. unicode_scalar n" and "drop (unat i) s = concat (map utf8_bytes cps) @ rest"
    and "length s < 2 ^ 32" and "unat i \<le> length s"
  shows "escape_from allow False s (unat i + length (concat (map utf8_bytes cps))) i pre =
    Some (True, pre @ concat (map code_text cps) @ [0x22])"
  using assms
proof (induction cps arbitrary: i pre)
  case Nil
  then show ?case by (subst escape_from.simps) simp
next
  case (Cons n cps)
  let ?k = "length (utf8_bytes n)"
  have k: "0 < ?k" by simp
  have le: "unat i + ?k + length (concat (map utf8_bytes cps)) \<le> length s"
    using arg_cong [OF Cons.prems(2), of length] Cons.prems(4) by simp
  let ?j = "of_nat (unat i + ?k - 1) :: u32"
  have "?j + 1 = of_nat (unat i + ?k)"
    using k by (metis Suc_pred add_gr_0 add.commute of_nat_Suc One_nat_def)
  moreover have "unat (of_nat (unat i + ?k) :: u32) = unat i + ?k"
    using le Cons.prems(3) by (intro unat_of_nat_small) simp
  ultimately have j: "unat (?j + 1) = unat i + ?k" by simp
  have "drop (unat (?j + 1)) s = concat (map utf8_bytes cps) @ rest"
    unfolding j drop_drop [symmetric, of ?k, unfolded add.commute [of ?k]] using Cons.prems(2) by simp
  then have IH: "escape_from allow False s (unat (?j + 1) + length (concat (map utf8_bytes cps))) (?j + 1)
      (pre @ code_text n) = Some (True, (pre @ code_text n) @ concat (map code_text cps) @ [0x22])"
    using Cons.prems(1,3) le j by (intro Cons.IH) simp_all
  have "escape_char allow False s i = Some (Some (code_text n, ?j))"
    using Cons.prems by (intro escape_char_code [where rest = "concat (map utf8_bytes cps) @ rest"]) simp_all
  then show ?case
    using IH k unfolding j by (subst escape_from.simps) (simp add: add.assoc)
qed



end
