(* ===== verification/Fb_Number.thy ===== *)
theory Fb_Number
  imports Fb_Escape
begin

text \<open>
  \<open>examples/flatbuffers/util.h\<close>: integers to text and back.  A C string is the list of its
  bytes before the terminating zero.  \<open>strtoll\<close> and \<open>strtoull\<close> are the functions of the C
  standard in the classic locale: value, rest of the string, and whether \<open>errno\<close> is set.
\<close>

section \<open>Printing\<close>

fun dec_digits :: "nat \<Rightarrow> byte list" where
  "dec_digits n = (if n < 10 then [of_nat (0x30 + n)] else dec_digits (n div 10) @ [of_nat (0x30 + n mod 10)])"

declare dec_digits.simps [simp del]

definition num_to_string :: "int \<Rightarrow> byte list" where
  "num_to_string i = (if i < 0 then 0x2D # dec_digits (nat (- i)) else dec_digits (nat i))"

section \<open>The C library's conversion\<close>

definition digit_value :: "byte \<Rightarrow> nat option" where
  "digit_value c =
     (if 0x30 \<le> c \<and> c \<le> 0x39 then Some (unat c - 0x30)
      else if 0x41 \<le> c \<and> c \<le> 0x5A then Some (unat c - 0x37)
      else if 0x61 \<le> c \<and> c \<le> 0x7A then Some (unat c - 0x57)
      else None)"

definition digit_of :: "nat \<Rightarrow> byte \<Rightarrow> bool" where
  "digit_of base c \<longleftrightarrow> (case digit_value c of None \<Rightarrow> False | Some d \<Rightarrow> d < base)"

definition digits_value :: "nat \<Rightarrow> byte list \<Rightarrow> nat" where
  "digits_value base ds = foldl (\<lambda>n c. n * base + the (digit_value c)) 0 ds"

definition skip_hex_prefix :: "nat \<Rightarrow> byte list \<Rightarrow> byte list" where
  "skip_hex_prefix base s =
     (case s of
        z # x # d # _ \<Rightarrow> if base = 16 \<and> z = 0x30 \<and> x \<in> {0x58, 0x78} \<and> digit_of 16 d then drop 2 s else s
      | _ \<Rightarrow> s)"

definition split_sign :: "byte list \<Rightarrow> bool \<times> byte list" where
  "split_sign s =
     (case s of [] \<Rightarrow> (False, [])
      | c # t \<Rightarrow> if c = 0x2D then (True, t) else if c = 0x2B then (False, t) else (False, s))"

text \<open>Sign, magnitude and rest; \<open>None\<close> when there is no digit.\<close>

definition scan_integer :: "nat \<Rightarrow> byte list \<Rightarrow> (bool \<times> nat \<times> byte list) option" where
  "scan_integer base s =
     (let (neg, t) = split_sign (dropWhile is_space s);
          u = skip_hex_prefix base t;
          ds = takeWhile (digit_of base) u
      in if ds = [] then None else Some (neg, digits_value base ds, dropWhile (digit_of base) u))"

type_synonym strto = "nat \<Rightarrow> byte list \<Rightarrow> int \<times> byte list \<times> bool"

definition strtoll :: strto where
  "strtoll base s =
     (case scan_integer base s of
        None \<Rightarrow> (0, s, False)
      | Some (neg, n, rest) \<Rightarrow>
          let v = (if neg then - int n else int n) in
          if v > 2 ^ 63 - 1 then (2 ^ 63 - 1, rest, True)
          else if v < - (2 ^ 63) then (- (2 ^ 63), rest, True)
          else (v, rest, False))"

definition strtoull :: strto where
  "strtoull base s =
     (case scan_integer base s of
        None \<Rightarrow> (0, s, False)
      | Some (neg, n, rest) \<Rightarrow>
          if 2 ^ 64 \<le> n then (2 ^ 64 - 1, rest, True)
          else ((if neg then (- int n) mod 2 ^ 64 else int n), rest, False))"

section \<open>Parsing\<close>

text \<open>Whether the conversion succeeded, and the value stored.\<close>

definition string_to_integer_base :: "strto \<Rightarrow> byte list \<Rightarrow> nat \<Rightarrow> bool \<Rightarrow> bool \<times> int" where
  "string_to_integer_base strto s base check_errno =
     (let (v, endptr, err) = strto base s in
      if endptr \<noteq> [] \<or> length endptr = length s then (False, 0)
      else if check_errno \<and> err then (False, v) else (True, v))"

definition string_to_integer_impl :: "strto \<Rightarrow> byte list \<Rightarrow> int \<Rightarrow> bool \<Rightarrow> bool \<times> int" where
  "string_to_integer_impl strto str base check_errno =
     (if base \<le> 0 then
        (case dropWhile (\<lambda>c. \<not> is_digit c) str of
           z # x # _ \<Rightarrow>
             if z = 0x30 \<and> is_alpha_char x 0x58 then string_to_integer_base strto str 16 check_errno
             else string_to_integer_base strto str 10 check_errno
         | _ \<Rightarrow> string_to_integer_base strto str 10 check_errno)
      else string_to_integer_base strto str (nat base) check_errno)"

text \<open>\<open>StringToNumber\<close> for a type narrower than 64 bits with the range from \<open>lowest\<close> to \<open>highest\<close>.\<close>

definition string_to_number :: "int \<Rightarrow> int \<Rightarrow> bool \<Rightarrow> byte list \<Rightarrow> bool \<times> int" where
  "string_to_number lowest highest is_unsigned s =
     (let (ok, i64) = string_to_integer_impl strtoll s 0 False in
      if ok then
        if i64 > highest then (False, highest)
        else if i64 < lowest then (False, if is_unsigned then highest else lowest)
        else (True, i64)
      else (False, 0))"

definition string_to_number_i64 :: "byte list \<Rightarrow> bool \<times> int" where
  "string_to_number_i64 str = string_to_integer_impl strtoll str 0 True"

text \<open>The sign is the character before the first digit.\<close>

definition string_to_number_u64 :: "byte list \<Rightarrow> bool \<times> int" where
  "string_to_number_u64 str =
     (let (ok, v) = string_to_integer_impl strtoull str 0 True in
      if \<not> ok then (False, v)
      else if v \<noteq> 0 then
        let pre = takeWhile (\<lambda>c. \<not> is_digit c) str in
        if (if pre = [] then hd str else last pre) = 0x2D then (False, 2 ^ 64 - 1) else (True, v)
      else (True, v))"

definition string_to_int :: "byte list \<Rightarrow> int \<Rightarrow> int" where
  "string_to_int s base = (let (ok, v) = string_to_integer_impl strtoll s base True in if ok then v else 0)"

definition string_to_uint :: "byte list \<Rightarrow> int \<Rightarrow> int" where
  "string_to_uint s base = (let (ok, v) = string_to_integer_impl strtoull s base True in if ok then v else 0)"

section \<open>Reading back what was printed\<close>

definition dec_digit :: "byte \<Rightarrow> bool" where
  "dec_digit c \<longleftrightarrow> 0x30 \<le> c \<and> c \<le> 0x39"

lemma dec_digit_of_nat: "d < 10 \<Longrightarrow> dec_digit (of_nat (0x30 + d)) \<and> digit_value (of_nat (0x30 + d)) = Some d"
  by (simp add: dec_digit_def digit_value_def word_le_nat_alt unat_of_nat_small del: of_nat_add)

lemma dec_digit_classes:
  assumes "dec_digit c"
  shows "is_digit c" and "digit_of 10 c" and "\<not> is_space c" and "c \<noteq> 0x2D" and "c \<noteq> 0x2B"
proof -
  have u: "48 \<le> unat c" "unat c \<le> 57" using assms by (simp_all add: dec_digit_def word_le_nat_alt)
  have "sint c = int (unat c)" using u by (intro sint_small) simp
  then have d: "sint c - sint (0x30 :: byte) = int (unat c - 48)" using u(1) by simp
  have "unat (of_nat (unat c - 48) :: u32) = unat c - 48" using u by (intro unat_of_nat_small) simp
  then have "(of_nat (unat c - 48) :: u32) \<le> 9" using u by (simp add: word_le_nat_alt)
  then show "is_digit c" unfolding is_digit_def check_ascii_range_def d by simp
  show "digit_of 10 c" using assms u by (simp add: digit_of_def digit_value_def dec_digit_def)
  show "\<not> is_space c" "c \<noteq> 0x2D" "c \<noteq> 0x2B" using u by (auto simp: is_space_def)
qed

lemma dec_digits_all: "list_all dec_digit (dec_digits n)"
proof (induction n rule: dec_digits.induct)
  case (1 n)
  then show ?case
    by (subst dec_digits.simps) (simp add: dec_digit_of_nat del: of_nat_add)
qed

lemma dec_digits_value: "digits_value 10 (dec_digits n) = n"
proof (induction n rule: dec_digits.induct)
  case (1 n)
  then show ?case
    by (subst dec_digits.simps) (simp add: digits_value_def dec_digit_of_nat del: of_nat_add)
qed

lemma dec_digits_not_Nil [simp]: "dec_digits n \<noteq> []"
  by (subst dec_digits.simps) simp

lemma takeWhile_all: "list_all P xs \<Longrightarrow> takeWhile P xs = xs" "list_all P xs \<Longrightarrow> dropWhile P xs = []"
  by (induction xs) auto

lemma dec_digits_first: "\<exists>c cs. dec_digits n = c # cs \<and> dec_digit c \<and> (c = 0x30 \<longrightarrow> n = 0 \<and> cs = [])"
proof (induction n rule: dec_digits.induct)
  case (1 n)
  show ?case
  proof (cases "n < 10")
    case True
    have "unat (of_nat (0x30 + n) :: byte) = 0x30 + n" using True by (intro unat_of_nat_small) simp
    then have "(of_nat (0x30 + n) :: byte) = 0x30 \<Longrightarrow> n = 0" by simp
    moreover have "dec_digits n = [of_nat (0x30 + n)]" using True by (subst dec_digits.simps) (simp only: if_True)
    ultimately show ?thesis using dec_digit_of_nat [OF True] by blast
  next
    case False
    then obtain c cs where c: "dec_digits (n div 10) = c # cs" "dec_digit c"
        "c = 0x30 \<longrightarrow> n div 10 = 0 \<and> cs = []"
      using 1 by blast
    have "dec_digits n = c # cs @ [of_nat (0x30 + n mod 10)]"
      using False c(1) by (subst dec_digits.simps) (simp del: of_nat_add)
    then show ?thesis using c False by auto
  qed
qed

text \<open>The conversion of a decimal text, with or without minus sign.\<close>

lemma scan_decimal:
  assumes "list_all dec_digit ds" and "ds \<noteq> []"
  shows "scan_integer 10 ds = Some (False, digits_value 10 ds, [])"
    and "scan_integer 10 (0x2D # ds) = Some (True, digits_value 10 ds, [])"
proof -
  obtain c cs where ds: "ds = c # cs" "dec_digit c" using assms by (cases ds) auto
  have "list_all (digit_of 10) ds"
    using assms(1) dec_digit_classes(2) by (auto simp: list_all_iff)
  note tw = takeWhile_all [OF this]
  have sk: "skip_hex_prefix 10 ds = ds" by (simp add: skip_hex_prefix_def split: list.splits)
  have body: "scan_integer 10 s = Some (neg, digits_value 10 ds, [])"
    if "split_sign (dropWhile is_space s) = (neg, ds)" for s neg
    unfolding scan_integer_def that Let_def prod.case sk tw using assms(2) by (simp only: if_False)
  show "scan_integer 10 ds = Some (False, digits_value 10 ds, [])"
    using dec_digit_classes [OF ds(2)] by (intro body) (simp add: ds(1) split_sign_def)
  show "scan_integer 10 (0x2D # ds) = Some (True, digits_value 10 ds, [])"
    by (intro body) (simp add: is_space_def split_sign_def)
qed

lemma base_of_decimal:
  assumes "pre \<in> {[], [0x2D]}"
  shows "string_to_integer_impl strto (pre @ dec_digits n) 0 check = string_to_integer_base strto (pre @ dec_digits n) 10 check"
proof -
  obtain c cs where ds: "dec_digits n = c # cs" "dec_digit c" "c = 0x30 \<longrightarrow> n = 0 \<and> cs = []"
    using dec_digits_first by blast
  have "\<not> is_digit 0x2D" by code_simp
  then have "dropWhile (\<lambda>c. \<not> is_digit c) (pre @ dec_digits n) = c # cs"
    using assms dec_digit_classes(1) [OF ds(2)] by (auto simp: ds(1))
  then show ?thesis
    using ds(3) by (auto simp: string_to_integer_impl_def split: list.splits)
qed

lemma number_round_trip:
  assumes "- (2 ^ 63) \<le> i" "i < 2 ^ 63"
  shows "string_to_integer_impl strtoll (num_to_string i) 0 check = (True, i)"
proof (cases "i < 0")
  case True
  define ds where "ds = dec_digits (nat (- i))"
  have "scan_integer 10 (0x2D # ds) = Some (True, nat (- i), [])"
    using scan_decimal(2) [OF dec_digits_all] by (simp add: dec_digits_value ds_def)
  then have "strtoll 10 (0x2D # ds) = (i, [], False)"
    using True assms by (simp add: strtoll_def Let_def)
  then show ?thesis
    using True base_of_decimal [of "[0x2D]" strtoll "nat (- i)" check]
    by (simp add: num_to_string_def string_to_integer_base_def flip: ds_def)
next
  case False
  define ds where "ds = dec_digits (nat i)"
  have "scan_integer 10 ds = Some (False, nat i, [])"
    using scan_decimal(1) [OF dec_digits_all] by (simp add: dec_digits_value ds_def)
  then have "strtoll 10 ds = (i, [], False)"
    using False assms by (simp add: strtoll_def Let_def)
  moreover have "ds \<noteq> []" by (simp add: ds_def)
  ultimately show ?thesis
    using False base_of_decimal [of "[]" strtoll "nat i" check]
    by (simp add: num_to_string_def string_to_integer_base_def flip: ds_def)
qed

text \<open>A decimal text is read back by \<open>StringToNumber\<close> for every type of 8 to 64 bits.\<close>

theorem number_text_roundtrip:
  assumes "- (2 ^ 63) \<le> lowest" "lowest \<le> i" "i \<le> highest" "highest < 2 ^ 63"
  shows "string_to_number lowest highest u (num_to_string i) = (True, i)"
    and "string_to_number_i64 (num_to_string i) = (True, i)"
    and "string_to_int (num_to_string i) 0 = i"
proof -
  have i: "- (2 ^ 63) \<le> i" "i < 2 ^ 63" using assms by auto
  show "string_to_number lowest highest u (num_to_string i) = (True, i)"
    using number_round_trip [OF i] assms(2,3) by (simp add: string_to_number_def)
  show "string_to_number_i64 (num_to_string i) = (True, i)"
    using number_round_trip [OF i] by (simp add: string_to_number_i64_def)
  show "string_to_int (num_to_string i) 0 = i"
    using number_round_trip [OF i] by (simp add: string_to_int_def)
qed

end
