(* ===== verification/Fb_Hash.thy ===== *)
theory Fb_Hash
  imports Fb_Text
begin

text \<open>
  \<open>examples/flatbuffers/hash.h\<close>: the FNV hash functions of a C string and the tables that find
  them by name.  A C string is the list of its bytes before the terminating zero.
\<close>

unbundle bit_operations_syntax

section \<open>The hashes\<close>

text \<open>\<open>FnvTraits\<close>: prime and offset basis, for 32 and 64 bits.\<close>

definition fnv_prime32 :: u32 where "fnv_prime32 = 0x01000193"
definition fnv_basis32 :: u32 where "fnv_basis32 = 0x811C9DC5"
definition fnv_prime64 :: "64 word" where "fnv_prime64 = 0x00000100000001b3"
definition fnv_basis64 :: "64 word" where "fnv_basis64 = 0xcbf29ce484222645"

definition hash_fnv1 :: "'w::len word \<Rightarrow> 'w word \<Rightarrow> byte list \<Rightarrow> 'w word" where
  "hash_fnv1 prime basis input = foldl (\<lambda>hash c. (hash * prime) XOR ucast c) basis input"

definition hash_fnv1a :: "'w::len word \<Rightarrow> 'w word \<Rightarrow> byte list \<Rightarrow> 'w word" where
  "hash_fnv1a prime basis input = foldl (\<lambda>hash c. (hash XOR ucast c) * prime) basis input"

definition hash_fnv1_16 :: "byte list \<Rightarrow> u16" where
  "hash_fnv1_16 input = (let hash = hash_fnv1 fnv_prime32 fnv_basis32 input in
     ucast (drop_bit 16 hash XOR (hash AND 0xffff)))"

definition hash_fnv1a_16 :: "byte list \<Rightarrow> u16" where
  "hash_fnv1a_16 input = (let hash = hash_fnv1a fnv_prime32 fnv_basis32 input in
     ucast (drop_bit 16 hash XOR (hash AND 0xffff)))"

section \<open>Finding a hash by its name\<close>

definition hash_functions16 :: "(byte list \<times> (byte list \<Rightarrow> u16)) list" where
  "hash_functions16 = [(ascii ''fnv1_16'', hash_fnv1_16), (ascii ''fnv1a_16'', hash_fnv1a_16)]"

definition hash_functions32 :: "(byte list \<times> (byte list \<Rightarrow> u32)) list" where
  "hash_functions32 = [(ascii ''fnv1_32'', hash_fnv1 fnv_prime32 fnv_basis32),
     (ascii ''fnv1a_32'', hash_fnv1a fnv_prime32 fnv_basis32)]"

definition hash_functions64 :: "(byte list \<times> (byte list \<Rightarrow> 64 word)) list" where
  "hash_functions64 = [(ascii ''fnv1_64'', hash_fnv1 fnv_prime64 fnv_basis64),
     (ascii ''fnv1a_64'', hash_fnv1a fnv_prime64 fnv_basis64)]"

text \<open>The three loops over the tables: the first entry of the name, \<open>None\<close> for \<open>nullptr\<close>.\<close>

definition find_hash_function16 :: "byte list \<Rightarrow> (byte list \<Rightarrow> u16) option" where
  "find_hash_function16 name = map_option snd (find (\<lambda>(n, f). name = n) hash_functions16)"

definition find_hash_function32 :: "byte list \<Rightarrow> (byte list \<Rightarrow> u32) option" where
  "find_hash_function32 name = map_option snd (find (\<lambda>(n, f). name = n) hash_functions32)"

definition find_hash_function64 :: "byte list \<Rightarrow> (byte list \<Rightarrow> 64 word) option" where
  "find_hash_function64 name = map_option snd (find (\<lambda>(n, f). name = n) hash_functions64)"

section \<open>Facts\<close>

lemma hash_fnv1_append: "hash_fnv1 p b (xs @ ys) = hash_fnv1 p (hash_fnv1 p b xs) ys"
  by (simp add: hash_fnv1_def)

lemma hash_fnv1a_append: "hash_fnv1a p b (xs @ ys) = hash_fnv1a p (hash_fnv1a p b xs) ys"
  by (simp add: hash_fnv1a_def)

text \<open>Every step is invertible, so two inputs that differ in their last byte differ in the hash.\<close>

lemma xor_cancel: "(a :: 'w::len word) XOR b = a XOR c \<longleftrightarrow> b = c"
  by (metis xor.assoc xor.left_neutral xor_self_eq)

lemma hash_fnv1_last:
  assumes "LENGTH(8) \<le> LENGTH('w::len)"
  shows "hash_fnv1 (p :: 'w word) b (xs @ [x]) = hash_fnv1 p b (xs @ [y]) \<longleftrightarrow> x = y"
proof -
  have u: "unat (ucast z :: 'w word) = unat z" for z :: byte
  proof -
    have "unat z < 2 ^ LENGTH(8)" by (rule unsigned_less)
    also have "(2 :: nat) ^ LENGTH(8) \<le> 2 ^ LENGTH('w)" using assms by (intro power_increasing) simp_all
    finally show ?thesis by (simp add: unsigned_ucast_eq take_bit_nat_eq_self)
  qed
  have "x = y" if "(ucast x :: 'w word) = ucast y"
    using u [of x] u [of y] that by (metis word_unat_eq_iff)
  then show ?thesis
    by (auto simp: hash_fnv1_def xor_cancel)
qed

end
