(* ===== verification/Fb_Vector.thy ===== *)
theory Fb_Vector
  imports Fb_Table
begin

text \<open>
  \<open>examples/flatbuffers/vector.h\<close>, the element access of \<open>buffer.h\<close> and the comparisons of
  \<open>string.h\<close>.  A pointer to a \<open>Vector\<close> is the address of its length field; the elements
  follow it.  There are three kinds of elements, as the specialisations of \<open>IndirectHelper\<close>:
  scalars stored in place, offsets that are followed, and structs of which the address is
  returned.  A key comparison is code generated for the table; it is the parameter \<open>kcwv\<close>.
\<close>

section \<open>Elements\<close>

datatype element = Scalar_Element size_t | Offset_Element | Struct_Element size_t

fun element_stride :: "element \<Rightarrow> size_t" where
  "element_stride (Scalar_Element n) = n"
| "element_stride Offset_Element = 4"
| "element_stride (Struct_Element n) = n"

text \<open>What \<open>Read(p, i)\<close> returns: the bytes of a scalar, or a pointer.\<close>

definition indirect_read_scalar :: "size_t \<Rightarrow> byte list \<Rightarrow> size_t \<Rightarrow> u32 \<Rightarrow> byte list option" where
  "indirect_read_scalar n buf p i = read_bytes (unat n) buf (p + ucast i * n)"

definition indirect_read_offset :: "byte list \<Rightarrow> size_t \<Rightarrow> u32 \<Rightarrow> size_t option" where
  "indirect_read_offset buf p i = do {
     let p = p + ucast i * 4;
     off \<leftarrow> read_u32 buf p;
     Some (p + ucast off)
   }"

definition indirect_read_struct :: "size_t \<Rightarrow> size_t \<Rightarrow> u32 \<Rightarrow> size_t" where
  "indirect_read_struct n p i = p + ucast i * n"

datatype element_value = Scalar_Value "byte list" | Pointer_Value size_t

fun indirect_read :: "element \<Rightarrow> byte list \<Rightarrow> size_t \<Rightarrow> u32 \<Rightarrow> element_value option" where
  "indirect_read (Scalar_Element n) buf p i = map_option Scalar_Value (indirect_read_scalar n buf p i)"
| "indirect_read Offset_Element buf p i = map_option Pointer_Value (indirect_read_offset buf p i)"
| "indirect_read (Struct_Element n) buf p i = Some (Pointer_Value (indirect_read_struct n p i))"

section \<open>The vector\<close>

definition vector_data :: "size_t \<Rightarrow> size_t" where
  "vector_data vec = vec + 4"

definition vector_get :: "element \<Rightarrow> byte list \<Rightarrow> size_t \<Rightarrow> u32 \<Rightarrow> element_value option" where
  "vector_get e buf vec i = do {
     n \<leftarrow> vector_size buf vec;
     (if i < n then indirect_read e buf (vector_data vec) i else None)
   }"

definition vector_get_mutable_object :: "element \<Rightarrow> byte list \<Rightarrow> size_t \<Rightarrow> u32 \<Rightarrow> element_value option" where
  "vector_get_mutable_object e buf vec i = do {
     n \<leftarrow> vector_size buf vec;
     (if i < n then indirect_read e buf (vector_data vec) i else None)
   }"

definition vector_get_struct_from_offset :: "size_t \<Rightarrow> size_t \<Rightarrow> size_t" where
  "vector_get_struct_from_offset vec off = vector_data vec + off"

definition vector_mutate :: "byte list \<Rightarrow> byte list \<Rightarrow> size_t \<Rightarrow> u32 \<Rightarrow> byte list option" where
  "vector_mutate val buf vec i = do {
     n \<leftarrow> vector_size buf vec;
     (if i < n then write_bytes val buf (vector_data vec + ucast i * of_nat (length val)) else None)
   }"

definition vector_mutate_offset :: "size_t \<Rightarrow> byte list \<Rightarrow> size_t \<Rightarrow> u32 \<Rightarrow> byte list option" where
  "vector_mutate_offset val buf vec i = do {
     n \<leftarrow> vector_size buf vec;
     (if i < n
      then let p = vector_data vec + ucast i * 4 in write_bytes (u32_bytes (ucast (val - p))) buf p
      else None)
   }"

definition vector_length :: "byte list \<Rightarrow> size_t option \<Rightarrow> size_t option" where
  "vector_length buf vec = (case vec of None \<Rightarrow> Some 0 | Some v \<Rightarrow> map_option ucast (vector_size buf v))"

text \<open>A span is a pointer and a number of elements.\<close>

definition make_span :: "byte list \<Rightarrow> size_t \<Rightarrow> (size_t \<times> size_t) option" where
  "make_span buf vec = do { n \<leftarrow> vector_size buf vec; Some (vector_data vec, ucast n) }"

definition make_bytes_span :: "size_t \<Rightarrow> byte list \<Rightarrow> size_t \<Rightarrow> (size_t \<times> size_t) option" where
  "make_bytes_span sz buf vec = do { n \<leftarrow> vector_size buf vec; Some (vector_data vec, ucast n * sz) }"

definition make_span_ptr :: "byte list \<Rightarrow> size_t option \<Rightarrow> (size_t option \<times> size_t) option" where
  "make_span_ptr buf ptr =
     (case ptr of
        None \<Rightarrow> Some (None, 0)
      | Some v \<Rightarrow> do { (p, n) \<leftarrow> make_span buf v; Some (Some p, n) })"

section \<open>Iterators\<close>

text \<open>An iterator is the pointer \<open>data_\<close>; \<open>s\<close> is the stride of the elements.\<close>

definition iter_new :: "size_t \<Rightarrow> size_t \<Rightarrow> u32 \<Rightarrow> size_t" where
  "iter_new s data i = data + s * ucast i"

definition iter_eq :: "size_t \<Rightarrow> size_t \<Rightarrow> bool" where
  "iter_eq it other \<longleftrightarrow> it = other"

definition iter_less :: "size_t \<Rightarrow> size_t \<Rightarrow> bool" where
  "iter_less it other \<longleftrightarrow> it < other"

definition iter_neq :: "size_t \<Rightarrow> size_t \<Rightarrow> bool" where
  "iter_neq it other \<longleftrightarrow> it \<noteq> other"

text \<open>The signed difference is divided by the unsigned \<open>element_stride\<close>.\<close>

definition iter_diff :: "size_t \<Rightarrow> size_t \<Rightarrow> size_t \<Rightarrow> 64 word" where
  "iter_diff s it other = (it - other) div s"

definition iter_deref :: "element \<Rightarrow> byte list \<Rightarrow> size_t \<Rightarrow> element_value option" where
  "iter_deref e buf it = indirect_read e buf it 0"

definition iter_arrow :: "element \<Rightarrow> byte list \<Rightarrow> size_t \<Rightarrow> element_value option" where
  "iter_arrow e buf it = indirect_read e buf it 0"

definition iter_inc :: "size_t \<Rightarrow> size_t \<Rightarrow> size_t" where
  "iter_inc s it = it + s"

text \<open>The postfix operators return the old iterator and the new one.\<close>

definition iter_post_inc :: "size_t \<Rightarrow> size_t \<Rightarrow> size_t \<times> size_t" where
  "iter_post_inc s it = (iter_new s it 0, it + s)"

definition iter_plus :: "size_t \<Rightarrow> size_t \<Rightarrow> u32 \<Rightarrow> size_t" where
  "iter_plus s it offset = iter_new s (it + ucast offset * s) 0"

definition iter_add :: "size_t \<Rightarrow> size_t \<Rightarrow> u32 \<Rightarrow> size_t" where
  "iter_add s it offset = it + ucast offset * s"

definition iter_dec :: "size_t \<Rightarrow> size_t \<Rightarrow> size_t" where
  "iter_dec s it = it - s"

definition iter_post_dec :: "size_t \<Rightarrow> size_t \<Rightarrow> size_t \<times> size_t" where
  "iter_post_dec s it = (iter_new s it 0, it - s)"

definition iter_minus :: "size_t \<Rightarrow> size_t \<Rightarrow> u32 \<Rightarrow> size_t" where
  "iter_minus s it offset = iter_new s (it - ucast offset * s) 0"

definition iter_sub :: "size_t \<Rightarrow> size_t \<Rightarrow> u32 \<Rightarrow> size_t" where
  "iter_sub s it offset = it - ucast offset * s"

text \<open>A reverse iterator is the iterator one past the element it stands for.\<close>

definition reverse_deref :: "element \<Rightarrow> byte list \<Rightarrow> size_t \<Rightarrow> element_value option" where
  "reverse_deref e buf it = iter_deref e buf (iter_dec (element_stride e) it)"

definition reverse_arrow :: "element \<Rightarrow> byte list \<Rightarrow> size_t \<Rightarrow> element_value option" where
  "reverse_arrow e buf it = iter_deref e buf (iter_dec (element_stride e) it)"

definition vector_begin :: "element \<Rightarrow> size_t \<Rightarrow> size_t" where
  "vector_begin e vec = iter_new (element_stride e) (vector_data vec) 0"

definition vector_end :: "element \<Rightarrow> byte list \<Rightarrow> size_t \<Rightarrow> size_t option" where
  "vector_end e buf vec = do {
     n \<leftarrow> vector_size buf vec;
     Some (iter_new (element_stride e) (vector_data vec) n)
   }"

definition vector_rbegin :: "element \<Rightarrow> byte list \<Rightarrow> size_t \<Rightarrow> size_t option" where
  "vector_rbegin e buf vec = vector_end e buf vec"

definition vector_rend :: "element \<Rightarrow> size_t \<Rightarrow> size_t" where
  "vector_rend e vec = vector_begin e vec"

section \<open>Search by key\<close>

text \<open>
  \<open>std::bsearch\<close>: \<open>cmp\<close> compares the key with the element at an address.  The C standard
  fixes the result only for a sorted array without duplicates; the middle element is tried
  first here.
\<close>

function bsearch :: "(size_t \<Rightarrow> s32 option) \<Rightarrow> size_t \<Rightarrow> nat \<Rightarrow> size_t \<Rightarrow> size_t option option" where
  "bsearch cmp base n s =
     (if n = 0 then Some None
      else do {
        let k = n div 2;
        let p = base + of_nat k * s;
        c \<leftarrow> cmp p;
        (if c = 0 then Some (Some p)
         else if sint c < 0 then bsearch cmp base k s
         else bsearch cmp (p + s) (n - k - 1) s)
      })"
  by pat_completeness auto
termination by (relation "measure (\<lambda>(_, _, n, _). n)") auto

declare bsearch.simps [simp del]

text \<open>\<open>KeyCompare\<close> negates the result of \<open>KeyCompareWithValue\<close>; the most negative \<open>int\<close> has no negation.\<close>

definition key_compare :: "(size_t \<Rightarrow> s32 option) \<Rightarrow> (size_t \<Rightarrow> size_t option) \<Rightarrow> size_t \<Rightarrow> s32 option" where
  "key_compare kcwv rd data = do {
     table \<leftarrow> rd data;
     c \<leftarrow> kcwv table;
     (if c = 0x80000000 then None else Some (- c))
   }"

text \<open>For vectors of tables (offsets) and of structs, with the pointer returned by \<open>Read(element, 0)\<close>.\<close>

definition read_pointer :: "element \<Rightarrow> byte list \<Rightarrow> size_t \<Rightarrow> size_t option" where
  "read_pointer e buf p =
     (case e of
        Scalar_Element n \<Rightarrow> None
      | Offset_Element \<Rightarrow> indirect_read_offset buf p 0
      | Struct_Element n \<Rightarrow> Some (indirect_read_struct n p 0))"

definition lookup_by_key :: "element \<Rightarrow> (size_t \<Rightarrow> s32 option) \<Rightarrow> byte list \<Rightarrow> size_t \<Rightarrow> size_t option option" where
  "lookup_by_key e kcwv buf vec = do {
     n \<leftarrow> vector_size buf vec;
     r \<leftarrow> bsearch (key_compare kcwv (read_pointer e buf)) (vector_data vec) (unat n) (element_stride e);
     (case r of None \<Rightarrow> Some None | Some element \<Rightarrow> map_option Some (read_pointer e buf element))
   }"

section \<open>Strings\<close>

text \<open>\<open>memcmp\<close> on the first \<open>n\<close> bytes of both blocks, as a sign.\<close>

fun mem_cmp :: "nat \<Rightarrow> byte list \<Rightarrow> byte list \<Rightarrow> int" where
  "mem_cmp (Suc n) (a # as) (b # bs) = (if a < b then - 1 else if b < a then 1 else mem_cmp n as bs)"
| "mem_cmp n as bs = 0"

definition string_less_than :: "byte list \<Rightarrow> byte list \<Rightarrow> bool" where
  "string_less_than a b =
     (let cmp = mem_cmp (min (length a) (length b)) a b in
      if cmp = 0 then length a < length b else cmp < 0)"

definition string_less :: "byte list \<Rightarrow> size_t \<Rightarrow> size_t \<Rightarrow> bool option" where
  "string_less buf s t = do {
     a \<leftarrow> string_str buf s;
     b \<leftarrow> string_str buf t;
     Some (string_less_than a b)
   }"

definition get_cstring :: "byte list \<Rightarrow> size_t option \<Rightarrow> byte list option" where
  "get_cstring buf str = (case str of None \<Rightarrow> Some [] | Some s \<Rightarrow> c_string buf (c_str s))"

section \<open>Lemmas\<close>

text \<open>The comparison of strings is the lexicographic order of their bytes.\<close>

lemma string_less_than_lexord:
  "string_less_than a b \<longleftrightarrow> (a, b) \<in> lexord {(x, y). x < y}"
proof (induction a arbitrary: b)
  case Nil
  then show ?case by (cases b) (auto simp: string_less_than_def)
next
  case (Cons x a)
  show ?case
  proof (cases b)
    case Nil
    then show ?thesis by (simp add: string_less_than_def)
  next
    case (Cons y b')
    then show ?thesis
      using Cons.IH [of b'] by (auto simp: string_less_than_def Let_def)
  qed
qed

text \<open>Iterators walk along the elements.\<close>

lemma iter_walk:
  "iter_inc s (iter_new s p i) = p + s * (ucast i + 1)"
  "iter_dec s (iter_inc s it) = it" "iter_plus s it n = iter_add s it n" "iter_minus s (iter_add s it n) n = it"
  "iter_sub s (iter_add s it n) n = it" "fst (iter_post_inc s it) = it" "snd (iter_post_inc s it) = iter_inc s it"
  "fst (iter_post_dec s it) = it" "snd (iter_post_dec s it) = iter_dec s it"
  by (simp_all add: iter_inc_def iter_dec_def iter_new_def iter_plus_def iter_add_def iter_minus_def
      iter_sub_def iter_post_inc_def iter_post_dec_def distrib_left)

lemma iter_deref_new: "iter_deref e buf (iter_new (element_stride e) (vector_data vec) i) =
    indirect_read e buf (vector_data vec) i"
  by (cases e) (simp_all add: iter_deref_def iter_new_def indirect_read_scalar_def indirect_read_offset_def
      indirect_read_struct_def mult.commute Let_def)

lemma vector_get_iter:
  assumes "vector_size buf vec = Some n" and "i < n"
  shows "vector_get e buf vec i = iter_deref e buf (iter_plus (element_stride e) (vector_begin e vec) i)"
  using assms iter_deref_new [of e buf vec i]
  by (simp add: vector_get_def vector_begin_def iter_plus_def iter_new_def mult.commute)

text \<open>
  The distance is right from an earlier to a later iterator only: the division is unsigned,
  so that the distance of \<open>begin() - end()\<close> of two 4-byte elements is not -2.
\<close>

lemma iter_diff_forward:
  assumes "unat s * unat n < 2 ^ 64" and "s \<noteq> 0"
  shows "iter_diff s (iter_new s p n) p = ucast n"
proof -
  have "unat (s * ucast n) = unat s * unat n"
    using assms by (simp add: unat_word_ariths unat_ucast_up)
  then have "unat (iter_diff s (iter_new s p n) p) = unat n"
    using assms(2) by (simp add: iter_diff_def iter_new_def unat_div unat_eq_zero)
  then show ?thesis by (simp add: word_unat_eq_iff unat_ucast_up)
qed

lemma iter_diff_backward: "iter_diff 4 100 108 = 0x3FFFFFFFFFFFFFFE"
  by (simp add: iter_diff_def)

text \<open>A mutation is read back and leaves the length alone.\<close>

lemma mutate_then_get:
  assumes m: "vector_mutate val buf vec i = Some buf'"
    and len: "length val < 2 ^ 31" and vec: "unat vec < 2 ^ 62"
  shows "vector_size buf' vec = vector_size buf vec"
    and "vector_get (Scalar_Element (of_nat (length val))) buf' vec i = Some (Scalar_Value val)"
proof -
  obtain n where n: "vector_size buf vec = Some n" "i < n"
    and w: "write_bytes val buf (vector_data vec + ucast i * of_nat (length val)) = Some buf'"
    using m by (auto simp: vector_mutate_def split: bind_splits if_splits)
  have il: "unat i * length val \<le> 2 ^ 32 * 2 ^ 31"
  proof (rule mult_le_mono)
    have "unat i < 2 ^ LENGTH(32)" by (rule unsigned_less)
    then show "unat i \<le> 2 ^ 32" by simp
  qed (use len in simp)
  have "unat (ucast i * of_nat (length val) :: size_t) = unat i * length val"
    using il len by (simp add: unat_word_ariths unat_ucast_up unat_of_nat_small)
  moreover have "unat (vector_data vec) = unat vec + 4"
    using vec by (simp add: vector_data_def unat_add_small)
  ultimately have q: "unat (vector_data vec + ucast i * of_nat (length val)) = unat vec + 4 + unat i * length val"
    using il vec by (subst unat_add_small) simp_all
  have "read_bytes 4 buf' vec = read_bytes 4 buf vec"
    by (rule read_bytes_below_write [OF w]) (simp add: q)
  then show s: "vector_size buf' vec = vector_size buf vec"
    by (simp add: vector_size_def read_u32_def)
  have "unat (of_nat (length val) :: size_t) = length val"
    using len by (intro unat_of_nat_small) simp
  then show "vector_get (Scalar_Element (of_nat (length val))) buf' vec i = Some (Scalar_Value val)"
    using n read_write_bytes(1) [OF w] by (simp add: vector_get_def s indirect_read_scalar_def)
qed

lemma sint_negate:
  assumes "(x :: s32) \<noteq> 0x80000000"
  shows "sint (- x) = - sint x"
proof -
  have s: "sint y = (uint y + 2 ^ 31) mod 2 ^ 32 - 2 ^ 31" for y :: s32
    using int_word_sint [where 'a = 32 and x = "uint y"] by simp
  have "uint x < 2 ^ LENGTH(32)" by (rule uint_bounded)
  then have b: "0 \<le> uint x" "uint x < 2 ^ 32" by simp_all
  have "uint x \<noteq> 0x80000000" using assms by (metis of_int_numeral word_of_int_uint)
  then consider "uint x = 0" | "0 < uint x" "uint x < 2 ^ 31" | "2 ^ 31 < uint x" using b by fastforce
  then show ?thesis
  proof cases
    case 1
    then have "x = 0" by (simp add: uint_0_iff)
    then show ?thesis by simp
  next
    case 2
    then have "uint (- x) = 2 ^ 32 - uint x"
      using uint_word_ariths(4) [of x] by (simp add: zmod_zminus1_eq_if)
    moreover have "(2 ^ 32 - uint x + 2 ^ 31) mod 2 ^ 32 = 2 ^ 31 - uint x"
      using mod_add_self2 [of "2 ^ 31 - uint x" "2 ^ 32 :: int"] 2 by (simp add: algebra_simps)
    ultimately show ?thesis using 2 by (simp add: s)
  next
    case 3
    then have "uint (- x) = 2 ^ 32 - uint x"
      using uint_word_ariths(4) [of x] b by (simp add: zmod_zminus1_eq_if)
    moreover have "(uint x + 2 ^ 31) mod 2 ^ 32 = uint x - 2 ^ 31"
      using mod_add_self2 [of "uint x - 2 ^ 31" "2 ^ 32 :: int"] 3 b by (simp add: algebra_simps)
    ultimately show ?thesis using 3 b by (simp add: s)
  qed
qed

text \<open>The binary search, on an array whose keys ascend.\<close>

lemma bsearch_finds:
  fixes k :: "nat \<Rightarrow> 'k::linorder"
  assumes "\<And>i. i < n \<Longrightarrow> cmp (base + of_nat i * s) = Some (c i) \<and>
      (sint (c i) < 0 \<longleftrightarrow> key < k i) \<and> (c i = 0 \<longleftrightarrow> key = k i)"
    and "\<And>i j. i \<le> j \<Longrightarrow> j < n \<Longrightarrow> k i \<le> k j"
  shows "bsearch cmp base n s = Some None \<and> (\<forall>i<n. k i \<noteq> key) \<or>
    (\<exists>i<n. bsearch cmp base n s = Some (Some (base + of_nat i * s)) \<and> k i = key)"
  using assms
proof (induction cmp base n s arbitrary: k c rule: bsearch.induct)
  case (1 cmp base n s)
  show ?case
  proof (cases "n = 0")
    case True
    then show ?thesis by (simp add: bsearch.simps)
  next
    case False
    define m where "m = n div 2"
    have m: "m < n" using False by (simp add: m_def)
    note cm = "1.prems"(1) [OF m]
    consider "c m = 0" | "c m \<noteq> 0" "sint (c m) < 0" | "c m \<noteq> 0" "\<not> sint (c m) < 0" by blast
    then show ?thesis
    proof cases
      case 1
      then have "bsearch cmp base n s = Some (Some (base + of_nat m * s))"
        using cm False by (subst bsearch.simps) (simp add: m_def)
      then show ?thesis using cm 1 m by auto
    next
      case 2
      then have step: "bsearch cmp base n s = bsearch cmp base m s"
        using cm False by (subst bsearch.simps) (simp add: m_def)
      have "k i \<noteq> key" if "m \<le> i" "i < n" for i
        using "1.prems"(2) [OF that] cm 2 by auto
      moreover have "bsearch cmp base m s = Some None \<and> (\<forall>i<m. k i \<noteq> key) \<or>
          (\<exists>i<m. bsearch cmp base m s = Some (Some (base + of_nat i * s)) \<and> k i = key)"
        using "1.prems" cm 2 m False
        by (intro "1.IH"(1) [of m "base + of_nat m * s" "c m" c k]) (auto simp: m_def)
      ultimately show ?thesis unfolding step using m by (metis less_trans not_le)
    next
      case 3
      define p where "p = base + of_nat m * s + s"
      have step: "bsearch cmp base n s = bsearch cmp p (n - m - 1) s"
        using 3 cm False by (subst bsearch.simps) (simp add: m_def p_def Let_def)
      have p: "p + of_nat i * s = base + of_nat (Suc m + i) * s" for i
        by (simp add: p_def algebra_simps)
      have low: "k i \<noteq> key" if "i \<le> m" for i
        using "1.prems"(2) [OF that m] cm 3 by auto
      have "bsearch cmp p (n - m - 1) s = Some None \<and> (\<forall>i<n - m - 1. k (Suc m + i) \<noteq> key) \<or>
          (\<exists>i<n - m - 1. bsearch cmp p (n - m - 1) s = Some (Some (p + of_nat i * s)) \<and> k (Suc m + i) = key)"
      proof (unfold p_def, rule "1.IH"(2) [of m "base + of_nat m * s" "c m" "\<lambda>i. c (Suc m + i)" "\<lambda>i. k (Suc m + i)"])
        show "cmp (base + of_nat m * s + s + of_nat i * s) = Some (c (Suc m + i)) \<and>
            (sint (c (Suc m + i)) < 0 \<longleftrightarrow> key < k (Suc m + i)) \<and> (c (Suc m + i) = 0 \<longleftrightarrow> key = k (Suc m + i))"
          if "i < n - m - 1" for i
          unfolding p [unfolded p_def] using "1.prems"(1) [of "Suc m + i"] that by simp
        show "k (Suc m + i) \<le> k (Suc m + j)" if "i \<le> j" "j < n - m - 1" for i j
          using "1.prems"(2) [of "Suc m + i" "Suc m + j"] that by simp
      qed (use cm 3 False in \<open>simp_all add: m_def\<close>)
      then show ?thesis
      proof (elim disjE conjE exE)
        assume r: "bsearch cmp p (n - m - 1) s = Some None" and ne: "\<forall>i<n - m - 1. k (Suc m + i) \<noteq> key"
        have "k i \<noteq> key" if "i < n" for i
          using low [of i] ne [rule_format, of "i - Suc m"] that by (cases "i \<le> m") auto
        then show ?thesis using r step by simp
      next
        fix i
        assume "i < n - m - 1" "bsearch cmp p (n - m - 1) s = Some (Some (p + of_nat i * s))" "k (Suc m + i) = key"
        then show ?thesis using step p by (intro disjI2 exI [of _ "Suc m + i"]) auto
      qed
    qed
  qed
qed

text \<open>\<open>LookupByKey\<close> on a vector of tables or structs in ascending order of their keys returns an
  element with the key if there is one and a null pointer otherwise.\<close>

theorem lookup_by_key_finds:
  fixes k :: "nat \<Rightarrow> 'k::linorder"
  assumes n: "vector_size buf vec = Some n"
    and el: "\<And>i. i < unat n \<Longrightarrow> read_pointer e buf (vector_data vec + of_nat i * element_stride e) = Some (el i)"
    and cmp: "\<And>i. i < unat n \<Longrightarrow> kcwv (el i) = Some (c i) \<and> c i \<noteq> 0x80000000 \<and>
        (sint (c i) < 0 \<longleftrightarrow> k i < key) \<and> (c i = 0 \<longleftrightarrow> k i = key)"
    and sorted: "\<And>i j. i \<le> j \<Longrightarrow> j < unat n \<Longrightarrow> k i \<le> k j"
  shows "lookup_by_key e kcwv buf vec = Some None \<and> (\<forall>i<unat n. k i \<noteq> key) \<or>
    (\<exists>i<unat n. lookup_by_key e kcwv buf vec = Some (Some (el i)) \<and> k i = key)"
proof -
  let ?cmp = "key_compare kcwv (read_pointer e buf)" and ?s = "element_stride e"
  have "?cmp (vector_data vec + of_nat i * ?s) = Some (- c i) \<and>
      (sint (- c i) < 0 \<longleftrightarrow> key < k i) \<and> (- c i = 0 \<longleftrightarrow> key = k i)" if "i < unat n" for i
  proof -
    have "0 < sint (c i) \<longleftrightarrow> key < k i"
      using cmp [OF that] by (metis linorder_less_linear sint_0 signed_eq_0_iff not_less_iff_gr_or_eq)
    then show ?thesis
      using el [OF that] cmp [OF that] by (auto simp: key_compare_def sint_negate)
  qed
  then have "bsearch ?cmp (vector_data vec) (unat n) ?s = Some None \<and> (\<forall>i<unat n. k i \<noteq> key) \<or>
    (\<exists>i<unat n. bsearch ?cmp (vector_data vec) (unat n) ?s = Some (Some (vector_data vec + of_nat i * ?s)) \<and> k i = key)"
    using sorted by (rule bsearch_finds)
  then show ?thesis
    using el by (auto simp: lookup_by_key_def n)
qed

end
