(* ===== verification/Fb_Vector_Build.thy ===== *)
theory Fb_Vector_Build
  imports Fb_Builder_Finish Fb_Vector
begin

text \<open>
  The vectors, structs and shared strings of \<open>flatbuffer_builder.h\<close>.  A struct is given by
  the bytes it occupies; \<open>sz\<close> and \<open>align\<close> are \<open>sizeof\<close> and \<open>alignof\<close> of its type.  The
  comparisons and packing functions generated for a type, and functions passed by the
  caller, are parameters.
\<close>

section \<open>Strings\<close>

definition create_string_object ::
  "byte list \<Rightarrow> size_t option \<Rightarrow> fb_builder \<Rightarrow> (uoffset_t \<times> fb_builder) option" where
  "create_string_object buf str f =
     (case str of
        None \<Rightarrow> Some (0, f)
      | Some s \<Rightarrow> do { bs \<leftarrow> string_str buf s; create_string bs f })"

text \<open>The string at an offset of the buffer under construction, as \<open>StringOffsetCompare\<close> reads it.\<close>

definition pooled_string :: "vector_downward \<Rightarrow> uoffset_t \<Rightarrow> byte list option" where
  "pooled_string v off = do {
     p \<leftarrow> vd_data_at (ucast off) v;
     n \<leftarrow> vd_read_u32 p v;
     vd_read (unat n) (p + 4) v
   }"

definition string_offset_less :: "vector_downward \<Rightarrow> uoffset_t \<Rightarrow> uoffset_t \<Rightarrow> bool option" where
  "string_offset_less v a b = do {
     stra \<leftarrow> pooled_string v a;
     strb \<leftarrow> pooled_string v b;
     Some (string_less_than stra strb)
   }"

text \<open>\<open>std::set::find\<close>: the element that is neither less nor greater; at most one is.\<close>

fun pool_find :: "vector_downward \<Rightarrow> uoffset_t \<Rightarrow> uoffset_t list \<Rightarrow> uoffset_t option option" where
  "pool_find v off [] = Some None"
| "pool_find v off (x # xs) = do {
     lt \<leftarrow> string_offset_less v off x;
     gt \<leftarrow> string_offset_less v x off;
     (if \<not> lt \<and> \<not> gt then Some (Some x) else pool_find v off xs)
   }"

definition create_shared_string :: "byte list \<Rightarrow> fb_builder \<Rightarrow> (uoffset_t \<times> fb_builder) option" where
  "create_shared_string str f = do {
     let f = (if string_pool f = None then f\<lparr>string_pool := Some []\<rparr> else f);
     let size_before_string = get_size f;
     (off, f) \<leftarrow> create_string str f;
     let pool = the (string_pool f);
     it \<leftarrow> pool_find (fbb_buf f) off pool;
     (case it of
        Some x \<Rightarrow> do {
          f \<leftarrow> on_buf (vd_pop (ucast (get_size f - size_before_string))) f;
          Some (x, f)
        }
      | None \<Rightarrow> Some (off, f\<lparr>string_pool := Some (off # pool)\<rparr>))
   }"

definition create_shared_cstring :: "byte list \<Rightarrow> fb_builder \<Rightarrow> (uoffset_t \<times> fb_builder) option" where
  "create_shared_cstring str f =
     (if 0 \<in> set str then create_shared_string (takeWhile (\<lambda>b. b \<noteq> 0) str) f else None)"

definition create_shared_string_object ::
  "byte list \<Rightarrow> size_t option \<Rightarrow> fb_builder \<Rightarrow> (uoffset_t \<times> fb_builder) option" where
  "create_shared_string_object buf str f =
     (case str of
        None \<Rightarrow> Some (0, f)
      | Some s \<Rightarrow> do { bs \<leftarrow> string_str buf s; create_shared_string bs f })"

section \<open>Vectors of scalars and offsets\<close>

text \<open>Elements pushed from the last to the first.\<close>

fun push_elements :: "byte list list \<Rightarrow> fb_builder \<Rightarrow> fb_builder option" where
  "push_elements [] f = Some f"
| "push_elements (x # xs) f = do { f \<leftarrow> push_elements xs f; (off, f) \<leftarrow> push_element x f; Some f }"

fun push_offsets :: "uoffset_t list \<Rightarrow> fb_builder \<Rightarrow> fb_builder option" where
  "push_offsets [] f = Some f"
| "push_offsets (x # xs) f = do { f \<leftarrow> push_offsets xs f; (off, f) \<leftarrow> push_offset x f; Some f }"

definition create_vector_of_offsets :: "uoffset_t list \<Rightarrow> fb_builder \<Rightarrow> (uoffset_t \<times> fb_builder) option" where
  "create_vector_of_offsets v f = do {
     f \<leftarrow> start_vector (of_nat (length v)) 4 4 f;
     f \<leftarrow> push_offsets v f;
     end_vector (of_nat (length v)) f
   }"

definition create_vector_of_bools :: "bool list \<Rightarrow> fb_builder \<Rightarrow> (uoffset_t \<times> fb_builder) option" where
  "create_vector_of_bools v f = do {
     f \<leftarrow> start_vector (of_nat (length v)) 1 1 f;
     f \<leftarrow> push_elements (map (\<lambda>b. [if b then 1 else 0]) v) f;
     end_vector (of_nat (length v)) f
   }"

definition create_vector_fn ::
  "size_t \<Rightarrow> nat \<Rightarrow> (nat \<Rightarrow> byte list) \<Rightarrow> fb_builder \<Rightarrow> (uoffset_t \<times> fb_builder) option" where
  "create_vector_fn elemsize n g f = create_vector elemsize (concat (map g [0..<n])) f"

fun elements_with_state :: "(nat \<Rightarrow> 's \<Rightarrow> byte list \<times> 's) \<Rightarrow> nat \<Rightarrow> nat \<Rightarrow> 's \<Rightarrow> byte list \<times> 's" where
  "elements_with_state g 0 i st = ([], st)"
| "elements_with_state g (Suc n) i st =
     (let (e, st) = g i st; (es, st) = elements_with_state g n (i + 1) st in (e @ es, st))"

definition create_vector_state ::
  "size_t \<Rightarrow> nat \<Rightarrow> (nat \<Rightarrow> 's \<Rightarrow> byte list \<times> 's) \<Rightarrow> 's \<Rightarrow> fb_builder \<Rightarrow> (uoffset_t \<times> 's \<times> fb_builder) option" where
  "create_vector_state elemsize n g st f = do {
     let (bytes, st) = elements_with_state g n 0 st;
     (off, f) \<leftarrow> create_vector elemsize bytes f;
     Some (off, st, f)
   }"

definition create_vector_scalar_cast ::
  "size_t \<Rightarrow> ('u \<Rightarrow> byte list) \<Rightarrow> 'u list \<Rightarrow> fb_builder \<Rightarrow> (uoffset_t \<times> fb_builder) option" where
  "create_vector_scalar_cast elemsize cast v f = do {
     f \<leftarrow> start_vector (of_nat (length v)) elemsize elemsize f;
     f \<leftarrow> push_elements (map cast v) f;
     end_vector (of_nat (length v)) f
   }"

text \<open>The offsets of the strings wait on the scratch pad; \<open>i\<close> counts from its end.\<close>

fun scratch_strings :: "byte list list \<Rightarrow> fb_builder \<Rightarrow> fb_builder option" where
  "scratch_strings [] f = Some f"
| "scratch_strings (s # ss) f = do {
     (off, f) \<leftarrow> create_string s f;
     f \<leftarrow> on_buf (vd_scratch_push_small (map Some (u32_bytes off))) f;
     scratch_strings ss f
   }"

fun push_scratch_offsets :: "nat \<Rightarrow> nat \<Rightarrow> fb_builder \<Rightarrow> fb_builder option" where
  "push_scratch_offsets 0 i f = Some f"
| "push_scratch_offsets (Suc n) i f = do {
     scratch_end \<leftarrow> vd_scratch_end (fbb_buf f);
     off \<leftarrow> (if i * 4 \<le> scratch_end then vd_read_u32 (scratch_end - i * 4) (fbb_buf f) else None);
     (x, f) \<leftarrow> push_offset off f;
     push_scratch_offsets n (i + 1) f
   }"

definition create_vector_of_strings :: "byte list list \<Rightarrow> fb_builder \<Rightarrow> (uoffset_t \<times> fb_builder) option" where
  "create_vector_of_strings v f = do {
     let n = length v;
     let scratch_buffer_usage = of_nat n * 4;
     f \<leftarrow> on_buf (vd_ensure_space scratch_buffer_usage) f;
     f \<leftarrow> scratch_strings v f;
     f \<leftarrow> start_vector (of_nat n) 4 4 f;
     f \<leftarrow> push_scratch_offsets n 1 f;
     f \<leftarrow> on_buf (vd_scratch_pop scratch_buffer_usage) f;
     end_vector (of_nat n) f
   }"

section \<open>Structs\<close>

definition create_struct :: "size_t \<Rightarrow> byte list \<Rightarrow> fb_builder \<Rightarrow> (uoffset_t \<times> fb_builder) option" where
  "create_struct align structobj f = do {
     not_nested f;
     f \<leftarrow> fbb_align align f;
     f \<leftarrow> on_buf (vd_push_small (map Some structobj)) f;
     Some (get_size f, f)
   }"

definition add_struct :: "size_t \<Rightarrow> voffset_t \<Rightarrow> byte list option \<Rightarrow> fb_builder \<Rightarrow> fb_builder option" where
  "add_struct align field structptr f =
     (case structptr of
        None \<Rightarrow> Some f
      | Some bytes \<Rightarrow> do {
          f \<leftarrow> fbb_align align f;
          f \<leftarrow> on_buf (vd_push_small (map Some bytes)) f;
          track_field field (get_size f) f
        })"

definition create_vector_of_structs ::
  "size_t \<Rightarrow> size_t \<Rightarrow> byte list list \<Rightarrow> fb_builder \<Rightarrow> (uoffset_t \<times> fb_builder) option" where
  "create_vector_of_structs sz align v f = do {
     let len = of_nat (length v);
     f \<leftarrow> start_vector (len * sz div align) sz align f;
     f \<leftarrow> (if 0 < len then push_bytes (concat v) f else Some f);
     end_vector len f
   }"

text \<open>Space for the structs of a vector, filled in afterwards; the pointer is an offset of the block.\<close>

definition start_vector_of_structs ::
  "size_t \<Rightarrow> size_t \<Rightarrow> size_t \<Rightarrow> fb_builder \<Rightarrow> (nat \<times> fb_builder) option" where
  "start_vector_of_structs sz align count f = do {
     f \<leftarrow> start_vector (count * sz div align) sz align f;
     f \<leftarrow> on_buf (vd_make_space (count * sz)) f;
     Some (vd_cur (fbb_buf f), f)
   }"

definition end_vector_of_structs :: "size_t \<Rightarrow> fb_builder \<Rightarrow> (uoffset_t \<times> fb_builder) option" where
  "end_vector_of_structs count f = end_vector count f"

fun write_structs :: "byte list list \<Rightarrow> nat \<Rightarrow> fb_builder \<Rightarrow> fb_builder option" where
  "write_structs [] p f = Some f"
| "write_structs (s # ss) p f = do {
     f \<leftarrow> on_buf (vd_write (map Some s) p) f;
     write_structs ss (p + length s) f
   }"

definition create_vector_of_native_structs ::
  "size_t \<Rightarrow> size_t \<Rightarrow> ('s \<Rightarrow> byte list) \<Rightarrow> 's list \<Rightarrow> fb_builder \<Rightarrow> (uoffset_t \<times> fb_builder) option" where
  "create_vector_of_native_structs sz align pack_func v f = do {
     (p, f) \<leftarrow> start_vector_of_structs sz align (of_nat (length v)) f;
     f \<leftarrow> write_structs (map pack_func v) p f;
     end_vector_of_structs (of_nat (length v)) f
   }"

definition create_vector_of_structs_fn ::
  "size_t \<Rightarrow> size_t \<Rightarrow> nat \<Rightarrow> (nat \<Rightarrow> byte list) \<Rightarrow> fb_builder \<Rightarrow> (uoffset_t \<times> fb_builder) option" where
  "create_vector_of_structs_fn sz align count filler f = do {
     (p, f) \<leftarrow> start_vector_of_structs sz align (of_nat count) f;
     f \<leftarrow> write_structs (map filler [0..<count]) p f;
     end_vector_of_structs (of_nat count) f
   }"

fun structs_with_state :: "(nat \<Rightarrow> 's \<Rightarrow> byte list \<times> 's) \<Rightarrow> nat \<Rightarrow> nat \<Rightarrow> 's \<Rightarrow> byte list list \<times> 's" where
  "structs_with_state g 0 i st = ([], st)"
| "structs_with_state g (Suc n) i st =
     (let (e, st) = g i st; (es, st) = structs_with_state g n (i + 1) st in (e # es, st))"

definition create_vector_of_structs_state ::
  "size_t \<Rightarrow> size_t \<Rightarrow> nat \<Rightarrow> (nat \<Rightarrow> 's \<Rightarrow> byte list \<times> 's) \<Rightarrow> 's \<Rightarrow> fb_builder \<Rightarrow>
    (uoffset_t \<times> 's \<times> fb_builder) option" where
  "create_vector_of_structs_state sz align count g st f = do {
     (p, f) \<leftarrow> start_vector_of_structs sz align (of_nat count) f;
     let (structs, st) = structs_with_state g count 0 st;
     f \<leftarrow> write_structs structs p f;
     (off, f) \<leftarrow> end_vector_of_structs (of_nat count) f;
     Some (off, st, f)
   }"

section \<open>Sorted vectors\<close>

text \<open>\<open>std::stable_sort\<close>: its result is that of an insertion sort.\<close>

fun stable_insert :: "('a \<Rightarrow> 'a \<Rightarrow> bool) \<Rightarrow> 'a \<Rightarrow> 'a list \<Rightarrow> 'a list" where
  "stable_insert lt x [] = [x]"
| "stable_insert lt x (y # ys) = (if lt y x then y # stable_insert lt x ys else x # y # ys)"

definition stable_sort :: "('a \<Rightarrow> 'a \<Rightarrow> bool) \<Rightarrow> 'a list \<Rightarrow> 'a list" where
  "stable_sort lt xs = foldr (stable_insert lt) xs []"

definition create_vector_of_sorted_structs ::
  "(byte list \<Rightarrow> byte list \<Rightarrow> bool) \<Rightarrow> size_t \<Rightarrow> size_t \<Rightarrow> byte list list \<Rightarrow> fb_builder \<Rightarrow>
    (uoffset_t \<times> fb_builder) option" where
  "create_vector_of_sorted_structs key_less sz align v f =
     create_vector_of_structs sz align (stable_sort key_less v) f"

definition create_vector_of_sorted_native_structs ::
  "(byte list \<Rightarrow> byte list \<Rightarrow> bool) \<Rightarrow> size_t \<Rightarrow> size_t \<Rightarrow> ('s \<Rightarrow> byte list) \<Rightarrow> 's list \<Rightarrow> fb_builder \<Rightarrow>
    (uoffset_t \<times> fb_builder) option" where
  "create_vector_of_sorted_native_structs key_less sz align pack_func v f = do {
     (p, f) \<leftarrow> start_vector_of_structs sz align (of_nat (length v)) f;
     f \<leftarrow> write_structs (stable_sort key_less (map pack_func v)) p f;
     end_vector_of_structs (of_nat (length v)) f
   }"

text \<open>
  Tables are compared where they lie in the buffer; the comparison generated for the table
  takes the buffer and two addresses in it, and is undefined if it leaves the buffer.
\<close>

definition table_key_less ::
  "(vector_downward \<Rightarrow> nat \<Rightarrow> nat \<Rightarrow> bool option) \<Rightarrow> vector_downward \<Rightarrow> uoffset_t \<Rightarrow> uoffset_t \<Rightarrow> bool option" where
  "table_key_less key_less v a b = do {
     table_a \<leftarrow> vd_data_at (ucast a) v;
     table_b \<leftarrow> vd_data_at (ucast b) v;
     key_less v table_a table_b
   }"

definition create_vector_of_sorted_tables ::
  "(vector_downward \<Rightarrow> nat \<Rightarrow> nat \<Rightarrow> bool option) \<Rightarrow> uoffset_t list \<Rightarrow> fb_builder \<Rightarrow>
    (uoffset_t \<times> fb_builder) option" where
  "create_vector_of_sorted_tables key_less v f =
     (let less = table_key_less key_less (fbb_buf f) in
      if list_all (\<lambda>a. list_all (\<lambda>b. less a b \<noteq> None) v) v
      then create_vector_of_offsets (stable_sort (\<lambda>a b. less a b = Some True) v) f
      else None)"

section \<open>Vectors filled in later\<close>

text \<open>The second result is the pointer to the elements.\<close>

definition create_uninitialized_vector ::
  "size_t \<Rightarrow> size_t \<Rightarrow> size_t \<Rightarrow> fb_builder \<Rightarrow> (uoffset_t \<times> nat \<times> fb_builder) option" where
  "create_uninitialized_vector len elemsize alignment f = do {
     not_nested f;
     f \<leftarrow> start_vector len elemsize alignment f;
     f \<leftarrow> on_buf (vd_make_space (len * elemsize)) f;
     let vec_start = get_size f;
     (vec_end, f) \<leftarrow> end_vector len f;
     buf \<leftarrow> vd_data_at (ucast vec_start) (fbb_buf f);
     Some (vec_end, buf, f)
   }"

definition create_uninitialized_vector_old ::
  "size_t \<Rightarrow> size_t \<Rightarrow> fb_builder \<Rightarrow> (uoffset_t \<times> nat \<times> fb_builder) option" where
  "create_uninitialized_vector_old len elemsize f = create_uninitialized_vector len elemsize elemsize f"

definition create_uninitialized_vector_of_scalars ::
  "size_t \<Rightarrow> size_t \<Rightarrow> fb_builder \<Rightarrow> (uoffset_t \<times> nat \<times> fb_builder) option" where
  "create_uninitialized_vector_of_scalars sz len f = create_uninitialized_vector len sz sz f"

definition create_uninitialized_vector_of_structs ::
  "size_t \<Rightarrow> size_t \<Rightarrow> size_t \<Rightarrow> fb_builder \<Rightarrow> (uoffset_t \<times> nat \<times> fb_builder) option" where
  "create_uninitialized_vector_of_structs sz align len f = create_uninitialized_vector len sz align f"

section \<open>Pointers into the builder, moving and swapping\<close>

definition get_mutable_temporary_pointer :: "fb_builder \<Rightarrow> uoffset_t \<Rightarrow> nat option" where
  "get_mutable_temporary_pointer f offset = do {
     p \<leftarrow> get_current_buffer_pointer f;
     (if unat offset \<le> p + unat (get_size f) then Some (p + unat (get_size f) - unat offset) else None)
   }"

definition get_temporary_pointer :: "fb_builder \<Rightarrow> uoffset_t \<Rightarrow> nat option" where
  "get_temporary_pointer f offset = get_mutable_temporary_pointer f offset"

text \<open>Both builders after the call.  The allocator is the default one in all of them.\<close>

definition fbb_swap :: "fb_builder \<Rightarrow> fb_builder \<Rightarrow> fb_builder \<times> fb_builder" where
  "fbb_swap f other = (other, f)"

definition fbb_move :: "fb_builder \<Rightarrow> fb_builder \<times> fb_builder" where
  "fbb_move other = fbb_swap default_builder other"

text \<open>The assignment leaves the target's old contents to the temporary, which is destroyed.\<close>

definition fbb_move_assign :: "fb_builder \<Rightarrow> fb_builder \<Rightarrow> fb_builder \<times> fb_builder" where
  "fbb_move_assign f other =
     (let (temp, other) = fbb_move other; (f, temp) = fbb_swap f temp in (f, other))"

end
