(* ===== verification/Fb_Vector_Spec.thy ===== *)
theory Fb_Vector_Spec
  imports Fb_Vector_Build Fb_Roundtrip
begin

text \<open>
  Vectors on the specification of the builder: what \<open>StartVector\<close>, \<open>PushBytes\<close> and \<open>EndVector\<close>
  leave in the buffer, and what the accessors of \<open>Vector\<close> read from it.
\<close>

section \<open>The bytes of a vector\<close>

definition ab_start_vector :: "nat \<Rightarrow> nat \<Rightarrow> abs_builder \<Rightarrow> abs_builder" where
  "ab_start_vector m k a = ab_pre_align m k (ab_pre_align m 4 (a\<lparr>ab_nested := True\<rparr>))"

definition ab_vector :: "nat \<Rightarrow> nat \<Rightarrow> nat \<Rightarrow> byte list \<Rightarrow> abs_builder \<Rightarrow> abs_builder" where
  "ab_vector m k n bytes a =
     ab_element (u32_bytes (of_nat n)) ((ab_push bytes (ab_start_vector m k a))\<lparr>ab_nested := False\<rparr>)"

lemma ucast_of_nat_down: "(ucast (of_nat n :: size_t) :: u32) = of_nat n"
proof -
  have "unat (ucast (of_nat n :: size_t) :: u32) = n mod 2 ^ 64 mod 2 ^ 32"
    by (simp add: unsigned_ucast_eq take_bit_eq_mod unsigned_of_nat)
  also have "\<dots> = n mod 2 ^ 32"
    by (rule mod_mod_cancel) (simp add: le_imp_power_dvd)
  also have "\<dots> = unat (of_nat n :: u32)"
    by (simp add: unsigned_of_nat take_bit_eq_mod)
  finally show ?thesis by (simp only: word_unat_eq_iff)
qed

lemma scalar_size_bounds: "scalar_size k \<Longrightarrow> 0 < k \<and> k \<le> 8"
  by (auto simp: scalar_size_def)

lemma scalar_size_4 [simp]: "scalar_size 4"
  by (simp add: scalar_size_def)

lemma rel_start_vector:
  assumes r: "fbb_rel f a" and i: "ab_idle a" and k: "scalar_size k" and room: "24 + ab_used a < 2 ^ 31 - 1"
    and m: "m < 2 ^ 32" "len * elemsize = of_nat m"
  shows "\<exists>f'. start_vector len elemsize (of_nat k) f = Some f' \<and> fbb_rel f' (ab_start_vector m k a)"
proof -
  let ?a = "a\<lparr>ab_nested := True\<rparr>"
  have u: "ab_used ?a = ab_used a" by (simp add: ab_used_def)
  obtain f1 where f1: "pre_align (of_nat m) (of_nat 4) (f\<lparr>fbb_nested := True\<rparr>) = Some f1"
      "fbb_rel f1 (ab_pre_align m 4 ?a)"
    using rel_pre_align [OF rel_nested [OF r, of True] scalar_size_4 _ m(1)] room u by auto
  have "ab_used (ab_pre_align m 4 ?a) \<le> 7 + ab_used a"
    using ab_pre_align_used [of 4 m ?a] u by simp
  then obtain f2 where "pre_align (of_nat m) (of_nat k) f1 = Some f2" "fbb_rel f2 (ab_start_vector m k a)"
    using rel_pre_align [OF f1(2) k _ m(1)] room unfolding ab_start_vector_def by auto
  then show ?thesis
    using f1(1) rel_not_nested [OF r i] by (simp add: start_vector_def m(2) Let_def)
qed

lemma ab_start_vector_used:
  assumes "scalar_size k"
  shows "ab_used (ab_start_vector m k a) \<le> 14 + ab_used a"
proof -
  let ?a = "a\<lparr>ab_nested := True\<rparr>"
  have "ab_used (ab_start_vector m k a) \<le> 7 + ab_used (ab_pre_align m 4 ?a)"
    unfolding ab_start_vector_def using ab_pre_align_used scalar_size_bounds [OF assms] by blast
  moreover have "ab_used (ab_pre_align m 4 ?a) \<le> 7 + ab_used ?a"
    by (rule ab_pre_align_used) simp_all
  moreover have "ab_used ?a = ab_used a" by (simp add: ab_used_def)
  ultimately show ?thesis by linarith
qed

lemma ab_start_vector_nested [simp]: "ab_nested (ab_start_vector m k a)"
  by (simp add: ab_start_vector_def ab_pre_align_def)

lemma rel_end_vector:
  fixes n :: nat
  assumes r: "fbb_rel f a" and nested: "ab_nested a" and room: "16 + ab_used a < 2 ^ 31 - 1"
  defines "b \<equiv> ab_element (u32_bytes (of_nat n)) (a\<lparr>ab_nested := False\<rparr>)"
  shows "\<exists>f'. end_vector (of_nat n) f = Some (of_nat (length (ab_data b)), f') \<and> fbb_rel f' b"
proof -
  have "ab_used (a\<lparr>ab_nested := False\<rparr>) = ab_used a" by (simp add: ab_used_def)
  then obtain f' where "push_element (u32_bytes (of_nat n)) (f\<lparr>fbb_nested := False\<rparr>) =
      Some (of_nat (length (ab_data b)), f')" "fbb_rel f' b"
    using rel_push_element [OF rel_nested [OF r, of False], of "u32_bytes (of_nat n)"] room
    unfolding b_def by auto
  moreover have "fbb_nested f" using r nested by (simp add: fbb_rel_def)
  moreover have "(ucast (of_nat n :: size_t) :: u32) = of_nat n"
    by (rule ucast_of_nat_down)
  ultimately show ?thesis by (simp add: end_vector_def)
qed

lemma rel_vector:
  fixes n :: nat
  assumes r: "fbb_rel f a" and i: "ab_idle a" and k: "scalar_size k" and m: "m < 2 ^ 32" "len * elemsize = of_nat m"
    and room: "length bytes + 40 + ab_used a < 2 ^ 31 - 1"
  defines "b \<equiv> ab_vector m k n bytes a"
  shows "\<exists>f'. do { f \<leftarrow> start_vector len elemsize (of_nat k) f; f \<leftarrow> push_bytes bytes f; end_vector (of_nat n) f } =
      Some (of_nat (length (ab_data b)), f') \<and> fbb_rel f' b"
proof -
  obtain f1 where f1: "start_vector len elemsize (of_nat k) f = Some f1" "fbb_rel f1 (ab_start_vector m k a)"
    using rel_start_vector [OF r i k _ m] room by auto
  note u = ab_start_vector_used [OF k, of m a]
  obtain f2 where f2: "push_bytes bytes f1 = Some f2" "fbb_rel f2 (ab_push bytes (ab_start_vector m k a))"
    using rel_push [OF f1(2), of bytes] u room by auto
  have "ab_nested (ab_push bytes (ab_start_vector m k a))" by (simp add: ab_push_def)
  from rel_end_vector [OF f2(2) this, of n] u room obtain f3 where
    "end_vector (of_nat n) f2 = Some (of_nat (length (ab_data b)), f3)" "fbb_rel f3 b"
    by (auto simp: b_def ab_vector_def)
  then show ?thesis using f1(1) f2(1) by auto
qed

text \<open>
  Where the bytes end up: \<open>gap\<close> zero bytes come between the length field and the elements,
  none if as many bytes were announced to \<open>StartVector\<close> as are pushed.
\<close>

lemma ab_element_layout:
  "ab_data (ab_element bs a) = bs @ replicate (pad_to (length (ab_data a)) (length bs)) 0 @ ab_data a"
  by (simp add: ab_element_def ab_push_def ab_align_def)

lemma ab_start_vector_data:
  obtains z where "ab_data (ab_start_vector m k a) = replicate z 0 @ ab_data a"
    and "0 < m \<Longrightarrow> scalar_size k \<Longrightarrow> (length (ab_data (ab_start_vector m k a)) + m) mod 4 = 0"
proof -
  define L where "L = length (ab_data a)"
  define p where "p = pad_to (L + m) 4"
  define q where "q = pad_to (L + p + m) k"
  show thesis
  proof (cases "m = 0")
    case True
    then show thesis using that [of 0] by (simp add: ab_start_vector_def ab_pre_align_def)
  next
    case False
    have d: "ab_data (ab_start_vector m k a) = replicate (q + p) 0 @ ab_data a"
      using False by (simp add: ab_start_vector_def ab_pre_align_def L_def p_def q_def
          add.commute add.left_commute flip: replicate_add append_assoc)
    have "(L + p + m) mod 4 = 0"
      using pad_to_mod [of 4 "L + m"] by (simp add: p_def ac_simps)
    moreover have "(L + p + m + q) mod k = 0" if "scalar_size k"
      using scalar_size_bounds [OF that] pad_to_mod [of k "L + p + m"] by (simp add: q_def)
    ultimately have "(q + p + L + m) mod 4 = 0" if k: "scalar_size k"
    proof -
      consider "k = 8" | "(L + p + m) mod k = 0"
        using k \<open>(L + p + m) mod 4 = 0\<close> by (auto simp: scalar_size_def)
      then show ?thesis
      proof cases
        case 1
        then have "(L + p + m + q) mod 8 = 0" using \<open>scalar_size k \<Longrightarrow> (L + p + m + q) mod k = 0\<close> k by blast
        then have "(L + p + m + q) mod 4 = 0" by presburger
        then show ?thesis by (simp add: add.commute add.left_commute)
      next
        case 2
        then have "q = 0" by (simp add: q_def pad_to_aligned)
        then show ?thesis using \<open>(L + p + m) mod 4 = 0\<close> by (simp add: add.commute add.left_commute)
      qed
    qed
    then show thesis using that [of "q + p"] d by (simp add: L_def)
  qed
qed

lemma ab_vector_layout:
  assumes "scalar_size k" and "0 < m" and "gap = pad_to (length (ab_data (ab_start_vector m k a)) + length bytes) 4"
  obtains z where "ab_data (ab_vector m k n bytes a) =
    u32_bytes (of_nat n) @ replicate gap 0 @ bytes @ replicate z 0 @ ab_data a"
proof -
  obtain z where "ab_data (ab_start_vector m k a) = replicate z 0 @ ab_data a"
    using ab_start_vector_data by blast
  then show thesis
    using that [of z] assms(3)
    by (simp add: ab_vector_def ab_element_layout ab_push_def add.commute)
qed

lemma ab_vector_exact:
  assumes "scalar_size k"
  obtains z where "ab_data (ab_vector (length bytes) k n bytes a) =
    u32_bytes (of_nat n) @ bytes @ replicate z 0 @ ab_data a"
proof (cases "bytes = []")
  case True
  then show thesis
    using that [of "pad_to (length (ab_data a)) 4"]
    by (simp add: ab_vector_def ab_element_layout ab_push_def ab_start_vector_def ab_pre_align_def)
next
  case False
  then have "(length (ab_data (ab_start_vector (length bytes) k a)) + length bytes) mod 4 = 0"
    using ab_start_vector_data [of "length bytes" k a] assms by (metis length_greater_0_conv)
  then show thesis
    using ab_vector_layout [where m = "length bytes" and a = a and bytes = bytes and n = n, OF assms _ refl] that False
    by (metis append.left_neutral length_greater_0_conv pad_to_aligned replicate_0)
qed

section \<open>Reading a vector\<close>

lemma read_u32_at:
  assumes "length pre < 2 ^ 63"
  shows "read_u32 (pre @ u32_bytes x @ post) (of_nat (length pre)) = Some x"
proof -
  have "unat (of_nat (length pre) :: size_t) = length pre"
    using assms by (intro unat_of_nat_small) simp
  from read_bytes_append [OF this, of "u32_bytes x" post] show ?thesis
    by (simp add: read_u32_def u32_read)
qed

lemma vector_at:
  assumes buf: "buf = pre @ u32_bytes (of_nat n) @ bytes @ post" and len: "length bytes = n * es"
    and small: "length buf < 2 ^ 31" and es: "0 < es"
  shows "vector_size buf (of_nat (length pre)) = Some (of_nat n)"
    and "i < n \<Longrightarrow> vector_get (Scalar_Element (of_nat es)) buf (of_nat (length pre)) (of_nat i) =
      Some (Scalar_Value (take es (drop (i * es) bytes)))"
proof -
  show vs: "vector_size buf (of_nat (length pre)) = Some (of_nat n)"
    unfolding vector_size_def buf using small by (intro read_u32_at) (simp add: buf)
  assume i: "i < n"
  have l: "i * es + es \<le> length bytes"
  proof -
    have "Suc i * es \<le> n * es" using i by (intro mult_le_mono1) simp
    then show ?thesis by (simp add: len add.commute)
  qed
  have "n \<le> length bytes" unfolding len using es by (cases es) auto
  moreover have "es \<le> length bytes" using l by simp
  moreover have "length bytes < 2 ^ 31" using small by (simp add: buf)
  ultimately have nb: "n < 2 ^ 31" "es < 2 ^ 31" by linarith+
  have "(of_nat i :: u32) < of_nat n"
    using i nb by (simp add: word_less_nat_alt unat_of_nat_small)
  moreover have "vector_data (of_nat (length pre)) + ucast (of_nat i :: u32) * of_nat es =
      (of_nat (length pre + 4 + i * es) :: size_t)"
    using ucast_of_nat_u32 [of i] i nb by (simp add: vector_data_def)
  moreover have "unat (of_nat (length pre + 4 + i * es) :: size_t) = length pre + 4 + i * es"
    using small l by (intro unat_of_nat_small) (simp add: buf)
  moreover have "unat (of_nat es :: size_t) = es" using nb by (intro unat_of_nat_small) simp
  moreover have "read_bytes es buf (of_nat (length pre + 4 + i * es)) = Some (take es (drop (i * es) bytes))"
  proof -
    have "bytes = take (i * es) bytes @ take es (drop (i * es) bytes) @ drop (i * es + es) bytes"
      by (metis append.assoc append_take_drop_id take_add)
    then have "buf = (pre @ u32_bytes (of_nat n) @ take (i * es) bytes) @
        take es (drop (i * es) bytes) @ drop (i * es + es) bytes @ post"
      by (simp add: buf)
    moreover have "length (take es (drop (i * es) bytes)) = es" using l by simp
    moreover have "unat (of_nat (length pre + 4 + i * es) :: size_t) =
        length (pre @ u32_bytes (of_nat n) @ take (i * es) bytes)"
      using \<open>unat (of_nat (length pre + 4 + i * es) :: size_t) = length pre + 4 + i * es\<close> l by simp
    ultimately show ?thesis by (metis read_bytes_append)
  qed
  ultimately show "vector_get (Scalar_Element (of_nat es)) buf (of_nat (length pre)) (of_nat i) =
      Some (Scalar_Value (take es (drop (i * es) bytes)))"
    by (simp add: vector_get_def vs indirect_read_scalar_def)
qed

section \<open>Finishing with any root\<close>

lemma ab_finish_layout:
  obtains z where "ab_data (ab_finish root a) =
      u32_bytes (of_nat (z + length (ab_data a) - root + 4)) @ replicate z 0 @ ab_data a"
    and "ab_finished (ab_finish root a)" and "scalar_size (unat (ab_minalign a)) \<Longrightarrow> z < 16"
proof -
  define a1 where "a1 = ab_pre_align 4 (unat (ab_minalign a)) (a\<lparr>ab_vtables := []\<rparr>)"
  obtain x where x: "ab_data a1 = replicate x 0 @ ab_data a"
    by (simp add: a1_def ab_pre_align_def)
  define z where "z = pad_to (length (ab_data a1)) 4 + x"
  have z: "ab_data (ab_align 4 a1) = replicate z 0 @ ab_data a"
    by (simp add: ab_align_def x z_def replicate_add)
  have "pad_to (length (ab_data (ab_align 4 a1))) 4 = 0"
    using pad_to_done [of 4 "length (ab_data a1)"] by (simp add: ab_align_def add.commute)
  then have "ab_data (ab_finish root a) =
      u32_bytes (of_nat (length (ab_data (ab_align 4 a1)) - root + 4)) @ ab_data (ab_align 4 a1)"
    by (simp add: ab_finish_def Let_def ab_element_layout ab_offset_def flip: a1_def)
  moreover have "ab_finished (ab_finish root a)" by (simp add: ab_finish_def Let_def)
  moreover have "z < 16" if "scalar_size (unat (ab_minalign a))"
  proof -
    have "x = pad_to (length (ab_data a) + 4) (unat (ab_minalign a))"
      using x by (auto simp: a1_def ab_pre_align_def dest: arg_cong [of _ _ length])
    then have "x < 9"
      using pad_to_le [of "unat (ab_minalign a)" "length (ab_data a) + 4"] scalar_size_bounds [OF that] by simp
    moreover have "pad_to (length (ab_data a1)) 4 < 4" by (rule pad_to_le) simp
    ultimately show ?thesis by (simp add: z_def)
  qed
  ultimately show thesis using that [of z] by (simp add: z)
qed

text \<open>The pointer of a finished buffer leads to the object given to \<open>Finish\<close>.\<close>

lemma finished_root:
  assumes r: "fbb_rel f a" and i: "ab_idle a" and room: "48 + ab_used a < 2 ^ 31 - 1"
    and m: "scalar_size (unat (ab_minalign a))" and ne: "ab_data a \<noteq> []"
  obtains pre where "do { f \<leftarrow> fbb_finish (of_nat (length (ab_data a))) f; fbb_contents f } = Some (pre @ ab_data a)"
    and "get_root (pre @ ab_data a) 0 = Some (of_nat (length pre))" and "length pre + length (ab_data a) < 2 ^ 31"
proof -
  let ?n = "length (ab_data a)"
  obtain f' where f': "fbb_finish (of_nat ?n) f = Some f'" "fbb_rel f' (ab_finish ?n a)"
    using rel_finish [OF r i room m, of ?n] ne by auto
  obtain z where z: "ab_data (ab_finish ?n a) = u32_bytes (of_nat (z + 4)) @ replicate z 0 @ ab_data a"
    and fin: "ab_finished (ab_finish ?n a)" and z16: "z < 16"
    using ab_finish_layout [of ?n a] m by auto
  define pre where "pre = u32_bytes (of_nat (z + 4)) @ replicate z (0 :: byte)"
  have c: "fbb_contents f' = Some (pre @ ab_data a)"
    using rel_contents [OF f'(2) fin] ne unfolding z by (simp add: pre_def)
  have l: "length pre = z + 4" by (simp add: pre_def)
  have "length pre + ?n < 2 ^ 31" using room l z16 by (simp add: ab_used_def)
  have "get_root (pre @ ab_data a) 0 = Some (of_nat (length pre))"
    using read_u32_at [of "[]" "of_nat (z + 4)" "replicate z 0 @ ab_data a"] ucast_of_nat_u32 [of "z + 4"] \<open>length pre + ?n < 2 ^ 31\<close> l
    by (simp add: get_root_def pre_def)
  then show thesis using that [of pre] f'(1) c \<open>length pre + ?n < 2 ^ 31\<close> by simp
qed

section \<open>Properties\<close>

lemma ab_vector_used:
  assumes "scalar_size k"
  shows "ab_used (ab_vector m k n bytes a) \<le> length bytes + 29 + ab_used a"
proof -
  let ?b = "(ab_push bytes (ab_start_vector m k a))\<lparr>ab_nested := False\<rparr>"
  have "ab_used ?b = length bytes + ab_used (ab_start_vector m k a)"
    by (simp add: ab_used_def ab_push_def)
  moreover have "ab_used (ab_vector m k n bytes a) \<le> 15 + ab_used ?b"
    unfolding ab_vector_def by (rule ab_element_used) simp
  ultimately show ?thesis using ab_start_vector_used [OF assms, of m a] by linarith
qed

lemma ab_vector_idle: "ab_idle a \<Longrightarrow> ab_idle (ab_vector m k n bytes a)"
  by (simp add: ab_idle_def ab_vector_def ab_element_def ab_align_def ab_push_def ab_start_vector_def ab_pre_align_def)

lemma scalar_size_max:
  "scalar_size (unat (x :: size_t)) \<Longrightarrow> scalar_size k \<Longrightarrow> scalar_size (unat (max x (of_nat k)))"
  by (auto simp: scalar_size_def unat_max_word max_def)

lemma ab_vector_minalign:
  assumes "scalar_size (unat (ab_minalign a))" and "scalar_size k"
  shows "scalar_size (unat (ab_minalign (ab_vector m k n bytes a)))"
proof -
  have "scalar_size (unat (max x 4))" if "scalar_size (unat x)" for x :: size_t
    using scalar_size_max [OF that scalar_size_4] by simp
  then show ?thesis
    using scalar_size_max assms
    by (simp add: ab_vector_def ab_element_def ab_align_def ab_push_def ab_start_vector_def ab_pre_align_def)
qed

lemma div_of_nat_size:
  assumes "a < 2 ^ 64" and "b < 2 ^ 64"
  shows "(of_nat a :: size_t) div of_nat b = of_nat (a div b)"
proof -
  have "a div b < 2 ^ 64" using assms(1) by (meson div_le_dividend le_less_trans)
  then have "unat ((of_nat a :: size_t) div of_nat b) = unat (of_nat (a div b) :: size_t)"
    using assms by (simp add: unat_div unat_of_nat_small)
  then show ?thesis by (simp only: word_unat_eq_iff)
qed

lemma create_vector_eq:
  assumes es: "0 < es" and len: "length bytes = n * es" "length bytes < 2 ^ 31"
  shows "create_vector (of_nat es) bytes f =
    do { f \<leftarrow> start_vector (of_nat n) (of_nat es) (of_nat es) f; f \<leftarrow> push_bytes bytes f; end_vector (of_nat n) f }"
proof -
  have "n \<le> length bytes" unfolding len(1) using es by (cases es) auto
  have div: "(of_nat (length bytes) :: size_t) div of_nat es = of_nat n"
  proof (cases "n = 0")
    case False
    then have "es \<le> length bytes" unfolding len(1) by (cases n) auto
    moreover have "length bytes < 2 ^ 64" using len(2) by simp
    moreover from calculation have "es < 2 ^ 64" by (rule le_less_trans)
    ultimately have "(of_nat (length bytes) :: size_t) div of_nat es = of_nat (length bytes div es)"
      by (intro div_of_nat_size)
    then show ?thesis using len(1) es by simp
  qed (use len in simp)
  have "push_bytes bytes g = Some g" if "(of_nat n :: size_t) = 0" for g
  proof -
    have "unat (of_nat n :: size_t) = n"
      using \<open>n \<le> length bytes\<close> len(2) by (intro unat_of_nat_small) simp
    then have "bytes = []" using that len(1) by simp
    then show ?thesis by (simp add: push_bytes_def on_buf_def vd_push_def)
  qed
  then show ?thesis
    by (cases "start_vector (of_nat n) (of_nat es) (of_nat es) f") (auto simp: create_vector_def div Let_def)
qed

text \<open>C23: A vector of scalars of 1, 2, 4 or 8 bytes written by \<open>CreateVector\<close> and
  finished is read back by \<open>Vector\<close>: the root pointer leads to it, its size is the number of
  elements, and \<open>Get(i)\<close> reads the bytes of the i-th one inside the buffer.\<close>

theorem vector_roundtrip:
  assumes es: "scalar_size es" and len: "length bytes = n * es" "length bytes < 2 ^ 31 - 256"
  shows "\<exists>buf vec. do { (off, f) \<leftarrow> create_vector (of_nat es) bytes default_builder;
        f \<leftarrow> fbb_finish off f; fbb_contents f } = Some buf \<and>
    get_root buf 0 = Some vec \<and> vector_size buf vec = Some (of_nat n) \<and>
    (\<forall>i<n. vector_get (Scalar_Element (of_nat es)) buf vec (of_nat i) =
        Some (Scalar_Value (take es (drop (i * es) bytes))))"
proof -
  have es0: "0 < es" using scalar_size_bounds [OF es] by simp
  define a where "a = ab_vector (length bytes) es n bytes ab_new"
  have i: "ab_idle ab_new" and u: "ab_used ab_new = 0" by (simp_all add: ab_idle_def ab_new_def ab_used_def)
  obtain f where f: "create_vector (of_nat es) bytes default_builder = Some (of_nat (length (ab_data a)), f)"
      "fbb_rel f a"
    using rel_vector [OF rel_new i es, of "length bytes" "of_nat n" "of_nat es" bytes n] len u
    by (auto simp: a_def create_vector_eq [OF es0 len(1)])
  obtain z where z: "ab_data a = u32_bytes (of_nat n) @ bytes @ replicate z 0 @ []"
    using ab_vector_exact [OF es, of bytes n ab_new] by (auto simp: a_def ab_new_def)
  have "ab_used a \<le> length bytes + 29" using ab_vector_used [OF es, of "length bytes" n bytes ab_new] u by (simp add: a_def)
  moreover have "scalar_size (unat (ab_minalign a))"
    unfolding a_def by (rule ab_vector_minalign [OF _ es]) (simp add: ab_new_def scalar_size_def)
  moreover have "ab_data a \<noteq> []" using z by (metis append_is_Nil_conv length_0_conv length_u32_bytes zero_neq_numeral)
  ultimately obtain pre where pre: "do { f \<leftarrow> fbb_finish (of_nat (length (ab_data a))) f; fbb_contents f } = Some (pre @ ab_data a)"
      "get_root (pre @ ab_data a) 0 = Some (of_nat (length pre))" "length pre + length (ab_data a) < 2 ^ 31"
    using finished_root [OF f(2)] ab_vector_idle [OF i] len(2) by (auto simp: a_def)
  have "pre @ ab_data a = pre @ u32_bytes (of_nat n) @ bytes @ (replicate z 0 @ [])" by (simp add: z)
  from vector_at [OF this len(1) _ es0] show ?thesis
    using pre f(1) by (intro exI [of _ "pre @ ab_data a"] exI [of _ "of_nat (length pre)"]) simp
qed

text \<open>Three elements of two bytes.\<close>

theorem vector_roundtrip_witness:
  "\<exists>buf vec. do { (off, f) \<leftarrow> create_vector (of_nat 2) [1, 2, 3, 4, 5, 6] default_builder;
        f \<leftarrow> fbb_finish off f; fbb_contents f } = Some buf \<and>
    get_root buf 0 = Some vec \<and> vector_size buf vec = Some (of_nat 3) \<and>
    (\<forall>i<3. vector_get (Scalar_Element (of_nat 2)) buf vec (of_nat i) =
        Some (Scalar_Value (take 2 (drop (i * 2) [1, 2, 3, 4, 5, 6]))))"
  by (rule vector_roundtrip) (simp_all add: scalar_size_def)

section \<open>Vectors of structs\<close>

lemma length_concat_same: "\<forall>s \<in> set v. length s = sz \<Longrightarrow> length (concat v) = length v * sz"
  by (induction v) auto

lemma concat_nth_same:
  assumes "\<forall>s \<in> set v. length s = sz" and "i < length v"
  shows "concat v = concat (take i v) @ v ! i @ concat (drop (Suc i) v)" and "length (concat (take i v)) = i * sz"
proof -
  have "v = take i v @ v ! i # drop (Suc i) v" using assms(2) by (rule id_take_nth_drop)
  then show "concat v = concat (take i v) @ v ! i @ concat (drop (Suc i) v)" by (metis concat.simps(2) concat_append)
  show "length (concat (take i v)) = i * sz"
    using assms by (induction v arbitrary: i) (auto simp: take_Cons split: nat.splits)
qed

text \<open>
  \<open>CreateVectorOfStructs\<close> announces \<open>len * sz / align\<close> elements of \<open>sz\<close> bytes, but pushes \<open>len\<close> of
  them.  The number of bytes that \<open>EndVector\<close> then inserts below the length field:
\<close>

definition struct_gap :: "nat \<Rightarrow> nat \<Rightarrow> nat \<Rightarrow> nat" where
  "struct_gap len sz align = (if align = 1 \<and> odd len \<and> sz mod 4 \<in> {2, 3} then 2 else 0)"

lemma struct_gap_mod:
  assumes al: "scalar_size al" and sz: "sz = k * al" and k: "0 < k"
  shows "(len * k * sz - len * sz) mod 4 = struct_gap len sz al"
proof -
  have d: "len * k * sz - len * sz = al * len * (k * (k - 1))"
    by (simp add: sz diff_mult_distrib2 mult.commute mult.left_commute)
  obtain q r where kq: "k = 4 * q + r" "r < 4" by (metis mod_less_divisor mult_div_mod_eq zero_less_numeral)
  have km: "(k * (k - 1)) mod 4 = (if r \<in> {2, 3} then 2 else 0)"
  proof -
    consider "r = 0" | "r = 1" | "r = 2" | "r = 3" using kq(2) by linarith
    then show ?thesis
    proof cases
      case 1
      then have "k * (k - 1) = 4 * (q * (k - 1))" using kq(1) by simp
      then have "(k * (k - 1)) mod 4 = 0" by (simp only: mod_mult_self1_is_0)
      then show ?thesis using 1 by simp
    next
      case 2
      then have "k * (k - 1) = 4 * (q * k)" using kq(1) by simp
      then have "(k * (k - 1)) mod 4 = 0" by (simp only: mod_mult_self1_is_0)
      then show ?thesis using 2 by simp
    next
      case 3
      then have "k * (k - 1) = 2 + 4 * (q * (4 * q + 3))" using kq(1) by (simp add: algebra_simps)
      then show ?thesis using 3 by (simp only: mod_mult_self2) simp
    next
      case 4
      then have "k * (k - 1) = 6 + 4 * (q * (4 * q + 5))" using kq(1) by (simp add: algebra_simps)
      then show ?thesis using 4 by (simp only: mod_mult_self2) simp
    qed
  qed
  show ?thesis
  proof (cases "al = 1")
    case True
    have "(len * (k * (k - 1))) mod 4 = (len * (if r \<in> {2, 3} then 2 else 0)) mod 4"
      using mod_mult_right_eq [of len "k * (k - 1)" 4] by (simp only: km)
    moreover have "k mod 4 = r" using kq by simp
    moreover have "(len * 2) mod 4 = (if odd len then 2 else 0)" by presburger
    ultimately show ?thesis unfolding d using True by (simp add: sz struct_gap_def)
  next
    case False
    then obtain c where c: "al = 2 * c" using al by (auto simp: scalar_size_def intro: that [of 1] that [of 2] that [of 4])
    have "even (k * (k - 1))" using k by (cases k) auto
    then obtain e where e: "k * (k - 1) = 2 * e" by (rule evenE)
    have "al * len * (k * (k - 1)) = 4 * (c * len * e)" unfolding c e by simp
    then have "(al * len * (k * (k - 1))) mod 4 = 0" by (simp only: mod_mult_self1_is_0)
    then show ?thesis unfolding d using False by (simp add: struct_gap_def)
  qed
qed

text \<open>C37: A vector of structs written by \<open>CreateVectorOfStructs\<close> and finished is
  found at the root with its length, but its elements start \<open>struct_gap\<close> bytes behind the
  place \<open>Vector::Get\<close> points to: none for types with an alignment of at least two and for
  even lengths, two for an odd number of byte-aligned structs whose size is 2 or 3 modulo 4;
  exactly then the elements are not where the accessors look for them.\<close>

theorem struct_vector_gap:
  assumes al: "scalar_size al" and sz: "sz = k * al" "0 < k" and v: "\<forall>s \<in> set v. length s = sz" "v \<noteq> []"
    and small: "length v * k * sz < 2 ^ 31 - 256"
  shows "\<exists>buf vec. do { (off, f) \<leftarrow> create_vector_of_structs (of_nat sz) (of_nat al) v default_builder;
        f \<leftarrow> fbb_finish off f; fbb_contents f } = Some buf \<and>
    get_root buf 0 = Some vec \<and> vector_size buf vec = Some (of_nat (length v)) \<and>
    (\<forall>i<length v. \<exists>p. vector_get (Struct_Element (of_nat sz)) buf vec (of_nat i) = Some (Pointer_Value p) \<and>
        read_bytes sz buf (p + of_nat (struct_gap (length v) sz al)) = Some (v ! i))"
proof -
  define n where "n = length v"
  define m where "m = n * k * sz"
  define a where "a = ab_vector m al n (concat v) ab_new"
  note al0 = scalar_size_bounds [OF al]
  have sz0: "0 < sz" using sz al0 by simp
  have n0: "0 < n" using v(2) by (simp add: n_def)
  have lc: "length (concat v) = n * sz"
    using length_concat_same [OF v(1)] by (simp add: n_def)
  have "m = n * sz * k" by (simp add: m_def)
  then have le: "n * sz \<le> m" using sz(2) by simp
  moreover have "n \<le> n * sz" using sz0 by simp
  ultimately have le: "n * sz \<le> m" "n \<le> m" by linarith+
  have "sz \<le> n * sz" using n0 by (cases n) auto
  then have szm: "sz \<le> m" using le(1) by linarith
  have i: "ab_idle ab_new" and u: "ab_used ab_new = 0" by (simp_all add: ab_idle_def ab_new_def ab_used_def)
  have ms: "m < 2 ^ 31 - 256" using small by (simp add: m_def n_def)
  have ws: "of_nat n * of_nat sz div of_nat al * of_nat sz = (of_nat m :: size_t)"
  proof -
    have "(of_nat (n * sz) :: size_t) div of_nat al = of_nat (n * sz div al)"
      using le ms al0 by (intro div_of_nat_size) simp_all
    moreover have "n * sz div al = n * k" using sz al0 by simp
    ultimately show ?thesis by (simp add: m_def)
  qed
  have nz: "0 < (of_nat n :: size_t)"
    using n0 le(2) ms by (simp add: word_less_nat_alt unat_of_nat_small)
  obtain f where f: "create_vector_of_structs (of_nat sz) (of_nat al) v default_builder = Some (of_nat (length (ab_data a)), f)"
      "fbb_rel f a"
    using rel_vector [OF rel_new i al, of m "of_nat n * of_nat sz div of_nat al" "of_nat sz" "concat v" n] ws lc le(1) ms u nz
    by (auto simp: a_def create_vector_of_structs_def Let_def n_def)
  define L where "L = length (ab_data (ab_start_vector m al ab_new))"
  have "(L + m) mod 4 = 0"
    using ab_start_vector_data [of m al ab_new] le(2) n0 al unfolding L_def by (metis less_le_trans)
  then have gap: "struct_gap n sz al = pad_to (L + length (concat v)) 4"
  proof (intro pad_to_unique)
    have g: "struct_gap n sz al = (m - n * sz) mod 4"
      using struct_gap_mod [OF al sz, of n] by (simp add: m_def)
    then show "struct_gap n sz al < 4" by simp
    have "(L + n * sz + (m - n * sz)) mod 4 = 0"
      using \<open>(L + m) mod 4 = 0\<close> le(1) by simp
    then show "(L + length (concat v) + struct_gap n sz al) mod 4 = 0"
      unfolding g lc mod_add_right_eq .
  qed
  obtain z where z: "ab_data a = u32_bytes (of_nat n) @ replicate (struct_gap n sz al) 0 @ concat v @ replicate z 0 @ []"
    using ab_vector_layout [OF al _ gap [unfolded L_def], of n] le(2) n0 by (auto simp: a_def ab_new_def)
  have "ab_used a \<le> length (concat v) + 29" using ab_vector_used [OF al, of m n "concat v" ab_new] u by (simp add: a_def)
  then have "48 + ab_used a < 2 ^ 31 - 1" using lc le(1) ms by linarith
  moreover have "scalar_size (unat (ab_minalign a))"
    unfolding a_def by (rule ab_vector_minalign [OF _ al]) (simp add: ab_new_def scalar_size_def)
  moreover have "ab_data a \<noteq> []" using z by (metis append_is_Nil_conv length_0_conv length_u32_bytes zero_neq_numeral)
  ultimately obtain pre where pre: "do { f \<leftarrow> fbb_finish (of_nat (length (ab_data a))) f; fbb_contents f } = Some (pre @ ab_data a)"
      "get_root (pre @ ab_data a) 0 = Some (of_nat (length pre))" "length pre + length (ab_data a) < 2 ^ 31"
    using finished_root [OF f(2)] ab_vector_idle [OF i] by (auto simp: a_def)
  let ?buf = "pre @ ab_data a" and ?vec = "of_nat (length pre) :: size_t"
  have vs: "vector_size ?buf ?vec = Some (of_nat n)"
    unfolding vector_size_def z using pre(3) by (intro read_u32_at) simp
  have elem: "\<exists>p. vector_get (Struct_Element (of_nat sz)) ?buf ?vec (of_nat i) = Some (Pointer_Value p) \<and>
      read_bytes sz ?buf (p + of_nat (struct_gap n sz al)) = Some (v ! i)" if "i < n" for i
  proof -
    let ?g = "struct_gap n sz al" and ?p = "of_nat (length pre + 4 + i * sz) :: size_t"
    have iv: "i < length v" using that by (simp add: n_def)
    note c = concat_nth_same [OF v(1) iv]
    have "(of_nat i :: u32) < of_nat n"
      using that le(2) ms by (simp add: word_less_nat_alt unat_of_nat_small)
    moreover have "indirect_read_struct (of_nat sz) (vector_data ?vec) (of_nat i) = ?p"
      using ucast_of_nat_u32 [of i] that le(2) ms by (simp add: indirect_read_struct_def vector_data_def)
    ultimately have "vector_get (Struct_Element (of_nat sz)) ?buf ?vec (of_nat i) = Some (Pointer_Value ?p)"
      by (simp add: vector_get_def vs)
    moreover have "read_bytes sz ?buf (?p + of_nat ?g) = Some (v ! i)"
    proof -
      have "length (concat v) = length (concat (take i v)) + length (v ! i) + length (concat (drop (Suc i) v))"
        by (subst c(1)) simp
      then have "length pre + 4 + i * sz + ?g < 2 ^ 31" using pre(3) c(2) by (simp add: z)
      then have "unat (?p + of_nat ?g) = length (pre @ u32_bytes (of_nat n) @ replicate ?g 0 @ concat (take i v))"
        using c(2) unat_of_nat_small [where 'a = 64 and n = "length pre + 4 + i * sz + ?g"] by simp
      note rd = read_bytes_append [OF this, of "v ! i" "concat (drop (Suc i) v) @ replicate z 0"]
      have "?buf = (pre @ u32_bytes (of_nat n) @ replicate ?g 0 @ concat (take i v)) @ v ! i @
          concat (drop (Suc i) v) @ replicate z 0"
        unfolding z by (subst c(1)) simp
      moreover have "length (v ! i) = sz" using v(1) iv by simp
      ultimately show ?thesis using rd by (simp only:)
    qed
    ultimately show ?thesis by blast
  qed
  show ?thesis
    using pre f(1) vs elem by (intro exI [of _ ?buf] exI [of _ ?vec]) (simp add: n_def)
qed

text \<open>One struct of two bytes: its bytes are read two bytes behind the element.\<close>

theorem struct_vector_gap_witness:
  "\<exists>buf vec p. do { (off, f) \<leftarrow> create_vector_of_structs (of_nat 2) (of_nat 1) [[7, 9]] default_builder;
        f \<leftarrow> fbb_finish off f; fbb_contents f } = Some buf \<and>
    get_root buf 0 = Some vec \<and> vector_get (Struct_Element (of_nat 2)) buf vec (of_nat 0) = Some (Pointer_Value p) \<and>
    read_bytes 2 buf (p + 2) = Some [7, 9]"
  using struct_vector_gap [of 1 2 2 "[[7, 9]]"] by (auto simp: scalar_size_def struct_gap_def)

end
