(* ===== verification/Fb_Vector_Roundtrip.thy ===== *)
theory Fb_Vector_Roundtrip
  imports Fb_Vector_Spec
begin

text \<open>
  \<open>CreateSharedString\<close> stores every text once, and \<open>std::stable_sort\<close> as the builder uses it.
\<close>

section \<open>Strings stored in the builder\<close>

text \<open>The string \<open>s\<close> lies at offset \<open>x\<close>, counted from the end of the buffer.\<close>

definition stored :: "byte list \<Rightarrow> uoffset_t \<Rightarrow> byte list \<Rightarrow> bool" where
  "stored d x s \<longleftrightarrow> 4 + length s \<le> unat x \<and> unat x \<le> length d \<and> length s < 2 ^ 32 \<and>
     take (4 + length s) (drop (length d - unat x) d) = u32_bytes (of_nat (length s)) @ s"

lemma stored_extend: "stored d x s \<Longrightarrow> stored (z @ d) x s"
  by (auto simp: stored_def)

lemma rel_read:
  assumes r: "fbb_rel f a" and k: "k + n \<le> length (ab_data a)" and ne: "ab_data a \<noteq> []"
  shows "vd_read n (vd_cur (fbb_buf f) + k) (fbb_buf f) = Some (take n (drop k (ab_data a)))"
proof -
  have i: "vd_inv (fbb_buf f)" and t: "vd_top (fbb_buf f) = map Some (ab_data a)"
    using r by (simp_all add: fbb_rel_def)
  show ?thesis
  proof (cases "n = 0")
    case True
    have "vd_top (fbb_buf f) \<noteq> []" using t ne by simp
    then obtain b where "vd_buf (fbb_buf f) = Some b" "vd_top (fbb_buf f) = drop (vd_cur (fbb_buf f)) b"
      "vd_cur (fbb_buf f) \<le> length b"
      using vd_top_buf [OF i] by metis
    then show ?thesis using True k arg_cong [OF t, of length] by (simp add: vd_read_def)
  next
    case False
    then show ?thesis
      using k t by (intro vd_read_top [OF i]) (simp_all add: drop_map take_map)
  qed
qed

lemma pooled_string_stored:
  assumes r: "fbb_rel f a" and st: "stored (ab_data a) x s"
  shows "pooled_string (fbb_buf f) x = Some s"
proof -
  have i: "vd_inv (fbb_buf f)" and t: "vd_top (fbb_buf f) = map Some (ab_data a)"
    using r by (simp_all add: fbb_rel_def)
  have x: "4 + length s \<le> unat x" "unat x \<le> length (ab_data a)" "length s < 2 ^ 32"
    and b: "take (4 + length s) (drop (length (ab_data a) - unat x) (ab_data a)) = u32_bytes (of_nat (length s)) @ s"
    using st by (simp_all add: stored_def)
  let ?k = "length (ab_data a) - unat x"
  have ne: "ab_data a \<noteq> []" using x by auto
  have p: "vd_data_at (ucast x) (fbb_buf f) = Some (vd_cur (fbb_buf f) + ?k)"
    using vd_data_at_spec [OF i, of "ucast x"] x(2) t by (simp add: unat_ucast_up)
  have "take 4 (drop ?k (ab_data a)) = u32_bytes (of_nat (length s))"
    using arg_cong [OF b, of "take 4"] by simp
  then have n: "vd_read_u32 (vd_cur (fbb_buf f) + ?k) (fbb_buf f) = Some (of_nat (length s))"
    using rel_read [OF r _ ne, of ?k 4] x by (simp add: vd_read_u32_def u32_read)
  have u: "unat (of_nat (length s) :: u32) = length s" using x(3) by (intro unat_of_nat_small) simp
  have "take (length s) (drop (?k + 4) (ab_data a)) = s"
    using arg_cong [OF b, of "drop 4"] by (simp add: drop_take add.commute)
  then have "vd_read (length s) (vd_cur (fbb_buf f) + (?k + 4)) (fbb_buf f) = Some s"
    using rel_read [OF r _ ne, of "?k + 4" "length s"] x by simp
  then show ?thesis using p n u by (simp add: pooled_string_def add.assoc)
qed

lemma string_less_than_antisym: "\<not> string_less_than s t \<and> \<not> string_less_than t s \<longleftrightarrow> s = t"
proof -
  have "(s, t) \<in> lexord {(x :: byte, y). x < y} \<or> s = t \<or> (t, s) \<in> lexord {(x, y). x < y}"
    by (rule lexord_linear) auto
  moreover have "(s, s) \<notin> lexord {(x :: byte, y). x < y}" by (rule lexord_irreflexive) auto
  ultimately show ?thesis by (auto simp: string_less_than_lexord)
qed

text \<open>Looking up a text in a pool of stored strings.\<close>

lemma pool_find_stored:
  assumes r: "fbb_rel f a" and s: "stored (ab_data a) off s" and "\<forall>(x, t) \<in> set ps. stored (ab_data a) x t"
  shows "pool_find (fbb_buf f) off (map fst ps) = Some (map_option fst (find (\<lambda>(x, t). t = s) ps))"
  using assms(3)
proof (induction ps)
  case (Cons p ps)
  obtain x t where p: "p = (x, t)" by fastforce
  have "pooled_string (fbb_buf f) off = Some s" "pooled_string (fbb_buf f) x = Some t"
    using pooled_string_stored [OF r s] pooled_string_stored [OF r, of x t] Cons.prems p by simp_all
  then show ?case
    using Cons string_less_than_antisym [of s t] by (auto simp: p string_offset_less_def)
qed simp

lemma ab_create_string_layout:
  obtains z where "ab_data (ab_create_string str a) =
    u32_bytes (of_nat (length str)) @ str @ 0 # replicate z 0 @ ab_data a" and "z < 4"
    and "ab_minalign (ab_create_string str a) = max (ab_minalign a) 4"
proof -
  define z where "z = pad_to (length (ab_data a) + (length str + 1)) 4"
  have d: "ab_data (ab_push str (ab_push [0] (ab_pre_align (length str + 1) 4 a))) = str @ 0 # replicate z 0 @ ab_data a"
    by (simp add: ab_push_def ab_pre_align_def z_def)
  have "(length (ab_data a) + (length str + 1) + z) mod 4 = 0"
    unfolding z_def by (rule pad_to_mod) simp
  then have "pad_to (length (str @ 0 # replicate z (0 :: byte) @ ab_data a)) 4 = 0"
    by (intro pad_to_aligned) (simp add: ac_simps)
  then have "ab_data (ab_create_string str a) = u32_bytes (of_nat (length str)) @ str @ 0 # replicate z 0 @ ab_data a"
    unfolding ab_create_string_def ab_element_layout d by simp
  moreover have "z < 4" unfolding z_def by (rule pad_to_le) simp
  ultimately show thesis
    using that [of z] by (simp add: ab_create_string_def ab_element_def ab_align_def ab_push_def ab_pre_align_def)
qed

lemma create_string_stored:
  assumes "length str + 40 + ab_used a < 2 ^ 31 - 1"
  shows "stored (ab_data (ab_create_string str a)) (of_nat (length (ab_data (ab_create_string str a)))) str"
proof -
  obtain z where z: "ab_data (ab_create_string str a) =
      u32_bytes (of_nat (length str)) @ str @ 0 # replicate z 0 @ ab_data a" "z < 4"
    using ab_create_string_layout by blast
  have "length (ab_data a) \<le> ab_used a" by (simp add: ab_used_def)
  then have "unat (of_nat (length (ab_data (ab_create_string str a))) :: u32) =
      length (ab_data (ab_create_string str a))"
    using z assms by (intro unat_of_nat_small) simp
  then show ?thesis using z(1) assms by (simp add: stored_def)
qed

lemma create_string_pool: "create_string str f = Some (off, f') \<Longrightarrow> string_pool f' = string_pool f"
  by (auto simp: create_string_def pre_align_def push_bytes_def on_buf_def push_element_def fbb_align_def
      track_min_align_def Let_def split: bind_splits if_splits)

text \<open>The pool holds the offsets of stored texts; all of them stay where they are.\<close>

definition pool_inv :: "fb_builder \<Rightarrow> abs_builder \<Rightarrow> (uoffset_t \<times> byte list) list \<Rightarrow> bool" where
  "pool_inv f a ps \<longleftrightarrow> fbb_rel f a \<and> (string_pool f = Some (map fst ps) \<or> string_pool f = None \<and> ps = []) \<and>
     (\<forall>(x, t) \<in> set ps. stored (ab_data a) x t) \<and> distinct (map snd ps)"



section \<open>Sorting\<close>

text \<open>With a comparison of keys the result is the library's stable sort.\<close>

lemma stable_insert_key: "stable_insert (\<lambda>x y. k x < k y) x ys = insort_key k x ys"
  for k :: "'a \<Rightarrow> 'k::linorder"
  by (induction ys) auto

lemma stable_sort_key: "stable_sort (\<lambda>x y. k x < k y) xs = sort_key k xs"
  for k :: "'a \<Rightarrow> 'k::linorder"
  by (simp add: stable_sort_def sort_key_def stable_insert_key [abs_def])

lemma stable_insert_cong:
  "(\<And>y. y \<in> set ys \<Longrightarrow> lt y x = lt' y x) \<Longrightarrow> stable_insert lt x ys = stable_insert lt' x ys"
  by (induction ys) auto

lemma set_stable_insert: "set (stable_insert lt x ys) = insert x (set ys)"
  by (induction ys) auto

lemma set_stable_sort: "set (stable_sort lt xs) = set xs"
  by (induction xs) (auto simp: stable_sort_def set_stable_insert)

lemma stable_sort_cong:
  "(\<And>x y. x \<in> set xs \<Longrightarrow> y \<in> set xs \<Longrightarrow> lt x y = lt' x y) \<Longrightarrow> stable_sort lt xs = stable_sort lt' xs"
proof (induction xs)
  case (Cons x xs)
  then have "stable_sort lt xs = stable_sort lt' xs" by simp
  moreover have "stable_insert lt x (stable_sort lt' xs) = stable_insert lt' x (stable_sort lt' xs)"
    using Cons.prems by (intro stable_insert_cong) (simp add: set_stable_sort)
  ultimately show ?case by (simp add: stable_sort_def)
qed (simp add: stable_sort_def)

lemma sorted_tables_are_sort_key:
  fixes k :: "uoffset_t \<Rightarrow> 'k::linorder"
  assumes "\<And>x y. x \<in> set offs \<Longrightarrow> y \<in> set offs \<Longrightarrow> table_key_less key_less (fbb_buf f) x y = Some (k x < k y)"
  shows "create_vector_of_sorted_tables key_less offs f = create_vector_of_offsets (sort_key k offs) f"
proof -
  have "stable_sort (\<lambda>x y. table_key_less key_less (fbb_buf f) x y = Some True) offs = sort_key k offs"
    unfolding stable_sort_key [of k, symmetric] by (rule stable_sort_cong) (simp add: assms)
  moreover have "list_all (\<lambda>x. list_all (\<lambda>y. table_key_less key_less (fbb_buf f) x y \<noteq> None) offs) offs"
    using assms by (simp add: list_all_iff)
  ultimately show ?thesis by (simp add: create_vector_of_sorted_tables_def Let_def)
qed

section \<open>Vectors of tables and strings\<close>

text \<open>The slots of a vector of offsets, relative to the end of the buffer under construction.\<close>

fun ab_push_offsets :: "uoffset_t list \<Rightarrow> abs_builder \<Rightarrow> abs_builder" where
  "ab_push_offsets [] a = a"
| "ab_push_offsets (x # xs) a =
     (let b = ab_push_offsets xs a in ab_element (ab_offset (unat x) b) (ab_align 4 b))"

lemma rel_push_offsets:
  assumes "fbb_rel f a" and "length (ab_data a) mod 4 = 0" and "4 * length xs + 32 + ab_used a < 2 ^ 31 - 1"
    and "\<forall>x \<in> set xs. x \<noteq> 0 \<and> unat x \<le> length (ab_data a)"
  shows "\<exists>f'. push_offsets xs f = Some f' \<and> fbb_rel f' (ab_push_offsets xs a) \<and>
    length (ab_data (ab_push_offsets xs a)) = 4 * length xs + length (ab_data a) \<and>
    ab_used (ab_push_offsets xs a) = 4 * length xs + ab_used a \<and>
    ab_nested (ab_push_offsets xs a) = ab_nested a \<and> ab_locs (ab_push_offsets xs a) = ab_locs a \<and>
    ab_minalign (ab_push_offsets xs a) = (if xs = [] then ab_minalign a else max (ab_minalign a) 4)"
  using assms
proof (induction xs)
  case (Cons x xs)
  let ?b = "ab_push_offsets xs a"
  obtain f1 where f1: "push_offsets xs f = Some f1" "fbb_rel f1 ?b"
    and b: "length (ab_data ?b) = 4 * length xs + length (ab_data a)" "ab_used ?b = 4 * length xs + ab_used a"
      "ab_nested ?b = ab_nested a" "ab_locs ?b = ab_locs a"
      "ab_minalign ?b = (if xs = [] then ab_minalign a else max (ab_minalign a) 4)"
    using Cons by auto
  have "length (ab_data ?b) mod 4 = 0" using Cons.prems(2) b(1) by simp
  then have al: "ab_align 4 ?b = ?b\<lparr>ab_minalign := max (ab_minalign ?b) 4\<rparr>"
    by (simp add: ab_align_def pad_to_aligned)
  have x: "0 < unat x" "unat x \<le> length (ab_data ?b)"
    using Cons.prems(4) b(1) by (auto simp: unat_gt_0)
  obtain f2 where "push_offset x f1 = Some (of_nat (length (ab_data (ab_element (ab_offset (unat x) ?b) (ab_align 4 ?b)))), f2)"
      "fbb_rel f2 (ab_element (ab_offset (unat x) ?b) (ab_align 4 ?b))"
    using rel_push_offset [OF f1(2) _ x] b(2) Cons.prems(3) by auto
  moreover have "ab_element (ab_offset (unat x) ?b) (ab_align 4 ?b) =
      ?b\<lparr>ab_data := ab_offset (unat x) ?b @ ab_data ?b, ab_minalign := max (ab_minalign ?b) 4\<rparr>"
    using \<open>length (ab_data ?b) mod 4 = 0\<close> unfolding al
    by (subst ab_element_4) (simp_all add: ab_offset_def)
  ultimately show ?case
    using f1(1) b by (auto simp: Let_def ab_used_def ab_offset_def)
qed simp

lemma ab_push_offsets_data:
  assumes "length (ab_data a) mod 4 = 0"
  shows "length (ab_data (ab_push_offsets xs a)) = 4 * length xs + length (ab_data a) \<and>
    (\<exists>new. ab_data (ab_push_offsets xs a) = new @ ab_data a)"
    and "ab_data (ab_push_offsets (x # xs) a) =
      u32_bytes (of_nat (4 * length xs + length (ab_data a) - unat x + 4)) @ ab_data (ab_push_offsets xs a)"
proof -
  have step: "ab_data (ab_push_offsets (x # xs) a) =
      u32_bytes (of_nat (4 * length xs + length (ab_data a) - unat x + 4)) @ ab_data (ab_push_offsets xs a)"
    if "length (ab_data (ab_push_offsets xs a)) = 4 * length xs + length (ab_data a)" for x xs
  proof -
    have "length (ab_data (ab_push_offsets xs a)) mod 4 = 0" using that assms by simp
    then have "ab_align 4 (ab_push_offsets xs a) =
        (ab_push_offsets xs a)\<lparr>ab_minalign := max (ab_minalign (ab_push_offsets xs a)) 4\<rparr>"
      and "pad_to (length (ab_data (ab_push_offsets xs a))) 4 = 0"
      by (simp_all add: ab_align_def pad_to_aligned)
    then show ?thesis by (simp add: Let_def ab_element_layout ab_offset_def that)
  qed
  show 1: "length (ab_data (ab_push_offsets xs a)) = 4 * length xs + length (ab_data a) \<and>
      (\<exists>new. ab_data (ab_push_offsets xs a) = new @ ab_data a)" for xs
  proof (induction xs)
    case (Cons x xs)
    then obtain new where "length (ab_data (ab_push_offsets xs a)) = 4 * length xs + length (ab_data a)"
        "ab_data (ab_push_offsets xs a) = new @ ab_data a" by blast
    from step [OF this(1), of x] this show ?case
      by (simp del: ab_push_offsets.simps)
  qed simp
  from step 1 show "ab_data (ab_push_offsets (x # xs) a) =
      u32_bytes (of_nat (4 * length xs + length (ab_data a) - unat x + 4)) @ ab_data (ab_push_offsets xs a)" by blast
qed

lemma ab_push_offsets_slot:
  assumes "length (ab_data a) mod 4 = 0" and "i < length xs" and "\<forall>x \<in> set xs. unat x \<le> length (ab_data a)"
  shows "\<exists>pre post. ab_data (ab_push_offsets xs a) =
      pre @ u32_bytes (of_nat (4 * (length xs - i) + length (ab_data a) - unat (xs ! i))) @ post \<and> length pre = 4 * i"
  using assms(2,3)
proof (induction xs arbitrary: i)
  case (Cons x xs)
  note step = ab_push_offsets_data(2) [OF assms(1), of x xs]
  show ?case
  proof (cases i)
    case 0
    have "4 * length xs + length (ab_data a) - unat x + 4 = 4 * (length (x # xs) - 0) + length (ab_data a) - unat x"
      using Cons.prems(2) by simp
    then have "ab_data (ab_push_offsets (x # xs) a) =
        [] @ u32_bytes (of_nat (4 * (length (x # xs) - 0) + length (ab_data a) - unat x)) @ ab_data (ab_push_offsets xs a)"
      using step by (simp only: append_Nil)
    then show ?thesis unfolding 0 nth_Cons_0 by (metis list.size(3) mult_0_right)
  next
    case (Suc j)
    then have "j < length xs" "\<forall>x \<in> set xs. unat x \<le> length (ab_data a)" using Cons.prems by simp_all
    from Cons.IH [OF this] obtain pre post where "ab_data (ab_push_offsets xs a) =
        pre @ u32_bytes (of_nat (4 * (length xs - j) + length (ab_data a) - unat (xs ! j))) @ post" "length pre = 4 * j"
      by blast
    then show ?thesis unfolding step
      by (intro exI [of _ "u32_bytes (of_nat (4 * length xs + length (ab_data a) - unat x + 4)) @ pre"] exI [of _ post])
        (simp add: Suc)
  qed
qed simp

text \<open>
  A vector of tables, strings or other objects that the builder holds: whatever is added in
  front of it later, element \<open>i\<close> points to the object at the \<open>i\<close>-th offset.
\<close>

theorem offset_vector_roundtrip:
  assumes r: "fbb_rel f a" and i: "ab_idle a" and room: "4 * length offs + 128 + ab_used a < 2 ^ 31 - 1"
    and offs: "\<forall>x \<in> set offs. x \<noteq> 0 \<and> unat x \<le> length (ab_data a)"
  shows "\<exists>f' a'. create_vector_of_offsets offs f = Some (of_nat (length (ab_data a')), f') \<and>
    fbb_rel f' a' \<and> ab_idle a' \<and> ab_used a' \<le> 4 * length offs + 32 + ab_used a \<and>
    (\<exists>new. ab_data a' = new @ ab_data a) \<and>
    (\<forall>pre. length (pre @ ab_data a') < 2 ^ 31 \<longrightarrow>
      vector_size (pre @ ab_data a') (of_nat (length pre)) = Some (of_nat (length offs)) \<and>
      (\<forall>i<length offs. vector_get Offset_Element (pre @ ab_data a') (of_nat (length pre)) (of_nat i) =
        Some (Pointer_Value (of_nat (length (pre @ ab_data a') - unat (offs ! i))))))"
proof -
  define n where "n = length offs"
  let ?s = "ab_start_vector (4 * n) 4 a"
  obtain f1 where f1: "start_vector (of_nat n) 4 4 f = Some f1" "fbb_rel f1 ?s"
    using rel_start_vector [OF r i scalar_size_4, of "4 * n" "of_nat n" 4] room by (auto simp: n_def mult.commute)
  obtain z where z: "ab_data ?s = replicate z 0 @ ab_data a"
    and al: "0 < n \<Longrightarrow> (length (ab_data ?s) + 4 * n) mod 4 = 0"
    using ab_start_vector_data [of "4 * n" 4 a] by auto
  have us: "ab_used ?s \<le> 14 + ab_used a" by (rule ab_start_vector_used) simp
  let ?p = "ab_push_offsets offs ?s"
  have locs: "ab_locs ?s = []" using i by (simp add: ab_start_vector_def ab_pre_align_def ab_idle_def)
  have push: "\<exists>f'. push_offsets offs f1 = Some f' \<and> fbb_rel f' ?p \<and> ab_used ?p = 4 * n + ab_used ?s \<and>
      ab_nested ?p \<and> ab_locs ?p = []"
  proof (cases "n = 0")
    case True
    then show ?thesis using f1(2) locs by (simp add: n_def)
  next
    case False
    then have "length (ab_data ?s) mod 4 = 0" using al by presburger
    moreover have "\<forall>x \<in> set offs. x \<noteq> 0 \<and> unat x \<le> length (ab_data ?s)" using offs z by auto
    ultimately show ?thesis
      using rel_push_offsets [OF f1(2), of offs] us room locs by (auto simp: n_def)
  qed
  then obtain f2 where f2: "push_offsets offs f1 = Some f2" "fbb_rel f2 ?p"
    and p: "ab_used ?p = 4 * n + ab_used ?s" "ab_nested ?p" "ab_locs ?p = []"
    by blast
  let ?e = "ab_element (u32_bytes (of_nat n)) (?p\<lparr>ab_nested := False\<rparr>)"
  obtain f3 where f3: "end_vector (of_nat n) f2 = Some (of_nat (length (ab_data ?e)), f3)" "fbb_rel f3 ?e"
    using rel_end_vector [OF f2(2) p(2), of n] p(1) us room by (auto simp: n_def)
  have e: "ab_data ?e = u32_bytes (of_nat n) @ replicate (pad_to (length (ab_data ?p)) 4) 0 @ ab_data ?p"
    by (simp add: ab_element_layout)
  have L: "length (ab_data ?s) mod 4 = 0" if "0 < n" using al [OF that] by presburger
  have "\<exists>new. ab_data ?p = new @ ab_data ?s"
    using ab_push_offsets_data(1) [OF L, of offs] by (cases "n = 0") (auto simp: n_def)
  then obtain new where new: "ab_data ?e = new @ ab_data a"
    using e z by (metis append.assoc)
  have elements: "vector_size buf vec = Some (of_nat n) \<and>
      (\<forall>i<n. vector_get Offset_Element buf vec (of_nat i) =
        Some (Pointer_Value (of_nat (length buf - unat (offs ! i)))))"
    if buf: "buf = pre @ ab_data ?e" "length buf < 2 ^ 31" and vec: "vec = of_nat (length pre)" for buf pre vec
  proof (intro conjI allI impI)
    show vs: "vector_size buf vec = Some (of_nat n)"
      unfolding vector_size_def vec buf(1) e using buf by (intro read_u32_at) simp
    fix j assume j: "j < n"
    then have jl: "j < length offs" by (simp add: n_def)
    have L4: "length (ab_data ?s) mod 4 = 0" using L j by simp
    have xs: "\<forall>x \<in> set offs. unat x \<le> length (ab_data ?s)" using offs z by auto
    define v where "v = 4 * (n - j) + length (ab_data ?s) - unat (offs ! j)"
    define q where "q = length pre + 4 + 4 * j"
    obtain pre1 post where slot: "ab_data ?p = pre1 @ u32_bytes (of_nat v) @ post" "length pre1 = 4 * j"
      using ab_push_offsets_slot [OF L4 jl xs] by (auto simp: v_def n_def)
    have lp: "length (ab_data ?p) = 4 * n + length (ab_data ?s)"
      using ab_push_offsets_data(1) [OF L4] by (simp add: n_def)
    have bufe: "buf = (pre @ u32_bytes (of_nat n) @ pre1) @ u32_bytes (of_nat v) @ post"
      unfolding buf(1) e using slot lp L4 by (simp add: pad_to_aligned)
    have "length (pre @ u32_bytes (of_nat n) @ pre1) = q" by (simp add: slot(2) q_def)
    then have rd: "read_u32 buf (of_nat q) = Some (of_nat v)"
      using read_u32_at [of "pre @ u32_bytes (of_nat n) @ pre1" "of_nat v" post] buf(2) unfolding bufe by simp
    have lb: "length buf = length pre + 4 + (4 * n + length (ab_data ?s))"
      unfolding buf(1) e using lp L4 by (simp add: pad_to_aligned)
    have "unat (offs ! j) \<le> length (ab_data ?s)" using xs jl by auto
    then have qv: "q + v = length buf - unat (offs ! j)" using j lb by (simp add: q_def v_def)
    then have "v < 2 ^ 32" using buf(2) by simp
    have "(of_nat j :: u32) < of_nat n"
      using j lb buf(2) by (simp add: word_less_nat_alt unat_of_nat_small)
    moreover have "vector_data vec + ucast (of_nat j :: u32) * 4 = of_nat q"
      using ucast_of_nat_u32 [of j] j lb buf(2) by (simp add: vector_data_def vec q_def)
    ultimately show "vector_get Offset_Element buf vec (of_nat j) =
        Some (Pointer_Value (of_nat (length buf - unat (offs ! j))))"
      using rd ucast_of_nat_u32 [OF \<open>v < 2 ^ 32\<close>]
      by (simp add: vector_get_def vs indirect_read_offset_def flip: qv)
  qed
  have "ab_used ?e \<le> 15 + ab_used (?p\<lparr>ab_nested := False\<rparr>)" by (rule ab_element_used) simp
  then have "ab_used ?e \<le> 4 * n + 32 + ab_used a" using p(1) us by (simp add: ab_used_def)
  moreover have "ab_idle ?e" using p(3) by (simp add: ab_idle_def ab_element_def ab_align_def ab_push_def)
  ultimately show ?thesis
    using f1(1) f2(1) f3 new elements
    by (intro exI [of _ f3] exI [of _ ?e]) (simp add: create_vector_of_offsets_def n_def)
qed

end
