(* ===== verification/Fb_Sorted_Tables.thy ===== *)
theory Fb_Sorted_Tables
  imports Fb_Vector_Roundtrip
begin

text \<open>C27: Tables written by \<open>CreateVectorOfSortedTables\<close> are found by
  \<open>LookupByKey\<close>, whatever is added to the buffer later: if the comparison of two tables in
  the builder and that of a table with a key follow the same order of keys, the lookup
  returns a table of the vector with the key when there is one, and a null pointer otherwise.\<close>

theorem sorted_tables_lookup:
  fixes k :: "uoffset_t \<Rightarrow> 'k::linorder"
  assumes r: "fbb_rel f a" and i: "ab_idle a" and room: "4 * length offs + 128 + ab_used a < 2 ^ 31 - 1"
    and offs: "\<forall>x \<in> set offs. x \<noteq> 0 \<and> unat x \<le> length (ab_data a)"
    and less: "\<And>x y. x \<in> set offs \<Longrightarrow> y \<in> set offs \<Longrightarrow> table_key_less key_less (fbb_buf f) x y = Some (k x < k y)"
  shows "\<exists>f' a'. create_vector_of_sorted_tables key_less offs f = Some (of_nat (length (ab_data a')), f') \<and>
    fbb_rel f' a' \<and> ab_used a' \<le> 4 * length offs + 32 + ab_used a \<and>
    (\<exists>new. ab_data a' = new @ ab_data a) \<and>
    (\<forall>pre buf key kcwv. buf = pre @ ab_data a' \<and> length buf < 2 ^ 31 \<and>
      (\<forall>x \<in> set offs. \<exists>c. kcwv (of_nat (length buf - unat x)) = Some c \<and> c \<noteq> 0x80000000 \<and>
         (sint c < 0 \<longleftrightarrow> k x < key) \<and> (c = 0 \<longleftrightarrow> k x = key)) \<longrightarrow>
      (\<exists>res. lookup_by_key Offset_Element kcwv buf (of_nat (length pre)) = Some res \<and>
        (case res of
           None \<Rightarrow> \<forall>x \<in> set offs. k x \<noteq> key
         | Some p \<Rightarrow> \<exists>x \<in> set offs. k x = key \<and> p = of_nat (length buf - unat x))))"
proof -
  let ?xs = "sort_key k offs"
  obtain f' a' where c: "create_vector_of_offsets ?xs f = Some (of_nat (length (ab_data a')), f')" "fbb_rel f' a'"
    and used: "ab_used a' \<le> 4 * length ?xs + 32 + ab_used a" "\<exists>new. ab_data a' = new @ ab_data a"
    and rd: "\<And>pre. length (pre @ ab_data a') < 2 ^ 31 \<Longrightarrow>
      vector_size (pre @ ab_data a') (of_nat (length pre)) = Some (of_nat (length ?xs)) \<and>
      (\<forall>i<length ?xs. vector_get Offset_Element (pre @ ab_data a') (of_nat (length pre)) (of_nat i) =
        Some (Pointer_Value (of_nat (length (pre @ ab_data a') - unat (?xs ! i)))))"
    using offset_vector_roundtrip [OF r i, of ?xs] room offs by auto
  have cr: "create_vector_of_sorted_tables key_less offs f = Some (of_nat (length (ab_data a')), f')"
    using sorted_tables_are_sort_key [of offs key_less f k] less c(1) by simp
  have look: "\<exists>res. lookup_by_key Offset_Element kcwv buf (of_nat (length pre)) = Some res \<and>
      (case res of None \<Rightarrow> \<forall>x \<in> set offs. k x \<noteq> key
       | Some p \<Rightarrow> \<exists>x \<in> set offs. k x = key \<and> p = of_nat (length buf - unat x))"
    if buf: "buf = pre @ ab_data a'" "length buf < 2 ^ 31"
      and cmp: "\<forall>x \<in> set offs. \<exists>c. kcwv (of_nat (length buf - unat x)) = Some c \<and> c \<noteq> 0x80000000 \<and>
         (sint c < 0 \<longleftrightarrow> k x < key) \<and> (c = 0 \<longleftrightarrow> k x = key)"
    for pre buf key kcwv
  proof -
    let ?vec = "of_nat (length pre) :: size_t"
    have n: "vector_size buf ?vec = Some (of_nat (length ?xs))"
      and get: "\<And>i. i < length ?xs \<Longrightarrow> vector_get Offset_Element buf ?vec (of_nat i) =
        Some (Pointer_Value (of_nat (length buf - unat (?xs ! i))))"
      using rd [of pre] buf by simp_all
    have un: "unat (of_nat (length ?xs) :: u32) = length ?xs"
      using room by (intro unat_of_nat_small) simp
    have el: "read_pointer Offset_Element buf (vector_data ?vec + of_nat i * element_stride Offset_Element) =
        Some (of_nat (length buf - unat (?xs ! i)))" if "i < unat (of_nat (length ?xs) :: u32)" for i
    proof -
      have "i < length ?xs" using that by (simp only: un)
      moreover from this have "(ucast (of_nat i :: u32) :: size_t) = of_nat i"
        using room by (intro ucast_of_nat_u32) simp
      ultimately show ?thesis
        using get [of i] by (auto simp: vector_get_def read_pointer_def indirect_read_offset_def Let_def
            split: bind_splits if_splits)
    qed
    obtain c where c: "\<And>x. x \<in> set offs \<Longrightarrow> kcwv (of_nat (length buf - unat x)) = Some (c x) \<and> c x \<noteq> 0x80000000 \<and>
         (sint (c x) < 0 \<longleftrightarrow> k x < key) \<and> (c x = 0 \<longleftrightarrow> k x = key)"
      using bchoice [OF cmp] by blast
    have in_offs: "?xs ! i \<in> set offs" if "i < unat (of_nat (length ?xs) :: u32)" for i
      using nth_mem [of i ?xs] that by (simp only: un set_sort)
    have srt: "k (?xs ! i) \<le> k (?xs ! j)" if "i \<le> j" "j < unat (of_nat (length ?xs) :: u32)" for i j
    proof -
      have "j < length ?xs" using that(2) by (simp only: un)
      then show ?thesis
        using sorted_nth_mono [OF sorted_sort_key [of k offs], of i j] that(1) by simp
    qed
    let ?N = "unat (of_nat (length ?xs) :: u32)"
    have "lookup_by_key Offset_Element kcwv buf ?vec = Some None \<and> (\<forall>i<?N. k (?xs ! i) \<noteq> key) \<or>
      (\<exists>i<?N. lookup_by_key Offset_Element kcwv buf ?vec = Some (Some (of_nat (length buf - unat (?xs ! i)))) \<and>
        k (?xs ! i) = key)"
      by (rule lookup_by_key_finds [where c = "\<lambda>i. c (?xs ! i)"])
        (fact n, erule el, rule c, erule in_offs, erule srt, assumption)
    then show ?thesis
    proof (elim disjE conjE exE)
      assume l: "lookup_by_key Offset_Element kcwv buf ?vec = Some None"
        and ne: "\<forall>i<unat (of_nat (length ?xs) :: u32). k (?xs ! i) \<noteq> key"
      have "k x \<noteq> key" if "x \<in> set offs" for x
      proof -
        have "x \<in> set ?xs" using that by simp
        then obtain i where "i < length ?xs" "?xs ! i = x" by (auto simp only: in_set_conv_nth)
        then show ?thesis using ne by (simp only: un) blast
      qed
      then show ?thesis using l by auto
    next
      fix i
      assume "i < unat (of_nat (length ?xs) :: u32)" "k (?xs ! i) = key"
        "lookup_by_key Offset_Element kcwv buf ?vec = Some (Some (of_nat (length buf - unat (?xs ! i))))"
      then show ?thesis using in_offs [of i] by auto
    qed
  qed
  then show ?thesis using cr c(2) used by (intro exI [of _ f'] exI [of _ a']) simp
qed

text \<open>Two strings, ordered by their places.\<close>

theorem sorted_tables_lookup_witness:
  "\<exists>f f' a' off kcwv. create_vector_of_sorted_tables (\<lambda>v p q. Some (q < p)) [16, 8] f = Some (off, f') \<and>
    fbb_rel f' a' \<and>
    lookup_by_key Offset_Element kcwv (ab_data a') 0 = Some (Some (of_nat (length (ab_data a') - 8)))"
proof -
  let ?a1 = "ab_create_string [66] ab_new"
  let ?a = "ab_create_string [65] ?a1"
  have i: "ab_idle ab_new" "ab_used ab_new = 0" by (simp_all add: ab_idle_def ab_new_def ab_used_def)
  have d1: "?a1 = ab_new\<lparr>ab_data := string_bytes [66], ab_minalign := 4\<rparr>"
    using ab_create_string_eq [of ab_new "[66]"] by (simp add: ab_new_def max_def word_le_nat_alt)
  have m1: "length (ab_data ?a1) mod 4 = 0" by (simp add: d1 string_bytes_mod)
  have d: "?a = ab_new\<lparr>ab_data := string_bytes [65] @ string_bytes [66], ab_minalign := 4\<rparr>"
    using ab_create_string_eq [OF m1, of "[65]"] by (simp add: d1)
  have len: "length (string_bytes [x]) = 8" for x :: byte by (simp add: string_bytes_def pad_to_def)
  obtain f1 where f1: "fbb_rel f1 ?a1" using rel_create_string [OF rel_new i(1), of "[66]"] i(2) by auto
  have i1: "ab_idle ?a1" "ab_used ?a1 = 8" using i unfolding d1 by (simp_all add: ab_idle_def ab_new_def ab_used_def len)
  obtain f where f: "fbb_rel f ?a" using rel_create_string [OF f1 i1(1), of "[65]"] i1(2) by auto
  have i2: "ab_idle ?a" "ab_used ?a = 16" using i unfolding d by (simp_all add: ab_idle_def ab_new_def ab_used_def len)
  have la: "length (ab_data ?a) = 16" by (simp add: d len)
  have off: "\<forall>x \<in> set [16, 8 :: uoffset_t]. x \<noteq> 0 \<and> unat x \<le> length (ab_data ?a)" by (simp add: la)
  have inv: "vd_inv (fbb_buf f)" "length (vd_top (fbb_buf f)) = 16" using f la by (simp_all add: fbb_rel_def)
  have less: "table_key_less (\<lambda>v p q. Some (q < p)) (fbb_buf f) x y = Some (unat x < unat y)"
    if "x \<in> set [16, 8]" "y \<in> set [16, 8]" for x y
    using that vd_data_at_spec [OF inv(1), of 16] vd_data_at_spec [OF inv(1), of 8]
    by (auto simp: table_key_less_def inv(2))
  define kcwv where "kcwv = (\<lambda>len p. Some (if p = (of_nat (len - 16) :: size_t) then 1 else 0 :: s32))"
  obtain f' a' where c: "create_vector_of_sorted_tables (\<lambda>v p q. Some (q < p)) [16, 8] f = Some (of_nat (length (ab_data a')), f')"
      "fbb_rel f' a'" and u: "ab_used a' \<le> 4 * length [16, 8 :: uoffset_t] + 32 + ab_used ?a"
      "\<exists>new. ab_data a' = new @ ab_data ?a"
    and look: "\<And>pre buf key kcwv. buf = pre @ ab_data a' \<and> length buf < 2 ^ 31 \<and>
      (\<forall>x \<in> set [16, 8 :: uoffset_t]. \<exists>c. kcwv (of_nat (length buf - unat x)) = Some c \<and> c \<noteq> 0x80000000 \<and>
         (sint c < 0 \<longleftrightarrow> unat x < key) \<and> (c = 0 \<longleftrightarrow> unat x = key)) \<Longrightarrow>
      (\<exists>res. lookup_by_key Offset_Element kcwv buf (of_nat (length pre)) = Some res \<and>
        (case res of
           None \<Rightarrow> \<forall>x \<in> set [16, 8 :: uoffset_t]. unat x \<noteq> key
         | Some p \<Rightarrow> \<exists>x \<in> set [16, 8 :: uoffset_t]. unat x = key \<and> p = of_nat (length buf - unat x)))"
    using sorted_tables_lookup [OF f i2(1) _ off less] i2(2) by auto
  let ?n = "length (ab_data a')"
  have n: "16 \<le> ?n" "?n \<le> 56" using u la i2(2) by (auto simp: ab_used_def)
  have w: "unat (of_nat (?n - 16) :: size_t) = ?n - 16" "unat (of_nat (?n - 8) :: size_t) = ?n - 8"
    using n by (intro unat_of_nat_small; simp)+
  have "(of_nat (?n - 8) :: size_t) \<noteq> of_nat (?n - 16)"
  proof
    assume "(of_nat (?n - 8) :: size_t) = of_nat (?n - 16)"
    then have "?n - 8 = ?n - 16" using w by metis
    then show False using n by simp
  qed
  then have kc: "kcwv ?n (of_nat (?n - 16)) = Some 1" "kcwv ?n (of_nat (?n - 8)) = Some 0"
    unfolding kcwv_def by (simp_all only: if_True if_False simp_thms)
  have cmp: "\<forall>x \<in> set [16, 8 :: uoffset_t]. \<exists>c. kcwv ?n (of_nat (length ([] @ ab_data a') - unat x)) = Some c \<and>
      c \<noteq> 0x80000000 \<and> (sint c < 0 \<longleftrightarrow> unat x < 8) \<and> (c = 0 \<longleftrightarrow> unat x = 8)"
  proof
    fix x :: uoffset_t assume "x \<in> set [16, 8]"
    then consider "x = 16" | "x = 8" by auto
    then show "\<exists>c. kcwv ?n (of_nat (length ([] @ ab_data a') - unat x)) = Some c \<and>
      c \<noteq> 0x80000000 \<and> (sint c < 0 \<longleftrightarrow> unat x < 8) \<and> (c = 0 \<longleftrightarrow> unat x = 8)"
    proof cases
      case 1
      then show ?thesis using kc(1) by (intro exI [of _ 1]) (simp only: append_Nil, simp)
    next
      case 2
      then show ?thesis using kc(2) by (intro exI [of _ 0]) (simp only: append_Nil, simp)
    qed
  qed
  have "length ([] @ ab_data a') < 2 ^ 31" using n(2) by simp
  note res = look [where pre = "[]" and key = 8 and kcwv = "kcwv ?n", OF conjI [OF refl conjI [OF this cmp]]]
  obtain r where l: "lookup_by_key Offset_Element (kcwv ?n) ([] @ ab_data a') (of_nat (length ([] :: byte list))) = Some r"
    and r: "case r of
         None \<Rightarrow> \<forall>x \<in> set [16, 8 :: uoffset_t]. unat x \<noteq> 8
       | Some p \<Rightarrow> \<exists>x \<in> set [16, 8 :: uoffset_t]. unat x = 8 \<and> p = of_nat (length ([] @ ab_data a') - unat x)"
    using res by blast
  have "r = Some (of_nat (?n - 8))" using r by (cases r) auto
  then show ?thesis
    using c l by (intro exI [of _ f] exI [of _ f'] exI [of _ a'] exI [of _ "of_nat ?n"] exI [of _ "kcwv ?n"]) simp
qed

end
