(* ===== verification/Fb_Detached.thy ===== *)
theory Fb_Detached
  imports Fb_Vector_Downward
begin

text \<open>
  \<open>examples/flatbuffers/detached_buffer.h\<close> and the moves of \<open>vector_downward.h\<close>: who owns a
  block of memory.  Blocks and allocators are identified by their addresses; the heap is the
  list of live ones.  Freeing something that is not live is undefined behaviour.  An object
  of the program is a name; after its destructor ran it is gone.
\<close>

section \<open>The heap\<close>

record fb_heap =
  live_blocks :: "nat list"
  live_allocators :: "nat list"

text \<open>\<open>Deallocate\<close> calls the allocator, or the default one for a null pointer.\<close>

definition fb_deallocate :: "nat option \<Rightarrow> nat \<Rightarrow> fb_heap \<Rightarrow> fb_heap option" where
  "fb_deallocate allocator p h =
     (if p \<in> set (live_blocks h) \<and> (case allocator of None \<Rightarrow> True | Some al \<Rightarrow> al \<in> set (live_allocators h))
      then Some (h\<lparr>live_blocks := remove1 p (live_blocks h)\<rparr>) else None)"

definition delete_allocator :: "nat \<Rightarrow> fb_heap \<Rightarrow> fb_heap option" where
  "delete_allocator al h =
     (if al \<in> set (live_allocators h) then Some (h\<lparr>live_allocators := remove1 al (live_allocators h)\<rparr>) else None)"

section \<open>DetachedBuffer\<close>

record detached_buffer =
  db_allocator :: "nat option"
  db_own_allocator :: bool
  db_buf :: "nat option"
  db_reserved :: size_t
  db_cur :: "size_t option"
  db_size :: size_t

definition db_empty :: detached_buffer where
  "db_empty = \<lparr>db_allocator = None, db_own_allocator = False, db_buf = None, db_reserved = 0,
     db_cur = None, db_size = 0\<rparr>"

definition db_new :: "nat option \<Rightarrow> bool \<Rightarrow> nat option \<Rightarrow> size_t \<Rightarrow> size_t option \<Rightarrow> size_t \<Rightarrow> detached_buffer" where
  "db_new allocator own_allocator buf reserved cur sz =
     \<lparr>db_allocator = allocator, db_own_allocator = own_allocator, db_buf = buf, db_reserved = reserved,
      db_cur = cur, db_size = sz\<rparr>"

definition db_reset :: "detached_buffer \<Rightarrow> detached_buffer" where
  "db_reset d = d\<lparr>db_allocator := None, db_own_allocator := False, db_buf := None, db_reserved := 0,
     db_cur := None, db_size := 0\<rparr>"

definition db_destroy :: "detached_buffer \<Rightarrow> fb_heap \<Rightarrow> (detached_buffer \<times> fb_heap) option" where
  "db_destroy d h = do {
     h \<leftarrow> (case db_buf d of None \<Rightarrow> Some h | Some p \<Rightarrow> fb_deallocate (db_allocator d) p h);
     h \<leftarrow> (case db_allocator d of
         Some al \<Rightarrow> if db_own_allocator d then delete_allocator al h else Some h
       | None \<Rightarrow> Some h);
     Some (db_reset d, h)
   }"

text \<open>Move construction: the new object and the old one.\<close>

definition db_move :: "detached_buffer \<Rightarrow> detached_buffer \<times> detached_buffer" where
  "db_move other =
     (db_new (db_allocator other) (db_own_allocator other) (db_buf other) (db_reserved other) (db_cur other)
        (db_size other), db_reset other)"

text \<open>Move assignment: \<open>same\<close> says whether both are the same object.\<close>

definition db_move_assign ::
  "bool \<Rightarrow> detached_buffer \<Rightarrow> detached_buffer \<Rightarrow> fb_heap \<Rightarrow> (detached_buffer \<times> detached_buffer \<times> fb_heap) option" where
  "db_move_assign same d other h =
     (if same then Some (d, other, h)
      else do {
        (d, h) \<leftarrow> db_destroy d h;
        let d = d\<lparr>db_allocator := db_allocator other, db_own_allocator := db_own_allocator other,
          db_buf := db_buf other, db_reserved := db_reserved other, db_cur := db_cur other,
          db_size := db_size other\<rparr>;
        Some (d, db_reset other, h)
      })"

definition db_data :: "detached_buffer \<Rightarrow> size_t option" where
  "db_data d = db_cur d"

section \<open>The moves of vector_downward\<close>

text \<open>Its own objects have the default allocator; a moved-from vector keeps its \<open>size_\<close>.\<close>

definition vd_move :: "vector_downward \<Rightarrow> vector_downward \<times> vector_downward" where
  "vd_move other =
     (\<lparr>vd_initial_size = vd_initial_size other, vd_buffer_minalign = vd_buffer_minalign other,
       vd_reserved = vd_reserved other, vd_size = vd_size other, vd_buf = vd_buf other,
       vd_cur = vd_cur other, vd_scratch = vd_scratch other\<rparr>,
      other\<lparr>vd_reserved := 0, vd_buf := None, vd_cur := 0, vd_scratch := 0\<rparr>)"

definition vd_swap :: "vector_downward \<Rightarrow> vector_downward \<Rightarrow> vector_downward \<times> vector_downward" where
  "vd_swap v other = (other, v)"

text \<open>The temporary takes the old contents of the target with it.\<close>

definition vd_move_assign :: "vector_downward \<Rightarrow> vector_downward \<Rightarrow> vector_downward \<times> vector_downward" where
  "vd_move_assign v other =
     (let (temp, other) = vd_move other; (v, temp) = vd_swap v temp in (v, other))"

text \<open>\<open>release\<close>: block, capacity, position of the data and size, and the emptied vector.\<close>

definition vd_release ::
  "vector_downward \<Rightarrow> (cell list option \<times> size_t \<times> nat \<times> uoffset_t) \<times> vector_downward" where
  "vd_release v =
     ((vd_buf v, vd_reserved v, vd_cur v, vd_size v), vd_clear (v\<lparr>vd_buf := None\<rparr>))"

lemma vd_release_inv: "vd_inv v \<Longrightarrow> vd_inv (snd (vd_release v)) \<and> vd_top (snd (vd_release v)) = []"
  by (simp add: vd_release_def vd_clear_def vd_clear_scratch_def vd_inv_def vd_top_def split: option.splits)

text \<open>
  A moved-from \<open>vector_downward\<close> violates the invariant of the class when it was not empty:
  \<open>size()\<close> still reports the bytes that moved away, and the next reallocation places \<open>cur_\<close>
  that far below the end of a block that does not contain them.
\<close>

lemma moved_from_keeps_size:
  assumes "vd_inv v"
  shows "vd_inv (fst (vd_move v))" and "vd_inv (snd (vd_move v)) \<longleftrightarrow> vd_top v = []"
proof -
  show "vd_inv (fst (vd_move v))" using assms by (simp add: vd_move_def vd_inv_def split: option.splits)
  have "vd_size v = 0 \<longleftrightarrow> vd_top v = []"
    using vd_inv_lengths(1) [OF assms] by (metis length_0_conv unat_eq_0)
  then show "vd_inv (snd (vd_move v)) \<longleftrightarrow> vd_top v = []"
    using assms by (auto simp: vd_move_def vd_inv_def)
qed

section \<open>Programs over detached buffers\<close>

text \<open>Each object is constructed from a fresh block, moved, assigned and destroyed.\<close>

datatype db_op =
    Construct nat detached_buffer
  | MoveConstruct nat nat
  | MoveAssign nat nat
  | Destruct nat

type_synonym db_state = "(nat \<Rightarrow> detached_buffer option) \<times> fb_heap"

text \<open>Construction hands over a block and, if owned, an allocator that only the new object knows.\<close>

fun db_step :: "db_op \<Rightarrow> db_state \<Rightarrow> db_state option" where
  "db_step (Construct i d) (objs, h) =
     Some (objs(i \<mapsto> d), h\<lparr>live_blocks := (case db_buf d of None \<Rightarrow> [] | Some p \<Rightarrow> [p]) @ live_blocks h,
        live_allocators := (case db_allocator d of Some al \<Rightarrow> if db_own_allocator d then [al] else [] | None \<Rightarrow> [])
          @ live_allocators h\<rparr>)"
| "db_step (MoveConstruct i j) (objs, h) = do {
     other \<leftarrow> objs j;
     let (d, other) = db_move other;
     Some (objs(j \<mapsto> other, i \<mapsto> d), h)
   }"
| "db_step (MoveAssign i j) (objs, h) = do {
     d \<leftarrow> objs i;
     other \<leftarrow> objs j;
     (d, other, h) \<leftarrow> db_move_assign (i = j) d other h;
     Some (objs(j \<mapsto> other, i \<mapsto> d), h)
   }"
| "db_step (Destruct i) (objs, h) = do {
     d \<leftarrow> objs i;
     (d, h) \<leftarrow> db_destroy d h;
     Some (objs(i := None), h)
   }"

text \<open>Families of disjoint sets.\<close>

definition disjoint_family_sets :: "(nat \<Rightarrow> 'a set) \<Rightarrow> bool" where
  "disjoint_family_sets F \<longleftrightarrow> (\<forall>i j. i \<noteq> j \<longrightarrow> F i \<inter> F j = {})"

lemma disjoint_family_upd:
  assumes d: "disjoint_family_sets F" and "\<And>j. j \<noteq> i \<Longrightarrow> X \<inter> F j = {}"
  shows "disjoint_family_sets (F(i := X))" and "(\<Union>k. (F(i := X)) k) = X \<union> ((\<Union>k. F k) - F i)"
proof -
  show "disjoint_family_sets (F(i := X))"
    using assms by (auto simp: disjoint_family_sets_def)
  have "(\<Union>k. (F(i := X)) k) = X \<union> (\<Union>k \<in> - {i}. F k)" by auto
  also have "(\<Union>k \<in> - {i}. F k) = (\<Union>k. F k) - F i"
  proof -
    have "x \<notin> F i" if "x \<in> F k" "k \<noteq> i" for x k
      using d that by (auto simp: disjoint_family_sets_def)
    then show ?thesis by auto
  qed
  finally show "(\<Union>k. (F(i := X)) k) = X \<union> ((\<Union>k. F k) - F i)" .
qed

text \<open>What an object owns: its block, and its allocator if it is to delete it.\<close>

definition db_owned :: "detached_buffer \<Rightarrow> (nat + nat) set" where
  "db_owned d = Inl ` set_option (db_buf d) \<union>
     (if db_own_allocator d then Inr ` set_option (db_allocator d) else {})"

definition heap_live :: "fb_heap \<Rightarrow> (nat + nat) set" where
  "heap_live h = Inl ` set (live_blocks h) \<union> Inr ` set (live_allocators h)"

definition owned_at :: "(nat \<Rightarrow> detached_buffer option) \<Rightarrow> nat \<Rightarrow> (nat + nat) set" where
  "owned_at objs i = (case objs i of None \<Rightarrow> {} | Some d \<Rightarrow> db_owned d)"

definition db_wf :: "detached_buffer \<Rightarrow> bool" where
  "db_wf d \<longleftrightarrow> (db_own_allocator d \<longleftrightarrow> db_allocator d \<noteq> None)"

text \<open>Nothing has two owners, and what is live has one.\<close>

definition db_inv :: "db_state \<Rightarrow> bool" where
  "db_inv = (\<lambda>(objs, h). distinct (live_blocks h) \<and> distinct (live_allocators h) \<and>
     (\<forall>i d. objs i = Some d \<longrightarrow> db_wf d) \<and>
     disjoint_family_sets (owned_at objs) \<and>
     heap_live h = (\<Union>i. owned_at objs i))"

text \<open>A new name for a new object, and fresh memory for a new buffer.\<close>

fun db_allowed :: "db_op \<Rightarrow> db_state \<Rightarrow> bool" where
  "db_allowed (Construct i d) (objs, h) \<longleftrightarrow> objs i = None \<and> db_wf d \<and> db_owned d \<inter> heap_live h = {}"
| "db_allowed (MoveConstruct i j) (objs, h) \<longleftrightarrow> objs i = None \<and> objs j \<noteq> None"
| "db_allowed (MoveAssign i j) (objs, h) \<longleftrightarrow> objs i \<noteq> None \<and> objs j \<noteq> None"
| "db_allowed (Destruct i) (objs, h) \<longleftrightarrow> objs i \<noteq> None"

lemma owned_at_upd: "owned_at (objs(i := x)) = (owned_at objs)(i := (case x of None \<Rightarrow> {} | Some d \<Rightarrow> db_owned d))"
  by (rule ext) (simp add: owned_at_def)

lemma db_reset_owned [simp]: "db_owned (db_reset d) = {}" "db_wf (db_reset d)"
  by (simp_all add: db_owned_def db_reset_def db_wf_def)

lemma db_destroy_spec:
  assumes own: "db_owned d \<subseteq> heap_live h" and wf: "db_wf d"
    and dist: "distinct (live_blocks h)" "distinct (live_allocators h)"
  obtains h' where "db_destroy d h = Some (db_reset d, h')" and "heap_live h' = heap_live h - db_owned d"
    and "distinct (live_blocks h')" and "distinct (live_allocators h')"
proof -
  let ?h1 = "case db_buf d of None \<Rightarrow> h | Some p \<Rightarrow> h\<lparr>live_blocks := remove1 p (live_blocks h)\<rparr>"
  let ?h2 = "case db_allocator d of None \<Rightarrow> ?h1 | Some al \<Rightarrow> ?h1\<lparr>live_allocators := remove1 al (live_allocators h)\<rparr>"
  have "db_destroy d h = Some (db_reset d, ?h2)"
    using own wf
    by (auto simp: db_destroy_def fb_deallocate_def delete_allocator_def db_owned_def db_wf_def heap_live_def
        split: option.splits)
  moreover have "heap_live ?h2 = heap_live h - db_owned d"
    using dist wf by (auto simp: heap_live_def db_owned_def db_wf_def split: option.splits)
  moreover have "distinct (live_blocks ?h2)" "distinct (live_allocators ?h2)"
    using dist by (auto split: option.splits)
  ultimately show thesis by (rule that)
qed

lemma owned_at_Some: "objs i = Some d \<Longrightarrow> owned_at objs i = db_owned d"
  by (simp add: owned_at_def)

lemma db_step_inv:
  assumes inv: "db_inv s" and ok: "db_allowed op s"
  shows "\<exists>s'. db_step op s = Some s' \<and> db_inv s'"
proof -
  obtain objs h where s: "s = (objs, h)" by fastforce
  have dist: "distinct (live_blocks h)" "distinct (live_allocators h)"
    and wf: "\<And>i d. objs i = Some d \<Longrightarrow> db_wf d"
    and dis: "disjoint_family_sets (owned_at objs)"
    and live: "heap_live h = (\<Union>i. owned_at objs i)"
    using inv by (auto simp: db_inv_def s)
  have disj: "owned_at objs i \<inter> owned_at objs j = {}" if "i \<noteq> j" for i j
    using dis that by (simp add: disjoint_family_sets_def)
  have drop: "disjoint_family_sets ((owned_at objs)(i := {}))"
    "(\<Union>k. ((owned_at objs)(i := {})) k) = (\<Union>k. owned_at objs k) - owned_at objs i" for i
    using disjoint_family_upd [OF dis, of i "{}"] by simp_all
  show ?thesis
  proof (cases op)
    case (Construct i d)
    have i: "objs i = None" "db_wf d" "db_owned d \<inter> heap_live h = {}" using ok by (auto simp: Construct s)
    then have "db_owned d \<inter> owned_at objs j = {}" for j using live by auto
    note upd = disjoint_family_upd [OF dis this]
    obtain h' where step: "db_step op s = Some (objs(i \<mapsto> d), h')" and h': "heap_live h' = db_owned d \<union> heap_live h"
        "distinct (live_blocks h')" "distinct (live_allocators h')"
      using i(2,3) dist
      by (cases "db_buf d"; cases "db_allocator d") (auto simp: Construct s db_owned_def db_wf_def heap_live_def)
    have "owned_at objs i = {}" using i(1) by (simp add: owned_at_def)
    then have "db_inv (objs(i \<mapsto> d), h')"
      using h' upd(1) [of i] upd(2) [of i] i(2) wf live by (auto simp: db_inv_def owned_at_upd)
    then show ?thesis using step by blast
  next
    case (MoveConstruct i j)
    obtain d where d: "objs i = None" "objs j = Some d" using ok by (auto simp: MoveConstruct s)
    then have ij: "i \<noteq> j" by auto
    have oi: "owned_at objs i = {}" and oj: "owned_at objs j = db_owned d" using d by (simp_all add: owned_at_def)
    have x: "db_owned d \<inter> ((owned_at objs)(j := {})) k = {}" for k
      using disj [of j k] oj by (cases "k = j") auto
    note upd = disjoint_family_upd [where i = i and X = "db_owned d", OF drop(1) [of j] x]
    define F where "F = ((owned_at objs)(j := {}))(i := db_owned d)"
    have F: "disjoint_family_sets F" "(\<Union>k. F k) = db_owned d \<union> ((\<Union>k. owned_at objs k) - db_owned d)"
    proof -
      have "((owned_at objs)(j := {})) i = {}" using oi ij by simp
      then show "(\<Union>k. F k) = db_owned d \<union> ((\<Union>k. owned_at objs k) - db_owned d)"
        unfolding F_def upd(2) drop(2) oj by (simp only: Diff_empty)
    qed (simp only: F_def upd(1))
    define e where "e = db_new (db_allocator d) (db_own_allocator d) (db_buf d) (db_reserved d) (db_cur d) (db_size d)"
    have e: "db_owned e = db_owned d" "db_wf e"
      using wf [OF d(2)] by (simp_all add: e_def db_new_def db_owned_def db_wf_def)
    have "db_step op s = Some (objs(j \<mapsto> db_reset d, i \<mapsto> e), h)"
      using d by (simp add: MoveConstruct s db_move_def e_def)
    moreover have "db_inv (objs(j \<mapsto> db_reset d, i \<mapsto> e), h)"
    proof -
      have "owned_at (objs(j \<mapsto> db_reset d, i \<mapsto> e)) = F" by (simp add: owned_at_upd F_def e(1))
      moreover have "heap_live h = (\<Union>k. F k)" using F(2) live oj by auto
      ultimately show ?thesis using F(1) dist wf e(2) by (auto simp: db_inv_def)
    qed
    ultimately show ?thesis by blast
  next
    case (MoveAssign i j)
    obtain d e where d: "objs i = Some d" "objs j = Some e" using ok by (auto simp: MoveAssign s)
    show ?thesis
    proof (cases "i = j")
      case True
      then show ?thesis
        using d inv by (simp add: MoveAssign s db_move_assign_def fun_upd_idem)
    next
      case False
      have oi: "owned_at objs i = db_owned d" and oj: "owned_at objs j = db_owned e" using d by (simp_all add: owned_at_def)
      have sub: "db_owned d \<subseteq> heap_live h" using oi live by auto
      obtain h' where h': "db_destroy d h = Some (db_reset d, h')" "heap_live h' = heap_live h - db_owned d"
          "distinct (live_blocks h')" "distinct (live_allocators h')"
        using db_destroy_spec [OF sub wf [OF d(1)] dist] .
      define e' where "e' = (db_reset d)\<lparr>db_allocator := db_allocator e, db_own_allocator := db_own_allocator e,
          db_buf := db_buf e, db_reserved := db_reserved e, db_cur := db_cur e, db_size := db_size e\<rparr>"
      have e': "db_owned e' = db_owned e" "db_wf e'"
        using wf [OF d(2)] by (simp_all add: e'_def db_owned_def db_wf_def)
      have x: "db_owned e \<inter> ((owned_at objs)(j := {})) k = {}" for k
        using disj [of j k] oj by (cases "k = j") auto
      note upd = disjoint_family_upd [where i = i and X = "db_owned e", OF drop(1) [of j] x]
      define F where "F = ((owned_at objs)(j := {}))(i := db_owned e)"
      have F: "disjoint_family_sets F"
          "(\<Union>k. F k) = db_owned e \<union> ((\<Union>k. owned_at objs k) - owned_at objs j - owned_at objs i)"
      proof -
        have "((owned_at objs)(j := {})) i = owned_at objs i" using False by simp
        then show "(\<Union>k. F k) = db_owned e \<union> ((\<Union>k. owned_at objs k) - owned_at objs j - owned_at objs i)"
          unfolding F_def upd(2) drop(2) by (simp only:)
      qed (simp only: F_def upd(1))
      have "db_step op s = Some (objs(j \<mapsto> db_reset e, i \<mapsto> e'), h')"
        using d False h'(1) by (simp add: MoveAssign s db_move_assign_def e'_def)
      moreover have "db_inv (objs(j \<mapsto> db_reset e, i \<mapsto> e'), h')"
      proof -
        have "owned_at (objs(j \<mapsto> db_reset e, i \<mapsto> e')) = F" by (simp add: owned_at_upd F_def e'(1))
        moreover have "heap_live h' = (\<Union>k. F k)"
          unfolding F(2) using h'(2) live oi oj disj [OF False] by auto
        ultimately show ?thesis using F(1) h'(3,4) wf e'(2) by (auto simp: db_inv_def)
      qed
      ultimately show ?thesis by blast
    qed
  next
    case (Destruct i)
    then obtain d where d: "objs i = Some d" using ok by (auto simp: s)
    have sub: "db_owned d \<subseteq> heap_live h" using owned_at_Some [where objs = objs and i = i, OF d] live by auto
    obtain h' where h': "db_destroy d h = Some (db_reset d, h')" "heap_live h' = heap_live h - db_owned d"
        "distinct (live_blocks h')" "distinct (live_allocators h')"
      using db_destroy_spec [OF sub wf [OF d] dist] .
    have "db_inv (objs(i := None), h')"
      using h'(2-4) wf drop [of i] live owned_at_Some [where objs = objs and i = i, OF d]
      by (auto simp: db_inv_def owned_at_upd split: if_splits)
    then show ?thesis using d h'(1) by (auto simp: Destruct s)
  qed
qed

text \<open>A program: every step allowed where it happens.\<close>

fun db_run :: "db_op list \<Rightarrow> db_state \<Rightarrow> db_state option" where
  "db_run [] s = Some s"
| "db_run (op # ops) s = do { s \<leftarrow> db_step op s; db_run ops s }"

fun db_run_allowed :: "db_op list \<Rightarrow> db_state \<Rightarrow> bool" where
  "db_run_allowed [] s \<longleftrightarrow> True"
| "db_run_allowed (op # ops) s \<longleftrightarrow> db_allowed op s \<and>
     (case db_step op s of None \<Rightarrow> True | Some s' \<Rightarrow> db_run_allowed ops s')"

lemma db_run_inv:
  "db_inv s \<Longrightarrow> db_run_allowed ops s \<Longrightarrow> \<exists>s'. db_run ops s = Some s' \<and> db_inv s'"
proof (induction ops arbitrary: s)
  case (Cons op ops)
  obtain s1 where "db_step op s = Some s1" "db_inv s1"
    using db_step_inv Cons.prems by fastforce
  then show ?case using Cons.IH [of s1] Cons.prems by auto
qed simp


text \<open>Two buffers, a move, an assignment and all destructors.\<close>

definition sample_buffers :: "db_op list" where
  "sample_buffers = [Construct 0 (db_new None False (Some 1) 64 (Some 40) 24),
     Construct 1 (db_new (Some 9) True (Some 2) 128 (Some 100) 28),
     MoveConstruct 2 0, MoveAssign 1 2, Destruct 0, Destruct 1, Destruct 2]"

lemmas db_eval = sample_buffers_def db_new_def db_move_def db_move_assign_def db_reset_def db_destroy_def
  fb_deallocate_def delete_allocator_def db_wf_def db_owned_def heap_live_def


end
