(* ===== verification/Fb_Array.thy ===== *)
theory Fb_Array
  imports Fb_Vector
begin

text \<open>
  \<open>examples/flatbuffers/array.h\<close> (arrays of a fixed length inside structs), \<open>struct.h\<close>,
  \<open>buffer_ref.h\<close> and the functions of \<open>flatbuffers.h\<close>.  An array is the address of its bytes and
  the length that is its template argument, a struct the address of its bytes.  The target is
  little-endian, so that every array may be copied as bytes; the loop for other targets is
  modelled too and shown to write the same.  The specialisation for \<open>Offset<T>\<close> only fails.
\<close>

section \<open>Arrays\<close>

definition array_get :: "element \<Rightarrow> u16 \<Rightarrow> byte list \<Rightarrow> size_t \<Rightarrow> u32 \<Rightarrow> element_value option" where
  "array_get e len buf arr i = (if i < ucast len then indirect_read e buf arr i else None)"

definition array_begin :: "element \<Rightarrow> size_t \<Rightarrow> size_t" where
  "array_begin e arr = iter_new (element_stride e) arr 0"

definition array_end :: "element \<Rightarrow> u16 \<Rightarrow> size_t \<Rightarrow> size_t" where
  "array_end e len arr = iter_new (element_stride e) arr (ucast len)"

definition array_rbegin :: "element \<Rightarrow> u16 \<Rightarrow> size_t \<Rightarrow> size_t" where
  "array_rbegin e len arr = array_end e len arr"

definition array_rend :: "element \<Rightarrow> size_t \<Rightarrow> size_t" where
  "array_rend e arr = array_begin e arr"

definition array_get_mutable_pointer :: "size_t \<Rightarrow> u16 \<Rightarrow> size_t \<Rightarrow> u32 \<Rightarrow> size_t option" where
  "array_get_mutable_pointer sz len arr i = (if i < ucast len then Some (arr + sz * ucast i) else None)"

text \<open>\<open>Mutate\<close> of a scalar and of a struct; \<open>val\<close> is the value in memory.\<close>

definition array_mutate_scalar :: "byte list \<Rightarrow> u16 \<Rightarrow> byte list \<Rightarrow> size_t \<Rightarrow> u32 \<Rightarrow> byte list option" where
  "array_mutate_scalar val len buf arr i =
     (if i < ucast len then write_bytes val buf (arr + of_nat (length val) * ucast i) else None)"

definition array_mutate_struct :: "byte list \<Rightarrow> u16 \<Rightarrow> byte list \<Rightarrow> size_t \<Rightarrow> u32 \<Rightarrow> byte list option" where
  "array_mutate_struct val len buf arr i = do {
     p \<leftarrow> array_get_mutable_pointer (of_nat (length val)) len arr i;
     write_bytes val buf p
   }"

text \<open>The assertion of \<open>CopyFromSpan\<close>, on the addresses of the span and of the array.\<close>

definition span_apart :: "u16 \<Rightarrow> size_t \<Rightarrow> size_t \<Rightarrow> bool" where
  "span_apart len p1 p2 \<longleftrightarrow>
     \<not> (p1 \<ge> p2 \<and> p1 < p2 + ucast len) \<and> \<not> (p2 \<ge> p1 \<and> p2 < p1 + ucast len)"

text \<open>
  The two ways to copy: \<open>memcpy\<close> when the bytes need no conversion, and the loop from element
  \<open>k\<close> on, over the bytes of the elements of the span.  \<open>memcpy\<close> of overlapping blocks is undefined.
\<close>

definition blocks_overlap :: "nat \<Rightarrow> size_t \<Rightarrow> size_t \<Rightarrow> bool" where
  "blocks_overlap n p q \<longleftrightarrow> n \<noteq> 0 \<and> unat p < unat q + n \<and> unat q < unat p + n"

definition copy_observable :: "size_t \<Rightarrow> u16 \<Rightarrow> byte list \<Rightarrow> size_t \<Rightarrow> size_t \<Rightarrow> byte list option" where
  "copy_observable sz len buf arr src =
     (let n = unat (ucast len * sz) in
      if blocks_overlap n arr src then None
      else do { bs \<leftarrow> read_bytes n buf src; write_bytes bs buf arr })"

primrec copy_elements :: "size_t \<Rightarrow> u16 \<Rightarrow> nat \<Rightarrow> nat \<Rightarrow> byte list \<Rightarrow> size_t \<Rightarrow> size_t \<Rightarrow> byte list option" where
  "copy_elements sz len 0 k buf arr src = Some buf"
| "copy_elements sz len (Suc n) k buf arr src = do {
     val \<leftarrow> read_bytes (unat sz) buf (src + of_nat k * sz);
     buf \<leftarrow> array_mutate_scalar val len buf arr (of_nat k);
     copy_elements sz len n (Suc k) buf arr src
   }"

definition copy_from_span :: "bool \<Rightarrow> size_t \<Rightarrow> u16 \<Rightarrow> byte list \<Rightarrow> size_t \<Rightarrow> size_t \<Rightarrow> byte list option" where
  "copy_from_span is_span_observable sz len buf arr src =
     (if \<not> span_apart len src arr then None
      else if is_span_observable then copy_observable sz len buf arr src
      else copy_elements sz len (unat len) 0 buf arr src)"

text \<open>A span is a pointer and a number of elements.\<close>

definition array_span :: "u16 \<Rightarrow> size_t \<Rightarrow> size_t \<times> size_t" where
  "array_span len arr = (arr, ucast len)"

definition array_bytes_span :: "size_t \<Rightarrow> u16 \<Rightarrow> size_t \<Rightarrow> size_t \<times> size_t" where
  "array_bytes_span sz len arr = (arr, sz * ucast len)"

section \<open>Structs and buffer references\<close>

definition struct_get_field :: "'a reader \<Rightarrow> byte list \<Rightarrow> size_t \<Rightarrow> u32 \<Rightarrow> 'a option" where
  "struct_get_field rd buf s off = rd buf (s + ucast off)"

definition struct_get_struct :: "size_t \<Rightarrow> u32 \<Rightarrow> size_t" where
  "struct_get_struct s off = s + ucast off"

definition struct_get_address_of :: "size_t \<Rightarrow> u32 \<Rightarrow> size_t" where
  "struct_get_address_of s off = s + ucast off"

record buffer_ref =
  br_buf :: "byte list option"            \<comment> \<open>\<open>None\<close> is the null pointer\<close>
  br_len :: u32
  br_must_free :: bool

definition br_null :: buffer_ref where
  "br_null = \<lparr>br_buf = None, br_len = 0, br_must_free = False\<rparr>"

definition br_new :: "byte list \<Rightarrow> u32 \<Rightarrow> buffer_ref" where
  "br_new buf len = \<lparr>br_buf = Some buf, br_len = len, br_must_free = False\<rparr>"

text \<open>The destructor, as the block it frees.\<close>

definition br_destroy :: "buffer_ref \<Rightarrow> byte list option" where
  "br_destroy b = (if br_must_free b then br_buf b else None)"

definition br_get_root :: "buffer_ref \<Rightarrow> size_t option" where
  "br_get_root b = do { buf \<leftarrow> br_buf b; get_root buf 0 }"

definition br_verify :: "(size_t \<Rightarrow> vcheck) \<Rightarrow> buffer_ref \<Rightarrow> bool option" where
  "br_verify tv b = do {
     buf \<leftarrow> br_buf b;
     v \<leftarrow> new_verifier buf (ucast (br_len b)) default_options;
     (ok, v) \<leftarrow> verify_buffer tv None v;
     Some ok
   }"

section \<open>The start of a buffer\<close>

text \<open>The loop over the possible positions of the root offset; the last one asserts.\<close>

primrec find_start :: "nat \<Rightarrow> byte list \<Rightarrow> size_t \<Rightarrow> size_t \<Rightarrow> size_t option" where
  "find_start 0 buf root start = None"
| "find_start (Suc possible_roots) buf root start = do {
     let start = start - 4;
     off \<leftarrow> read_u32 buf start;
     (if ucast off + start = root then Some start else find_start possible_roots buf root start)
   }"

definition get_buffer_start_from_root_pointer :: "byte list \<Rightarrow> size_t \<Rightarrow> size_t option" where
  "get_buffer_start_from_root_pointer buf root = do {
     vtable \<leftarrow> get_vtable buf root;
     let start = min vtable root AND NOT 3;
     find_start (32 div 4 + 1) buf root start
   }"

definition get_prefixed_size :: "byte list \<Rightarrow> size_t \<Rightarrow> u32 option" where
  "get_prefixed_size buf p = read_u32 buf p"

definition is_field_present :: "byte list \<Rightarrow> size_t \<Rightarrow> voffset_t \<Rightarrow> bool option" where
  "is_field_present buf t field = check_field buf t field"

text \<open>\<open>LookupEnum\<close> over the names before the null pointer that ends them.\<close>

fun lookup_enum_from :: "int \<Rightarrow> byte list option list \<Rightarrow> byte list \<Rightarrow> int option" where
  "lookup_enum_from i [] name = None"
| "lookup_enum_from i (None # ps) name = Some (- 1)"
| "lookup_enum_from i (Some p # ps) name = (if p = name then Some i else lookup_enum_from (i + 1) ps name)"

definition lookup_enum :: "byte list option list \<Rightarrow> byte list \<Rightarrow> int option" where
  "lookup_enum names name = lookup_enum_from 0 names name"

section \<open>Lemmas\<close>

text \<open>An iterator from the start of an array reads its elements.\<close>

lemma array_get_iter:
  assumes "i < ucast len"
  shows "array_get e len buf arr i = iter_deref e buf (iter_plus (element_stride e) (array_begin e arr) i)"
  using assms
  by (cases e) (simp_all add: array_get_def array_begin_def iter_plus_def iter_deref_def iter_new_def
      indirect_read_scalar_def indirect_read_offset_def indirect_read_struct_def Let_def)

lemma array_walk:
  "iter_plus (element_stride e) (array_begin e arr) (ucast len) = array_end e len arr"
  "array_rend e arr = array_begin e arr" "array_rbegin e len arr = array_end e len arr"
  by (simp_all add: iter_plus_def iter_new_def array_begin_def array_end_def array_rend_def array_rbegin_def
      mult.commute)

text \<open>Structs and scalars are written alike, and what is written is read back.\<close>

lemma array_mutate_struct_eq: "array_mutate_struct = array_mutate_scalar"
  by (intro ext) (simp add: array_mutate_struct_def array_mutate_scalar_def array_get_mutable_pointer_def)

lemma array_mutate_then_get:
  assumes "array_mutate_scalar val len buf arr i = Some buf'" and "length val < 2 ^ 64"
  shows "array_get (Scalar_Element (of_nat (length val))) len buf' arr i = Some (Scalar_Value val)"
  using assms read_write_bytes(1) [of val buf "arr + of_nat (length val) * ucast i" buf']
  by (simp add: array_mutate_scalar_def array_get_def indirect_read_scalar_def unat_of_nat_small mult.commute
      split: if_splits)

text \<open>The loop over the elements writes what \<open>memcpy\<close> does, when the blocks are apart.\<close>

lemma write_bytes_append:
  assumes "write_bytes a buf p = Some buf1" and "unat p + length a + length b < 2 ^ 64"
  shows "write_bytes (a @ b) buf p = write_bytes b buf1 (p + of_nat (length a))"
proof -
  have "unat (p + of_nat (length a)) = unat p + length a"
    using assms(2) by (subst unat_add_small) (simp_all add: unat_of_nat_small)
  then show ?thesis
    using assms(1) by (auto simp: write_bytes_def min_def add.assoc add.commute [of "length b"] split: if_splits)
      (simp flip: length_0_conv)
qed

lemma read_bytes_apart:
  assumes "write_bytes bs buf q = Some buf'" and "unat p + n \<le> unat q \<or> unat q + length bs \<le> unat p"
  shows "read_bytes n buf' p = read_bytes n buf p"
  using assms(2)
proof
  assume "unat p + n \<le> unat q"
  then show ?thesis by (rule read_bytes_below_write [OF assms(1)])
next
  assume "unat q + length bs \<le> unat p"
  then show ?thesis
    using assms(1) by (auto simp: write_bytes_def read_bytes_def split: if_splits)
qed

lemma unat_element:
  assumes "unat p + k * unat s < 2 ^ 64"
  shows "unat (p + of_nat k * s) = unat p + k * unat (s :: size_t)"
proof -
  have "unat (of_nat (k * unat s) :: size_t) = k * unat s"
    using assms by (intro unat_of_nat_small) simp
  then show ?thesis
    using assms by (subst unat_add_small) simp_all
qed

lemma array_index:
  assumes "k < unat (len :: u16)"
  shows "(of_nat k :: u32) < ucast len" and "ucast (of_nat k :: u32) = (of_nat k :: size_t)"
proof -
  have l: "unat len < 2 ^ LENGTH(16)" by (rule unsigned_less)
  then have u: "unat (of_nat k :: u32) = k" using assms by (intro unat_of_nat_small) simp
  have "unat (ucast len :: u32) = unat len" by (transfer, simp add: take_bit_nat_eq_self_iff)
  then show "(of_nat k :: u32) < ucast len" using u assms by (simp add: word_less_nat_alt)
  show "ucast (of_nat k :: u32) = (of_nat k :: size_t)"
    using u l assms by (simp add: word_unat_eq_iff unat_of_nat_small)
qed

lemma copy_elements_write:
  assumes "k + n \<le> unat len" "length buf < 2 ^ 64"
    and "unat src + (k + n) * unat sz \<le> length buf" "unat arr + (k + n) * unat sz \<le> length buf"
    and "unat src + (k + n) * unat sz \<le> unat arr \<or> unat arr + (k + n) * unat sz \<le> unat src"
  shows "copy_elements sz len n k buf arr src =
    write_bytes (take (n * unat sz) (drop (unat src + k * unat sz) buf)) buf (arr + of_nat k * sz)"
  using assms
proof (induction n arbitrary: k buf)
  case 0
  then show ?case by (simp add: write_bytes_def unat_element)
next
  case (Suc n)
  have ns: "(k + Suc n) * unat sz = k * unat sz + unat sz + n * unat sz" by (simp add: algebra_simps)
  have src: "unat (src + of_nat k * sz) = unat src + k * unat sz"
    and arr: "unat (arr + of_nat k * sz) = unat arr + k * unat sz"
    using Suc.prems(2-4) unfolding ns by (simp_all add: unat_element)
  define val where "val = take (unat sz) (drop (unat src + k * unat sz) buf)"
  have rd: "read_bytes (unat sz) buf (src + of_nat k * sz) = Some val" and l: "length val = unat sz"
    using Suc.prems(3) unfolding ns by (simp_all add: read_bytes_def src val_def)
  obtain buf1 where w: "write_bytes val buf (arr + of_nat k * sz) = Some buf1" and l1: "length buf1 = length buf"
    using Suc.prems(4) unfolding ns by (simp add: write_bytes_def arr l)
  have m: "array_mutate_scalar val len buf arr (of_nat k) = Some buf1"
    using w Suc.prems(1) by (simp add: array_mutate_scalar_def array_index [of k len] l mult.commute [of sz])
  have src1: "unat (src + of_nat (Suc k) * sz) = unat src + (k * unat sz + unat sz)"
    using Suc.prems(2,3) unfolding ns by (subst unat_element) simp_all
  have "unat (src + of_nat (Suc k) * sz) + n * unat sz \<le> unat (arr + of_nat k * sz) \<or>
      unat (arr + of_nat k * sz) + length val \<le> unat (src + of_nat (Suc k) * sz)"
    using Suc.prems(5) unfolding ns src1 arr l by linarith
  from read_bytes_apart [OF w this]
  have same: "take (n * unat sz) (drop (unat src + Suc k * unat sz) buf1) =
      take (n * unat sz) (drop (unat src + Suc k * unat sz) buf)"
    using Suc.prems(3) unfolding ns by (simp add: src1 read_bytes_def l1 add.commute del: of_nat_Suc)
  have "copy_elements sz len (Suc n) k buf arr src =
      write_bytes (take (n * unat sz) (drop (unat src + Suc k * unat sz) buf)) buf1 (arr + of_nat (Suc k) * sz)"
    using Suc.IH [of "Suc k" buf1] Suc.prems by (simp add: rd m l1 same del: mult_Suc of_nat_Suc)
  also have "\<dots> = write_bytes (val @ take (n * unat sz) (drop (unat src + Suc k * unat sz) buf)) buf (arr + of_nat k * sz)"
  proof -
    have "unat (arr + of_nat k * sz) + length val + n * unat sz < 2 ^ 64"
      using Suc.prems(2,4) unfolding ns arr l by simp
    then show ?thesis
      using write_bytes_append [OF w, of "take (n * unat sz) (drop (unat src + Suc k * unat sz) buf)"]
      by (simp add: l algebra_simps)
  qed
  also have "val @ take (n * unat sz) (drop (unat src + Suc k * unat sz) buf) =
      take (Suc n * unat sz) (drop (unat src + k * unat sz) buf)"
    by (simp add: val_def take_add add.commute add.left_commute)
  finally show ?case .
qed

text \<open>So both ways to copy agree, on elements that do not overlap the array.\<close>

theorem copy_from_span_equiv:
  assumes "length buf < 2 ^ 64" "unat src + unat len * unat sz \<le> length buf" "unat arr + unat len * unat sz \<le> length buf"
    and "unat src + unat len * unat sz \<le> unat arr \<or> unat arr + unat len * unat sz \<le> unat src"
  shows "copy_from_span False sz len buf arr src = copy_from_span True sz len buf arr src"
proof -
  have n: "unat (ucast len * sz) = unat len * unat sz"
    using assms(1,2) by (simp add: unat_word_ariths)
  have "\<not> blocks_overlap (unat len * unat sz) arr src"
    using assms(4) by (auto simp: blocks_overlap_def)
  then show ?thesis
    using copy_elements_write [of 0 "unat len" len buf src sz arr] assms n
    by (simp add: copy_from_span_def copy_observable_def read_bytes_def)
qed

text \<open>
  The assertion counts elements as bytes: a span that begins inside the array may pass, and
  \<open>memcpy\<close> is called for overlapping blocks.
\<close>

lemma overlap_unnoticed:
  "span_apart 2 4 0" "blocks_overlap (unat (ucast (2 :: u16) * 4 :: size_t)) 0 4"
  by code_simp+

text \<open>
  \<open>GetBufferStartFromRootPointer\<close> is an inverse of \<open>GetRoot\<close>: what it returns is the position of an
  offset to the root, and it returns the nearest such position below the table.
\<close>

lemma find_start_Suc:
  "find_start (Suc n) buf root start = do {
     r \<leftarrow> get_root buf (start - 4);
     (if r = root then Some (start - 4) else find_start n buf root (start - 4))
   }"
  by (simp add: get_root_def Let_def add.commute)

lemma find_start_root: "find_start n buf root start = Some s \<Longrightarrow> get_root buf s = Some root"
proof (induction n arbitrary: start)
  case (Suc n)
  then show ?case unfolding find_start_Suc by (auto split: bind_splits if_splits)
qed simp

lemma find_start_complete:
  assumes "d < n" "\<And>i. i < d \<Longrightarrow> \<exists>r. get_root buf (start - of_nat (Suc i) * 4) = Some r \<and> r \<noteq> root"
    and "get_root buf (start - of_nat (Suc d) * 4) = Some root"
  shows "find_start n buf root start = Some (start - of_nat (Suc d) * 4)"
  using assms
proof (induction d arbitrary: n start)
  case 0
  then obtain n' where "n = Suc n'" by (cases n) auto
  with 0(3) show ?case by (simp add: find_start_Suc del: find_start.simps)
next
  case (Suc d)
  then obtain n' where n: "n = Suc n'" by (cases n) auto
  have shift: "start - 4 - of_nat (Suc i) * 4 = start - of_nat (Suc (Suc i)) * 4" for i
    by (simp add: algebra_simps)
  obtain r where r: "get_root buf (start - 4) = Some r" "r \<noteq> root" using Suc.prems(2) [of 0] by auto
  have "find_start n' buf root (start - 4) = Some (start - 4 - of_nat (Suc d) * 4)"
  proof (rule Suc.IH)
    show "d < n'" using Suc.prems(1) n by simp
    show "\<exists>r. get_root buf (start - 4 - of_nat (Suc i) * 4) = Some r \<and> r \<noteq> root" if "i < d" for i
      unfolding shift by (rule Suc.prems(2)) (use that in simp)
    show "get_root buf (start - 4 - of_nat (Suc d) * 4) = Some root" unfolding shift by (rule Suc.prems(3))
  qed
  then show ?case using r n unfolding shift by (simp add: find_start_Suc del: find_start.simps of_nat_Suc)
qed

lemma get_buffer_start_root:
  "get_buffer_start_from_root_pointer buf root = Some s \<Longrightarrow> get_root buf s = Some root"
  by (auto simp: get_buffer_start_from_root_pointer_def Let_def find_start_root split: bind_splits)

text \<open>A reference verifies the block it refers to, and never frees one it was given.\<close>

lemma br_frees_nothing: "br_destroy br_null = None" "br_destroy (br_new buf len) = None"
  by (simp_all add: br_destroy_def br_null_def br_new_def)

context verified_type
begin

lemma br_verify_returns:
  assumes "unat len \<le> length buf" "ucast len < (FLATBUFFERS_MAX_BUFFER_SIZE :: size_t)" "length buf < 2 ^ 63"
  shows "\<exists>ok. br_verify tv (br_new buf len) = Some ok"
proof -
  define v where "v = \<lparr>vf_buf = buf, vf_size = ucast len, vf_opts = default_options, vf_depth = 0, vf_num_tables = 0\<rparr>"
  have "vf_ok v" using assms by (simp add: vf_ok_def v_def)
  then obtain ok v' where "verify_buffer tv None v = Some (ok, v')"
    using verify_buffer_safe unfolding safe_check_def by blast
  then show ?thesis using assms(2) by (simp add: br_verify_def br_new_def new_verifier_def v_def)
qed

end

end
