(* ===== verification/Fb_Minireflect.thy ===== *)
theory Fb_Minireflect
  imports Fb_Array Fb_Builder Fb_Number
begin

text \<open>
  \<open>examples/flatbuffers/minireflect.h\<close>: walking over a buffer by the type tables of generated
  code.  Type tables refer to each other by functions; a table is named by a number here and
  \<open>env\<close> gives its contents.  The walk follows offsets of a buffer that nobody verified: it is a
  partial function.  The visitor is a parameter, a function from the method called, with its
  arguments, and the state of the visitor; \<open>ToStringVisitor\<close> is one.
\<close>

section \<open>Type tables\<close>

datatype sequence_type = ST_TABLE | ST_STRUCT | ST_UNION | ST_ENUM

text \<open>\<open>ET_FUTURE\<close> stands for the values of the four bits that no constant names.\<close>

datatype elementary_type =
    ET_UTYPE | ET_BOOL | ET_CHAR | ET_UCHAR | ET_SHORT | ET_USHORT | ET_INT | ET_UINT | ET_LONG | ET_ULONG
  | ET_FLOAT | ET_DOUBLE | ET_STRING | ET_SEQUENCE | ET_FUTURE

record type_code =
  base_type :: elementary_type
  is_repeating :: bool
  sequence_ref :: "11 word"               \<comment> \<open>signed\<close>

record type_table =
  tt_st :: sequence_type
  tt_num_elems :: size_t
  tt_type_codes :: "type_code list"
  tt_type_refs :: "nat list"
  tt_array_sizes :: "16 word list"        \<comment> \<open>signed\<close>
  tt_values :: "64 word list option"
  tt_names :: "byte list list option"

definition list_at :: "'a list \<Rightarrow> nat \<Rightarrow> 'a option" where
  "list_at xs i = (if i < length xs then Some (xs ! i) else None)"

definition inline_size :: "(nat \<Rightarrow> type_table) \<Rightarrow> elementary_type \<Rightarrow> nat option \<Rightarrow> size_t option" where
  "inline_size env type table =
     (case type of
        ET_UTYPE \<Rightarrow> Some 1 | ET_BOOL \<Rightarrow> Some 1 | ET_CHAR \<Rightarrow> Some 1 | ET_UCHAR \<Rightarrow> Some 1
      | ET_SHORT \<Rightarrow> Some 2 | ET_USHORT \<Rightarrow> Some 2
      | ET_INT \<Rightarrow> Some 4 | ET_UINT \<Rightarrow> Some 4 | ET_FLOAT \<Rightarrow> Some 4 | ET_STRING \<Rightarrow> Some 4
      | ET_LONG \<Rightarrow> Some 8 | ET_ULONG \<Rightarrow> Some 8 | ET_DOUBLE \<Rightarrow> Some 8
      | ET_SEQUENCE \<Rightarrow> do {
          t \<leftarrow> table;
          (case tt_st (env t) of
             ST_TABLE \<Rightarrow> Some 4
           | ST_UNION \<Rightarrow> Some 4
           | ST_STRUCT \<Rightarrow> do { vs \<leftarrow> tt_values (env t); list_at vs (unat (tt_num_elems (env t))) }
           | ST_ENUM \<Rightarrow> None)
        }
      | ET_FUTURE \<Rightarrow> None)"

text \<open>\<open>LookupEnum\<close>: the position of a value; without values it is the position itself.\<close>

fun lookup_value_from :: "nat \<Rightarrow> nat \<Rightarrow> 64 word \<Rightarrow> 64 word list \<Rightarrow> int option" where
  "lookup_value_from i 0 enum_val vs = Some (- 1)"
| "lookup_value_from i (Suc n) enum_val [] = None"
| "lookup_value_from i (Suc n) enum_val (v # vs) =
     (if enum_val = v then Some (int i) else lookup_value_from (Suc i) n enum_val vs)"

definition lookup_enum_value :: "64 word \<Rightarrow> 64 word list option \<Rightarrow> size_t \<Rightarrow> int option" where
  "lookup_enum_value enum_val values num_values =
     (case values of
        None \<Rightarrow> Some (sint enum_val)
      | Some vs \<Rightarrow> lookup_value_from 0 (unat num_values) enum_val vs)"

text \<open>\<open>EnumName\<close>; \<open>Some None\<close> is the null pointer.\<close>

definition enum_name :: "(nat \<Rightarrow> type_table) \<Rightarrow> 64 word \<Rightarrow> nat option \<Rightarrow> byte list option option" where
  "enum_name env tval table =
     (case table of
        None \<Rightarrow> Some None
      | Some t \<Rightarrow>
          (case tt_names (env t) of
             None \<Rightarrow> Some None
           | Some names \<Rightarrow> do {
               i \<leftarrow> lookup_enum_value tval (tt_values (env t)) (tt_num_elems (env t));
               (if 0 \<le> i \<and> i < sint (tt_num_elems (env t))
                then map_option Some (list_at names (nat i)) else Some None)
             }))"

section \<open>The walk\<close>

text \<open>The calls of a visitor; scalars as they lie in memory, signed ones to be read by \<open>sint\<close>.\<close>

datatype visit =
    StartSequence | EndSequence
  | Visit_Field size_t size_t elementary_type bool "nat option" "byte list option" "size_t option"
  | UType byte "byte list option" | Visit_Bool bool
  | Visit_Char byte "byte list option" | UChar byte "byte list option"
  | Short u16 "byte list option" | UShort u16 "byte list option"
  | Visit_Int u32 "byte list option" | UInt u32 "byte list option"
  | Long "64 word" | ULong "64 word" | Visit_Float u32 | Visit_Double "64 word"
  | Visit_String size_t | Visit_Unknown size_t
  | StartVector | EndVector
  | Visit_Element size_t elementary_type "nat option" size_t

type_synonym 'v visitor = "visit \<Rightarrow> 'v \<Rightarrow> 'v option"

text \<open>\<open>ReadScalar\<close>, for every width.\<close>

definition read_scalar :: "byte list \<Rightarrow> size_t \<Rightarrow> 'a::len word option" where
  "read_scalar buf p = map_option (\<lambda>bs. of_nat (le_nat bs)) (read_bytes (LENGTH('a) div 8) buf p)"

text \<open>The scalars of \<open>IterateValue\<close>.\<close>

definition iterate_scalar ::
  "(nat \<Rightarrow> type_table) \<Rightarrow> 'v visitor \<Rightarrow> byte list \<Rightarrow> elementary_type \<Rightarrow> size_t \<Rightarrow> nat option \<Rightarrow> 'v \<Rightarrow> 'v option" where
  "iterate_scalar env visit buf type val table v =
     (case type of
        ET_UTYPE \<Rightarrow> do { x \<leftarrow> read_scalar buf val; n \<leftarrow> enum_name env (ucast x) table; visit (UType x n) v }
      | ET_BOOL \<Rightarrow> do { x \<leftarrow> read_scalar buf val; visit (Visit_Bool ((x :: byte) \<noteq> 0)) v }
      | ET_CHAR \<Rightarrow> do { x \<leftarrow> read_scalar buf val; n \<leftarrow> enum_name env (scast x) table; visit (Visit_Char x n) v }
      | ET_UCHAR \<Rightarrow> do { x \<leftarrow> read_scalar buf val; n \<leftarrow> enum_name env (ucast x) table; visit (UChar x n) v }
      | ET_SHORT \<Rightarrow> do { x \<leftarrow> read_scalar buf val; n \<leftarrow> enum_name env (scast x) table; visit (Short x n) v }
      | ET_USHORT \<Rightarrow> do { x \<leftarrow> read_scalar buf val; n \<leftarrow> enum_name env (ucast x) table; visit (UShort x n) v }
      | ET_INT \<Rightarrow> do { x \<leftarrow> read_scalar buf val; n \<leftarrow> enum_name env (scast x) table; visit (Visit_Int x n) v }
      | ET_UINT \<Rightarrow> do { x \<leftarrow> read_scalar buf val; n \<leftarrow> enum_name env (ucast x) table; visit (UInt x n) v }
      | ET_LONG \<Rightarrow> do { x \<leftarrow> read_scalar buf val; visit (Long x) v }
      | ET_ULONG \<Rightarrow> do { x \<leftarrow> read_scalar buf val; visit (ULong x) v }
      | ET_FLOAT \<Rightarrow> do { x \<leftarrow> read_scalar buf val; visit (Visit_Float x) v }
      | ET_DOUBLE \<Rightarrow> do { x \<leftarrow> read_scalar buf val; visit (Visit_Double x) v }
      | ET_STRING \<Rightarrow> do { off \<leftarrow> read_u32 buf val; visit (Visit_String (val + ucast off)) v }
      | _ \<Rightarrow> visit (Visit_Unknown val) v)"

text \<open>
  A union: \<open>prev_val\<close> is the value of the field before, its type or the vector of its types.
  \<open>rec\<close> is the walk over an object.
\<close>

definition iterate_union ::
  "(size_t \<Rightarrow> nat \<Rightarrow> 'v \<Rightarrow> 'v option) \<Rightarrow> (nat \<Rightarrow> type_table) \<Rightarrow> 'v visitor \<Rightarrow> byte list \<Rightarrow> size_t \<Rightarrow> type_table \<Rightarrow>
    size_t option \<Rightarrow> u32 \<Rightarrow> 'v \<Rightarrow> 'v option" where
  "iterate_union rec env visit buf val tt prev_val vector_index v = do {
     p \<leftarrow> prev_val;
     union_type \<leftarrow> read_u8 buf p;
     union_type \<leftarrow>
       (if sint vector_index \<ge> 0
        then do { n \<leftarrow> vector_size buf p;
                  (if vector_index < n then read_u8 buf (vector_data p + ucast vector_index) else None) }
        else Some union_type);
     i \<leftarrow> lookup_enum_value (ucast union_type) (tt_values tt) (tt_num_elems tt);
     (if 0 \<le> i \<and> i < sint (ucast (tt_num_elems tt) :: u32) then do {
        type_code \<leftarrow> list_at (tt_type_codes tt) (nat i);
        (if base_type type_code = ET_SEQUENCE then do {
           ref \<leftarrow> (if sint (sequence_ref type_code) < 0 then None
                  else list_at (tt_type_refs tt) (unat (sequence_ref type_code)));
           rec val ref v
         }
         else if base_type type_code = ET_STRING then visit (Visit_String val) v
         else visit (Visit_Unknown val) v)
      }
      else visit (Visit_Unknown val) v)
   }"

definition iterate_value ::
  "(size_t \<Rightarrow> nat \<Rightarrow> 'v \<Rightarrow> 'v option) \<Rightarrow> (nat \<Rightarrow> type_table) \<Rightarrow> 'v visitor \<Rightarrow> byte list \<Rightarrow> elementary_type \<Rightarrow> size_t \<Rightarrow>
    nat option \<Rightarrow> size_t option \<Rightarrow> u32 \<Rightarrow> 'v \<Rightarrow> 'v option" where
  "iterate_value rec env visit buf type val table prev_val vector_index v =
     (if type = ET_SEQUENCE then do {
        t \<leftarrow> table;
        (if tt_st (env t) = ST_TABLE then do { off \<leftarrow> read_u32 buf val; rec (val + ucast off) t v }
         else if tt_st (env t) = ST_STRUCT then rec val t v
         else if tt_st (env t) = ST_UNION then do {
           off \<leftarrow> read_u32 buf val;
           iterate_union rec env visit buf (val + ucast off) (env t) prev_val vector_index v
         }
         else None)
      }
      else iterate_scalar env visit buf type val table v)"

text \<open>The elements of a vector or array; the state is the pointer to the element and the visitor.\<close>

definition iterate_element ::
  "(size_t \<Rightarrow> nat \<Rightarrow> 'v \<Rightarrow> 'v option) \<Rightarrow> (nat \<Rightarrow> type_table) \<Rightarrow> 'v visitor \<Rightarrow> byte list \<Rightarrow> elementary_type \<Rightarrow> nat option \<Rightarrow>
    size_t option \<Rightarrow> nat \<Rightarrow> size_t \<times> 'v \<Rightarrow> (size_t \<times> 'v) option" where
  "iterate_element rec env visit buf type ref prev_val j s = do {
     let elem_ptr = fst s;
     v \<leftarrow> visit (Visit_Element (of_nat j) type ref elem_ptr) (snd s);
     v \<leftarrow> iterate_value rec env visit buf type elem_ptr ref prev_val (of_nat j) v;
     n \<leftarrow> inline_size env type ref;
     Some (elem_ptr + n, v)
   }"

text \<open>The locals of \<open>IterateObject\<close>.\<close>

record 'v iteration =
  prev_val :: "size_t option"
  set_idx :: size_t
  array_idx :: nat
  visitor_state :: 'v

text \<open>One field that is present, from \<open>val\<close> on; what \<open>prev_val\<close> becomes is returned too.\<close>

definition iterate_present ::
  "(size_t \<Rightarrow> nat \<Rightarrow> 'v \<Rightarrow> 'v option) \<Rightarrow> (nat \<Rightarrow> type_table) \<Rightarrow> 'v visitor \<Rightarrow> byte list \<Rightarrow> type_table \<Rightarrow> type_code \<Rightarrow>
    nat option \<Rightarrow> size_t \<Rightarrow> 'v iteration \<Rightarrow> 'v iteration option" where
  "iterate_present rec env visit buf tt type_code ref val s =
     (let type = base_type type_code; s = s\<lparr>set_idx := set_idx s + 1\<rparr> in
      if is_repeating type_code then do {
        (val, elem_ptr, size, s) \<leftarrow>
          (if tt_st tt = ST_TABLE then do {
             off \<leftarrow> read_u32 buf val;
             let val = val + ucast off;
             n \<leftarrow> vector_size buf val;
             Some (val, vector_data val, ucast n :: size_t, s)
           }
           else do {
             n \<leftarrow> list_at (tt_array_sizes tt) (array_idx s);
             Some (val, val, scast n, s\<lparr>array_idx := array_idx s + 1\<rparr>)
           });
        v \<leftarrow> visit StartVector (visitor_state s);
        (_, v) \<leftarrow> option_loop (iterate_element rec env visit buf type ref (prev_val s)) [0..<unat size] (elem_ptr, v);
        v \<leftarrow> visit EndVector v;
        Some (s\<lparr>prev_val := Some val, visitor_state := v\<rparr>)
      }
      else do {
        v \<leftarrow> iterate_value rec env visit buf type val ref (prev_val s) (- 1) (visitor_state s);
        Some (s\<lparr>prev_val := Some val, visitor_state := v\<rparr>)
      })"

definition iterate_field ::
  "(size_t \<Rightarrow> nat \<Rightarrow> 'v \<Rightarrow> 'v option) \<Rightarrow> (nat \<Rightarrow> type_table) \<Rightarrow> 'v visitor \<Rightarrow> byte list \<Rightarrow> size_t \<Rightarrow> type_table \<Rightarrow>
    nat \<Rightarrow> 'v iteration \<Rightarrow> 'v iteration option" where
  "iterate_field rec env visit buf obj tt i s = do {
     type_code \<leftarrow> list_at (tt_type_codes tt) i;
     ref \<leftarrow> (if sint (sequence_ref type_code) \<ge> 0
            then map_option Some (list_at (tt_type_refs tt) (unat (sequence_ref type_code))) else Some None);
     name \<leftarrow> (case tt_names tt of None \<Rightarrow> Some None | Some names \<Rightarrow> map_option Some (list_at names i));
     val \<leftarrow> (if tt_st tt = ST_TABLE then get_address_of buf obj (field_index_to_offset (of_nat i))
            else do { vs \<leftarrow> tt_values tt; x \<leftarrow> list_at vs i; Some (Some (obj + x)) });
     v \<leftarrow> visit (Visit_Field (of_nat i) (set_idx s) (base_type type_code) (is_repeating type_code) ref name val)
           (visitor_state s);
     let s = s\<lparr>visitor_state := v\<rparr>;
     (case val of
        None \<Rightarrow> Some (s\<lparr>prev_val := None\<rparr>)
      | Some val \<Rightarrow> iterate_present rec env visit buf tt type_code ref val s)
   }"

lemma iterate_field_mono [partial_function_mono]:
  assumes "\<And>p t v. mono_option (\<lambda>f. F f p t v)"
  shows "mono_option (\<lambda>f. iterate_field (F f) env visit buf obj tt i s)"
proof -
  have u: "mono_option (\<lambda>f. iterate_union (F f) env visit buf val tt' prev vi v)" for val tt' prev vi v
    unfolding iterate_union_def by (intro partial_function_mono assms)
  have val: "mono_option (\<lambda>f. iterate_value (F f) env visit buf type val table prev vi v)" for type val table prev vi v
    unfolding iterate_value_def by (intro partial_function_mono assms u)
  have el: "mono_option (\<lambda>f. iterate_element (F f) env visit buf type ref prev j s)" for type ref prev j s
    unfolding iterate_element_def Let_def by (intro partial_function_mono val)
  have pr: "mono_option (\<lambda>f. iterate_present (F f) env visit buf tt type_code ref val s)" for type_code ref val s
    unfolding iterate_present_def Let_def split_def by (intro partial_function_mono val el)
  have "mono_option (\<lambda>f. case w of None \<Rightarrow> c | Some val \<Rightarrow> iterate_present (F f) env visit buf tt type_code ref val s)"
    for w c type_code ref s
    by (cases w) (simp_all add: option.const_mono pr)
  then show ?thesis
    unfolding iterate_field_def Let_def by (intro partial_function_mono)
qed

partial_function (option) iterate_object ::
  "(nat \<Rightarrow> type_table) \<Rightarrow> 'v visitor \<Rightarrow> byte list \<Rightarrow> size_t \<Rightarrow> nat \<Rightarrow> 'v \<Rightarrow> 'v option" where
  "iterate_object env visit buf obj t v = do {
     v \<leftarrow> visit StartSequence v;
     s \<leftarrow> option_loop (iterate_field (\<lambda>p t. iterate_object env visit buf p t) env visit buf obj (env t))
           [0..<unat (tt_num_elems (env t))]
           \<lparr>prev_val = None, set_idx = 0, array_idx = 0, visitor_state = v\<rparr>;
     visit EndSequence (visitor_state s)
   }"

definition iterate_flat_buffer ::
  "(nat \<Rightarrow> type_table) \<Rightarrow> 'v visitor \<Rightarrow> byte list \<Rightarrow> nat \<Rightarrow> 'v \<Rightarrow> 'v option" where
  "iterate_flat_buffer env callback buf t v = do { root \<leftarrow> get_root buf 0; iterate_object env callback buf root t v }"

section \<open>\<open>ToStringVisitor\<close>\<close>

record to_string_visitor =
  ts_s :: "byte list"
  ts_d :: "byte list"
  ts_q :: bool
  ts_in :: "byte list"
  ts_indent_level :: size_t
  ts_vector_delimited :: bool

definition tsv_new :: "byte list \<Rightarrow> bool \<Rightarrow> byte list \<Rightarrow> bool \<Rightarrow> to_string_visitor" where
  "tsv_new delimiter quotes indent vdelimited = \<lparr>ts_s = [], ts_d = delimiter, ts_q = quotes, ts_in = indent,
     ts_indent_level = 0, ts_vector_delimited = vdelimited\<rparr>"

definition tsv_new_delimiter :: "byte list \<Rightarrow> to_string_visitor" where
  "tsv_new_delimiter delimiter = tsv_new delimiter False [] True"

definition put_text :: "byte list \<Rightarrow> to_string_visitor \<Rightarrow> to_string_visitor" where
  "put_text x v = v\<lparr>ts_s := ts_s v @ x\<rparr>"

definition append_indent :: "to_string_visitor \<Rightarrow> to_string_visitor" where
  "append_indent v = put_text (concat (replicate (unat (ts_indent_level v)) (ts_in v))) v"

definition indent_by :: "size_t \<Rightarrow> to_string_visitor \<Rightarrow> to_string_visitor" where
  "indent_by n v = v\<lparr>ts_indent_level := ts_indent_level v + n\<rparr>"

definition quoted_name :: "byte list \<Rightarrow> to_string_visitor \<Rightarrow> byte list" where
  "quoted_name name v = (if ts_q v then [0x22] @ name @ [0x22] else name)"

definition tsv_named :: "byte list \<Rightarrow> byte list option \<Rightarrow> to_string_visitor \<Rightarrow> to_string_visitor" where
  "tsv_named number name v = put_text (case name of Some n \<Rightarrow> quoted_name n v | None \<Rightarrow> number) v"

definition tsv_field :: "size_t \<Rightarrow> byte list option \<Rightarrow> size_t option \<Rightarrow> to_string_visitor \<Rightarrow> to_string_visitor" where
  "tsv_field set_index name val v =
     (case val of
        None \<Rightarrow> v
      | Some _ \<Rightarrow>
          let v = (if set_index \<noteq> 0 then put_text (0x2C # ts_d v) v else v);
              v = append_indent v
          in (case name of None \<Rightarrow> v | Some n \<Rightarrow> put_text (quoted_name n v @ [0x3A, 0x20]) v))"

definition tsv_start_vector :: "to_string_visitor \<Rightarrow> to_string_visitor" where
  "tsv_start_vector v =
     (let v = put_text [0x5B] v in
      if ts_vector_delimited v then append_indent (indent_by 1 (put_text (ts_d v) v)) else put_text [0x20] v)"

definition tsv_end_vector :: "to_string_visitor \<Rightarrow> to_string_visitor" where
  "tsv_end_vector v =
     put_text [0x5D]
       (if ts_vector_delimited v then append_indent (indent_by (- 1) (put_text (ts_d v) v)) else put_text [0x20] v)"

definition tsv_element :: "size_t \<Rightarrow> to_string_visitor \<Rightarrow> to_string_visitor" where
  "tsv_element i v =
     (if i \<noteq> 0
      then (let v = put_text [0x2C] v in
            if ts_vector_delimited v then append_indent (put_text (ts_d v) v) else put_text [0x20] v)
      else v)"

definition tsv_string :: "byte list \<Rightarrow> size_t \<Rightarrow> to_string_visitor \<Rightarrow> to_string_visitor option" where
  "tsv_string buf str v = do {
     n \<leftarrow> vector_size buf str;
     (_, s) \<leftarrow> escape_string (drop (unat (c_str str)) buf) (unat n) (ts_s v) True False;
     Some (v\<lparr>ts_s := s\<rparr>)
   }"

text \<open>\<open>ftoa\<close> and \<open>dtoa\<close> print floating point numbers.\<close>

fun tsv_visit ::
  "(u32 \<Rightarrow> byte list) \<Rightarrow> (64 word \<Rightarrow> byte list) \<Rightarrow> byte list \<Rightarrow> visit \<Rightarrow> to_string_visitor \<Rightarrow> to_string_visitor option" where
  "tsv_visit ftoa dtoa buf StartSequence v = Some (indent_by 1 (put_text (0x7B # ts_d v) v))"
| "tsv_visit ftoa dtoa buf EndSequence v =
     Some (put_text [0x7D] (append_indent (indent_by (- 1) (put_text (ts_d v) v))))"
| "tsv_visit ftoa dtoa buf (Visit_Field field_index set_index type is_vector table name val) v =
     Some (tsv_field set_index name val v)"
| "tsv_visit ftoa dtoa buf (UType x name) v = Some (tsv_named (num_to_string (uint x)) name v)"
| "tsv_visit ftoa dtoa buf (Visit_Bool x) v =
     Some (put_text (if x then [0x74, 0x72, 0x75, 0x65] else [0x66, 0x61, 0x6C, 0x73, 0x65]) v)"
| "tsv_visit ftoa dtoa buf (Visit_Char x name) v = Some (tsv_named (num_to_string (sint x)) name v)"
| "tsv_visit ftoa dtoa buf (UChar x name) v = Some (tsv_named (num_to_string (uint x)) name v)"
| "tsv_visit ftoa dtoa buf (Short x' name) v = Some (tsv_named (num_to_string (sint x')) name v)"
| "tsv_visit ftoa dtoa buf (UShort x' name) v = Some (tsv_named (num_to_string (uint x')) name v)"
| "tsv_visit ftoa dtoa buf (Visit_Int y name) v = Some (tsv_named (num_to_string (sint y)) name v)"
| "tsv_visit ftoa dtoa buf (UInt y name) v = Some (tsv_named (num_to_string (uint y)) name v)"
| "tsv_visit ftoa dtoa buf (Long z) v = Some (put_text (num_to_string (sint z)) v)"
| "tsv_visit ftoa dtoa buf (ULong z) v = Some (put_text (num_to_string (uint z)) v)"
| "tsv_visit ftoa dtoa buf (Visit_Float y) v = Some (put_text (ftoa y) v)"
| "tsv_visit ftoa dtoa buf (Visit_Double z) v = Some (put_text (dtoa z) v)"
| "tsv_visit ftoa dtoa buf (Visit_String str) v = tsv_string buf str v"
| "tsv_visit ftoa dtoa buf (Visit_Unknown p) v = Some (put_text [0x28, 0x3F, 0x29] v)"
| "tsv_visit ftoa dtoa buf StartVector v = Some (tsv_start_vector v)"
| "tsv_visit ftoa dtoa buf EndVector v = Some (tsv_end_vector v)"
| "tsv_visit ftoa dtoa buf (Visit_Element i type table p) v = Some (tsv_element i v)"

definition flat_buffer_to_string ::
  "(u32 \<Rightarrow> byte list) \<Rightarrow> (64 word \<Rightarrow> byte list) \<Rightarrow> (nat \<Rightarrow> type_table) \<Rightarrow> byte list \<Rightarrow> nat \<Rightarrow> bool \<Rightarrow> bool \<Rightarrow> byte list option" where
  "flat_buffer_to_string ftoa dtoa env buf t multi_line vector_delimited =
     map_option ts_s (iterate_flat_buffer env (tsv_visit ftoa dtoa buf) buf t
       (tsv_new (if multi_line then [0x0A] else [0x20]) False [] vector_delimited))"

section \<open>The contract of a visitor\<close>

text \<open>
  What a walk does to the state of a visitor follows from what each call does, when the calls
  that open and close an object or a vector cancel: \<open>R\<close> relates the states before and after.
\<close>

definition bracket :: "visit \<Rightarrow> bool" where
  "bracket e \<longleftrightarrow> e \<in> {StartSequence, EndSequence, StartVector, EndVector}"

locale visitor_contract =
  fixes visit :: "'v visitor" and R :: "'v \<Rightarrow> 'v \<Rightarrow> bool"
  assumes R_refl: "R v v"
    and R_trans: "R u v \<Longrightarrow> R v w \<Longrightarrow> R u w"
    and visit_plain: "\<not> bracket e \<Longrightarrow> visit e v = Some v' \<Longrightarrow> R v v'"
    and visit_sequence: "visit StartSequence v = Some v1 \<Longrightarrow> R v1 v2 \<Longrightarrow> visit EndSequence v2 = Some v3 \<Longrightarrow> R v v3"
    and visit_vector: "visit StartVector v = Some v1 \<Longrightarrow> R v1 v2 \<Longrightarrow> visit EndVector v2 = Some v3 \<Longrightarrow> R v v3"
begin

lemma scalar_R:
  assumes "iterate_scalar env visit buf type val table v = Some v'"
  shows "R v v'"
proof -
  obtain e where "\<not> bracket e" "visit e v = Some v'"
    using assms by (cases type) (auto simp: iterate_scalar_def bracket_def split: bind_splits)
  then show ?thesis by (rule visit_plain)
qed

lemma loop_R:
  assumes "\<And>x s s'. f x s = Some s' \<Longrightarrow> R (state s) (state s')" and "option_loop f xs s = Some s'"
  shows "R (state s) (state s')"
  using assms(2)
proof (induction xs arbitrary: s)
  case (Cons x xs)
  then show ?case by (auto split: bind_splits intro: R_trans [OF assms(1)])
qed (simp add: R_refl)

lemma value_R:
  assumes rec: "\<And>p t v v'. rec p t v = Some v' \<Longrightarrow> R v v'"
    and "iterate_value rec env visit buf type val table prev vi v = Some v'"
  shows "R v v'"
proof -
  have u: "iterate_union rec env visit buf p tt prev vi v = Some v' \<Longrightarrow> R v v'" for p tt
    by (auto simp: iterate_union_def bracket_def split: bind_splits if_splits intro: rec
        visit_plain [of "Visit_String p"] visit_plain [of "Visit_Unknown p"])
  then show ?thesis
    using assms(2) by (auto simp: iterate_value_def split: bind_splits if_splits intro: rec scalar_R)
qed

lemma element_R:
  assumes rec: "\<And>p t v v'. rec p t v = Some v' \<Longrightarrow> R v v'"
    and "iterate_element rec env visit buf type ref prev j s = Some s'"
  shows "R (snd s) (snd s')"
proof -
  obtain v1 where v: "visit (Visit_Element (of_nat j) type ref (fst s)) (snd s) = Some v1"
    and i: "iterate_value rec env visit buf type (fst s) ref prev (of_nat j) v1 = Some (snd s')"
    using assms(2) by (auto simp: iterate_element_def Let_def split: bind_splits)
  show ?thesis by (rule R_trans [OF visit_plain [OF _ v] value_R [OF rec i]]) (simp add: bracket_def)
qed

lemma present_R:
  assumes rec: "\<And>p t v v'. rec p t v = Some v' \<Longrightarrow> R v v'"
    and "iterate_present rec env visit buf tt code ref val s = Some s'"
  shows "R (visitor_state s) (visitor_state s')"
proof (cases "is_repeating code")
  case True
  then obtain v1 elem_ptr prev n p v2 where v1: "visit StartVector (visitor_state s) = Some v1"
    and l: "option_loop (iterate_element rec env visit buf (base_type code) ref prev) [0..<n] (elem_ptr, v1) = Some (p, v2)"
    and v3: "visit EndVector v2 = Some (visitor_state s')"
    using assms(2) by (auto simp: iterate_present_def Let_def split: bind_splits if_splits prod.splits)
  have "R v1 v2" using loop_R [where state = snd, OF element_R [OF rec] l] by simp
  then show ?thesis by (rule visit_vector [OF v1 _ v3])
next
  case False
  then show ?thesis
    using assms(2) by (auto simp: iterate_present_def Let_def split: bind_splits intro: value_R [OF rec])
qed

lemma field_R:
  assumes rec: "\<And>p t v v'. rec p t v = Some v' \<Longrightarrow> R v v'"
    and "iterate_field rec env visit buf obj tt i s = Some s'"
  shows "R (visitor_state s) (visitor_state s')"
proof -
  obtain code ref name val v where
      v: "visit (Visit_Field (of_nat i) (set_idx s) (base_type code) (is_repeating code) ref name val) (visitor_state s) = Some v"
    and r: "(case val of None \<Rightarrow> Some (s\<lparr>visitor_state := v, prev_val := None\<rparr>)
      | Some val \<Rightarrow> iterate_present rec env visit buf tt code ref val (s\<lparr>visitor_state := v\<rparr>)) = Some s'"
    using assms(2) unfolding iterate_field_def Let_def bind_eq_Some_conv by blast
  have "R v (visitor_state s')"
    using r present_R [where s = "s\<lparr>visitor_state := v\<rparr>" and s' = s', OF rec] R_refl
    by (auto split: option.splits)
  from R_trans [OF visit_plain [OF _ v] this] show ?thesis by (simp add: bracket_def)
qed

lemma object_R:
  assumes "iterate_object env visit buf obj t v = Some v'"
  shows "R v v'"
proof -
  have "visit = visit \<longrightarrow> R v v'"
  proof (rule iterate_object.raw_induct [where P = "\<lambda>_ vis _ _ _ v v'. vis = visit \<longrightarrow> R v v'", OF _ assms], rule impI)
    fix rec env vis buf obj t v v'
    assume step: "\<And>env vis buf obj t v v'. rec env vis buf obj t v = Some v' \<Longrightarrow> vis = visit \<longrightarrow> R v v'"
      and body: "do {
        v \<leftarrow> vis StartSequence v;
        s \<leftarrow> option_loop (iterate_field (rec env vis buf) env vis buf obj (env t)) [0..<unat (tt_num_elems (env t))]
          \<lparr>prev_val = None, set_idx = 0, array_idx = 0, visitor_state = v\<rparr>;
        vis EndSequence (visitor_state s)
      } = Some v'"
      and vis: "vis = visit"
    have r: "rec env visit buf p t v = Some v' \<Longrightarrow> R v v'" for p t v v' using step vis by blast
    obtain v1 s where v1: "visit StartSequence v = Some v1"
      and l: "option_loop (iterate_field (rec env visit buf) env visit buf obj (env t)) [0..<unat (tt_num_elems (env t))]
        \<lparr>prev_val = None, set_idx = 0, array_idx = 0, visitor_state = v1\<rparr> = Some s"
      and v3: "visit EndSequence (visitor_state s) = Some v'"
      using body unfolding vis bind_eq_Some_conv by blast
    have "R v1 (visitor_state s)"
      using loop_R [where state = visitor_state, OF field_R [OF r] l] by simp
    then show "R v v'" by (rule visit_sequence [OF v1 _ v3])
  qed
  then show ?thesis by simp
qed

end

section \<open>What \<open>ToStringVisitor\<close> keeps\<close>

text \<open>The settings and the level are as before, and the text has only grown.\<close>

definition tsv_extends :: "to_string_visitor \<Rightarrow> to_string_visitor \<Rightarrow> bool" where
  "tsv_extends v v' \<longleftrightarrow> (\<exists>x. v' = put_text x v)"

lemma put_text_simps [simp]:
  "put_text x (put_text y v) = put_text (y @ x) v" "put_text [] v = v"
  "indent_by n (put_text x v) = put_text x (indent_by n v)" "indent_by n (indent_by m v) = indent_by (m + n) v"
  "indent_by 0 v = v"
  "ts_d (put_text x v) = ts_d v" "ts_q (put_text x v) = ts_q v" "ts_s (put_text x v) = ts_s v @ x"
  "ts_vector_delimited (put_text x v) = ts_vector_delimited v"
  "ts_vector_delimited (indent_by n v) = ts_vector_delimited v" "ts_d (indent_by n v) = ts_d v"
  by (simp_all add: put_text_def indent_by_def add.assoc)

lemma tsv_extendsI [intro]: "tsv_extends v (put_text x v)"
  by (auto simp: tsv_extends_def)

lemma tsv_extends_refl: "tsv_extends v v"
  by (metis put_text_simps(2) tsv_extendsI)

lemma escape_from_extends:
  assumes "escape_from a n s len i w = Some r"
  shows "\<exists>x. snd r = w @ x"
proof (rule escape_from.raw_induct [where P = "\<lambda>_ _ _ _ _ w r. \<exists>x. snd r = w @ x", OF _ assms])
  fix esc a n s len i w r
  assume step: "\<And>a n s len i w r. esc a n s len i w = Some r \<Longrightarrow> \<exists>x. snd r = w @ x"
    and body: "(if unat i < len then do {
        c \<leftarrow> escape_char a n s i;
        (case c of None \<Rightarrow> Some (False, w) | Some (t, j) \<Rightarrow> esc a n s len (j + 1) (w @ t))
      }
      else Some (True, w @ [0x22])) = Some r"
  show "\<exists>x. snd r = w @ x"
    using body by (auto split: bind_splits if_splits option.splits dest!: step)
qed

lemma tsv_string_extends: "tsv_string buf str v = Some v' \<Longrightarrow> tsv_extends v v'"
  by (auto simp: tsv_string_def escape_string_def tsv_extends_def put_text_def split: bind_splits
      dest!: escape_from_extends)

interpretation tsv: visitor_contract "tsv_visit ftoa dtoa buf" tsv_extends
proof
  show "tsv_extends v v" for v by (rule tsv_extends_refl)
  show "tsv_extends u w" if "tsv_extends u v" "tsv_extends v w" for u v w
    using that by (auto simp: tsv_extends_def)
  show "tsv_extends v v'" if "\<not> bracket e" "tsv_visit ftoa dtoa buf e v = Some v'" for e v v'
    using that by (cases e) (auto simp: bracket_def tsv_named_def tsv_field_def tsv_element_def
        append_indent_def Let_def intro!: tsv_extends_refl split: option.splits dest: tsv_string_extends)
  show "tsv_extends v v3" if "tsv_visit ftoa dtoa buf StartSequence v = Some v1" "tsv_extends v1 v2"
      "tsv_visit ftoa dtoa buf EndSequence v2 = Some v3" for v v1 v2 v3
    using that by (auto simp: tsv_extends_def append_indent_def)
  show "tsv_extends v v3" if "tsv_visit ftoa dtoa buf StartVector v = Some v1" "tsv_extends v1 v2"
      "tsv_visit ftoa dtoa buf EndVector v2 = Some v3" for v v1 v2 v3
    using that by (auto simp: tsv_extends_def append_indent_def tsv_start_vector_def tsv_end_vector_def Let_def)
qed

text \<open>So the level of indentation is balanced, and a walk at any level appends its text.\<close>

lemma to_string_balanced:
  assumes "iterate_object env (tsv_visit ftoa dtoa buf) buf obj t v = Some v'"
  shows "\<exists>x. v' = v\<lparr>ts_s := ts_s v @ x\<rparr>"
  using tsv.object_R [OF assms] by (simp add: tsv_extends_def put_text_def)

declare iterate_object.simps [code] escape_from.simps [code]

text \<open>A table of a number and a name, written as text.\<close>

definition sample_table :: type_table where
  "sample_table = \<lparr>tt_st = ST_TABLE, tt_num_elems = 2,
     tt_type_codes = [\<lparr>base_type = ET_INT, is_repeating = False, sequence_ref = - 1\<rparr>,
                      \<lparr>base_type = ET_STRING, is_repeating = False, sequence_ref = - 1\<rparr>],
     tt_type_refs = [], tt_array_sizes = [], tt_values = None, tt_names = Some [[0x69, 0x64], [0x6E]]\<rparr>"

lemma sample_to_string:
  "flat_buffer_to_string ftoa dtoa (\<lambda>_. sample_table)
     ([12, 0, 0, 0] @ [8, 0, 12, 0, 4, 0, 8, 0] @ [8, 0, 0, 0] @ [7, 0, 0, 0] @ [4, 0, 0, 0] @ [2, 0, 0, 0] @ [0x48, 0x69, 0, 0])
     0 False True =
   Some [0x7B, 0x20, 0x69, 0x64, 0x3A, 0x20, 0x37, 0x2C, 0x20, 0x6E, 0x3A, 0x20, 0x22, 0x48, 0x69, 0x22, 0x20, 0x7D]"
  by code_simp

end
