(* ===== verification/Fx_Base.thy ===== *)
theory Fx_Base
  imports Fb_Base
begin

text \<open>
  \<open>examples/flatbuffers/flexbuffers.h\<close>, the part every other part uses: bit widths, type
  codes, packed types, and integers of any width in memory.  FlexBuffers are buffers without
  a schema: every value carries a type, and its size is the smallest that fits.  Names start
  with \<open>fx_\<close> where FlatBuffers has the same one.
\<close>

section \<open>Bit widths\<close>

datatype bit_width = BIT_WIDTH_8 | BIT_WIDTH_16 | BIT_WIDTH_32 | BIT_WIDTH_64

fun bit_width_code :: "bit_width \<Rightarrow> nat" where
  "bit_width_code BIT_WIDTH_8 = 0"
| "bit_width_code BIT_WIDTH_16 = 1"
| "bit_width_code BIT_WIDTH_32 = 2"
| "bit_width_code BIT_WIDTH_64 = 3"

text \<open>The comparisons of the enumeration, so that \<open>std::max\<close> is \<open>max\<close>.\<close>

instantiation bit_width :: linorder
begin

definition less_eq_bit_width :: "bit_width \<Rightarrow> bit_width \<Rightarrow> bool" where
  "less_eq_bit_width a b \<longleftrightarrow> bit_width_code a \<le> bit_width_code b"

definition less_bit_width :: "bit_width \<Rightarrow> bit_width \<Rightarrow> bool" where
  "less_bit_width a b \<longleftrightarrow> bit_width_code a < bit_width_code b"

lemma bit_width_code_inject: "bit_width_code a = bit_width_code b \<longleftrightarrow> a = b"
  by (cases a; cases b) simp_all

instance
  by standard (auto simp: less_eq_bit_width_def less_bit_width_def bit_width_code_inject)

end

text \<open>\<open>1U << w\<close>: the width in bytes.\<close>

definition width_bytes :: "bit_width \<Rightarrow> nat" where
  "width_bytes w = 2 ^ bit_width_code w"

lemma width_bytes_simps [simp]:
  "width_bytes BIT_WIDTH_8 = 1" "width_bytes BIT_WIDTH_16 = 2"
  "width_bytes BIT_WIDTH_32 = 4" "width_bytes BIT_WIDTH_64 = 8"
  by (simp_all add: width_bytes_def)

lemma bit_width_less_eq [simp]: "v \<le> w \<longleftrightarrow> width_bytes v \<le> width_bytes w" for v w :: bit_width
  by (simp add: less_eq_bit_width_def width_bytes_def)

lemma width_bytes_max: "width_bytes (max v w) = max (width_bytes v) (width_bytes w)"
  by (simp add: max_def)

lemma width_bytes_cases: "width_bytes w \<in> {1, 2, 4, 8}"
  by (cases w) simp_all

lemma width_bytes_inject [simp]: "width_bytes v = width_bytes w \<longleftrightarrow> v = w"
  by (cases v; cases w) simp_all

definition width_u :: "64 word \<Rightarrow> bit_width" where
  "width_u u =
     (if u AND NOT (push_bit 8 1 - 1) = 0 then BIT_WIDTH_8
      else if u AND NOT (push_bit 16 1 - 1) = 0 then BIT_WIDTH_16
      else if u AND NOT (push_bit 32 1 - 1) = 0 then BIT_WIDTH_32
      else BIT_WIDTH_64)"

definition width_i :: "64 word \<Rightarrow> bit_width" where
  "width_i i = (let u = push_bit 1 i in width_u (if 0 \<le> sint i then u else NOT u))"

definition width_b :: "size_t \<Rightarrow> bit_width option" where
  "width_b byte_width =
     (if byte_width = 1 then Some BIT_WIDTH_8 else if byte_width = 2 then Some BIT_WIDTH_16
      else if byte_width = 4 then Some BIT_WIDTH_32 else if byte_width = 8 then Some BIT_WIDTH_64
      else None)"

section \<open>Types\<close>

text \<open>The code of a type may be any number that was read; the enumerators name some.\<close>

type_synonym fx_type = nat

abbreviation (input) FBT_NULL :: fx_type where "FBT_NULL \<equiv> 0"
abbreviation (input) FBT_INT :: fx_type where "FBT_INT \<equiv> 1"
abbreviation (input) FBT_UINT :: fx_type where "FBT_UINT \<equiv> 2"
abbreviation (input) FBT_FLOAT :: fx_type where "FBT_FLOAT \<equiv> 3"
abbreviation (input) FBT_KEY :: fx_type where "FBT_KEY \<equiv> 4"
abbreviation (input) FBT_STRING :: fx_type where "FBT_STRING \<equiv> 5"
abbreviation (input) FBT_INDIRECT_INT :: fx_type where "FBT_INDIRECT_INT \<equiv> 6"
abbreviation (input) FBT_INDIRECT_UINT :: fx_type where "FBT_INDIRECT_UINT \<equiv> 7"
abbreviation (input) FBT_INDIRECT_FLOAT :: fx_type where "FBT_INDIRECT_FLOAT \<equiv> 8"
abbreviation (input) FBT_MAP :: fx_type where "FBT_MAP \<equiv> 9"
abbreviation (input) FBT_VECTOR :: fx_type where "FBT_VECTOR \<equiv> 10"
abbreviation (input) FBT_VECTOR_INT :: fx_type where "FBT_VECTOR_INT \<equiv> 11"
abbreviation (input) FBT_VECTOR_UINT :: fx_type where "FBT_VECTOR_UINT \<equiv> 12"
abbreviation (input) FBT_VECTOR_FLOAT :: fx_type where "FBT_VECTOR_FLOAT \<equiv> 13"
abbreviation (input) FBT_VECTOR_KEY :: fx_type where "FBT_VECTOR_KEY \<equiv> 14"
abbreviation (input) FBT_VECTOR_STRING_DEPRECATED :: fx_type where "FBT_VECTOR_STRING_DEPRECATED \<equiv> 15"
abbreviation (input) FBT_VECTOR_INT2 :: fx_type where "FBT_VECTOR_INT2 \<equiv> 16"
abbreviation (input) FBT_VECTOR_INT3 :: fx_type where "FBT_VECTOR_INT3 \<equiv> 19"
abbreviation (input) FBT_VECTOR_INT4 :: fx_type where "FBT_VECTOR_INT4 \<equiv> 22"
abbreviation (input) FBT_VECTOR_FLOAT4 :: fx_type where "FBT_VECTOR_FLOAT4 \<equiv> 24"
abbreviation (input) FBT_BLOB :: fx_type where "FBT_BLOB \<equiv> 25"
abbreviation (input) FBT_BOOL :: fx_type where "FBT_BOOL \<equiv> 26"
abbreviation (input) FBT_VECTOR_BOOL :: fx_type where "FBT_VECTOR_BOOL \<equiv> 36"
abbreviation (input) FBT_MAX_TYPE :: fx_type where "FBT_MAX_TYPE \<equiv> 37"

definition is_inline :: "fx_type \<Rightarrow> bool" where
  "is_inline t \<longleftrightarrow> t \<le> FBT_FLOAT \<or> t = FBT_BOOL"

definition is_typed_vector_element_type :: "fx_type \<Rightarrow> bool" where
  "is_typed_vector_element_type t \<longleftrightarrow> FBT_INT \<le> t \<and> t \<le> FBT_STRING \<or> t = FBT_BOOL"

definition is_typed_vector :: "fx_type \<Rightarrow> bool" where
  "is_typed_vector t \<longleftrightarrow> FBT_VECTOR_INT \<le> t \<and> t \<le> FBT_VECTOR_STRING_DEPRECATED \<or> t = FBT_VECTOR_BOOL"

definition is_fixed_typed_vector :: "fx_type \<Rightarrow> bool" where
  "is_fixed_typed_vector t \<longleftrightarrow> FBT_VECTOR_INT2 \<le> t \<and> t \<le> FBT_VECTOR_FLOAT4"

definition to_typed_vector :: "fx_type \<Rightarrow> size_t \<Rightarrow> fx_type option" where
  "to_typed_vector t fixed_len =
     (if \<not> is_typed_vector_element_type t then None
      else if fixed_len = 0 then Some (t - FBT_INT + FBT_VECTOR_INT)
      else if fixed_len = 2 then Some (t - FBT_INT + FBT_VECTOR_INT2)
      else if fixed_len = 3 then Some (t - FBT_INT + FBT_VECTOR_INT3)
      else if fixed_len = 4 then Some (t - FBT_INT + FBT_VECTOR_INT4)
      else None)"

definition to_typed_vector_element_type :: "fx_type \<Rightarrow> fx_type option" where
  "to_typed_vector_element_type t =
     (if is_typed_vector t then Some (t - FBT_VECTOR_INT + FBT_INT) else None)"

definition to_fixed_typed_vector_element_type :: "fx_type \<Rightarrow> (fx_type \<times> byte) option" where
  "to_fixed_typed_vector_element_type t =
     (if is_fixed_typed_vector t
      then let fixed_type = t - FBT_VECTOR_INT2 in
        Some (fixed_type mod 3 + FBT_INT, of_nat (fixed_type div 3 + 2))
      else None)"

definition packed_type :: "bit_width \<Rightarrow> fx_type \<Rightarrow> byte" where
  "packed_type w t = of_nat (bit_width_code w) OR push_bit 2 (of_nat t)"

definition null_packed_type :: byte where
  "null_packed_type = packed_type BIT_WIDTH_8 FBT_NULL"

text \<open>What \<open>Reference\<close> takes out of a packed type.\<close>

definition packed_width :: "byte \<Rightarrow> byte" where
  "packed_width packed = of_nat (2 ^ unat (packed AND 3))"

definition packed_fx_type :: "byte \<Rightarrow> fx_type" where
  "packed_fx_type packed = unat (drop_bit 2 packed)"

section \<open>Memory\<close>

text \<open>
  A pointer leads into the buffer, is null, or leads to one of the static arrays that stand
  for the empty objects.
\<close>

datatype fx_region =
  Fx_Buffer | Fx_Null | Empty_String_Data | Empty_Blob_Data | Empty_Vector_Data
| Empty_Typed_Vector_Data | Empty_Fixed_Vector_Data | Empty_Map_Data

type_synonym fx_ptr = "fx_region \<times> size_t"

fun region_bytes :: "byte list \<Rightarrow> fx_region \<Rightarrow> byte list" where
  "region_bytes buf Fx_Buffer = buf"
| "region_bytes buf Fx_Null = []"
| "region_bytes buf Empty_String_Data = [0]"
| "region_bytes buf Empty_Blob_Data = [0]"
| "region_bytes buf Empty_Vector_Data = [0]"
| "region_bytes buf Empty_Typed_Vector_Data = [0]"
| "region_bytes buf Empty_Fixed_Vector_Data = [0]"
| "region_bytes buf Empty_Map_Data = [0, 0, 1, 0]"

definition fx_read :: "nat \<Rightarrow> byte list \<Rightarrow> fx_ptr \<Rightarrow> byte list option" where
  "fx_read n buf p = read_bytes n (region_bytes buf (fst p)) (snd p)"

definition ptr_add :: "fx_ptr \<Rightarrow> size_t \<Rightarrow> fx_ptr" where
  "ptr_add p n = (fst p, snd p + n)"

definition ptr_sub :: "fx_ptr \<Rightarrow> size_t \<Rightarrow> fx_ptr" where
  "ptr_sub p n = (fst p, snd p - n)"

text \<open>\<open>ReadSizedScalar\<close> with its type arguments for signed integers.\<close>

definition read_int64 :: "byte list \<Rightarrow> fx_ptr \<Rightarrow> byte \<Rightarrow> 64 word option" where
  "read_int64 buf p byte_width =
     (if byte_width < 4
      then if byte_width < 2
        then map_option (\<lambda>bs. scast (of_nat (le_nat bs) :: 8 word)) (fx_read 1 buf p)
        else map_option (\<lambda>bs. scast (of_nat (le_nat bs) :: 16 word)) (fx_read 2 buf p)
      else if byte_width < 8
        then map_option (\<lambda>bs. scast (of_nat (le_nat bs) :: 32 word)) (fx_read 4 buf p)
        else map_option (\<lambda>bs. of_nat (le_nat bs)) (fx_read 8 buf p))"

text \<open>The variant for 64-bit Windows: \<open>byte_width\<close> bytes are moved into an integer.\<close>

definition read_uint64 :: "byte list \<Rightarrow> fx_ptr \<Rightarrow> byte \<Rightarrow> 64 word option" where
  "read_uint64 buf p byte_width =
     (if unat byte_width \<le> 8
      then map_option (\<lambda>bs. of_nat (le_nat bs)) (fx_read (unat byte_width) buf p) else None)"

definition fx_indirect :: "byte list \<Rightarrow> fx_ptr \<Rightarrow> byte \<Rightarrow> fx_ptr option" where
  "fx_indirect buf offset byte_width = map_option (ptr_sub offset) (read_uint64 buf offset byte_width)"

section \<open>Widths are minimal\<close>

lemma push_bit_1_minus: "push_bit n 1 - 1 = (mask n :: 64 word)"
  by (simp add: mask_eq_exp_minus_1 push_bit_eq_mult)

lemma above_mask_eq_0: "u AND NOT (mask n) = 0 \<longleftrightarrow> unat u < 2 ^ n" for u :: "64 word"
proof -
  have "u AND NOT (mask n) = 0 \<longleftrightarrow> unat u - unat u mod 2 ^ n = 0"
    using unat_align_down [of u n] by (metis unat_eq_zero)
  also have "\<dots> \<longleftrightarrow> unat u mod 2 ^ n = unat u"
    by (metis diff_is_0_eq diff_self_eq_0 le_antisym mod_less_eq_dividend)
  also have "\<dots> \<longleftrightarrow> unat u < 2 ^ n"
    by (metis mod_less mod_less_divisor zero_less_numeral zero_less_power)
  finally show ?thesis .
qed

lemma width_u_eq:
  "width_u u = (if unat u < 2 ^ 8 then BIT_WIDTH_8 else if unat u < 2 ^ 16 then BIT_WIDTH_16
     else if unat u < 2 ^ 32 then BIT_WIDTH_32 else BIT_WIDTH_64)"
  by (simp only: width_u_def push_bit_1_minus above_mask_eq_0)

text \<open>\<open>WidthU\<close> is the smallest width that holds the number.\<close>

lemma width_u_le: "width_u u \<le> w \<longleftrightarrow> unat u < 256 ^ width_bytes w"
proof -
  have "unat u < 2 ^ 64" by (rule order_less_le_trans [OF unsigned_less]) simp
  then show ?thesis by (cases w) (simp_all add: width_u_eq)
qed

lemma width_u_fits: "unat u < 256 ^ width_bytes (width_u u)"
  using width_u_le [of u "width_u u"] by simp

lemma sint_cases_64:
  fixes i :: "64 word"
  obtains (nonneg) "0 \<le> sint i" "sint i = int (unat i)" "unat i < 2 ^ 63"
  | (neg) "sint i < 0" "sint i = int (unat i) - 2 ^ 64" "2 ^ 63 \<le> unat i" "unat i < 2 ^ 64"
proof (cases "unat i < 2 ^ 63")
  case True
  then have "sint i = int (unat i)" by (intro sint_small) simp
  then show ?thesis using True nonneg by simp
next
  case False
  have u: "unat i < 2 ^ 64" by (rule order_less_le_trans [OF unsigned_less]) simp
  have "unat i div 2 ^ 63 = 1"
    using False u by (simp add: div_nat_eqI)
  then have "int (unat i) div int (2 ^ 63) = 1" by (simp only: flip: zdiv_int)
  then have "bit (uint i) 63" by (simp add: bit_iff_odd)
  then have "sint i = int (unat i) - 2 ^ 64"
    by (simp add: sint_uint signed_take_bit_eq_take_bit_minus unsigned_take_bit_eq [symmetric] take_bit_word_eq_self)
  moreover have "int (unat i) < 2 ^ 64" using u by (metis of_nat_less_iff of_nat_numeral of_nat_power)
  ultimately have s: "sint i < 0" "sint i = int (unat i) - 2 ^ 64" by linarith+
  show ?thesis by (rule neg [OF s leI [OF False] u])
qed

lemma unat_not_64: "unat (NOT x) = 2 ^ 64 - 1 - unat x" for x :: "64 word"
proof -
  have "NOT x = - 1 - x" by (simp add: not_eq_complement)
  moreover have "x \<le> - 1" by simp
  ultimately show ?thesis by (simp only: unat_sub_le) (simp add: unsigned_minus_1_eq_mask mask_eq_exp_minus_1)
qed

text \<open>\<open>WidthI\<close> is the smallest width that holds the number in two's complement.\<close>

lemma width_i_le:
  "width_i i \<le> w \<longleftrightarrow> - (2 ^ (8 * width_bytes w - 1)) \<le> sint i \<and> sint i < 2 ^ (8 * width_bytes w - 1)"
proof (cases i rule: sint_cases_64)
  case nonneg
  have "unat (push_bit 1 i) = 2 * unat i"
    using nonneg(3) by (simp add: push_bit_eq_mult unat_word_ariths)
  then have "width_i i \<le> w \<longleftrightarrow> 2 * unat i < 256 ^ width_bytes w"
    using nonneg(1) width_u_le [of "push_bit 1 i" w] by (simp add: width_i_def Let_def)
  then show ?thesis
    using nonneg(3) unfolding nonneg(2) by (cases w) (simp_all del: of_nat_unat)
next
  case neg
  have "unat (push_bit 1 i) = 2 * unat i mod 2 ^ 64"
    by (simp add: push_bit_eq_mult unat_word_ariths mult.commute)
  also have "\<dots> = 2 * unat i - 2 ^ 64" using neg(3,4) by (simp add: le_mod_geq)
  finally have "unat (NOT (push_bit 1 i)) = 2 ^ 64 - 1 - (2 * unat i - 2 ^ 64)"
    by (simp only: unat_not_64)
  then have "width_i i \<le> w \<longleftrightarrow> 2 ^ 64 - 1 - (2 * unat i - 2 ^ 64) < 256 ^ width_bytes w"
    using neg(1) width_u_le [of "NOT (push_bit 1 i)" w] by (simp add: width_i_def Let_def)
  moreover obtain m where m: "unat i + m = 2 ^ 64" "0 < m" "m \<le> 2 ^ 63" "sint i = - int m"
    using neg by (intro that [of "2 ^ 64 - unat i"]) (simp_all add: of_nat_diff del: of_nat_unat)
  moreover have "N - 1 - (2 * a - N) = 2 * m - 1" if "a + m = N" "2 * m \<le> N" for a N :: nat
    using that m(2) by arith
  from this [OF m(1)] have "2 ^ 64 - 1 - (2 * unat i - 2 ^ 64) = 2 * m - 1" using m(3) by simp
  ultimately have "width_i i \<le> w \<longleftrightarrow> 2 * m - 1 < 256 ^ width_bytes w" by simp
  then show ?thesis using m(2,3) unfolding m(4) by (cases w) auto
qed

section \<open>Reading what was written\<close>

lemma read_uint64_le_bytes:
  assumes "fx_read n buf p = Some (le_bytes n (unat u))" and "unat u < 256 ^ n" and "n \<le> 8" "n = unat w"
  shows "read_uint64 buf p w = Some u"
  using assms by (simp add: read_uint64_def le_nat_le_bytes)

lemma scast_ucast_small:
  fixes i :: "64 word"
  assumes "LENGTH('b::len) \<le> 64" and "- (2 ^ (LENGTH('b) - 1)) \<le> sint i" "sint i < 2 ^ (LENGTH('b) - 1)"
  shows "scast (ucast i :: 'b word) = i"
proof -
  have "sint (ucast i :: 'b word) = signed_take_bit (LENGTH('b) - 1) (sint i)"
  proof -
    have "signed_take_bit (LENGTH('b) - 1) (signed_take_bit 63 (uint i)) = signed_take_bit (LENGTH('b) - 1) (uint i)"
    proof -
      have m: "min (LENGTH('b) - 1) 63 = LENGTH('b) - 1" using assms(1) by simp
      show ?thesis unfolding signed_take_bit_signed_take_bit m by (rule refl)
    qed
    then show ?thesis by (simp add: sint_uint unsigned_ucast_eq signed_take_bit_take_bit)
  qed
  also have "\<dots> = sint i" using assms(2,3) by (intro signed_take_bit_int_eq_self) simp_all
  finally show ?thesis by (simp add: scast_eq)
qed

lemma of_nat_mod_ucast: "of_nat (unat i mod 2 ^ LENGTH('b)) = (ucast i :: 'b::len word)"
  by (rule word_unat_eq_iff [THEN iffD2]) (simp only: unat_of_nat unsigned_ucast_eq, simp add: take_bit_eq_mod)

lemma read_int64_le_bytes:
  assumes "fx_read (width_bytes w) buf p = Some (le_bytes (width_bytes w) (unat i))" and "width_i i \<le> w"
  shows "read_int64 buf p (of_nat (width_bytes w)) = Some i"
proof -
  have r: "- (2 ^ (8 * width_bytes w - 1)) \<le> sint i" "sint i < 2 ^ (8 * width_bytes w - 1)"
    using assms(2) unfolding width_i_le by simp_all
  show ?thesis
  proof (cases w)
    case BIT_WIDTH_8
    then show ?thesis
      using assms(1) r scast_ucast_small [of i, where 'b = 8]
      by (simp add: read_int64_def le_nat_le_bytes of_nat_mod_ucast [where 'b = 8, simplified])
  next
    case BIT_WIDTH_16
    then show ?thesis
      using assms(1) r scast_ucast_small [of i, where 'b = 16]
      by (simp add: read_int64_def le_nat_le_bytes of_nat_mod_ucast [where 'b = 16, simplified])
  next
    case BIT_WIDTH_32
    then show ?thesis
      using assms(1) r scast_ucast_small [of i, where 'b = 32]
      by (simp add: read_int64_def le_nat_le_bytes of_nat_mod_ucast [where 'b = 32, simplified])
  next
    case BIT_WIDTH_64
    have "unat i mod 2 ^ 64 = unat i"
      by (rule mod_less) (rule order_less_le_trans [OF unsigned_less], simp)
    then show ?thesis using assms(1) BIT_WIDTH_64 by (simp add: read_int64_def le_nat_le_bytes)
  qed
qed

section \<open>Packed types\<close>

lemma packed_type_table:
  "list_all (\<lambda>w. list_all (\<lambda>t. packed_width (packed_type w t) = of_nat (width_bytes w) \<and>
     packed_fx_type (packed_type w t) = t) [0..<64]) [BIT_WIDTH_8, BIT_WIDTH_16, BIT_WIDTH_32, BIT_WIDTH_64]"
  by code_simp

lemma packed_width_type:
  assumes "t < 64"
  shows "packed_width (packed_type w t) = of_nat (width_bytes w)" and "packed_fx_type (packed_type w t) = t"
  using packed_type_table assms by (cases w; simp add: list_all_iff del: upt.simps)+

end
