(* ===== verification/Fx_Float.thy ===== *)
theory Fx_Float
  imports Fx_Base
begin

text \<open>
  The floating-point conversions \<open>flexbuffers.h\<close> uses: between \<open>float\<close>, \<open>double\<close> and 64-bit
  integers.  A number is its bit pattern in the IEEE formats of the x86 processors, rounding
  is to nearest, ties to even, and a conversion sets the quiet bit of a NaN.
\<close>

section \<open>Values of bit patterns\<close>

text \<open>\<open>Fp_Fin s m e\<close> is $(-1)^s \cdot m \cdot 2^e$; the fraction of a NaN is left-aligned to 52 bits.\<close>

datatype fp = Fp_Nan bool nat | Fp_Inf bool | Fp_Fin bool nat int

text \<open>A format has \<open>ne\<close> bits of exponent and \<open>nf\<close> bits of fraction.\<close>

definition fp_bias :: "nat \<Rightarrow> int" where
  "fp_bias ne = 2 ^ (ne - 1) - 1"

definition fp_decode :: "nat \<Rightarrow> nat \<Rightarrow> nat \<Rightarrow> fp" where
  "fp_decode ne nf bits =
     (let s = odd (bits div 2 ^ (ne + nf)); e = bits div 2 ^ nf mod 2 ^ ne; f = bits mod 2 ^ nf in
      if e = 2 ^ ne - 1 then if f = 0 then Fp_Inf s else Fp_Nan s (f * 2 ^ (52 - nf))
      else if e = 0 then Fp_Fin s f (1 - fp_bias ne - int nf)
      else Fp_Fin s (2 ^ nf + f) (int e - fp_bias ne - int nf))"

fun bit_length :: "nat \<Rightarrow> nat" where
  "bit_length n = (if n = 0 then 0 else Suc (bit_length (n div 2)))"

declare bit_length.simps [simp del]

text \<open>\<open>m / 2 ^ k\<close>, rounded to the nearest integer, ties to even.\<close>

definition round_shift :: "nat \<Rightarrow> nat \<Rightarrow> nat" where
  "round_shift m k =
     (let q = m div 2 ^ k; r = m mod 2 ^ k in
      if 2 ^ k < 2 * r \<or> 2 ^ k = 2 * r \<and> odd q then q + 1 else q)"

text \<open>
  The bits of a rounded number: \<open>t\<close> is the exponent of the last place.  A carry out of the
  fraction runs into the exponent, as it should; too large a number becomes infinite.
\<close>

definition fp_encode_fin :: "nat \<Rightarrow> nat \<Rightarrow> nat \<Rightarrow> int \<Rightarrow> nat" where
  "fp_encode_fin ne nf m e =
     (if m = 0 then 0 else
      let least = 1 - fp_bias ne - int nf;
          t = max (e + int (bit_length m) - 1 - int nf) least;
          q = (if t \<le> e then m * 2 ^ nat (e - t) else round_shift m (nat (t - e))) in
      min (nat (t - least) * 2 ^ nf + q) ((2 ^ ne - 1) * 2 ^ nf))"

fun fp_encode :: "nat \<Rightarrow> nat \<Rightarrow> fp \<Rightarrow> nat" where
  "fp_encode ne nf (Fp_Nan s f) =
     of_bool s * 2 ^ (ne + nf) + (2 ^ ne - 1) * 2 ^ nf + 2 ^ (nf - 1) + f div 2 ^ (52 - nf) mod 2 ^ (nf - 1)"
| "fp_encode ne nf (Fp_Inf s) = of_bool s * 2 ^ (ne + nf) + (2 ^ ne - 1) * 2 ^ nf"
| "fp_encode ne nf (Fp_Fin s m e) = of_bool s * 2 ^ (ne + nf) + fp_encode_fin ne nf m e"

section \<open>Conversions\<close>

type_synonym float_bits = "32 word"
type_synonym double_bits = "64 word"

definition double_of_float :: "float_bits \<Rightarrow> double_bits" where
  "double_of_float f = of_nat (fp_encode 11 52 (fp_decode 8 23 (unat f)))"

definition float_of_double :: "double_bits \<Rightarrow> float_bits" where
  "float_of_double d = of_nat (fp_encode 8 23 (fp_decode 11 52 (unat d)))"

definition double_of_int :: "int \<Rightarrow> double_bits" where
  "double_of_int i = of_nat (fp_encode 11 52 (Fp_Fin (i < 0) (nat \<bar>i\<bar>) 0))"

text \<open>Conversion to an integer truncates and is undefined where the result has no room.\<close>

definition truncate_double :: "double_bits \<Rightarrow> int option" where
  "truncate_double d =
     (case fp_decode 11 52 (unat d) of
        Fp_Fin s m e \<Rightarrow>
          let v = int (if 0 \<le> e then m * 2 ^ nat e else m div 2 ^ nat (- e)) in Some (if s then - v else v)
      | _ \<Rightarrow> None)"

definition s64_of_double :: "double_bits \<Rightarrow> 64 word option" where
  "s64_of_double d = do {
     v \<leftarrow> truncate_double d;
     (if - (2 ^ 63) \<le> v \<and> v < 2 ^ 63 then Some (of_int v) else None)
   }"

definition u64_of_double :: "double_bits \<Rightarrow> 64 word option" where
  "u64_of_double d = do {
     v \<leftarrow> truncate_double d;
     (if 0 \<le> v \<and> v < 2 ^ 64 then Some (of_int v) else None)
   }"

text \<open>The operator \<open>==\<close>: a NaN equals nothing, the zeros are equal.\<close>

fun fp_eq :: "fp \<Rightarrow> fp \<Rightarrow> bool" where
  "fp_eq (Fp_Inf s) (Fp_Inf t) \<longleftrightarrow> s = t"
| "fp_eq (Fp_Fin s m e) (Fp_Fin t n k) \<longleftrightarrow> m = 0 \<and> n = 0 \<or> s = t \<and> m = n \<and> e = k"
| "fp_eq _ _ \<longleftrightarrow> False"

definition double_eq :: "double_bits \<Rightarrow> double_bits \<Rightarrow> bool" where
  "double_eq a b \<longleftrightarrow> fp_eq (fp_decode 11 52 (unat a)) (fp_decode 11 52 (unat b))"

definition width_f :: "double_bits \<Rightarrow> bit_width" where
  "width_f f = (if double_eq (double_of_float (float_of_double f)) f then BIT_WIDTH_32 else BIT_WIDTH_64)"

end
