(* ===== verification/Fx_Reference.thy ===== *)
theory Fx_Reference
  imports Fx_Float Fb_Vector Fb_Number
begin

text \<open>
  \<open>examples/flatbuffers/flexbuffers.h\<close>: the classes \<open>Object\<close>, \<open>Sized\<close>, \<open>String\<close>, \<open>Blob\<close>,
  \<open>Vector\<close>, \<open>TypedVector\<close>, \<open>FixedTypedVector\<close>, \<open>Map\<close> and \<open>Reference\<close>, which read a FlexBuffer,
  and \<open>GetRoot\<close>.  \<open>strtod\<close> is the conversion of a text to a \<open>double\<close> in \<open>util.h\<close>.
\<close>

section \<open>The objects\<close>

record fx_object =
  ob_data :: fx_ptr
  ob_width :: byte

record fx_sized = fx_object +
  ob_size :: size_t

record fx_typed_vector = fx_sized +
  tv_type :: fx_type

record fx_fixed_vector = fx_object +
  fv_type :: fx_type
  fv_len :: byte

definition read_size :: "byte list \<Rightarrow> fx_ptr \<Rightarrow> byte \<Rightarrow> size_t option" where
  "read_size buf data byte_width = read_uint64 buf (ptr_sub data (ucast byte_width)) byte_width"

definition sized_at :: "byte list \<Rightarrow> fx_ptr \<Rightarrow> byte \<Rightarrow> fx_sized option" where
  "sized_at buf data byte_width = do {
     n \<leftarrow> read_size buf data byte_width;
     Some \<lparr>ob_data = data, ob_width = byte_width, ob_size = n\<rparr>
   }"

definition typed_vector_at :: "byte list \<Rightarrow> fx_ptr \<Rightarrow> byte \<Rightarrow> fx_type \<Rightarrow> fx_typed_vector option" where
  "typed_vector_at buf data byte_width element_type = do {
     n \<leftarrow> read_size buf data byte_width;
     Some \<lparr>ob_data = data, ob_width = byte_width, ob_size = n, tv_type = element_type\<rparr>
   }"

text \<open>The contents of a string: \<open>str\<close> and \<open>c_str\<close>.\<close>

definition fx_string_str :: "byte list \<Rightarrow> fx_sized \<Rightarrow> byte list option" where
  "fx_string_str buf s = fx_read (unat (ob_size s)) buf (ob_data s)"

definition fx_c_string :: "byte list \<Rightarrow> fx_ptr \<Rightarrow> byte list option" where
  "fx_c_string buf p = c_string (region_bytes buf (fst p)) (snd p)"

section \<open>The empty objects\<close>

definition empty_string :: fx_sized where
  "empty_string = \<lparr>ob_data = (Empty_String_Data, 0), ob_width = 1, ob_size = 0\<rparr>"

definition is_the_empty_string :: "fx_sized \<Rightarrow> bool" where
  "is_the_empty_string s \<longleftrightarrow> ob_data s = ob_data empty_string"

definition empty_blob :: "byte list \<Rightarrow> fx_sized option" where
  "empty_blob buf = sized_at buf (Empty_Blob_Data, 1) 1"

definition is_the_empty_blob :: "fx_sized \<Rightarrow> bool" where
  "is_the_empty_blob s \<longleftrightarrow> ob_data s = (Empty_Blob_Data, 1)"

definition empty_vector :: "byte list \<Rightarrow> fx_sized option" where
  "empty_vector buf = sized_at buf (Empty_Vector_Data, 1) 1"

definition is_the_empty_vector :: "fx_sized \<Rightarrow> bool" where
  "is_the_empty_vector s \<longleftrightarrow> ob_data s = (Empty_Vector_Data, 1)"

definition empty_typed_vector :: "byte list \<Rightarrow> fx_typed_vector option" where
  "empty_typed_vector buf = typed_vector_at buf (Empty_Typed_Vector_Data, 1) 1 FBT_INT"

definition is_the_empty_typed_vector :: "fx_typed_vector \<Rightarrow> bool" where
  "is_the_empty_typed_vector s \<longleftrightarrow> ob_data s = (Empty_Typed_Vector_Data, 1)"

definition empty_fixed_typed_vector :: fx_fixed_vector where
  "empty_fixed_typed_vector =
     \<lparr>ob_data = (Empty_Fixed_Vector_Data, 0), ob_width = 1, fv_type = FBT_INT, fv_len = 0\<rparr>"

definition is_the_empty_fixed_typed_vector :: "fx_fixed_vector \<Rightarrow> bool" where
  "is_the_empty_fixed_typed_vector s \<longleftrightarrow> ob_data s = ob_data empty_fixed_typed_vector"

definition empty_map :: "byte list \<Rightarrow> fx_sized option" where
  "empty_map buf = sized_at buf (Empty_Map_Data, 4) 1"

definition is_the_empty_map :: "fx_sized \<Rightarrow> bool" where
  "is_the_empty_map s \<longleftrightarrow> ob_data s = (Empty_Map_Data, 4)"

section \<open>References\<close>

record reference =
  rf_data :: fx_ptr
  rf_parent_width :: byte
  rf_byte_width :: byte
  rf_type :: fx_type

definition null_reference :: reference where
  "null_reference = \<lparr>rf_data = (Fx_Null, 0), rf_parent_width = 0, rf_byte_width = 0, rf_type = FBT_NULL\<rparr>"

definition packed_reference :: "fx_ptr \<Rightarrow> byte \<Rightarrow> byte \<Rightarrow> reference" where
  "packed_reference data parent_width packed =
     \<lparr>rf_data = data, rf_parent_width = parent_width,
      rf_byte_width = packed_width packed, rf_type = packed_fx_type packed\<rparr>"

definition rf_is_null :: "reference \<Rightarrow> bool" where "rf_is_null r \<longleftrightarrow> rf_type r = FBT_NULL"
definition rf_is_bool :: "reference \<Rightarrow> bool" where "rf_is_bool r \<longleftrightarrow> rf_type r = FBT_BOOL"
definition rf_is_int :: "reference \<Rightarrow> bool" where
  "rf_is_int r \<longleftrightarrow> rf_type r = FBT_INT \<or> rf_type r = FBT_INDIRECT_INT"
definition rf_is_uint :: "reference \<Rightarrow> bool" where
  "rf_is_uint r \<longleftrightarrow> rf_type r = FBT_UINT \<or> rf_type r = FBT_INDIRECT_UINT"
definition rf_is_int_or_uint :: "reference \<Rightarrow> bool" where
  "rf_is_int_or_uint r \<longleftrightarrow> rf_is_int r \<or> rf_is_uint r"
definition rf_is_float :: "reference \<Rightarrow> bool" where
  "rf_is_float r \<longleftrightarrow> rf_type r = FBT_FLOAT \<or> rf_type r = FBT_INDIRECT_FLOAT"
definition rf_is_numeric :: "reference \<Rightarrow> bool" where
  "rf_is_numeric r \<longleftrightarrow> rf_is_int_or_uint r \<or> rf_is_float r"
definition rf_is_string :: "reference \<Rightarrow> bool" where "rf_is_string r \<longleftrightarrow> rf_type r = FBT_STRING"
definition rf_is_key :: "reference \<Rightarrow> bool" where "rf_is_key r \<longleftrightarrow> rf_type r = FBT_KEY"
definition rf_is_vector :: "reference \<Rightarrow> bool" where
  "rf_is_vector r \<longleftrightarrow> rf_type r = FBT_VECTOR \<or> rf_type r = FBT_MAP"
definition rf_is_untyped_vector :: "reference \<Rightarrow> bool" where
  "rf_is_untyped_vector r \<longleftrightarrow> rf_type r = FBT_VECTOR"
definition rf_is_typed_vector :: "reference \<Rightarrow> bool" where
  "rf_is_typed_vector r \<longleftrightarrow> is_typed_vector (rf_type r)"
definition rf_is_fixed_typed_vector :: "reference \<Rightarrow> bool" where
  "rf_is_fixed_typed_vector r \<longleftrightarrow> is_fixed_typed_vector (rf_type r)"
definition rf_is_any_vector :: "reference \<Rightarrow> bool" where
  "rf_is_any_vector r \<longleftrightarrow> rf_is_typed_vector r \<or> rf_is_fixed_typed_vector r \<or> rf_is_vector r"
definition rf_is_map :: "reference \<Rightarrow> bool" where "rf_is_map r \<longleftrightarrow> rf_type r = FBT_MAP"
definition rf_is_blob :: "reference \<Rightarrow> bool" where "rf_is_blob r \<longleftrightarrow> rf_type r = FBT_BLOB"

definition rf_indirect :: "byte list \<Rightarrow> reference \<Rightarrow> fx_ptr option" where
  "rf_indirect buf r = fx_indirect buf (rf_data r) (rf_parent_width r)"

section \<open>Strings, blobs, vectors and maps\<close>

definition as_key :: "byte list \<Rightarrow> reference \<Rightarrow> fx_ptr option" where
  "as_key buf r =
     (if rf_type r = FBT_KEY \<or> rf_type r = FBT_STRING then rf_indirect buf r
      else Some (Empty_String_Data, 0))"

definition as_string :: "byte list \<Rightarrow> reference \<Rightarrow> fx_sized option" where
  "as_string buf r =
     (if rf_type r = FBT_STRING then do { p \<leftarrow> rf_indirect buf r; sized_at buf p (rf_byte_width r) }
      else if rf_type r = FBT_KEY then do {
        key \<leftarrow> rf_indirect buf r;
        s \<leftarrow> fx_c_string buf key;
        Some \<lparr>ob_data = key, ob_width = rf_byte_width r, ob_size = of_nat (length s)\<rparr>
      }
      else Some empty_string)"

definition as_blob :: "byte list \<Rightarrow> reference \<Rightarrow> fx_sized option" where
  "as_blob buf r =
     (if rf_type r = FBT_BLOB \<or> rf_type r = FBT_STRING
      then do { p \<leftarrow> rf_indirect buf r; sized_at buf p (rf_byte_width r) }
      else empty_blob buf)"

definition as_vector :: "byte list \<Rightarrow> reference \<Rightarrow> fx_sized option" where
  "as_vector buf r =
     (if rf_type r = FBT_VECTOR \<or> rf_type r = FBT_MAP
      then do { p \<leftarrow> rf_indirect buf r; sized_at buf p (rf_byte_width r) }
      else empty_vector buf)"

definition as_typed_vector :: "byte list \<Rightarrow> reference \<Rightarrow> fx_typed_vector option" where
  "as_typed_vector buf r =
     (if rf_is_typed_vector r then do {
        p \<leftarrow> rf_indirect buf r;
        t \<leftarrow> to_typed_vector_element_type (rf_type r);
        tv \<leftarrow> typed_vector_at buf p (rf_byte_width r) t;
        Some (if tv_type tv = FBT_STRING then tv\<lparr>tv_type := FBT_KEY\<rparr> else tv)
      }
      else empty_typed_vector buf)"

definition as_fixed_typed_vector :: "byte list \<Rightarrow> reference \<Rightarrow> fx_fixed_vector option" where
  "as_fixed_typed_vector buf r =
     (if rf_is_fixed_typed_vector r then do {
        (vtype, len) \<leftarrow> to_fixed_typed_vector_element_type (rf_type r);
        p \<leftarrow> rf_indirect buf r;
        Some \<lparr>ob_data = p, ob_width = rf_byte_width r, fv_type = vtype, fv_len = len\<rparr>
      }
      else Some empty_fixed_typed_vector)"

definition as_map :: "byte list \<Rightarrow> reference \<Rightarrow> fx_sized option" where
  "as_map buf r =
     (if rf_type r = FBT_MAP then do { p \<leftarrow> rf_indirect buf r; sized_at buf p (rf_byte_width r) }
      else empty_map buf)"

section \<open>Numbers\<close>

definition read_double :: "byte list \<Rightarrow> fx_ptr \<Rightarrow> byte \<Rightarrow> double_bits option" where
  "read_double buf p byte_width =
     (if byte_width < 4
      then if byte_width < 2
        then map_option (\<lambda>bs. double_of_int (sint (of_nat (le_nat bs) :: 8 word))) (fx_read 1 buf p)
        else map_option (\<lambda>bs. double_of_int (sint (of_nat (le_nat bs) :: 16 word))) (fx_read 2 buf p)
      else if byte_width < 8
        then map_option (\<lambda>bs. double_of_float (of_nat (le_nat bs))) (fx_read 4 buf p)
        else map_option (\<lambda>bs. of_nat (le_nat bs)) (fx_read 8 buf p))"

text \<open>The text a number is parsed from when a string is read as a number.\<close>

definition as_c_string :: "byte list \<Rightarrow> reference \<Rightarrow> byte list option" where
  "as_c_string buf r = do { s \<leftarrow> as_string buf r; fx_c_string buf (ob_data s) }"

definition as_int64 :: "byte list \<Rightarrow> reference \<Rightarrow> 64 word option" where
  "as_int64 buf r =
     (let t = rf_type r in
      if t = FBT_INT then read_int64 buf (rf_data r) (rf_parent_width r)
      else if t = FBT_INDIRECT_INT then do { p \<leftarrow> rf_indirect buf r; read_int64 buf p (rf_byte_width r) }
      else if t = FBT_UINT then read_uint64 buf (rf_data r) (rf_parent_width r)
      else if t = FBT_INDIRECT_UINT then do { p \<leftarrow> rf_indirect buf r; read_uint64 buf p (rf_byte_width r) }
      else if t = FBT_FLOAT then do { d \<leftarrow> read_double buf (rf_data r) (rf_parent_width r); s64_of_double d }
      else if t = FBT_INDIRECT_FLOAT then do {
        p \<leftarrow> rf_indirect buf r; d \<leftarrow> read_double buf p (rf_byte_width r); s64_of_double d }
      else if t = FBT_NULL then Some 0
      else if t = FBT_STRING then map_option (\<lambda>s. of_int (string_to_int s 10)) (as_c_string buf r)
      else if t = FBT_VECTOR then map_option ob_size (as_vector buf r)
      else if t = FBT_BOOL then read_int64 buf (rf_data r) (rf_parent_width r)
      else Some 0)"

definition as_int32 :: "byte list \<Rightarrow> reference \<Rightarrow> 32 word option" where
  "as_int32 buf r = map_option ucast (as_int64 buf r)"
definition as_int16 :: "byte list \<Rightarrow> reference \<Rightarrow> 16 word option" where
  "as_int16 buf r = map_option ucast (as_int64 buf r)"
definition as_int8 :: "byte list \<Rightarrow> reference \<Rightarrow> 8 word option" where
  "as_int8 buf r = map_option ucast (as_int64 buf r)"

definition as_uint64 :: "byte list \<Rightarrow> reference \<Rightarrow> 64 word option" where
  "as_uint64 buf r =
     (let t = rf_type r in
      if t = FBT_UINT then read_uint64 buf (rf_data r) (rf_parent_width r)
      else if t = FBT_INDIRECT_UINT then do { p \<leftarrow> rf_indirect buf r; read_uint64 buf p (rf_byte_width r) }
      else if t = FBT_INT then read_int64 buf (rf_data r) (rf_parent_width r)
      else if t = FBT_INDIRECT_INT then do { p \<leftarrow> rf_indirect buf r; read_int64 buf p (rf_byte_width r) }
      else if t = FBT_FLOAT then do { d \<leftarrow> read_double buf (rf_data r) (rf_parent_width r); u64_of_double d }
      else if t = FBT_INDIRECT_FLOAT then do {
        p \<leftarrow> rf_indirect buf r; d \<leftarrow> read_double buf p (rf_byte_width r); u64_of_double d }
      else if t = FBT_NULL then Some 0
      else if t = FBT_STRING then map_option (\<lambda>s. of_int (string_to_uint s 10)) (as_c_string buf r)
      else if t = FBT_VECTOR then map_option ob_size (as_vector buf r)
      else if t = FBT_BOOL then read_uint64 buf (rf_data r) (rf_parent_width r)
      else Some 0)"

definition as_uint32 :: "byte list \<Rightarrow> reference \<Rightarrow> 32 word option" where
  "as_uint32 buf r = map_option ucast (as_uint64 buf r)"
definition as_uint16 :: "byte list \<Rightarrow> reference \<Rightarrow> 16 word option" where
  "as_uint16 buf r = map_option ucast (as_uint64 buf r)"
definition as_uint8 :: "byte list \<Rightarrow> reference \<Rightarrow> 8 word option" where
  "as_uint8 buf r = map_option ucast (as_uint64 buf r)"

definition as_bool :: "byte list \<Rightarrow> reference \<Rightarrow> bool option" where
  "as_bool buf r =
     map_option (\<lambda>x. x \<noteq> 0)
       (if rf_type r = FBT_BOOL then read_uint64 buf (rf_data r) (rf_parent_width r) else as_uint64 buf r)"

definition as_double :: "(byte list \<Rightarrow> double_bits) \<Rightarrow> byte list \<Rightarrow> reference \<Rightarrow> double_bits option" where
  "as_double strtod buf r =
     (let t = rf_type r in
      if t = FBT_FLOAT then read_double buf (rf_data r) (rf_parent_width r)
      else if t = FBT_INDIRECT_FLOAT then do { p \<leftarrow> rf_indirect buf r; read_double buf p (rf_byte_width r) }
      else if t = FBT_INT then
        map_option (\<lambda>i. double_of_int (sint i)) (read_int64 buf (rf_data r) (rf_parent_width r))
      else if t = FBT_UINT then
        map_option (\<lambda>u. double_of_int (uint u)) (read_uint64 buf (rf_data r) (rf_parent_width r))
      else if t = FBT_INDIRECT_INT then do {
        p \<leftarrow> rf_indirect buf r; map_option (\<lambda>i. double_of_int (sint i)) (read_int64 buf p (rf_byte_width r)) }
      else if t = FBT_INDIRECT_UINT then do {
        p \<leftarrow> rf_indirect buf r; map_option (\<lambda>u. double_of_int (uint u)) (read_uint64 buf p (rf_byte_width r)) }
      else if t = FBT_NULL then Some 0
      else if t = FBT_STRING then map_option strtod (as_c_string buf r)
      else if t = FBT_VECTOR then map_option (\<lambda>v. double_of_int (uint (ob_size v))) (as_vector buf r)
      else if t = FBT_BOOL then
        map_option (\<lambda>u. double_of_int (uint u)) (read_uint64 buf (rf_data r) (rf_parent_width r))
      else Some 0)"

definition as_float :: "(byte list \<Rightarrow> double_bits) \<Rightarrow> byte list \<Rightarrow> reference \<Rightarrow> float_bits option" where
  "as_float strtod buf r = map_option float_of_double (as_double strtod buf r)"

section \<open>Elements\<close>

definition out_of_bounds :: reference where
  "out_of_bounds = packed_reference (Fx_Null, 0) 1 null_packed_type"

definition fx_vector_get :: "byte list \<Rightarrow> fx_sized \<Rightarrow> size_t \<Rightarrow> reference option" where
  "fx_vector_get buf v i =
     (let len = ob_size v; width = ucast (ob_width v) in
      if len \<le> i then Some out_of_bounds
      else do {
        bs \<leftarrow> fx_read 1 buf (ptr_add (ob_data v) (len * width + i));
        Some (packed_reference (ptr_add (ob_data v) (i * width)) (ob_width v) (hd bs))
      })"

definition typed_vector_get :: "fx_typed_vector \<Rightarrow> size_t \<Rightarrow> reference" where
  "typed_vector_get v i =
     (if ob_size v \<le> i then out_of_bounds
      else \<lparr>rf_data = ptr_add (ob_data v) (i * ucast (ob_width v)), rf_parent_width = ob_width v,
            rf_byte_width = 1, rf_type = tv_type v\<rparr>)"

definition fixed_vector_get :: "fx_fixed_vector \<Rightarrow> size_t \<Rightarrow> reference" where
  "fixed_vector_get v i =
     (if ucast (fv_len v) \<le> i then out_of_bounds
      else \<lparr>rf_data = ptr_add (ob_data v) (i * ucast (ob_width v)), rf_parent_width = ob_width v,
            rf_byte_width = 1, rf_type = fv_type v\<rparr>)"

section \<open>Maps\<close>

definition map_values :: "byte list \<Rightarrow> fx_sized \<Rightarrow> fx_sized option" where
  "map_values buf m = sized_at buf (ob_data m) (ob_width m)"

definition map_keys :: "byte list \<Rightarrow> fx_sized \<Rightarrow> fx_typed_vector option" where
  "map_keys buf m = do {
     let keys_offset = ptr_sub (ob_data m) (ucast (ob_width m) * 3);
     p \<leftarrow> fx_indirect buf keys_offset (ob_width m);
     w \<leftarrow> read_uint64 buf (ptr_add keys_offset (ucast (ob_width m))) (ob_width m);
     typed_vector_at buf p (ucast w) FBT_KEY
   }"

text \<open>\<open>strcmp\<close> of two C strings, as a sign.\<close>

definition str_cmp :: "byte list \<Rightarrow> byte list \<Rightarrow> s32" where
  "str_cmp a b = (if string_less_than a b then - 1 else if a = b then 0 else 1)"

definition fx_key_compare :: "byte list \<Rightarrow> fx_region \<Rightarrow> byte \<Rightarrow> byte list \<Rightarrow> size_t \<Rightarrow> s32 option" where
  "fx_key_compare buf r byte_width key elem = do {
     p \<leftarrow> fx_indirect buf (r, elem) byte_width;
     s \<leftarrow> fx_c_string buf p;
     Some (str_cmp key s)
   }"

definition map_get :: "byte list \<Rightarrow> fx_sized \<Rightarrow> byte list \<Rightarrow> reference option" where
  "map_get buf m key = do {
     keys \<leftarrow> map_keys buf m;
     let width = ob_width keys;
     (if width \<in> {1, 2, 4, 8} then do {
        res \<leftarrow> bsearch (fx_key_compare buf (fst (ob_data keys)) width key) (snd (ob_data keys))
                (unat (ob_size keys)) (ucast width);
        (case res of
           None \<Rightarrow> Some out_of_bounds
         | Some p \<Rightarrow> fx_vector_get buf m ((p - snd (ob_data keys)) div ucast width))
      }
      else None)
   }"

section \<open>The root\<close>

definition fx_get_root :: "byte list \<Rightarrow> size_t \<Rightarrow> reference option" where
  "fx_get_root buf sz = do {
     bw \<leftarrow> fx_read 1 buf (Fx_Buffer, sz - 1);
     pt \<leftarrow> fx_read 1 buf (Fx_Buffer, sz - 2);
     let byte_width = hd bw;
     Some (packed_reference (Fx_Buffer, sz - 2 - ucast byte_width) byte_width (hd pt))
   }"

section \<open>Mutation\<close>

text \<open>
  \<open>Mutate\<close> copies \<open>byte_width\<close> bytes out of a variable of \<open>length bytes\<close> bytes, the bytes of
  \<open>t\<close> in memory.  Only the buffer may be written.
\<close>

definition fx_mutate :: "byte list \<Rightarrow> byte list \<Rightarrow> fx_ptr \<Rightarrow> byte \<Rightarrow> bit_width \<Rightarrow> (bool \<times> byte list) option" where
  "fx_mutate bytes buf dest byte_width value_width =
     (if width_bytes value_width \<le> unat byte_width then
        if unat byte_width \<le> length bytes \<and> fst dest = Fx_Buffer
        then map_option (\<lambda>buf. (True, buf)) (write_bytes (take (unat byte_width) bytes) buf (snd dest))
        else None
      else Some (False, buf))"

definition u64_bytes :: "64 word \<Rightarrow> byte list" where
  "u64_bytes x = le_bytes 8 (unat x)"

definition mutate_f :: "bool \<Rightarrow> double_bits \<Rightarrow> byte list \<Rightarrow> fx_ptr \<Rightarrow> byte \<Rightarrow> bit_width \<Rightarrow> (bool \<times> byte list) option" where
  "mutate_f is_float t buf dest byte_width value_width =
     (let d = (if is_float then double_of_float (ucast t) else t) in
      if byte_width = 8 then fx_mutate (u64_bytes d) buf dest byte_width value_width
      else if byte_width = 4 then
        fx_mutate (u32_bytes (if is_float then ucast t else float_of_double t)) buf dest byte_width value_width
      else None)"

definition mutate_at ::
  "byte list \<Rightarrow> reference \<Rightarrow> bool \<Rightarrow> (fx_ptr \<Rightarrow> byte \<Rightarrow> (bool \<times> byte list) option) \<Rightarrow> (bool \<times> byte list) option" where
  "mutate_at buf r inline f =
     (if inline then f (rf_data r) (rf_parent_width r)
      else do { p \<leftarrow> rf_indirect buf r; f p (rf_byte_width r) })"

definition mutate_int :: "64 word \<Rightarrow> byte list \<Rightarrow> reference \<Rightarrow> (bool \<times> byte list) option" where
  "mutate_int i buf r =
     (if rf_is_int r then
        mutate_at buf r (rf_type r = FBT_INT) (\<lambda>p w. fx_mutate (u64_bytes i) buf p w (width_i i))
      else if rf_is_uint r then
        mutate_at buf r (rf_type r = FBT_UINT) (\<lambda>p w. fx_mutate (u64_bytes i) buf p w (width_u i))
      else Some (False, buf))"

definition mutate_uint :: "64 word \<Rightarrow> byte list \<Rightarrow> reference \<Rightarrow> (bool \<times> byte list) option" where
  "mutate_uint u buf r =
     (if rf_is_uint r then
        mutate_at buf r (rf_type r = FBT_UINT) (\<lambda>p w. fx_mutate (u64_bytes u) buf p w (width_u u))
      else if rf_is_int r then
        mutate_at buf r (rf_type r = FBT_INT) (\<lambda>p w. fx_mutate (u64_bytes u) buf p w (width_i u))
      else Some (False, buf))"

text \<open>A \<open>bool\<close> is one byte of memory.\<close>

definition mutate_bool :: "bool \<Rightarrow> byte list \<Rightarrow> reference \<Rightarrow> (bool \<times> byte list) option" where
  "mutate_bool b buf r =
     (if rf_type r = FBT_BOOL then fx_mutate [of_bool b] buf (rf_data r) (rf_parent_width r) BIT_WIDTH_8
      else Some (False, buf))"

definition mutate_float :: "float_bits \<Rightarrow> byte list \<Rightarrow> reference \<Rightarrow> (bool \<times> byte list) option" where
  "mutate_float f buf r =
     (if rf_is_float r then
        mutate_at buf r (rf_type r = FBT_FLOAT) (\<lambda>p w. mutate_f True (ucast f) buf p w BIT_WIDTH_32)
      else Some (False, buf))"

definition mutate_double :: "double_bits \<Rightarrow> byte list \<Rightarrow> reference \<Rightarrow> (bool \<times> byte list) option" where
  "mutate_double d buf r =
     (if rf_is_float r then
        mutate_at buf r (rf_type r = FBT_FLOAT) (\<lambda>p w. mutate_f False d buf p w (width_f d))
      else Some (False, buf))"

definition mutate_string :: "byte list \<Rightarrow> byte list \<Rightarrow> reference \<Rightarrow> (bool \<times> byte list) option" where
  "mutate_string str buf r = do {
     s \<leftarrow> as_string buf r;
     (if is_the_empty_string s \<or> unat (ob_size s) \<noteq> length str then Some (False, buf)
      else if fst (ob_data s) = Fx_Buffer
        then map_option (\<lambda>buf. (True, buf)) (write_bytes str buf (snd (ob_data s)))
        else None)
   }"

end
