(* ===== verification/Fx_Verifier.thy ===== *)
theory Fx_Verifier
  imports Fx_Reference
begin

text \<open>
  \<open>examples/flatbuffers/flexbuffers.h\<close>: the class \<open>Verifier\<close>, which checks a FlexBuffer before
  it is read.  Pointers into the buffer are offsets.  The methods call each other through
  \<open>VerifyRef\<close>; its recursion is bounded by \<open>max_depth_\<close>, and the definition has the number of
  calls still allowed as an argument (\<open>None\<close> when it is used up, as for a read outside the
  buffer).
\<close>

section \<open>State\<close>

record fx_verifier =
  fxv_buf :: "byte list"
  fxv_size :: size_t
  fxv_depth :: size_t
  fxv_max_depth :: size_t
  fxv_num_vectors :: size_t
  fxv_max_vectors :: size_t
  fxv_check_alignment :: bool
  fxv_tracker :: "byte list option"

definition fx_verifier_new :: "byte list \<Rightarrow> size_t \<Rightarrow> bool \<Rightarrow> bool \<Rightarrow> size_t \<Rightarrow> fx_verifier option" where
  "fx_verifier_new buf buf_len reuse check_align depth_limit =
     (if buf_len < FLATBUFFERS_MAX_BUFFER_SIZE
      then Some \<lparr>fxv_buf = buf, fxv_size = buf_len, fxv_depth = 0, fxv_max_depth = depth_limit,
        fxv_num_vectors = 0, fxv_max_vectors = buf_len, fxv_check_alignment = check_align,
        fxv_tracker = (if reuse then Some (replicate (unat buf_len) (packed_type BIT_WIDTH_8 FBT_NULL)) else None)\<rparr>
      else None)"

section \<open>Ranges\<close>

definition fxv_from :: "fx_verifier \<Rightarrow> size_t \<Rightarrow> size_t \<Rightarrow> bool" where
  "fxv_from v elem elem_len \<longleftrightarrow> elem_len < fxv_size v \<and> elem \<le> fxv_size v - elem_len"

definition fxv_before :: "size_t \<Rightarrow> size_t \<Rightarrow> bool" where
  "fxv_before elem elem_len \<longleftrightarrow> elem_len \<le> elem"

definition fxv_byte_width :: "size_t \<Rightarrow> bool" where
  "fxv_byte_width width \<longleftrightarrow> width = 1 \<or> width = 2 \<or> width = 4 \<or> width = 8"

definition fxv_type :: "fx_type \<Rightarrow> bool" where
  "fxv_type t \<longleftrightarrow> t < FBT_MAX_TYPE"

definition fxv_offset :: "fx_verifier \<Rightarrow> 64 word \<Rightarrow> size_t \<Rightarrow> bool" where
  "fxv_offset v off p \<longleftrightarrow> off \<le> fxv_size v \<and> off \<le> p"

definition fxv_alignment :: "fx_verifier \<Rightarrow> size_t \<Rightarrow> size_t \<Rightarrow> bool" where
  "fxv_alignment v p sz \<longleftrightarrow> p AND (sz - 1) = 0 \<or> \<not> fxv_check_alignment v"

section \<open>The tracker\<close>

text \<open>
  \<open>FLEX_CHECK_VERIFIED\<close>: \<open>Some res\<close> makes the calling function return \<open>res\<close>.  The packed type is
  computed only when there is a tracker.
\<close>

definition fxv_check_verified :: "size_t \<Rightarrow> byte option \<Rightarrow> fx_verifier \<Rightarrow> (bool option \<times> fx_verifier) option" where
  "fxv_check_verified p packed v =
     (case fxv_tracker v of
        None \<Rightarrow> Some (None, v)
      | Some tracker \<Rightarrow> do {
          packed \<leftarrow> packed;
          (if length tracker \<le> unat p then None
           else let existing = tracker ! unat p in
             if existing = packed then Some (Some True, v)
             else if existing \<noteq> 0 then Some (Some False, v)
             else Some (None, v\<lparr>fxv_tracker := Some (tracker[unat p := packed])\<rparr>))
        })"

section \<open>Vectors, keys and references\<close>

type_synonym fx_check = "fx_verifier \<Rightarrow> (bool \<times> fx_verifier) option"

text \<open>A loop that returns false at the first element that fails.\<close>

fun fxv_all :: "(size_t \<Rightarrow> fx_check) \<Rightarrow> nat list \<Rightarrow> fx_check" where
  "fxv_all f [] v = Some (True, v)"
| "fxv_all f (i # is) v = do {
     (ok, v) \<leftarrow> f (of_nat i) v;
     (if ok then fxv_all f is v else Some (False, v))
   }"

definition fxv_elem_width :: "reference \<Rightarrow> byte" where
  "fxv_elem_width r = (if rf_type r = FBT_STRING \<or> rf_type r = FBT_BLOB then 1 else rf_byte_width r)"

text \<open>\<open>VerifyVector\<close> after its bounds checks; \<open>rec\<close> is \<open>VerifyRef\<close>.\<close>

definition fxv_elements ::
  "(reference \<Rightarrow> fx_check) \<Rightarrow> reference \<Rightarrow> size_t \<Rightarrow> fx_type \<Rightarrow> size_t \<Rightarrow> fx_check" where
  "fxv_elements rec r p elem_type num_elems v =
     (if elem_type = FBT_NULL then
        if \<not> fxv_from v (p + num_elems * ucast (fxv_elem_width r)) num_elems then Some (False, v)
        else do {
          vec \<leftarrow> sized_at (fxv_buf v) (Fx_Buffer, p) (rf_byte_width r);
          fxv_all (\<lambda>i v. do { e \<leftarrow> fx_vector_get (fxv_buf v) vec i; rec e v }) [0..<unat num_elems] v
        }
      else if elem_type = FBT_KEY then do {
        vec \<leftarrow> typed_vector_at (fxv_buf v) (Fx_Buffer, p) (fxv_elem_width r) FBT_KEY;
        fxv_all (\<lambda>i. rec (typed_vector_get vec i)) [0..<unat num_elems] v
      }
      else if is_inline elem_type then Some (True, v) else None)"

definition fxv_vector :: "(reference \<Rightarrow> fx_check) \<Rightarrow> reference \<Rightarrow> size_t \<Rightarrow> fx_type \<Rightarrow> fx_check" where
  "fxv_vector rec r p elem_type v = do {
     let v = v\<lparr>fxv_depth := fxv_depth v + 1, fxv_num_vectors := fxv_num_vectors v + 1\<rparr>;
     let size_byte_width = rf_byte_width r;
     (if \<not> (fxv_depth v \<le> fxv_max_depth v \<and> fxv_num_vectors v \<le> fxv_max_vectors v) then Some (False, v)
      else if \<not> fxv_before p (ucast size_byte_width) then Some (False, v)
      else do {
        (done, v) \<leftarrow> fxv_check_verified (p - ucast size_byte_width)
          (map_option (\<lambda>w. packed_type w (rf_type r)) (width_b (ucast size_byte_width))) v;
        (case done of
           Some res \<Rightarrow> Some (res, v)
         | None \<Rightarrow> do {
             num_elems \<leftarrow> read_size (fxv_buf v) (Fx_Buffer, p) size_byte_width;
             let elem_byte_width = fxv_elem_width r;
             (if elem_byte_width = 0 then None
              else if \<not> num_elems < (- 1) div ucast elem_byte_width then Some (False, v)
              else if \<not> fxv_from v p (num_elems * ucast elem_byte_width) then Some (False, v)
              else do {
                (ok, v) \<leftarrow> fxv_elements rec r p elem_type num_elems v;
                (if ok then Some (True, v\<lparr>fxv_depth := fxv_depth v - 1\<rparr>) else Some (False, v))
              })
           })
      })
   }"

definition fxv_keys :: "(reference \<Rightarrow> fx_check) \<Rightarrow> size_t \<Rightarrow> byte \<Rightarrow> fx_check" where
  "fxv_keys rec p byte_width v =
     (let width = ucast byte_width in
      if \<not> fxv_before p (width * 3) then Some (False, v)
      else do {
        let p = p - width * 3;
        off \<leftarrow> read_uint64 (fxv_buf v) (Fx_Buffer, p) byte_width;
        (if \<not> fxv_offset v off p then Some (False, v)
         else do {
           w \<leftarrow> read_uint64 (fxv_buf v) (Fx_Buffer, p + width) byte_width;
           let key_byte_width = ucast w;
           (if \<not> fxv_byte_width (ucast key_byte_width) then Some (False, v)
            else fxv_vector rec
              \<lparr>rf_data = (Fx_Buffer, p), rf_parent_width = byte_width,
               rf_byte_width = key_byte_width, rf_type = FBT_VECTOR_KEY\<rparr> (p - off) FBT_KEY v)
         })
      })"

text \<open>The loop of \<open>VerifyKey\<close>: is there a byte that is not zero?\<close>

definition fxv_key :: "size_t \<Rightarrow> fx_check" where
  "fxv_key p v = do {
     (done, v) \<leftarrow> fxv_check_verified p (Some (packed_type BIT_WIDTH_8 FBT_KEY)) v;
     (case done of
        Some res \<Rightarrow> Some (res, v)
      | None \<Rightarrow>
          if list_ex (\<lambda>b. b \<noteq> 0) (drop (unat p) (take (unat (fxv_size v)) (fxv_buf v))) then Some (True, v)
          else if unat (fxv_size v) \<le> length (fxv_buf v) then Some (False, v) else None)
   }"

definition fxv_terminator :: "size_t \<Rightarrow> byte \<Rightarrow> fx_check" where
  "fxv_terminator p byte_width v = do {
     s \<leftarrow> sized_at (fxv_buf v) (Fx_Buffer, p) byte_width;
     Some (fxv_from v p (ob_size s + 1), v)
   }"

definition fxv_target :: "(reference \<Rightarrow> fx_check) \<Rightarrow> reference \<Rightarrow> size_t \<Rightarrow> fx_check" where
  "fxv_target rec r p v =
     (let t = rf_type r in
      if t \<in> {FBT_INDIRECT_INT, FBT_INDIRECT_UINT, FBT_INDIRECT_FLOAT}
      then Some (fxv_from v p (ucast (rf_byte_width r)), v)
      else if t = FBT_KEY then fxv_key p v
      else if t = FBT_MAP then do {
        (ok, v) \<leftarrow> fxv_vector rec r p FBT_NULL v;
        (if ok then fxv_keys rec p (rf_byte_width r) v else Some (False, v))
      }
      else if t = FBT_VECTOR then fxv_vector rec r p FBT_NULL v
      else if t = FBT_VECTOR_INT then fxv_vector rec r p FBT_INT v
      else if t = FBT_VECTOR_BOOL \<or> t = FBT_VECTOR_UINT then fxv_vector rec r p FBT_UINT v
      else if t = FBT_VECTOR_FLOAT then fxv_vector rec r p FBT_FLOAT v
      else if t = FBT_VECTOR_KEY \<or> t = FBT_VECTOR_STRING_DEPRECATED then fxv_vector rec r p FBT_KEY v
      else if t = FBT_BLOB then fxv_vector rec r p FBT_UINT v
      else if t = FBT_STRING then do {
        (ok, v) \<leftarrow> fxv_vector rec r p FBT_UINT v;
        (if ok then fxv_terminator p (rf_byte_width r) v else Some (False, v))
      }
      else if is_fixed_typed_vector t then do {
        (vtype, len) \<leftarrow> to_fixed_typed_vector_element_type t;
        (if \<not> fxv_type vtype then Some (False, v)
         else Some (fxv_from v p (ucast (rf_byte_width r) * ucast len), v))
      }
      else Some (False, v))"

definition fxv_ref :: "(reference \<Rightarrow> fx_check) \<Rightarrow> reference \<Rightarrow> fx_check" where
  "fxv_ref rec r v =
     (if \<not> (fxv_byte_width (ucast (rf_byte_width r)) \<and> fxv_type (rf_type r)) then Some (False, v)
      else if is_inline (rf_type r) then Some (True, v)
      else do {
        off \<leftarrow> read_uint64 (fxv_buf v) (rf_data r) (rf_parent_width r);
        (if \<not> fxv_offset v off (snd (rf_data r)) then Some (False, v)
         else do {
           p \<leftarrow> rf_indirect (fxv_buf v) r;
           (if \<not> fxv_alignment v (snd p) (ucast (rf_byte_width r)) then Some (False, v)
            else fxv_target rec r (snd p) v)
         })
      })"

primrec fx_verify_ref :: "nat \<Rightarrow> reference \<Rightarrow> fx_check" where
  "fx_verify_ref 0 r v = None"
| "fx_verify_ref (Suc k) r v = fxv_ref (fx_verify_ref k) r v"

section \<open>The buffer\<close>

definition fx_verify_buffer :: "nat \<Rightarrow> fx_check" where
  "fx_verify_buffer fuel v =
     (if \<not> 3 \<le> fxv_size v then Some (False, v)
      else do {
        bw \<leftarrow> fx_read 1 (fxv_buf v) (Fx_Buffer, fxv_size v - 1);
        pt \<leftarrow> fx_read 1 (fxv_buf v) (Fx_Buffer, fxv_size v - 2);
        let byte_width = hd bw;
        let end = fxv_size v - 2;
        (if \<not> (fxv_byte_width (ucast byte_width) \<and> ucast byte_width \<le> end) then Some (False, v)
         else fx_verify_ref fuel (packed_reference (Fx_Buffer, end - ucast byte_width) byte_width (hd pt)) v)
      })"

text \<open>The function \<open>VerifyBuffer\<close> with the default depth; one call more than levels of vectors.\<close>

definition fx_verify :: "byte list \<Rightarrow> size_t \<Rightarrow> bool \<Rightarrow> (bool \<times> fx_verifier) option" where
  "fx_verify buf buf_len reuse = do {
     v \<leftarrow> fx_verifier_new buf buf_len reuse True 64;
     fx_verify_buffer (Suc 64) v
   }"

end
