(* ===== verification/Fx_Verifier_Safety.thy ===== *)
theory Fx_Verifier_Safety
  imports Fx_Verifier
begin

text \<open>
  The verifier of FlexBuffers never reads outside the buffer and always returns, whatever the
  bytes.  The contract of one call is stated for the recursive call in the locale
  \<open>fx_callee\<close>, proved for a call one level up, and interpreted on \<open>fx_verify_ref\<close> itself.
\<close>

section \<open>The contract of a check\<close>

definition fxv_inv :: "fx_verifier \<Rightarrow> bool" where
  "fxv_inv v \<longleftrightarrow> unat (fxv_size v) \<le> length (fxv_buf v) \<and> unat (fxv_size v) < 2 ^ 31 \<and>
     unat (fxv_depth v) \<le> unat (fxv_max_depth v) \<and> unat (fxv_max_depth v) < 2 ^ 63 \<and>
     (\<forall>tracker. fxv_tracker v = Some tracker \<longrightarrow> length tracker = unat (fxv_size v))"

text \<open>
  What a successful check leaves alone.  Where the tracker cuts a check short, \<open>VerifyVector\<close>
  returns without decrementing \<open>depth_\<close>.
\<close>

definition fxv_frame :: "fx_verifier \<Rightarrow> fx_verifier \<Rightarrow> bool" where
  "fxv_frame v v' \<longleftrightarrow> fxv_inv v' \<and> fxv_buf v' = fxv_buf v \<and> fxv_size v' = fxv_size v \<and>
     unat (fxv_depth v) \<le> unat (fxv_depth v') \<and> fxv_max_depth v' = fxv_max_depth v"

definition safe_result :: "fx_verifier \<Rightarrow> (bool \<times> fx_verifier) option \<Rightarrow> bool" where
  "safe_result v res \<longleftrightarrow> (case res of None \<Rightarrow> False | Some (ok, v') \<Rightarrow> ok \<longrightarrow> fxv_frame v v')"

definition good_width :: "byte \<Rightarrow> bool" where
  "good_width w \<longleftrightarrow> unat w \<in> {1, 2, 4, 8}"

text \<open>The bytes of the reference itself have been checked.\<close>

definition good_ref :: "fx_verifier \<Rightarrow> reference \<Rightarrow> bool" where
  "good_ref v r \<longleftrightarrow> fst (rf_data r) = Fx_Buffer \<and> good_width (rf_parent_width r) \<and>
     unat (snd (rf_data r)) + unat (rf_parent_width r) \<le> unat (fxv_size v)"

lemma safe_result_False [simp]: "safe_result v (Some (False, v'))"
  by (simp add: safe_result_def)

lemma fxv_frame_refl [simp]: "fxv_frame v v \<longleftrightarrow> fxv_inv v"
  by (auto simp: fxv_frame_def)

lemma safe_result_True [simp]: "safe_result v (Some (ok, v)) \<longleftrightarrow> (ok \<longrightarrow> fxv_inv v)"
  by (auto simp: safe_result_def)

lemma fxv_frame_trans: "fxv_frame u v \<Longrightarrow> fxv_frame v w \<Longrightarrow> fxv_frame u w"
  by (auto simp: fxv_frame_def)

lemma safe_result_trans: "fxv_frame u v \<Longrightarrow> safe_result v res \<Longrightarrow> safe_result u res"
  by (auto simp: safe_result_def intro: fxv_frame_trans split: option.splits)

lemma good_ref_frame: "good_ref v r \<Longrightarrow> fxv_frame v v' \<Longrightarrow> good_ref v' r"
  by (auto simp: good_ref_def fxv_frame_def)

text \<open>A check followed by another when it succeeds.\<close>

lemma safe_result_and:
  assumes "safe_result v res" and "\<And>v'. fxv_frame v v' \<Longrightarrow> res = Some (True, v') \<Longrightarrow> safe_result v' (f v')"
  shows "safe_result v (do { (ok, v) \<leftarrow> res; (if ok then f v else Some (False, v)) })"
proof (cases res)
  case None
  then show ?thesis using assms(1) by (simp add: safe_result_def)
next
  case (Some x)
  then obtain ok v' where x: "res = Some (ok, v')" by (cases x) simp
  then show ?thesis
    using assms(1) safe_result_trans [OF _ assms(2)] by (cases ok) (simp_all add: safe_result_def)
qed

section \<open>Reads\<close>

lemma good_width_le: "good_width w \<Longrightarrow> 1 \<le> unat w \<and> unat w \<le> 8"
  by (auto simp: good_width_def)

lemma read_uint64_defined [ub_intros]:
  assumes "good_width w" and "unat p + unat w \<le> length buf"
  shows "\<exists>x. read_uint64 buf (Fx_Buffer, p) w = Some x"
  using assms good_width_le [OF assms(1)] by (simp add: read_uint64_def fx_read_def read_bytes_defined)

lemma fxv_byte_width_good: "fxv_byte_width (ucast w) \<longleftrightarrow> good_width w" for w :: byte
proof -
  have "ucast w = (of_nat n :: size_t) \<longleftrightarrow> unat w = n" if "n < 256" for n
    using that by (simp add: word_unat_eq_iff unat_of_nat)
  from this [of 1] this [of 2] this [of 4] this [of 8] show ?thesis
    by (simp add: fxv_byte_width_def good_width_def)
qed

lemma width_b_good: "good_width w \<Longrightarrow> \<exists>x. width_b (ucast w) = Some x"
  using fxv_byte_width_good [of w] by (auto simp: fxv_byte_width_def width_b_def)

lemma unat_ptr_less:
  fixes p q :: size_t
  assumes "unat p + unat q < 2 ^ 32"
  shows "unat (p + q) = unat p + unat q"
  using assms by (intro unat_add_small) simp

lemma unat_of_nat_below: "i < unat (n :: size_t) \<Longrightarrow> unat (of_nat i :: size_t) = i"
  by (rule unat_of_nat_small) (erule order_less_trans, rule unsigned_less)

lemma fxv_from_bound:
  assumes "fxv_from v p n" and "fxv_inv v"
  shows "unat p + unat n \<le> unat (fxv_size v)"
proof -
  have n: "n \<le> fxv_size v" and p: "p \<le> fxv_size v - n" using assms(1) by (auto simp: fxv_from_def)
  then show ?thesis using n p by (simp add: word_le_nat_alt unat_sub_le)
qed

lemma read_size_defined:
  assumes "fxv_inv v" and "fxv_before p (ucast w)" and "good_width w" and "unat p \<le> unat (fxv_size v)"
  shows "\<exists>n. read_size (fxv_buf v) (Fx_Buffer, p) w = Some n"
proof -
  have w: "unat w \<le> unat p" using assms(2) by (simp add: fxv_before_def word_le_nat_alt)
  then have "unat (p - ucast w) + unat w = unat p"
    by (simp add: unat_sub_le word_le_nat_alt)
  then show ?thesis
    using assms unfolding read_size_def ptr_sub_def
    by (simp only: fst_conv snd_conv) (rule read_uint64_defined, simp_all add: fxv_inv_def)
qed

section \<open>The tracker and the keys\<close>

lemma fxv_check_verified_safe:
  assumes "fxv_inv v" and "unat p < unat (fxv_size v)" and "packed \<noteq> None"
  obtains res where "fxv_check_verified p packed v = Some (Some res, v)"
  | v' where "fxv_check_verified p packed v = Some (None, v')" "fxv_frame v v'"
      "fxv_num_vectors v' = fxv_num_vectors v" "fxv_max_vectors v' = fxv_max_vectors v"
proof (cases "fxv_tracker v")
  case None
  then show ?thesis using that(2) [of v] assms(1) by (simp add: fxv_check_verified_def)
next
  case (Some tracker)
  then have l: "unat p < length tracker" using assms(1,2) by (simp add: fxv_inv_def)
  obtain b where b: "packed = Some b" using assms(3) by auto
  consider "tracker ! unat p = b" | "tracker ! unat p \<noteq> b" "tracker ! unat p \<noteq> 0"
    | "tracker ! unat p \<noteq> b" "tracker ! unat p = 0" by blast
  then show ?thesis
  proof cases
    case 3
    let ?v' = "v\<lparr>fxv_tracker := Some (tracker[unat p := b])\<rparr>"
    have "fxv_frame v ?v'" using assms(1) Some by (simp add: fxv_frame_def fxv_inv_def)
    then show ?thesis
      using that(2) [of ?v'] 3 l Some b by (simp add: fxv_check_verified_def Let_def)
  qed (use that(1) l Some b in \<open>simp_all add: fxv_check_verified_def Let_def\<close>)
qed

lemma fxv_key_safe:
  assumes "fxv_inv v" and "unat p < unat (fxv_size v)"
  shows "safe_result v (fxv_key p v)"
proof (rule fxv_check_verified_safe [OF assms, of "Some (packed_type BIT_WIDTH_8 FBT_KEY)"])
  fix v'
  assume 2: "fxv_check_verified p (Some (packed_type BIT_WIDTH_8 FBT_KEY)) v = Some (None, v')" "fxv_frame v v'"
  then have "unat (fxv_size v') \<le> length (fxv_buf v')" unfolding fxv_frame_def fxv_inv_def by blast
  then show ?thesis by (simp add: fxv_key_def safe_result_def 2)
qed (use assms(1) in \<open>simp_all add: fxv_key_def\<close>)

lemma fxv_terminator_safe:
  assumes "fxv_inv v" and "fxv_before p (ucast w)" and "good_width w" and "unat p \<le> unat (fxv_size v)"
  shows "safe_result v (fxv_terminator p w v)"
  using read_size_defined [OF assms] assms(1) by (auto simp: fxv_terminator_def sized_at_def)

section \<open>One level\<close>

lemma fxv_all_safe:
  assumes "\<And>i v'. i \<in> set is \<Longrightarrow> fxv_frame v v' \<Longrightarrow> safe_result v' (f (of_nat i) v')" and "fxv_inv v"
  shows "safe_result v (fxv_all f is v)"
  using assms
proof (induction "is" arbitrary: v)
  case Nil
  then show ?case by simp
next
  case (Cons i "is")
  show ?case unfolding fxv_all.simps
  proof (rule safe_result_and)
    show "safe_result v (f (of_nat i) v)" using Cons.prems by simp
    show "safe_result v' (fxv_all f is v')" if "fxv_frame v v'" for v'
      using that Cons.prems by (intro Cons.IH) (auto simp: fxv_frame_def intro: fxv_frame_trans [OF that])
  qed
qed

text \<open>\<open>rec\<close> is a call of \<open>VerifyRef\<close> that may go \<open>level\<close> levels of vectors deeper.\<close>

locale fx_callee =
  fixes rec :: "reference \<Rightarrow> fx_check" and level :: nat
  assumes rec_safe: "fxv_inv v \<Longrightarrow> good_ref v r \<Longrightarrow>
    unat (fxv_max_depth v) < unat (fxv_depth v) + level \<Longrightarrow> safe_result v (rec r v)"
begin

definition may_call :: "fx_verifier \<Rightarrow> bool" where
  "may_call v \<longleftrightarrow> fxv_inv v \<and> unat (fxv_max_depth v) < unat (fxv_depth v) + level"

lemma may_call_frame: "may_call v \<Longrightarrow> fxv_frame v v' \<Longrightarrow> may_call v'"
  by (auto simp: may_call_def fxv_frame_def)

lemma rec_ok: "may_call v \<Longrightarrow> good_ref v r \<Longrightarrow> safe_result v (rec r v)"
  using rec_safe by (simp add: may_call_def)

text \<open>The \<open>i\<close>-th element of a vector of which all the bytes are in the buffer.\<close>

lemma element_bounds:
  fixes n p :: size_t
  assumes "unat p + unat n * unat w \<le> unat (fxv_size v)" and "i < unat n" and "fxv_inv v"
  shows "unat (p + of_nat i * ucast w) = unat p + i * unat (w :: byte)"
    and "unat p + i * unat w + unat w \<le> unat (fxv_size v)"
proof -
  have "Suc i * unat w \<le> unat n * unat w" using assms(2) by (intro mult_right_mono) simp_all
  then show b: "unat p + i * unat w + unat w \<le> unat (fxv_size v)" using assms(1) by simp
  then have iw: "i * unat w < 2 ^ 31" using assms(3) by (simp add: fxv_inv_def)
  have "unat n < 2 ^ 64" by (rule order_less_le_trans [OF unsigned_less]) simp
  then have "i < 2 ^ 64" using assms(2) by simp
  then have "unat (of_nat i * ucast w :: size_t) = i * unat w"
    using iw by (simp add: unat_word_ariths unat_of_nat)
  then show "unat (p + of_nat i * ucast w) = unat p + i * unat w"
    using b assms(3) by (subst unat_ptr_less) (simp_all add: fxv_inv_def)
qed

lemma elements_safe:
  assumes v: "may_call v" and w: "good_width (rf_byte_width r)" "fxv_before p (ucast (rf_byte_width r))"
    and n: "read_size (fxv_buf v) (Fx_Buffer, p) (rf_byte_width r) = Some n"
    and fits: "unat p + unat n * unat (fxv_elem_width r) \<le> unat (fxv_size v)"
    and t: "elem_type \<in> {FBT_NULL, FBT_KEY} \<Longrightarrow> fxv_elem_width r = rf_byte_width r"
      "elem_type \<notin> {FBT_NULL, FBT_KEY} \<Longrightarrow> is_inline elem_type"
  shows "safe_result v (fxv_elements rec r p elem_type n v)"
proof -
  have inv: "fxv_inv v" using v by (simp add: may_call_def)
  let ?w = "rf_byte_width r"
  have good: "good_ref v' \<lparr>rf_data = (Fx_Buffer, p + of_nat i * ucast ?w), rf_parent_width = ?w,
      rf_byte_width = bw, rf_type = ty\<rparr>"
    if "i < unat n" "fxv_elem_width r = ?w" "fxv_frame v v'" for i bw ty v'
    using element_bounds [of p n ?w v i] fits that inv w(1) by (simp add: good_ref_def fxv_frame_def)
  have idx: "\<not> n \<le> of_nat i" if "i < unat n" for i
    using that by (simp add: word_le_nat_alt unat_of_nat_below [OF that])
  consider (null) "elem_type = FBT_NULL" | (key) "elem_type = FBT_KEY" | (inl) "elem_type \<notin> {FBT_NULL, FBT_KEY}"
    by auto
  then show ?thesis
  proof cases
    case null
    then have ew: "fxv_elem_width r = ?w" using t by simp
    let ?vec = "\<lparr>ob_data = (Fx_Buffer, p), ob_width = ?w, ob_size = n\<rparr>"
    have at: "sized_at (fxv_buf v) (Fx_Buffer, p) ?w = Some ?vec" using n by (simp add: sized_at_def)
    show ?thesis
    proof (cases "fxv_from v (p + n * ucast ?w) n")
      case True
      have elem: "safe_result v' (do { e \<leftarrow> fx_vector_get (fxv_buf v') ?vec (of_nat i); rec e v' })"
        if i: "i < unat n" and f: "fxv_frame v v'" for i v'
      proof -
        have "unat (p + n * ucast ?w) + unat n \<le> unat (fxv_size v)" using fxv_from_bound [OF True inv] .
        moreover have "unat (of_nat i :: size_t) = i"
          by (rule unat_of_nat_below [OF i])
        ultimately have "unat (p + (n * ucast ?w + of_nat i)) = unat (p + n * ucast ?w) + i \<and>
            unat (p + n * ucast ?w) + i < length (fxv_buf v)"
          using i inv unfolding add.assoc [symmetric] by (subst unat_ptr_less) (simp_all add: fxv_inv_def)
        then obtain b where "fx_read 1 (fxv_buf v') (Fx_Buffer, p + (n * ucast ?w + of_nat i)) = Some b"
          using f by (auto simp: fx_read_def read_bytes_def fxv_frame_def)
        then have "fx_vector_get (fxv_buf v') ?vec (of_nat i) =
            Some (packed_reference (Fx_Buffer, p + of_nat i * ucast ?w) ?w (hd b))"
          using idx [OF i] by (simp add: fx_vector_get_def ptr_add_def Let_def)
        then show ?thesis
          using rec_ok [OF may_call_frame [OF v f]] good [OF i ew f] by (simp add: packed_reference_def)
      qed
      have "safe_result v (fxv_all (\<lambda>i v. do { e \<leftarrow> fx_vector_get (fxv_buf v) ?vec i; rec e v }) [0..<unat n] v)"
        using elem inv by (intro fxv_all_safe) simp_all
      then show ?thesis using null True ew at by (simp add: fxv_elements_def)
    qed (simp add: null fxv_elements_def ew)
  next
    case key
    then have ew: "fxv_elem_width r = ?w" using t by simp
    let ?vec = "\<lparr>ob_data = (Fx_Buffer, p), ob_width = ?w, ob_size = n, tv_type = FBT_KEY\<rparr>"
    have at: "typed_vector_at (fxv_buf v) (Fx_Buffer, p) ?w FBT_KEY = Some ?vec"
      using n by (simp add: typed_vector_at_def)
    have "safe_result v' (rec (typed_vector_get ?vec (of_nat i)) v')" if i: "i < unat n" and f: "fxv_frame v v'" for i v'
      using rec_ok [OF may_call_frame [OF v f]] good [OF i ew f] idx [OF i]
      by (simp add: typed_vector_get_def ptr_add_def)
    then have "safe_result v (fxv_all (\<lambda>i. rec (typed_vector_get ?vec i)) [0..<unat n] v)"
      using inv by (intro fxv_all_safe) simp_all
    then show ?thesis using key ew at by (simp add: fxv_elements_def)
  next
    case inl
    then show ?thesis using t(2) inv by (simp add: fxv_elements_def)
  qed
qed

lemma vector_safe:
  assumes inv: "fxv_inv v" and lv: "unat (fxv_max_depth v) < unat (fxv_depth v) + Suc level"
    and w: "good_width (rf_byte_width r)" and p: "unat p \<le> unat (fxv_size v)"
    and t: "elem_type \<in> {FBT_NULL, FBT_KEY} \<Longrightarrow> fxv_elem_width r = rf_byte_width r"
      "elem_type \<notin> {FBT_NULL, FBT_KEY} \<Longrightarrow> is_inline elem_type"
  shows "safe_result v (fxv_vector rec r p elem_type v)"
proof -
  let ?w = "rf_byte_width r" and ?ew = "fxv_elem_width r"
  let ?v = "v\<lparr>fxv_depth := fxv_depth v + 1, fxv_num_vectors := fxv_num_vectors v + 1\<rparr>"
  let ?packed = "map_option (\<lambda>w. packed_type w (rf_type r)) (width_b (ucast ?w))"
  show ?thesis
  proof (cases "fxv_depth ?v \<le> fxv_max_depth ?v \<and> fxv_num_vectors ?v \<le> fxv_max_vectors ?v \<and> fxv_before p (ucast ?w)")
    case False
    then show ?thesis by (auto simp: fxv_vector_def Let_def)
  next
    case True
    have d: "unat (fxv_depth v + 1) = unat (fxv_depth v) + 1"
      using inv unat_add_small [of "fxv_depth v" 1] by (simp add: fxv_inv_def)
    have inv': "fxv_inv ?v" using inv True by (simp add: fxv_inv_def word_le_nat_alt)
    have may: "may_call ?v" using inv' lv by (simp add: may_call_def d)
    have before: "unat ?w \<le> unat p" using True by (simp add: fxv_before_def word_le_nat_alt)
    then have "unat (p - ucast ?w) = unat p - unat ?w" by (simp add: unat_sub_le word_le_nat_alt)
    then have q: "unat (p - ucast ?w) < unat (fxv_size ?v)"
      using p before good_width_le [OF w] by simp linarith
    have packed: "?packed \<noteq> None" using width_b_good [OF w] by auto
    have step: "safe_result v (fxv_vector rec r p elem_type v)"
      if c: "fxv_check_verified (p - ucast ?w) ?packed ?v = Some (None, v')" and f: "fxv_frame ?v v'" for v'
    proof -
      have may': "may_call v'" and inv'': "fxv_inv v'"
        using may_call_frame [OF may f] by (simp_all add: may_call_def)
      have sz: "fxv_size v' = fxv_size v" using f by (simp add: fxv_frame_def)
      obtain n where n: "read_size (fxv_buf v') (Fx_Buffer, p) ?w = Some n"
        using read_size_defined [OF inv'' _ w, of p] True p sz by auto
      have ew: "?ew \<noteq> 0" "unat (ucast ?ew :: size_t) = unat ?ew"
        using good_width_le [OF w] by (auto simp: fxv_elem_width_def)
      show ?thesis
      proof (cases "n < (- 1) div ucast ?ew \<and> fxv_from v' p (n * ucast ?ew)")
        case False
        then show ?thesis using True c n ew(1) by (auto simp: fxv_vector_def Let_def)
      next
        case fits: True
        have "unat n < (2 ^ 64 - 1) div unat ?ew"
          using fits by (simp add: word_less_nat_alt unat_div ew(2) unsigned_minus_1_eq_mask mask_eq_exp_minus_1)
        then have "unat n * unat ?ew \<le> (2 ^ 64 - 1) div unat ?ew * unat ?ew" by (intro mult_right_mono) simp_all
        also have "\<dots> \<le> 2 ^ 64 - 1" by (rule div_times_less_eq_dividend)
        finally have "unat n * unat ?ew < 2 ^ 64" by simp
        then have "unat (n * ucast ?ew) = unat n * unat ?ew" by (simp add: unat_word_ariths ew(2))
        then have "unat p + unat n * unat ?ew \<le> unat (fxv_size v')"
          using fxv_from_bound [OF _ inv''] fits by metis
        then have el: "safe_result v' (fxv_elements rec r p elem_type n v')"
          using elements_safe [OF may' w _ n _ t] True by simp
        then obtain ok v'' where e: "fxv_elements rec r p elem_type n v' = Some (ok, v'')"
          and fr: "ok \<Longrightarrow> fxv_frame v' v''"
          by (auto simp: safe_result_def split: option.splits)
        have "fxv_frame v (v''\<lparr>fxv_depth := fxv_depth v'' - 1\<rparr>)" if ok
        proof -
          note f2 = fxv_frame_trans [OF f fr [OF that]]
          then have "unat (fxv_depth v) + 1 \<le> unat (fxv_depth v'')" by (simp add: fxv_frame_def d)
          moreover from this have "unat (fxv_depth v'' - 1) = unat (fxv_depth v'') - 1"
            using unat_sub_le [of 1 "fxv_depth v''"] by (simp add: word_le_nat_alt)
          ultimately show ?thesis using f2 by (auto simp: fxv_frame_def fxv_inv_def)
        qed
        then show ?thesis
          using True c n ew(1) fits e by (auto simp: fxv_vector_def Let_def safe_result_def)
      qed
    qed
    show ?thesis
    proof (rule fxv_check_verified_safe [OF inv' q packed])
      fix res
      assume "fxv_check_verified (p - ucast ?w) ?packed ?v = Some (Some res, ?v)"
      moreover have "fxv_frame v ?v" using inv' by (simp add: fxv_frame_def d)
      ultimately show ?thesis using True by (simp add: fxv_vector_def Let_def safe_result_def)
    qed (rule step)
  qed
qed

lemma vector_before:
  assumes "fxv_vector rec r p elem_type v = Some (True, v')"
  shows "fxv_before p (ucast (rf_byte_width r))"
  using assms by (rule contrapos_pp) (auto simp: fxv_vector_def Let_def)

lemma keys_safe:
  assumes inv: "fxv_inv v" and lv: "unat (fxv_max_depth v) < unat (fxv_depth v) + Suc level"
    and w: "good_width w" and p: "unat p \<le> unat (fxv_size v)"
  shows "safe_result v (fxv_keys rec p w v)"
proof (cases "fxv_before p (ucast w * 3)")
  case False
  then show ?thesis by (simp add: fxv_keys_def Let_def)
next
  case True
  let ?k = "p - ucast w * 3"
  have w8: "unat w \<le> 8" using good_width_le [OF w] by simp
  have w3: "unat (ucast w * 3 :: size_t) = unat w * 3" using w8 by (simp add: unat_word_ariths)
  then have k: "unat ?k + unat w * 3 = unat p"
    using True by (simp add: fxv_before_def word_le_nat_alt unat_sub_le)
  have k1: "unat (?k + ucast w) = unat ?k + unat w"
    using k p inv by (subst unat_ptr_less) (simp_all add: fxv_inv_def)
  have size: "unat p \<le> length (fxv_buf v)" using p inv by (simp add: fxv_inv_def)
  obtain off where off: "read_uint64 (fxv_buf v) (Fx_Buffer, ?k) w = Some off"
    using read_uint64_defined [OF w, of ?k "fxv_buf v"] k size by auto
  obtain kw where kw: "read_uint64 (fxv_buf v) (Fx_Buffer, ?k + ucast w) w = Some kw"
    using read_uint64_defined [OF w, of "?k + ucast w" "fxv_buf v"] k k1 size by auto
  have "unat (?k - off) \<le> unat (fxv_size v)" if "fxv_offset v off ?k"
    using that k p by (simp add: fxv_offset_def word_le_nat_alt unat_sub_le)
  then show ?thesis
    using True off kw inv lv by (auto simp: fxv_keys_def Let_def fxv_byte_width_good fxv_elem_width_def intro!: vector_safe)
qed

lemma target_safe:
  assumes inv: "fxv_inv v" and lv: "unat (fxv_max_depth v) < unat (fxv_depth v) + Suc level"
    and w: "good_width (rf_byte_width r)" and p: "unat p < unat (fxv_size v)"
  shows "safe_result v (fxv_target rec r p v)"
proof -
  let ?t = "rf_type r"
  have vec: "safe_result v (fxv_vector rec r p et v)"
    if "et \<in> {FBT_NULL, FBT_KEY} \<Longrightarrow> ?t \<noteq> FBT_STRING \<and> ?t \<noteq> FBT_BLOB" "et \<notin> {FBT_NULL, FBT_KEY} \<Longrightarrow> is_inline et" for et
    using that p by (intro vector_safe [OF inv lv w]) (auto simp: fxv_elem_width_def)
  have frame: "fxv_inv v' \<and> unat (fxv_max_depth v') < unat (fxv_depth v') + Suc level \<and>
      unat p \<le> unat (fxv_size v')" if "fxv_frame v v'" for v'
    using that lv p by (auto simp: fxv_frame_def)
  consider (map) "?t = FBT_MAP" | (str) "?t = FBT_STRING"
    | (fixed) "is_fixed_typed_vector ?t" "?t \<notin> {FBT_MAP, FBT_STRING}"
    | (key) "?t = FBT_KEY" | (other) "?t \<notin> {FBT_MAP, FBT_STRING, FBT_KEY}" "\<not> is_fixed_typed_vector ?t" by auto
  then show ?thesis
  proof cases
    case map
    have "safe_result v (do { (ok, v) \<leftarrow> fxv_vector rec r p FBT_NULL v;
        (if ok then fxv_keys rec p (rf_byte_width r) v else Some (False, v)) })"
      using frame map by (intro safe_result_and vec keys_safe w) auto
    then show ?thesis using map by (simp add: fxv_target_def)
  next
    case str
    have "safe_result v (do { (ok, v) \<leftarrow> fxv_vector rec r p FBT_UINT v;
        (if ok then fxv_terminator p (rf_byte_width r) v else Some (False, v)) })"
    proof (rule safe_result_and)
      show "safe_result v (fxv_vector rec r p FBT_UINT v)" by (rule vec) (simp_all add: is_inline_def)
    next
      fix v' assume f: "fxv_frame v v'" and ok: "fxv_vector rec r p FBT_UINT v = Some (True, v')"
      have "fxv_before p (ucast (rf_byte_width r))" using ok by (rule vector_before)
      then show "safe_result v' (fxv_terminator p (rf_byte_width r) v')"
        using frame [OF f] w by (intro fxv_terminator_safe) simp_all
    qed
    then show ?thesis using str by (simp add: fxv_target_def)
  next
    case fixed
    then have "?t \<in> {16, 17, 18, 19, 20, 21, 22, 23, 24}" by (simp add: is_fixed_typed_vector_def) presburger
    then have "\<exists>ok. fxv_target rec r p v = Some (ok, v)"
      by (elim insertE emptyE)
        (simp_all add: fxv_target_def is_fixed_typed_vector_def to_fixed_typed_vector_element_type_def fxv_type_def)
    then show ?thesis using inv by auto
  next
    case key
    then show ?thesis using fxv_key_safe [OF inv p] by (simp add: fxv_target_def)
  next
    case other
    have "safe_result v (fxv_vector rec r p et v)" if "et \<in> {1, 2, 3}" for et
      using that by (intro vec) (auto simp: is_inline_def)
    moreover have "safe_result v (fxv_vector rec r p et v)" if "et \<in> {0, 4}" "?t \<noteq> FBT_BLOB" for et
      using that other by (intro vec) auto
    ultimately show ?thesis using other inv by (auto simp: fxv_target_def Let_def)
  qed
qed

lemma ref_safe:
  assumes inv: "fxv_inv v" and good: "good_ref v r"
    and lv: "unat (fxv_max_depth v) < unat (fxv_depth v) + Suc level"
  shows "safe_result v (fxv_ref rec r v)"
proof (cases "good_width (rf_byte_width r) \<and> fxv_type (rf_type r) \<and> \<not> is_inline (rf_type r)")
  case False
  then show ?thesis using inv by (auto simp: fxv_ref_def fxv_byte_width_good)
next
  case True
  obtain q where q: "rf_data r = (Fx_Buffer, q)" using good by (cases "rf_data r") (simp add: good_ref_def)
  then have g: "good_width (rf_parent_width r)" "unat q + unat (rf_parent_width r) \<le> unat (fxv_size v)"
    using good by (simp_all add: good_ref_def)
  then obtain off where off: "read_uint64 (fxv_buf v) (Fx_Buffer, q) (rf_parent_width r) = Some off"
    using read_uint64_defined [OF g(1), of q "fxv_buf v"] inv by (auto simp: fxv_inv_def)
  have "unat (q - off) < unat (fxv_size v)" if "fxv_offset v off q"
  proof -
    have "unat (q - off) = unat q - unat off" using that by (simp add: fxv_offset_def unat_sub_le)
    then show ?thesis using g good_width_le [OF g(1)] by linarith
  qed
  then show ?thesis
    using True q off target_safe [OF inv lv, of r "q - off"]
    by (auto simp: fxv_ref_def rf_indirect_def fx_indirect_def ptr_sub_def fxv_byte_width_good)
qed

end

section \<open>All levels\<close>

lemma fx_callee_verify_ref: "fx_callee (fx_verify_ref k) k"
proof (induction k)
  case 0
  show ?case by standard (simp add: fxv_inv_def)
next
  case (Suc k)
  show ?case by standard (simp add: fx_callee.ref_safe [OF Suc])
qed

interpretation fx_level: fx_callee "fx_verify_ref k" k for k
  by (rule fx_callee_verify_ref)

lemma fx_verify_buffer_safe:
  assumes inv: "fxv_inv v" and "unat (fxv_max_depth v) < unat (fxv_depth v) + fuel"
  shows "safe_result v (fx_verify_buffer fuel v)"
proof (cases "3 \<le> fxv_size v")
  case False
  then show ?thesis by (simp add: fx_verify_buffer_def)
next
  case True
  then have n: "3 \<le> unat (fxv_size v)" "unat (fxv_size v) \<le> length (fxv_buf v)"
    using inv by (simp_all add: word_le_nat_alt fxv_inv_def)
  then have e: "unat (fxv_size v - 1) = unat (fxv_size v) - 1" "unat (fxv_size v - 2) = unat (fxv_size v) - 2"
    by (simp_all add: unat_sub_le word_le_nat_alt)
  have "unat (fxv_size v - 1) + 1 \<le> length (fxv_buf v)" "unat (fxv_size v - 2) + 1 \<le> length (fxv_buf v)"
    using n e by simp_all
  then obtain bw pt where rd: "fx_read 1 (fxv_buf v) (Fx_Buffer, fxv_size v - 1) = Some bw"
    "fx_read 1 (fxv_buf v) (Fx_Buffer, fxv_size v - 2) = Some pt"
    by (simp add: fx_read_def read_bytes_def)
  have "good_ref v (packed_reference (Fx_Buffer, fxv_size v - 2 - ucast (hd bw)) (hd bw) (hd pt))"
    if "good_width (hd bw)" "ucast (hd bw) \<le> fxv_size v - 2"
    using that n e(2) by (simp add: good_ref_def packed_reference_def unat_sub_le word_le_nat_alt)
  then show ?thesis
    using rd True fx_level.rec_safe [OF inv _ assms(2)]
    by (auto simp: fx_verify_buffer_def Let_def fxv_byte_width_good)
qed

text \<open>C38: Verifying a FlexBuffer returns a verdict for every sequence of bytes, without
  reading outside the buffer or the tracker and after at most \<open>max_depth\<close> nested vectors,
  with and without the tracker of positions already verified.\<close>

theorem fx_verify_safe:
  assumes "unat buf_len \<le> length buf" and "buf_len < 0x7fffffff"
  shows "\<exists>ok v. fx_verify buf buf_len reuse = Some (ok, v)"
proof -
  obtain v where v: "fx_verifier_new buf buf_len reuse True 64 = Some v" "fxv_inv v"
      "fxv_depth v = 0" "fxv_max_depth v = 64"
    using assms by (auto simp: fx_verifier_new_def fxv_inv_def word_less_nat_alt)
  then have "safe_result v (fx_verify_buffer (Suc 64) v)" by (intro fx_verify_buffer_safe) simp_all
  then show ?thesis using v(1) by (auto simp: fx_verify_def safe_result_def split: option.splits)
qed

theorem fx_verify_safe_witness:
  "\<exists>ok v. fx_verify [0xFF, 0x28, 1] 3 True = Some (ok, v)"
  by (rule fx_verify_safe) simp_all

end
