(* ===== verification/Fx_Builder.thy ===== *)
theory Fx_Builder
  imports Fx_Float Fb_Vector_Build
begin

text \<open>
  \<open>examples/flatbuffers/flexbuffers.h\<close>: the class \<open>Builder\<close>.  Values are pushed on a stack;
  \<open>EndVector\<close> and \<open>EndMap\<close> write the values since the start of the vector or map to the buffer
  and leave one value that refers to it.  The buffer grows at its end only.  \<open>None\<close> is a failed
  assertion or a read outside the arguments.  The overloads of \<open>Add\<close> and those for standard
  containers call the operations modelled here.
\<close>

section \<open>Values\<close>

text \<open>The union of \<open>i_\<close>, \<open>u_\<close> and \<open>f_\<close> is the 64 bits in memory.\<close>

record fx_value =
  val_bits :: "64 word"
  val_type :: fx_type
  min_bit_width :: bit_width

definition value_null :: fx_value where
  "value_null = \<lparr>val_bits = 0, val_type = FBT_NULL, min_bit_width = BIT_WIDTH_8\<rparr>"

definition value_bool :: "bool \<Rightarrow> fx_value" where
  "value_bool b = \<lparr>val_bits = of_bool b, val_type = FBT_BOOL, min_bit_width = BIT_WIDTH_8\<rparr>"

definition fx_make_value :: "64 word \<Rightarrow> fx_type \<Rightarrow> bit_width \<Rightarrow> fx_value" where
  "fx_make_value u t bw = \<lparr>val_bits = u, val_type = t, min_bit_width = bw\<rparr>"

definition value_float :: "float_bits \<Rightarrow> fx_value" where
  "value_float f = \<lparr>val_bits = double_of_float f, val_type = FBT_FLOAT, min_bit_width = BIT_WIDTH_32\<rparr>"

definition value_double :: "double_bits \<Rightarrow> fx_value" where
  "value_double f = \<lparr>val_bits = f, val_type = FBT_FLOAT, min_bit_width = width_f f\<rparr>"

definition stored_width :: "fx_value \<Rightarrow> bit_width \<Rightarrow> bit_width" where
  "stored_width v parent_bit_width =
     (if is_inline (val_type v) then max (min_bit_width v) parent_bit_width else min_bit_width v)"

definition stored_packed_type :: "fx_value \<Rightarrow> bit_width \<Rightarrow> byte" where
  "stored_packed_type v parent_bit_width = packed_type (stored_width v parent_bit_width) (val_type v)"

text \<open>The loop over the widths of an offset.\<close>

fun offset_width :: "64 word \<Rightarrow> size_t \<Rightarrow> size_t \<Rightarrow> size_t list \<Rightarrow> bit_width option" where
  "offset_width u buf_size elem_index [] = None"
| "offset_width u buf_size elem_index (byte_width # bws) =
     (let offset_loc = buf_size + padding_bytes buf_size byte_width + elem_index * byte_width;
          bit_width = width_u (offset_loc - u) in
      if of_nat (width_bytes bit_width) = byte_width then Some bit_width
      else offset_width u buf_size elem_index bws)"

definition elem_width :: "fx_value \<Rightarrow> size_t \<Rightarrow> size_t \<Rightarrow> bit_width option" where
  "elem_width v buf_size elem_index =
     (if is_inline (val_type v) then Some (min_bit_width v)
      else offset_width (val_bits v) buf_size elem_index [1, 2, 4, 8])"

section \<open>The builder\<close>

record fx_builder =
  fxb_buf :: "byte list"
  fxb_stack :: "fx_value list"
  fxb_finished :: bool
  has_duplicate_keys :: bool
  fxb_flags :: u32
  force_min_bit_width :: bit_width
  key_pool :: "size_t list"
  fx_string_pool :: "(size_t \<times> size_t) list"

definition fxb_new :: "u32 \<Rightarrow> fx_builder" where
  "fxb_new flags = \<lparr>fxb_buf = [], fxb_stack = [], fxb_finished = False, has_duplicate_keys = False,
     fxb_flags = flags, force_min_bit_width = BIT_WIDTH_8, key_pool = [], fx_string_pool = []\<rparr>"

definition share_keys :: "fx_builder \<Rightarrow> bool" where
  "share_keys b \<longleftrightarrow> fxb_flags b AND 1 \<noteq> 0"

definition share_strings :: "fx_builder \<Rightarrow> bool" where
  "share_strings b \<longleftrightarrow> fxb_flags b AND 2 \<noteq> 0"

definition fxb_size :: "fx_builder \<Rightarrow> size_t" where
  "fxb_size b = of_nat (length (fxb_buf b))"

definition fxb_get_buffer :: "fx_builder \<Rightarrow> byte list option" where
  "fxb_get_buffer b = (if fxb_finished b then Some (fxb_buf b) else None)"

definition fxb_clear :: "fx_builder \<Rightarrow> fx_builder" where
  "fxb_clear b = b\<lparr>fxb_buf := [], fxb_stack := [], fxb_finished := False,
     force_min_bit_width := BIT_WIDTH_8, key_pool := [], fx_string_pool := []\<rparr>"

definition fxb_push :: "fx_value \<Rightarrow> fx_builder \<Rightarrow> fx_builder" where
  "fxb_push v b = b\<lparr>fxb_stack := fxb_stack b @ [v]\<rparr>"

section \<open>Writing\<close>

definition fxb_write_bytes :: "byte list \<Rightarrow> fx_builder \<Rightarrow> fx_builder" where
  "fxb_write_bytes bs b = b\<lparr>fxb_buf := fxb_buf b @ bs\<rparr>"

definition fxb_align :: "bit_width \<Rightarrow> fx_builder \<Rightarrow> nat \<times> fx_builder" where
  "fxb_align alignment b =
     (let byte_width = width_bytes alignment in
      (byte_width,
       fxb_write_bytes (replicate (unat (padding_bytes (fxb_size b) (of_nat byte_width))) 0) b))"

text \<open>\<open>Write\<close>: the first \<open>byte_width\<close> bytes of a variable of \<open>n\<close> bytes.\<close>

definition fxb_write :: "nat \<Rightarrow> 64 word \<Rightarrow> nat \<Rightarrow> fx_builder \<Rightarrow> fx_builder option" where
  "fxb_write n x byte_width b =
     (if byte_width \<le> n then Some (fxb_write_bytes (le_bytes byte_width (unat x)) b) else None)"

definition fxb_write_double :: "double_bits \<Rightarrow> nat \<Rightarrow> fx_builder \<Rightarrow> fx_builder option" where
  "fxb_write_double f byte_width b =
     (if byte_width = 8 then fxb_write 8 f byte_width b
      else if byte_width = 4 then fxb_write 4 (ucast (float_of_double f)) byte_width b
      else None)"

definition fxb_write_offset :: "64 word \<Rightarrow> nat \<Rightarrow> fx_builder \<Rightarrow> fx_builder option" where
  "fxb_write_offset off byte_width b =
     (let reloff = fxb_size b - off in
      if byte_width = 8 \<or> reloff < push_bit (byte_width * 8) 1 then fxb_write 8 reloff byte_width b
      else None)"

definition fxb_push_indirect :: "nat \<Rightarrow> 64 word \<Rightarrow> fx_type \<Rightarrow> bit_width \<Rightarrow> fx_builder \<Rightarrow> fx_builder option" where
  "fxb_push_indirect n val t bw b = do {
     let (byte_width, b) = fxb_align bw b;
     let iloc = fxb_size b;
     b \<leftarrow> fxb_write n val byte_width b;
     Some (fxb_push (fx_make_value iloc t bw) b)
   }"

definition fxb_write_any :: "fx_value \<Rightarrow> nat \<Rightarrow> fx_builder \<Rightarrow> fx_builder option" where
  "fxb_write_any val byte_width b =
     (if val_type val \<in> {FBT_NULL, FBT_INT, FBT_BOOL, FBT_UINT} then fxb_write 8 (val_bits val) byte_width b
      else if val_type val = FBT_FLOAT then fxb_write_double (val_bits val) byte_width b
      else fxb_write_offset (val_bits val) byte_width b)"

text \<open>\<open>data\<close> has \<open>len + trailing\<close> readable bytes or more.\<close>

definition fxb_create_blob :: "byte list \<Rightarrow> nat \<Rightarrow> nat \<Rightarrow> fx_type \<Rightarrow> fx_builder \<Rightarrow> (size_t \<times> fx_builder) option" where
  "fxb_create_blob data len trailing t b = do {
     let bit_width = width_u (of_nat len);
     let (byte_width, b) = fxb_align bit_width b;
     b \<leftarrow> fxb_write 8 (of_nat len) byte_width b;
     let sloc = fxb_size b;
     (if len + trailing \<le> length data
      then Some (sloc, fxb_push (fx_make_value sloc t bit_width)
                         (fxb_write_bytes (take (len + trailing) data) b))
      else None)
   }"

section \<open>Scalars\<close>

definition fxb_null :: "fx_builder \<Rightarrow> fx_builder" where
  "fxb_null b = fxb_push value_null b"

definition fxb_int :: "64 word \<Rightarrow> fx_builder \<Rightarrow> fx_builder" where
  "fxb_int i b = fxb_push (fx_make_value i FBT_INT (width_i i)) b"

definition fxb_uint :: "64 word \<Rightarrow> fx_builder \<Rightarrow> fx_builder" where
  "fxb_uint u b = fxb_push (fx_make_value u FBT_UINT (width_u u)) b"

definition fxb_float :: "float_bits \<Rightarrow> fx_builder \<Rightarrow> fx_builder" where
  "fxb_float f b = fxb_push (value_float f) b"

definition fxb_double :: "double_bits \<Rightarrow> fx_builder \<Rightarrow> fx_builder" where
  "fxb_double d b = fxb_push (value_double d) b"

definition fxb_bool :: "bool \<Rightarrow> fx_builder \<Rightarrow> fx_builder" where
  "fxb_bool x b = fxb_push (value_bool x) b"

definition fxb_indirect_int :: "64 word \<Rightarrow> fx_builder \<Rightarrow> fx_builder option" where
  "fxb_indirect_int i b = fxb_push_indirect 8 i FBT_INDIRECT_INT (width_i i) b"

definition fxb_indirect_uint :: "64 word \<Rightarrow> fx_builder \<Rightarrow> fx_builder option" where
  "fxb_indirect_uint u b = fxb_push_indirect 8 u FBT_INDIRECT_UINT (width_u u) b"

definition fxb_indirect_float :: "float_bits \<Rightarrow> fx_builder \<Rightarrow> fx_builder option" where
  "fxb_indirect_float f b = fxb_push_indirect 4 (ucast f) FBT_INDIRECT_FLOAT BIT_WIDTH_32 b"

text \<open>The \<open>double\<close> itself is written, with the width \<open>WidthF\<close> finds for it.\<close>

definition fxb_indirect_double :: "double_bits \<Rightarrow> fx_builder \<Rightarrow> fx_builder option" where
  "fxb_indirect_double d b = fxb_push_indirect 8 d FBT_INDIRECT_FLOAT (width_f d) b"

section \<open>Keys, strings and blobs\<close>

text \<open>The pool of keys is searched with \<open>strcmp\<close> on the buffer.\<close>

fun key_pool_find :: "byte list \<Rightarrow> size_t \<Rightarrow> size_t list \<Rightarrow> size_t option option" where
  "key_pool_find buf k [] = Some None"
| "key_pool_find buf k (x # xs) = do {
     a \<leftarrow> c_string buf k;
     b \<leftarrow> c_string buf x;
     (if \<not> string_less_than a b \<and> \<not> string_less_than b a then Some (Some x) else key_pool_find buf k xs)
   }"

definition fxb_key :: "byte list \<Rightarrow> nat \<Rightarrow> fx_builder \<Rightarrow> (size_t \<times> fx_builder) option" where
  "fxb_key str len b = do {
     let sloc = fxb_size b;
     b' \<leftarrow> (if len + 1 \<le> length str then Some (fxb_write_bytes (take (len + 1) str) b) else None);
     (sloc, b') \<leftarrow> (if share_keys b' then do {
         it \<leftarrow> key_pool_find (fxb_buf b') sloc (key_pool b');
         (case it of
            Some k \<Rightarrow> Some (k, b'\<lparr>fxb_buf := take (unat sloc) (fxb_buf b')\<rparr>)
          | None \<Rightarrow> Some (sloc, b'\<lparr>key_pool := sloc # key_pool b'\<rparr>))
       } else Some (sloc, b'));
     Some (sloc, fxb_push (fx_make_value sloc FBT_KEY BIT_WIDTH_8) b')
   }"

text \<open>\<open>Key\<close> of a C string; \<open>str\<close> is what is readable from the pointer.\<close>

definition fxb_key_cstring :: "byte list \<Rightarrow> fx_builder \<Rightarrow> (size_t \<times> fx_builder) option" where
  "fxb_key_cstring str b =
     (if 0 \<in> set str then fxb_key str (length (takeWhile (\<lambda>c. c \<noteq> 0) str)) b else None)"

definition fx_string_offset_less :: "byte list \<Rightarrow> size_t \<times> size_t \<Rightarrow> size_t \<times> size_t \<Rightarrow> bool option" where
  "fx_string_offset_less buf a b = do {
     let n = unat (min (snd a) (snd b) + 1);
     stra \<leftarrow> read_bytes n buf (fst a);
     strb \<leftarrow> read_bytes n buf (fst b);
     let cr = mem_cmp n stra strb;
     Some (cr < 0 \<or> cr = 0 \<and> snd a < snd b)
   }"

fun fx_string_pool_find ::
  "byte list \<Rightarrow> size_t \<times> size_t \<Rightarrow> (size_t \<times> size_t) list \<Rightarrow> (size_t \<times> size_t) option option" where
  "fx_string_pool_find buf so [] = Some None"
| "fx_string_pool_find buf so (x # xs) = do {
     lt \<leftarrow> fx_string_offset_less buf so x;
     gt \<leftarrow> fx_string_offset_less buf x so;
     (if \<not> lt \<and> \<not> gt then Some (Some x) else fx_string_pool_find buf so xs)
   }"

definition fxb_string :: "byte list \<Rightarrow> nat \<Rightarrow> fx_builder \<Rightarrow> (size_t \<times> fx_builder) option" where
  "fxb_string str len b = do {
     let reset_to = length (fxb_buf b);
     (sloc, b) \<leftarrow> fxb_create_blob str len 1 FBT_STRING b;
     (if share_strings b then do {
        let so = (sloc, of_nat len);
        it \<leftarrow> fx_string_pool_find (fxb_buf b) so (fx_string_pool b);
        (case it of
           Some (first, _) \<Rightarrow>
             Some (first, b\<lparr>fxb_buf := take reset_to (fxb_buf b),
               fxb_stack := butlast (fxb_stack b) @ [(last (fxb_stack b))\<lparr>val_bits := first\<rparr>]\<rparr>)
         | None \<Rightarrow> Some (sloc, b\<lparr>fx_string_pool := so # fx_string_pool b\<rparr>))
      } else Some (sloc, b))
   }"

definition fxb_string_cstring :: "byte list \<Rightarrow> fx_builder \<Rightarrow> (size_t \<times> fx_builder) option" where
  "fxb_string_cstring str b =
     (if 0 \<in> set str then fxb_string str (length (takeWhile (\<lambda>c. c \<noteq> 0) str)) b else None)"

definition fxb_blob :: "byte list \<Rightarrow> nat \<Rightarrow> fx_builder \<Rightarrow> (size_t \<times> fx_builder) option" where
  "fxb_blob data len b = fxb_create_blob data len 0 FBT_BLOB b"

section \<open>Vectors\<close>

definition fxb_start_vector :: "fx_builder \<Rightarrow> nat" where
  "fxb_start_vector b = length (fxb_stack b)"

definition fxb_start_map :: "fx_builder \<Rightarrow> nat" where
  "fxb_start_map b = length (fxb_stack b)"

text \<open>Every \<open>step\<close>-th value of the stack with its index.\<close>

definition every :: "nat \<Rightarrow> 'a list \<Rightarrow> (nat \<times> 'a) list" where
  "every step xs = filter (\<lambda>(i, x). i mod step = 0) (enumerate 0 xs)"

text \<open>The loop that finds the width and, for a typed vector, the type of the elements.\<close>

fun vector_elems :: "size_t \<Rightarrow> nat \<Rightarrow> bool \<Rightarrow> (nat \<times> fx_value) list \<Rightarrow> bit_width \<times> fx_type \<Rightarrow>
    (bit_width \<times> fx_type) option" where
  "vector_elems buf_size prefix_elems typed [] (bw, t) = Some (bw, t)"
| "vector_elems buf_size prefix_elems typed ((i, v) # vs) (bw, t) = do {
     w \<leftarrow> elem_width v buf_size (of_nat (i + prefix_elems));
     t \<leftarrow> (if \<not> typed then Some t else if i = 0 then Some (val_type v)
          else if t = val_type v then Some t else None);
     vector_elems buf_size prefix_elems typed vs (max bw w, t)
   }"

fun write_all :: "(fx_value \<Rightarrow> fx_builder \<Rightarrow> fx_builder option) \<Rightarrow> fx_value list \<Rightarrow> fx_builder \<Rightarrow> fx_builder option" where
  "write_all f [] b = Some b"
| "write_all f (v # vs) b = do { b \<leftarrow> f v b; write_all f vs b }"

definition create_fx_vector ::
  "nat \<Rightarrow> nat \<Rightarrow> nat \<Rightarrow> bool \<Rightarrow> bool \<Rightarrow> fx_value option \<Rightarrow> fx_builder \<Rightarrow> (fx_value \<times> fx_builder) option" where
  "create_fx_vector start vec_len step typed fixed keys b = do {
     (if \<not> fixed \<or> typed then Some () else None);
     let elems = every step (drop start (fxb_stack b));
     let bit_width = max (force_min_bit_width b) (width_u (of_nat vec_len));
     (bit_width, prefix_elems) \<leftarrow> (case keys of
         None \<Rightarrow> Some (bit_width, 1)
       | Some k \<Rightarrow> do { w \<leftarrow> elem_width k (fxb_size b) 0; Some (max bit_width w, 3) });
     (bit_width, vector_type) \<leftarrow> vector_elems (fxb_size b) prefix_elems typed elems (bit_width, FBT_KEY);
     (if \<not> typed \<or> is_typed_vector_element_type vector_type then Some () else None);
     let (byte_width, b) = fxb_align bit_width b;
     b \<leftarrow> (case keys of
         None \<Rightarrow> Some b
       | Some k \<Rightarrow> do {
           b \<leftarrow> fxb_write_offset (val_bits k) byte_width b;
           fxb_write 8 (of_nat (width_bytes (min_bit_width k))) byte_width b
         });
     b \<leftarrow> (if \<not> fixed then fxb_write 8 (of_nat vec_len) byte_width b else Some b);
     let vloc = fxb_size b;
     b \<leftarrow> write_all (\<lambda>v. fxb_write_any v byte_width) (map snd elems) b;
     let b = (if \<not> typed
              then fxb_write_bytes (map (\<lambda>v. stored_packed_type v bit_width) (map snd elems)) b else b);
     t \<leftarrow> (if keys \<noteq> None then Some FBT_MAP
          else if typed then to_typed_vector vector_type (if fixed then of_nat vec_len else 0)
          else Some FBT_VECTOR);
     Some (fx_make_value vloc t bit_width, b)
   }"

definition fxb_end_vector :: "nat \<Rightarrow> bool \<Rightarrow> bool \<Rightarrow> fx_builder \<Rightarrow> (size_t \<times> fx_builder) option" where
  "fxb_end_vector start typed fixed b = do {
     (vec, b) \<leftarrow> create_fx_vector start (length (fxb_stack b) - start) 1 typed fixed None b;
     Some (val_bits vec, b\<lparr>fxb_stack := take start (fxb_stack b) @ [vec]\<rparr>)
   }"

text \<open>\<open>GetScalarType\<close>: the type of the elements, given their C++ type.\<close>

definition get_scalar_type :: "bool \<Rightarrow> bool \<Rightarrow> bool \<Rightarrow> fx_type" where
  "get_scalar_type is_floating_point is_bool is_unsigned =
     (if is_floating_point then FBT_FLOAT else if is_bool then FBT_BOOL
      else if is_unsigned then FBT_UINT else FBT_INT)"

text \<open>The elements are given by their bytes in memory, \<open>byte_width\<close> each.\<close>

definition fxb_scalar_vector :: "fx_type \<Rightarrow> nat \<Rightarrow> byte list list \<Rightarrow> bool \<Rightarrow> fx_builder \<Rightarrow> (size_t \<times> fx_builder) option" where
  "fxb_scalar_vector vector_type byte_width elems fixed b = do {
     bit_width \<leftarrow> width_b (of_nat byte_width);
     (if width_u (of_nat (length elems)) \<le> bit_width then Some () else None);
     let (_, b) = fxb_align bit_width b;
     b \<leftarrow> (if \<not> fixed then fxb_write 8 (of_nat (length elems)) byte_width b else Some b);
     let vloc = fxb_size b;
     let b = fxb_write_bytes (concat elems) b;
     t \<leftarrow> to_typed_vector vector_type (if fixed then of_nat (length elems) else 0);
     Some (vloc, fxb_push (fx_make_value vloc t bit_width) b)
   }"

definition fxb_fixed_typed_vector :: "fx_type \<Rightarrow> nat \<Rightarrow> byte list list \<Rightarrow> fx_builder \<Rightarrow> (size_t \<times> fx_builder) option" where
  "fxb_fixed_typed_vector vector_type byte_width elems b =
     (if 2 \<le> length elems \<and> length elems \<le> 4 then fxb_scalar_vector vector_type byte_width elems True b else None)"

section \<open>Maps\<close>

fun pair_up :: "'a list \<Rightarrow> ('a \<times> 'a) list" where
  "pair_up (k # v # xs) = (k, v) # pair_up xs"
| "pair_up _ = []"

definition key_at :: "byte list \<Rightarrow> fx_value \<Rightarrow> byte list option" where
  "key_at buf k = c_string buf (val_bits k)"

text \<open>
  \<open>std::sort\<close> by the keys.  Its comparison notes duplicates; pairs with equal keys, whose
  order the standard leaves open, stay in the order they were added.
\<close>

definition sort_pairs :: "byte list \<Rightarrow> (fx_value \<times> fx_value) list \<Rightarrow> (fx_value \<times> fx_value) list" where
  "sort_pairs buf =
     stable_sort (\<lambda>a b. string_less_than (the (key_at buf (fst a))) (the (key_at buf (fst b))))"

definition fxb_end_map :: "nat \<Rightarrow> fx_builder \<Rightarrow> (size_t \<times> fx_builder) option" where
  "fxb_end_map start b = do {
     let dict = drop start (fxb_stack b);
     (if even (length dict) \<and> list_all (\<lambda>(k, v). val_type k = FBT_KEY) (pair_up dict) then Some () else None);
     let pairs = pair_up dict;
     let names = map (\<lambda>(k, v). key_at (fxb_buf b) k) pairs;
     (if length pairs < 2 \<or> list_all (\<lambda>n. n \<noteq> None) names then Some () else None);
     let b = b\<lparr>fxb_stack := take start (fxb_stack b) @ concat (map (\<lambda>(k, v). [k, v]) (sort_pairs (fxb_buf b) pairs)),
               has_duplicate_keys := has_duplicate_keys b \<or> \<not> distinct names\<rparr>;
     let len = length pairs;
     (keys, b) \<leftarrow> create_fx_vector start len 2 True False None b;
     (vec, b) \<leftarrow> create_fx_vector (start + 1) len 2 False False (Some keys) b;
     Some (val_bits vec, b\<lparr>fxb_stack := take start (fxb_stack b) @ [vec]\<rparr>)
   }"

section \<open>The callbacks and the rest\<close>

text \<open>\<open>Vector\<close>, \<open>TypedVector\<close> and \<open>Map\<close> run a function between start and end.\<close>

definition fxb_vector_of :: "(fx_builder \<Rightarrow> fx_builder option) \<Rightarrow> fx_builder \<Rightarrow> (size_t \<times> fx_builder) option" where
  "fxb_vector_of f b = do { let start = fxb_start_vector b; b \<leftarrow> f b; fxb_end_vector start False False b }"

definition fxb_typed_vector_of :: "(fx_builder \<Rightarrow> fx_builder option) \<Rightarrow> fx_builder \<Rightarrow> (size_t \<times> fx_builder) option" where
  "fxb_typed_vector_of f b = do { let start = fxb_start_vector b; b \<leftarrow> f b; fxb_end_vector start True False b }"

definition fxb_map_of :: "(fx_builder \<Rightarrow> fx_builder option) \<Rightarrow> fx_builder \<Rightarrow> (size_t \<times> fx_builder) option" where
  "fxb_map_of f b = do { let start = fxb_start_map b; b \<leftarrow> f b; fxb_end_map start b }"

text \<open>The variants that take a key first, for a place in a map.\<close>

definition fxb_keyed :: "byte list \<Rightarrow> (fx_builder \<Rightarrow> 'a option) \<Rightarrow> fx_builder \<Rightarrow> 'a option" where
  "fxb_keyed key f b = do { (_, b) \<leftarrow> fxb_key_cstring key b; f b }"

definition fxb_key_null :: "byte list \<Rightarrow> fx_builder \<Rightarrow> fx_builder option" where
  "fxb_key_null key = fxb_keyed key (\<lambda>b. Some (fxb_null b))"

definition fxb_key_int :: "byte list \<Rightarrow> 64 word \<Rightarrow> fx_builder \<Rightarrow> fx_builder option" where
  "fxb_key_int key i = fxb_keyed key (\<lambda>b. Some (fxb_int i b))"

definition fxb_key_uint :: "byte list \<Rightarrow> 64 word \<Rightarrow> fx_builder \<Rightarrow> fx_builder option" where
  "fxb_key_uint key u = fxb_keyed key (\<lambda>b. Some (fxb_uint u b))"

definition fxb_key_float :: "byte list \<Rightarrow> float_bits \<Rightarrow> fx_builder \<Rightarrow> fx_builder option" where
  "fxb_key_float key f = fxb_keyed key (\<lambda>b. Some (fxb_float f b))"

definition fxb_key_double :: "byte list \<Rightarrow> double_bits \<Rightarrow> fx_builder \<Rightarrow> fx_builder option" where
  "fxb_key_double key d = fxb_keyed key (\<lambda>b. Some (fxb_double d b))"

definition fxb_key_bool :: "byte list \<Rightarrow> bool \<Rightarrow> fx_builder \<Rightarrow> fx_builder option" where
  "fxb_key_bool key x = fxb_keyed key (\<lambda>b. Some (fxb_bool x b))"

definition fxb_key_indirect_int :: "byte list \<Rightarrow> 64 word \<Rightarrow> fx_builder \<Rightarrow> fx_builder option" where
  "fxb_key_indirect_int key i = fxb_keyed key (fxb_indirect_int i)"

definition fxb_key_indirect_uint :: "byte list \<Rightarrow> 64 word \<Rightarrow> fx_builder \<Rightarrow> fx_builder option" where
  "fxb_key_indirect_uint key u = fxb_keyed key (fxb_indirect_uint u)"

definition fxb_key_indirect_float :: "byte list \<Rightarrow> float_bits \<Rightarrow> fx_builder \<Rightarrow> fx_builder option" where
  "fxb_key_indirect_float key f = fxb_keyed key (fxb_indirect_float f)"

definition fxb_key_indirect_double :: "byte list \<Rightarrow> double_bits \<Rightarrow> fx_builder \<Rightarrow> fx_builder option" where
  "fxb_key_indirect_double key d = fxb_keyed key (fxb_indirect_double d)"

definition fxb_key_string :: "byte list \<Rightarrow> byte list \<Rightarrow> fx_builder \<Rightarrow> fx_builder option" where
  "fxb_key_string key str = fxb_keyed key (\<lambda>b. map_option snd (fxb_string_cstring str b))"

definition fxb_key_blob :: "byte list \<Rightarrow> byte list \<Rightarrow> nat \<Rightarrow> fx_builder \<Rightarrow> fx_builder option" where
  "fxb_key_blob key data len = fxb_keyed key (\<lambda>b. map_option snd (fxb_blob data len b))"

definition fxb_start_vector_key :: "byte list \<Rightarrow> fx_builder \<Rightarrow> (nat \<times> fx_builder) option" where
  "fxb_start_vector_key key = fxb_keyed key (\<lambda>b. Some (length (fxb_stack b), b))"

definition fxb_start_map_key :: "byte list \<Rightarrow> fx_builder \<Rightarrow> (nat \<times> fx_builder) option" where
  "fxb_start_map_key key = fxb_keyed key (\<lambda>b. Some (length (fxb_stack b), b))"

definition fxb_vector_of_key :: "byte list \<Rightarrow> (fx_builder \<Rightarrow> fx_builder option) \<Rightarrow> fx_builder \<Rightarrow> (size_t \<times> fx_builder) option" where
  "fxb_vector_of_key key f b = do { (start, b) \<leftarrow> fxb_start_vector_key key b; b \<leftarrow> f b; fxb_end_vector start False False b }"

definition fxb_typed_vector_of_key :: "byte list \<Rightarrow> (fx_builder \<Rightarrow> fx_builder option) \<Rightarrow> fx_builder \<Rightarrow> (size_t \<times> fx_builder) option" where
  "fxb_typed_vector_of_key key f b = do { (start, b) \<leftarrow> fxb_start_vector_key key b; b \<leftarrow> f b; fxb_end_vector start True False b }"

definition fxb_map_of_key :: "byte list \<Rightarrow> (fx_builder \<Rightarrow> fx_builder option) \<Rightarrow> fx_builder \<Rightarrow> (size_t \<times> fx_builder) option" where
  "fxb_map_of_key key f b = do { (start, b) \<leftarrow> fxb_start_map_key key b; b \<leftarrow> f b; fxb_end_map start b }"

definition fxb_fixed_typed_vector_key ::
  "byte list \<Rightarrow> fx_type \<Rightarrow> nat \<Rightarrow> byte list list \<Rightarrow> fx_builder \<Rightarrow> (size_t \<times> fx_builder) option" where
  "fxb_fixed_typed_vector_key key vector_type byte_width elems =
     fxb_keyed key (fxb_fixed_typed_vector vector_type byte_width elems)"

text \<open>
  \<open>Vector\<close> of an array: scalars are written at once, other elements one by one by the overload
  of \<open>Add\<close> for their type; \<open>Map\<close> of a \<open>std::map\<close> goes through its entries in the order of the keys.
\<close>

fun fxb_add_all :: "('a \<Rightarrow> fx_builder \<Rightarrow> fx_builder option) \<Rightarrow> 'a list \<Rightarrow> fx_builder \<Rightarrow> fx_builder option" where
  "fxb_add_all add [] b = Some b"
| "fxb_add_all add (x # xs) b = do { b \<leftarrow> add x b; fxb_add_all add xs b }"

definition fxb_vector_of_array ::
  "(fx_type \<times> nat \<times> ('a \<Rightarrow> byte list)) option \<Rightarrow> ('a \<Rightarrow> fx_builder \<Rightarrow> fx_builder option) \<Rightarrow> 'a list \<Rightarrow> fx_builder \<Rightarrow>
    fx_builder option" where
  "fxb_vector_of_array scalar add elems b =
     (case scalar of
        Some (vector_type, byte_width, bytes) \<Rightarrow>
          map_option snd (fxb_scalar_vector vector_type byte_width (map bytes elems) False b)
      | None \<Rightarrow> do {
          let start = fxb_start_vector b;
          b \<leftarrow> fxb_add_all add elems b;
          map_option snd (fxb_end_vector start False False b)
        })"

definition fxb_key_vector_of_array ::
  "byte list \<Rightarrow> (fx_type \<times> nat \<times> ('a \<Rightarrow> byte list)) option \<Rightarrow> ('a \<Rightarrow> fx_builder \<Rightarrow> fx_builder option) \<Rightarrow> 'a list \<Rightarrow>
    fx_builder \<Rightarrow> fx_builder option" where
  "fxb_key_vector_of_array key scalar add elems = fxb_keyed key (fxb_vector_of_array scalar add elems)"

definition fxb_add_key :: "('a \<Rightarrow> fx_builder \<Rightarrow> fx_builder option) \<Rightarrow> byte list \<times> 'a \<Rightarrow> fx_builder \<Rightarrow> fx_builder option" where
  "fxb_add_key add e = fxb_keyed (fst e) (add (snd e))"

definition fxb_map_of_entries ::
  "('a \<Rightarrow> fx_builder \<Rightarrow> fx_builder option) \<Rightarrow> (byte list \<times> 'a) list \<Rightarrow> fx_builder \<Rightarrow> fx_builder option" where
  "fxb_map_of_entries add entries b = do {
     let start = fxb_start_map b;
     b \<leftarrow> fxb_add_all (fxb_add_key add) entries b;
     map_option snd (fxb_end_map start b)
   }"

definition fxb_last_value :: "fx_builder \<Rightarrow> fx_value option" where
  "fxb_last_value b = (if fxb_stack b = [] then None else Some (last (fxb_stack b)))"

definition fxb_reuse_value :: "fx_value \<Rightarrow> fx_builder \<Rightarrow> fx_builder" where
  "fxb_reuse_value v b = fxb_push v b"

definition fxb_reuse_value_key :: "byte list \<Rightarrow> fx_value \<Rightarrow> fx_builder \<Rightarrow> fx_builder option" where
  "fxb_reuse_value_key key v = fxb_keyed key (\<lambda>b. Some (fxb_reuse_value v b))"

definition fxb_force_minimum_bit_width :: "bit_width \<Rightarrow> fx_builder \<Rightarrow> fx_builder" where
  "fxb_force_minimum_bit_width bw b = b\<lparr>force_min_bit_width := bw\<rparr>"

definition fxb_finish :: "fx_builder \<Rightarrow> fx_builder option" where
  "fxb_finish b =
     (case fxb_stack b of
        [v] \<Rightarrow> do {
          w \<leftarrow> elem_width v (fxb_size b) 0;
          let (byte_width, b) = fxb_align w b;
          b \<leftarrow> fxb_write_any v byte_width b;
          b \<leftarrow> fxb_write 1 (ucast (stored_packed_type v BIT_WIDTH_8)) 1 b;
          b \<leftarrow> fxb_write 1 (of_nat byte_width) 1 b;
          Some (b\<lparr>fxb_finished := True\<rparr>)
        }
      | _ \<Rightarrow> None)"

end
