(* ===== verification/Fx_Content.thy ===== *)
theory Fx_Content
  imports Fx_Reference Fb_Vector_Roundtrip "HOL-Library.List_Lexorder"
begin

text \<open>
  What a FlexBuffer says: the values it can hold as a datatype, and when a reference, or an
  object at a position of the buffer, reads as such a value.  The relation is stated with the
  accessors of \<open>Reference\<close>, \<open>Vector\<close> and \<open>Map\<close>; it is kept when bytes are appended.
\<close>

text \<open>The type code 1 is to stay a numeral.\<close>

declare One_nat_def [simp del]

section \<open>Values\<close>

text \<open>
  A blob, string or key is its bytes; keys are C strings.  \<open>FTypedVector\<close> stands for the
  vectors of keys, integers and booleans without a type table.
\<close>

datatype fx_tree =
  FNull
| FBool bool
| FInt "64 word"
| FUInt "64 word"
| FDouble double_bits
| FIndirectInt "64 word"
| FIndirectUInt "64 word"
| FKey "byte list"
| FString "byte list"
| FBlob "byte list"
| FVector "fx_tree list"
| FTypedVector "fx_tree list"
| FMap "(byte list \<times> fx_tree) list"

text \<open>The map as it is stored: sorted by key.\<close>

definition sort_map :: "(byte list \<times> 'a) list \<Rightarrow> (byte list \<times> 'a) list" where
  "sort_map kvs = sort_key fst kvs"

section \<open>Reading\<close>

text \<open>
  \<open>fx_reads buf r t\<close>: the reference reads as \<open>t\<close>; \<open>fx_content buf ty p w t\<close>: the object of type
  \<open>ty\<close> and byte width \<open>w\<close> at position \<open>p\<close> of the buffer reads as \<open>t\<close>.
\<close>

inductive fx_reads :: "byte list \<Rightarrow> reference \<Rightarrow> fx_tree \<Rightarrow> bool"
  and fx_content :: "byte list \<Rightarrow> fx_type \<Rightarrow> size_t \<Rightarrow> byte \<Rightarrow> fx_tree \<Rightarrow> bool"
  for buf where
  reads_null: "rf_type r = FBT_NULL \<Longrightarrow> fx_reads buf r FNull"
| reads_bool: "rf_type r = FBT_BOOL \<Longrightarrow> read_uint64 buf (rf_data r) (rf_parent_width r) = Some (of_bool b) \<Longrightarrow>
    fx_reads buf r (FBool b)"
| reads_int: "rf_type r = FBT_INT \<Longrightarrow> read_int64 buf (rf_data r) (rf_parent_width r) = Some i \<Longrightarrow>
    fx_reads buf r (FInt i)"
| reads_uint: "rf_type r = FBT_UINT \<Longrightarrow> read_uint64 buf (rf_data r) (rf_parent_width r) = Some u \<Longrightarrow>
    fx_reads buf r (FUInt u)"
| reads_double: "rf_type r = FBT_FLOAT \<Longrightarrow> read_double buf (rf_data r) (rf_parent_width r) = Some e \<Longrightarrow>
    e = d \<or> double_eq e d \<Longrightarrow> fx_reads buf r (FDouble d)"
| reads_offset: "\<not> is_inline (rf_type r) \<Longrightarrow> rf_indirect buf r = Some (Fx_Buffer, p) \<Longrightarrow>
    fx_content buf (rf_type r) p (rf_byte_width r) t \<Longrightarrow> fx_reads buf r t"
| content_indirect_int: "read_int64 buf (Fx_Buffer, p) w = Some i \<Longrightarrow>
    fx_content buf FBT_INDIRECT_INT p w (FIndirectInt i)"
| content_indirect_uint: "read_uint64 buf (Fx_Buffer, p) w = Some u \<Longrightarrow>
    fx_content buf FBT_INDIRECT_UINT p w (FIndirectUInt u)"
| content_key: "c_string buf p = Some s \<Longrightarrow> fx_content buf FBT_KEY p w (FKey s)"
| content_string: "sized_at buf (Fx_Buffer, p) w = Some o1 \<Longrightarrow> unat (ob_size o1) = length s \<Longrightarrow>
    fx_read (Suc (length s)) buf (Fx_Buffer, p) = Some (s @ [0]) \<Longrightarrow> fx_content buf FBT_STRING p w (FString s)"
| content_blob: "sized_at buf (Fx_Buffer, p) w = Some o1 \<Longrightarrow> unat (ob_size o1) = length s \<Longrightarrow>
    fx_read (length s) buf (Fx_Buffer, p) = Some s \<Longrightarrow> fx_content buf FBT_BLOB p w (FBlob s)"
| content_vector: "sized_at buf (Fx_Buffer, p) w = Some v \<Longrightarrow> unat (ob_size v) = length ts \<Longrightarrow>
    \<forall>i<length ts. \<exists>e. fx_vector_get buf v (of_nat i) = Some e \<and> fx_reads buf e (ts ! i) \<Longrightarrow>
    fx_content buf FBT_VECTOR p w (FVector ts)"
| content_typed: "to_typed_vector_element_type ty = Some et \<Longrightarrow> et \<noteq> FBT_STRING \<Longrightarrow>
    typed_vector_at buf (Fx_Buffer, p) w et = Some tv \<Longrightarrow> unat (ob_size tv) = length ts \<Longrightarrow>
    \<forall>i<length ts. fx_reads buf (typed_vector_get tv (of_nat i)) (ts ! i) \<Longrightarrow>
    fx_content buf ty p w (FTypedVector ts)"
| content_map: "sized_at buf (Fx_Buffer, p) w = Some m \<Longrightarrow> unat (ob_size m) = length kvs \<Longrightarrow>
    map_keys buf m = Some ks \<Longrightarrow> fst (ob_data ks) = Fx_Buffer \<Longrightarrow> ob_size ks = ob_size m \<Longrightarrow>
    ob_width ks \<in> {1, 2, 4, 8} \<Longrightarrow> tv_type ks = FBT_KEY \<Longrightarrow>
    \<forall>i<length kvs. fx_reads buf (typed_vector_get ks (of_nat i)) (FKey (fst (sort_map kvs ! i))) \<Longrightarrow>
    \<forall>i<length kvs. \<exists>e. fx_vector_get buf m (of_nat i) = Some e \<and> fx_reads buf e (snd (sort_map kvs ! i)) \<Longrightarrow>
    distinct (map fst kvs) \<Longrightarrow> fx_content buf FBT_MAP p w (FMap kvs)"

section \<open>Appending keeps what can be read\<close>

lemma fx_read_append [bytes_simps]:
  "fx_read n buf p = Some bs \<Longrightarrow> fx_read n (buf @ xs) p = Some bs"
  by (cases "fst p") (auto simp: fx_read_def read_bytes_def split: if_splits)

lemma read_int64_append:
  "read_int64 buf p w = Some i \<Longrightarrow> read_int64 (buf @ xs) p w = Some i"
  by (auto simp: read_int64_def bytes_simps split: if_splits)

lemma read_uint64_append:
  "read_uint64 buf p w = Some i \<Longrightarrow> read_uint64 (buf @ xs) p w = Some i"
  by (auto simp: read_uint64_def bytes_simps split: if_splits)

lemma read_double_append:
  "read_double buf p w = Some i \<Longrightarrow> read_double (buf @ xs) p w = Some i"
  by (auto simp: read_double_def bytes_simps split: if_splits)

lemma c_string_append [bytes_simps]:
  "c_string buf p = Some s \<Longrightarrow> c_string (buf @ xs) p = Some s"
  by (cases "unat p \<le> length buf") (auto simp: c_string_def Let_def takeWhile_append1 split: if_splits)

lemma sized_at_append: "sized_at buf p w = Some v \<Longrightarrow> sized_at (buf @ xs) p w = Some v"
  by (auto simp: sized_at_def read_size_def read_uint64_append split: bind_splits)

lemma typed_vector_at_append: "typed_vector_at buf p w t = Some v \<Longrightarrow> typed_vector_at (buf @ xs) p w t = Some v"
  by (auto simp: typed_vector_at_def read_size_def read_uint64_append split: bind_splits)

lemma fx_indirect_append: "fx_indirect buf p w = Some q \<Longrightarrow> fx_indirect (buf @ xs) p w = Some q"
  by (auto simp: fx_indirect_def read_uint64_append)

lemma fx_vector_get_append: "fx_vector_get buf v i = Some e \<Longrightarrow> fx_vector_get (buf @ xs) v i = Some e"
  by (auto simp: fx_vector_get_def Let_def bytes_simps split: if_splits bind_splits)

lemma map_keys_append: "map_keys buf m = Some ks \<Longrightarrow> map_keys (buf @ xs) m = Some ks"
  by (auto simp: map_keys_def Let_def fx_indirect_append read_uint64_append typed_vector_at_append split: bind_splits)

lemmas append_simps = fx_read_append read_int64_append read_uint64_append read_double_append c_string_append
  sized_at_append typed_vector_at_append fx_indirect_append fx_vector_get_append map_keys_append

lemma fx_append:
  "fx_reads buf r t \<Longrightarrow> fx_reads (buf @ xs) r t"
  "fx_content buf ty p w t \<Longrightarrow> fx_content (buf @ xs) ty p w t"
proof (induction rule: fx_reads_fx_content.inducts)
  case (reads_offset r p t)
  then show ?case
    by (intro fx_reads_fx_content.reads_offset [of r _ p]) (auto simp: rf_indirect_def append_simps)
next
  case (content_vector p w v ts)
  then show ?case by (intro fx_reads_fx_content.content_vector [of _ p w v])
      (simp_all add: append_simps, blast intro: fx_vector_get_append)
next
  case (content_map p w m kvs ks)
  then show ?case by (intro fx_reads_fx_content.content_map [of _ p w m kvs ks])
      (simp_all add: append_simps, blast intro: fx_vector_get_append)
qed (auto intro: fx_reads_fx_content.intros simp: append_simps)

end
