(* ===== verification/Fx_Write.thy ===== *)
theory Fx_Write
  imports Fx_Builder Fx_Content
begin

text \<open>
  What \<open>Builder\<close> of \<open>flexbuffers.h\<close> writes: the bytes of a value at a position, the width that
  \<open>ElemWidth\<close> chooses and why every offset fits in it, and that a written value is read back.
\<close>

declare One_nat_def [simp del]

section \<open>Values on the stack\<close>

text \<open>\<open>fx_denotes buf v t\<close>: with the contents of the buffer, \<open>v\<close> stands for \<open>t\<close>.\<close>

inductive fx_denotes :: "byte list \<Rightarrow> fx_value \<Rightarrow> fx_tree \<Rightarrow> bool" for buf where
  denotes_null: "fx_denotes buf value_null FNull"
| denotes_bool: "fx_denotes buf (value_bool b) (FBool b)"
| denotes_int: "fx_denotes buf (fx_make_value i FBT_INT (width_i i)) (FInt i)"
| denotes_uint: "fx_denotes buf (fx_make_value u FBT_UINT (width_u u)) (FUInt u)"
| denotes_double: "fx_denotes buf (value_double d) (FDouble d)"
| denotes_offset: "\<not> is_inline ty \<Longrightarrow> ty < FBT_MAX_TYPE \<Longrightarrow> unat p \<le> length buf \<Longrightarrow>
    fx_content buf ty p (of_nat (width_bytes w)) t \<Longrightarrow> fx_denotes buf (fx_make_value p ty w) t"

lemma fx_denotes_append: "fx_denotes buf v t \<Longrightarrow> fx_denotes (buf @ xs) v t"
  by (induction rule: fx_denotes.induct) (auto intro: fx_denotes.intros fx_append)

lemmas value_defs = value_null_def value_bool_def value_double_def fx_make_value_def

text \<open>The bytes written for a value at position \<open>loc\<close>, \<open>k\<close> bytes wide.\<close>

definition fx_enc :: "fx_value \<Rightarrow> nat \<Rightarrow> nat \<Rightarrow> byte list" where
  "fx_enc v k loc =
     (if val_type v = FBT_FLOAT
      then if k = 8 then le_bytes 8 (unat (val_bits v)) else le_bytes 4 (unat (float_of_double (val_bits v)))
      else if is_inline (val_type v) then le_bytes k (unat (val_bits v))
      else le_bytes k (loc - unat (val_bits v)))"

text \<open>There is room for it: an offset is small enough, a number has the width it needs.\<close>

definition fx_fits :: "fx_value \<Rightarrow> bit_width \<Rightarrow> nat \<Rightarrow> bool" where
  "fx_fits v w loc \<longleftrightarrow>
     (if is_inline (val_type v) then min_bit_width v \<le> w \<and> (val_type v = FBT_FLOAT \<longrightarrow> BIT_WIDTH_32 \<le> w)
      else unat (val_bits v) \<le> loc \<and> loc - unat (val_bits v) < 256 ^ width_bytes w)"

lemma length_fx_enc: "fx_fits v w loc \<Longrightarrow> length (fx_enc v (width_bytes w) loc) = width_bytes w"
  by (cases w) (auto simp: fx_enc_def fx_fits_def is_inline_def)

section \<open>Reading a written value\<close>

lemma le_nat_of_le_bytes: "x < 256 ^ n \<Longrightarrow> le_nat (le_bytes n x) = x"
  by (simp add: le_nat_le_bytes)

lemma read_offset:
  assumes "fx_read (width_bytes w) buf (Fx_Buffer, loc) = Some (le_bytes (width_bytes w) (unat loc - unat p))"
    and "unat p \<le> unat loc" and "unat loc - unat p < 256 ^ width_bytes w"
  shows "fx_indirect buf (Fx_Buffer, loc) (of_nat (width_bytes w)) = Some (Fx_Buffer, p)"
proof -
  have u: "unat (loc - p) = unat loc - unat p" using assms(2) by (simp add: unat_sub_le word_le_nat_alt)
  have "read_uint64 buf (Fx_Buffer, loc) (of_nat (width_bytes w)) = Some (loc - p)"
    by (rule read_uint64_le_bytes [of "width_bytes w"])
      (use assms u in \<open>simp_all\<close>, (cases w; simp)+)
  then show ?thesis by (simp add: fx_indirect_def ptr_sub_def)
qed

lemma double_eq_refl_float:
  assumes "width_f d = BIT_WIDTH_32"
  shows "double_eq (double_of_float (float_of_double d)) d"
  using assms by (simp add: width_f_def split: if_splits)

text \<open>A reference to a written value reads as the value.\<close>

lemma written_reads:
  assumes d: "fx_denotes buf v t" and fits: "fx_fits v w (unat loc)"
    and rd: "fx_read (width_bytes w) buf (Fx_Buffer, loc) = Some (fx_enc v (width_bytes w) (unat loc))"
    and r: "rf_data r = (Fx_Buffer, loc)" "rf_parent_width r = of_nat (width_bytes w)" "rf_type r = val_type v"
    and bw: "\<not> is_inline (val_type v) \<Longrightarrow> val_type v \<noteq> FBT_KEY \<Longrightarrow> rf_byte_width r = of_nat (width_bytes (min_bit_width v))"
  shows "fx_reads buf r t"
  using d
proof cases
  case denotes_null
  then show ?thesis using r by (auto intro: reads_null simp: value_defs)
next
  case (denotes_bool b)
  then have "read_uint64 buf (Fx_Buffer, loc) (of_nat (width_bytes w)) = Some (of_bool b)"
    using rd by (intro read_uint64_le_bytes [of "width_bytes w"])
      (auto simp: value_defs fx_enc_def is_inline_def, (cases w; cases b; simp)+)
  then show ?thesis using r denotes_bool by (auto intro: reads_bool simp: value_defs)
next
  case (denotes_int i)
  then have "read_int64 buf (Fx_Buffer, loc) (of_nat (width_bytes w)) = Some i"
    using rd fits by (intro read_int64_le_bytes) (simp_all add: value_defs fx_enc_def fx_fits_def is_inline_def)
  then show ?thesis using r denotes_int by (auto intro: reads_int simp: value_defs)
next
  case (denotes_uint u)
  then have "unat u < 256 ^ width_bytes w"
    using fits width_u_le by (simp add: fx_fits_def value_defs is_inline_def del: bit_width_less_eq)
  then have "read_uint64 buf (Fx_Buffer, loc) (of_nat (width_bytes w)) = Some u"
    using rd denotes_uint by (intro read_uint64_le_bytes [of "width_bytes w"])
      (simp_all add: value_defs fx_enc_def is_inline_def, (cases w; simp)+)
  then show ?thesis using r denotes_uint by (auto intro: reads_uint simp: value_defs)
next
  case (denotes_double d)
  have "\<exists>e. read_double buf (Fx_Buffer, loc) (of_nat (width_bytes w)) = Some e \<and> (e = d \<or> double_eq e d)"
  proof (cases "w = BIT_WIDTH_64")
    case True
    have "unat d mod 2 ^ 64 = unat d" by (rule mod_less) (rule order_less_le_trans [OF unsigned_less], simp)
    then show ?thesis using rd denotes_double True
      by (simp add: value_defs fx_enc_def read_double_def le_nat_le_bytes)
  next
    case False
    then have w: "w = BIT_WIDTH_32" "width_f d = BIT_WIDTH_32"
      using fits denotes_double by (cases w; auto simp: fx_fits_def value_defs is_inline_def width_f_def split: if_splits)+
    have "unat (float_of_double d) mod 2 ^ 32 = unat (float_of_double d)"
      by (rule mod_less) (rule order_less_le_trans [OF unsigned_less], simp)
    then show ?thesis using rd denotes_double w double_eq_refl_float [OF w(2)]
      by (simp add: value_defs fx_enc_def read_double_def le_nat_le_bytes)
  qed
  then show ?thesis using r denotes_double by (auto intro: reads_double simp: value_defs)
next
  case (denotes_offset ty p w')
  then have i: "fx_indirect buf (Fx_Buffer, loc) (of_nat (width_bytes w)) = Some (Fx_Buffer, p)"
    using rd fits by (intro read_offset) (auto simp: value_defs fx_enc_def fx_fits_def is_inline_def)
  have c: "fx_content buf ty p (rf_byte_width r) t"
  proof (cases "ty = FBT_KEY")
    case True
    then show ?thesis using denotes_offset(5) by (auto elim!: fx_content.cases intro: content_key
        simp: to_typed_vector_element_type_def is_typed_vector_def)
  next
    case False
    then show ?thesis using denotes_offset bw by (simp add: value_defs)
  qed
  show ?thesis
    by (rule reads_offset [where p = p]) (use r i c denotes_offset in \<open>simp_all add: rf_indirect_def value_defs\<close>)
qed

section \<open>Widths of offsets\<close>

text \<open>Where an element is written: behind the padding for \<open>k\<close> bytes, \<open>i\<close> elements further.\<close>

definition elem_loc :: "nat \<Rightarrow> nat \<Rightarrow> bit_width \<Rightarrow> nat" where
  "elem_loc n i w = n + pad_to n (width_bytes w) + i * width_bytes w"

lemma pad_width_less: "pad_to n (width_bytes w) < width_bytes w"
  by (rule pad_to_le) (cases w; simp)

lemma padding_width:
  assumes "n < 2 ^ 63"
  shows "unat (padding_bytes (of_nat n) (of_nat (width_bytes w))) = pad_to n (width_bytes w)"
proof -
  have "(of_nat (width_bytes w) :: size_t) - 1 = mask (bit_width_code w)"
    by (cases w) (simp_all add: mask_eq_exp_minus_1)
  moreover have "unat (of_nat n :: size_t) = n" using assms by (intro unat_of_nat_small) simp
  ultimately show ?thesis
    using padding_bytes_pad_to [of "of_nat (width_bytes w)" "bit_width_code w" "of_nat n"]
    by (cases w) (simp_all add: width_bytes_def)
qed

lemma unat_elem_loc:
  assumes "n + 8 * i + 8 < 2 ^ 63"
  shows "unat (of_nat n + padding_bytes (of_nat n) (of_nat (width_bytes w)) +
    of_nat i * of_nat (width_bytes w) :: size_t) = elem_loc n i w" and "elem_loc n i w < 2 ^ 63"
proof -
  have w: "width_bytes w \<le> 8" by (cases w) simp_all
  then have iw: "i * width_bytes w \<le> 8 * i" using mult_le_mono2 [of "width_bytes w" 8 i] by simp
  have p: "pad_to n (width_bytes w) < 8" using pad_width_less [of n w] w by linarith
  show lt: "elem_loc n i w < 2 ^ 63" unfolding elem_loc_def using iw p assms by linarith
  have "(of_nat n + padding_bytes (of_nat n) (of_nat (width_bytes w)) +
    of_nat i * of_nat (width_bytes w) :: size_t) = of_nat (elem_loc n i w)"
    using word_of_nat_unat [OF padding_width [of n w]] assms by (simp add: elem_loc_def)
  then show "unat (of_nat n + padding_bytes (of_nat n) (of_nat (width_bytes w)) +
    of_nat i * of_nat (width_bytes w) :: size_t) = elem_loc n i w"
    using lt by (simp only:) (rule unat_of_nat_small, simp)
qed

lemma pad_to_least:
  assumes "(n + p) mod k = 0" and "0 < k"
  shows "pad_to n k \<le> p"
proof -
  have "(n + p mod k) mod k = 0" using assms(1) by (simp add: mod_add_right_eq)
  then have "p mod k = pad_to n k" using assms(2) by (intro pad_to_unique) simp_all
  then show ?thesis by (metis mod_less_eq_dividend)
qed

lemma elem_loc_mono:
  assumes "v \<le> w"
  shows "elem_loc n i v \<le> elem_loc n i w"
proof -
  have k: "0 < width_bytes v" "0 < width_bytes w" by (simp_all add: width_bytes_def)
  have dvd: "width_bytes v dvd width_bytes w" using assms by (cases v; cases w; simp)
  have "width_bytes w dvd n + pad_to n (width_bytes w)" using pad_to_mod [OF k(2)] by (rule mod_0_imp_dvd)
  with dvd have "width_bytes v dvd n + pad_to n (width_bytes w)" by (rule dvd_trans)
  then have "pad_to n (width_bytes v) \<le> pad_to n (width_bytes w)"
    by (intro pad_to_least k) (simp add: dvd_imp_mod_0)
  then show ?thesis using assms by (simp add: elem_loc_def add_mono)
qed

text \<open>An offset that fits in one width fits in every larger one, and at every smaller index.\<close>

lemma offset_fits_wider:
  assumes "elem_loc n i v - q < 256 ^ width_bytes v" and "v \<le> w" and "j \<le> i" and "n + 8 * i + 8 < 2 ^ 63" and "q \<le> n"
  shows "elem_loc n j w - q < 256 ^ width_bytes w"
proof -
  have ij: "elem_loc n j w \<le> elem_loc n i w" using assms(3) by (simp add: elem_loc_def)
  have "elem_loc n i w - q < 256 ^ width_bytes w"
  proof (cases "v = w \<or> w = BIT_WIDTH_64")
    case True
    then show ?thesis using assms(1) unat_elem_loc(2) [OF assms(4), of w] by auto
  next
    case False
    then show ?thesis
      using assms(1,2,5) pad_width_less [of n w] by (cases v; cases w) (auto simp: elem_loc_def)
  qed
  then show ?thesis using ij by linarith
qed

lemma offset_width_fits:
  assumes q: "q \<le> n" and n: "n + 8 * i + 8 < 2 ^ 63"
  shows "\<exists>w. offset_width (of_nat q) (of_nat n) (of_nat i) [1, 2, 4, 8] = Some w \<and>
    elem_loc n i w - q < 256 ^ width_bytes w"
proof -
  let ?o = "\<lambda>w. of_nat n + padding_bytes (of_nat n) (of_nat (width_bytes w)) + of_nat i * of_nat (width_bytes w) :: size_t"
  have u: "unat (?o w - of_nat q) = elem_loc n i w - q" for w
  proof -
    have l: "unat (?o w) = elem_loc n i w" by (rule unat_elem_loc(1) [OF n])
    have q': "unat (of_nat q :: size_t) = q" using q n by (intro unat_of_nat_small) simp
    have "q \<le> elem_loc n i w" using q by (simp add: elem_loc_def)
    then show ?thesis using l q' by (simp add: unat_sub_le word_le_nat_alt)
  qed
  note u' = u [of BIT_WIDTH_8, simplified] u [of BIT_WIDTH_16, simplified] u [of BIT_WIDTH_32, simplified]
    u [of BIT_WIDTH_64, simplified]
  have less: "elem_loc n i v - q \<le> elem_loc n i w - q" if "v \<le> w" for v w
    using elem_loc_mono [OF that, of n i] by simp
  note less = less [of BIT_WIDTH_8 BIT_WIDTH_16, simplified] less [of BIT_WIDTH_16 BIT_WIDTH_32, simplified]
    less [of BIT_WIDTH_32 BIT_WIDTH_64, simplified]
  consider "elem_loc n i BIT_WIDTH_8 - q < 2 ^ 8"
    | "2 ^ 8 \<le> elem_loc n i BIT_WIDTH_8 - q" "elem_loc n i BIT_WIDTH_16 - q < 2 ^ 16"
    | "2 ^ 8 \<le> elem_loc n i BIT_WIDTH_8 - q" "2 ^ 16 \<le> elem_loc n i BIT_WIDTH_16 - q"
      "elem_loc n i BIT_WIDTH_32 - q < 2 ^ 32"
    | "2 ^ 8 \<le> elem_loc n i BIT_WIDTH_8 - q" "2 ^ 16 \<le> elem_loc n i BIT_WIDTH_16 - q"
      "2 ^ 32 \<le> elem_loc n i BIT_WIDTH_32 - q"
    by linarith
  moreover have "elem_loc n i BIT_WIDTH_64 - q < 18446744073709551616"
    using unat_elem_loc(2) [OF n, of BIT_WIDTH_64] by simp
  ultimately show ?thesis
    using less by cases (simp_all add: width_u_eq u' Let_def)
qed

text \<open>What the values on the stack have in common.\<close>

lemma denotes_cases:
  assumes "fx_denotes buf v t"
  obtains "is_inline (val_type v)" "val_type v = FBT_FLOAT \<Longrightarrow> BIT_WIDTH_32 \<le> min_bit_width v"
    | "\<not> is_inline (val_type v)" "unat (val_bits v) \<le> length buf" "val_type v < FBT_MAX_TYPE"
        "fx_content buf (val_type v) (val_bits v) (of_nat (width_bytes (min_bit_width v))) t"
  using assms by cases (auto simp: value_defs is_inline_def width_f_def)

text \<open>The width \<open>ElemWidth\<close> chooses is enough for the value, also at larger widths and smaller indices.\<close>

lemma elem_width_fits:
  assumes d: "fx_denotes buf v t" and n: "length buf + 8 * i + 8 < 2 ^ 63"
  obtains w where "elem_width v (of_nat (length buf)) (of_nat i) = Some w"
    and "\<And>w' j. w \<le> w' \<Longrightarrow> j \<le> i \<Longrightarrow> fx_fits v w' (elem_loc (length buf) j w')"
proof (cases rule: denotes_cases [OF d])
  case 1
  then show ?thesis
    by (intro that [of "min_bit_width v"]) (simp add: elem_width_def, auto simp: fx_fits_def intro: order_trans)
next
  case 2
  obtain w where w: "offset_width (of_nat (unat (val_bits v))) (of_nat (length buf)) (of_nat i) [1, 2, 4, 8] = Some w"
      "elem_loc (length buf) i w - unat (val_bits v) < 256 ^ width_bytes w"
    using offset_width_fits [OF 2(2) n] by auto
  have "fx_fits v w' (elem_loc (length buf) j w')" if "w \<le> w'" "j \<le> i" for w' j
    using offset_fits_wider [OF w(2) that n 2(2)] 2(1,2) by (simp add: fx_fits_def elem_loc_def)
  then show ?thesis using w(1) 2(1) by (intro that [of w]) (simp_all add: elem_width_def)
qed

section \<open>Writing values\<close>

lemma write_any_enc:
  assumes f: "fx_fits v w (length (fxb_buf b))" and n: "length (fxb_buf b) < 2 ^ 63"
  shows "fxb_write_any v (width_bytes w) b =
    Some (fxb_write_bytes (fx_enc v (width_bytes w) (length (fxb_buf b))) b)"
proof (cases "is_inline (val_type v)")
  case True
  have fl: "unat (ucast (float_of_double (val_bits v)) :: 64 word) = unat (float_of_double (val_bits v))" by simp
  from True show ?thesis
    using f fl by (cases w) (auto simp: fxb_write_any_def fxb_write_double_def fxb_write_def fx_enc_def fx_fits_def is_inline_def)
next
  case False
  let ?n = "length (fxb_buf b)"
  have s: "unat (fxb_size b) = ?n" using n by (simp add: fxb_size_def unat_of_nat_small)
  have o: "unat (val_bits v) \<le> ?n" "?n - unat (val_bits v) < 256 ^ width_bytes w"
    using f False by (simp_all add: fx_fits_def)
  then have r: "unat (fxb_size b - val_bits v) = ?n - unat (val_bits v)"
    using s by (simp add: unat_sub_le word_le_nat_alt)
  have "w \<noteq> BIT_WIDTH_64 \<Longrightarrow> fxb_size b - val_bits v < push_bit (width_bytes w * 8) 1"
    using o(2) r by (cases w) (simp_all add: word_less_nat_alt push_bit_eq_mult)
  then have "fxb_write_offset (val_bits v) (width_bytes w) b = fxb_write 8 (fxb_size b - val_bits v) (width_bytes w) b"
    by (cases w) (simp_all add: fxb_write_offset_def Let_def)
  then show ?thesis
    using False r by (cases w) (auto simp: fxb_write_any_def fxb_write_def fx_enc_def is_inline_def)
qed

text \<open>Values in a row, \<open>k\<close> bytes each.\<close>

fun fx_enc_all :: "fx_value list \<Rightarrow> nat \<Rightarrow> nat \<Rightarrow> byte list" where
  "fx_enc_all [] k loc = []"
| "fx_enc_all (v # vs) k loc = fx_enc v k loc @ fx_enc_all vs k (loc + k)"

lemma fxb_buf_write_bytes [simp]: "fxb_buf (fxb_write_bytes bs b) = fxb_buf b @ bs"
  "fxb_stack (fxb_write_bytes bs b) = fxb_stack b" "fxb_write_bytes [] b = b"
  "fxb_write_bytes bs' (fxb_write_bytes bs b) = fxb_write_bytes (bs @ bs') b"
  by (simp_all add: fxb_write_bytes_def)

lemma write_all_enc:
  assumes "\<forall>i<length vs. fx_fits (vs ! i) w (length (fxb_buf b) + i * width_bytes w)"
    and "length (fxb_buf b) + length vs * width_bytes w < 2 ^ 63"
  shows "write_all (\<lambda>v. fxb_write_any v (width_bytes w)) vs b =
      Some (fxb_write_bytes (fx_enc_all vs (width_bytes w) (length (fxb_buf b))) b) \<and>
    length (fx_enc_all vs (width_bytes w) (length (fxb_buf b))) = length vs * width_bytes w \<and>
    (\<forall>i<length vs. take (width_bytes w) (drop (i * width_bytes w) (fx_enc_all vs (width_bytes w) (length (fxb_buf b)))) =
      fx_enc (vs ! i) (width_bytes w) (length (fxb_buf b) + i * width_bytes w))"
  using assms
proof (induction vs arbitrary: b)
  case Nil
  show ?case by simp
next
  case (Cons v vs)
  let ?k = "width_bytes w" and ?n = "length (fxb_buf b)"
  let ?b = "fxb_write_bytes (fx_enc v ?k ?n) b"
  have v: "fx_fits v w ?n" using Cons.prems(1) by force
  note len = length_fx_enc [OF v]
  have vs: "\<forall>i<length vs. fx_fits (vs ! i) w (length (fxb_buf ?b) + i * ?k)"
  proof (intro allI impI)
    fix i assume "i < length vs"
    then have "fx_fits ((v # vs) ! Suc i) w (?n + Suc i * ?k)" by (intro Cons.prems(1) [rule_format]) simp
    then show "fx_fits (vs ! i) w (length (fxb_buf ?b) + i * ?k)"
      using len by (simp add: algebra_simps)
  qed
  have n: "length (fxb_buf ?b) + length vs * ?k < 2 ^ 63" using Cons.prems(2) len by simp
  note IH = Cons.IH [OF vs n]
  have "take ?k (drop (i * ?k) (fx_enc_all (v # vs) ?k ?n)) = fx_enc ((v # vs) ! i) ?k (?n + i * ?k)"
    if i: "i < length (v # vs)" for i
    using IH i len by (cases i) (auto simp: algebra_simps)
  then show ?case using IH write_any_enc [OF v] Cons.prems(2) len by simp
qed

end
