(* ===== verification/Fx_Vector_Write.thy ===== *)
theory Fx_Vector_Write
  imports Fx_Write
begin

text \<open>
  \<open>CreateVector\<close> of \<open>flexbuffers.h\<close>: where it puts the offset to the keys, the size, the elements
  and their types, and that all of them fit in the width it chooses.
\<close>

declare One_nat_def [simp del]

section \<open>The width of a vector\<close>

text \<open>\<open>fit_from w v i\<close>: the value fits in every width from \<open>w\<close> on and at every index up to \<open>i\<close>.\<close>

definition fit_from :: "nat \<Rightarrow> bit_width \<Rightarrow> fx_value \<Rightarrow> nat \<Rightarrow> bool" where
  "fit_from n w v i \<longleftrightarrow> (\<forall>w' j. w \<le> w' \<longrightarrow> j \<le> i \<longrightarrow> fx_fits v w' (elem_loc n j w'))"

lemma fit_from_mono: "fit_from n w v i \<Longrightarrow> w \<le> w' \<Longrightarrow> fit_from n w' v i"
  unfolding fit_from_def by (meson order_trans)

lemma elem_width_fit_from:
  assumes "fx_denotes buf v t" and "length buf + 8 * i + 8 < 2 ^ 63"
  obtains w where "elem_width v (of_nat (length buf)) (of_nat i) = Some w" and "fit_from (length buf) w v i"
  using elem_width_fits [OF assms] unfolding fit_from_def by blast

lemma vector_elems_fit:
  assumes "\<forall>(i, v) \<in> set es. (\<exists>t. fx_denotes buf v t) \<and> length buf + 8 * (i + p) + 8 < 2 ^ 63"
    and "typed \<Longrightarrow> \<forall>(i, v) \<in> set es. val_type v = et" and "typed \<Longrightarrow> es = [] \<or> fst (hd es) = 0 \<or> ty = et"
  shows "\<exists>w. vector_elems (of_nat (length buf)) p typed es (bw, ty) =
      Some (w, if typed \<and> es \<noteq> [] then et else ty) \<and> bw \<le> w \<and>
    (\<forall>(i, v) \<in> set es. fit_from (length buf) w v (i + p))"
  using assms
proof (induction es arbitrary: bw ty)
  case Nil
  then show ?case by simp
next
  case (Cons e es)
  obtain i v where e: "e = (i, v)" by (cases e)
  then obtain t where t: "fx_denotes buf v t" "length buf + 8 * (i + p) + 8 < 2 ^ 63"
    using Cons.prems(1) by auto
  obtain w where w: "elem_width v (of_nat (length buf)) (of_nat (i + p)) = Some w" "fit_from (length buf) w v (i + p)"
    using elem_width_fit_from [OF t] .
  let ?ty = "if typed then et else ty"
  have ty: "(if \<not> typed then Some ty else if i = 0 then Some (val_type v)
      else if ty = val_type v then Some ty else None) = Some ?ty"
    using Cons.prems(2,3) e by auto
  have "\<exists>w'. vector_elems (of_nat (length buf)) p typed es (max bw w, ?ty) =
      Some (w', if typed \<and> es \<noteq> [] then et else ?ty) \<and> max bw w \<le> w' \<and>
      (\<forall>(i, v) \<in> set es. fit_from (length buf) w' v (i + p))"
    by (rule Cons.IH) (use Cons.prems in auto)
  then obtain w' where w': "vector_elems (of_nat (length buf)) p typed es (max bw w, ?ty) = Some (w', ?ty)"
      "max bw w \<le> w'" "\<forall>(i, v) \<in> set es. fit_from (length buf) w' v (i + p)"
    by auto
  have le: "bw \<le> w'" "w \<le> w'" using w'(2) by (simp_all del: bit_width_less_eq)
  then have "fit_from (length buf) w' v (i + p)" using fit_from_mono [OF w(2)] by blast
  moreover have "vector_elems (of_nat (length buf)) p typed (e # es) (bw, ty) = Some (w', ?ty)"
    using w(1) w'(1) ty by (simp add: e)
  ultimately show ?case using w'(3) le(1) by (auto simp: e)
qed

section \<open>Every other value\<close>

lemma every_1: "every 1 xs = enumerate 0 xs"
  by (simp add: every_def)

lemma every_idx: "(i, v) \<in> set (every k xs) \<Longrightarrow> i < length xs \<and> xs ! i = v"
  by (auto simp: every_def in_set_enumerate_eq)

definition flat :: "('a \<times> 'a) list \<Rightarrow> 'a list" where
  "flat kvs = concat (map (\<lambda>(k, v). [k, v]) kvs)"

lemma flat_simps [simp]: "flat [] = []" "flat ((k, v) # kvs) = k # v # flat kvs"
  "length (flat kvs) = 2 * length kvs"
proof -
  show "length (flat kvs) = 2 * length kvs" unfolding flat_def by (induction kvs) auto
qed (simp_all add: flat_def)

lemma every_flat_keys: "every 2 (flat kvs) = map (\<lambda>(j, (k, v)). (2 * j, k)) (enumerate 0 kvs)"
proof -
  have "filter (\<lambda>(i, x). i mod 2 = 0) (enumerate (2 * m) (flat kvs)) =
      map (\<lambda>(j, (k, v)). (2 * j, k)) (enumerate m kvs)" for m
  proof (induction kvs arbitrary: m)
    case (Cons kv kvs)
    then show ?case using Cons.IH [of "Suc m"] by (cases kv) (simp add: mod_Suc)
  qed simp
  from this [of 0] show ?thesis by (simp add: every_def)
qed

lemma every_flat_values: "every 2 (drop 1 (flat kvs)) = map (\<lambda>(j, (k, v)). (2 * j, v)) (enumerate 0 kvs)"
proof -
  have e: "filter (\<lambda>(i, x). i mod 2 = 0) (enumerate (Suc (2 * m)) (flat kvs)) =
      map (\<lambda>(j, (k, v)). (2 * j, v)) (enumerate (Suc m) kvs)" for m and kvs :: "('a \<times> 'a) list"
  proof (induction kvs arbitrary: m)
    case (Cons kv kvs)
    then show ?case using Cons.IH [of "Suc m"] by (cases kv) (simp add: mod_Suc)
  qed simp
  show ?thesis
  proof (cases kvs)
    case (Cons kv kvs')
    then show ?thesis using e [of 0] by (cases kv) (simp add: every_def One_nat_def)
  qed (simp add: every_def)
qed

section \<open>The bytes of a vector\<close>

text \<open>A piece of the buffer is read at its position.\<close>

lemma fx_read_piece:
  assumes "buf = xs @ ys @ zs" and "length xs = p" and "length ys = k" and "p < 2 ^ 63"
  shows "fx_read k buf (Fx_Buffer, of_nat p) = Some ys"
  using assms by (auto simp: fx_read_def read_bytes_def unat_of_nat_small)

lemma fxb_align_eq:
  assumes "length (fxb_buf b) < 2 ^ 63"
  shows "fxb_align w b =
    (width_bytes w, fxb_write_bytes (replicate (pad_to (length (fxb_buf b)) (width_bytes w)) 0) b)"
  using padding_width [OF assms] by (simp add: fxb_align_def fxb_size_def Let_def)

lemma fxb_write_8: "fxb_write 8 x (width_bytes w) b =
    Some (fxb_write_bytes (le_bytes (width_bytes w) (unat x)) b)"
  by (cases w) (simp_all add: fxb_write_def)

lemma unat_width_bytes [simp]: "unat (of_nat (width_bytes w) :: 64 word) = width_bytes w"
  "unat (of_nat (width_bytes w) :: byte) = width_bytes w"
  by (cases w; simp)+

text \<open>
  The layout: the start is aligned; then come the offset and width of the keys if there are
  any, the number of elements, the elements and, unless the vector is typed, their types.
\<close>

definition prefix_len :: "fx_value option \<Rightarrow> nat" where
  "prefix_len keys = (if keys = None then 1 else 3)"

definition vector_bytes :: "nat \<Rightarrow> fx_value option \<Rightarrow> bool \<Rightarrow> fx_value list \<Rightarrow> bit_width \<Rightarrow> byte list" where
  "vector_bytes n keys typed vs w =
     replicate (pad_to n (width_bytes w)) 0 @
     (case keys of None \<Rightarrow> []
      | Some k \<Rightarrow> fx_enc k (width_bytes w) (elem_loc n 0 w) @ le_bytes (width_bytes w) (width_bytes (min_bit_width k))) @
     le_bytes (width_bytes w) (length vs) @
     fx_enc_all vs (width_bytes w) (elem_loc n (prefix_len keys) w) @
     (if typed then [] else map (\<lambda>v. stored_packed_type v w) vs)"

lemma elem_loc_add: "elem_loc n i w + j * width_bytes w = elem_loc n (i + j) w"
  by (simp add: elem_loc_def algebra_simps)

lemma elem_loc_0: "n + pad_to n (width_bytes w) = elem_loc n 0 w"
  by (simp add: elem_loc_def)

lemma elem_loc_less:
  assumes "n + 8 * i + 8 < 2 ^ 63" and "j \<le> i"
  shows "elem_loc n j w < 2 ^ 63"
  by (rule unat_elem_loc(2)) (use assms in simp)

text \<open>The value that \<open>CreateVector\<close> returns, the width of the parts before the elements, and what is written.\<close>

definition vector_value :: "nat \<Rightarrow> fx_value option \<Rightarrow> bool \<Rightarrow> fx_type \<Rightarrow> bit_width \<Rightarrow> fx_value" where
  "vector_value n keys typed et w = fx_make_value (of_nat (elem_loc n (prefix_len keys) w))
     (if keys \<noteq> None then FBT_MAP else if typed then et + 10 else FBT_VECTOR) w"

lemma write_keys_offset:
  assumes k: "\<not> is_inline (val_type k)" "fx_fits k w (elem_loc n 0 w)" and b: "length (fxb_buf b) = elem_loc n 0 w"
    and n: "elem_loc n 0 w < 2 ^ 63"
  shows "fxb_write_offset (val_bits k) (width_bytes w) b =
    Some (fxb_write_bytes (fx_enc k (width_bytes w) (elem_loc n 0 w)) b)"
proof -
  have "fxb_write_offset (val_bits k) (width_bytes w) b = fxb_write_any k (width_bytes w) b"
    using k(1) by (auto simp: fxb_write_any_def is_inline_def)
  also have "\<dots> = Some (fxb_write_bytes (fx_enc k (width_bytes w) (elem_loc n 0 w)) b)"
    using write_any_enc [of k w b] k b n by simp
  finally show ?thesis .
qed

lemma vector_width:
  fixes b
  defines "n \<equiv> length (fxb_buf b)"
  assumes den: "\<forall>(i, v) \<in> set es. (\<exists>t. fx_denotes (fxb_buf b) v t) \<and> n + 8 * (i + 3) + 8 < 2 ^ 63"
    and ty: "typed \<Longrightarrow> \<forall>(i, v) \<in> set es. val_type v = et" "typed \<Longrightarrow> es = [] \<or> fst (hd es) = 0"
    and keys: "\<And>k. keys = Some k \<Longrightarrow> \<exists>t. fx_denotes (fxb_buf b) k t"
    and n: "n + 48 < 2 ^ 63"
  shows "\<exists>bw w. (case keys of None \<Rightarrow> Some (least, 1)
        | Some k \<Rightarrow> do { w \<leftarrow> elem_width k (fxb_size b) 0; Some (max least w, 3) }) = Some (bw, prefix_len keys) \<and>
    vector_elems (fxb_size b) (prefix_len keys) typed es (bw, FBT_KEY) =
      Some (w, if typed \<and> es \<noteq> [] then et else FBT_KEY) \<and>
    least \<le> w \<and> (\<forall>(i, v) \<in> set es. fit_from n w v (i + prefix_len keys)) \<and> (\<forall>k. keys = Some k \<longrightarrow> fit_from n w k 0)"
proof -
  have s: "fxb_size b = of_nat n" by (simp add: fxb_size_def n_def)
  obtain bw where bw: "(case keys of None \<Rightarrow> Some (least, 1)
      | Some k \<Rightarrow> do { w \<leftarrow> elem_width k (fxb_size b) 0; Some (max least w, 3) }) = Some (bw, prefix_len keys)"
    "least \<le> bw" "\<forall>k. keys = Some k \<longrightarrow> fit_from n bw k 0"
  proof (cases keys)
    case None
    then show ?thesis by (intro that [of least]) (simp_all add: prefix_len_def)
  next
    case (Some k)
    then obtain t where t: "fx_denotes (fxb_buf b) k t" using keys by blast
    have "length (fxb_buf b) + 8 * 0 + 8 < 2 ^ 63" using n by (simp add: n_def)
    from elem_width_fit_from [OF t this] obtain w where
      w: "elem_width k (of_nat n) (of_nat 0) = Some w" "fit_from n w k 0" unfolding n_def .
    have le: "least \<le> max least w" "w \<le> max least w" by (simp_all del: bit_width_less_eq)
    show ?thesis
      by (rule that [of "max least w", OF _ le(1)])
        (use Some w fit_from_mono [OF w(2) le(2)] in \<open>simp_all add: s prefix_len_def\<close>)
  qed
  have "\<exists>w. vector_elems (of_nat (length (fxb_buf b))) (prefix_len keys) typed es (bw, FBT_KEY) =
      Some (w, if typed \<and> es \<noteq> [] then et else FBT_KEY) \<and> bw \<le> w \<and>
    (\<forall>(i, v) \<in> set es. fit_from (length (fxb_buf b)) w v (i + prefix_len keys))"
    by (rule vector_elems_fit) (use den ty in \<open>auto simp: prefix_len_def n_def split: if_splits\<close>)
  then obtain w where w: "vector_elems (of_nat n) (prefix_len keys) typed es (bw, FBT_KEY) =
      Some (w, if typed \<and> es \<noteq> [] then et else FBT_KEY)" "bw \<le> w"
    "\<forall>(i, v) \<in> set es. fit_from n w v (i + prefix_len keys)" unfolding n_def by blast
  have "least \<le> w" using bw(2) w(2) by (rule order_trans)
  moreover have "\<forall>k. keys = Some k \<longrightarrow> fit_from n w k 0" using bw(3) w(2) fit_from_mono by blast
  ultimately show ?thesis using bw(1) w s by auto
qed

text \<open>\<open>CreateVector\<close> writes these bytes, in a width in which everything fits.\<close>

lemma create_fx_vector_bytes:
  fixes b
  defines "n \<equiv> length (fxb_buf b)"
  assumes es: "every step (drop start (fxb_stack b)) = es" and idx: "\<forall>j<length es. j \<le> fst (es ! j)"
    and den: "\<forall>(i, v) \<in> set es. (\<exists>t. fx_denotes (fxb_buf b) v t) \<and> n + 8 * (i + 3) + 8 < 2 ^ 63"
    and ty: "typed \<Longrightarrow> \<forall>(i, v) \<in> set es. val_type v = et" "typed \<Longrightarrow> es = [] \<Longrightarrow> et = FBT_KEY"
      "typed \<Longrightarrow> es = [] \<or> fst (hd es) = 0" "typed \<Longrightarrow> is_typed_vector_element_type et"
    and keys: "\<And>k. keys = Some k \<Longrightarrow> \<not> typed \<and> \<not> is_inline (val_type k) \<and> (\<exists>t. fx_denotes (fxb_buf b) k t)"
    and n: "n + 8 * length es + 48 < 2 ^ 63"
  shows "\<exists>w. create_fx_vector start (length es) step typed False keys b =
      Some (vector_value n keys typed et w, fxb_write_bytes (vector_bytes n keys typed (map snd es) w) b) \<and>
    width_u (of_nat (length es)) \<le> w \<and>
    (\<forall>j<length es. fx_fits (snd (es ! j)) w (elem_loc n (prefix_len keys + j) w)) \<and>
    (\<forall>k. keys = Some k \<longrightarrow> fx_fits k w (elem_loc n 0 w))"
proof -
  let ?len = "length es" and ?k = width_bytes
  let ?bw0 = "max (force_min_bit_width b) (width_u (of_nat ?len))"
  have den': "\<forall>(i, v) \<in> set es. (\<exists>t. fx_denotes (fxb_buf b) v t) \<and> length (fxb_buf b) + 8 * (i + 3) + 8 < 2 ^ 63"
    using den by (simp add: n_def)
  have n': "length (fxb_buf b) + 48 < 2 ^ 63" using n by (simp add: n_def)
  have kd: "\<exists>t. fx_denotes (fxb_buf b) k t" if "keys = Some k" for k using keys that by blast
  obtain bw w where w: "(case keys of None \<Rightarrow> Some (?bw0, 1)
        | Some k \<Rightarrow> do { w \<leftarrow> elem_width k (fxb_size b) 0; Some (max ?bw0 w, 3) }) = Some (bw, prefix_len keys)"
      "vector_elems (fxb_size b) (prefix_len keys) typed es (bw, FBT_KEY) =
        Some (w, if typed \<and> es \<noteq> [] then et else FBT_KEY)"
      "?bw0 \<le> w" "\<forall>(i, v) \<in> set es. fit_from n w v (i + prefix_len keys)" "\<forall>k. keys = Some k \<longrightarrow> fit_from n w k 0"
    using vector_width [where least = ?bw0, OF den' ty(1,3) kd n'] unfolding n_def by blast
  let ?vs = "map snd es" and ?p = "prefix_len keys"
  have fits: "fx_fits (?vs ! j) w (elem_loc n (?p + j) w)" if j: "j < ?len" for j
  proof -
    obtain i v where iv: "es ! j = (i, v)" by (cases "es ! j")
    have "(i, v) \<in> set es" using nth_mem [OF j] iv by simp
    then have "fit_from n w v (i + ?p)" using w(4) by blast
    moreover have "j \<le> i" using idx j iv by force
    ultimately show ?thesis using iv j by (simp add: fit_from_def)
  qed
  have kfits: "fx_fits k w (elem_loc n 0 w)" if "keys = Some k" for k
    using w(5) that by (simp add: fit_from_def)
  have p3: "?p \<le> 3" by (simp add: prefix_len_def)
  have loc: "elem_loc n j w < 2 ^ 63" if "j \<le> 3 + ?len" for j
    by (rule elem_loc_less [OF _ that]) (use n in simp)
  let ?b1 = "fxb_write_bytes (replicate (pad_to n (?k w)) 0) b"
  have l1: "length (fxb_buf ?b1) = elem_loc n 0 w" by (simp add: n_def elem_loc_0)
  let ?kb = "case keys of None \<Rightarrow> []
      | Some k \<Rightarrow> fx_enc k (?k w) (elem_loc n 0 w) @ le_bytes (?k w) (?k (min_bit_width k))"
  let ?b3 = "fxb_write_bytes (le_bytes (?k w) ?len) (fxb_write_bytes ?kb ?b1)"
  have l3: "length (fxb_buf ?b3) = elem_loc n ?p w"
    using l1 length_fx_enc [OF kfits] by (cases keys) (simp_all add: prefix_len_def elem_loc_def)
  have ulen: "unat (of_nat ?len :: 64 word) = ?len" using n by (intro unat_of_nat_small) simp
  have e1: "\<forall>i<length ?vs. fx_fits (?vs ! i) w (length (fxb_buf ?b3) + i * ?k w)"
    unfolding l3 elem_loc_add using fits by simp
  have e2: "length (fxb_buf ?b3) + length ?vs * ?k w < 2 ^ 63"
    unfolding l3 elem_loc_add using loc [of "?p + ?len"] p3 by simp
  note elems = write_all_enc [OF e1 e2, THEN conjunct1, unfolded l3]
  have ty': "\<not> typed \<or> is_typed_vector_element_type (if typed \<and> es \<noteq> [] then et else FBT_KEY)"
    using ty(4) by (auto simp: is_typed_vector_element_type_def)
  have size: "fxb_size ?b3 = of_nat (elem_loc n ?p w)" using l3 by (simp add: fxb_size_def)
  have al: "fxb_align w b = (?k w, ?b1)"
    unfolding n_def using n' by (intro fxb_align_eq) simp
  have "create_fx_vector start ?len step typed False keys b =
      Some (vector_value n keys typed et w, fxb_write_bytes (vector_bytes n keys typed ?vs w) b)"
  proof (cases keys)
    case None
    have tt: "typed \<Longrightarrow> to_typed_vector et 0 = Some (et + 10)"
      using ty(4) by (auto simp: to_typed_vector_def is_typed_vector_element_type_def)
    have w2: "vector_elems (fxb_size b) 1 typed es (?bw0, FBT_KEY) = Some (w, if typed then et else FBT_KEY)"
      using w(1,2) ty(2) None by (cases "es = []"; cases typed) (auto simp: prefix_len_def)
    show ?thesis
      using w2 ty(4) elems tt size None
      by (cases typed) (simp_all add: create_fx_vector_def es al fxb_write_8 ulen vector_value_def vector_bytes_def
        prefix_len_def del: unat_of_nat of_nat_add)
  next
    case (Some k)
    have nt: "\<not> typed" using keys Some by blast
    obtain wk where wk: "elem_width k (fxb_size b) 0 = Some wk"
        "vector_elems (fxb_size b) 3 typed es (max ?bw0 wk, FBT_KEY) = Some (w, FBT_KEY)"
      using w(1,2) Some nt by (auto simp: prefix_len_def split: bind_splits)
    have off: "fxb_write_offset (val_bits k) (?k w) ?b1 = Some (fxb_write_bytes (fx_enc k (?k w) (elem_loc n 0 w)) ?b1)"
      using write_keys_offset [OF _ kfits l1 loc [of 0]] keys Some by simp
    show ?thesis
      using wk off elems size Some nt
      by (simp add: create_fx_vector_def es al fxb_write_8 ulen vector_value_def vector_bytes_def prefix_len_def
        del: unat_of_nat of_nat_add)
  qed
  moreover have "width_u (of_nat ?len) \<le> ?bw0" by (simp del: bit_width_less_eq)
  ultimately show ?thesis using fits kfits order_trans [OF _ w(3)] by auto
qed

end
