(* ===== verification/Fx_Vector_Read.thy ===== *)
theory Fx_Vector_Read
  imports Fx_Vector_Write
begin

text \<open>
  Reading the vectors and maps that \<open>CreateVector\<close> of \<open>flexbuffers.h\<close> wrote: their size, their
  elements with the types, and the keys of a map.
\<close>

declare One_nat_def [simp del]

section \<open>The parts of a vector\<close>

text \<open>A vector stands at position \<open>n\<close> of the buffer, in a width in which everything fits.\<close>

definition vector_at ::
  "byte list \<Rightarrow> nat \<Rightarrow> fx_value option \<Rightarrow> bool \<Rightarrow> fx_value list \<Rightarrow> bit_width \<Rightarrow> bool" where
  "vector_at buf n keys typed vs w \<longleftrightarrow>
     (\<exists>xs ys. buf = xs @ vector_bytes n keys typed vs w @ ys \<and> length xs = n) \<and>
     n + 9 * length vs + 48 < 2 ^ 63 \<and> width_u (of_nat (length vs)) \<le> w \<and>
     (\<forall>j<length vs. fx_fits (vs ! j) w (elem_loc n (prefix_len keys + j) w)) \<and>
     (\<forall>k. keys = Some k \<longrightarrow> fx_fits k w (elem_loc n 0 w))"

lemma fx_read_within:
  assumes "buf = xs @ ys @ zs" and "length xs = p" and "j + k \<le> length ys" and "p + j < 2 ^ 63"
  shows "fx_read k buf (Fx_Buffer, of_nat (p + j)) = Some (take k (drop j ys))"
proof -
  have "unat (of_nat (p + j) :: size_t) = p + j" using assms(4) by (intro unat_of_nat_small) simp
  then show ?thesis using assms by (simp add: fx_read_def read_bytes_def del: of_nat_add)
qed

lemma width_bytes_le_8: "width_bytes w \<le> 8"
  by (cases w) simp_all

lemma vector_loc_less:
  assumes "vector_at buf n keys typed vs w" and "i \<le> 3 + length vs"
  shows "elem_loc n i w < 2 ^ 63"
  by (rule elem_loc_less [of n "3 + length vs", OF _ assms(2)]) (use assms(1) in \<open>simp add: vector_at_def\<close>)

lemma vector_parts:
  assumes "vector_at buf n keys typed vs w"
  obtains pre kb post where
    "buf = pre @ kb @ le_bytes (width_bytes w) (length vs) @
       fx_enc_all vs (width_bytes w) (elem_loc n (prefix_len keys) w) @
       (if typed then [] else map (\<lambda>v. stored_packed_type v w) vs) @ post"
    "length pre = elem_loc n 0 w"
    "length (fx_enc_all vs (width_bytes w) (elem_loc n (prefix_len keys) w)) = length vs * width_bytes w"
    "length kb = (case keys of None \<Rightarrow> 0 | Some k \<Rightarrow> 2 * width_bytes w)"
    "kb = (case keys of None \<Rightarrow> []
      | Some k \<Rightarrow> fx_enc k (width_bytes w) (elem_loc n 0 w) @ le_bytes (width_bytes w) (width_bytes (min_bit_width k)))"
    "\<forall>j<length vs. take (width_bytes w) (drop (j * width_bytes w)
        (fx_enc_all vs (width_bytes w) (elem_loc n (prefix_len keys) w))) =
      fx_enc (vs ! j) (width_bytes w) (elem_loc n (prefix_len keys + j) w)"
proof -
  let ?k = "width_bytes w" and ?l = "elem_loc n (prefix_len keys) w"
  obtain xs ys where b: "buf = xs @ vector_bytes n keys typed vs w @ ys" "length xs = n"
    using assms by (auto simp: vector_at_def)
  have p: "prefix_len keys \<le> 3" by (simp add: prefix_len_def)
  define b0 where "b0 = (fxb_new 0)\<lparr>fxb_buf := replicate ?l 0\<rparr>"
  have l: "length (fxb_buf b0) = ?l" by (simp add: b0_def)
  have "\<forall>i<length vs. fx_fits (vs ! i) w (length (fxb_buf b0) + i * ?k)"
    using assms unfolding l elem_loc_add by (simp add: vector_at_def)
  moreover have "length (fxb_buf b0) + length vs * ?k < 2 ^ 63"
    using vector_loc_less [OF assms, of "prefix_len keys + length vs"] p unfolding l elem_loc_add by simp
  ultimately have e: "length (fx_enc_all vs ?k ?l) = length vs * ?k"
    "\<forall>i<length vs. take ?k (drop (i * ?k) (fx_enc_all vs ?k ?l)) = fx_enc (vs ! i) ?k (?l + i * ?k)"
    using write_all_enc [of vs w b0] unfolding l by simp_all
  have kl: "length (fx_enc k ?k (elem_loc n 0 w)) = ?k" if "keys = Some k" for k
    using assms that by (intro length_fx_enc) (simp add: vector_at_def)
  show ?thesis
    by (rule that [of "xs @ replicate (pad_to n ?k) 0" _ ys, OF _ _ e(1) _ refl])
      (use b kl e(2) in \<open>auto simp: vector_bytes_def elem_loc_0 elem_loc_add split: option.splits\<close>)
qed

lemma vector_sized:
  assumes v: "vector_at buf n keys typed vs w"
  shows "read_size buf (Fx_Buffer, of_nat (elem_loc n (prefix_len keys) w)) (of_nat (width_bytes w)) =
    Some (of_nat (length vs))"
proof -
  let ?k = "width_bytes w" and ?p = "prefix_len keys"
  obtain pre kb post where b: "buf = pre @ kb @ le_bytes ?k (length vs) @
       fx_enc_all vs ?k (elem_loc n ?p w) @ (if typed then [] else map (\<lambda>v. stored_packed_type v w) vs) @ post"
    and l: "length pre = elem_loc n 0 w" "length kb = (case keys of None \<Rightarrow> 0 | Some k \<Rightarrow> 2 * ?k)"
    by (rule vector_parts [OF v])
  have e: "elem_loc n ?p w = length (pre @ kb) + ?k"
    using l by (cases keys) (simp_all add: prefix_len_def elem_loc_def)
  have loc: "elem_loc n ?p w < 2 ^ 63" by (rule vector_loc_less [OF v]) (simp add: prefix_len_def)
  have len: "unat (of_nat (length vs) :: size_t) = length vs"
    using v by (intro unat_of_nat_small) (simp add: vector_at_def)
  have "fx_read ?k buf (Fx_Buffer, of_nat (length (pre @ kb))) = Some (le_bytes ?k (length vs))"
    by (rule fx_read_piece [of _ "pre @ kb"]) (use b e loc in simp_all)
  moreover have "unat (of_nat (length vs) :: size_t) < 256 ^ ?k"
    using v width_u_le [of "of_nat (length vs)" w] by (simp add: vector_at_def del: bit_width_less_eq)
  ultimately have "read_uint64 buf (Fx_Buffer, of_nat (length (pre @ kb))) (of_nat ?k) = Some (of_nat (length vs))"
    by (intro read_uint64_le_bytes [of ?k]) (simp_all only: len width_bytes_le_8, cases w, simp_all)
  moreover have "(of_nat (elem_loc n ?p w) - ucast (of_nat ?k :: byte) :: size_t) = of_nat (length (pre @ kb))"
    unfolding e by (cases w) simp_all
  ultimately show ?thesis by (simp add: read_size_def ptr_sub_def)
qed

lemma vector_elem:
  assumes v: "vector_at buf n keys typed vs w" and j: "j < length vs"
  shows "fx_read (width_bytes w) buf (Fx_Buffer, of_nat (elem_loc n (prefix_len keys + j) w)) =
    Some (fx_enc (vs ! j) (width_bytes w) (elem_loc n (prefix_len keys + j) w))"
proof -
  let ?k = "width_bytes w" and ?p = "prefix_len keys"
  let ?e = "fx_enc_all vs ?k (elem_loc n ?p w)"
  obtain pre kb post where b: "buf = pre @ kb @ le_bytes ?k (length vs) @ ?e @
       (if typed then [] else map (\<lambda>v. stored_packed_type v w) vs) @ post"
    and l: "length pre = elem_loc n 0 w" "length ?e = length vs * ?k" "length kb = (case keys of None \<Rightarrow> 0 | Some k \<Rightarrow> 2 * ?k)"
    and e: "\<forall>j<length vs. take ?k (drop (j * ?k) ?e) = fx_enc (vs ! j) ?k (elem_loc n (?p + j) w)"
    by (rule vector_parts [OF v])
  have s: "elem_loc n (?p + j) w = length (pre @ kb @ le_bytes ?k (length vs)) + j * ?k"
    using l by (cases keys) (simp_all add: prefix_len_def elem_loc_def algebra_simps)
  have loc: "elem_loc n (?p + j) w < 2 ^ 63" by (rule vector_loc_less [OF v]) (use j in \<open>simp add: prefix_len_def\<close>)
  have "Suc j * ?k \<le> length vs * ?k" using j by (intro mult_le_mono1) simp
  then have "fx_read ?k buf (Fx_Buffer, of_nat (length (pre @ kb @ le_bytes ?k (length vs)) + j * ?k)) =
      Some (take ?k (drop (j * ?k) ?e))"
    by (intro fx_read_within [of _ "pre @ kb @ le_bytes ?k (length vs)"])
      (use b l(2) loc s in \<open>simp_all del: of_nat_add\<close>)
  then show ?thesis using e j s by simp
qed

lemma vector_type_byte:
  assumes v: "vector_at buf n keys False vs w" and j: "j < length vs"
  shows "fx_read 1 buf (Fx_Buffer, of_nat (elem_loc n (prefix_len keys + length vs) w + j)) =
    Some [stored_packed_type (vs ! j) w]"
proof -
  let ?k = "width_bytes w" and ?p = "prefix_len keys"
  let ?e = "fx_enc_all vs ?k (elem_loc n ?p w)" and ?t = "map (\<lambda>v. stored_packed_type v w) vs"
  obtain pre kb post where b: "buf = pre @ kb @ le_bytes ?k (length vs) @ ?e @ (if False then [] else ?t) @ post"
    and l: "length pre = elem_loc n 0 w" "length ?e = length vs * ?k" "length kb = (case keys of None \<Rightarrow> 0 | Some k \<Rightarrow> 2 * ?k)"
    by (rule vector_parts [OF v])
  have s: "elem_loc n (?p + length vs) w = length (pre @ kb @ le_bytes ?k (length vs) @ ?e)"
    using l by (cases keys) (simp_all add: prefix_len_def elem_loc_def algebra_simps)
  have "length vs * ?k \<le> length vs * 8" using width_bytes_le_8 [of w] by simp
  moreover have "?p * ?k \<le> 3 * 8" using width_bytes_le_8 [of w] by (intro mult_le_mono) (simp_all add: prefix_len_def)
  ultimately have loc: "elem_loc n (?p + length vs) w + j < 2 ^ 63"
    using v j pad_width_less [of n w] width_bytes_le_8 [of w]
    unfolding elem_loc_def vector_at_def add_mult_distrib by linarith
  have "fx_read 1 buf (Fx_Buffer, of_nat (length (pre @ kb @ le_bytes ?k (length vs) @ ?e) + j)) =
      Some (take 1 (drop j ?t))"
    by (rule fx_read_within [of _ "pre @ kb @ le_bytes ?k (length vs) @ ?e" _ post])
      (use b j loc s in \<open>simp_all del: of_nat_add\<close>)
  moreover have "take 1 (drop j ?t) = [stored_packed_type (vs ! j) w]"
    using j by (simp add: take_Suc_conv_app_nth hd_drop_conv_nth One_nat_def take_Suc)
  ultimately show ?thesis using s by simp
qed

section \<open>Elements\<close>

lemma unat_elem_loc_vector:
  assumes "vector_at buf n keys typed vs w" and "i \<le> 3 + length vs"
  shows "unat (of_nat (elem_loc n i w) :: size_t) = elem_loc n i w"
  using vector_loc_less [OF assms] by (intro unat_of_nat_small) simp

lemma of_nat_elem_loc_add:
  "of_nat (elem_loc n i w) + of_nat j * of_nat (width_bytes w) = (of_nat (elem_loc n (i + j) w) :: size_t)"
  by (simp add: elem_loc_def algebra_simps)

lemma ucast_width_bytes [simp]: "ucast (of_nat (width_bytes w) :: byte) = (of_nat (width_bytes w) :: size_t)"
  by (cases w) simp_all

lemma element_reads:
  assumes v: "vector_at buf n keys typed vs w" and j: "j < length vs" and t: "fx_denotes buf (vs ! j) t"
    and r: "rf_data r = (Fx_Buffer, of_nat (elem_loc n (prefix_len keys + j) w))"
      "rf_parent_width r = of_nat (width_bytes w)" "rf_type r = val_type (vs ! j)"
    and bw: "\<not> is_inline (val_type (vs ! j)) \<Longrightarrow> val_type (vs ! j) \<noteq> FBT_KEY \<Longrightarrow>
      rf_byte_width r = of_nat (width_bytes (min_bit_width (vs ! j)))"
  shows "fx_reads buf r t"
proof -
  have u: "unat (of_nat (elem_loc n (prefix_len keys + j) w) :: size_t) = elem_loc n (prefix_len keys + j) w"
    by (rule unat_elem_loc_vector [OF v]) (use j in \<open>simp add: prefix_len_def\<close>)
  show ?thesis
    by (rule written_reads [OF t _ _ r bw]) (use v j u vector_elem [OF v j] in \<open>simp_all add: vector_at_def\<close>)
qed

definition vector_object :: "nat \<Rightarrow> fx_value option \<Rightarrow> nat \<Rightarrow> bit_width \<Rightarrow> fx_sized" where
  "vector_object n keys len w = \<lparr>ob_data = (Fx_Buffer, of_nat (elem_loc n (prefix_len keys) w)),
     ob_width = of_nat (width_bytes w), ob_size = of_nat len\<rparr>"

lemma vector_sized_at:
  assumes "vector_at buf n keys typed vs w"
  shows "sized_at buf (Fx_Buffer, of_nat (elem_loc n (prefix_len keys) w)) (of_nat (width_bytes w)) =
    Some (vector_object n keys (length vs) w)"
  using vector_sized [OF assms] by (simp add: sized_at_def vector_object_def)

lemma denotes_type: "fx_denotes buf v t \<Longrightarrow> val_type v < 64"
  by (induction rule: fx_denotes.induct) (simp_all add: value_defs)

lemma vector_get_reads:
  assumes v: "vector_at buf n keys False vs w" and j: "j < length vs" and t: "fx_denotes buf (vs ! j) t"
  shows "\<exists>e. fx_vector_get buf (vector_object n keys (length vs) w) (of_nat j) = Some e \<and> fx_reads buf e t"
proof -
  let ?p = "prefix_len keys" and ?len = "of_nat (length vs) :: size_t" and ?st = "stored_packed_type (vs ! j) w"
  have lens: "unat ?len = length vs" "unat (of_nat j :: size_t) = j"
    using v j by (intro unat_of_nat_small; simp add: vector_at_def)+
  have d: "ptr_add (Fx_Buffer, of_nat (elem_loc n ?p w)) (?len * of_nat (width_bytes w) + of_nat j) =
      (Fx_Buffer, of_nat (elem_loc n (?p + length vs) w + j))"
    by (simp add: ptr_add_def flip: of_nat_elem_loc_add)
  have "fx_vector_get buf (vector_object n keys (length vs) w) (of_nat j) =
      Some (packed_reference (Fx_Buffer, of_nat (elem_loc n (?p + j) w)) (of_nat (width_bytes w)) ?st)"
    using vector_type_byte [OF v j] d lens j
    by (simp add: fx_vector_get_def vector_object_def Let_def word_le_nat_alt ptr_add_def of_nat_elem_loc_add
      del: unat_of_nat of_nat_add)
  moreover have "fx_reads buf (packed_reference (Fx_Buffer, of_nat (elem_loc n (?p + j) w)) (of_nat (width_bytes w)) ?st) t"
    by (rule element_reads [OF v j t])
      (use denotes_type [OF t] in \<open>simp_all add: packed_reference_def stored_packed_type_def packed_width_type stored_width_def\<close>)
  ultimately show ?thesis by blast
qed

lemma vector_content:
  assumes v: "vector_at buf n None False vs w" and ts: "list_all2 (fx_denotes buf) vs ts"
  shows "fx_content buf FBT_VECTOR (of_nat (elem_loc n 1 w)) (of_nat (width_bytes w)) (FVector ts)"
proof -
  have len: "length ts = length vs" using ts by (simp add: list_all2_lengthD)
  have u: "unat (of_nat (length vs) :: size_t) = length vs"
    using v by (intro unat_of_nat_small) (simp add: vector_at_def)
  show ?thesis
  proof (rule content_vector [of _ _ _ "vector_object n None (length vs) w"])
    show "sized_at buf (Fx_Buffer, of_nat (elem_loc n 1 w)) (of_nat (width_bytes w)) =
        Some (vector_object n None (length vs) w)"
      using vector_sized_at [OF v] by (simp add: prefix_len_def)
    show "unat (ob_size (vector_object n None (length vs) w)) = length ts"
      using len u by (simp add: vector_object_def del: unat_of_nat)
    show "\<forall>i<length ts. \<exists>e. fx_vector_get buf (vector_object n None (length vs) w) (of_nat i) = Some e \<and>
        fx_reads buf e (ts ! i)"
      using vector_get_reads [OF v] ts len by (simp add: list_all2_conv_all_nth)
  qed
qed

lemma typed_content:
  assumes v: "vector_at buf n None True vs w" and ts: "list_all2 (fx_denotes buf) vs ts"
    and et: "\<forall>v \<in> set vs. val_type v = et" "is_typed_vector_element_type et" "et \<noteq> FBT_STRING"
      "is_inline et \<or> et = FBT_KEY"
  shows "fx_content buf (et + 10) (of_nat (elem_loc n 1 w)) (of_nat (width_bytes w)) (FTypedVector ts)"
proof -
  let ?tv = "\<lparr>ob_data = (Fx_Buffer, of_nat (elem_loc n 1 w)), ob_width = of_nat (width_bytes w),
    ob_size = of_nat (length vs), tv_type = et\<rparr>"
  have len: "length ts = length vs" using ts by (simp add: list_all2_lengthD)
  have u: "unat (of_nat (length vs) :: size_t) = length vs"
    using v by (intro unat_of_nat_small) (simp add: vector_at_def)
  have e: "to_typed_vector_element_type (et + 10) = Some et"
    using et(2) by (auto simp: to_typed_vector_element_type_def is_typed_vector_def is_typed_vector_element_type_def)
  have at: "typed_vector_at buf (Fx_Buffer, of_nat (elem_loc n 1 w)) (of_nat (width_bytes w)) et = Some ?tv"
    using vector_sized [OF v] by (simp add: typed_vector_at_def prefix_len_def)
  have el: "fx_reads buf (typed_vector_get ?tv (of_nat i)) (ts ! i)" if i: "i < length ts" for i
  proof (rule element_reads [OF v])
    have ui: "unat (of_nat i :: size_t) = i"
      using v i len by (intro unat_of_nat_small) (simp add: vector_at_def)
    have g: "typed_vector_get ?tv (of_nat i) = \<lparr>rf_data = (Fx_Buffer, of_nat (elem_loc n (1 + i) w)),
        rf_parent_width = of_nat (width_bytes w), rf_byte_width = 1, rf_type = et\<rparr>"
      using i len u ui by (simp add: typed_vector_get_def word_le_nat_alt ptr_add_def of_nat_elem_loc_add
        del: unat_of_nat of_nat_add)
    show "i < length vs" using i len by simp
    then have "val_type (vs ! i) = et" using et(1) by simp
    then show "rf_type (typed_vector_get ?tv (of_nat i)) = val_type (vs ! i)"
      "\<not> is_inline (val_type (vs ! i)) \<Longrightarrow> val_type (vs ! i) \<noteq> FBT_KEY \<Longrightarrow>
        rf_byte_width (typed_vector_get ?tv (of_nat i)) = of_nat (width_bytes (min_bit_width (vs ! i)))"
      using et(4) g by auto
    show "fx_denotes buf (vs ! i) (ts ! i)" using ts i by (simp add: list_all2_conv_all_nth)
    show "rf_data (typed_vector_get ?tv (of_nat i)) = (Fx_Buffer, of_nat (elem_loc n (prefix_len None + i) w))"
      "rf_parent_width (typed_vector_get ?tv (of_nat i)) = of_nat (width_bytes w)"
      using g by (simp_all add: prefix_len_def)
  qed
  show ?thesis
    by (rule content_typed [OF e et(3) at]) (use el u len in \<open>simp_all del: unat_of_nat\<close>)
qed

section \<open>Maps\<close>

lemma map_keys_of_vector:
  assumes v: "vector_at buf n (Some k) False vs w" and k: "val_type k = FBT_VECTOR_KEY"
    and tv: "typed_vector_at buf (Fx_Buffer, val_bits k) (of_nat (width_bytes (min_bit_width k))) FBT_KEY = Some ks"
  shows "map_keys buf (vector_object n (Some k) (length vs) w) = Some ks"
proof -
  let ?k = "width_bytes w"
  obtain pre kb post where b: "buf = pre @ kb @ le_bytes ?k (length vs) @
       fx_enc_all vs ?k (elem_loc n (prefix_len (Some k)) w) @
       (if False then [] else map (\<lambda>v. stored_packed_type v w) vs) @ post"
    and l: "length pre = elem_loc n 0 w"
    and kb: "kb = (case Some k of None \<Rightarrow> []
      | Some k \<Rightarrow> fx_enc k ?k (elem_loc n 0 w) @ le_bytes ?k (width_bytes (min_bit_width k)))"
    by (rule vector_parts [OF v])
  have inl: "\<not> is_inline (val_type k)" by (simp add: k is_inline_def)
  have fits: "fx_fits k w (elem_loc n 0 w)" using v by (simp add: vector_at_def)
  have loc: "elem_loc n i w < 2 ^ 63" if "i \<le> 3" for i using vector_loc_less [OF v] that by simp
  have u0: "unat (of_nat (elem_loc n 0 w) :: size_t) = elem_loc n 0 w" by (rule unat_elem_loc_vector [OF v]) simp
  have enc: "length (fx_enc k ?k (elem_loc n 0 w)) = ?k" using fits by (rule length_fx_enc)
  have r0: "fx_read ?k buf (Fx_Buffer, of_nat (elem_loc n 0 w)) = Some (fx_enc k ?k (elem_loc n 0 w))"
    by (rule fx_read_piece [of _ pre]) (use b kb l enc loc in simp_all)
  then have i: "fx_indirect buf (Fx_Buffer, of_nat (elem_loc n 0 w)) (of_nat ?k) = Some (Fx_Buffer, val_bits k)"
    using fits inl u0 k by (intro read_offset) (simp_all add: fx_enc_def fx_fits_def)
  have e1: "elem_loc n 1 w = length (pre @ fx_enc k ?k (elem_loc n 0 w))" using l enc by (simp add: elem_loc_def)
  have "fx_read ?k buf (Fx_Buffer, of_nat (elem_loc n 1 w)) = Some (le_bytes ?k (width_bytes (min_bit_width k)))"
    by (rule fx_read_piece [of _ "pre @ fx_enc k ?k (elem_loc n 0 w)"]) (use b kb e1 loc [of 1] in simp_all)
  moreover have width_less: "width_bytes (min_bit_width k) < 256 ^ ?k"
    by (rule order_le_less_trans [OF width_bytes_le_8]) (cases w; simp)
  ultimately have r1: "read_uint64 buf (Fx_Buffer, of_nat (elem_loc n 1 w)) (of_nat ?k) =
      Some (of_nat (width_bytes (min_bit_width k)))"
    using width_less
    by (intro read_uint64_le_bytes [of ?k]) (simp_all add: width_bytes_le_8 del: unat_of_nat)
  have "(of_nat (elem_loc n 3 w) - of_nat ?k * 3 :: size_t) = of_nat (elem_loc n 0 w)"
    "(of_nat (elem_loc n 0 w) + of_nat ?k :: size_t) = of_nat (elem_loc n 1 w)"
    by (simp_all add: elem_loc_def)
  moreover have "ucast (of_nat (width_bytes (min_bit_width k)) :: 64 word) = (of_nat (width_bytes (min_bit_width k)) :: byte)"
    by (cases "min_bit_width k") simp_all
  ultimately show ?thesis
    using i r1 tv by (simp add: map_keys_def vector_object_def prefix_len_def ptr_sub_def ptr_add_def Let_def)
qed

text \<open>A value that denotes a vector of keys, and its elements.\<close>

lemma map_content:
  assumes v: "vector_at buf n (Some k) False vs w" and k: "val_type k = FBT_VECTOR_KEY"
    and kc: "fx_content buf FBT_VECTOR_KEY (val_bits k) (of_nat (width_bytes (min_bit_width k)))
      (FTypedVector (map (\<lambda>kv. FKey (fst kv)) (sort_map kvs)))"
    and ts: "list_all2 (fx_denotes buf) vs (map snd (sort_map kvs))" and d: "distinct (map fst kvs)"
  shows "fx_content buf FBT_MAP (of_nat (elem_loc n 3 w)) (of_nat (width_bytes w)) (FMap kvs)"
proof -
  obtain ks where ks: "typed_vector_at buf (Fx_Buffer, val_bits k) (of_nat (width_bytes (min_bit_width k))) FBT_KEY = Some ks"
      "unat (ob_size ks) = length kvs"
      "\<And>i. i < length kvs \<Longrightarrow> fx_reads buf (typed_vector_get ks (of_nat i)) (FKey (fst (sort_map kvs ! i)))"
    using kc by cases (auto simp: to_typed_vector_element_type_def is_typed_vector_def sort_map_def)
  have o1: "fst (ob_data ks) = Fx_Buffer" "ob_width ks = of_nat (width_bytes (min_bit_width k))" "tv_type ks = FBT_KEY"
    using ks(1) by (auto simp: typed_vector_at_def split: bind_splits)
  have len: "length vs = length kvs" using ts by (simp add: list_all2_lengthD [OF ts] sort_map_def)
  have u: "unat (of_nat (length vs) :: size_t) = length vs"
    using v by (intro unat_of_nat_small) (simp add: vector_at_def)
  have w4: "ob_width ks \<in> {1, 2, 4, 8}" unfolding o1(2) by (cases "min_bit_width k") simp_all
  have sz: "ob_size ks = of_nat (length vs)" using ks(2) len u by (metis word_unat_eq_iff)
  have vals: "\<exists>e. fx_vector_get buf (vector_object n (Some k) (length vs) w) (of_nat i) = Some e \<and>
      fx_reads buf e (snd (sort_map kvs ! i))" if "i < length kvs" for i
    using vector_get_reads [OF v, of i] ts that len
    by (auto simp: list_all2_conv_all_nth sort_map_def)
  show ?thesis
    by (rule content_map [OF _ _ map_keys_of_vector [OF v k ks(1)] o1(1) _ w4 o1(3) _ _ d])
      (use vector_sized_at [OF v] u len sz ks(3) vals in \<open>simp_all add: vector_object_def prefix_len_def del: unat_of_nat\<close>)
qed

end
