(* ===== verification/Fx_Build.thy ===== *)
theory Fx_Build
  imports Fx_Vector_Read
begin

text \<open>
  Building a value with \<open>Builder\<close> of \<open>flexbuffers.h\<close>: every operation pushes one value on the
  stack that denotes what was asked for, and only appends to the buffer.
\<close>

declare One_nat_def [simp del]

section \<open>The builder\<close>

text \<open>What the pools hold can be found in the buffer.\<close>

definition pool_entry_ok :: "byte list \<Rightarrow> size_t \<times> size_t \<Rightarrow> bool" where
  "pool_entry_ok buf e \<longleftrightarrow> unat (fst e) \<le> length buf \<and> unat (snd e) < 2 ^ 63 \<and> (\<exists>s. unat (snd e) = length s \<and>
     fx_content buf FBT_STRING (fst e) (of_nat (width_bytes (width_u (snd e)))) (FString s))"

definition pools_ok :: "fx_builder \<Rightarrow> bool" where
  "pools_ok b \<longleftrightarrow>
     (\<forall>k \<in> set (key_pool b). unat k \<le> length (fxb_buf b) \<and> (\<exists>s. c_string (fxb_buf b) k = Some s)) \<and>
     (\<forall>e \<in> set (fx_string_pool b). pool_entry_ok (fxb_buf b) e)"

text \<open>\<open>fxb_adds b c ts b'\<close>: \<open>b'\<close> has values for \<open>ts\<close> on top of the stack of \<open>b\<close> and at most \<open>c\<close> bytes more.\<close>

definition fxb_adds :: "fx_builder \<Rightarrow> nat \<Rightarrow> fx_tree list \<Rightarrow> fx_builder \<Rightarrow> bool" where
  "fxb_adds b c ts b' \<longleftrightarrow> pools_ok b' \<and> (\<exists>xs vs. fxb_buf b' = fxb_buf b @ xs \<and> length xs \<le> c \<and>
     fxb_stack b' = fxb_stack b @ vs \<and> list_all2 (fx_denotes (fxb_buf b')) vs ts)"

lemma pools_ok_append:
  assumes "pools_ok b" and "fxb_buf b' = fxb_buf b @ xs" "key_pool b' = key_pool b" "fx_string_pool b' = fx_string_pool b"
  shows "pools_ok b'"
  using assms unfolding pools_ok_def pool_entry_ok_def by (fastforce intro: fx_append c_string_append)

lemma fxb_addsI:
  assumes "pools_ok b'" "fxb_buf b' = fxb_buf b @ xs" "length xs \<le> c"
    "fxb_stack b' = fxb_stack b @ vs" "list_all2 (fx_denotes (fxb_buf b')) vs ts"
  shows "fxb_adds b c ts b'"
  using assms unfolding fxb_adds_def by blast

lemma denotes_list_append:
  "list_all2 (fx_denotes buf) vs ts \<Longrightarrow> list_all2 (fx_denotes (buf @ xs)) vs ts"
  by (auto elim!: list_all2_mono fx_denotes_append)

lemma fxb_adds_trans:
  assumes "fxb_adds b c ts b'" and "fxb_adds b' c' ts' b''"
  shows "fxb_adds b (c + c') (ts @ ts') b''"
proof -
  obtain xs vs where 1: "fxb_buf b' = fxb_buf b @ xs" "length xs \<le> c" "fxb_stack b' = fxb_stack b @ vs"
      "list_all2 (fx_denotes (fxb_buf b')) vs ts"
    using assms(1) by (auto simp: fxb_adds_def)
  obtain ys us where 2: "pools_ok b''" "fxb_buf b'' = fxb_buf b' @ ys" "length ys \<le> c'" "fxb_stack b'' = fxb_stack b' @ us"
      "list_all2 (fx_denotes (fxb_buf b'')) us ts'"
    using assms(2) by (auto simp: fxb_adds_def)
  have "list_all2 (fx_denotes (fxb_buf b'')) (vs @ us) (ts @ ts')"
    using denotes_list_append [OF 1(4), of ys] 2 by (intro list_all2_appendI) simp_all
  then show ?thesis using 1 2 by (intro fxb_addsI [of _ _ "xs @ ys" _ "vs @ us"]) simp_all
qed

lemma fxb_adds_refl: "pools_ok b \<Longrightarrow> fxb_adds b 0 [] b"
  by (rule fxb_addsI [of _ _ "[]" _ "[]"]) simp_all

lemma fxb_adds_mono: "fxb_adds b c ts b' \<Longrightarrow> c \<le> c' \<Longrightarrow> fxb_adds b c' ts b'"
  unfolding fxb_adds_def by (meson order_trans)

lemma fxb_adds_pools: "fxb_adds b c ts b' \<Longrightarrow> pools_ok b'"
  by (simp add: fxb_adds_def)

lemma fxb_adds_length: "fxb_adds b c ts b' \<Longrightarrow> length (fxb_buf b') \<le> length (fxb_buf b) + c"
  by (auto simp: fxb_adds_def)

section \<open>Scalars\<close>

lemma push_adds:
  assumes "pools_ok b" and "fx_denotes (fxb_buf b) v t"
  shows "fxb_adds b c [t] (fxb_push v b)"
  by (rule fxb_addsI [of _ _ "[]" _ "[v]"])
    (use assms pools_ok_append [OF assms(1), of "fxb_push v b" "[]"] in \<open>simp_all add: fxb_push_def\<close>)

text \<open>Writing and then pushing a value.\<close>

lemma write_push_adds:
  assumes "pools_ok b" and "fx_denotes (fxb_buf b @ xs) v t" and "length xs \<le> c"
  shows "fxb_adds b c [t] (fxb_push v (fxb_write_bytes xs b))"
  by (rule fxb_addsI [of _ _ xs _ "[v]"])
    (use assms pools_ok_append [OF assms(1), of "fxb_push v (fxb_write_bytes xs b)" xs] in
      \<open>simp_all add: fxb_push_def fxb_write_bytes_def\<close>)

lemma pad_width_le: "pad_to n (width_bytes w) \<le> 7"
  using pad_width_less [of n w] width_bytes_le_8 [of w] by linarith

lemma aligned_size:
  assumes "length buf + 8 < 2 ^ 63"
  shows "unat (of_nat (length buf + pad_to (length buf) (width_bytes w)) :: size_t) =
    length buf + pad_to (length buf) (width_bytes w)"
  using assms pad_width_le [of "length buf" w] by (intro unat_of_nat_small) simp

lemma indirect_adds:
  assumes b: "pools_ok b" "length (fxb_buf b) + 16 < 2 ^ 63"
    and ty: "ty = FBT_INDIRECT_INT \<and> t = FIndirectInt x \<and> w = width_i x \<or>
      ty = FBT_INDIRECT_UINT \<and> t = FIndirectUInt x \<and> w = width_u x"
  shows "\<exists>b'. fxb_push_indirect 8 x ty w b = Some b' \<and> fxb_adds b 16 [t] b'"
proof -
  let ?n = "length (fxb_buf b)" and ?k = "width_bytes w"
  let ?z = "replicate (pad_to ?n ?k) 0" and ?bs = "le_bytes ?k (unat x)"
  let ?p = "of_nat (?n + pad_to ?n ?k) :: size_t" and ?buf = "fxb_buf b @ ?z @ ?bs"
  have al: "fxb_align w b = (?k, fxb_write_bytes ?z b)" using b(2) by (intro fxb_align_eq) simp
  have p: "unat ?p = ?n + pad_to ?n ?k" using b(2) by (intro aligned_size) simp
  have lt: "?n + pad_to ?n ?k < 2 ^ 63" using pad_width_le [of ?n w] b(2) by linarith
  have "fx_read ?k ?buf (Fx_Buffer, of_nat (?n + pad_to ?n ?k)) = Some ?bs"
    by (rule fx_read_piece [of _ "fxb_buf b @ ?z" _ "[]"]) (use lt in simp_all)
  then have "fx_content ?buf ty ?p (of_nat ?k) t"
    using ty
  proof (elim disjE)
    assume r: "fx_read ?k ?buf (Fx_Buffer, of_nat (?n + pad_to ?n ?k)) = Some ?bs"
      and t: "ty = FBT_INDIRECT_INT \<and> t = FIndirectInt x \<and> w = width_i x"
    have "read_int64 ?buf (Fx_Buffer, ?p) (of_nat ?k) = Some x"
      by (rule read_int64_le_bytes [OF r]) (simp add: t)
    then show ?thesis using t by (auto intro: content_indirect_int)
  next
    assume r: "fx_read ?k ?buf (Fx_Buffer, of_nat (?n + pad_to ?n ?k)) = Some ?bs"
      and t: "ty = FBT_INDIRECT_UINT \<and> t = FIndirectUInt x \<and> w = width_u x"
    have "read_uint64 ?buf (Fx_Buffer, ?p) (of_nat ?k) = Some x"
      by (rule read_uint64_le_bytes [OF r]) (use t width_u_fits [of x] in \<open>simp_all add: width_bytes_le_8 del: unat_of_nat\<close>)
    then show ?thesis using t by (auto intro: content_indirect_uint)
  qed
  then have d: "fx_denotes ?buf (fx_make_value ?p ty w) t"
    using ty p by (intro denotes_offset) (auto simp: is_inline_def simp del: of_nat_add)
  have "fxb_push_indirect 8 x ty w b = Some (fxb_push (fx_make_value ?p ty w) (fxb_write_bytes (?z @ ?bs) b))"
    using al by (simp add: fxb_push_indirect_def fxb_write_8 fxb_size_def)
  moreover have "fxb_adds b 16 [t] (fxb_push (fx_make_value ?p ty w) (fxb_write_bytes (?z @ ?bs) b))"
    using pad_width_le [of ?n w] width_bytes_le_8 [of w] by (intro write_push_adds b d) simp
  ultimately show ?thesis by blast
qed

section \<open>Keys, strings and blobs\<close>

lemma blob_adds:
  fixes b
  defines "n \<equiv> length (fxb_buf b)"
  assumes b: "pools_ok b" "n + length data + 32 < 2 ^ 63" and data: "data = s @ replicate k 0"
    and ty: "ty = FBT_STRING \<and> t = FString s \<and> k = 1 \<or> ty = FBT_BLOB \<and> t = FBlob s \<and> k = 0"
  shows "\<exists>p xs. fxb_create_blob data (length s) k ty b =
      Some (p, fxb_push (fx_make_value p ty (width_u (of_nat (length s)))) (fxb_write_bytes xs b)) \<and>
    unat p \<le> n + length xs \<and> length xs \<le> 16 + length data \<and>
    fx_content (fxb_buf b @ xs) ty p (of_nat (width_bytes (width_u (of_nat (length s))))) t"
proof -
  let ?w = "width_u (of_nat (length s))" and ?z = "\<lambda>k. replicate k (0 :: byte)"
  let ?k = "width_bytes ?w"
  let ?pad = "?z (pad_to n ?k)" and ?len = "le_bytes ?k (length s)"
  let ?m = "n + pad_to n ?k + ?k"
  let ?p = "of_nat ?m :: size_t" and ?xs = "?pad @ ?len @ data" and ?buf = "fxb_buf b @ ?pad @ ?len @ data"
  have al: "fxb_align ?w b = (?k, fxb_write_bytes ?pad b)"
    unfolding n_def by (rule fxb_align_eq) (use b(2) in \<open>simp add: n_def\<close>)
  have len: "unat (of_nat (length s) :: 64 word) = length s" using b(2) data by (intro unat_of_nat_small) simp
  have lt: "?m < 2 ^ 63" using pad_width_le [of n ?w] width_bytes_le_8 [of ?w] b(2) by linarith
  have um: "unat ?p = ?m" using lt by (intro unat_of_nat_small) simp
  have "fx_read ?k ?buf (Fx_Buffer, of_nat (n + pad_to n ?k)) = Some ?len"
    by (rule fx_read_piece [of _ "fxb_buf b @ ?pad" _ data]) (use lt in \<open>simp_all add: n_def\<close>)
  moreover have "length s < 256 ^ ?k" using width_u_fits [of "of_nat (length s)"] unfolding len .
  ultimately have "read_uint64 ?buf (Fx_Buffer, of_nat (n + pad_to n ?k)) (of_nat ?k) = Some (of_nat (length s))"
    by (intro read_uint64_le_bytes [of ?k]) (simp_all add: len width_bytes_le_8 del: unat_of_nat)
  moreover have "?p - of_nat ?k = of_nat (n + pad_to n ?k)" by simp
  ultimately have sz: "sized_at ?buf (Fx_Buffer, ?p) (of_nat ?k) =
      Some \<lparr>ob_data = (Fx_Buffer, ?p), ob_width = of_nat ?k, ob_size = of_nat (length s)\<rparr>"
    by (simp add: sized_at_def read_size_def ptr_sub_def)
  have rd: "fx_read (length data) ?buf (Fx_Buffer, ?p) = Some data"
    by (rule fx_read_piece [of _ "fxb_buf b @ ?pad @ ?len" _ "[]"]) (use lt in \<open>simp_all add: n_def\<close>)
  have c: "fx_content ?buf ty ?p (of_nat ?k) t"
    using ty
  proof (elim disjE)
    assume t: "ty = FBT_STRING \<and> t = FString s \<and> k = 1"
    have "fx_content ?buf FBT_STRING ?p (of_nat ?k) (FString s)"
      by (rule content_string [OF sz]) (use len rd data t in \<open>simp_all add: One_nat_def del: unat_of_nat\<close>)
    then show ?thesis using t by simp
  next
    assume t: "ty = FBT_BLOB \<and> t = FBlob s \<and> k = 0"
    have "fx_content ?buf FBT_BLOB ?p (of_nat ?k) (FBlob s)"
      by (rule content_blob [OF sz]) (use len rd data t in \<open>simp_all del: unat_of_nat\<close>)
    then show ?thesis using t by simp
  qed
  have "fxb_create_blob data (length s) k ty b =
      Some (?p, fxb_push (fx_make_value ?p ty ?w) (fxb_write_bytes ?xs b))"
    using al len data by (simp add: fxb_create_blob_def fxb_write_8 fxb_size_def n_def add.assoc Let_def del: unat_of_nat)
  then show ?thesis
    using c um pad_width_le [of n ?w] width_bytes_le_8 [of ?w]
    by (intro exI [of _ ?p] exI [of _ ?xs]) (simp del: of_nat_add)
qed

lemma blob_value_denotes:
  assumes "fx_content buf ty p (of_nat (width_bytes w)) t" and "unat p \<le> length buf" "\<not> is_inline ty" "ty < FBT_MAX_TYPE"
  shows "fx_denotes buf (fx_make_value p ty w) t"
  using assms by (intro denotes_offset)

text \<open>Two strings that neither compares less are equal.\<close>

lemma mem_cmp_swap: "mem_cmp n b a = - mem_cmp n a b"
  by (induction n a b rule: mem_cmp.induct) (auto simp: One_nat_def)

lemma mem_cmp_eq_0: "mem_cmp n a b = 0 \<Longrightarrow> n \<le> length a \<Longrightarrow> n \<le> length b \<Longrightarrow> take n a = take n b"
  by (induction n a b rule: mem_cmp.induct) (auto split: if_splits)

lemma read_bytes_take: "read_bytes n buf p = Some bs \<Longrightarrow> m \<le> n \<Longrightarrow> read_bytes m buf p = Some (take m bs)"
  by (auto simp: read_bytes_def split: if_splits)

lemma string_offset_less:
  assumes s: "fx_content buf FBT_STRING p w (FString s)" "unat l = length s"
    and t: "fx_content buf FBT_STRING q v (FString t)" "unat m = length t"
    and small: "length s < 2 ^ 63"
  shows "fx_string_offset_less buf (p, l) (q, m) =
    Some (let c = mem_cmp (Suc (min (length s) (length t))) (s @ [0]) (t @ [0]) in
      c < 0 \<or> c = 0 \<and> length s < length t)"
proof -
  let ?n = "Suc (min (length s) (length t))"
  have "unat (min l m) = min (length s) (length t)" using s(2) t(2) by (simp add: min_def word_le_nat_alt)
  then have n: "unat (min l m + 1) = ?n"
    using small unat_add_small [of "min l m" 1] by simp
  have "read_bytes (Suc (length s)) buf p = Some (s @ [0])" "read_bytes (Suc (length t)) buf q = Some (t @ [0])"
    using s(1) t(1) by (auto simp: fx_read_def to_typed_vector_element_type_def is_typed_vector_def elim: fx_content.cases)
  then have r: "read_bytes ?n buf p = Some (take ?n (s @ [0]))" "read_bytes ?n buf q = Some (take ?n (t @ [0]))"
    by (blast intro: read_bytes_take Suc_le_mono [THEN iffD2] min.cobounded1 min.cobounded2)+
  have tk: "mem_cmp k (take k a) (take k b) = mem_cmp k a b" for k a b
    by (induction k a b rule: mem_cmp.induct) auto
  have "l < m \<longleftrightarrow> length s < length t" using s(2) t(2) by (simp add: word_less_nat_alt)
  then show ?thesis unfolding fx_string_offset_less_def fst_conv snd_conv n r Let_def
    by (simp add: tk del: take_append)
qed

lemma string_equal:
  assumes "fx_content buf FBT_STRING p w (FString s)" "unat l = length s" "length s < 2 ^ 63"
    and "fx_content buf FBT_STRING q v (FString t)" "unat m = length t" "length t < 2 ^ 63"
  obtains lt gt where "fx_string_offset_less buf (p, l) (q, m) = Some lt"
    and "fx_string_offset_less buf (q, m) (p, l) = Some gt" and "\<not> lt \<Longrightarrow> \<not> gt \<Longrightarrow> s = t"
proof (rule that [OF string_offset_less [OF assms(1,2,4,5,3)] string_offset_less [OF assms(4,5,1,2,6)]])
  let ?n = "Suc (min (length s) (length t))"
  assume l: "\<not> (let c = mem_cmp ?n (s @ [0]) (t @ [0]) in c < 0 \<or> c = 0 \<and> length s < length t)"
    and g: "\<not> (let c = mem_cmp (Suc (min (length t) (length s))) (t @ [0]) (s @ [0]) in c < 0 \<or> c = 0 \<and> length t < length s)"
  have sign: "c = 0 \<and> i = j" if "\<not> (c < 0 \<or> c = 0 \<and> i < j)" "\<not> (- c < 0 \<or> - c = 0 \<and> j < i)" for c :: int and i j :: nat
    using that by auto
  have c0: "mem_cmp ?n (s @ [0]) (t @ [0]) = 0 \<and> length s = length t"
    by (rule sign [OF l [unfolded Let_def] g [unfolded Let_def min.commute [of "length t" "length s"]
          mem_cmp_swap [of _ "t @ [0]" "s @ [0]"]]])
  then show "s = t" using mem_cmp_eq_0 [of "Suc (length t)" "s @ [0]" "t @ [0]"] by auto
qed

lemma string_pool_find:
  assumes "\<forall>e \<in> set pool. pool_entry_ok buf e"
    and "fx_content (buf @ xs) FBT_STRING p w (FString s)" and "unat l = length s" "length s < 2 ^ 63"
  shows "fx_string_pool_find (buf @ xs) (p, l) pool = Some None \<or>
    (\<exists>q. fx_string_pool_find (buf @ xs) (p, l) pool = Some (Some (q, l)) \<and> unat q \<le> length buf \<and>
      fx_content buf FBT_STRING q (of_nat (width_bytes (width_u l))) (FString s))"
  using assms(1)
proof (induction pool)
  case Nil
  show ?case by simp
next
  case (Cons e pool)
  obtain q m where e: "e = (q, m)" by (cases e)
  obtain t where t: "unat m = length t" "unat q \<le> length buf" "length t < 2 ^ 63"
      "fx_content buf FBT_STRING q (of_nat (width_bytes (width_u m))) (FString t)"
    using Cons.prems e by (auto simp: pool_entry_ok_def)
  obtain lt gt where lg: "fx_string_offset_less (buf @ xs) (p, l) (q, m) = Some lt"
      "fx_string_offset_less (buf @ xs) (q, m) (p, l) = Some gt" "\<not> lt \<Longrightarrow> \<not> gt \<Longrightarrow> s = t"
    using string_equal [OF assms(2,3,4) fx_append(2) [OF t(4)] t(1,3)] by blast
  show ?case
  proof (cases "\<not> lt \<and> \<not> gt")
    case True
    then have st: "s = t" using lg(3) by blast
    then have ml: "m = l" using assms(3) t(1) by (simp add: word_unat_eq_iff)
    then show ?thesis using lg(1,2) t(2,4) True st by (simp add: e)
  next
    case False
    then show ?thesis using lg(1,2) Cons by (auto simp: e)
  qed
qed

text \<open>\<open>String\<close> with and without the pool.\<close>

lemma push_last: "butlast (fxb_stack (fxb_push v b)) = fxb_stack b" "last (fxb_stack (fxb_push v b)) = v"
  "fxb_buf (fxb_push v b) = fxb_buf b" "fx_string_pool (fxb_push v b) = fx_string_pool b"
  "key_pool (fxb_push v b) = key_pool b" "fxb_flags (fxb_push v b) = fxb_flags b"
  by (simp_all add: fxb_push_def)

lemma write_bytes_pools [simp]: "fx_string_pool (fxb_write_bytes xs b) = fx_string_pool b"
  "key_pool (fxb_write_bytes xs b) = key_pool b" "fxb_flags (fxb_write_bytes xs b) = fxb_flags b"
  by (simp_all add: fxb_write_bytes_def)

lemma pool_entry_append: "pool_entry_ok buf e \<Longrightarrow> pool_entry_ok (buf @ xs) e"
  unfolding pool_entry_ok_def by (auto intro: fx_append)

lemma string_adds:
  assumes b: "pools_ok b" "length (fxb_buf b) + length s + 33 < 2 ^ 63"
  shows "\<exists>p b'. fxb_string (s @ [0]) (length s) b = Some (p, b') \<and> fxb_adds b (17 + length s) [FString s] b'"
proof -
  let ?w = "width_u (of_nat (length s))" and ?n = "length (fxb_buf b)"
  have data1: "s @ [0] = s @ replicate 1 0" by (simp add: One_nat_def)
  have len1: "?n + length (s @ [0]) + 32 < 2 ^ 63" using b(2) by simp
  obtain p xs where c: "fxb_create_blob (s @ [0]) (length s) 1 FBT_STRING b =
      Some (p, fxb_push (fx_make_value p FBT_STRING ?w) (fxb_write_bytes xs b))"
    and p: "unat p \<le> ?n + length xs" "length xs \<le> 16 + length (s @ [0])"
    and con: "fx_content (fxb_buf b @ xs) FBT_STRING p (of_nat (width_bytes ?w)) (FString s)"
    using blob_adds [OF b(1) len1 data1, of FBT_STRING "FString s"] by blast
  let ?b1 = "fxb_push (fx_make_value p FBT_STRING ?w) (fxb_write_bytes xs b)"
  have den: "fx_denotes (fxb_buf b @ xs) (fx_make_value p FBT_STRING ?w) (FString s)"
    using con p by (intro denotes_offset) (simp_all add: is_inline_def)
  have adds: "fxb_adds b (17 + length s) [FString s] ?b1"
    using write_push_adds [OF b(1) den p(2)] by (simp add: add.commute)
  have len: "unat (of_nat (length s) :: 64 word) = length s" using b(2) by (intro unat_of_nat_small) simp
  have ls: "length s < 2 ^ 63" using b(2) by simp
  show ?thesis
  proof (cases "share_strings ?b1")
    case False
    then show ?thesis using c adds by (simp add: fxb_string_def)
  next
    case True
    have "\<forall>e \<in> set (fx_string_pool b). pool_entry_ok (fxb_buf b) e" using b(1) by (simp add: pools_ok_def)
    from string_pool_find [OF this con len ls] show ?thesis
    proof (elim disjE exE conjE)
      assume f: "fx_string_pool_find (fxb_buf b @ xs) (p, of_nat (length s)) (fx_string_pool b) = Some None"
      let ?b2 = "?b1\<lparr>fx_string_pool := (p, of_nat (length s)) # fx_string_pool b\<rparr>"
      have "pool_entry_ok (fxb_buf b @ xs) (p, of_nat (length s))"
        using con p len ls by (simp add: pool_entry_ok_def del: unat_of_nat) blast
      moreover have "pools_ok ?b1" using adds by (rule fxb_adds_pools)
      ultimately have "pools_ok ?b2" by (auto simp: pools_ok_def push_last)
      then have "fxb_adds b (17 + length s) [FString s] ?b2" using adds by (simp add: fxb_adds_def)
      moreover have "fxb_string (s @ [0]) (length s) b = Some (p, ?b2)"
        using c f True by (simp add: fxb_string_def push_last)
      ultimately show ?thesis by blast
    next
      fix q
      assume f: "fx_string_pool_find (fxb_buf b @ xs) (p, of_nat (length s)) (fx_string_pool b) =
          Some (Some (q, of_nat (length s)))"
        and q: "unat q \<le> length (fxb_buf b)"
          "fx_content (fxb_buf b) FBT_STRING q (of_nat (width_bytes ?w)) (FString s)"
      have "fx_denotes (fxb_buf b) (fx_make_value q FBT_STRING ?w) (FString s)"
        using q by (intro denotes_offset) (simp_all add: is_inline_def)
      then have "fxb_adds b (17 + length s) [FString s] (fxb_push (fx_make_value q FBT_STRING ?w) b)"
        by (rule push_adds [OF b(1)])
      moreover have "?b1\<lparr>fxb_buf := take ?n (fxb_buf ?b1),
          fxb_stack := butlast (fxb_stack ?b1) @ [(last (fxb_stack ?b1))\<lparr>val_bits := q\<rparr>]\<rparr> =
        fxb_push (fx_make_value q FBT_STRING ?w) b"
        by (simp add: fxb_push_def fxb_write_bytes_def fx_make_value_def)
      ultimately show ?thesis using c f True by (simp add: fxb_string_def push_last)
    qed
  qed
qed

lemma blob_value_adds:
  assumes b: "pools_ok b" "length (fxb_buf b) + length s + 32 < 2 ^ 63"
  shows "\<exists>p b'. fxb_blob s (length s) b = Some (p, b') \<and> fxb_adds b (16 + length s) [FBlob s] b'"
proof -
  let ?w = "width_u (of_nat (length s))"
  obtain p xs where c: "fxb_create_blob s (length s) 0 FBT_BLOB b =
      Some (p, fxb_push (fx_make_value p FBT_BLOB ?w) (fxb_write_bytes xs b))"
    and p: "unat p \<le> length (fxb_buf b) + length xs" "length xs \<le> 16 + length s"
    and con: "fx_content (fxb_buf b @ xs) FBT_BLOB p (of_nat (width_bytes ?w)) (FBlob s)"
    using blob_adds [of b s s 0 FBT_BLOB "FBlob s"] b by auto
  have "fx_denotes (fxb_buf b @ xs) (fx_make_value p FBT_BLOB ?w) (FBlob s)"
    using con p by (intro denotes_offset) (simp_all add: is_inline_def)
  then show ?thesis using c write_push_adds [OF b(1) _ p(2)] by (simp add: fxb_blob_def push_last)
qed

text \<open>\<open>Key\<close> with and without the pool.\<close>

lemma string_less_than_less: "string_less_than a b \<longleftrightarrow> a < b"
  by (simp add: string_less_than_lexord list_less_def)

lemma key_pool_find_ok:
  assumes "\<forall>k \<in> set pool. \<exists>s. c_string buf k = Some s" and "c_string buf x = Some s"
  shows "key_pool_find buf x pool = Some None \<or>
    (\<exists>k \<in> set pool. key_pool_find buf x pool = Some (Some k) \<and> c_string buf k = Some s)"
  using assms(1)
proof (induction pool)
  case (Cons k pool)
  then obtain t where "c_string buf k = Some t" by auto
  then show ?case using Cons assms(2) by (auto simp: string_less_than_less not_less_iff_gr_or_eq)
qed simp

lemma key_adds:
  assumes b: "pools_ok b" "length (fxb_buf b) + length s + 1 < 2 ^ 63" and s: "0 \<notin> set s"
  shows "\<exists>p b'. fxb_key_cstring (s @ [0]) b = Some (p, b') \<and> fxb_adds b (Suc (length s)) [FKey s] b'"
proof -
  let ?p = "fxb_size b" and ?v = "\<lambda>p. fx_make_value p FBT_KEY BIT_WIDTH_8" and ?b1 = "fxb_write_bytes (s @ [0]) b"
  have p: "unat ?p = length (fxb_buf b)" using b(2) by (simp add: fxb_size_def unat_of_nat_small)
  have tw: "takeWhile (\<lambda>c. c \<noteq> 0) (s @ [0]) = s" using s by (induction s) auto
  have k: "c_string (fxb_buf b @ s @ [0]) ?p = Some s"
    by (simp add: c_string_def p tw)
  have den: "fx_denotes (fxb_buf b @ s @ [0]) (?v ?p) (FKey s)"
    using k p by (intro denotes_offset content_key) (simp_all add: is_inline_def)
  have len: "length (takeWhile (\<lambda>c. c \<noteq> 0) (s @ [0])) = length s" by (simp add: tw)
  have adds: "fxb_adds b (Suc (length s)) [FKey s] (fxb_push (?v ?p) ?b1)"
    by (rule write_push_adds [OF b(1) den]) simp
  show ?thesis
  proof (cases "share_keys ?b1")
    case False
    then show ?thesis using adds len by (simp add: fxb_key_cstring_def fxb_key_def Let_def)
  next
    case True
    have "\<forall>k \<in> set (key_pool b). \<exists>s'. c_string (fxb_buf b @ s @ [0]) k = Some s'"
      using b(1) unfolding pools_ok_def by (meson c_string_append)
    from key_pool_find_ok [OF this k] show ?thesis
    proof (elim disjE bexE conjE)
      assume f: "key_pool_find (fxb_buf b @ s @ [0]) ?p (key_pool b) = Some None"
      let ?b2 = "fxb_push (?v ?p) (?b1\<lparr>key_pool := ?p # key_pool b\<rparr>)"
      have "pools_ok (fxb_push (?v ?p) ?b1)" using adds by (rule fxb_adds_pools)
      then have "pools_ok ?b2" using k p by (auto simp: pools_ok_def push_last)
      then have "fxb_adds b (Suc (length s)) [FKey s] ?b2" using adds by (simp add: fxb_adds_def fxb_push_def)
      moreover have "fxb_key_cstring (s @ [0]) b = Some (?p, ?b2)"
        using f True len by (simp add: fxb_key_cstring_def fxb_key_def Let_def push_last)
      ultimately show ?thesis by blast
    next
      fix q
      assume q: "q \<in> set (key_pool b)" and f: "key_pool_find (fxb_buf b @ s @ [0]) ?p (key_pool b) = Some (Some q)"
        and qs: "c_string (fxb_buf b @ s @ [0]) q = Some s"
      obtain t where t: "c_string (fxb_buf b) q = Some t" "unat q \<le> length (fxb_buf b)"
        using q b(1) by (auto simp: pools_ok_def)
      then have "t = s" using c_string_append [OF t(1), of "s @ [0]"] qs by simp
      then have "fx_denotes (fxb_buf b) (?v q) (FKey s)"
        using t by (intro denotes_offset content_key) (simp_all add: is_inline_def)
      then have "fxb_adds b (Suc (length s)) [FKey s] (fxb_push (?v q) b)" by (rule push_adds [OF b(1)])
      moreover have "?b1\<lparr>fxb_buf := take (unat ?p) (fxb_buf ?b1)\<rparr> = b" using p by (simp add: fxb_write_bytes_def)
      ultimately show ?thesis using f True len by (simp add: fxb_key_cstring_def fxb_key_def Let_def push_last)
    qed
  qed
qed

end
