(* ===== verification/Fx_Build_Vector.thy ===== *)
theory Fx_Build_Vector
  imports Fx_Build
begin

text \<open>
  \<open>EndVector\<close> and \<open>EndMap\<close> of \<open>flexbuffers.h\<close>: they replace the values since the start of the
  vector or map by one that denotes the vector, or the map with its entries sorted by key.
\<close>

declare One_nat_def [simp del]

section \<open>Vectors\<close>

lemma length_fx_enc_all:
  assumes "\<forall>i<length vs. fx_fits (vs ! i) w (loc + i * width_bytes w)"
  shows "length (fx_enc_all vs (width_bytes w) loc) = length vs * width_bytes w"
  using assms
proof (induction vs arbitrary: loc)
  case (Cons v vs)
  have "\<forall>i<length vs. fx_fits (vs ! i) w (loc + width_bytes w + i * width_bytes w)"
  proof (intro allI impI)
    fix i assume "i < length vs"
    then have "fx_fits ((v # vs) ! Suc i) w (loc + Suc i * width_bytes w)" by (intro Cons.prems [rule_format]) simp
    then show "fx_fits (vs ! i) w (loc + width_bytes w + i * width_bytes w)" by (simp add: algebra_simps)
  qed
  then show ?case using Cons.IH length_fx_enc [of v w loc] Cons.prems [rule_format, of 0] by simp
qed simp

lemma length_vector_bytes:
  assumes fits: "\<forall>j<length vs. fx_fits (vs ! j) w (elem_loc n (prefix_len keys + j) w)"
    and k: "\<forall>k. keys = Some k \<longrightarrow> fx_fits k w (elem_loc n 0 w)"
  shows "n + length (vector_bytes n keys typed vs w) =
    elem_loc n (prefix_len keys + length vs) w + (if typed then 0 else length vs)"
proof -
  have "length (fx_enc_all vs (width_bytes w) (elem_loc n (prefix_len keys) w)) = length vs * width_bytes w"
    by (rule length_fx_enc_all) (use fits in \<open>simp add: elem_loc_add\<close>)
  then show ?thesis
    using k length_fx_enc [of _ w "elem_loc n 0 w"]
    by (cases keys) (simp_all add: vector_bytes_def prefix_len_def elem_loc_def algebra_simps)
qed

lemma elem_loc_le: "elem_loc n i w \<le> n + 7 + 8 * i"
proof -
  have "i * width_bytes w \<le> i * 8" by (intro mult_le_mono2 width_bytes_le_8)
  then show ?thesis using pad_width_le [of n w] unfolding elem_loc_def by linarith
qed

lemma create_vector_at:
  fixes b
  defines "n \<equiv> length (fxb_buf b)"
  assumes es: "every step (drop start (fxb_stack b)) = es" and idx: "\<forall>j<length es. j \<le> fst (es ! j)"
    and den: "\<forall>(i, v) \<in> set es. (\<exists>t. fx_denotes (fxb_buf b) v t) \<and> n + 8 * (i + 3) + 8 < 2 ^ 63"
    and ty: "typed \<longrightarrow> (\<forall>(i, v) \<in> set es. val_type v = et)" "typed \<longrightarrow> es = [] \<longrightarrow> et = FBT_KEY"
      "typed \<longrightarrow> es = [] \<or> fst (hd es) = 0" "typed \<longrightarrow> is_typed_vector_element_type et"
    and keys: "\<forall>k. keys = Some k \<longrightarrow> \<not> typed \<and> \<not> is_inline (val_type k) \<and> (\<exists>t. fx_denotes (fxb_buf b) k t)"
    and n: "n + 9 * length es + 48 < 2 ^ 63"
  shows "\<exists>w xs. create_fx_vector start (length es) step typed False keys b =
      Some (vector_value n keys typed et w, fxb_write_bytes xs b) \<and>
    vector_at (fxb_buf b @ xs) n keys typed (map snd es) w \<and> length xs \<le> 31 + 9 * length es \<and>
    elem_loc n (prefix_len keys) w \<le> n + length xs"
proof -
  have n8: "n + 8 * length es + 48 < 2 ^ 63" using n by simp
  obtain w where w: "create_fx_vector start (length es) step typed False keys b =
      Some (vector_value n keys typed et w, fxb_write_bytes (vector_bytes n keys typed (map snd es) w) b)"
    "width_u (of_nat (length es)) \<le> w"
    "\<forall>j<length es. fx_fits (snd (es ! j)) w (elem_loc n (prefix_len keys + j) w)"
    "\<forall>k. keys = Some k \<longrightarrow> fx_fits k w (elem_loc n 0 w)"
    using create_fx_vector_bytes [OF es idx den [unfolded n_def] ty(1) [THEN mp] ty(2) [rule_format]
      ty(3,4) [THEN mp] keys [rule_format] n8 [unfolded n_def]]
    unfolding n_def by blast
  let ?xs = "vector_bytes n keys typed (map snd es) w"
  have fits: "\<forall>j<length (map snd es). fx_fits (map snd es ! j) w (elem_loc n (prefix_len keys + j) w)"
    using w(3) by simp
  have l: "n + length ?xs = elem_loc n (prefix_len keys + length es) w + (if typed then 0 else length es)"
    using length_vector_bytes [OF fits w(4), of typed] by simp
  have "vector_at (fxb_buf b @ ?xs) n keys typed (map snd es) w"
    using w(2,3,4) n unfolding vector_at_def
    by (intro conjI exI [of _ "fxb_buf b"] exI [of _ "[]"]) (simp_all add: n_def del: bit_width_less_eq)
  moreover have "length ?xs \<le> 31 + 9 * length es"
    using l elem_loc_le [of n "prefix_len keys + length es" w] by (simp add: prefix_len_def split: if_splits)
  moreover have "elem_loc n (prefix_len keys) w \<le> n + length ?xs"
    unfolding l by (simp add: elem_loc_def add_mult_distrib)
  ultimately show ?thesis using w(1) by blast
qed

lemma prefix_len_simps: "prefix_len None = 1" "prefix_len (Some k) = 3"
  by (simp_all add: prefix_len_def)

lemma every_enumerate: "map snd (enumerate n xs) = xs" "length (enumerate n xs) = length xs"
  by simp_all

lemma element_types: "is_typed_vector_element_type et \<Longrightarrow> et \<noteq> FBT_STRING \<Longrightarrow> is_inline et \<or> et = FBT_KEY"
  by (auto simp: is_typed_vector_element_type_def is_inline_def)

lemma unat_elem_loc_small:
  assumes "n + 9 * m + 48 < 2 ^ 63" and "i \<le> 3"
  shows "unat (of_nat (elem_loc n i w) :: size_t) = elem_loc n i w"
  using elem_loc_le [of n i w] assms by (intro unat_of_nat_small) simp

text \<open>\<open>EndVector\<close> replaces the values since \<open>StartVector\<close> by one that denotes the vector of them.\<close>

lemma end_vector_adds:
  assumes b: "fxb_adds b0 c ts b" and n: "length (fxb_buf b) + 9 * length ts + 48 < 2 ^ 63"
    and ty: "typed \<Longrightarrow> \<forall>v \<in> set (drop (length (fxb_stack b0)) (fxb_stack b)). val_type v = et"
      "typed \<Longrightarrow> ts = [] \<Longrightarrow> et = FBT_KEY" "typed \<Longrightarrow> is_typed_vector_element_type et \<and> et \<noteq> FBT_STRING"
  shows "\<exists>p b'. fxb_end_vector (length (fxb_stack b0)) typed False b = Some (p, b') \<and>
    fxb_adds b0 (c + 31 + 9 * length ts) [if typed then FTypedVector ts else FVector ts] b'"
proof -
  obtain ys vs where o: "fxb_buf b = fxb_buf b0 @ ys" "length ys \<le> c" "fxb_stack b = fxb_stack b0 @ vs"
      "list_all2 (fx_denotes (fxb_buf b)) vs ts" "pools_ok b"
    using b by (auto simp: fxb_adds_def)
  let ?n = "length (fxb_buf b)" and ?es = "enumerate 0 vs"
  have len: "length vs = length ts" using o(4) by (rule list_all2_lengthD)
  have es: "every 1 (drop (length (fxb_stack b0)) (fxb_stack b)) = ?es" by (simp add: o(3) every_1)
  have "fx_denotes (fxb_buf b) (vs ! i) (ts ! i)" if "i < length vs" for i
    using o(4) that by (simp add: list_all2_conv_all_nth)
  then have den: "\<forall>(i, v) \<in> set ?es. (\<exists>t. fx_denotes (fxb_buf b) v t) \<and> ?n + 8 * (i + 3) + 8 < 2 ^ 63"
    using n len by (fastforce simp: in_set_enumerate_eq)
  have t: "typed \<longrightarrow> (\<forall>(i, v) \<in> set ?es. val_type v = et)" "typed \<longrightarrow> ?es = [] \<longrightarrow> et = FBT_KEY"
    "typed \<longrightarrow> ?es = [] \<or> fst (hd ?es) = 0" "typed \<longrightarrow> is_typed_vector_element_type et"
    using ty len by (auto simp: in_set_enumerate_eq o(3)) (cases vs; simp)+
  have idx: "\<forall>j<length ?es. j \<le> fst (?es ! j)" by (simp add: nth_enumerate_eq)
  have n': "?n + 9 * length ?es + 48 < 2 ^ 63" using n len by simp
  obtain w xs where w: "create_fx_vector (length (fxb_stack b0)) (length vs) 1 typed False None b =
      Some (vector_value ?n None typed et w, fxb_write_bytes xs b)"
    and at: "vector_at (fxb_buf b @ xs) ?n None typed vs w"
    and xs: "length xs \<le> 31 + 9 * length vs" "elem_loc ?n 1 w \<le> ?n + length xs"
    using create_vector_at [where typed = typed and et = et and keys = None, OF es idx den t _ n']
    unfolding prefix_len_simps every_enumerate by auto
  let ?v = "vector_value ?n None typed et w" and ?buf = "fxb_buf b @ xs"
  note ts = denotes_list_append [OF o(4), of xs]
  have p: "unat (of_nat (elem_loc ?n 1 w) :: size_t) \<le> length ?buf"
    using xs(2) unat_elem_loc_small [OF n, of 1 w] by simp
  have "fx_denotes ?buf ?v (if typed then FTypedVector ts else FVector ts)"
  proof (cases typed)
    case True
    have "fx_content ?buf (et + 10) (of_nat (elem_loc ?n 1 w)) (of_nat (width_bytes w)) (FTypedVector ts)"
      by (rule typed_content) (use at ts True ty element_types [of et] in \<open>simp_all add: o(3)\<close>)
    moreover have "\<not> is_inline (et + 10)" "et + 10 < FBT_MAX_TYPE"
      using t(4) True by (auto simp: is_inline_def is_typed_vector_element_type_def)
    ultimately show ?thesis using p True by (simp add: vector_value_def prefix_len_def denotes_offset)
  next
    case False
    then have "fx_content ?buf FBT_VECTOR (of_nat (elem_loc ?n 1 w)) (of_nat (width_bytes w)) (FVector ts)"
      using at ts by (intro vector_content) simp_all
    then show ?thesis using p False by (simp add: vector_value_def prefix_len_def denotes_offset is_inline_def)
  qed
  let ?b' = "(fxb_write_bytes xs b)\<lparr>fxb_stack := fxb_stack b0 @ [?v]\<rparr>"
  have "fxb_end_vector (length (fxb_stack b0)) typed False b = Some (val_bits ?v, ?b')"
    using w by (simp add: fxb_end_vector_def o(3))
  moreover have "fxb_adds b0 (c + 31 + 9 * length ts) [if typed then FTypedVector ts else FVector ts] ?b'"
    by (rule fxb_addsI [of _ _ "ys @ xs" _ "[?v]"])
      (use pools_ok_append [OF o(5), of ?b' xs] o(1,2) xs(1) len
        \<open>fx_denotes ?buf ?v (if typed then FTypedVector ts else FVector ts)\<close> in simp_all)
  ultimately show ?thesis by blast
qed

section \<open>Maps\<close>

lemma flat_pairs:
  assumes "list_all2 P vs (flat kts)"
  shows "\<exists>ps. vs = flat ps \<and> list_all2 (\<lambda>p q. P (fst p) (fst q) \<and> P (snd p) (snd q)) ps kts"
  using assms
proof (induction kts arbitrary: vs)
  case (Cons kt kts)
  obtain k t where kt: "kt = (k, t)" by (cases kt)
  obtain a b us where vs: "vs = a # b # us" "P a k" "P b t" "list_all2 P us (flat kts)"
    using Cons.prems by (auto simp: kt list_all2_Cons2)
  obtain ps where "us = flat ps" "list_all2 (\<lambda>p q. P (fst p) (fst q) \<and> P (snd p) (snd q)) ps kts"
    using Cons.IH [OF vs(4)] by blast
  then show ?case using vs kt by (intro exI [of _ "(a, b) # ps"]) simp
qed (auto intro: exI [of _ "[]"])

lemma pair_up_flat [simp]: "pair_up (flat ps) = ps"
  by (induction ps) auto

lemma sort_key_all2:
  assumes "list_all2 R xs ys" and "\<And>x y. R x y \<Longrightarrow> f x = g y"
  shows "list_all2 R (sort_key f xs) (sort_key g ys)"
proof -
  have ins: "list_all2 R (insort_key f x xs) (insort_key g y ys)" if "list_all2 R xs ys" "R x y" for x y xs ys
    using that by (induction rule: list_all2_induct) (auto simp: assms(2))
  show ?thesis using assms(1) by (induction rule: list_all2_induct) (simp_all add: ins)
qed

lemma denotes_key:
  assumes "fx_denotes buf v (FKey s)"
  shows "val_type v = FBT_KEY" and "key_at buf v = Some s"
proof -
  obtain p w ty where v: "v = fx_make_value p ty w" "fx_content buf ty p (of_nat (width_bytes w)) (FKey s)"
    using assms by cases auto
  then have "ty = FBT_KEY \<and> c_string buf p = Some s" by (auto elim: fx_content.cases)
  then show "val_type v = FBT_KEY" "key_at buf v = Some s" using v(1) by (simp_all add: key_at_def fx_make_value_def)
qed

text \<open>The pairs on the stack and the entries they stand for.\<close>

definition pair_denotes :: "byte list \<Rightarrow> fx_value \<times> fx_value \<Rightarrow> byte list \<times> fx_tree \<Rightarrow> bool" where
  "pair_denotes buf p kt \<longleftrightarrow> fx_denotes buf (fst p) (FKey (fst kt)) \<and> fx_denotes buf (snd p) (snd kt)"

lemma sort_pairs_denote:
  assumes "list_all2 (pair_denotes buf) ps kvs"
  shows "list_all2 (pair_denotes buf) (sort_pairs buf ps) (sort_map kvs)"
proof -
  have "sort_pairs buf ps = sort_key (\<lambda>p. the (key_at buf (fst p))) ps"
    unfolding sort_pairs_def string_less_than_less by (rule stable_sort_key)
  moreover have "the (key_at buf (fst p)) = fst kt" if "pair_denotes buf p kt" for p kt
    using denotes_key(2) [of buf "fst p" "fst kt"] that by (simp add: pair_denotes_def)
  ultimately show ?thesis using sort_key_all2 [OF assms, of "\<lambda>p. the (key_at buf (fst p))" fst]
    by (simp add: sort_map_def)
qed

lemma pair_denotes_append: "pair_denotes buf p kt \<Longrightarrow> pair_denotes (buf @ xs) p kt"
  by (simp add: pair_denotes_def fx_denotes_append)

definition fx_entries :: "(byte list \<times> fx_tree) list \<Rightarrow> fx_tree list" where
  "fx_entries kvs = flat (map (\<lambda>(k, t). (FKey k, t)) kvs)"

lemma entries_pairs:
  assumes "list_all2 (fx_denotes buf) vs (fx_entries kvs)"
  obtains ps where "vs = flat ps" and "list_all2 (pair_denotes buf) ps kvs"
proof -
  obtain ps where ps: "vs = flat ps"
      "list_all2 (\<lambda>p q. fx_denotes buf (fst p) (fst q) \<and> fx_denotes buf (snd p) (snd q)) ps (map (\<lambda>(k, t). (FKey k, t)) kvs)"
    using flat_pairs [OF assms [unfolded fx_entries_def]] by blast
  then have "list_all2 (pair_denotes buf) ps kvs"
    by (auto simp: list_all2_conv_all_nth pair_denotes_def split_beta)
  then show ?thesis using ps(1) that by blast
qed

text \<open>The keys and the values of the sorted pairs, as \<open>CreateVector\<close> sees them.\<close>

lemma every_pairs:
  assumes R: "list_all2 (pair_denotes buf) ps kvs" and n: "n + 16 * length ps + 40 < 2 ^ 63"
  defines "ks \<equiv> map (\<lambda>(j, (k, v)). (2 * j, k)) (enumerate 0 ps)" and "us \<equiv> map (\<lambda>(j, (k, v)). (2 * j, v)) (enumerate 0 ps)"
  shows "\<forall>j<length ks. j \<le> fst (ks ! j)" "\<forall>j<length us. j \<le> fst (us ! j)"
    and "\<forall>(i, v) \<in> set ks. (\<exists>t. fx_denotes buf v t) \<and> n + 8 * (i + 3) + 8 < 2 ^ 63"
    and "\<forall>(i, v) \<in> set us. (\<exists>t. fx_denotes buf v t) \<and> n + 8 * (i + 3) + 8 < 2 ^ 63"
    and "\<forall>(i, v) \<in> set ks. val_type v = FBT_KEY" and "ks = [] \<or> fst (hd ks) = 0"
    and "map snd ks = map fst ps" "map snd us = map snd ps" "length ks = length ps" "length us = length ps"
proof -
  have d: "\<exists>s t. fx_denotes buf k (FKey s) \<and> fx_denotes buf v t" if "i < length ps" "ps ! i = (k, v)" for i k v
    using R that by (fastforce simp: list_all2_conv_all_nth pair_denotes_def)
  show "\<forall>j<length ks. j \<le> fst (ks ! j)" "\<forall>j<length us. j \<le> fst (us ! j)"
    by (simp_all add: ks_def us_def nth_enumerate_eq split_beta)
  show "\<forall>(i, v) \<in> set ks. (\<exists>t. fx_denotes buf v t) \<and> n + 8 * (i + 3) + 8 < 2 ^ 63"
    "\<forall>(i, v) \<in> set us. (\<exists>t. fx_denotes buf v t) \<and> n + 8 * (i + 3) + 8 < 2 ^ 63"
    using d n by (fastforce simp: ks_def us_def in_set_enumerate_eq)+
  show "\<forall>(i, v) \<in> set ks. val_type v = FBT_KEY"
    using d denotes_key(1) by (fastforce simp: ks_def in_set_enumerate_eq)
  show "ks = [] \<or> fst (hd ks) = 0" by (cases ps) (auto simp: ks_def)
  show "map snd ks = map fst ps" "map snd us = map snd ps" "length ks = length ps" "length us = length ps"
    by (simp_all add: ks_def us_def list_eq_iff_nth_eq nth_enumerate_eq split_beta)
qed

lemma end_map_steps:
  assumes "drop start (fxb_stack b) = flat ps" and "list_all (\<lambda>(k, v). val_type k = FBT_KEY) ps"
    and "list_all (\<lambda>n. n \<noteq> None) (map (\<lambda>(k, v). key_at (fxb_buf b) k) ps)"
    and "create_fx_vector start (length ps) 2 True False None
      (b\<lparr>fxb_stack := take start (fxb_stack b) @ flat (sort_pairs (fxb_buf b) ps),
         has_duplicate_keys := has_duplicate_keys b \<or> \<not> distinct (map (\<lambda>(k, v). key_at (fxb_buf b) k) ps)\<rparr>) =
      Some (keys, b2)"
    and "create_fx_vector (start + 1) (length ps) 2 False False (Some keys) b2 = Some (vec, b3)"
  shows "fxb_end_map start b = Some (val_bits vec, b3\<lparr>fxb_stack := take start (fxb_stack b3) @ [vec]\<rparr>)"
  using assms(2-5) by (simp add: fxb_end_map_def assms(1) Let_def flip: flat_def)

lemma end_map_adds:
  assumes b: "fxb_adds b0 c (fx_entries kvs) b" and n: "length (fxb_buf b) + 34 * length kvs + 200 < 2 ^ 63"
    and d: "distinct (map fst kvs)"
  shows "\<exists>p b'. fxb_end_map (length (fxb_stack b0)) b = Some (p, b') \<and>
    fxb_adds b0 (c + 62 + 18 * length kvs) [FMap kvs] b'"
proof -
  obtain ys vs where o: "fxb_buf b = fxb_buf b0 @ ys" "length ys \<le> c" "fxb_stack b = fxb_stack b0 @ vs"
      "list_all2 (fx_denotes (fxb_buf b)) vs (fx_entries kvs)" "pools_ok b"
    using b by (auto simp: fxb_adds_def)
  obtain ps where ps: "vs = flat ps" "list_all2 (pair_denotes (fxb_buf b)) ps kvs"
    using entries_pairs [OF o(4)] by blast
  define ss where "ss = sort_pairs (fxb_buf b) ps"
  let ?buf = "fxb_buf b" and ?st = "fxb_stack b0" and ?m = "length kvs"
  have R: "list_all2 (pair_denotes ?buf) ss (sort_map kvs)"
    unfolding ss_def by (rule sort_pairs_denote [OF ps(2)])
  have len: "length ps = ?m" "length ss = ?m"
    using list_all2_lengthD [OF ps(2)] list_all2_lengthD [OF R] by (simp_all add: sort_map_def)
  let ?n = "length ?buf"
  have n1: "?n + 16 * length ss + 40 < 2 ^ 63" using n len by simp
  note ev = every_pairs [OF R n1]
  let ?ks = "map (\<lambda>(j, (k, v)). (2 * j, k)) (enumerate 0 ss)" and ?us = "map (\<lambda>(j, (k, v)). (2 * j, v)) (enumerate 0 ss)"
  define b1 where "b1 = b\<lparr>fxb_stack := ?st @ flat ss,
    has_duplicate_keys := has_duplicate_keys b \<or> \<not> distinct (map (\<lambda>(k, v). key_at ?buf k) ps)\<rparr>"
  have b1: "fxb_buf b1 = ?buf" "fxb_stack b1 = ?st @ flat ss" by (simp_all add: b1_def)
  have e1: "every 2 (drop (length ?st) (fxb_stack b1)) = ?ks" using every_flat_keys [of ss] by (simp add: b1)
  have t1: "True \<longrightarrow> (\<forall>(i, v) \<in> set ?ks. val_type v = FBT_KEY)" "True \<longrightarrow> ?ks = [] \<longrightarrow> FBT_KEY = FBT_KEY"
    "True \<longrightarrow> ?ks = [] \<or> fst (hd ?ks) = 0" "True \<longrightarrow> is_typed_vector_element_type FBT_KEY"
    using ev(5,6) by (simp_all add: is_typed_vector_element_type_def)
  have n2: "length (fxb_buf b1) + 9 * length ?ks + 48 < 2 ^ 63" using n len by (simp add: b1)
  obtain w xs where w: "create_fx_vector (length ?st) ?m 2 True False None b1 =
      Some (vector_value ?n None True FBT_KEY w, fxb_write_bytes xs b1)"
    and at: "vector_at (?buf @ xs) ?n None True (map fst ss) w"
    and xs: "length xs \<le> 31 + 9 * ?m" "elem_loc ?n 1 w \<le> ?n + length xs"
    using create_vector_at [where typed = True and et = FBT_KEY and keys = None, OF e1 ev(1) ev(3) [folded b1(1)] t1 _ n2]
    unfolding prefix_len_simps ev(7,9) b1(1) len by auto
  let ?kv = "vector_value ?n None True FBT_KEY w" and ?buf1 = "?buf @ xs"
  have R1: "list_all2 (pair_denotes ?buf1) ss (sort_map kvs)"
    using R by (auto elim!: list_all2_mono pair_denotes_append)
  have p1: "unat (of_nat (elem_loc ?n 1 w) :: size_t) = elem_loc ?n 1 w"
    using n by (intro unat_elem_loc_small [of ?n ?m]) simp_all
  have "list_all2 (fx_denotes ?buf1) (map fst ss) (map (\<lambda>kv. FKey (fst kv)) (sort_map kvs))"
    using R1 by (simp add: list_all2_conv_all_nth pair_denotes_def)
  moreover have "\<forall>v \<in> set (map fst ss). val_type v = FBT_KEY"
    using R denotes_key(1) by (fastforce simp: list_all2_conv_all_nth pair_denotes_def set_conv_nth)
  ultimately have kc: "fx_content ?buf1 FBT_VECTOR_KEY (of_nat (elem_loc ?n 1 w)) (of_nat (width_bytes w))
      (FTypedVector (map (\<lambda>kv. FKey (fst kv)) (sort_map kvs)))"
    using typed_content [OF at, of _ FBT_KEY] by (simp add: is_typed_vector_element_type_def)
  have kv: "val_type ?kv = FBT_VECTOR_KEY" "val_bits ?kv = of_nat (elem_loc ?n 1 w)" "min_bit_width ?kv = w"
    by (simp_all add: vector_value_def fx_make_value_def prefix_len_simps)
  have kd: "fx_denotes ?buf1 ?kv (FTypedVector (map (\<lambda>kv. FKey (fst kv)) (sort_map kvs)))"
    using kc p1 xs(2) by (simp add: vector_value_def prefix_len_simps denotes_offset is_inline_def)
  let ?b2 = "fxb_write_bytes xs b1" and ?n2 = "length ?buf1"
  have b2: "fxb_buf ?b2 = ?buf1" "fxb_stack ?b2 = ?st @ flat ss" by (simp_all add: b1)
  have n3: "?n2 + 16 * length ss + 40 < 2 ^ 63" "?n2 + 9 * length ?us + 48 < 2 ^ 63" using n len xs(1) by simp_all
  note ev2 = every_pairs [OF R1 n3(1)]
  have e2: "every 2 (drop (length ?st + 1) (fxb_stack ?b2)) = ?us"
    using every_flat_values [of ss] by (simp add: b1)
  obtain w2 xs2 where w2: "create_fx_vector (length ?st + 1) ?m 2 False False (Some ?kv) ?b2 =
      Some (vector_value ?n2 (Some ?kv) False FBT_KEY w2, fxb_write_bytes xs2 ?b2)"
    and at2: "vector_at (?buf1 @ xs2) ?n2 (Some ?kv) False (map snd ss) w2"
    and xs2: "length xs2 \<le> 31 + 9 * ?m" "elem_loc ?n2 3 w2 \<le> ?n2 + length xs2"
    using create_vector_at [where typed = False and et = FBT_KEY and keys = "Some ?kv",
        OF e2 ev(2) _ _ _ _ _ _ n3(2) [folded b2(1)]] ev2(4) kd kv(1)
    unfolding prefix_len_simps ev(8,10) b2(1) len by (auto simp: is_inline_def)
  let ?vec = "vector_value ?n2 (Some ?kv) False FBT_KEY w2" and ?buf2 = "?buf1 @ xs2"
  have "list_all2 (fx_denotes ?buf1) (map snd ss) (map snd (sort_map kvs))"
    using R1 by (simp add: list_all2_conv_all_nth pair_denotes_def)
  then have "list_all2 (fx_denotes ?buf2) (map snd ss) (map snd (sort_map kvs))" by (rule denotes_list_append)
  then have "fx_content ?buf2 FBT_MAP (of_nat (elem_loc ?n2 3 w2)) (of_nat (width_bytes w2)) (FMap kvs)"
    using map_content [OF at2 kv(1) _ _ d] fx_append(2) [OF kc, of xs2] kv by simp
  moreover have "unat (of_nat (elem_loc ?n2 3 w2) :: size_t) \<le> length ?buf2"
    using unat_elem_loc_small [of ?n2 ?m 3 w2] n xs(1) xs2(2) by simp
  ultimately have vd: "fx_denotes ?buf2 ?vec (FMap kvs)"
    by (simp add: vector_value_def prefix_len_simps denotes_offset is_inline_def)
  let ?b' = "(fxb_write_bytes xs2 ?b2)\<lparr>fxb_stack := ?st @ [?vec]\<rparr>"
  have "val_type (fst p) = FBT_KEY \<and> key_at ?buf (fst p) \<noteq> None" if p: "p \<in> set ps" for p
  proof -
    obtain i where "i < length ps" "p = ps ! i" using p by (auto simp: in_set_conv_nth)
    then have "pair_denotes ?buf p (kvs ! i)" using ps(2) by (simp add: list_all2_conv_all_nth)
    then show ?thesis using denotes_key [of ?buf "fst p" "fst (kvs ! i)"] by (simp add: pair_denotes_def)
  qed
  then have keys: "list_all (\<lambda>(k, v). val_type k = FBT_KEY) ps"
    "list_all (\<lambda>n. n \<noteq> None) (map (\<lambda>(k, v). key_at ?buf k) ps)"
    by (auto simp: list_all_iff)
  have "fxb_end_map (length ?st) b = Some (val_bits ?vec,
      (fxb_write_bytes xs2 ?b2)\<lparr>fxb_stack := take (length ?st) (fxb_stack (fxb_write_bytes xs2 ?b2)) @ [?vec]\<rparr>)"
    by (rule end_map_steps [OF _ keys])
      (use w w2 len in \<open>simp_all add: o(3) ps(1) b1_def ss_def\<close>)
  then have "fxb_end_map (length ?st) b = Some (val_bits ?vec, ?b')" by (simp add: b1)
  moreover have "pools_ok ?b'" by (rule pools_ok_append [OF o(5), of _ "xs @ xs2"]) (simp_all add: b1_def)
  then have "fxb_adds b0 (c + 62 + 18 * ?m) [FMap kvs] ?b'"
    by (rule fxb_addsI [where xs = "ys @ xs @ xs2" and vs = "[?vec]"])
      (use o(1,2) xs(1) xs2(1) vd in \<open>simp_all add: b1\<close>)
  ultimately show ?thesis by blast
qed

end
