(* ===== verification/Fx_Roundtrip.thy ===== *)
theory Fx_Roundtrip
  imports Fx_Build_Vector
begin

text \<open>
  The round trip of \<open>flexbuffers.h\<close>: what \<open>Builder\<close> builds and \<open>Finish\<close> finishes, \<open>GetRoot\<close>
  finds and \<open>Reference\<close> reads, and \<open>Map\<close> looks up every key.
\<close>

declare One_nat_def [simp del]

section \<open>Building a value\<close>

text \<open>Operations one after the other.\<close>

fun run_all :: "(fx_builder \<Rightarrow> fx_builder option) list \<Rightarrow> fx_builder \<Rightarrow> fx_builder option" where
  "run_all [] b = Some b"
| "run_all (f # fs) b = do { b \<leftarrow> f b; run_all fs b }"

definition with_key :: "byte list \<times> (fx_builder \<Rightarrow> fx_builder option) \<Rightarrow> fx_builder \<Rightarrow> fx_builder option" where
  "with_key e = fxb_keyed (fst e @ [0]) (snd e)"

text \<open>The calls that build a value, one operation of the builder for each kind.\<close>

primrec fx_build_tree :: "fx_tree \<Rightarrow> fx_builder \<Rightarrow> fx_builder option" where
  "fx_build_tree FNull = (\<lambda>b. Some (fxb_null b))"
| "fx_build_tree (FBool x) = (\<lambda>b. Some (fxb_bool x b))"
| "fx_build_tree (FInt i) = (\<lambda>b. Some (fxb_int i b))"
| "fx_build_tree (FUInt u) = (\<lambda>b. Some (fxb_uint u b))"
| "fx_build_tree (FDouble d) = (\<lambda>b. Some (fxb_double d b))"
| "fx_build_tree (FIndirectInt i) = fxb_indirect_int i"
| "fx_build_tree (FIndirectUInt u) = fxb_indirect_uint u"
| "fx_build_tree (FKey s) = (\<lambda>b. map_option snd (fxb_key_cstring (s @ [0]) b))"
| "fx_build_tree (FString s) = (\<lambda>b. map_option snd (fxb_string (s @ [0]) (length s) b))"
| "fx_build_tree (FBlob s) = (\<lambda>b. map_option snd (fxb_blob s (length s) b))"
| "fx_build_tree (FVector ts) = (\<lambda>b. map_option snd (fxb_vector_of (run_all (map fx_build_tree ts)) b))"
| "fx_build_tree (FTypedVector ts) = (\<lambda>b. map_option snd (fxb_typed_vector_of (run_all (map fx_build_tree ts)) b))"
| "fx_build_tree (FMap kvs) = (\<lambda>b. map_option snd
     (fxb_map_of (run_all (map with_key (map (map_prod id fx_build_tree) kvs))) b))"

text \<open>
  Keys are C strings, the keys of a map are different, and the elements of a typed vector are
  of one of the types that are inline, or keys.
\<close>

fun element_type :: "fx_tree \<Rightarrow> fx_type option" where
  "element_type (FBool _) = Some FBT_BOOL"
| "element_type (FInt _) = Some FBT_INT"
| "element_type (FUInt _) = Some FBT_UINT"
| "element_type (FDouble _) = Some FBT_FLOAT"
| "element_type (FKey _) = Some FBT_KEY"
| "element_type _ = None"

primrec fx_wf :: "fx_tree \<Rightarrow> bool" where
  "fx_wf FNull = True"
| "fx_wf (FBool x) = True"
| "fx_wf (FInt i) = True"
| "fx_wf (FUInt u) = True"
| "fx_wf (FDouble d) = True"
| "fx_wf (FIndirectInt i) = True"
| "fx_wf (FIndirectUInt u) = True"
| "fx_wf (FKey s) = (0 \<notin> set s)"
| "fx_wf (FString s) = True"
| "fx_wf (FBlob s) = True"
| "fx_wf (FVector ts) = list_all id (map fx_wf ts)"
| "fx_wf (FTypedVector ts) = (list_all id (map fx_wf ts) \<and>
     list_all (\<lambda>t. element_type t = element_type (hd ts) \<and> element_type t \<noteq> None) ts)"
| "fx_wf (FMap kvs) = (list_all (\<lambda>e. 0 \<notin> set (fst e) \<and> snd e) (map (map_prod id fx_wf) kvs) \<and>
     distinct (map fst kvs))"

text \<open>A bound for the number of bytes.\<close>

primrec fx_cost :: "fx_tree \<Rightarrow> nat" where
  "fx_cost FNull = 0"
| "fx_cost (FBool x) = 0"
| "fx_cost (FInt i) = 0"
| "fx_cost (FUInt u) = 0"
| "fx_cost (FDouble d) = 0"
| "fx_cost (FIndirectInt i) = 16"
| "fx_cost (FIndirectUInt u) = 16"
| "fx_cost (FKey s) = Suc (length s)"
| "fx_cost (FString s) = 17 + length s"
| "fx_cost (FBlob s) = 16 + length s"
| "fx_cost (FVector ts) = sum_list (map fx_cost ts) + 31 + 9 * length ts"
| "fx_cost (FTypedVector ts) = sum_list (map fx_cost ts) + 31 + 9 * length ts"
| "fx_cost (FMap kvs) = sum_list (map (\<lambda>e. Suc (length (fst e)) + snd e) (map (map_prod id fx_cost) kvs)) +
     62 + 18 * length kvs"

section \<open>Every value is built\<close>

definition builds :: "fx_tree \<Rightarrow> bool" where
  "builds t \<longleftrightarrow> (\<forall>b. fx_wf t \<longrightarrow> pools_ok b \<longrightarrow> length (fxb_buf b) + 4 * fx_cost t + 256 < 2 ^ 63 \<longrightarrow>
     (\<exists>b'. fx_build_tree t b = Some b' \<and> fxb_adds b (fx_cost t) [t] b'))"

lemma buildsD:
  assumes "builds t" "fx_wf t" "pools_ok b" "length (fxb_buf b) + 4 * fx_cost t + 256 < 2 ^ 63"
  obtains b' where "fx_build_tree t b = Some b'" and "fxb_adds b (fx_cost t) [t] b'"
  using assms unfolding builds_def by blast

lemma builds_all:
  assumes "\<forall>t \<in> set ts. builds t \<and> fx_wf t" and "pools_ok b"
    and "length (fxb_buf b) + 4 * sum_list (map fx_cost ts) + 256 < 2 ^ 63"
  shows "\<exists>b'. run_all (map fx_build_tree ts) b = Some b' \<and> fxb_adds b (sum_list (map fx_cost ts)) ts b'"
  using assms
proof (induction ts arbitrary: b)
  case Nil
  then show ?case by (simp add: fxb_adds_refl)
next
  case (Cons t ts)
  have "length (fxb_buf b) + 4 * fx_cost t + 256 < 2 ^ 63" using Cons.prems(3) by simp
  then obtain b1 where b1: "fx_build_tree t b = Some b1" "fxb_adds b (fx_cost t) [t] b1"
    using Cons.prems(1,2) by (auto intro: buildsD [of t b])
  have "length (fxb_buf b1) + 4 * sum_list (map fx_cost ts) + 256 < 2 ^ 63"
    using fxb_adds_length [OF b1(2)] Cons.prems(3) by simp
  then obtain b2 where b2: "run_all (map fx_build_tree ts) b1 = Some b2"
      "fxb_adds b1 (sum_list (map fx_cost ts)) ts b2"
    using Cons.IH [of b1] Cons.prems(1) fxb_adds_pools [OF b1(2)] by auto
  then show ?case using b1(1) fxb_adds_trans [OF b1(2) b2(2)] by simp
qed

lemma fx_entries_simps [simp]: "fx_entries [] = []" "fx_entries ((k, t) # kvs) = FKey k # t # fx_entries kvs"
  by (simp_all add: fx_entries_def)

lemma builds_entries:
  assumes "\<forall>(k, t) \<in> set kvs. builds t \<and> fx_wf t \<and> 0 \<notin> set k" and "pools_ok b"
    and "length (fxb_buf b) + 4 * sum_list (map (\<lambda>(k, t). Suc (length k) + fx_cost t) kvs) + 256 < 2 ^ 63"
  shows "\<exists>b'. run_all (map with_key (map (map_prod id fx_build_tree) kvs)) b = Some b' \<and>
    fxb_adds b (sum_list (map (\<lambda>(k, t). Suc (length k) + fx_cost t) kvs)) (fx_entries kvs) b'"
  using assms
proof (induction kvs arbitrary: b)
  case Nil
  then show ?case by (simp add: fxb_adds_refl)
next
  case (Cons e kvs)
  obtain k t where e: "e = (k, t)" by (cases e)
  let ?c = "sum_list (map (\<lambda>(k, t). Suc (length k) + fx_cost t) kvs)"
  have s: "length (fxb_buf b) + 4 * (Suc (length k) + fx_cost t + ?c) + 256 < 2 ^ 63"
    using Cons.prems(3) by (simp add: e)
  have wf: "builds t" "fx_wf t" "0 \<notin> set k" using Cons.prems(1) by (auto simp: e)
  obtain p b1 where b1: "fxb_key_cstring (k @ [0]) b = Some (p, b1)" "fxb_adds b (Suc (length k)) [FKey k] b1"
    using key_adds [OF Cons.prems(2) _ wf(3)] s by auto
  have "length (fxb_buf b1) + 4 * fx_cost t + 256 < 2 ^ 63" using fxb_adds_length [OF b1(2)] s by simp
  then obtain b2 where b2: "fx_build_tree t b1 = Some b2" "fxb_adds b1 (fx_cost t) [t] b2"
    using wf fxb_adds_pools [OF b1(2)] by (auto intro: buildsD [of t b1])
  note a2 = fxb_adds_trans [OF b1(2) b2(2)]
  have "length (fxb_buf b2) + 4 * ?c + 256 < 2 ^ 63" using fxb_adds_length [OF a2] s by simp
  then have "\<exists>b3. run_all (map with_key (map (map_prod id fx_build_tree) kvs)) b2 = Some b3 \<and>
      fxb_adds b2 ?c (fx_entries kvs) b3"
    using Cons.prems(1) fxb_adds_pools [OF a2] by (intro Cons.IH) simp_all
  then obtain b3 where b3: "run_all (map with_key (map (map_prod id fx_build_tree) kvs)) b2 = Some b3"
      "fxb_adds b2 ?c (fx_entries kvs) b3" by blast
  have "with_key (map_prod id fx_build_tree e) b = Some b2" using b1(1) b2(1) by (simp add: e with_key_def fxb_keyed_def)
  then have "run_all (map with_key (map (map_prod id fx_build_tree) (e # kvs))) b = Some b3"
    using b3(1) unfolding list.map run_all.simps by simp
  moreover have "fxb_adds b (sum_list (map (\<lambda>(k, t). Suc (length k) + fx_cost t) (e # kvs))) (fx_entries (e # kvs)) b3"
    using fxb_adds_trans [OF a2 b3(2)] by (simp add: e)
  ultimately show ?case by blast
qed

text \<open>The elements of a typed vector have the type that is written for the vector.\<close>

lemma denotes_element_type:
  assumes "fx_denotes buf v t" and "element_type t = Some et"
  shows "val_type v = et \<and> is_typed_vector_element_type et \<and> et \<noteq> FBT_STRING"
  using assms
  by (cases rule: fx_denotes.cases)
    (auto simp: value_defs is_typed_vector_element_type_def elim: fx_content.cases)

lemma typed_elements:
  assumes "list_all2 (fx_denotes buf) vs ts"
    and "list_all (\<lambda>t. element_type t = element_type (hd ts) \<and> element_type t \<noteq> None) ts"
  obtains et where "\<forall>v \<in> set vs. val_type v = et" and "ts = [] \<Longrightarrow> et = FBT_KEY"
    and "is_typed_vector_element_type et \<and> et \<noteq> FBT_STRING"
proof (cases ts)
  case Nil
  then show ?thesis using assms(1) that [of FBT_KEY] by (simp add: is_typed_vector_element_type_def)
next
  case (Cons t ts')
  then obtain et where et: "element_type t = Some et" "\<forall>t \<in> set ts. element_type t = Some et"
    using assms(2) by (auto simp: list_all_iff)
  have "val_type v = et \<and> is_typed_vector_element_type et \<and> et \<noteq> FBT_STRING" if v: "v \<in> set vs" for v
  proof -
    obtain i where i: "i < length vs" "v = vs ! i" using v by (auto simp: in_set_conv_nth)
    then have "fx_denotes buf v (ts ! i)" "ts ! i \<in> set ts" using assms(1) by (auto simp: list_all2_conv_all_nth)
    then show ?thesis using denotes_element_type et(2) by blast
  qed
  moreover have "vs \<noteq> []" using assms(1) Cons by auto
  then have "hd vs \<in> set vs" by simp
  ultimately show ?thesis using that [of et] Cons by blast
qed

lemma adds_denote: "fxb_adds b c ts b' \<Longrightarrow>
    list_all2 (fx_denotes (fxb_buf b')) (drop (length (fxb_stack b)) (fxb_stack b')) ts"
  by (auto simp: fxb_adds_def)

lemma builds_tree: "builds t"
proof (induction t)
  case (FIndirectInt i)
  show ?case
    using indirect_adds [of _ FBT_INDIRECT_INT "FIndirectInt i" i "width_i i"]
    by (auto simp: builds_def fxb_indirect_int_def)
next
  case (FIndirectUInt u)
  show ?case
    using indirect_adds [of _ FBT_INDIRECT_UINT "FIndirectUInt u" u "width_u u"]
    by (auto simp: builds_def fxb_indirect_uint_def)
next
  case (FKey s)
  show ?case unfolding builds_def
  proof (intro allI impI)
    fix b assume "fx_wf (FKey s)" "pools_ok b" "length (fxb_buf b) + 4 * fx_cost (FKey s) + 256 < 2 ^ 63"
    then show "\<exists>b'. fx_build_tree (FKey s) b = Some b' \<and> fxb_adds b (fx_cost (FKey s)) [FKey s] b'"
      using key_adds [of b s] by auto
  qed
next
  case (FString s)
  show ?case unfolding builds_def
  proof (intro allI impI)
    fix b assume "fx_wf (FString s)" "pools_ok b" "length (fxb_buf b) + 4 * fx_cost (FString s) + 256 < 2 ^ 63"
    then show "\<exists>b'. fx_build_tree (FString s) b = Some b' \<and> fxb_adds b (fx_cost (FString s)) [FString s] b'"
      using string_adds [of b s] by auto
  qed
next
  case (FBlob s)
  show ?case unfolding builds_def
  proof (intro allI impI)
    fix b assume "fx_wf (FBlob s)" "pools_ok b" "length (fxb_buf b) + 4 * fx_cost (FBlob s) + 256 < 2 ^ 63"
    then show "\<exists>b'. fx_build_tree (FBlob s) b = Some b' \<and> fxb_adds b (fx_cost (FBlob s)) [FBlob s] b'"
      using blob_value_adds [of b s] by auto
  qed
next
  case (FVector ts)
  show ?case unfolding builds_def
  proof (intro allI impI)
    fix b assume wf: "fx_wf (FVector ts)" and b: "pools_ok b" "length (fxb_buf b) + 4 * fx_cost (FVector ts) + 256 < 2 ^ 63"
    let ?c = "sum_list (map fx_cost ts)"
    have n: "length (fxb_buf b) + 4 * ?c + 36 * length ts + 380 < 2 ^ 63" using b(2) by simp
    have ts: "\<forall>t \<in> set ts. builds t \<and> fx_wf t" using FVector wf by (auto simp: list_all_iff)
    have n1: "length (fxb_buf b) + 4 * ?c + 256 < 2 ^ 63" using n by simp
    obtain b1 where b1: "run_all (map fx_build_tree ts) b = Some b1" "fxb_adds b ?c ts b1"
      using builds_all [OF ts b(1) n1] by blast
    have "length (fxb_buf b1) + 9 * length ts + 48 < 2 ^ 63" using fxb_adds_length [OF b1(2)] n by simp
    then obtain p b2 where "fxb_end_vector (length (fxb_stack b)) False False b1 = Some (p, b2)"
        "fxb_adds b (?c + 31 + 9 * length ts) [FVector ts] b2"
      using end_vector_adds [OF b1(2), of False] by auto
    then show "\<exists>b'. fx_build_tree (FVector ts) b = Some b' \<and> fxb_adds b (fx_cost (FVector ts)) [FVector ts] b'"
      using b1(1) by (simp add: fxb_vector_of_def fxb_start_vector_def)
  qed
next
  case (FTypedVector ts)
  show ?case unfolding builds_def
  proof (intro allI impI)
    fix b assume wf: "fx_wf (FTypedVector ts)" and b: "pools_ok b"
      "length (fxb_buf b) + 4 * fx_cost (FTypedVector ts) + 256 < 2 ^ 63"
    let ?c = "sum_list (map fx_cost ts)"
    have n: "length (fxb_buf b) + 4 * ?c + 36 * length ts + 380 < 2 ^ 63" using b(2) by simp
    have ts: "\<forall>t \<in> set ts. builds t \<and> fx_wf t" using FTypedVector wf by (auto simp: list_all_iff)
    have n1: "length (fxb_buf b) + 4 * ?c + 256 < 2 ^ 63" using n by simp
    obtain b1 where b1: "run_all (map fx_build_tree ts) b = Some b1" "fxb_adds b ?c ts b1"
      using builds_all [OF ts b(1) n1] by blast
    obtain et where et: "\<forall>v \<in> set (drop (length (fxb_stack b)) (fxb_stack b1)). val_type v = et"
        "ts = [] \<Longrightarrow> et = FBT_KEY" "is_typed_vector_element_type et \<and> et \<noteq> FBT_STRING"
      using typed_elements [OF adds_denote [OF b1(2)]] wf by auto
    have "length (fxb_buf b1) + 9 * length ts + 48 < 2 ^ 63" using fxb_adds_length [OF b1(2)] n by simp
    then obtain p b2 where "fxb_end_vector (length (fxb_stack b)) True False b1 = Some (p, b2)"
        "fxb_adds b (?c + 31 + 9 * length ts) [FTypedVector ts] b2"
      using end_vector_adds [where typed = True, OF b1(2) _ et(1,2,3)] by auto
    then show "\<exists>b'. fx_build_tree (FTypedVector ts) b = Some b' \<and>
        fxb_adds b (fx_cost (FTypedVector ts)) [FTypedVector ts] b'"
      using b1(1) by (simp add: fxb_typed_vector_of_def fxb_start_vector_def)
  qed
next
  case (FMap kvs)
  show ?case unfolding builds_def
  proof (intro allI impI)
    fix b assume wf: "fx_wf (FMap kvs)" and b: "pools_ok b" "length (fxb_buf b) + 4 * fx_cost (FMap kvs) + 256 < 2 ^ 63"
    let ?c = "sum_list (map (\<lambda>(k, t). Suc (length k) + fx_cost t) kvs)"
    have cost: "fx_cost (FMap kvs) = ?c + 62 + 18 * length kvs" by (simp add: comp_def case_prod_unfold)
    have n: "length (fxb_buf b) + 4 * ?c + 72 * length kvs + 504 < 2 ^ 63" using b(2) unfolding cost by simp
    have ts: "\<forall>(k, t) \<in> set kvs. builds t \<and> fx_wf t \<and> 0 \<notin> set k" using FMap wf by (force simp: list_all_iff)
    have n1: "length (fxb_buf b) + 4 * ?c + 256 < 2 ^ 63" using n by simp
    obtain b1 where b1: "run_all (map with_key (map (map_prod id fx_build_tree) kvs)) b = Some b1"
        "fxb_adds b ?c (fx_entries kvs) b1"
      using builds_entries [OF ts b(1) n1] by blast
    have "length (fxb_buf b1) + 34 * length kvs + 200 < 2 ^ 63" using fxb_adds_length [OF b1(2)] n by simp
    then obtain p b2 where "fxb_end_map (length (fxb_stack b)) b1 = Some (p, b2)"
        "fxb_adds b (?c + 62 + 18 * length kvs) [FMap kvs] b2"
      using end_map_adds [OF b1(2)] wf by auto
    then show "\<exists>b'. fx_build_tree (FMap kvs) b = Some b' \<and> fxb_adds b (fx_cost (FMap kvs)) [FMap kvs] b'"
      using b1(1) unfolding cost by (simp add: fxb_map_of_def fxb_start_map_def)
  qed
qed (auto simp: builds_def fxb_null_def fxb_bool_def fxb_int_def fxb_uint_def fxb_double_def
    intro!: push_adds fx_denotes.intros)

section \<open>The root\<close>

lemma fx_read_single:
  assumes "buf = xs @ [x] @ ys" and "length xs = p" and "p < 2 ^ 63"
  shows "fx_read 1 buf (Fx_Buffer, of_nat p) = Some [x]"
  by (rule fx_read_piece [OF assms(1,2) _ assms(3)]) (simp add: One_nat_def)

lemma ucast_byte_roundtrip: "ucast (ucast x :: 64 word) = (x :: byte)"
  by (simp add: ucast_down_ucast_id is_down)

lemma fxb_write_1: "fxb_write 1 (ucast x) 1 b = Some (fxb_write_bytes [x] b)" for x :: byte
proof -
  have "unat x mod 256 = unat x" by (rule mod_less) (rule order_less_le_trans [OF unsigned_less], simp)
  then show ?thesis by (simp add: fxb_write_def One_nat_def)
qed

text \<open>\<open>Finish\<close> aligns the root and writes it with its type and width; \<open>GetRoot\<close> goes back.\<close>

lemma finish_root:
  assumes v: "fxb_stack b = [v]" "fx_denotes (fxb_buf b) v t" and n: "length (fxb_buf b) + 32 < 2 ^ 63"
  shows "\<exists>b' buf r. fxb_finish b = Some b' \<and> fxb_get_buffer b' = Some buf \<and>
    length buf \<le> length (fxb_buf b) + 17 \<and> fx_get_root buf (of_nat (length buf)) = Some r \<and> fx_reads buf r t"
proof -
  let ?n = "length (fxb_buf b)"
  have n0: "length (fxb_buf b) + 8 * 0 + 8 < 2 ^ 63" using n by simp
  obtain w where w: "elem_width v (of_nat ?n) (of_nat 0) = Some w"
      "\<And>w' j. w \<le> w' \<Longrightarrow> j \<le> 0 \<Longrightarrow> fx_fits v w' (elem_loc ?n j w')"
    using elem_width_fits [OF v(2) n0] by blast
  let ?k = "width_bytes w" and ?loc = "elem_loc ?n 0 w" and ?st = "stored_packed_type v BIT_WIDTH_8"
  let ?z = "replicate (pad_to ?n (width_bytes w)) (0 :: byte)"
  have fits: "fx_fits v w ?loc" by (rule w(2)) simp_all
  have loc: "?loc = ?n + pad_to ?n ?k" "?loc \<le> ?n + 7" using elem_loc_le [of ?n 0 w] by (simp_all add: elem_loc_0)
  have len: "length (fx_enc v ?k ?loc) = ?k" by (rule length_fx_enc [OF fits])
  let ?buf = "fxb_buf b @ ?z @ fx_enc v ?k ?loc @ [?st] @ [of_nat ?k]"
  have lb: "length ?buf = ?loc + ?k + 2" using loc len by simp
  have k: "?k \<le> 8" by (rule width_bytes_le_8)
  have al: "fxb_align w b = (?k, fxb_write_bytes ?z b)" using n by (intro fxb_align_eq) simp
  have wr: "fxb_write_any v ?k (fxb_write_bytes ?z b) = Some (fxb_write_bytes (?z @ fx_enc v ?k ?loc) b)"
    using write_any_enc [of v w "fxb_write_bytes ?z b"] fits loc n by simp
  have bw: "(of_nat ?k :: 64 word) = ucast (of_nat ?k :: byte)" by simp
  have fin: "fxb_finish b = Some ((fxb_write_bytes (?z @ fx_enc v ?k ?loc @ [?st] @ [of_nat ?k]) b)\<lparr>fxb_finished := True\<rparr>)"
    using w(1) v(1) al wr by (simp add: fxb_finish_def fxb_size_def bw fxb_write_1 del: ucast_width_bytes)
  let ?r = "packed_reference (Fx_Buffer, of_nat ?loc) (of_nat ?k) ?st"
  have r1: "fx_read 1 ?buf (Fx_Buffer, of_nat (?loc + ?k + 1)) = Some [of_nat ?k]"
    by (rule fx_read_single [of _ "fxb_buf b @ ?z @ fx_enc v ?k ?loc @ [?st]" _ "[]"])
      (use loc len k n in \<open>simp_all add: One_nat_def\<close>)
  have r2: "fx_read 1 ?buf (Fx_Buffer, of_nat (?loc + ?k)) = Some [?st]"
    by (rule fx_read_single [of _ "fxb_buf b @ ?z @ fx_enc v ?k ?loc" _ "[of_nat ?k]"]) (use loc len k n in simp_all)
  have s: "of_nat (length ?buf) - 1 = (of_nat (?loc + ?k + 1) :: size_t)"
    "of_nat (length ?buf) - 2 = (of_nat (?loc + ?k) :: size_t)" unfolding lb by simp_all
  have root: "fx_get_root ?buf (of_nat (length ?buf)) = Some ?r"
    unfolding fx_get_root_def s r1 r2 Let_def bind.bind_lunit list.sel by simp
  have ul: "unat (of_nat ?loc :: size_t) = ?loc" using loc(2) n by (intro unat_of_nat_small) simp
  have rd: "fx_read ?k ?buf (Fx_Buffer, of_nat ?loc) = Some (fx_enc v ?k ?loc)"
    by (rule fx_read_piece [of _ "fxb_buf b @ ?z" _ "[?st] @ [of_nat ?k]"]) (use loc len n in simp_all)
  have "fx_reads ?buf ?r t"
    by (rule written_reads [OF fx_denotes_append [OF v(2)], where w = w and loc = "of_nat ?loc"])
      (use fits ul rd denotes_type [OF v(2)] in
        \<open>simp_all add: packed_reference_def stored_packed_type_def packed_width_type stored_width_def\<close>)
  moreover have "length ?buf \<le> ?n + 17" using lb loc(2) k by simp
  ultimately show ?thesis using fin root by (auto simp: fxb_get_buffer_def)
qed

section \<open>Looking up a key\<close>

lemma str_cmp_less: "sint (str_cmp a b) < 0 \<longleftrightarrow> a < b" "str_cmp a b = 0 \<longleftrightarrow> a = b"
  by (auto simp: str_cmp_def string_less_than_less)

lemma reads_key:
  assumes "fx_reads buf r (FKey s)"
  obtains p where "rf_indirect buf r = Some (Fx_Buffer, p)" and "c_string buf p = Some s"
  using assms
  by (cases rule: fx_reads.cases) (auto elim!: fx_content.cases)

text \<open>The position that the search found, as an index.\<close>

lemma index_of_position:
  assumes "i < 2 ^ 60" and "w \<in> {1, 2, 4, 8 :: byte}"
  shows "(base + of_nat i * ucast w - base) div ucast w = (of_nat i :: size_t)"
proof -
  have "unat (of_nat i :: size_t) = i" using assms(1) by (intro unat_of_nat_small) simp
  moreover have "unat (ucast w :: size_t) = unat w" by simp
  moreover have "unat w \<le> 8" using assms(2) by auto
  then have "i * unat w \<le> i * 8" by (rule mult_le_mono2)
  then have "i * unat w < 2 ^ 64" by (rule order_le_less_trans) (use assms(1) in simp)
  moreover have "0 < unat w" using assms(2) by auto
  ultimately have "unat ((of_nat i * ucast w :: size_t) div ucast w) = i"
    by (simp add: unat_div unat_word_ariths)
  then show ?thesis using \<open>unat (of_nat i :: size_t) = i\<close> by (simp add: word_unat_eq_iff)
qed

lemma sorted_sort_map: "i \<le> j \<Longrightarrow> j < length kvs \<Longrightarrow> fst (sort_map kvs ! i) \<le> fst (sort_map kvs ! j)"
  using sorted_nth_mono [OF sorted_sort_key [of fst kvs], of i j] by (simp add: sort_map_def)

lemma sort_map_nth: "i < length kvs \<Longrightarrow> sort_map kvs ! i \<in> set kvs"
  using nth_mem [of i "sort_map kvs"] by (simp add: sort_map_def)

text \<open>\<open>Map::operator[]\<close> finds the value of every key of the map, and nothing else.\<close>

lemma map_lookup:
  assumes "fx_content buf FBT_MAP p w (FMap kvs)" and n: "length kvs < 2 ^ 60"
  obtains m where "sized_at buf (Fx_Buffer, p) w = Some m"
    and "\<And>key. \<exists>e. map_get buf m key = Some e \<and>
      (case map_of kvs key of Some t \<Rightarrow> fx_reads buf e t | None \<Rightarrow> e = out_of_bounds)"
proof -
  obtain m ks where m: "sized_at buf (Fx_Buffer, p) w = Some m" "unat (ob_size m) = length kvs"
    and ks: "map_keys buf m = Some ks" "fst (ob_data ks) = Fx_Buffer" "ob_size ks = ob_size m"
      "ob_width ks \<in> {1, 2, 4, 8}" "tv_type ks = FBT_KEY"
    and keys: "\<forall>i<length kvs. fx_reads buf (typed_vector_get ks (of_nat i)) (FKey (fst (sort_map kvs ! i)))"
    and vals: "\<forall>i<length kvs. \<exists>e. fx_vector_get buf m (of_nat i) = Some e \<and> fx_reads buf e (snd (sort_map kvs ! i))"
    and d: "distinct (map fst kvs)"
    using assms(1) by cases auto
  let ?base = "snd (ob_data ks)" and ?s = "ucast (ob_width ks) :: size_t"
  have cmp: "fx_key_compare buf (fst (ob_data ks)) (ob_width ks) key (?base + of_nat i * ?s) =
      Some (str_cmp key (fst (sort_map kvs ! i)))" if i: "i < length kvs" for i key
  proof -
    have ui: "unat (of_nat i :: size_t) = i" using i n by (intro unat_of_nat_small) simp
    have "typed_vector_get ks (of_nat i) = \<lparr>rf_data = (Fx_Buffer, ?base + of_nat i * ?s), rf_parent_width = ob_width ks,
        rf_byte_width = 1, rf_type = FBT_KEY\<rparr>"
      using ks i m(2) ui by (simp add: typed_vector_get_def word_le_nat_alt ptr_add_def del: unat_of_nat)
    moreover obtain q where "rf_indirect buf (typed_vector_get ks (of_nat i)) = Some (Fx_Buffer, q)"
        "c_string buf q = Some (fst (sort_map kvs ! i))"
      using reads_key keys i by blast
    ultimately show ?thesis using ks(2) by (simp add: fx_key_compare_def rf_indirect_def fx_c_string_def)
  qed
  have "\<exists>e. map_get buf m key = Some e \<and> (case map_of kvs key of Some t \<Rightarrow> fx_reads buf e t | None \<Rightarrow> e = out_of_bounds)"
    for key
  proof -
    let ?c = "fx_key_compare buf (fst (ob_data ks)) (ob_width ks) key"
    have "bsearch ?c ?base (length kvs) ?s = Some None \<and> (\<forall>i<length kvs. fst (sort_map kvs ! i) \<noteq> key) \<or>
      (\<exists>i<length kvs. bsearch ?c ?base (length kvs) ?s = Some (Some (?base + of_nat i * ?s)) \<and> fst (sort_map kvs ! i) = key)"
      by (rule bsearch_finds [where c = "\<lambda>i. str_cmp key (fst (sort_map kvs ! i))"])
        (simp_all add: cmp str_cmp_less sorted_sort_map)
    then show ?thesis
    proof (elim disjE exE conjE)
      assume b: "bsearch ?c ?base (length kvs) ?s = Some None" and ne: "\<forall>i<length kvs. fst (sort_map kvs ! i) \<noteq> key"
      have "key \<notin> fst ` set kvs"
      proof
        assume "key \<in> fst ` set kvs"
        then have "key \<in> fst ` set (sort_map kvs)" by (simp add: sort_map_def)
        then obtain i where "i < length (sort_map kvs)" "fst (sort_map kvs ! i) = key" by (auto simp: in_set_conv_nth)
        then show False using ne by (simp add: sort_map_def)
      qed
      then have "map_of kvs key = None" by (simp add: map_of_eq_None_iff)
      then show ?thesis using ks b m(2) by (simp add: map_get_def)
    next
      fix i assume i: "i < length kvs" and b: "bsearch ?c ?base (length kvs) ?s = Some (Some (?base + of_nat i * ?s))"
        and k: "fst (sort_map kvs ! i) = key"
      obtain e where e: "fx_vector_get buf m (of_nat i) = Some e" "fx_reads buf e (snd (sort_map kvs ! i))"
        using vals i by blast
      have "(key, snd (sort_map kvs ! i)) \<in> set kvs" using sort_map_nth [OF i] k by (metis prod.collapse)
      then have "map_of kvs key = Some (snd (sort_map kvs ! i))" using d by simp
      moreover have "(?base + of_nat i * ?s - ?base) div ?s = of_nat i"
        using i n ks(4) by (intro index_of_position) simp_all
      then have "map_get buf m key = Some e"
        using ks b m(2) e(1) by (simp add: map_get_def)
      ultimately show ?thesis using e(2) by simp
    qed
  qed
  then show ?thesis using that m(1) by blast
qed

section \<open>The round trip\<close>

lemma pools_ok_new: "pools_ok (fxb_force_minimum_bit_width bw (fxb_new flags))"
  by (simp add: pools_ok_def fxb_force_minimum_bit_width_def fxb_new_def)

lemma new_builder: "fxb_buf (fxb_force_minimum_bit_width bw (fxb_new flags)) = []"
  "fxb_stack (fxb_force_minimum_bit_width bw (fxb_new flags)) = []"
  by (simp_all add: fxb_force_minimum_bit_width_def fxb_new_def)

text \<open>The whole way: building into a new builder, finishing, and taking the buffer.\<close>

definition fx_encode :: "u32 \<Rightarrow> bit_width \<Rightarrow> fx_tree \<Rightarrow> byte list option" where
  "fx_encode flags bw t = do {
     b \<leftarrow> fx_build_tree t (fxb_force_minimum_bit_width bw (fxb_new flags));
     b \<leftarrow> fxb_finish b;
     fxb_get_buffer b
   }"

lemma fx_roundtrip_from:
  assumes "fx_wf t" and "fx_cost t < 2 ^ 60"
  shows "\<exists>buf r. fx_encode flags bw t = Some buf \<and> length buf \<le> fx_cost t + 17 \<and>
    fx_get_root buf (of_nat (length buf)) = Some r \<and> fx_reads buf r t"
proof -
  let ?b0 = "fxb_force_minimum_bit_width bw (fxb_new flags)"
  obtain b where b: "fx_build_tree t ?b0 = Some b" "fxb_adds ?b0 (fx_cost t) [t] b"
    using buildsD [OF builds_tree assms(1) pools_ok_new [of bw flags]] assms(2) by (auto simp: new_builder)
  obtain v where v: "fxb_stack b = [v]" "fx_denotes (fxb_buf b) v t"
    using b(2) by (auto simp: fxb_adds_def new_builder list_all2_Cons2)
  have len: "length (fxb_buf b) \<le> fx_cost t" using fxb_adds_length [OF b(2)] by (simp add: new_builder)
  obtain b' buf r where "fxb_finish b = Some b'" "fxb_get_buffer b' = Some buf" "length buf \<le> length (fxb_buf b) + 17"
      "fx_get_root buf (of_nat (length buf)) = Some r" "fx_reads buf r t"
    using finish_root [OF v] len assms(2) by auto
  then show ?thesis using b(1) len by (auto simp: fx_encode_def)
qed





end
