(* ===== verification/Fx_Text.thy ===== *)
theory Fx_Text
  imports Fx_Roundtrip Fb_Number
begin

text \<open>
  \<open>examples/flatbuffers/flexbuffers.h\<close>: \<open>Reference::ToString\<close>, which writes a value as JSON-like
  text.  It follows offsets of buffers that nobody verified and may not return; the definition
  is a partial function.  \<open>strtod\<close> and \<open>ftoa\<close> are the conversions of floating point in \<open>util.h\<close>.
\<close>

declare One_nat_def [simp del]

section \<open>Parts of the text\<close>

definition ascii_bytes :: "string \<Rightarrow> byte list" where
  "ascii_bytes s = map of_char s"

text \<open>\<open>EscapeString\<close> may look at the bytes behind the text.\<close>

definition escape_at :: "byte list \<Rightarrow> fx_ptr \<Rightarrow> nat \<Rightarrow> byte list \<Rightarrow> byte list option" where
  "escape_at buf p len s =
     map_option snd (escape_string (drop (unat (snd p)) (region_bytes buf (fst p))) len s True False)"

text \<open>Is a key no identifier?  Reading stops at the first character that decides.\<close>

fun not_ident_rest :: "byte list \<Rightarrow> bool option" where
  "not_ident_rest [] = None"
| "not_ident_rest (c # cs) =
     (if c = 0 then Some False else if \<not> is_alnum c \<and> c \<noteq> 0x5F then Some True else not_ident_rest cs)"

fun not_ident :: "byte list \<Rightarrow> bool option" where
  "not_ident [] = None"
| "not_ident (c # cs) = (if \<not> is_alpha c \<and> c \<noteq> 0x5F then Some True else not_ident_rest cs)"

section \<open>The text of a value\<close>

definition append_vector ::
  "(reference \<Rightarrow> byte list \<Rightarrow> byte list option) \<Rightarrow> (size_t \<Rightarrow> reference option) \<Rightarrow> nat \<Rightarrow> byte list \<Rightarrow> byte list option" where
  "append_vector rec get n s = do {
     s \<leftarrow> option_loop (\<lambda>i s. do {
         let s = (if i \<noteq> 0 then s @ ascii_bytes '', '' else s);
         e \<leftarrow> get (of_nat i);
         rec e s
       }) [0..<n] (s @ ascii_bytes ''[ '');
     Some (s @ ascii_bytes '' ]'')
   }"

lemma append_vector_mono [partial_function_mono]:
  assumes "\<And>e s. mono_option (\<lambda>f. F f e s)"
  shows "mono_option (\<lambda>f. append_vector (F f) get n s)"
  unfolding append_vector_def Let_def by (intro partial_function_mono assms)

definition append_entry ::
  "(reference \<Rightarrow> bool \<Rightarrow> byte list \<Rightarrow> byte list option) \<Rightarrow> byte list \<Rightarrow> fx_typed_vector \<Rightarrow> fx_sized \<Rightarrow> bool \<Rightarrow>
    nat \<Rightarrow> byte list \<Rightarrow> byte list option" where
  "append_entry rec buf keys vals keys_quoted i s = do {
     let key = typed_vector_get keys (of_nat i);
     kq \<leftarrow> (if keys_quoted then Some True else do {
         p \<leftarrow> as_key buf key;
         not_ident (drop (unat (snd p)) (region_bytes buf (fst p)))
       });
     s \<leftarrow> rec key kq s;
     let s = s @ ascii_bytes '': '';
     v \<leftarrow> fx_vector_get buf vals (of_nat i);
     s \<leftarrow> rec v keys_quoted s;
     Some (if (of_nat i :: size_t) < ob_size keys - 1 then s @ ascii_bytes '', '' else s)
   }"

lemma append_entry_mono [partial_function_mono]:
  assumes "\<And>e q s. mono_option (\<lambda>f. F f e q s)"
  shows "mono_option (\<lambda>f. append_entry (F f) buf keys vals kq i s)"
  unfolding append_entry_def Let_def by (intro partial_function_mono assms)

partial_function (option) fx_to_string ::
  "(byte list \<Rightarrow> double_bits) \<Rightarrow> (double_bits \<Rightarrow> byte list) \<Rightarrow> byte list \<Rightarrow> reference \<Rightarrow> bool \<Rightarrow> bool \<Rightarrow> byte list \<Rightarrow>
    byte list option" where
  "fx_to_string strtod ftoa buf r strings_quoted keys_quoted s =
     (if rf_type r = FBT_STRING then do {
        p \<leftarrow> rf_indirect buf r;
        str \<leftarrow> sized_at buf p (rf_byte_width r);
        (if strings_quoted then escape_at buf (ob_data str) (unat (ob_size str)) s
         else do { t \<leftarrow> fx_string_str buf str; Some (s @ t) })
      }
      else if rf_is_key r then do {
        p \<leftarrow> as_key buf r;
        str \<leftarrow> fx_c_string buf p;
        (if keys_quoted then escape_at buf p (length str) s else Some (s @ str))
      }
      else if rf_is_int r then do { i \<leftarrow> as_int64 buf r; Some (s @ num_to_string (sint i)) }
      else if rf_is_uint r then do { u \<leftarrow> as_uint64 buf r; Some (s @ num_to_string (uint u)) }
      else if rf_is_float r then do { d \<leftarrow> as_double strtod buf r; Some (s @ ftoa d) }
      else if rf_is_null r then Some (s @ ascii_bytes ''null'')
      else if rf_is_bool r then do { b \<leftarrow> as_bool buf r; Some (s @ ascii_bytes (if b then ''true'' else ''false'')) }
      else if rf_is_map r then do {
        m \<leftarrow> as_map buf r;
        keys \<leftarrow> map_keys buf m;
        vals \<leftarrow> map_values buf m;
        s \<leftarrow> option_loop (append_entry (\<lambda>e q. fx_to_string strtod ftoa buf e True q) buf keys vals keys_quoted) [0..<unat (ob_size keys)] (s @ ascii_bytes ''{ '');
        Some (s @ ascii_bytes '' }'')
      }
      else if rf_is_vector r then do {
        v \<leftarrow> as_vector buf r;
        append_vector (\<lambda>e. fx_to_string strtod ftoa buf e True keys_quoted) (fx_vector_get buf v) (unat (ob_size v)) s
      }
      else if rf_is_typed_vector r then do {
        v \<leftarrow> as_typed_vector buf r;
        append_vector (\<lambda>e. fx_to_string strtod ftoa buf e True keys_quoted) (\<lambda>i. Some (typed_vector_get v i)) (unat (ob_size v)) s
      }
      else if rf_is_fixed_typed_vector r then do {
        v \<leftarrow> as_fixed_typed_vector buf r;
        append_vector (\<lambda>e. fx_to_string strtod ftoa buf e True keys_quoted) (\<lambda>i. Some (fixed_vector_get v i)) (unat (fv_len v)) s
      }
      else if rf_is_blob r then do {
        b \<leftarrow> as_blob buf r;
        escape_at buf (ob_data b) (unat (ob_size b)) s
      }
      else Some (s @ ascii_bytes ''(?)''))"

definition fx_text_of :: "(byte list \<Rightarrow> double_bits) \<Rightarrow> (double_bits \<Rightarrow> byte list) \<Rightarrow> byte list \<Rightarrow> reference \<Rightarrow> byte list option" where
  "fx_text_of strtod ftoa buf r = fx_to_string strtod ftoa buf r False False []"

section \<open>The text of a value, from the value itself\<close>

fun join_text :: "byte list \<Rightarrow> byte list list \<Rightarrow> byte list" where
  "join_text sep [] = []"
| "join_text sep [x] = x"
| "join_text sep (x # y # ys) = x @ sep @ join_text sep (y # ys)"

definition quoted :: "byte list \<Rightarrow> byte list" where
  "quoted s = snd (the (escape_string s (length s) [] True False))"

fun is_ident :: "byte list \<Rightarrow> bool" where
  "is_ident [] \<longleftrightarrow> False"
| "is_ident (c # cs) \<longleftrightarrow> (is_alpha c \<or> c = 0x5F) \<and> list_all (\<lambda>c. is_alnum c \<or> c = 0x5F) cs"

definition key_text :: "bool \<Rightarrow> byte list \<Rightarrow> byte list" where
  "key_text q k = (if q then quoted k else k)"

primrec fx_text :: "fx_tree \<Rightarrow> bool \<Rightarrow> bool \<Rightarrow> byte list" where
  "fx_text FNull = (\<lambda>sq kq. ascii_bytes ''null'')"
| "fx_text (FBool x) = (\<lambda>sq kq. ascii_bytes (if x then ''true'' else ''false''))"
| "fx_text (FInt i) = (\<lambda>sq kq. num_to_string (sint i))"
| "fx_text (FUInt u) = (\<lambda>sq kq. num_to_string (uint u))"
| "fx_text (FDouble d) = (\<lambda>sq kq. [])"
| "fx_text (FIndirectInt i) = (\<lambda>sq kq. num_to_string (sint i))"
| "fx_text (FIndirectUInt u) = (\<lambda>sq kq. num_to_string (uint u))"
| "fx_text (FKey s) = (\<lambda>sq kq. key_text kq s)"
| "fx_text (FString s) = (\<lambda>sq kq. if sq then quoted s else s)"
| "fx_text (FBlob s) = (\<lambda>sq kq. quoted s)"
| "fx_text (FVector ts) = (\<lambda>sq kq.
     ascii_bytes ''[ '' @ join_text (ascii_bytes '', '') (map (\<lambda>f. f True kq) (map fx_text ts)) @ ascii_bytes '' ]'')"
| "fx_text (FTypedVector ts) = (\<lambda>sq kq.
     ascii_bytes ''[ '' @ join_text (ascii_bytes '', '') (map (\<lambda>f. f True kq) (map fx_text ts)) @ ascii_bytes '' ]'')"
| "fx_text (FMap kvs) = (\<lambda>sq kq. ascii_bytes ''{ '' @ join_text (ascii_bytes '', '')
     (map (\<lambda>(k, f). key_text (kq \<or> \<not> is_ident k) k @ ascii_bytes '': '' @ f True kq)
       (sort_map (map (map_prod id fx_text) kvs))) @ ascii_bytes '' }'')"

text \<open>The texts in the value are UTF-8, and there are no numbers in floating point.\<close>

definition utf8_text :: "byte list \<Rightarrow> bool" where
  "utf8_text s \<longleftrightarrow> (\<exists>cps. (\<forall>n \<in> set cps. unicode_scalar n) \<and> s = concat (map utf8_bytes cps))"

primrec fx_textual :: "fx_tree \<Rightarrow> bool" where
  "fx_textual FNull = True"
| "fx_textual (FBool x) = True"
| "fx_textual (FInt i) = True"
| "fx_textual (FUInt u) = True"
| "fx_textual (FDouble d) = False"
| "fx_textual (FIndirectInt i) = True"
| "fx_textual (FIndirectUInt u) = True"
| "fx_textual (FKey s) = utf8_text s"
| "fx_textual (FString s) = utf8_text s"
| "fx_textual (FBlob s) = utf8_text s"
| "fx_textual (FVector ts) = list_all id (map fx_textual ts)"
| "fx_textual (FTypedVector ts) = list_all id (map fx_textual ts)"
| "fx_textual (FMap kvs) = list_all (\<lambda>e. utf8_text (fst e) \<and> snd e) (map (map_prod id fx_textual) kvs)"

section \<open>Escaped texts and keys\<close>

lemma escape_codes:
  assumes "\<forall>n \<in> set cps. unicode_scalar n" and "length (concat (map utf8_bytes cps)) + length rest < 2 ^ 32"
  shows "escape_string (concat (map utf8_bytes cps) @ rest) (length (concat (map utf8_bytes cps))) t True False =
    Some (True, t @ [0x22] @ concat (map code_text cps) @ [0x22])"
  using escape_from_codes [OF assms(1), of 0 "concat (map utf8_bytes cps) @ rest" rest True "t @ [0x22]"] assms(2)
  by (simp add: escape_string_def)

lemma quoted_codes:
  assumes "\<forall>n \<in> set cps. unicode_scalar n" and "length (concat (map utf8_bytes cps)) < 2 ^ 32"
  shows "quoted (concat (map utf8_bytes cps)) = [0x22] @ concat (map code_text cps) @ [0x22]"
  using escape_codes [OF assms(1), of "[]" "[]"] assms(2) by (simp add: quoted_def)

lemma escape_utf8:
  assumes "utf8_text s" and "length s + length rest < 2 ^ 32"
  shows "escape_string (s @ rest) (length s) t True False = Some (True, t @ quoted s)"
  using assms escape_codes quoted_codes by (fastforce simp: utf8_text_def)

lemma escape_at_utf8:
  assumes "utf8_text s" and "fx_read (length s) buf p = Some s" and "length (region_bytes buf (fst p)) < 2 ^ 32"
  shows "escape_at buf p (length s) t = Some (t @ quoted s)"
proof -
  let ?bs = "drop (unat (snd p)) (region_bytes buf (fst p))"
  have "take (length s) ?bs = s" using assms(2) by (auto simp: fx_read_def read_bytes_def split: if_splits)
  then have "?bs = s @ drop (length s) ?bs" by (metis append_take_drop_id)
  moreover have "length s + length (drop (length s) ?bs) < 2 ^ 32"
    using assms(2,3) by (auto simp: fx_read_def read_bytes_def split: if_splits)
  ultimately have "escape_string ?bs (length s) t True False = Some (True, t @ quoted s)"
    using escape_utf8 [OF assms(1)] by metis
  then show ?thesis by (simp add: escape_at_def)
qed

lemma c_string_memory:
  assumes "c_string buf p = Some k"
  obtains rest where "drop (unat p) buf = k @ 0 # rest" and "0 \<notin> set k"
proof -
  let ?bs = "drop (unat p) buf"
  have k: "0 \<in> set ?bs" "k = takeWhile (\<lambda>b. b \<noteq> 0) ?bs"
    using assms by (auto simp: c_string_def Let_def split: if_splits)
  have d: "dropWhile (\<lambda>b. b \<noteq> 0) ?bs \<noteq> []" using k(1) by (simp add: dropWhile_eq_Nil_conv)
  then obtain c rest where c: "dropWhile (\<lambda>b. b \<noteq> 0) ?bs = c # rest" by (meson neq_Nil_conv)
  then have "c = 0" using hd_dropWhile [OF d] by simp
  then have "?bs = k @ 0 # rest" using c k(2) takeWhile_dropWhile_id [of "\<lambda>b. b \<noteq> 0" ?bs] by simp
  moreover have "0 \<notin> set k" using k(2) by (auto dest: set_takeWhileD)
  ultimately show ?thesis by (rule that)
qed

lemma not_ident_rest_text: "0 \<notin> set k \<Longrightarrow>
    not_ident_rest (k @ 0 # rest) = Some (\<not> list_all (\<lambda>c. is_alnum c \<or> c = 0x5F) k)"
  by (induction k) auto

lemma not_ident_text:
  assumes "c_string buf p = Some k"
  shows "not_ident (drop (unat p) buf) = Some (\<not> is_ident k)"
proof -
  obtain rest where r: "drop (unat p) buf = k @ 0 # rest" "0 \<notin> set k" by (rule c_string_memory [OF assms])
  have "\<not> is_alpha 0" by code_simp
  then show ?thesis unfolding r(1) using r(2) by (cases k) (auto simp: not_ident_rest_text)
qed

lemma c_string_read:
  assumes "c_string buf p = Some k"
  shows "fx_read (length k) buf (Fx_Buffer, p) = Some k"
proof -
  obtain rest where r: "drop (unat p) buf = k @ 0 # rest" by (rule c_string_memory [OF assms])
  have "length (drop (unat p) buf) = length (k @ 0 # rest)" by (simp only: r)
  then have "unat p + length k < length buf" unfolding length_drop by simp
  then show ?thesis using r by (simp add: fx_read_def read_bytes_def)
qed

section \<open>The loops\<close>

lemma join_text_snoc: "join_text sep (xs @ [x]) = (if xs = [] then x else join_text sep xs @ sep @ x)"
  by (induction sep xs rule: join_text.induct) auto

text \<open>With the separator before or behind an element.\<close>

lemma text_loop_join:
  assumes "\<And>i s. i < length xs \<Longrightarrow> f i s = Some (s @ (if i \<noteq> 0 then sep else []) @ xs ! i)"
  shows "option_loop f [0..<length xs] s = Some (s @ join_text sep xs)"
proof -
  have "k \<le> length xs \<Longrightarrow> option_loop f [0..<k] s = Some (s @ join_text sep (take k xs))" for k
  proof (induction k)
    case (Suc k)
    then have "xs \<noteq> []" by auto
    with Suc show ?case by (simp add: option_loop_append assms take_Suc_conv_app_nth join_text_snoc)
  qed simp
  from this [of "length xs"] show ?thesis by simp
qed

lemma text_loop_join_behind:
  assumes "\<And>i s. i < length xs \<Longrightarrow> f i s = Some (s @ xs ! i @ (if i < length xs - 1 then sep else []))"
  shows "option_loop f [0..<length xs] s = Some (s @ join_text sep xs)"
proof -
  have "k \<le> length xs \<Longrightarrow> option_loop f [0..<k] s =
      Some (s @ join_text sep (take k xs) @ (if 0 < k \<and> k < length xs then sep else []))" for k
  proof (induction k)
    case (Suc k)
    then show ?case
      by (auto simp: option_loop_append assms take_Suc_conv_app_nth join_text_snoc)
  qed simp
  from this [of "length xs"] show ?thesis by simp
qed

lemma append_vector_text:
  assumes "\<And>i. i < length ts \<Longrightarrow> \<exists>e. get (of_nat i) = Some e \<and> (\<forall>s. rec e s = Some (s @ xs ! i))"
    and "length xs = length ts"
  shows "append_vector rec get (length ts) s =
    Some (s @ ascii_bytes ''[ '' @ join_text (ascii_bytes '', '') xs @ ascii_bytes '' ]'')"
proof -
  let ?f = "\<lambda>i s. do {
         let s = (if i \<noteq> 0 then s @ ascii_bytes '', '' else s);
         e \<leftarrow> get (of_nat i);
         rec e s
       }"
  have "option_loop ?f [0..<length xs] (s @ ascii_bytes ''[ '') =
      Some ((s @ ascii_bytes ''[ '') @ join_text (ascii_bytes '', '') xs)"
  proof (rule text_loop_join)
    fix i s assume "i < length xs"
    then obtain e where "get (of_nat i) = Some e" "\<forall>s. rec e s = Some (s @ xs ! i)"
      using assms by metis
    then show "?f i s = Some (s @ (if i \<noteq> 0 then ascii_bytes '', '' else []) @ xs ! i)" by simp
  qed
  then show ?thesis using assms(2) by (simp add: append_vector_def)
qed

lemma sort_map_map: "sort_map (map (map_prod id f) kvs) = map (map_prod id f) (sort_map kvs)"
proof -
  have ins: "insort_key fst (map_prod id f e) (map (map_prod id f) kvs) = map (map_prod id f) (insort_key fst e kvs)" for e kvs
    by (induction kvs) auto
  show ?thesis unfolding sort_map_def by (induction kvs) (simp_all add: ins [unfolded id_def] id_def)
qed

section \<open>What is read is what is written as text\<close>

definition says :: "(byte list \<Rightarrow> double_bits) \<Rightarrow> (double_bits \<Rightarrow> byte list) \<Rightarrow> byte list \<Rightarrow> reference \<Rightarrow> fx_tree \<Rightarrow> bool" where
  "says strtod ftoa buf r t \<longleftrightarrow>
     (\<forall>sq kq s. fx_to_string strtod ftoa buf r sq kq s = Some (s @ fx_text t sq kq))"

lemmas rf_kinds = rf_is_key_def rf_is_int_def rf_is_uint_def rf_is_float_def rf_is_null_def rf_is_bool_def
  rf_is_map_def rf_is_vector_def rf_is_typed_vector_def rf_is_fixed_typed_vector_def rf_is_blob_def

lemma says_vector:
  assumes "sized_at buf (Fx_Buffer, p) w = Some v" "unat (ob_size v) = length ts"
    and el: "\<forall>i<length ts. \<exists>e. fx_vector_get buf v (of_nat i) = Some e \<and> says strtod ftoa buf e (ts ! i)"
    and r: "rf_type r = FBT_VECTOR" "rf_indirect buf r = Some (Fx_Buffer, p)" "rf_byte_width r = w"
  shows "says strtod ftoa buf r (FVector ts)"
proof -
  have "append_vector (\<lambda>e. fx_to_string strtod ftoa buf e True kq) (fx_vector_get buf v) (length ts) s =
      Some (s @ fx_text (FVector ts) sq kq)" for s sq kq
    unfolding fx_text.simps
    by (rule append_vector_text) (use el in \<open>auto simp: says_def\<close>)
  moreover have "as_vector buf r = Some v" using assms by (simp add: as_vector_def)
  ultimately show ?thesis using assms(2) r(1)
    by (simp add: says_def fx_to_string.simps [of _ _ _ r] rf_kinds)
qed

lemma typed_vector_kinds:
  assumes "is_typed_vector (rf_type r)"
  shows "rf_type r \<noteq> FBT_STRING" "\<not> rf_is_key r" "\<not> rf_is_int r" "\<not> rf_is_uint r" "\<not> rf_is_float r" "\<not> rf_is_null r"
    "\<not> rf_is_bool r" "\<not> rf_is_map r" "\<not> rf_is_vector r" "rf_is_typed_vector r"
  using assms by (auto simp: rf_kinds is_typed_vector_def)

lemma says_typed_vector:
  assumes et: "to_typed_vector_element_type ty = Some et" "et \<noteq> FBT_STRING"
    and tv: "typed_vector_at buf (Fx_Buffer, p) w et = Some tv" "unat (ob_size tv) = length ts"
    and el: "\<forall>i<length ts. says strtod ftoa buf (typed_vector_get tv (of_nat i)) (ts ! i)"
    and r: "rf_type r = ty" "rf_indirect buf r = Some (Fx_Buffer, p)" "rf_byte_width r = w"
  shows "says strtod ftoa buf r (FTypedVector ts)"
proof -
  have ty: "is_typed_vector (rf_type r)" using et(1) r(1) by (simp add: to_typed_vector_element_type_def split: if_splits)
  have "tv_type tv = et" using tv(1) by (auto simp: typed_vector_at_def split: bind_splits)
  then have at: "as_typed_vector buf r = Some tv"
    using et tv(1) r ty by (simp add: as_typed_vector_def rf_is_typed_vector_def)
  have "append_vector (\<lambda>e. fx_to_string strtod ftoa buf e True kq) (\<lambda>i. Some (typed_vector_get tv i)) (length ts) s =
      Some (s @ fx_text (FTypedVector ts) sq kq)" for s sq kq
    unfolding fx_text.simps
    by (rule append_vector_text) (use el in \<open>auto simp: says_def\<close>)
  then show ?thesis using at tv(2)
    by (simp add: says_def fx_to_string.simps [of _ _ _ r] typed_vector_kinds [OF ty])
qed

lemma says_map:
  assumes m: "sized_at buf (Fx_Buffer, p) w = Some m" "unat (ob_size m) = length kvs"
    and ks: "map_keys buf m = Some ks" "ob_size ks = ob_size m" "tv_type ks = FBT_KEY"
    and keys: "\<forall>i<length kvs. fx_reads buf (typed_vector_get ks (of_nat i)) (FKey (fst (sort_map kvs ! i)))"
    and ksays: "\<forall>i<length kvs. says strtod ftoa buf (typed_vector_get ks (of_nat i)) (FKey (fst (sort_map kvs ! i)))"
    and vals: "\<forall>i<length kvs. \<exists>e. fx_vector_get buf m (of_nat i) = Some e \<and> says strtod ftoa buf e (snd (sort_map kvs ! i))"
    and r: "rf_type r = FBT_MAP" "rf_indirect buf r = Some (Fx_Buffer, p)" "rf_byte_width r = w"
  shows "says strtod ftoa buf r (FMap kvs)"
  unfolding says_def
proof (intro allI)
  fix sq kq s
  let ?es = "sort_map kvs" and ?sep = "ascii_bytes '', ''"
  let ?xs = "map (\<lambda>(k, f). key_text (kq \<or> \<not> is_ident k) k @ ascii_bytes '': '' @ f True kq)
    (sort_map (map (map_prod id fx_text) kvs))"
  let ?rec = "\<lambda>e q. fx_to_string strtod ftoa buf e True q"
  have len: "length ?xs = length kvs" by (simp add: sort_map_def)
  have d: "ob_data m = (Fx_Buffer, p)" "ob_width m = w" using m(1) by (auto simp: sized_at_def split: bind_splits)
  have xs: "?xs ! i = key_text (kq \<or> \<not> is_ident (fst (?es ! i))) (fst (?es ! i)) @ ascii_bytes '': '' @
      fx_text (snd (?es ! i)) True kq" if "i < length kvs" for i
    using that unfolding sort_map_map by (simp add: sort_map_def case_prod_unfold)
  have small: "length kvs < 2 ^ 64" unfolding m(2) [symmetric] by (rule order_less_le_trans [OF unsigned_less]) simp
  have "option_loop (append_entry ?rec buf ks m kq) [0..<length ?xs] (s @ ascii_bytes ''{ '') =
      Some ((s @ ascii_bytes ''{ '') @ join_text ?sep ?xs)"
  proof (rule text_loop_join_behind)
    fix i t assume "i < length ?xs"
    then have i: "i < length kvs" by (simp only: len)
    obtain e where e: "fx_vector_get buf m (of_nat i) = Some e" "says strtod ftoa buf e (snd (?es ! i))"
      using vals i by blast
    let ?key = "typed_vector_get ks (of_nat i)"
    have ui: "unat (of_nat i :: size_t) = i" using i small by (intro unat_of_nat_small) simp
    have kty: "rf_type ?key = FBT_KEY"
      using i m(2) ks(2,3) ui by (simp add: typed_vector_get_def word_le_nat_alt del: unat_of_nat)
    obtain q where q: "rf_indirect buf ?key = Some (Fx_Buffer, q)" "c_string buf q = Some (fst (?es ! i))"
      using reads_key keys i by blast
    have k: "(if kq then Some True else do {
         p \<leftarrow> as_key buf ?key;
         not_ident (drop (unat (snd p)) (region_bytes buf (fst p)))
       }) = Some (kq \<or> \<not> is_ident (fst (?es ! i)))"
      using kty q not_ident_text [OF q(2)] by (simp add: as_key_def)
    have "(of_nat i :: size_t) < ob_size ks - 1 \<longleftrightarrow> i < length kvs - 1"
    proof -
      have "unat (ob_size ks - 1) = length kvs - 1"
        using i m(2) ks(2) by (subst unat_sub_le) (simp_all add: word_le_nat_alt)
      then show ?thesis using ui by (simp add: word_less_nat_alt del: unat_of_nat)
    qed
    then show "append_entry ?rec buf ks m kq i t = Some (t @ ?xs ! i @ (if i < length ?xs - 1 then ?sep else []))"
      using k e ksays i unfolding len xs [OF i]
      by (simp add: append_entry_def Let_def says_def)
  qed
  then have "option_loop (append_entry ?rec buf ks m kq) [0..<length kvs] (s @ ascii_bytes ''{ '') =
      Some ((s @ ascii_bytes ''{ '') @ join_text ?sep ?xs)" by (simp only: len)
  moreover have "as_map buf r = Some m" using m(1) r by (simp add: as_map_def)
  moreover have "map_values buf m = Some m" using m(1) d by (simp add: map_values_def)
  ultimately show "fx_to_string strtod ftoa buf r sq kq s = Some (s @ fx_text (FMap kvs) sq kq)"
    using r(1) ks(1,2) m(2) by (simp add: fx_to_string.simps [of _ _ _ r] rf_kinds)
qed

lemma says_string:
  assumes "sized_at buf (Fx_Buffer, p) w = Some v" "unat (ob_size v) = length t"
    and rd: "fx_read (Suc (length t)) buf (Fx_Buffer, p) = Some (t @ [0])"
    and r: "rf_type r = FBT_STRING" "rf_indirect buf r = Some (Fx_Buffer, p)" "rf_byte_width r = w"
    and t: "utf8_text t" "length buf < 2 ^ 32"
  shows "says strtod ftoa buf r (FString t)"
proof -
  have rd': "fx_read (length t) buf (Fx_Buffer, p) = Some t"
    using rd read_bytes_take [of "Suc (length t)" _ _ "t @ [0]" "length t"] by (auto simp: fx_read_def)
  moreover have "ob_data v = (Fx_Buffer, p)" using assms(1) by (auto simp: sized_at_def split: bind_splits)
  ultimately show ?thesis
    using assms(1,2) r escape_at_utf8 [OF t(1) rd'] t(2)
    by (simp add: says_def fx_to_string.simps [of _ _ _ r] fx_string_str_def)
qed

lemma says_key:
  assumes k: "c_string buf p = Some t"
    and r: "rf_type r = FBT_KEY" "rf_indirect buf r = Some (Fx_Buffer, p)"
    and t: "utf8_text t" "length buf < 2 ^ 32"
  shows "says strtod ftoa buf r (FKey t)"
  using k r escape_at_utf8 [OF t(1) c_string_read [OF k]] t(2)
  by (simp add: says_def fx_to_string.simps [of _ _ _ r] rf_kinds as_key_def fx_c_string_def key_text_def)

lemma says_blob:
  assumes "sized_at buf (Fx_Buffer, p) w = Some v" "unat (ob_size v) = length t"
    and rd: "fx_read (length t) buf (Fx_Buffer, p) = Some t"
    and r: "rf_type r = FBT_BLOB" "rf_indirect buf r = Some (Fx_Buffer, p)" "rf_byte_width r = w"
    and t: "utf8_text t" "length buf < 2 ^ 32"
  shows "says strtod ftoa buf r (FBlob t)"
proof -
  have "ob_data v = (Fx_Buffer, p)" using assms(1) by (auto simp: sized_at_def split: bind_splits)
  then show ?thesis
    using assms(1,2) r escape_at_utf8 [OF t(1) rd] t(2)
    by (simp add: says_def fx_to_string.simps [of _ _ _ r] rf_kinds as_blob_def is_typed_vector_def is_fixed_typed_vector_def)
qed

lemma says_scalars:
  "rf_type r = FBT_NULL \<Longrightarrow> says strtod ftoa buf r FNull"
  "rf_type r = FBT_BOOL \<Longrightarrow> read_uint64 buf (rf_data r) (rf_parent_width r) = Some (of_bool b) \<Longrightarrow>
    says strtod ftoa buf r (FBool b)"
  "rf_type r = FBT_INT \<Longrightarrow> read_int64 buf (rf_data r) (rf_parent_width r) = Some i \<Longrightarrow> says strtod ftoa buf r (FInt i)"
  "rf_type r = FBT_UINT \<Longrightarrow> read_uint64 buf (rf_data r) (rf_parent_width r) = Some u \<Longrightarrow> says strtod ftoa buf r (FUInt u)"
  "rf_type r = FBT_INDIRECT_INT \<Longrightarrow> rf_indirect buf r = Some p \<Longrightarrow> read_int64 buf p (rf_byte_width r) = Some i \<Longrightarrow>
    says strtod ftoa buf r (FIndirectInt i)"
  "rf_type r = FBT_INDIRECT_UINT \<Longrightarrow> rf_indirect buf r = Some p \<Longrightarrow> read_uint64 buf p (rf_byte_width r) = Some u \<Longrightarrow>
    says strtod ftoa buf r (FIndirectUInt u)"
  by (simp_all add: says_def fx_to_string.simps [of _ _ _ r] rf_kinds as_int64_def as_uint64_def as_bool_def)

lemma reads_says:
  assumes "length buf < 2 ^ 32"
  shows "fx_reads buf r t \<Longrightarrow> fx_textual t \<longrightarrow> says strtod ftoa buf r t"
    and "fx_content buf ty p w t \<Longrightarrow> fx_textual t \<longrightarrow> (\<forall>r. rf_type r = ty \<longrightarrow> rf_indirect buf r = Some (Fx_Buffer, p) \<longrightarrow>
      rf_byte_width r = w \<longrightarrow> says strtod ftoa buf r t)"
proof (induction rule: fx_reads_fx_content.inducts)
  case (content_map p w m kvs ks)
  show ?case
  proof (intro impI allI)
    fix r assume tx: "fx_textual (FMap kvs)" and r: "rf_type r = FBT_MAP" "rf_indirect buf r = Some (Fx_Buffer, p)"
      "rf_byte_width r = w"
    have e: "utf8_text (fst (sort_map kvs ! i)) \<and> fx_textual (snd (sort_map kvs ! i))" if "i < length kvs" for i
      using tx sort_map_nth [OF that] by (auto simp: list_all_iff)
    show "says strtod ftoa buf r (FMap kvs)"
    proof (rule says_map [OF _ _ _ _ _ _ _ _ r])
      show "sized_at buf (Fx_Buffer, p) w = Some m" "unat (ob_size m) = length kvs" "map_keys buf m = Some ks"
        "ob_size ks = ob_size m" "tv_type ks = FBT_KEY"
        by (fact content_map)+
      show "\<forall>i<length kvs. fx_reads buf (typed_vector_get ks (of_nat i)) (FKey (fst (sort_map kvs ! i)))"
        "\<forall>i<length kvs. says strtod ftoa buf (typed_vector_get ks (of_nat i)) (FKey (fst (sort_map kvs ! i)))"
        using content_map e by simp_all
      show "\<forall>i<length kvs. \<exists>v. fx_vector_get buf m (of_nat i) = Some v \<and> says strtod ftoa buf v (snd (sort_map kvs ! i))"
        using content_map e by blast
    qed
  qed
next
  case (content_vector p w v ts)
  show ?case
  proof (intro impI allI)
    fix r assume tx: "fx_textual (FVector ts)" and r: "rf_type r = FBT_VECTOR" "rf_indirect buf r = Some (Fx_Buffer, p)"
      "rf_byte_width r = w"
    have "\<forall>i<length ts. \<exists>e. fx_vector_get buf v (of_nat i) = Some e \<and> fx_reads buf e (ts ! i) \<and>
        (fx_textual (ts ! i) \<longrightarrow> says strtod ftoa buf e (ts ! i))"
      by (fact content_vector)
    moreover have "\<forall>i<length ts. fx_textual (ts ! i)" using tx by (simp add: list_all_length)
    ultimately have "\<forall>i<length ts. \<exists>e. fx_vector_get buf v (of_nat i) = Some e \<and> says strtod ftoa buf e (ts ! i)"
      by blast
    then show "says strtod ftoa buf r (FVector ts)" by (rule says_vector [OF content_vector(1,3) _ r])
  qed
next
  case (content_typed ty et p w tv ts)
  show ?case
  proof (intro impI allI)
    fix r assume tx: "fx_textual (FTypedVector ts)" and r: "rf_type r = ty" "rf_indirect buf r = Some (Fx_Buffer, p)"
      "rf_byte_width r = w"
    have el: "\<forall>i<length ts. says strtod ftoa buf (typed_vector_get tv (of_nat i)) (ts ! i)"
      using content_typed tx by (simp add: list_all_length)
    show "says strtod ftoa buf r (FTypedVector ts)"
      by (rule says_typed_vector [OF _ _ _ _ el r]) (fact content_typed)+
  qed
next
  case (content_key p s w)
  then show ?case by (simp add: says_key [OF _ _ _ _ assms])
next
  case (content_string p w v s)
  show ?case
  proof (intro impI allI)
    fix r assume tx: "fx_textual (FString s)" and r: "rf_type r = FBT_STRING" "rf_indirect buf r = Some (Fx_Buffer, p)"
      "rf_byte_width r = w"
    from tx have tx: "utf8_text s" by simp
    show "says strtod ftoa buf r (FString s)"
      by (rule says_string [OF _ _ _ r tx assms]) (fact content_string)+
  qed
next
  case (content_blob p w v s)
  show ?case
  proof (intro impI allI)
    fix r assume tx: "fx_textual (FBlob s)" and r: "rf_type r = FBT_BLOB" "rf_indirect buf r = Some (Fx_Buffer, p)"
      "rf_byte_width r = w"
    from tx have tx: "utf8_text s" by simp
    show "says strtod ftoa buf r (FBlob s)"
      by (rule says_blob [OF _ _ _ r tx assms]) (fact content_blob)+
  qed
qed (simp_all add: says_scalars)

text \<open>C26: \<open>ToString\<close> of a value that was built returns, and appends the text of
  that value: the entries of a map in the order of its keys, a key in quotes unless it is an
  identifier, strings in quotes except at the top.  The texts in the value are UTF-8, and it
  holds no floating point numbers.\<close>

theorem fx_to_string_text:
  assumes "fx_wf t" and "fx_textual t" and "fx_cost t < 2 ^ 31"
  shows "\<exists>buf r. fx_encode flags bw t = Some buf \<and> fx_get_root buf (of_nat (length buf)) = Some r \<and>
    (\<forall>sq kq s. fx_to_string strtod ftoa buf r sq kq s = Some (s @ fx_text t sq kq)) \<and>
    fx_text_of strtod ftoa buf r = Some (fx_text t False False)"
proof -
  have "fx_cost t < 2 ^ 60" using assms(3) by (rule order_less_le_trans) simp
  then obtain buf r where r: "fx_encode flags bw t = Some buf" "length buf \<le> fx_cost t + 17"
      "fx_get_root buf (of_nat (length buf)) = Some r" "fx_reads buf r t"
    using fx_roundtrip_from [OF assms(1), of flags bw] by blast
  have "length buf < 2 ^ 32" using r(2) assms(3) by simp
  from reads_says(1) [OF this r(4), of strtod ftoa] show ?thesis
    using r(1,3) assms(2) by (auto simp: says_def fx_text_of_def)
qed

text \<open>\<open>{ a: [ true, null ], "1": "x\n" }\<close>: the key \<open>1\<close> is no identifier.\<close>

theorem fx_to_string_text_witness:
  "\<exists>buf r. fx_encode 3 BIT_WIDTH_8 (FMap [([0x61], FVector [FBool True, FNull]), ([0x31], FString [0x78, 0x0A])]) =
      Some buf \<and> fx_get_root buf (of_nat (length buf)) = Some r \<and>
    fx_text_of (\<lambda>_. 0) (\<lambda>_. []) buf r =
      Some (ascii_bytes ''{ '' @ [0x22, 0x31, 0x22] @ ascii_bytes '': '' @ [0x22, 0x78, 0x5C, 0x6E, 0x22] @
        ascii_bytes '', a: [ true, null ] }'')"
proof -
  let ?t = "FMap [([0x61], FVector [FBool True, FNull]), ([0x31], FString [0x78, 0x0A])]"
  have "utf8_text [0x61]" "utf8_text [0x31]" "utf8_text [0x78, 0x0A]"
    unfolding utf8_text_def
    by (intro exI [of _ "[0x61]"] exI [of _ "[0x31]"] exI [of _ "[0x78, 0x0A]"],
        simp add: unicode_scalar_def utf8_bytes_def)+
  then have "fx_wf ?t" "fx_textual ?t" "fx_cost ?t < 2 ^ 31" by simp_all
  from fx_to_string_text [OF this, of 3 BIT_WIDTH_8 "\<lambda>_. 0" "\<lambda>_. []"]
  obtain buf r where b: "fx_encode 3 BIT_WIDTH_8 ?t = Some buf" "fx_get_root buf (of_nat (length buf)) = Some r"
      "fx_text_of (\<lambda>_. 0) (\<lambda>_. []) buf r = Some (fx_text ?t False False)"
    by blast
  have "quoted [0x31] = [0x22, 0x31, 0x22]" "quoted [0x78, 0x0A] = [0x22, 0x78, 0x5C, 0x6E, 0x22]"
    using quoted_codes [of "[0x31]"] quoted_codes [of "[0x78, 0x0A]"]
    by (simp_all add: unicode_scalar_def utf8_bytes_def code_text_def simple_escape_def)
  moreover have "is_ident [0x61]" "\<not> is_ident [0x31]" by code_simp+
  ultimately have "fx_text ?t False False = ascii_bytes ''{ '' @ [0x22, 0x31, 0x22] @ ascii_bytes '': '' @
      [0x22, 0x78, 0x5C, 0x6E, 0x22] @ ascii_bytes '', a: [ true, null ] }''"
    by (simp add: sort_map_def key_text_def ascii_bytes_def)
  then show ?thesis using b by auto
qed

end
