(* ===== verification/Fx_Findings.thy ===== *)
theory Fx_Findings
  imports Fx_Verifier_Safety Fx_Text
begin

text \<open>
  Corner cases of \<open>examples/flatbuffers/flexbuffers.h\<close> on concrete buffers: what the verifier
  accepts or rejects, and what the builder writes, against what the readers make of it.
\<close>

text \<open>Build a root value and finish the buffer.\<close>

definition fx_build :: "(fx_builder \<Rightarrow> fx_builder option) \<Rightarrow> byte list option" where
  "fx_build f = do { b \<leftarrow> f (fxb_new 1); b \<leftarrow> fxb_finish b; fxb_get_buffer b }"

section \<open>The verifier\<close>

text \<open>
  \<open>VerifyKey\<close> returns at the first byte that is not zero: a key without an end passes, and
  \<open>AsString\<close> reads past the buffer.
\<close>

lemma unterminated_key_verified:
  "map_option fst (fx_verify [0x41, 1, 16, 1] 4 True) = Some True"
  "map_option fst (fx_verify [0x41, 1, 16, 1] 4 False) = Some True"
  "do { r \<leftarrow> fx_get_root [0x41, 1, 16, 1] 4; as_string [0x41, 1, 16, 1] r } = None"
  by code_simp+

text \<open>
  When the tracker already knows a vector, \<open>VerifyVector\<close> returns without \<open>depth_--\<close>: a vector
  with more references to one vector than the limit of the depth is rejected with the tracker
  and accepted without.  Here the limit is 2, and the nesting is 2.
\<close>

definition shared_vector :: "nat \<Rightarrow> byte list option" where
  "shared_vector k = fx_build (\<lambda>b. map_option snd (fxb_vector_of (\<lambda>b. do {
     (_, b) \<leftarrow> fxb_vector_of (\<lambda>b. Some (fxb_int 1 b)) b;
     v \<leftarrow> fxb_last_value b;
     Some ((fxb_reuse_value v ^^ k) b)
   }) b))"

definition verdict :: "nat \<Rightarrow> byte list option \<Rightarrow> bool \<Rightarrow> bool option" where
  "verdict limit buf reuse = do {
     buf \<leftarrow> buf;
     v \<leftarrow> fx_verifier_new buf (of_nat (length buf)) reuse True (of_nat limit);
     map_option fst (fx_verify_buffer (Suc limit) v)
   }"

lemma shared_vectors_rejected:
  "verdict 2 (shared_vector 2) False = Some True" "verdict 2 (shared_vector 2) True = Some False"
  by code_simp+

section \<open>Fixed typed vectors\<close>

text \<open>
  A fixed vector of two keys gets the type of a vector of three integers, which passes
  verification and reads as such.
\<close>

lemma fixed_vector_of_keys_misread:
  "do {
     buf \<leftarrow> fx_build (\<lambda>b. do {
       (_, b) \<leftarrow> fxb_key_cstring [97, 0] b;
       (_, b) \<leftarrow> fxb_key_cstring [98, 0] b;
       map_option snd (fxb_end_vector 0 True True b)
     });
     r \<leftarrow> fx_get_root buf (of_nat (length buf));
     v \<leftarrow> as_fixed_typed_vector buf r;
     Some (map_option fst (fx_verify buf (of_nat (length buf)) False), fv_type v, fv_len v)
   } = Some (Some True, FBT_INT, 3)"
  by code_simp

text \<open>A fixed vector of booleans gets a type code no one reads.\<close>

lemma fixed_vector_of_bools_unreadable:
  "do {
     buf \<leftarrow> fx_build (\<lambda>b. map_option snd (fxb_end_vector 0 True True (fxb_bool True (fxb_bool True b))));
     r \<leftarrow> fx_get_root buf (of_nat (length buf));
     Some (rf_type r, rf_is_any_vector r, map_option fst (fx_verify buf (of_nat (length buf)) False))
   } = Some (41, False, Some False)"
  by code_simp

section \<open>Scalars\<close>

text \<open>
  \<open>MutateBool\<close> copies as many bytes out of the one-byte variable as the element is wide: in a
  vector of two-byte elements it reads past the variable.
\<close>

lemma mutate_bool_reads_past:
  "do {
     buf \<leftarrow> fx_build (\<lambda>b. map_option snd (fxb_vector_of (\<lambda>b. Some (fxb_bool True (fxb_int 300 b))) b));
     r \<leftarrow> fx_get_root buf (of_nat (length buf));
     v \<leftarrow> as_vector buf r;
     e \<leftarrow> fx_vector_get buf v 1;
     Some (as_bool buf e, mutate_bool False buf e)
   } = Some (Some True, None)"
  by code_simp

text \<open>
  \<open>IndirectDouble\<close> takes the width \<open>WidthF\<close> finds but does not convert: of a \<open>double\<close> that is
  exactly a \<open>float\<close> the low four bytes of the \<open>double\<close> are written.
\<close>

lemma indirect_double_truncated:
  assumes "width_f d = BIT_WIDTH_32"
  shows "map_option fxb_buf (fxb_indirect_double d (fxb_new flags)) = Some (le_bytes 4 (unat d))"
  using assms by (simp add: fxb_indirect_double_def fxb_push_indirect_def fxb_align_def fxb_new_def fxb_size_def
    padding_bytes_def fxb_write_bytes_def fxb_write_def fxb_push_def)

lemma width_f_one: "width_f 0x3FF0000000000000 = BIT_WIDTH_32"
  by (simp add: width_f_def double_of_float_def float_of_double_def double_eq_def fp_decode_def fp_bias_def
    fp_encode_fin_def bit_length.simps round_shift_def Let_def)

lemma indirect_double_one_is_zero:
  "map_option fxb_buf (fxb_indirect_double 0x3FF0000000000000 (fxb_new flags)) = Some [0, 0, 0, 0]"
  by (simp add: indirect_double_truncated [OF width_f_one] le_bytes_numeral)

text \<open>\<open>Clear\<close> keeps \<open>has_duplicate_keys_\<close>.\<close>

lemma clear_keeps_duplicates: "has_duplicate_keys (fxb_clear b) = has_duplicate_keys b"
  by (simp add: fxb_clear_def)

section \<open>Text\<close>

text \<open>
  \<open>ToString\<close> escapes a blob as if a zero byte followed it: a blob of the one byte \<open>C3\<close> behind which
  a byte \<open>A9\<close> lies is written as the character they make together.
\<close>

lemma escape_reads_past_blob:
  "escape_at [0xC3, 0xA9] (Fx_Buffer, 0) 1 s = Some (s @ [0x22] @ [0x5C, 0x75, 0x30, 0x30, 0x45, 0x39] @ [0x22])"
proof -
  have "escape_char True False [0xC3, 0xA9] 0 = Some (Some ([0x5C, 0x75, 0x30, 0x30, 0x45, 0x39], 1))" by code_simp
  then show ?thesis
    by (simp add: escape_at_def escape_string_def escape_from.simps [of _ _ _ _ 0] escape_from.simps [of _ _ _ _ 2])
qed

end
