(* ===== verification/Spec2Isabelle.thy ===== *)
theory Spec2Isabelle
  imports Example_Main Fb_Number Fb_Hash Fb_Sorted_Tables Fb_Detached Fb_Minireflect Fx_Findings
begin

text \<open>
  Verification of cpp-iocplib: a C++ server library over Windows I/O completion ports
  (\<open>lib/iocplib\<close>), a client socket library (\<open>lib/winsocklib\<close>), and an example server and
  client (\<open>examples/server\<close>, \<open>examples/client\<close>) that exchange FlatBuffers messages
  (\<open>examples/message\<close>, on the runtime in \<open>examples/flatbuffers\<close>).

  \<^bold>\<open>How the parts interact.\<close>  A connection carries frames: a 32-bit little-endian length and
  that many bytes.  On the server, \<open>Acceptor\<close> keeps accept operations outstanding on a
  completion port, turns each completion into a \<open>SocketSession\<close> and attaches its socket to the
  port; worker threads take completions from the port and pass them to the session's
  \<open>SessionReceiver\<close> (a zero-byte receive that drains the socket) or \<open>SessionSender\<close> (a queue
  of frames drained by overlapped sends).  On the client, \<open>ClientSocket\<close> does both over a
  non-blocking socket, driven by \<open>SocketIoThread\<close>, a loop over event objects.  Both ends cut
  the stream into frames with \<open>PacketReceiver\<close>.  The sessions of the examples verify a frame
  with the FlatBuffers \<open>Verifier\<close>, read it with the generated accessors, and answer with a
  message written by \<open>FlatBufferBuilder\<close>.

  \<^bold>\<open>Conventions.\<close>  A class is a record of its fields, a method a definition on that record
  (the name is the method's, with a prefix where several classes have it); virtual methods,
  callbacks and template arguments are arguments.  Integers are words of their width, so that
  sums wrap as in the program; signed ones are read by \<open>sint\<close>.  \<open>None\<close> of an operation means
  undefined behaviour, a failed assertion or a loop that does not end; an exception is a
  value \<open>Inl e\<close> (\<open>method_result\<close> of \<open>Win_Api\<close>).  Windows is not under \<open>src/\<close>: its functions
  are the fields of the records \<open>os\<close> (sockets, completion ports) and \<open>ev\<close> (event objects),
  acting on an unknown world \<open>'w\<close>, and every property states the documented behaviour it
  needs of them as a hypothesis.  A method that holds a lock throughout is one step; threads
  interleave as steps of an inductive relation.

  \<^bold>\<open>Theories, in the order of the layers.\<close>

  \<^item> \<open>Prelude\<close>: machine types, \<open>std::vector\<close>, \<open>std::copy\<close> and \<open>memcpy\<close>, little-endian integers,
    the collections \<open>bytes_simps\<close> and \<open>ub_intros\<close>.  \<open>Win_Api\<close>: the interface of Windows.

  \<^item> \<open>Socket_Buffer\<close> (\<open>socket_buffer.h\<close>): frames.  \<open>Packet_Receiver\<close> (\<open>packet.h\<close>): cutting
    frames; it refines the byte-at-a-time specification \<open>feed\<close>.

  \<^item> \<open>Byte_Pipe\<close>: the contract of the two senders, the locale \<open>byte_pipe\<close> (pending bytes, what
    queueing and transmitting do to them) with its first-in-first-out theorem; interpreted on
    \<open>SessionSender\<close> (\<open>sender_pipe\<close>) and on \<open>ClientSocket\<close> (\<open>client_pipe\<close>).

  \<^item> \<open>Overlapped\<close>, \<open>Win_Sock\<close>, \<open>Io_Completion_Port\<close> (files of the same names),
    \<open>Session_Sender\<close>, \<open>Session_Receiver\<close>, \<open>Socket_Session\<close> (\<open>socket_session.h/.cpp\<close>),
    \<open>Acceptor\<close> (\<open>acceptor.h\<close>, \<open>server_base.h\<close>): the server library.  What is proved: one
    outstanding operation per direction, order and completeness of the bytes sent, joining of
    the workers, counting of attached sockets, and the ways in which it stalls or hangs.

  \<^item> \<open>Socket_Io_Thread\<close>, \<open>Client_Socket\<close> (files of the same names): the client library; its
    event table, termination of the sending loop, order of the bytes sent, non-termination of
    the reading loop.

  \<^item> \<open>Fb_Base\<close> (\<open>base.h\<close>, \<open>buffer.h\<close>), \<open>Fb_Verifier\<close> (\<open>verifier.h\<close>), \<open>Fb_Table\<close> (\<open>table.h\<close>,
    \<open>string.h\<close>), \<open>Fb_Vector\<close> (\<open>vector.h\<close>): reading a buffer.  The locale \<open>verified_type\<close> is
    the contract of a generated \<open>Verify\<close> function; every message type interprets it.

  \<^item> \<open>Fb_Vector_Downward\<close> (\<open>vector_downward.h\<close> and the allocators), \<open>Fb_Builder\<close>,
    \<open>Fb_Vector_Build\<close> (\<open>flatbuffer_builder.h\<close>): writing a buffer.  \<open>Fb_Builder_Spec\<close>,
    \<open>Fb_Builder_Finish\<close>, \<open>Fb_Message_Spec\<close>, \<open>Fb_Vector_Spec\<close>: the builder as a list of bytes
    (\<open>abs_builder\<close>), and that each operation implements its counterpart there.
    \<open>Fb_Roundtrip\<close>, \<open>Fb_Vector_Roundtrip\<close>, \<open>Fb_Sorted_Tables\<close>: what is written is read back.

  \<^item> \<open>Fb_Detached\<close> (\<open>detached_buffer.h\<close>, moves of \<open>vector_downward.h\<close>): ownership of blocks.

  \<^item> \<open>Fb_Text\<close>, \<open>Fb_Escape\<close>, \<open>Fb_Number\<close> (\<open>util.h\<close>), \<open>Fb_Hash\<close> (\<open>hash.h\<close>): text helpers.

  \<^item> \<open>Fb_Array\<close> (\<open>array.h\<close>, \<open>struct.h\<close>, \<open>buffer_ref.h\<close>, \<open>flatbuffers.h\<close>): fixed-size arrays and small
    helpers.  \<open>Fb_Minireflect\<close> (\<open>minireflect.h\<close>): the walk over a buffer by type tables, a partial
    function over a visitor; the locale \<open>visitor_contract\<close> says what a walk does to the state of
    a visitor, and \<open>ToStringVisitor\<close> is its instance: indentation is balanced, text only grows.

  \<^item> \<open>Fx_Base\<close>, \<open>Fx_Float\<close>, \<open>Fx_Reference\<close>, \<open>Fx_Builder\<close>, \<open>Fx_Verifier\<close> (\<open>flexbuffers.h\<close>): buffers
    without a schema; reading, building, verifying.  \<open>Fx_Verifier_Safety\<close>: the verifier returns
    for all input; the locale \<open>fx_callee\<close> is the contract of a call of \<open>VerifyRef\<close>.
    \<open>Fx_Content\<close>: what a buffer says, as a relation stated with the accessors.  \<open>Fx_Write\<close>,
    \<open>Fx_Vector_Write\<close>, \<open>Fx_Vector_Read\<close>, \<open>Fx_Build\<close>, \<open>Fx_Build_Vector\<close>: the bytes each operation of
    the builder writes, why every offset fits the width chosen for it, and that each leaves
    one value more on the stack that stands for what was asked.  \<open>Fx_Roundtrip\<close>: any value built
    is read back, and every key of a map is found.  \<open>Fx_Text\<close>: \<open>ToString\<close>, a partial function, and
    that it returns the text of the value that was built.
    \<open>Fx_Findings\<close>: where the verifier, the builder and the readers do not fit together.

  \<^item> \<open>Client_Message\<close>, \<open>Client_Message_Build\<close>, \<open>Server_Message\<close>, \<open>Server_Message_Build\<close>
    (\<open>*_message_generated.h\<close>): accessors, verifiers and builders with round trips.

  \<^item> \<open>Server_Session\<close>, \<open>Server_Session_Safety\<close> (\<open>examples/server/client_session.cpp\<close>),
    \<open>Client_Session\<close> (\<open>examples/client/client_session.cpp\<close>), \<open>Example_Dialogue\<close> (both over a
    byte stream cut at will), \<open>Example_Main\<close> (\<open>main.cpp\<close>, \<open>client.cpp\<close>).

  \<^bold>\<open>Bounds and fuel.\<close>  The receive loop of the server is a partial function;
  \<open>srv_loop\<close> is the same loop with fuel, and \<open>srv_loop_terminates\<close> shows that two turns more
  than the chunk has bytes are enough and that the two agree.  Loops of the client and of \<open>Close\<close>
  that really may not end are \<open>partial_function (option)\<close>; that they return, or do not, is
  proved where it is claimed.  The builder is specified below 2 GB, the limit
  \<open>FLATBUFFERS_MAX_BUFFER_SIZE\<close> it asserts itself; hypotheses \<open>< 2 ^ 31\<close> stand for it.

  \<^bold>\<open>Not modelled.\<close>  Allocation failure; the memory model below the locks (data races such as
  the constructor of \<open>SocketIoThread\<close>, which starts its thread before its members exist);
  \<open>GetRemoteAddr\<close>, whose result \<open>OnAccept\<close> ignores; floating point, files and locales of
  \<open>util.h\<close>; overloads that only forward their arguments; and the FlatBuffers headers no part
  of the program uses: the schema parser, reflection over binary schemas, the code generators
  and the gRPC binding, most of whose functions are only declared in the repository.
\<close>

end
